(* ===== verification/Ccrtp_Prelude.thy ===== *)
theory Ccrtp_Prelude
  imports Main "HOL-Library.Word" "HOL-Library.Monad_Syntax"
begin

text \<open>
  Shared vocabulary of the ccRTP development: the machine types, memory images of integers in
  network byte order, bounded block copies, and the linear algebra over bytes that the two ciphers
  need. A C integer of width \<open>w\<close> is a \<open>w word\<close>; a block of memory is a list of bytes; a read or a
  write outside a block is the value \<open>None\<close>.
\<close>

unbundle bit_operations_syntax

section \<open>Machine types and network byte order\<close>

type_synonym byte = "8 word"
type_synonym u16 = "16 word"
type_synonym u32 = "32 word"
type_synonym u64 = "64 word"

definition be16 :: "u16 \<Rightarrow> byte list" where
  "be16 w = [ucast (drop_bit 8 w), ucast w]"

definition be32 :: "u32 \<Rightarrow> byte list" where
  "be32 w = [ucast (drop_bit 24 w), ucast (drop_bit 16 w), ucast (drop_bit 8 w), ucast w]"

definition from_be16 :: "byte list \<Rightarrow> u16" where
  "from_be16 bs = push_bit 8 (ucast (bs ! 0)) OR ucast (bs ! 1)"

definition from_be32 :: "byte list \<Rightarrow> u32" where
  "from_be32 bs = push_bit 24 (ucast (bs ! 0)) OR push_bit 16 (ucast (bs ! 1))
     OR push_bit 8 (ucast (bs ! 2)) OR ucast (bs ! 3)"

lemma from_be16_be16 [simp]: "from_be16 (be16 w) = w"
  unfolding from_be16_def be16_def
  by (rule bit_word_eqI) (auto simp: bit_simps)

lemma bit_byte_high [simp]: "8 \<le> n \<Longrightarrow> \<not> bit (b::byte) n"
  by (auto dest: bit_imp_le_length)

lemma word32_bit_cases:
  fixes n :: nat
  assumes "n < 32"
  obtains (b0) "n < 8"
    | (b1) m where "n = m + 8" "m < 8"
    | (b2) m where "n = m + 16" "m < 8"
    | (b3) m where "n = m + 24" "m < 8"
proof -
  consider "n < 8" | "8 \<le> n" "n - 8 < 8" | "16 \<le> n" "n - 16 < 8" | "24 \<le> n" "n - 24 < 8"
    using assms by linarith
  then show thesis
    by cases (use that in \<open>metis add.commute le_add_diff_inverse\<close>)+
qed

lemma from_be32_be32 [simp]: "from_be32 (be32 w) = w"
proof (rule bit_word_eqI)
  fix n assume "n < LENGTH(32)"
  then have "n < 32" by simp
  then show "bit (from_be32 (be32 w)) n \<longleftrightarrow> bit w n"
    by (cases rule: word32_bit_cases) (auto simp: from_be32_def be32_def bit_simps ac_simps)
qed

lemma list4_cases:
  assumes "length bs = 4"
  obtains a b c d where "bs = [a, b, c, d]"
  using assms by (auto simp: length_Suc_conv eval_nat_numeral)

lemma be32_from_be32: "length bs = 4 \<Longrightarrow> be32 (from_be32 bs) = bs"
  by (erule list4_cases)
    (auto simp: be32_def from_be32_def bit_eq_iff bit_simps)

definition memcpy_at :: "'a list \<Rightarrow> nat \<Rightarrow> 'a list \<Rightarrow> 'a list" where
  "memcpy_at buf pos src = take pos buf @ src @ drop (pos + length src) buf"

lemma length_memcpy_at [simp]:
  "pos + length src \<le> length buf \<Longrightarrow> length (memcpy_at buf pos src) = length buf"
  by (simp add: memcpy_at_def)

lemma and_0xff_eq_take_bit: "(w :: 'a::len word) AND 0xff = take_bit 8 w"
  by (simp add: take_bit_eq_mask mask_eq_exp_minus_1)

lemma xor_xor_cancel [simp]: "(a XOR b) XOR b = (a :: 'a::len word)"
  by (simp add: xor.assoc)

lemma list_chunks4:
  assumes "length p = 16"
  shows "take 4 p @ take 4 (drop 4 p) @ take 4 (drop 8 p) @ take 4 (drop 12 p) = p"
proof -
  have "take 4 (drop 12 p) = drop 12 p"
    using assms by simp
  moreover have "take 4 (drop 8 p) @ drop 12 p = drop 8 p"
    using append_take_drop_id [of 4 "drop 8 p"] by simp
  moreover have "take 4 (drop 4 p) @ drop 8 p = drop 4 p"
    using append_take_drop_id [of 4 "drop 4 p"] by simp
  ultimately show ?thesis
    using append_take_drop_id [of 4 p] by simp
qed

lemma unat_of_nat32: "n < 2 ^ 32 \<Longrightarrow> unat (of_nat n :: u32) = n"
  by (simp add: unsigned_of_nat take_bit_nat_eq_self)

lemma length_be32 [simp]: "length (be32 w) = 4"
  by (simp add: be32_def)

lemma length_be16 [simp]: "length (be16 w) = 2"
  by (simp add: be16_def)

lemma memcpy_at_mid:
  assumes "length pre = pos" "length old = length src"
  shows "memcpy_at (pre @ old @ post) pos src = pre @ src @ post"
  using assms by (simp add: memcpy_at_def)

lemma memcpy_at_Nil [simp]: "memcpy_at buf pos [] = buf"
  by (simp add: memcpy_at_def)

lemma split_at:
  assumes "length r = a + b"
  obtains x y where "r = x @ y" "length x = a" "length y = b"
  using assms by (metis append_take_drop_id length_drop length_take diff_add_inverse min_absorb2 le_add1)

lemma byte_exhaust8: "n < LENGTH(8) \<Longrightarrow> n \<in> {0, 1, 2, 3, 4, 5, 6, 7}"
  by auto

lemma byte_eqI: "(\<And>n. n \<in> {0, 1, 2, 3, 4, 5, 6, 7} \<Longrightarrow> bit a n = bit b n) \<Longrightarrow> a = (b :: byte)"
  by (rule bit_word_eqI) (use byte_exhaust8 in blast)

lemma length_concat_be32 [simp]: "length (concat (map be32 xs)) = 4 * length xs"
  by (induction xs) (simp_all add: be32_def)

section \<open>Bytes as vectors of bits\<close>

lemma take_bit_Suc_xor:
  "take_bit (Suc n) w = take_bit n w XOR (if bit w n then 2 ^ n else 0)" for w :: "'a::len word"
  by (rule bit_word_eqI) (auto simp: bit_simps less_Suc_eq)

lemma byte_xor_induct [case_names zero basis xor]:
  fixes b :: byte
  assumes z: "P 0" and i: "\<And>i. i < 8 \<Longrightarrow> P (2 ^ i)"
    and x: "\<And>x y. P x \<Longrightarrow> P y \<Longrightarrow> P (x XOR y)"
  shows "P b"
proof -
  have "n \<le> 8 \<Longrightarrow> P (take_bit n b)" for n
    by (induction n) (auto simp: take_bit_Suc_xor z i x simp del: take_bit_Suc)
  from this [of 8] show ?thesis
    by (simp add: take_bit_word_eq_self)
qed

definition xor_linear :: "(byte \<Rightarrow> 'a::len word) \<Rightarrow> bool" where
  "xor_linear f \<longleftrightarrow> f 0 = 0 \<and> (\<forall>x y. f (x XOR y) = f x XOR f y)"

lemma less_8_cases: "i < 8 \<Longrightarrow> i = 0 \<or> i = 1 \<or> i = 2 \<or> i = 3 \<or> i = 4 \<or> i = 5 \<or> i = 6 \<or> i = (7::nat)"
  by linarith

lemma xor_linear_ext:
  assumes "xor_linear f" "xor_linear g" "list_all (\<lambda>b. f b = g b) [1, 2, 4, 8, 16, 32, 64, 128]"
  shows "f b = g b"
proof (induction b rule: byte_xor_induct)
  case (basis i)
  then show ?case using assms(3) by (auto dest!: less_8_cases)
qed (use assms in \<open>auto simp: xor_linear_def\<close>)

lemma xor_linear_comp: "xor_linear f \<Longrightarrow> xor_linear g \<Longrightarrow> xor_linear (\<lambda>x. f (g x))"
  by (simp add: xor_linear_def)

lemma xor_linear_id: "xor_linear (\<lambda>x. x)"
  by (simp add: xor_linear_def)

lemma xor_linear_zero: "xor_linear (\<lambda>x. 0)"
  by (simp add: xor_linear_def)

lemma xor_linear_xor: "xor_linear f \<Longrightarrow> xor_linear g \<Longrightarrow> xor_linear (\<lambda>x. f x XOR g x)"
  by (auto simp: xor_linear_def ac_simps)

lemma xor_linear_if: "xor_linear f \<Longrightarrow> xor_linear (\<lambda>x. if c then f x else 0)"
  by (simp add: xor_linear_def)

lemma xor_linear_pow: "xor_linear f \<Longrightarrow> xor_linear (f ^^ n)" for f :: "byte \<Rightarrow> byte"
  by (induction n) (auto simp: xor_linear_def id_def)

lemma ucast_xor8: "ucast (x XOR y) = (ucast x XOR ucast y :: u32)" for x y :: byte
  by (simp add: unsigned_xor_eq)

lemma xor_linear_ucast: "xor_linear f \<Longrightarrow> xor_linear (\<lambda>x. ucast (f x :: byte) :: u32)"
  by (simp add: xor_linear_def ucast_xor8)

lemma unat_and_1: "unat ((q :: 'a::len word) AND 1) = (if bit q 0 then 1 else 0)"
  by (simp add: and_one_eq bit_0 odd_iff_mod_2_eq_one)

section \<open>Multiplication in the fields of 256 elements\<close>

text \<open>
  Reference definition: \<open>gf_xtime p\<close> multiplies by \<open>x\<close> modulo the polynomial \<open>x ^ 8 + p\<close>, and
  \<open>gf_mul p c\<close> multiplies by the constant \<open>c\<close>, bit by bit.
\<close>

definition gf_xtime :: "byte \<Rightarrow> byte \<Rightarrow> byte" where
  "gf_xtime p a = push_bit 1 a XOR (if bit a 7 then p else 0)"

definition gf_mul :: "byte \<Rightarrow> byte \<Rightarrow> byte \<Rightarrow> byte" where
  "gf_mul p c a = foldr (\<lambda>i acc. (if bit c i then (gf_xtime p ^^ i) a else 0) XOR acc) [0..<8] 0"

lemma xor_linear_xtime: "xor_linear (gf_xtime p)"
  unfolding xor_linear_def gf_xtime_def
  by (auto simp: bit_simps bit_eq_iff)

lemma xor_linear_gf_mul: "xor_linear (gf_mul p c)"
proof -
  have "xor_linear (\<lambda>a. foldr (\<lambda>i acc. (if bit c i then (gf_xtime p ^^ i) a else 0) XOR acc) is 0)" for "is"
    by (induction "is")
      (auto intro!: xor_linear_xor xor_linear_zero xor_linear_if xor_linear_pow xor_linear_xtime)
  then show ?thesis by (simp add: gf_mul_def [abs_def])
qed

section \<open>Interface of a block cipher\<close>

text \<open>
  What the modes of operation rely on: a block cipher maps blocks of sixteen bytes to blocks of
  sixteen bytes; one that also decrypts is a permutation of the blocks.
\<close>

locale block_cipher =
  fixes enc :: "'k \<Rightarrow> byte list \<Rightarrow> byte list"
  assumes length_enc: "length b = 16 \<Longrightarrow> length (enc k b) = 16"

locale block_permutation = block_cipher +
  fixes dec :: "'k \<Rightarrow> byte list \<Rightarrow> byte list"
  assumes length_dec: "length b = 16 \<Longrightarrow> length (dec k b) = 16"
    and dec_enc: "length b = 16 \<Longrightarrow> dec k (enc k b) = b"
    and enc_dec: "length b = 16 \<Longrightarrow> enc k (dec k b) = b"
begin

lemma enc_inj: "length a = 16 \<Longrightarrow> length b = 16 \<Longrightarrow> enc k a = enc k b \<longleftrightarrow> a = b"
  by (metis dec_enc)

lemma enc_eq_iff: "length a = 16 \<Longrightarrow> length b = 16 \<Longrightarrow> enc k a = b \<longleftrightarrow> dec k b = a"
  using dec_enc enc_dec by metis

lemma enc_bij: "bij_betw (enc k) {p. length p = 16} {c. length c = 16}"
  by (rule bij_betw_byWitness [where f' = "dec k"])
    (auto simp: dec_enc enc_dec length_enc length_dec)

end

end
