(* ===== verification/Md5_Digest.thy ===== *)
theory Md5_Digest
  imports Ccrtp_Prelude
begin

text \<open>
  The MD5 digest of \<^verbatim>\<open>src/src/queue.cpp\<close>, class \<^verbatim>\<open>MD5Digest\<close>, from which the library draws random numbers when the system has none. The
  class computes in \<^verbatim>\<open>unsigned long\<close>, which has 64 bits here, so that the upper halves of its words hold values that MD5 does not have; the
  lemmas show that the lower halves are the words of RFC 1321. The position of the stream buffer is an offset into \<^verbatim>\<open>buf\<close>.
\<close>

section \<open>The round functions\<close>

definition S11 :: nat where "S11 = 7"
definition S12 :: nat where "S12 = 12"
definition S13 :: nat where "S13 = 17"
definition S14 :: nat where "S14 = 22"
definition S21 :: nat where "S21 = 5"
definition S22 :: nat where "S22 = 9"
definition S23 :: nat where "S23 = 14"
definition S24 :: nat where "S24 = 20"
definition S31 :: nat where "S31 = 4"
definition S32 :: nat where "S32 = 11"
definition S33 :: nat where "S33 = 16"
definition S34 :: nat where "S34 = 23"
definition S41 :: nat where "S41 = 6"
definition S42 :: nat where "S42 = 10"
definition S43 :: nat where "S43 = 15"
definition S44 :: nat where "S44 = 21"

lemmas md5_shifts = S11_def S12_def S13_def S14_def S21_def S22_def S23_def S24_def S31_def S32_def S33_def S34_def S41_def S42_def S43_def S44_def

definition rotate_left :: "u64 \<Rightarrow> nat \<Rightarrow> u64" where
  "rotate_left x n = push_bit n x OR drop_bit (32 - n) (x AND 0xffffffff)"

definition md5F :: "u64 \<Rightarrow> u64 \<Rightarrow> u64 \<Rightarrow> u64" where "md5F x y z = (x AND y) OR (NOT x AND z)"
definition md5G :: "u64 \<Rightarrow> u64 \<Rightarrow> u64 \<Rightarrow> u64" where "md5G x y z = (x AND z) OR (y AND NOT z)"
definition md5H :: "u64 \<Rightarrow> u64 \<Rightarrow> u64 \<Rightarrow> u64" where "md5H x y z = x XOR y XOR z"
definition md5I :: "u64 \<Rightarrow> u64 \<Rightarrow> u64 \<Rightarrow> u64" where "md5I x y z = y XOR (x OR NOT z)"

definition FF :: "u64 \<Rightarrow> u64 \<Rightarrow> u64 \<Rightarrow> u64 \<Rightarrow> u64 \<Rightarrow> nat \<Rightarrow> u64 \<Rightarrow> u64" where
  "FF a b c d x s ac = rotate_left (a + (md5F b c d + x + ac)) s + b"
definition GG :: "u64 \<Rightarrow> u64 \<Rightarrow> u64 \<Rightarrow> u64 \<Rightarrow> u64 \<Rightarrow> nat \<Rightarrow> u64 \<Rightarrow> u64" where
  "GG a b c d x s ac = rotate_left (a + (md5G b c d + x + ac)) s + b"
definition HH :: "u64 \<Rightarrow> u64 \<Rightarrow> u64 \<Rightarrow> u64 \<Rightarrow> u64 \<Rightarrow> nat \<Rightarrow> u64 \<Rightarrow> u64" where
  "HH a b c d x s ac = rotate_left (a + (md5H b c d + x + ac)) s + b"
definition II :: "u64 \<Rightarrow> u64 \<Rightarrow> u64 \<Rightarrow> u64 \<Rightarrow> u64 \<Rightarrow> nat \<Rightarrow> u64 \<Rightarrow> u64" where
  "II a b c d x s ac = rotate_left (a + (md5I b c d + x + ac)) s + b"

section \<open>The digest object\<close>

record MD5Digest =
  md5state :: "u64 \<times> u64 \<times> u64 \<times> u64"
  md5count :: "u64 \<times> u64"
  md5buf :: "byte list"
  bpos :: nat
  pptr :: nat
  md5sum :: "byte list"
  updated :: bool

definition initDigest :: "MD5Digest \<Rightarrow> MD5Digest" where
  "initDigest m = m\<lparr>md5count := (0, 0), md5state := (0x67452301, 0xefcdab89, 0x98badcfe, 0x10325476), bpos := 0, updated := True, pptr := 0\<rparr>"

text \<open>The calls of \<^verbatim>\<open>update\<close> in their order; their first four arguments move on by one place from one call to the next.\<close>

definition md5_calls :: "((u64 \<Rightarrow> u64 \<Rightarrow> u64 \<Rightarrow> u64 \<Rightarrow> u64 \<Rightarrow> nat \<Rightarrow> u64 \<Rightarrow> u64) \<times> nat \<times> nat \<times> u64) list" where
  "md5_calls =
    [(FF, 0, S11, 0xd76aa478), (FF, 1, S12, 0xe8c7b756), (FF, 2, S13, 0x242070db), (FF, 3, S14, 0xc1bdceee),
     (FF, 4, S11, 0xf57c0faf), (FF, 5, S12, 0x4787c62a), (FF, 6, S13, 0xa8304613), (FF, 7, S14, 0xfd469501),
     (FF, 8, S11, 0x698098d8), (FF, 9, S12, 0x8b44f7af), (FF, 10, S13, 0xffff5bb1), (FF, 11, S14, 0x895cd7be),
     (FF, 12, S11, 0x6b901122), (FF, 13, S12, 0xfd987193), (FF, 14, S13, 0xa679438e), (FF, 15, S14, 0x49b40821),
     (GG, 1, S21, 0xf61e2562), (GG, 6, S22, 0xc040b340), (GG, 11, S23, 0x265e5a51), (GG, 0, S24, 0xe9b6c7aa),
     (GG, 5, S21, 0xd62f105d), (GG, 10, S22, 0x2441453), (GG, 15, S23, 0xd8a1e681), (GG, 4, S24, 0xe7d3fbc8),
     (GG, 9, S21, 0x21e1cde6), (GG, 14, S22, 0xc33707d6), (GG, 3, S23, 0xf4d50d87), (GG, 8, S24, 0x455a14ed),
     (GG, 13, S21, 0xa9e3e905), (GG, 2, S22, 0xfcefa3f8), (GG, 7, S23, 0x676f02d9), (GG, 12, S24, 0x8d2a4c8a),
     (HH, 5, S31, 0xfffa3942), (HH, 8, S32, 0x8771f681), (HH, 11, S33, 0x6d9d6122), (HH, 14, S34, 0xfde5380c),
     (HH, 1, S31, 0xa4beea44), (HH, 4, S32, 0x4bdecfa9), (HH, 7, S33, 0xf6bb4b60), (HH, 10, S34, 0xbebfbc70),
     (HH, 13, S31, 0x289b7ec6), (HH, 0, S32, 0xeaa127fa), (HH, 3, S33, 0xd4ef3085), (HH, 6, S34, 0x4881d05),
     (HH, 9, S31, 0xd9d4d039), (HH, 12, S32, 0xe6db99e5), (HH, 15, S33, 0x1fa27cf8), (HH, 2, S34, 0xc4ac5665),
     (II, 0, S41, 0xf4292244), (II, 7, S42, 0x432aff97), (II, 14, S43, 0xab9423a7), (II, 5, S44, 0xfc93a039),
     (II, 12, S41, 0x655b59c3), (II, 3, S42, 0x8f0ccc92), (II, 10, S43, 0xffeff47d), (II, 1, S44, 0x85845dd1),
     (II, 8, S41, 0x6fa87e4f), (II, 15, S42, 0xfe2ce6e0), (II, 6, S43, 0xa3014314), (II, 13, S44, 0x4e0811a1),
     (II, 4, S41, 0xf7537e82), (II, 11, S42, 0xbd3af235), (II, 2, S43, 0x2ad7d2bb), (II, 9, S44, 0xeb86d391)]"

text \<open>The words of a block: a shifted byte is an \<^verbatim>\<open>int\<close>, so the highest one is extended with its sign.\<close>

definition int_shl :: "byte \<Rightarrow> nat \<Rightarrow> u64" where
  "int_shl b n = scast (push_bit n (ucast b) :: u32)"

definition md5_x :: "byte list \<Rightarrow> nat \<Rightarrow> u64" where
  "md5_x buf i = ucast (buf ! (i * 4)) OR int_shl (buf ! (i * 4 + 1)) 8 OR int_shl (buf ! (i * 4 + 2)) 16 OR int_shl (buf ! (i * 4 + 3)) 24"

fun md5_run ::
  "(nat \<Rightarrow> u64) \<Rightarrow> ((u64 \<Rightarrow> u64 \<Rightarrow> u64 \<Rightarrow> u64 \<Rightarrow> u64 \<Rightarrow> nat \<Rightarrow> u64 \<Rightarrow> u64) \<times> nat \<times> nat \<times> u64) list
   \<Rightarrow> u64 \<times> u64 \<times> u64 \<times> u64 \<Rightarrow> u64 \<times> u64 \<times> u64 \<times> u64" where
  "md5_run x [] st = st"
| "md5_run x ((f, i, s, ac) # cs) (a, b, c, d) = md5_run x cs (d, f a b c d (x i) s ac, b, c)"

definition md5_update :: "MD5Digest \<Rightarrow> MD5Digest" where
  "md5_update m =
     (if bpos m = 0 then m
      else let buf = take (bpos m) (md5buf m) @ replicate (64 - bpos m) 0;
               (c0, c1) = md5count m;
               c0 = c0 + 512;
               c1 = (if c0 < 512 then c1 + 1 else c1);
               (s0, s1, s2, s3) = md5state m;
               (a, b, c, d) = md5_run (md5_x buf) md5_calls (s0, s1, s2, s3)
           in m\<lparr>md5buf := buf, bpos := 0, md5count := (c0, c1), md5state := (s0 + a, s1 + b, s2 + c, s3 + d), updated := True\<rparr>)"

definition put_byte :: "byte \<Rightarrow> MD5Digest \<Rightarrow> MD5Digest" where
  "put_byte c m =
     (let m = m\<lparr>md5buf := (md5buf m)[bpos m := c], bpos := bpos m + 1\<rparr>
      in if 64 \<le> bpos m then md5_update m else m)"

definition putDigest :: "byte list \<Rightarrow> MD5Digest \<Rightarrow> MD5Digest" where
  "putDigest buffer m =
     (let m = m\<lparr>bpos := pptr m\<rparr>;
          m = (if 64 \<le> bpos m then md5_update m else m);
          m = fold put_byte buffer m
      in m\<lparr>pptr := bpos m\<rparr>)"

text \<open>Output to the digest as a stream: a character goes into the buffer while there is room, and to \<^verbatim>\<open>overflow\<close> otherwise; \<^term>\<open>None\<close> is \<^verbatim>\<open>EOF\<close>.\<close>

definition md5_overflow :: "byte option \<Rightarrow> MD5Digest \<Rightarrow> MD5Digest" where
  "md5_overflow c m =
     (let m = m\<lparr>updated := True, bpos := pptr m\<rparr>;
          m = (if 64 \<le> bpos m then md5_update m else m);
          m = (case c of None \<Rightarrow> m | Some c \<Rightarrow> m\<lparr>md5buf := (md5buf m)[bpos m := c], bpos := bpos m + 1\<rparr>)
      in m\<lparr>pptr := bpos m\<rparr>)"

definition sputc :: "byte \<Rightarrow> MD5Digest \<Rightarrow> MD5Digest" where
  "sputc c m = (if pptr m < 64 then m\<lparr>md5buf := (md5buf m)[pptr m := c], pptr := pptr m + 1\<rparr> else md5_overflow (Some c) m)"

definition low_bytes :: "u64 \<Rightarrow> byte list" where
  "low_bytes w = [ucast w AND 0xff, ucast (drop_bit 8 w AND 0xff), ucast (drop_bit 16 w AND 0xff), ucast (drop_bit 24 w AND 0xff)]"

definition md5_commit :: "MD5Digest \<Rightarrow> MD5Digest" where
  "md5_commit m =
     (let m = m\<lparr>bpos := pptr m\<rparr> in
      if \<not> updated m \<and> bpos m = 0 then m
      else
        let (c0, c1) = md5count m;
            c0 = c0 + of_nat (8 * bpos m);
            c1 = (if c0 < of_nat (8 * bpos m) then c1 + 1 else c1);
            m = m\<lparr>md5count := (c0, c1)\<rparr>;
            cbuf = low_bytes c0 @ low_bytes c1;
            i = unat (drop_bit 3 c0 AND 0x3f);
            len = (if i < 56 then 56 - i else 120 - i);
            m = (if len \<noteq> 0 then putDigest (take len (0x80 # replicate 63 0)) m else m);
            m = putDigest cbuf m;
            (s0, s1, s2, s3) = md5state m;
            m = m\<lparr>md5sum := low_bytes s0 @ low_bytes s1 @ low_bytes s2 @ low_bytes s3\<rparr>
        in initDigest m)"

definition getDigest :: "MD5Digest \<Rightarrow> byte list \<times> MD5Digest" where
  "getDigest m = (let m = md5_commit m in (md5sum m, m))"

text \<open>The digest as a string of hexadecimal digits.\<close>

definition hex_byte :: "byte \<Rightarrow> string" where
  "hex_byte b = [''0123456789abcdef'' ! unat (b div 16), ''0123456789abcdef'' ! unat (b mod 16)]"

definition strDigest :: "MD5Digest \<Rightarrow> string \<times> MD5Digest" where
  "strDigest m = (let m = md5_commit m in (concat (map hex_byte (md5sum m)), m))"

text \<open>\<open>mem\<close> is what the arrays of a new object hold.\<close>

definition newMD5Digest :: "(nat \<Rightarrow> byte) \<Rightarrow> MD5Digest" where
  "newMD5Digest mem =
     (initDigest \<lparr>md5state = (0, 0, 0, 0), md5count = (0, 0), md5buf = map mem [0..<64], bpos = 0, pptr = 0, md5sum = map mem [0..<16], updated = True\<rparr>)
       \<lparr>updated := True\<rparr>"

section \<open>The algorithm of RFC 1321\<close>

text \<open>The reference: words of 32 bits, the message padded as a whole.\<close>

definition rfc_T :: "u32 list" where
  "rfc_T =
    [0xd76aa478, 0xe8c7b756, 0x242070db, 0xc1bdceee, 0xf57c0faf, 0x4787c62a, 0xa8304613, 0xfd469501,
     0x698098d8, 0x8b44f7af, 0xffff5bb1, 0x895cd7be, 0x6b901122, 0xfd987193, 0xa679438e, 0x49b40821,
     0xf61e2562, 0xc040b340, 0x265e5a51, 0xe9b6c7aa, 0xd62f105d, 0x02441453, 0xd8a1e681, 0xe7d3fbc8,
     0x21e1cde6, 0xc33707d6, 0xf4d50d87, 0x455a14ed, 0xa9e3e905, 0xfcefa3f8, 0x676f02d9, 0x8d2a4c8a,
     0xfffa3942, 0x8771f681, 0x6d9d6122, 0xfde5380c, 0xa4beea44, 0x4bdecfa9, 0xf6bb4b60, 0xbebfbc70,
     0x289b7ec6, 0xeaa127fa, 0xd4ef3085, 0x04881d05, 0xd9d4d039, 0xe6db99e5, 0x1fa27cf8, 0xc4ac5665,
     0xf4292244, 0x432aff97, 0xab9423a7, 0xfc93a039, 0x655b59c3, 0x8f0ccc92, 0xffeff47d, 0x85845dd1,
     0x6fa87e4f, 0xfe2ce6e0, 0xa3014314, 0x4e0811a1, 0xf7537e82, 0xbd3af235, 0x2ad7d2bb, 0xeb86d391]"

definition rfc_f :: "nat \<Rightarrow> u32 \<Rightarrow> u32 \<Rightarrow> u32 \<Rightarrow> u32" where
  "rfc_f r x y z =
     (if r = 0 then (x AND y) OR (NOT x AND z) else if r = 1 then (x AND z) OR (y AND NOT z) else if r = 2 then x XOR y XOR z else y XOR (x OR NOT z))"

definition rfc_k :: "nat \<Rightarrow> nat" where
  "rfc_k i = [i, 5 * i + 1, 3 * i + 5, 7 * i] ! (i div 16) mod 16"

definition rfc_s :: "nat \<Rightarrow> nat" where
  "rfc_s i = [[7, 12, 17, 22], [5, 9, 14, 20], [4, 11, 16, 23], [6, 10, 15, 21]] ! (i div 16) ! (i mod 4)"

fun rfc_step :: "(nat \<Rightarrow> u32) \<Rightarrow> nat \<Rightarrow> u32 \<times> u32 \<times> u32 \<times> u32 \<Rightarrow> u32 \<times> u32 \<times> u32 \<times> u32" where
  "rfc_step X i (a, b, c, d) = (d, b + word_rotl (rfc_s i) (a + rfc_f (i div 16) b c d + X (rfc_k i) + rfc_T ! i), b, c)"

definition le32 :: "u32 \<Rightarrow> byte list" where
  "le32 w = [ucast w, ucast (drop_bit 8 w), ucast (drop_bit 16 w), ucast (drop_bit 24 w)]"

definition le64 :: "u64 \<Rightarrow> byte list" where
  "le64 w = le32 (ucast w) @ le32 (ucast (drop_bit 32 w))"

definition from_le32 :: "byte list \<Rightarrow> u32" where
  "from_le32 bs = ucast (bs ! 0) OR push_bit 8 (ucast (bs ! 1)) OR push_bit 16 (ucast (bs ! 2)) OR push_bit 24 (ucast (bs ! 3))"

fun add4 :: "u32 \<times> u32 \<times> u32 \<times> u32 \<Rightarrow> u32 \<times> u32 \<times> u32 \<times> u32 \<Rightarrow> u32 \<times> u32 \<times> u32 \<times> u32" where
  "add4 (a, b, c, d) (a', b', c', d') = (a + a', b + b', c + c', d + d')"

definition rfc_block :: "byte list \<Rightarrow> u32 \<times> u32 \<times> u32 \<times> u32 \<Rightarrow> u32 \<times> u32 \<times> u32 \<times> u32" where
  "rfc_block blk h = add4 h (fold (rfc_step (\<lambda>i. from_le32 (drop (4 * i) blk))) [0..<64] h)"

function rfc_blocks :: "byte list \<Rightarrow> u32 \<times> u32 \<times> u32 \<times> u32 \<Rightarrow> u32 \<times> u32 \<times> u32 \<times> u32" where
  "rfc_blocks msg h = (if length msg < 64 then h else rfc_blocks (drop 64 msg) (rfc_block (take 64 msg) h))"
  by pat_completeness auto
termination by (relation "measure (\<lambda>(msg, _). length msg)") auto

declare rfc_blocks.simps [simp del]

definition rfc_pad :: "byte list \<Rightarrow> byte list" where
  "rfc_pad msg = msg @ [0x80] @ replicate ((119 - length msg mod 64) mod 64) 0 @ le64 (of_nat (8 * length msg))"

definition rfc_init :: "u32 \<times> u32 \<times> u32 \<times> u32" where
  "rfc_init = (0x67452301, 0xefcdab89, 0x98badcfe, 0x10325476)"

definition md5_rfc1321 :: "byte list \<Rightarrow> byte list" where
  "md5_rfc1321 msg = (case rfc_blocks (rfc_pad msg) rfc_init of (a, b, c, d) \<Rightarrow> le32 a @ le32 b @ le32 c @ le32 d)"

section \<open>The lower halves\<close>

abbreviation lo32 :: "u64 \<Rightarrow> u32" where "lo32 x \<equiv> ucast x"

lemma lo32_add [simp]: "lo32 (a + b) = lo32 a + lo32 b"
  by transfer (simp, metis (no_types) take_bit_add take_bit_take_bit min.absorb1 numeral_le_iff semiring_norm(68,69,71))

lemma lo32_NOT [simp]: "lo32 (NOT a) = NOT (lo32 a)"
  by (rule bit_word_eqI) (simp add: bit_unsigned_iff bit_not_iff)

lemma lo32_bits [simp]: "lo32 (a AND b) = lo32 a AND lo32 b" "lo32 (a OR b) = lo32 a OR lo32 b" "lo32 (a XOR b) = lo32 a XOR lo32 b"
  by (simp_all add: unsigned_and_eq unsigned_or_eq unsigned_xor_eq)

lemma and_low_mask: "(x :: u64) AND 0xffffffff = take_bit 32 x"
  by (simp add: take_bit_eq_mask mask_eq_exp_minus_1)

lemma lo32_rotate_left:
  assumes "0 < n" "n < 32"
  shows "lo32 (rotate_left x n) = word_rotl n (lo32 x)"
proof (rule bit_word_eqI)
  fix k assume "k < LENGTH(32)"
  then have k: "k < 32" by simp
  have m: "(k + (32 - n)) mod 32 = (if n \<le> k then k - n else k + (32 - n))" using assms k by (auto simp: mod_if)
  have "bit (lo32 (rotate_left x n)) k = (n \<le> k \<and> bit x (k - n) \<or> k + (32 - n) < 32 \<and> bit x (k + (32 - n)))"
    using k by (simp only: rotate_left_def and_low_mask bit_unsigned_iff bit_or_iff bit_push_bit_iff bit_drop_bit_eq bit_take_bit_iff o_def) (auto simp: ac_simps)
  also have "\<dots> = bit (word_rotl n (lo32 x)) k"
    using k assms m by (simp only: bit_word_rotl_iff bit_unsigned_iff) (auto split: if_splits)
  finally show "bit (lo32 (rotate_left x n)) k = bit (word_rotl n (lo32 x)) k" .
qed

lemma lo32_calls:
  assumes "0 < s" "s < 32"
  shows "lo32 (FF a b c d x s ac) = lo32 b + word_rotl s (lo32 a + rfc_f 0 (lo32 b) (lo32 c) (lo32 d) + lo32 x + lo32 ac)"
    "lo32 (GG a b c d x s ac) = lo32 b + word_rotl s (lo32 a + rfc_f 1 (lo32 b) (lo32 c) (lo32 d) + lo32 x + lo32 ac)"
    "lo32 (HH a b c d x s ac) = lo32 b + word_rotl s (lo32 a + rfc_f 2 (lo32 b) (lo32 c) (lo32 d) + lo32 x + lo32 ac)"
    "lo32 (II a b c d x s ac) = lo32 b + word_rotl s (lo32 a + rfc_f 3 (lo32 b) (lo32 c) (lo32 d) + lo32 x + lo32 ac)"
  using assms by (simp_all add: FF_def GG_def HH_def II_def lo32_rotate_left md5F_def md5G_def md5H_def md5I_def rfc_f_def ac_simps)

lemma lo32_int_shl: "lo32 (int_shl b n) = push_bit n (ucast b)"
  unfolding int_shl_def by (rule bit_word_eqI) (simp add: bit_unsigned_iff bit_signed_iff)

lemma lo32_byte: "lo32 (ucast (b :: byte)) = ucast b"
  by (rule bit_word_eqI) (auto simp: bit_unsigned_iff)

lemma lo32_md5_x: "4 * i + 4 \<le> length buf \<Longrightarrow> lo32 (md5_x buf i) = from_le32 (drop (4 * i) buf)"
  by (simp add: md5_x_def from_le32_def lo32_int_shl lo32_byte ac_simps)

section \<open>One block\<close>

fun lo4 :: "u64 \<times> u64 \<times> u64 \<times> u64 \<Rightarrow> u32 \<times> u32 \<times> u32 \<times> u32" where
  "lo4 (a, b, c, d) = (lo32 a, lo32 b, lo32 c, lo32 d)"

text \<open>A call agrees with the step of the reference with its number.\<close>

definition call_ok :: "nat \<Rightarrow> (u64 \<Rightarrow> u64 \<Rightarrow> u64 \<Rightarrow> u64 \<Rightarrow> u64 \<Rightarrow> nat \<Rightarrow> u64 \<Rightarrow> u64) \<times> nat \<times> nat \<times> u64 \<Rightarrow> bool" where
  "call_ok n call \<longleftrightarrow> (case call of (f, i, s, ac) \<Rightarrow> f = [FF, GG, HH, II] ! (n div 16) \<and> i = rfc_k n \<and> s = rfc_s n \<and> lo32 ac = rfc_T ! n)"

lemma md5_calls_ok: "list_all2 call_ok [0..<64] md5_calls"
  by (simp add: md5_calls_def upt_rec call_ok_def md5_shifts rfc_k_def rfc_s_def rfc_T_def)

lemma call_step:
  assumes "call_ok n (f, i, s, ac)" "n < 64"
  shows "lo32 (f a b c d x s ac) = lo32 b + word_rotl (rfc_s n) (lo32 a + rfc_f (n div 16) (lo32 b) (lo32 c) (lo32 d) + lo32 x + rfc_T ! n)"
proof -
  have "n div 16 \<in> {0, 1, 2, 3}" "n mod 4 \<in> {0, 1, 2, 3}" using assms(2) by auto
  then have "0 < rfc_s n" "rfc_s n < 32" by (auto simp: rfc_s_def)
  then show ?thesis using assms(1) \<open>n div 16 \<in> _\<close> by (auto simp: call_ok_def lo32_calls)
qed

lemma rfc_k_less: "rfc_k n < 16"
  by (simp add: rfc_k_def)

lemma lo4_run:
  assumes "list_all2 call_ok ns calls" "set ns \<subseteq> {..<64}" "\<And>i. i < 16 \<Longrightarrow> lo32 (x i) = X i"
  shows "lo4 (md5_run x calls st) = fold (rfc_step X) ns (lo4 st)"
  using assms(1,2)
proof (induction ns calls arbitrary: st rule: list_all2_induct)
  case (Cons n ns call calls)
  obtain f i s ac where call: "call = (f, i, s, ac)" by (cases call) auto
  obtain a b c d where st: "st = (a, b, c, d)" by (cases st) auto
  have "i = rfc_k n" using Cons(1) by (simp add: call call_ok_def)
  then have "lo4 (d, f a b c d (x i) s ac, b, c) = rfc_step X n (lo4 st)"
    using call_step [of n f i s ac] Cons(1,4) by (simp add: call st assms(3) rfc_k_less)
  then show ?case using Cons(3,4) by (simp add: call st)
qed simp

definition count_ok :: "byte list \<Rightarrow> u64 \<times> u64 \<Rightarrow> bool" where
  "count_ok A c \<longleftrightarrow> fst c = of_nat (8 * length A) \<and> (8 * length A < 2 ^ 32 \<longrightarrow> snd c = 0)"

lemma count_ok_add: "count_ok A c \<Longrightarrow> length blk = 64 \<Longrightarrow> count_ok (A @ blk) (fst c + 512, if fst c + 512 < 512 then snd c + 1 else snd c)"
proof -
  assume c: "count_ok A c" "length blk = 64"
  have "fst c + 512 = of_nat (8 * length A + 512)" using c(1) by (simp add: count_ok_def)
  moreover have "8 * length A + 512 < 2 ^ 32 \<Longrightarrow> \<not> (of_nat (8 * length A + 512) :: u64) < 512"
    by (simp only: word_less_nat_alt unsigned_of_nat) (simp add: take_bit_nat_eq_self del: of_nat_add)
  ultimately show ?thesis using c by (auto simp: count_ok_def)
qed

lemma md5_update_block:
  assumes "bpos m = 64" "length (md5buf m) = 64"
  shows "lo4 (md5state (md5_update m)) = rfc_block (md5buf m) (lo4 (md5state m))" "bpos (md5_update m) = 0" "md5buf (md5_update m) = md5buf m"
    "count_ok A (md5count m) \<Longrightarrow> length blk = 64 \<Longrightarrow> count_ok (A @ blk) (md5count (md5_update m))" "updated (md5_update m)"
proof -
  have "lo4 (md5_run (md5_x (md5buf m)) md5_calls (md5state m)) = fold (rfc_step (\<lambda>i. from_le32 (drop (4 * i) (md5buf m)))) [0..<64] (lo4 (md5state m))"
    by (rule lo4_run [OF md5_calls_ok]) (auto simp: assms(2) lo32_md5_x)
  moreover have "lo4 (md5state (md5_update m)) = add4 (lo4 (md5state m)) (lo4 (md5_run (md5_x (md5buf m)) md5_calls (md5state m)))"
    using assms by (cases "md5state m"; cases "md5_run (md5_x (md5buf m)) md5_calls (md5state m)") (simp add: md5_update_def split_beta Let_def)
  ultimately show "lo4 (md5state (md5_update m)) = rfc_block (md5buf m) (lo4 (md5state m))" by (simp add: rfc_block_def)
qed (use assms count_ok_add in \<open>auto simp: md5_update_def split_beta Let_def\<close>)

section \<open>Whole messages\<close>

lemma rfc_blocks_short [simp]: "length r < 64 \<Longrightarrow> rfc_blocks r h = h"
  by (simp add: rfc_blocks.simps)

lemma rfc_blocks_append:
  "64 dvd length a \<Longrightarrow> rfc_blocks (a @ r) h = rfc_blocks r (rfc_blocks a h)"
proof (induction a h rule: rfc_blocks.induct)
  case (1 a h)
  show ?case
  proof (cases "length a < 64")
    case True
    then have "a = []" using 1(2) by (auto elim: dvdE)
    then show ?thesis by simp
  next
    case False
    then have "64 dvd length (drop 64 a)" using 1(2) by (simp add: dvd_diff_nat)
    then have "rfc_blocks (drop 64 a @ r) (rfc_block (take 64 a) h) = rfc_blocks r (rfc_blocks (drop 64 a) (rfc_block (take 64 a) h))" using 1(1) False by blast
    then show ?thesis using False by (simp add: rfc_blocks.simps [of "a @ r" h] rfc_blocks.simps [of a h])
  qed
qed

lemma rfc_blocks_one: "length blk = 64 \<Longrightarrow> rfc_blocks blk h = rfc_block blk h"
  by (simp add: rfc_blocks.simps [of blk])

text \<open>The object after the complete blocks \<open>A\<close> and the bytes \<open>R\<close> of the next one; \<open>k\<close> says whether the count is still that of the message.\<close>

definition md5_rep :: "bool \<Rightarrow> byte list \<Rightarrow> byte list \<Rightarrow> MD5Digest \<Rightarrow> bool" where
  "md5_rep k A R m \<longleftrightarrow> 64 dvd length A \<and> length R \<le> 64 \<and> bpos m = length R \<and> length (md5buf m) = 64 \<and> take (length R) (md5buf m) = R \<and>
     lo4 (md5state m) = rfc_blocks A rfc_init \<and> updated m \<and> (k \<longrightarrow> count_ok A (md5count m))"

lemma md5_rep_pptr [simp]: "md5_rep k A R (m\<lparr>pptr := n\<rparr>) = md5_rep k A R m"
  by (simp add: md5_rep_def)

lemma md5_update_rep:
  assumes "md5_rep k A R m" "length R = 64"
  shows "md5_rep k (A @ R) [] (md5_update m)"
proof -
  have b: "bpos m = 64" "length (md5buf m) = 64" "md5buf m = R" using assms by (auto simp: md5_rep_def)
  have "rfc_blocks (A @ R) rfc_init = rfc_block R (rfc_blocks A rfc_init)"
    using assms by (subst rfc_blocks_append) (auto simp: md5_rep_def rfc_blocks_one)
  then show ?thesis using assms md5_update_block [OF b(1,2)] b by (simp add: md5_rep_def)
qed

lemma store_byte_rep:
  assumes "md5_rep k A R m" "length R < 64"
  shows "md5_rep k A (R @ [c]) (m\<lparr>md5buf := (md5buf m)[bpos m := c], bpos := bpos m + 1\<rparr>)"
  using assms by (auto simp: md5_rep_def take_Suc_conv_app_nth)

lemma flush_rep:
  assumes "md5_rep k A R m"
  shows "\<exists>A' R'. A' @ R' = A @ R \<and> length R' < 64 \<and> md5_rep k A' R' (if 64 \<le> bpos m then md5_update m else m)"
proof (cases "length R = 64")
  case True
  then have "md5_rep k (A @ R) [] (if 64 \<le> bpos m then md5_update m else m)" using assms md5_update_rep by (simp add: md5_rep_def [of k A])
  then show ?thesis by force
next
  case False
  then have "length R < 64" "\<not> 64 \<le> bpos m" using assms by (simp_all add: md5_rep_def)
  then show ?thesis using assms by auto
qed

lemma put_byte_rep:
  assumes "md5_rep k A R m" "length R < 64"
  shows "\<exists>A' R'. A' @ R' = A @ R @ [c] \<and> length R' < 64 \<and> md5_rep k A' R' (put_byte c m)"
  using flush_rep [OF store_byte_rep [OF assms, of c]] unfolding put_byte_def Let_def by blast

lemma put_bytes_rep:
  "md5_rep k A R m \<Longrightarrow> length R < 64 \<Longrightarrow> \<exists>A' R'. A' @ R' = A @ R @ bs \<and> length R' < 64 \<and> md5_rep k A' R' (fold put_byte bs m)"
proof (induction bs arbitrary: A R m)
  case (Cons c bs)
  obtain A' R' where "A' @ R' = A @ R @ [c]" "length R' < 64" "md5_rep k A' R' (put_byte c m)" using put_byte_rep [OF Cons.prems] by blast
  with Cons.IH [OF this(3,2)] show ?case by (metis append.assoc append_Cons append_Nil fold_simps(2))
qed auto

text \<open>The object has taken in \<open>msg\<close>; the last complete block may still be in the buffer.\<close>

definition md5_holds :: "bool \<Rightarrow> byte list \<Rightarrow> MD5Digest \<Rightarrow> bool" where
  "md5_holds k msg m \<longleftrightarrow> (\<exists>A R. A @ R = msg \<and> md5_rep k A R (m\<lparr>bpos := pptr m\<rparr>))"

lemma putDigest_holds:
  assumes "md5_holds k msg m"
  shows "md5_holds k (msg @ bs) (putDigest bs m)" "pptr (putDigest bs m) < 64"
proof -
  let ?m = "m\<lparr>bpos := pptr m\<rparr>"
  let ?f = "if 64 \<le> bpos ?m then md5_update ?m else ?m"
  obtain A R where 0: "A @ R = msg" "length R < 64" "md5_rep k A R ?f" using assms flush_rep unfolding md5_holds_def by metis
  then obtain A' R' where 1: "A' @ R' = msg @ bs" "length R' < 64" "md5_rep k A' R' (fold put_byte bs ?f)"
    using put_bytes_rep [OF 0(3,2), of bs] by (metis append.assoc)
  have p: "putDigest bs m = (fold put_byte bs ?f)\<lparr>pptr := bpos (fold put_byte bs ?f)\<rparr>" by (simp add: putDigest_def Let_def)
  then show "pptr (putDigest bs m) < 64" using 1(2,3) by (simp add: md5_rep_def)
  have "md5_rep k A' R' ((putDigest bs m)\<lparr>bpos := pptr (putDigest bs m)\<rparr>)" using 1(3) unfolding p by (simp add: md5_rep_def)
  then show "md5_holds k (msg @ bs) (putDigest bs m)" using 1(1) unfolding md5_holds_def by blast
qed

lemma sputc_holds:
  assumes "md5_holds k msg m"
  shows "md5_holds k (msg @ [c]) (sputc c m)"
proof (cases "pptr m < 64")
  case True
  obtain A R where 0: "A @ R = msg" "md5_rep k A R (m\<lparr>bpos := pptr m\<rparr>)" using assms by (auto simp: md5_holds_def)
  moreover from this True have "length R < 64" by (simp add: md5_rep_def)
  ultimately have "md5_rep k A (R @ [c]) ((sputc c m)\<lparr>bpos := pptr (sputc c m)\<rparr>)"
    using store_byte_rep [OF 0(2), of c] True by (simp add: sputc_def md5_rep_def)
  then show ?thesis using 0(1) unfolding md5_holds_def by force
next
  case False
  let ?m = "m\<lparr>updated := True, bpos := pptr m\<rparr>"
  obtain A R where "A @ R = msg" "md5_rep k A R ?m" using assms by (auto simp: md5_holds_def md5_rep_def)
  with flush_rep obtain A R where 0: "A @ R = msg" "length R < 64" "md5_rep k A R (if 64 \<le> bpos ?m then md5_update ?m else ?m)" by metis
  have "md5_rep k A (R @ [c]) ((sputc c m)\<lparr>bpos := pptr (sputc c m)\<rparr>)"
    using store_byte_rep [OF 0(3,2), of c] False 0(3) by (simp add: sputc_def md5_overflow_def Let_def) (auto simp: md5_rep_def)
  then show ?thesis using 0(1) unfolding md5_holds_def by force
qed

lemma low_bytes_le32: "low_bytes w = le32 (lo32 w)"
proof -
  have "x AND 0xff = (x :: byte)" for x by (rule byte_eqI) (auto simp: bit_simps)
  moreover have "ucast (drop_bit n w AND 0xff) = (ucast (drop_bit n (lo32 w)) :: byte)" if "n \<le> 24" for n
    using that by (intro bit_word_eqI) (auto simp: bit_unsigned_iff bit_and_iff bit_drop_bit_eq and_0xff_eq_take_bit bit_take_bit_iff)
  moreover have "ucast w = (ucast (lo32 w) :: byte)" by (intro bit_word_eqI) (auto simp: bit_unsigned_iff)
  ultimately show ?thesis by (simp add: low_bytes_def le32_def)
qed

lemma u64_of_small: "n < 2 ^ 32 \<Longrightarrow> le64 (of_nat n) = low_bytes (of_nat n) @ low_bytes 0"
proof -
  assume "n < 2 ^ 32"
  then have "drop_bit 32 (of_nat n :: u64) = 0" by (simp only: unat_eq_zero [symmetric] unsigned_drop_bit_eq unsigned_of_nat) (simp add: take_bit_nat_eq_self drop_bit_eq_div)
  then show ?thesis by (simp add: le64_def low_bytes_le32)
qed

lemma md5_holds_newblocks:
  assumes "md5_holds k msg m" "pptr m < 64" "64 dvd length msg"
  shows "lo4 (md5state m) = rfc_blocks msg rfc_init"
proof -
  obtain A R where "A @ R = msg" "md5_rep k A R (m\<lparr>bpos := pptr m\<rparr>)" using assms(1) by (auto simp: md5_holds_def)
  moreover from this assms(2,3) have "64 dvd length R" by (auto simp: md5_rep_def dvd_add_right_iff)
  with calculation have "R = []" using assms(2) by (auto simp: md5_rep_def elim: dvdE)
  ultimately show ?thesis by (simp add: md5_rep_def)
qed

lemma md5_holds_init: "length (md5buf m) = 64 \<Longrightarrow> md5_holds k [] (initDigest m)"
  by (auto simp: md5_holds_def md5_rep_def initDigest_def rfc_init_def count_ok_def)

lemma md5_rep_count [simp]: "md5_rep False A R (m\<lparr>md5count := c\<rparr>) = md5_rep False A R m"
  by (simp add: md5_rep_def)

lemma pad_length:
  assumes "len = (if L mod 64 < 56 then 56 - L mod 64 else 120 - L mod 64)"
  shows "0 < len" "len \<le> 64" "len - 1 = (119 - L mod 64) mod 64" "64 dvd L + len + (8 :: nat)"
proof -
  define r where "r = L mod 64"
  have r: "r < 64" by (simp add: r_def)
  show "0 < len" "len \<le> 64" using assms r by (auto simp: r_def [symmetric])
  have "(119 - r) mod 64 = (if r < 56 then 55 - r else 119 - r)"
  proof (cases "r < 56")
    case True
    then have "119 - r = 55 - r + 64" by simp
    then have "(119 - r) mod 64 = (55 - r + 64) mod 64" by (rule arg_cong)
    also have "\<dots> = (55 - r) mod 64" by (rule mod_add_self2)
    finally show ?thesis using True by simp
  qed simp
  then show "len - 1 = (119 - L mod 64) mod 64" using assms r unfolding r_def [symmetric] by auto
  show "64 dvd L + len + 8" using assms by presburger
qed

lemma md5_commit_ok:
  assumes "md5_holds True msg m" "8 * length msg < 2 ^ 32"
  shows "md5sum (md5_commit m) = md5_rfc1321 msg" "md5_holds True [] (md5_commit m)"
proof -
  let ?L = "length msg"
  obtain A R where R: "A @ R = msg" "md5_rep True A R (m\<lparr>bpos := pptr m\<rparr>)" using assms(1) by (auto simp: md5_holds_def)
  have f: "md5count m = (of_nat (8 * length A), 0)" "pptr m = length R" "updated m" "length A + length R = ?L"
    using R assms(2) by (auto simp: md5_rep_def count_ok_def prod_eq_iff)
  have c0: "of_nat (8 * length A) + of_nat (8 * length R) = (of_nat (8 * ?L) :: u64)" using f(4) by (simp flip: of_nat_add distrib_left)
  have nc: "\<not> (of_nat (8 * ?L) :: u64) < of_nat (8 * length R)"
    using assms(2) f(4) by (simp only: word_less_nat_alt unsigned_of_nat) (simp add: take_bit_nat_eq_self del: of_nat_mult of_nat_add)
  have i: "unat (drop_bit 3 (of_nat (8 * ?L) :: u64) AND 0x3f) = ?L mod 64"
  proof -
    have "drop_bit 3 (of_nat (8 * ?L) :: u64) AND 0x3f = take_bit 6 (drop_bit 3 (of_nat (8 * ?L) :: u64))" by (simp add: take_bit_eq_mask mask_eq_exp_minus_1)
    then show ?thesis using assms(2)
      by (simp only: unsigned_take_bit_eq unsigned_drop_bit_eq unsigned_of_nat) (simp add: take_bit_nat_eq_self drop_bit_eq_div take_bit_eq_mod)
  qed
  define len where "len = (if ?L mod 64 < 56 then 56 - ?L mod 64 else 120 - ?L mod 64)"
  define pad where "pad = take len (0x80 # replicate 63 0 :: byte list)"
  define m1 where "m1 = m\<lparr>bpos := length R, md5count := (of_nat (8 * ?L), 0)\<rparr>"
  define m2 where "m2 = putDigest (low_bytes (of_nat (8 * ?L)) @ low_bytes 0) (putDigest pad m1)"
  note len = pad_length [OF len_def]
  have pad: "pad = [0x80] @ replicate ((119 - ?L mod 64) mod 64) 0" using len by (cases len) (simp_all add: pad_def min_def)
  have "md5_holds False msg m1" using R f(2) by (auto simp: md5_holds_def m1_def md5_rep_def)
  then have "md5_holds False (msg @ pad) (putDigest pad m1)" by (rule putDigest_holds)
  note h2 = putDigest_holds [OF this, of "low_bytes (of_nat (8 * ?L)) @ low_bytes 0", folded m2_def]
  have "rfc_pad msg = (msg @ pad) @ low_bytes (of_nat (8 * ?L)) @ low_bytes 0"
    unfolding rfc_pad_def u64_of_small [OF assms(2)] pad by (simp only: append_assoc)
  then have h: "md5_holds False (rfc_pad msg) m2" "pptr m2 < 64" using h2 by simp_all
  have "64 dvd length (rfc_pad msg)"
  proof -
    have "length (rfc_pad msg) = ?L + len + 8" using len(1,3) by (simp add: rfc_pad_def le64_def le32_def)
    then show ?thesis using len(4) by simp
  qed
  then have s: "lo4 (md5state m2) = rfc_blocks (rfc_pad msg) rfc_init" by (rule md5_holds_newblocks [OF h])
  obtain a b c d where abcd: "md5state m2 = (a, b, c, d)" by (cases "md5state m2") auto
  have cm: "md5_commit m = initDigest (m2\<lparr>md5sum := low_bytes a @ low_bytes b @ low_bytes c @ low_bytes d\<rparr>)"
  proof -
    define m0 where "m0 = m\<lparr>bpos := length R\<rparr>"
    have g: "md5count m0 = (of_nat (8 * length A), 0)" "bpos m0 = length R" "updated m0" "m0\<lparr>md5count := (of_nat (8 * ?L), 0)\<rparr> = m1"
      using f by (simp_all add: m0_def m1_def)
    show ?thesis unfolding md5_commit_def Let_def f(2) m0_def [symmetric]
      by (simp only: g prod.case c0 nc if_False i len_def [symmetric] pad_def [symmetric]) (use len(1) abcd m2_def in simp)
  qed
  show "md5sum (md5_commit m) = md5_rfc1321 msg" using s unfolding cm md5_rfc1321_def by (simp add: abcd initDigest_def low_bytes_le32 flip: s)
  have "length (md5buf m2) = 64" using h(1) by (auto simp: md5_holds_def md5_rep_def)
  then show "md5_holds True [] (md5_commit m)" unfolding cm by (intro md5_holds_init) simp
qed

lemma newMD5Digest_holds: "md5_holds True [] (newMD5Digest mem)"
  using md5_holds_init [of "\<lparr>md5state = (0, 0, 0, 0), md5count = (0, 0), md5buf = map mem [0..<64], bpos = 0, pptr = 0, md5sum = map mem [0..<16], updated = True\<rparr>" True]
  by (simp add: newMD5Digest_def initDigest_def)

fun md5_put :: "byte list + byte \<Rightarrow> MD5Digest \<Rightarrow> MD5Digest" where
  "md5_put (Inl bs) m = putDigest bs m"
| "md5_put (Inr c) m = sputc c m"

fun put_bytes :: "byte list + byte \<Rightarrow> byte list" where
  "put_bytes (Inl bs) = bs"
| "put_bytes (Inr c) = [c]"

lemma md5_puts_hold: "md5_holds k msg m \<Longrightarrow> md5_holds k (msg @ concat (map put_bytes ps)) (fold md5_put ps m)"
proof (induction ps arbitrary: msg m)
  case (Cons p ps)
  have "md5_holds k (msg @ put_bytes p) (md5_put p m)" using Cons.prems by (cases p) (simp_all add: putDigest_holds sputc_holds)
  then show ?case using Cons.IH by fastforce
qed simp

text \<open>
  C17: the digest is MD5. Whatever way a message of less than 512 megabytes is given to the object, in blocks or as a stream of characters, the digest is that of RFC 1321,
  although the object computes with words of 64 bits and does not clear their upper halves; and afterwards the object can be used for the next message.
\<close>

theorem md5_is_rfc1321:
  assumes "8 * length (concat (map put_bytes ps)) < 2 ^ 32" "8 * length (concat (map put_bytes qs)) < 2 ^ 32"
  shows "\<exists>m m2. getDigest (fold md5_put ps (newMD5Digest mem)) = (md5_rfc1321 (concat (map put_bytes ps)), m) \<and>
    getDigest (fold md5_put qs m) = (md5_rfc1321 (concat (map put_bytes qs)), m2)"
proof -
  have 1: "md5_holds True (concat (map put_bytes ps)) (fold md5_put ps (newMD5Digest mem))" using md5_puts_hold [OF newMD5Digest_holds] by fastforce
  note c = md5_commit_ok [OF 1 assms(1)]
  have "md5_holds True (concat (map put_bytes qs)) (fold md5_put qs (md5_commit (fold md5_put ps (newMD5Digest mem))))"
    using md5_puts_hold [OF c(2)] by fastforce
  then show ?thesis using c(1) md5_commit_ok(1) [OF _ assms(2)] by (simp add: getDigest_def Let_def)
qed

text \<open>The test vector of RFC 1321 for ``abc'', given as a block and a character.\<close>

theorem md5_is_rfc1321_witness:
  "\<exists>m m2. getDigest (fold md5_put [Inl [97, 98], Inr 99] (newMD5Digest (\<lambda>_. 7))) =
      ([0x90, 0x01, 0x50, 0x98, 0x3c, 0xd2, 0x4f, 0xb0, 0xd6, 0x96, 0x3f, 0x7d, 0x28, 0xe1, 0x7f, 0x72], m) \<and>
    getDigest (fold md5_put [] m) = (md5_rfc1321 [], m2)"
proof -
  have "md5_rfc1321 [97, 98, 99] = [0x90, 0x01, 0x50, 0x98, 0x3c, 0xd2, 0x4f, 0xb0, 0xd6, 0x96, 0x3f, 0x7d, 0x28, 0xe1, 0x7f, 0x72]" by code_simp
  then show ?thesis using md5_is_rfc1321 [of "[Inl [97, 98], Inr 99]" "[]" "\<lambda>_. 7"] by simp
qed

end
