(* ===== verification/Members.thy ===== *)
theory Members
  imports Ccrtp_Prelude
begin

text \<open>
  The table of the sources of a session, \<^verbatim>\<open>src/src/members.cpp\<close> and the class \<^verbatim>\<open>MembershipBookkeeping\<close>
  of \<^verbatim>\<open>src/src/ccrtp/iqueue.h\<close>: a hash table with sorted collision lists whose links are also chained into one
  list in the order of arrival. The links live in an explicit heap, a map from addresses, because removal
  depends on the pointers that are left behind; reading a freed or null link gives \<^term>\<open>None\<close>. The statistics of a link
  are a parameter type. The laws of the table are the locale \<open>ssrc_registry\<close>.
\<close>

section \<open>State\<close>

type_synonym addr = nat

record 'd SyncSourceLink =
  srcID :: u32
  srcSender :: bool
  linkPrev :: "addr option"
  linkNext :: "addr option"
  nextCollis :: "addr option"
  linkData :: 'd

record 'd Membership =
  linkHeap :: "addr \<rightharpoonup> 'd SyncSourceLink"
  nextAddr :: addr
  sourceLinks :: "addr option list"
  srcFirst :: "addr option"
  srcLast :: "addr option"
  membersCount :: u32
  activeSenders :: u32

definition defaultMembersHashSize :: nat where "defaultMembersHashSize = 11"

definition newMembershipBookkeeping :: "nat \<Rightarrow> 'd Membership" where
  "newMembershipBookkeeping initialSize =
     \<lparr>linkHeap = Map.empty, nextAddr = 0, sourceLinks = replicate initialSize None,
      srcFirst = None, srcLast = None, membersCount = 0, activeSenders = 0\<rparr>"

definition HASH :: "'d Membership \<Rightarrow> u32 \<Rightarrow> nat" where
  "HASH st a = unat (a + drop_bit 8 a) mod length (sourceLinks st)"

definition upd_link :: "addr option \<Rightarrow> ('d SyncSourceLink \<Rightarrow> 'd SyncSourceLink) \<Rightarrow> 'd Membership \<Rightarrow> 'd Membership option" where
  "upd_link p f st =
     do { a \<leftarrow> p; l \<leftarrow> linkHeap st a; Some (st\<lparr>linkHeap := (linkHeap st)(a \<mapsto> f l)\<rparr>) }"

section \<open>Operations\<close>

partial_function (option) reg_search :: "(addr \<rightharpoonup> 'd SyncSourceLink) \<Rightarrow> addr option \<Rightarrow> u32 \<Rightarrow> bool option" where
  "reg_search h sl ssrc =
     (case sl of
        None \<Rightarrow> Some False
      | Some a \<Rightarrow>
          (case h a of
             None \<Rightarrow> None
           | Some l \<Rightarrow>
               if ssrc = srcID l then Some True
               else if ssrc < srcID l then Some False
               else reg_search h (nextCollis l) ssrc))"

definition isRegistered :: "'d Membership \<Rightarrow> u32 \<Rightarrow> bool option" where
  "isRegistered st ssrc = reg_search (linkHeap st) (sourceLinks st ! HASH st ssrc) ssrc"

text \<open>Where the walk along a collision list stops: the element before, the element, and whether it is the one.\<close>

partial_function (option) src_search ::
  "(addr \<rightharpoonup> 'd SyncSourceLink) \<Rightarrow> u32 \<Rightarrow> addr option \<Rightarrow> addr option \<Rightarrow> (addr option \<times> addr option \<times> bool) option" where
  "src_search h ssrc prev result =
     (case result of
        None \<Rightarrow> Some (prev, None, False)
      | Some a \<Rightarrow>
          (case h a of
             None \<Rightarrow> None
           | Some l \<Rightarrow>
               if ssrc = srcID l then Some (prev, Some a, True)
               else if ssrc > srcID l then src_search h ssrc (Some a) (nextCollis l)
               else Some (prev, Some a, False)))"

definition increaseMembersCount :: "'d Membership \<Rightarrow> 'd Membership" where
  "increaseMembersCount st = st\<lparr>membersCount := membersCount st + 1\<rparr>"

definition decreaseMembersCount :: "'d Membership \<Rightarrow> 'd Membership" where
  "decreaseMembersCount st = st\<lparr>membersCount := membersCount st - 1\<rparr>"

definition decreaseSendersCount :: "'d Membership \<Rightarrow> 'd Membership" where
  "decreaseSendersCount st = st\<lparr>activeSenders := activeSenders st - 1\<rparr>"

text \<open>A new link comes from fresh memory: \<open>d0\<close> is the sender flag, which the constructor of the source leaves
  unset, and the statistics as they start.\<close>

definition new_link :: "bool \<times> 'd \<Rightarrow> u32 \<Rightarrow> addr option \<Rightarrow> 'd Membership \<Rightarrow> addr \<times> 'd Membership" where
  "new_link d0 ssrc ncollis st =
     (nextAddr st,
      st\<lparr>linkHeap := (linkHeap st)(nextAddr st \<mapsto>
           \<lparr>srcID = ssrc, srcSender = fst d0, linkPrev = None, linkNext = None, nextCollis = ncollis, linkData = snd d0\<rparr>),
         nextAddr := nextAddr st + 1\<rparr>)"

text \<open>The new link goes behind \<open>prev\<close> in its collision list, or to the front.\<close>

definition put_link :: "addr option \<Rightarrow> nat \<Rightarrow> addr \<Rightarrow> 'd Membership \<Rightarrow> 'd Membership option" where
  "put_link prev i a st =
     (if prev \<noteq> None then upd_link prev (\<lambda>l. l\<lparr>nextCollis := Some a\<rparr>) st
      else Some (st\<lparr>sourceLinks := (sourceLinks st)[i := Some a]\<rparr>))"

definition append_source :: "addr \<Rightarrow> 'd Membership \<Rightarrow> 'd Membership option" where
  "append_source a st =
     do { st \<leftarrow> (if srcFirst st \<noteq> None then upd_link (srcLast st) (\<lambda>l. l\<lparr>linkNext := Some a\<rparr>) st
                else Some (st\<lparr>srcFirst := Some a\<rparr>));
          Some (increaseMembersCount (st\<lparr>srcLast := Some a\<rparr>)) }"

definition getSourceBySSRC :: "bool \<times> 'd \<Rightarrow> 'd Membership \<Rightarrow> u32 \<Rightarrow> (addr \<times> bool \<times> 'd Membership) option" where
  "getSourceBySSRC d0 st ssrc =
     (let hashing = HASH st ssrc in
      do { (prev, result, found) \<leftarrow> src_search (linkHeap st) ssrc None (sourceLinks st ! hashing);
           if found then map_option (\<lambda>a. (a, False, st)) result
           else do {
             let (a, st) = new_link d0 ssrc result st;
             st \<leftarrow> put_link prev hashing a st;
             st \<leftarrow> append_source a st;
             Some (a, True, st) } })"

definition BYESource :: "'d Membership \<Rightarrow> u32 \<Rightarrow> (bool \<times> 'd Membership) option" where
  "BYESource st ssrc =
     do { r \<leftarrow> isRegistered st ssrc;
          Some (if r then (True, decreaseMembersCount st) else (False, st)) }"

definition upd_if :: "addr option \<Rightarrow> ('d SyncSourceLink \<Rightarrow> 'd SyncSourceLink) \<Rightarrow> 'd Membership \<Rightarrow> 'd Membership option" where
  "upd_if p f st = (if p \<noteq> None then upd_link p f st else Some st)"

definition delete_source :: "addr \<Rightarrow> 'd SyncSourceLink \<Rightarrow> addr option \<Rightarrow> 'd Membership \<Rightarrow> 'd Membership option" where
  "delete_source a s old st =
     do { st \<leftarrow> upd_if old (\<lambda>l. l\<lparr>nextCollis := nextCollis s\<rparr>) st;
          st \<leftarrow> upd_if (linkPrev s) (\<lambda>l. l\<lparr>linkNext := linkNext s\<rparr>) st;
          st \<leftarrow> upd_if (linkNext s) (\<lambda>l. l\<lparr>linkPrev := linkPrev s\<rparr>) st;
          let st = decreaseMembersCount st;
          let st = (if srcSender s then decreaseSendersCount st else st);
          Some (st\<lparr>linkHeap := (linkHeap st)(a := None)\<rparr>) }"

definition removeSource :: "'d Membership \<Rightarrow> u32 \<Rightarrow> (bool \<times> 'd Membership) option" where
  "removeSource st ssrc =
     do { (old, s, found) \<leftarrow> src_search (linkHeap st) ssrc None (sourceLinks st ! HASH st ssrc);
          if found then
            do { a \<leftarrow> s; l \<leftarrow> linkHeap st a; st \<leftarrow> delete_source a l old st; Some (True, st) }
          else Some (False, st) }"

text \<open>The sources in the order of the global list, as the iterators of the session visit them.\<close>

partial_function (option) walk_sources :: "(addr \<rightharpoonup> 'd SyncSourceLink) \<Rightarrow> addr option \<Rightarrow> u32 list option" where
  "walk_sources h p =
     (case p of
        None \<Rightarrow> Some []
      | Some a \<Rightarrow>
          (case h a of
             None \<Rightarrow> None
           | Some l \<Rightarrow> do { r \<leftarrow> walk_sources h (linkNext l); Some (srcID l # r) }))"

partial_function (option) endMembers :: "'d Membership \<Rightarrow> 'd Membership option" where
  "endMembers st =
     (case srcFirst st of
        None \<Rightarrow> Some (st\<lparr>srcLast := None, sourceLinks := []\<rparr>)
      | Some a \<Rightarrow>
          (case linkHeap st a of
             None \<Rightarrow> None
           | Some l \<Rightarrow> endMembers (st\<lparr>srcFirst := linkNext l, linkHeap := (linkHeap st)(a := None)\<rparr>)))"

section \<open>Lists in the heap\<close>

fun lpath :: "('d SyncSourceLink \<Rightarrow> addr option) \<Rightarrow> (addr \<rightharpoonup> 'd SyncSourceLink) \<Rightarrow> addr option \<Rightarrow> addr list \<Rightarrow> bool" where
  "lpath f h p [] \<longleftrightarrow> p = None"
| "lpath f h p (a # as) \<longleftrightarrow> p = Some a \<and> (\<exists>l. h a = Some l \<and> lpath f h (f l) as)"

definition idof :: "(addr \<rightharpoonup> 'd SyncSourceLink) \<Rightarrow> addr \<Rightarrow> u32" where
  "idof h a = srcID (the (h a))"

lemma lpath_cong:
  "(\<And>a. a \<in> set as \<Longrightarrow> map_option f (h a) = map_option f (h' a)) \<Longrightarrow> lpath f h p as = lpath f h' p as"
proof (induction as arbitrary: p)
  case (Cons a as)
  have "map_option f (h a) = map_option f (h' a)" using Cons.prems by simp
  then show ?case using Cons by (cases "h a"; cases "h' a") auto
qed simp

lemma lpath_dom: "lpath f h p as \<Longrightarrow> set as \<subseteq> dom h"
  by (induction as arbitrary: p) auto

lemma lpath_head: "lpath f h p ys \<Longrightarrow> p = (case ys of [] \<Rightarrow> None | y # _ \<Rightarrow> Some y)"
  by (cases ys) auto

lemma lpath_suffix: "lpath f h p (xs @ a # ys) \<Longrightarrow> lpath f h (Some a) (a # ys)"
  by (induction xs arbitrary: p) auto

lemma lpath_insert:
  assumes "lpath f h p (xs @ ys)" "xs \<noteq> []" "distinct xs" "a \<notin> set (xs @ ys)" "distinct (xs @ ys)"
    "h (last xs) = Some l" "f l' = Some a" "f n = (case ys of [] \<Rightarrow> None | y # _ \<Rightarrow> Some y)"
  shows "lpath f (h(a \<mapsto> n, last xs \<mapsto> l')) p (xs @ a # ys)"
  using assms
proof (induction xs arbitrary: p)
  case (Cons x xs)
  show ?case
  proof (cases "xs = []")
    case True
    have l: "p = Some x" "lpath f h (f l) ys" using Cons.prems True by auto
    define h' where "h' = h(a \<mapsto> n, x \<mapsto> l')"
    have "lpath f h' (f l) ys = lpath f h (f l) ys"
      unfolding h'_def by (rule lpath_cong) (use Cons.prems True in auto)
    moreover have "f n = f l" using lpath_head [OF l(2)] Cons.prems(8) by simp
    moreover have "h' x = Some l'" "h' a = Some n" using Cons.prems(4) by (auto simp: h'_def)
    ultimately have "lpath f h' p (x # a # ys)" using l Cons.prems(7) by simp
    then show ?thesis unfolding h'_def True by (simp only: append_Cons append_Nil last.simps if_True simp_thms)
  next
    case False
    have x: "x \<noteq> last xs" "x \<noteq> a" using Cons.prems False by auto
    obtain lx where lx: "h x = Some lx" "lpath f h (f lx) (xs @ ys)" "p = Some x"
      using Cons.prems(1) by auto
    define h' where "h' = h(a \<mapsto> n, last xs \<mapsto> l')"
    have "lpath f h' (f lx) (xs @ a # ys)"
      unfolding h'_def by (rule Cons.IH) (use lx Cons.prems False in auto)
    moreover have "h' x = Some lx" using x lx(1) by (simp add: h'_def)
    ultimately have "lpath f h' p (x # xs @ a # ys)" using lx(3) by simp
    then show ?thesis unfolding h'_def using False by (simp only: append_Cons last.simps if_False)
  qed
qed simp


lemma reg_search_lpath:
  "lpath nextCollis h p as \<Longrightarrow> sorted_wrt (<) (map (idof h) as) \<Longrightarrow>
   reg_search h p ssrc = Some (\<exists>a\<in>set as. idof h a = ssrc)"
proof (induction as arbitrary: p)
  case Nil
  then show ?case by (subst reg_search.simps) simp
next
  case (Cons a as)
  then obtain l where l: "p = Some a" "h a = Some l" "lpath nextCollis h (nextCollis l) as" by auto
  have id: "idof h a = srcID l" using l by (simp add: idof_def)
  have gt: "\<And>b. b \<in> set as \<Longrightarrow> srcID l < idof h b" using Cons.prems(2) id by auto
  have IH: "reg_search h (nextCollis l) ssrc = Some (\<exists>a\<in>set as. idof h a = ssrc)"
    using Cons.IH [OF l(3)] Cons.prems(2) by simp
  show ?case
    using l id gt IH by (subst reg_search.simps) (auto dest: less_trans)
qed

lemma src_search_lpath:
  "lpath nextCollis h p as \<Longrightarrow> sorted_wrt (<) (map (idof h) as) \<Longrightarrow>
   \<exists>xs ys found. as = xs @ ys \<and> (\<forall>x\<in>set xs. idof h x < ssrc) \<and>
     (if found then ys \<noteq> [] \<and> idof h (hd ys) = ssrc else \<forall>y\<in>set ys. ssrc < idof h y) \<and>
     src_search h ssrc prev p = Some (if xs = [] then prev else Some (last xs), if ys = [] then None else Some (hd ys), found)"
proof (induction as arbitrary: p prev)
  case Nil
  then show ?case by (intro exI [of _ "[]"] exI [of _ False]) (subst src_search.simps, simp)
next
  case (Cons a as)
  then obtain l where l: "p = Some a" "h a = Some l" "lpath nextCollis h (nextCollis l) as" by auto
  have id: "idof h a = srcID l" using l by (simp add: idof_def)
  have gt: "\<And>b. b \<in> set as \<Longrightarrow> srcID l < idof h b" using Cons.prems(2) id by auto
  consider "ssrc = srcID l" | "srcID l < ssrc" | "ssrc < srcID l" by fastforce
  then show ?case
  proof cases
    case 1
    then show ?thesis
      using l id by (intro exI [of _ "[]"] exI [of _ "a # as"] exI [of _ True]) (subst src_search.simps, simp)
  next
    case 2
    obtain xs ys found where r: "as = xs @ ys" "\<forall>x\<in>set xs. idof h x < ssrc"
      "if found then ys \<noteq> [] \<and> idof h (hd ys) = ssrc else \<forall>y\<in>set ys. ssrc < idof h y"
      "src_search h ssrc (Some a) (nextCollis l) =
        Some (if xs = [] then Some a else Some (last xs), if ys = [] then None else Some (hd ys), found)"
      using Cons.IH [OF l(3), of "Some a"] Cons.prems(2) by auto
    have "src_search h ssrc prev p = src_search h ssrc (Some a) (nextCollis l)"
      using 2 l by (subst src_search.simps) auto
    then show ?thesis
      using r 2 id by (intro exI [of _ "a # xs"] exI [of _ ys] exI [of _ found]) auto
  next
    case 3
    then have "\<forall>y\<in>set (a # as). ssrc < idof h y" using gt id by (auto dest: less_trans)
    then show ?thesis
      using l id 3 by (intro exI [of _ "[]"] exI [of _ "a # as"] exI [of _ False]) (subst src_search.simps, auto)
  qed
qed

lemma walk_sources_lpath: "lpath linkNext h p as \<Longrightarrow> walk_sources h p = Some (map (idof h) as)"
proof (induction as arbitrary: p)
  case Nil
  then show ?case by (subst walk_sources.simps) simp
next
  case (Cons a as)
  then show ?case by (subst walk_sources.simps) (auto simp: idof_def)
qed

section \<open>Invariant\<close>

definition ids :: "'d Membership \<Rightarrow> u32 set" where
  "ids st = {srcID l | a l. linkHeap st a = Some l}"

definition mem_inv :: "'d Membership \<Rightarrow> (nat \<Rightarrow> addr list) \<Rightarrow> addr list \<Rightarrow> bool" where
  "mem_inv st cs gs \<longleftrightarrow>
     0 < length (sourceLinks st) \<and>
     (\<forall>i<length (sourceLinks st). lpath nextCollis (linkHeap st) (sourceLinks st ! i) (cs i) \<and>
        sorted_wrt (<) (map (idof (linkHeap st)) (cs i)) \<and>
        (\<forall>a\<in>set (cs i). HASH st (idof (linkHeap st) a) = i)) \<and>
     (\<forall>a\<in>dom (linkHeap st). a < nextAddr st \<and> a \<in> set (cs (HASH st (idof (linkHeap st) a))) \<and>
        linkPrev (the (linkHeap st a)) = None) \<and>
     lpath linkNext (linkHeap st) (srcFirst st) gs \<and> distinct gs \<and> set gs = dom (linkHeap st) \<and>
     srcLast st = (if gs = [] then None else Some (last gs)) \<and> membersCount st = of_nat (length gs)"

definition mem_ok :: "'d Membership \<Rightarrow> bool" where
  "mem_ok st \<longleftrightarrow> (\<exists>cs gs. mem_inv st cs gs)"

lemma mem_ok_new: "0 < n \<Longrightarrow> mem_ok (newMembershipBookkeeping n)"
  unfolding mem_ok_def
  by (intro exI [of _ "\<lambda>_. []"] exI [of _ "[]"]) (simp add: mem_inv_def newMembershipBookkeeping_def)

lemma HASH_less: "0 < length (sourceLinks st) \<Longrightarrow> HASH st a < length (sourceLinks st)"
  by (simp add: HASH_def)

lemma mem_invD:
  assumes "mem_inv st cs gs"
  shows "0 < length (sourceLinks st)"
    "i < length (sourceLinks st) \<Longrightarrow> lpath nextCollis (linkHeap st) (sourceLinks st ! i) (cs i)"
    "i < length (sourceLinks st) \<Longrightarrow> sorted_wrt (<) (map (idof (linkHeap st)) (cs i))"
    "i < length (sourceLinks st) \<Longrightarrow> a \<in> set (cs i) \<Longrightarrow> HASH st (idof (linkHeap st) a) = i"
    "i < length (sourceLinks st) \<Longrightarrow> set (cs i) \<subseteq> dom (linkHeap st)"
    "a \<in> dom (linkHeap st) \<Longrightarrow> a < nextAddr st \<and> a \<in> set (cs (HASH st (idof (linkHeap st) a))) \<and> linkPrev (the (linkHeap st a)) = None"
    "lpath linkNext (linkHeap st) (srcFirst st) gs" "distinct gs" "set gs = dom (linkHeap st)"
    "srcLast st = (if gs = [] then None else Some (last gs))" "membersCount st = of_nat (length gs)"
  using assms lpath_dom [of nextCollis "linkHeap st" "sourceLinks st ! i" "cs i"] by (simp_all add: mem_inv_def)

lemma ids_bucket:
  assumes "mem_inv st cs gs"
  shows "ssrc \<in> ids st \<longleftrightarrow> (\<exists>a\<in>set (cs (HASH st ssrc)). idof (linkHeap st) a = ssrc)"
proof -
  note D = mem_invD [OF assms]
  have "a \<in> dom (linkHeap st)" if "a \<in> set (cs (HASH st ssrc))" for a
    using D(5) [OF HASH_less [OF D(1)]] that by blast
  moreover have "ssrc \<in> ids st \<longleftrightarrow> (\<exists>a\<in>dom (linkHeap st). idof (linkHeap st) a = ssrc)"
    by (force simp: ids_def idof_def)
  ultimately show ?thesis using D(6) by blast
qed

lemma ids_image: "ids st = idof (linkHeap st) ` dom (linkHeap st)"
  by (force simp: ids_def idof_def image_iff)

lemma isRegistered_ids:
  assumes "mem_inv st cs gs"
  shows "isRegistered st ssrc = Some (ssrc \<in> ids st)"
  unfolding isRegistered_def ids_bucket [OF assms]
  by (rule reg_search_lpath) (rule mem_invD(2,3) [OF assms HASH_less [OF mem_invD(1) [OF assms]]])+

lemma sorted_ids_distinct: "sorted_wrt (<) (map g xs) \<Longrightarrow> distinct (xs :: addr list)" for g :: "addr \<Rightarrow> u32"
  by (induction xs) auto

lemma sorted_ids_inj:
  "sorted_wrt (<) (map g xs) \<Longrightarrow> a \<in> set xs \<Longrightarrow> b \<in> set xs \<Longrightarrow> g a = g b \<Longrightarrow> a = b" for g :: "addr \<Rightarrow> u32"
  by (metis strict_sorted_iff distinct_map inj_onD)

lemma mem_ok_inj:
  assumes "mem_ok st" "map_option srcID (linkHeap st a) = Some i" "map_option srcID (linkHeap st b) = Some i"
  shows "a = b"
proof -
  obtain cs gs where inv: "mem_inv st cs gs" using assms(1) by (auto simp: mem_ok_def)
  note D = mem_invD [OF inv]
  have d: "a \<in> dom (linkHeap st)" "b \<in> dom (linkHeap st)" and e: "idof (linkHeap st) a = i" "idof (linkHeap st) b = i"
    using assms(2,3) by (auto simp: idof_def)
  have "a \<in> set (cs (HASH st i))" "b \<in> set (cs (HASH st i))" using D(6) [OF d(1)] D(6) [OF d(2)] e by simp_all
  then show ?thesis using e by (intro sorted_ids_inj [OF D(3) [OF HASH_less [OF D(1)]]]) simp_all
qed

definition bucket_ok :: "'d Membership \<Rightarrow> (nat \<Rightarrow> addr list) \<Rightarrow> bool" where
  "bucket_ok st cs \<longleftrightarrow>
     (\<forall>i<length (sourceLinks st). lpath nextCollis (linkHeap st) (sourceLinks st ! i) (cs i) \<and>
        sorted_wrt (<) (map (idof (linkHeap st)) (cs i)) \<and>
        (\<forall>a\<in>set (cs i). HASH st (idof (linkHeap st) a) = i))"

lemma bucket_ok_upd:
  fixes st st2 :: "'d Membership" and h2 :: "addr \<rightharpoonup> 'd SyncSourceLink"
  assumes inv: "mem_inv st cs gs" and i: "i = HASH st ssrc" and cs: "cs i = xs @ ys" and a: "a \<notin> dom (linkHeap st)"
    and lt: "\<forall>x\<in>set xs. idof (linkHeap st) x < ssrc" and gt: "\<forall>y\<in>set ys. ssrc < idof (linkHeap st) y"
    and ida: "idof h2 a = ssrc" and idb: "\<And>b. b \<in> dom (linkHeap st) \<Longrightarrow> idof h2 b = idof (linkHeap st) b"
    and oth: "\<And>b. b \<in> dom (linkHeap st) \<Longrightarrow> b \<notin> set (cs i) \<Longrightarrow> map_option nextCollis (h2 b) = map_option nextCollis (linkHeap st b)"
    and path: "lpath nextCollis h2 p2 (xs @ a # ys)"
    and st2: "linkHeap st2 = h2" "sourceLinks st2 = (sourceLinks st)[i := p2]"
  shows "bucket_ok st2 (cs(i := xs @ a # ys))"
proof -
  note D = mem_invD [OF inv]
  let ?h = "linkHeap st"
  have il: "i < length (sourceLinks st)" unfolding i by (rule HASH_less [OF D(1)])
  have H: "HASH st2 x = HASH st x" for x using st2 by (simp add: HASH_def)
  have ids: "map (idof h2) zs = map (idof ?h) zs" if "set zs \<subseteq> dom ?h" for zs using that idb by auto
  have sxy: "set xs \<subseteq> dom ?h" "set ys \<subseteq> dom ?h" using D(5) [OF il] cs by auto
  have "sorted_wrt (<) (map (idof ?h) xs @ ssrc # map (idof ?h) ys)"
    using D(3) [OF il] lt gt unfolding cs by (auto simp: sorted_wrt_append)
  then have so: "sorted_wrt (<) (map (idof h2) (xs @ a # ys))" using ids [OF sxy(1)] ids [OF sxy(2)] ida by (simp only: map_append list.map)
  have ha: "HASH st (idof h2 b) = i" if "b \<in> set (xs @ a # ys)" for b
  proof (cases "b = a")
    case False
    then have "b \<in> set (cs i)" using that cs by auto
    moreover from this have "b \<in> dom ?h" using D(5) [OF il] by blast
    ultimately show ?thesis using D(4) [OF il] idb by simp
  qed (simp add: ida i)
  have "lpath nextCollis h2 (sourceLinks st ! j) (cs j) \<and> sorted_wrt (<) (map (idof h2) (cs j)) \<and>
      (\<forall>b\<in>set (cs j). HASH st (idof h2 b) = j)" if j: "j < length (sourceLinks st)" "j \<noteq> i" for j
  proof -
    have "b \<in> dom ?h \<and> b \<notin> set (cs i)" if "b \<in> set (cs j)" for b
      using that D(4) [OF j(1) that] D(4) [OF il, of b] D(5) [OF j(1)] j(2) by auto
    then have "lpath nextCollis h2 (sourceLinks st ! j) (cs j) = lpath nextCollis ?h (sourceLinks st ! j) (cs j)"
      using oth by (intro lpath_cong) auto
    moreover have "HASH st (idof h2 b) = j" if "b \<in> set (cs j)" for b
      using D(4) [OF j(1) that] idb [OF subsetD [OF D(5) [OF j(1)] that]] by simp
    ultimately show ?thesis
      unfolding ids [OF D(5) [OF j(1)]] using D(2,3) [OF j(1)] by blast
  qed
  then show ?thesis
    unfolding bucket_ok_def H st2(1) using so ha path by (simp add: st2(2) nth_list_update)
qed

definition link_view :: "'d SyncSourceLink \<Rightarrow> u32 \<times> addr option \<times> addr option" where
  "link_view l = (srcID l, linkNext l, linkPrev l)"

lemma bucket_ok_cong:
  fixes st st' :: "'d Membership"
  assumes "\<And>b. map_option (\<lambda>l. (srcID l, nextCollis l)) (linkHeap st' b) = map_option (\<lambda>l. (srcID l, nextCollis l)) (linkHeap st b)"
    "sourceLinks st' = sourceLinks st"
  shows "bucket_ok st' cs = bucket_ok st cs"
proof -
  have id: "idof (linkHeap st') b = idof (linkHeap st) b" if "b \<in> dom (linkHeap st)" for b
    using that assms(1) [of b] by (auto simp: idof_def)
  have nc: "map_option nextCollis (linkHeap st' b) = map_option nextCollis (linkHeap st b)" for b
    using assms(1) [of b] by (cases "linkHeap st' b"; cases "linkHeap st b") auto
  have p: "lpath nextCollis (linkHeap st') p as = lpath nextCollis (linkHeap st) p as" for p as
    by (rule lpath_cong) (rule nc)
  have H: "HASH st' x = HASH st x" for x using assms(2) by (simp add: HASH_def)
  have "map (idof (linkHeap st')) as = map (idof (linkHeap st)) as" if "lpath nextCollis (linkHeap st) q as" for q as
    using lpath_dom [OF that] id by auto
  moreover have "b \<in> set as \<Longrightarrow> idof (linkHeap st') b = idof (linkHeap st) b" if "lpath nextCollis (linkHeap st) q as" for q as b
    using lpath_dom [OF that] id by auto
  ultimately show ?thesis unfolding bucket_ok_def p assms(2) H by (metis (no_types, lifting))
qed

lemma put_link_ok:
  assumes inv: "mem_inv st cs gs" and i: "i = HASH st ssrc" and cs: "cs i = xs @ ys"
    and lt: "\<forall>x\<in>set xs. idof (linkHeap st) x < ssrc" and gt: "\<forall>y\<in>set ys. ssrc < idof (linkHeap st) y"
    and nl: "new_link d0 ssrc (if ys = [] then None else Some (hd ys)) st = (a, st1)"
  shows "\<exists>st2. put_link (if xs = [] then None else Some (last xs)) i a st1 = Some st2 \<and>
    bucket_ok st2 (cs(i := xs @ a # ys)) \<and>
    (\<forall>b. map_option link_view (linkHeap st2 b) = map_option link_view (linkHeap st1 b)) \<and>
    length (sourceLinks st2) = length (sourceLinks st) \<and> nextAddr st2 = nextAddr st1 \<and>
    srcFirst st2 = srcFirst st \<and> srcLast st2 = srcLast st \<and> membersCount st2 = membersCount st"
proof -
  note D = mem_invD [OF inv]
  let ?h = "linkHeap st"
  have il: "i < length (sourceLinks st)" unfolding i by (rule HASH_less [OF D(1)])
  have a: "a = nextAddr st" "a \<notin> dom ?h" using nl D(6) by (auto simp: new_link_def)
  define n where "n = \<lparr>srcID = ssrc, srcSender = fst d0, linkPrev = None, linkNext = None,
      nextCollis = (if ys = [] then None else Some (hd ys)), linkData = snd d0\<rparr>"
  have st1: "st1 = st\<lparr>linkHeap := ?h(a \<mapsto> n), nextAddr := nextAddr st + 1\<rparr>"
    using nl by (auto simp: new_link_def n_def)
  have nc: "nextCollis n = (case ys of [] \<Rightarrow> None | y # _ \<Rightarrow> Some y)" by (simp add: n_def split: list.split)
  have nin: "a \<notin> set (xs @ ys)" using D(5) [OF il] a(2) cs by auto
  note upd = bucket_ok_upd [OF inv i cs a(2) lt gt]
  show ?thesis
  proof (cases "xs = []")
    case True
    let ?st2 = "st1\<lparr>sourceLinks := (sourceLinks st1)[i := Some a]\<rparr>"
    define h2 where "h2 = ?h(a \<mapsto> n)"
    have "lpath nextCollis h2 (nextCollis n) ys = lpath nextCollis ?h (nextCollis n) ys"
      unfolding h2_def by (rule lpath_cong) (use nin in auto)
    moreover have "lpath nextCollis ?h (nextCollis n) ys"
      using D(2) [OF il] True cs lpath_head [of nextCollis ?h "sourceLinks st ! i" ys] nc by simp
    ultimately have "lpath nextCollis h2 (Some a) (a # ys)" by (simp add: h2_def del: fun_upd_apply) (simp add: h2_def)
    then have "bucket_ok ?st2 (cs(i := xs @ a # ys))"
      using a True by (intro upd [of h2 "Some a"]) (auto simp: h2_def idof_def n_def st1)
    then show ?thesis using True by (simp add: put_link_def st1)
  next
    case False
    then have "last xs \<in> set (cs i)" using cs by simp
    then have "last xs \<in> dom ?h" using D(5) [OF il] by blast
    then obtain l where l: "?h (last xs) = Some l" by blast
    have la: "last xs \<noteq> a" using nin last_in_set [OF False] by auto
    define l' where "l' = l\<lparr>nextCollis := Some a\<rparr>"
    define h2 where "h2 = ?h(a \<mapsto> n, last xs \<mapsto> l')"
    let ?st2 = "st1\<lparr>linkHeap := h2\<rparr>"
    have dist: "distinct (xs @ ys)" using sorted_ids_distinct [OF D(3) [OF il]] cs by simp
    have "lpath nextCollis h2 (sourceLinks st ! i) (xs @ a # ys)"
      unfolding h2_def using D(2) [OF il] dist nin l nc False
      by (intro lpath_insert [where l = l]) (auto simp: cs l'_def)
    then have "bucket_ok ?st2 (cs(i := xs @ a # ys))"
      using a(2) la l il last_in_set [OF False] cs
      by (intro upd [of h2 "sourceLinks st ! i"]) (auto simp: h2_def l'_def idof_def n_def st1)
    moreover have "put_link (Some (last xs)) i a st1 = Some ?st2"
      using l la by (simp add: put_link_def upd_link_def st1 h2_def l'_def)
    moreover have "map_option link_view (h2 b) =
        map_option link_view (linkHeap st1 b)" for b
      using l la by (simp add: h2_def st1 l'_def link_view_def)
    ultimately show ?thesis using False by (auto simp: st1)
  qed
qed

lemma lpath_snoc:
  assumes "lpath f h p gs" "distinct gs" "a \<notin> set gs" "f n = None"
  shows "gs = [] \<Longrightarrow> lpath f (h(a \<mapsto> n)) (Some a) [a]"
    "gs \<noteq> [] \<Longrightarrow> h (last gs) = Some l \<Longrightarrow> f l' = Some a \<Longrightarrow> lpath f (h(a \<mapsto> n, last gs \<mapsto> l')) p (gs @ [a])"
  using assms lpath_insert [of f h p gs "[]" a l l' n] by simp_all

lemma append_source_ok:
  fixes st st1 st2 :: "'d Membership"
  assumes inv: "mem_inv st cs gs" and i: "i = HASH st ssrc" and nl: "new_link d0 ssrc nc st = (a, st1)"
    and b: "bucket_ok st2 cs'" and v: "\<And>b. map_option link_view (linkHeap st2 b) = map_option link_view (linkHeap st1 b)"
    and e: "length (sourceLinks st2) = length (sourceLinks st)" "nextAddr st2 = nextAddr st1"
      "srcFirst st2 = srcFirst st" "srcLast st2 = srcLast st" "membersCount st2 = membersCount st"
    and cs': "cs' = cs(i := xs @ a # ys)" "cs i = xs @ ys"
  shows "\<exists>st3. append_source a st2 = Some st3 \<and> mem_inv st3 cs' (gs @ [a]) \<and>
    map_option srcID (linkHeap st3 a) = Some ssrc \<and> ids st3 = insert ssrc (ids st)"
proof -
  note D = mem_invD [OF inv]
  let ?h = "linkHeap st" and ?h2 = "linkHeap st2"
  have a: "a = nextAddr st" "a \<notin> dom ?h" using nl D(6) by (auto simp: new_link_def)
  define n where "n = \<lparr>srcID = ssrc, srcSender = fst d0, linkPrev = None, linkNext = None, nextCollis = nc, linkData = snd d0\<rparr>"
  have st1: "linkHeap st1 = ?h(a \<mapsto> n)" "nextAddr st1 = nextAddr st + 1" using nl by (auto simp: new_link_def n_def)
  have ga: "a \<notin> set gs" using D(9) a(2) by simp
  have view: "linkHeap st2 c = None \<longleftrightarrow> linkHeap st1 c = None"
    "linkHeap st2 c = Some l \<Longrightarrow> \<exists>l1. linkHeap st1 c = Some l1 \<and> link_view l = link_view l1" for c l
    using v [of c] by (cases "linkHeap st1 c"; auto)+
  have dom2: "dom ?h2 = insert a (dom ?h)" using view(1) st1(1) by (auto simp: dom_def)
  define st3 where "st3 = increaseMembersCount ((if gs = [] then st2\<lparr>srcFirst := Some a\<rparr>
      else st2\<lparr>linkHeap := ?h2(last gs \<mapsto> (the (?h2 (last gs)))\<lparr>linkNext := Some a\<rparr>)\<rparr>)\<lparr>srcLast := Some a\<rparr>)"
  have lg: "last gs \<in> dom ?h" if "gs \<noteq> []" using that D(9) last_in_set by blast
  have first: "srcFirst st = None \<longleftrightarrow> gs = []" using lpath_head [OF D(7)] by (auto split: list.splits)
  have app: "append_source a st2 = Some st3"
  proof (cases "gs = []")
    case False
    then obtain l where "?h2 (last gs) = Some l" using lg dom2 by blast
    then show ?thesis using False first D(10) by (simp add: append_source_def upd_link_def e st3_def)
  qed (use first in \<open>simp add: append_source_def e st3_def\<close>)
  define h3 where "h3 = linkHeap st3"
  have h3a: "h3 c = (if gs \<noteq> [] \<and> c = last gs then map_option (\<lambda>l. l\<lparr>linkNext := Some a\<rparr>) (?h2 c) else ?h2 c)" for c
  proof (cases "gs \<noteq> [] \<and> c = last gs")
    case True
    then obtain l where "?h2 c = Some l" using lg dom2 by blast
    then show ?thesis using True by (simp add: h3_def st3_def increaseMembersCount_def)
  qed (auto simp: h3_def st3_def increaseMembersCount_def)
  have fields: "nextAddr st3 = nextAddr st + 1" "sourceLinks st3 = sourceLinks st2" "srcLast st3 = Some a"
    "srcFirst st3 = (if gs = [] then Some a else srcFirst st)" "membersCount st3 = membersCount st + 1"
    by (simp_all add: st3_def increaseMembersCount_def e st1)
  have 1: "bucket_ok st3 cs'"
    using b by (subst bucket_ok_cong [of st3 st2]) (simp_all add: h3_def [symmetric] h3a fields option.map_comp comp_def)
  have old: "map_option (\<lambda>l. (srcID l, linkPrev l)) (h3 c) = map_option (\<lambda>l. (srcID l, linkPrev l)) (linkHeap st1 c)" for c
    using v [of c] by (cases "?h2 c"; cases "linkHeap st1 c") (auto simp: h3a link_view_def)
  have dom3: "dom h3 = insert a (dom ?h)" using dom2 by (auto simp: h3a dom_def split: if_splits)
  have ida: "idof h3 a = ssrc" "linkPrev (the (h3 a)) = None"
    using old [of a] by (auto simp: idof_def st1 n_def)
  have idc: "idof h3 c = idof ?h c \<and> linkPrev (the (h3 c)) = linkPrev (the (?h c))" if "c \<in> dom ?h" for c
  proof -
    have "c \<noteq> a" using that a(2) by blast
    then show ?thesis using old [of c] that by (cases "h3 c") (auto simp: idof_def st1)
  qed
  have H: "HASH st3 x = HASH st x" for x by (simp add: HASH_def fields e)
  have 2: "c < nextAddr st3 \<and> c \<in> set (cs' (HASH st3 (idof h3 c))) \<and> linkPrev (the (h3 c)) = None" if "c \<in> dom h3" for c
  proof (cases "c = a")
    case True
    then show ?thesis using ida i cs' fields a(1) by (simp add: H)
  next
    case False
    then have c: "c \<in> dom ?h" using that dom3 by blast
    have "set (cs j) \<subseteq> set (cs' j)" for j using cs' by auto
    then show ?thesis using D(6) [OF c] idc [OF c] fields(1) by (auto simp: H)
  qed
  have ln: "map_option linkNext (h3 c) = (if gs \<noteq> [] \<and> c = last gs then Some (Some a) else map_option linkNext ((?h(a \<mapsto> n)) c))"
    if "c \<in> set (gs @ [a])" for c
  proof -
    have "c \<in> dom ?h2" using that dom2 D(9) by auto
    then obtain y where y: "?h2 c = Some y" by blast
    then obtain l where "(?h(a \<mapsto> n)) c = Some l" "link_view y = link_view l" using view(2) st1(1) by metis
    then show ?thesis using y by (auto simp: h3a link_view_def)
  qed
  have 3: "lpath linkNext h3 (srcFirst st3) (gs @ [a])"
  proof (cases "gs = []")
    case True
    then show ?thesis using ln [of a] by (auto simp: fields n_def)
  next
    case False
    then obtain l where l: "?h (last gs) = Some l" using lg by blast
    have "lpath linkNext (?h(a \<mapsto> n, last gs \<mapsto> l\<lparr>linkNext := Some a\<rparr>)) (srcFirst st) (gs @ [a])"
      by (rule lpath_snoc(2) [OF D(7,8) ga _ False l]) (simp_all add: n_def)
    moreover have "lpath linkNext h3 (srcFirst st) (gs @ [a]) =
        lpath linkNext (?h(a \<mapsto> n, last gs \<mapsto> l\<lparr>linkNext := Some a\<rparr>)) (srcFirst st) (gs @ [a])"
      by (rule lpath_cong) (use ln False in auto)
    ultimately show ?thesis using False fields(4) by simp
  qed
  have "mem_inv st3 cs' (gs @ [a])"
    using 1 2 3 D(1,8,9,11) ga dom3 fields e unfolding mem_inv_def bucket_ok_def h3_def [symmetric] by simp
  moreover have "ids st3 = insert ssrc (ids st)"
    using dom3 ida(1) idc by (simp add: ids_image h3_def [symmetric] cong: image_cong)
  moreover have "map_option srcID (linkHeap st3 a) = Some ssrc"
    using ida(1) dom3 unfolding h3_def [symmetric] by (cases "h3 a") (auto simp: idof_def)
  ultimately show ?thesis using app by blast
qed

lemma getSourceBySSRC_step:
  assumes inv: "mem_inv st cs gs"
  shows "\<exists>a st' cs' gs' created. getSourceBySSRC d0 st ssrc = Some (a, created, st') \<and> mem_inv st' cs' gs' \<and>
    (created \<longleftrightarrow> ssrc \<notin> ids st) \<and> map_option srcID (linkHeap st' a) = Some ssrc \<and> ids st' = insert ssrc (ids st) \<and>
    (\<not> created \<longrightarrow> st' = st) \<and> length gs' = length gs + (if created then 1 else 0)"
proof -
  note D = mem_invD [OF inv]
  let ?h = "linkHeap st"
  define i where "i = HASH st ssrc"
  have il: "i < length (sourceLinks st)" unfolding i_def by (rule HASH_less [OF D(1)])
  obtain xs ys found where s: "cs i = xs @ ys" "\<forall>x\<in>set xs. idof ?h x < ssrc"
    "if found then ys \<noteq> [] \<and> idof ?h (hd ys) = ssrc else \<forall>y\<in>set ys. ssrc < idof ?h y"
    "src_search ?h ssrc None (sourceLinks st ! i) =
      Some (if xs = [] then None else Some (last xs), if ys = [] then None else Some (hd ys), found)"
    using src_search_lpath [OF D(2,3) [OF il], of ssrc None] by blast
  show ?thesis
  proof (cases found)
    case True
    then have y: "ys \<noteq> []" "idof ?h (hd ys) = ssrc" "hd ys \<in> set (cs i)" using s by auto
    then have "hd ys \<in> dom ?h" using D(5) [OF il] by blast
    moreover have "ssrc \<in> ids st" using ids_bucket [OF inv] y by (auto simp: i_def)
    moreover have "getSourceBySSRC d0 st ssrc = Some (hd ys, False, st)"
      using s(4) True y(1) by (simp add: getSourceBySSRC_def i_def [symmetric])
    ultimately show ?thesis
      using inv y(2) by (intro exI [of _ "hd ys"] exI [of _ st] exI [of _ cs] exI [of _ gs] exI [of _ False]) (auto simp: idof_def)
  next
    case False
    have nid: "ssrc \<notin> ids st" using ids_bucket [OF inv] s(1-3) False by (auto simp: i_def [symmetric])
    obtain a st1 where nl: "new_link d0 ssrc (if ys = [] then None else Some (hd ys)) st = (a, st1)" by fastforce
    have gt: "\<forall>y\<in>set ys. ssrc < idof ?h y" using s(3) False by simp
    obtain st2 where p: "put_link (if xs = [] then None else Some (last xs)) i a st1 = Some st2"
      "bucket_ok st2 (cs(i := xs @ a # ys))" "\<And>b. map_option link_view (linkHeap st2 b) = map_option link_view (linkHeap st1 b)"
      "length (sourceLinks st2) = length (sourceLinks st)" "nextAddr st2 = nextAddr st1"
      "srcFirst st2 = srcFirst st" "srcLast st2 = srcLast st" "membersCount st2 = membersCount st"
      using put_link_ok [OF inv i_def s(1,2) gt nl] by blast
    obtain st3 where q: "append_source a st2 = Some st3" "mem_inv st3 (cs(i := xs @ a # ys)) (gs @ [a])"
      "map_option srcID (linkHeap st3 a) = Some ssrc" "ids st3 = insert ssrc (ids st)"
      using append_source_ok [OF inv i_def nl p(2-8) refl s(1)] by blast
    have "getSourceBySSRC d0 st ssrc = Some (a, True, st3)"
      using s(4) False nl p(1) q(1) by (simp add: getSourceBySSRC_def i_def [symmetric])
    then show ?thesis
      using q nid by (intro exI [of _ a] exI [of _ st3] exI [of _ "cs(i := xs @ a # ys)"] exI [of _ "gs @ [a]"] exI [of _ True]) auto
  qed
qed


section \<open>The contract of the table\<close>

fun register_all :: "('st \<Rightarrow> u32 \<Rightarrow> (addr \<times> bool \<times> 'st) option) \<Rightarrow> 'st \<Rightarrow> u32 list \<Rightarrow> (bool list \<times> 'st) option" where
  "register_all get st [] = Some ([], st)"
| "register_all get st (x # xs) =
     do { (a, created, st) \<leftarrow> get st x; (cs, st) \<leftarrow> register_all get st xs; Some (created # cs, st) }"

text \<open>What a packet queue relies on: \<open>lookup\<close> answers for the registered identifiers, and
  \<open>get\<close> never fails, keeps the invariant and registers exactly the one it was asked for.\<close>

locale ssrc_registry =
  fixes ok :: "'st \<Rightarrow> bool" and known :: "'st \<Rightarrow> u32 set" and members :: "'st \<Rightarrow> u32"
    and lookup :: "'st \<Rightarrow> u32 \<Rightarrow> bool option"
    and get :: "'st \<Rightarrow> u32 \<Rightarrow> (addr \<times> bool \<times> 'st) option"
  assumes finite_known: "ok st \<Longrightarrow> finite (known st)"
    and members_card: "ok st \<Longrightarrow> members st = of_nat (card (known st))"
    and lookup_exact: "ok st \<Longrightarrow> lookup st x = Some (x \<in> known st)"
    and get_registers: "ok st \<Longrightarrow> \<exists>a st'. get st x = Some (a, x \<notin> known st, st') \<and> ok st' \<and> known st' = insert x (known st)"
begin

lemma register_all_ok:
  "ok st \<Longrightarrow> \<exists>cs st'. register_all get st xs = Some (cs, st') \<and> ok st' \<and> known st' = known st \<union> set xs \<and>
     card (known st') = card (known st) + length (filter (\<lambda>c. c) cs)"
proof (induction xs arbitrary: st)
  case (Cons x xs)
  obtain a st1 where g: "get st x = Some (a, x \<notin> known st, st1)" "ok st1" "known st1 = insert x (known st)"
    using get_registers [OF Cons.prems] by blast
  obtain cs st2 where r: "register_all get st1 xs = Some (cs, st2)" "ok st2" "known st2 = known st1 \<union> set xs"
    "card (known st2) = card (known st1) + length (filter (\<lambda>c. c) cs)"
    using Cons.IH [OF g(2)] by blast
  have "card (known st1) = card (known st) + (if x \<notin> known st then 1 else 0)"
    using finite_known [OF Cons.prems] g(3) by (simp add: card_insert_if)
  then show ?case using g r by (intro exI [of _ "(x \<notin> known st) # cs"] exI [of _ st2]) auto
qed simp

lemma register_all_lookup:
  assumes "ok st" "known st = {}"
  shows "\<exists>cs st'. register_all get st xs = Some (cs, st') \<and> members st' = of_nat (card (set xs)) \<and>
    length (filter (\<lambda>c. c) cs) = card (set xs) \<and> (\<forall>x. lookup st' x = Some (x \<in> set xs))"
proof -
  obtain cs st' where r: "register_all get st xs = Some (cs, st')" "ok st'" "known st' = set xs"
    "card (known st') = length (filter (\<lambda>c. c) cs)"
    using register_all_ok [OF assms(1), of xs] assms(2) by auto
  then show ?thesis using members_card [OF r(2)] lookup_exact [OF r(2)] by auto
qed

end

lemma card_ids:
  assumes "mem_inv st cs gs"
  shows "card (ids st) = length gs" "finite (ids st)"
proof -
  note D = mem_invD [OF assms]
  have "inj_on (idof (linkHeap st)) (dom (linkHeap st))"
  proof (rule inj_onI)
    fix a b assume ab: "a \<in> dom (linkHeap st)" "b \<in> dom (linkHeap st)" "idof (linkHeap st) a = idof (linkHeap st) b"
    let ?i = "HASH st (idof (linkHeap st) a)"
    have i: "?i < length (sourceLinks st)" by (rule HASH_less [OF D(1)])
    have "a \<in> set (cs ?i)" "b \<in> set (cs ?i)" using D(6) [OF ab(1)] D(6) [OF ab(2)] ab(3) by simp_all
    then show "a = b" using sorted_ids_inj [OF D(3) [OF i]] ab(3) by blast
  qed
  then show "card (ids st) = length gs"
    using card_image distinct_card [OF D(8)] unfolding ids_image D(9) by metis
  show "finite (ids st)" unfolding ids_image by (metis D(9) List.finite_set finite_imageI)
qed

interpretation mb: ssrc_registry mem_ok ids membersCount isRegistered "getSourceBySSRC d0" for d0 :: "bool \<times> 'd"
proof
  fix st :: "'d Membership" and x
  assume "mem_ok st"
  then obtain cs gs where inv: "mem_inv st cs gs" by (auto simp: mem_ok_def)
  show "finite (ids st)" "membersCount st = of_nat (card (ids st))"
    using card_ids [OF inv] mem_invD(11) [OF inv] by simp_all
  show "isRegistered st x = Some (x \<in> ids st)" by (rule isRegistered_ids [OF inv])
  show "\<exists>a st'. getSourceBySSRC d0 st x = Some (a, x \<notin> ids st, st') \<and> mem_ok st' \<and> ids st' = insert x (ids st)"
    using getSourceBySSRC_step [OF inv, of d0 x] by (fastforce simp: mem_ok_def)
qed

lemma ids_new: "ids (newMembershipBookkeeping n) = {}"
  by (simp add: ids_def newMembershipBookkeeping_def)

text \<open>
  C10: from an empty table, asking for any sequence of identifiers never reads a bad pointer, creates a link exactly for the
  identifiers not seen before, counts them, and afterwards exactly the identifiers of the sequence are registered.
\<close>

theorem membership_registers_exactly:
  assumes "0 < n"
  shows "\<exists>cs st. register_all (getSourceBySSRC d0) (newMembershipBookkeeping n) xs = Some (cs, st) \<and>
    membersCount st = of_nat (card (set xs)) \<and> length (filter (\<lambda>c. c) cs) = card (set xs) \<and>
    (\<forall>x. isRegistered st x = Some (x \<in> set xs))"
  by (rule mb.register_all_lookup [OF mem_ok_new [OF assms] ids_new])

theorem membership_registers_exactly_witness:
  "0 < (11 :: nat) \<and>
   (\<exists>cs st. register_all (getSourceBySSRC (False, ())) (newMembershipBookkeeping 11) [5, 16, 5] = Some (cs, st) \<and>
     membersCount st = 2 \<and> length (filter (\<lambda>c. c) cs) = 2 \<and> (\<forall>x. isRegistered st x = Some (x \<in> {5, 16})))"
proof -
  have "card (set [5, 16, 5 :: u32]) = 2" "set [5, 16, 5] = {5, 16 :: u32}" by (simp_all add: card_insert_if insert_commute)
  then show ?thesis using membership_registers_exactly [of 11 "(False, ())" "[5, 16, 5]"] by (simp del: register_all.simps list.set add: numeral_2_eq_2)
qed

lemma mem_ok_single:
  "\<exists>st :: unit Membership. mem_ok st \<and> x \<in> ids st"
  using mb.get_registers [OF mem_ok_new [of 11], of "(False, ())" x] by auto

section \<open>Purging and removal\<close>

lemma endMembers_path:
  fixes st :: "'d Membership"
  assumes "lpath linkNext (linkHeap st) (srcFirst st) gs" "distinct gs" "set gs = dom (linkHeap st)"
  shows "\<exists>st'. endMembers st = Some st' \<and> linkHeap st' = Map.empty \<and> srcFirst st' = None \<and> srcLast st' = None"
  using assms
proof (induction gs arbitrary: st)
  case Nil
  then have "linkHeap st = Map.empty" using dom_eq_empty_conv by (metis list.set(1))
  then show ?case using Nil by (subst endMembers.simps) simp
next
  case (Cons g gs)
  then obtain l where l: "srcFirst st = Some g" "linkHeap st g = Some l" "lpath linkNext (linkHeap st) (linkNext l) gs" by auto
  let ?st = "st\<lparr>srcFirst := linkNext l, linkHeap := (linkHeap st)(g := None)\<rparr>"
  have "lpath linkNext ((linkHeap st)(g := None)) (linkNext l) gs = lpath linkNext (linkHeap st) (linkNext l) gs"
    by (rule lpath_cong) (use Cons.prems(2) in auto)
  then have "lpath linkNext (linkHeap ?st) (srcFirst ?st) gs" using l(3) by simp
  moreover have "set gs = dom (linkHeap ?st)" using Cons.prems(2,3) by auto
  ultimately have "\<exists>st'. endMembers ?st = Some st' \<and> linkHeap st' = Map.empty \<and> srcFirst st' = None \<and> srcLast st' = None"
    using Cons.IH [of ?st] Cons.prems(2) by (simp only: distinct.simps simp_thms)
  then show ?case using l by (subst endMembers.simps) (simp del: fun_upd_apply)
qed

text \<open>
  Purging a well-formed table ends, frees every link exactly once and leaves none behind.
\<close>

theorem endMembers_frees_all:
  assumes "mem_ok st"
  shows "\<exists>st'. endMembers st = Some st' \<and> linkHeap st' = Map.empty \<and> srcFirst st' = None \<and> srcLast st' = None"
proof -
  obtain cs gs where "mem_inv st cs gs" using assms by (auto simp: mem_ok_def)
  from mem_invD(7-9) [OF this] show ?thesis by (rule endMembers_path)
qed

theorem endMembers_frees_all_witness:
  "\<exists>st :: unit Membership. 5 \<in> ids st \<and>
     (\<exists>st'. endMembers st = Some st' \<and> linkHeap st' = Map.empty \<and> srcFirst st' = None \<and> srcLast st' = None)"
proof -
  obtain st :: "unit Membership" where "mem_ok st" "5 \<in> ids st" using mem_ok_single [of 5] by auto
  then show ?thesis using endMembers_frees_all [of st] by blast
qed

lemma walk_sources_broken:
  "lpath linkNext h p (xs @ a # ys) \<Longrightarrow> h' a = None \<Longrightarrow>
   (\<And>x. x \<in> set xs \<Longrightarrow> map_option linkNext (h' x) = map_option linkNext (h x)) \<Longrightarrow> walk_sources h' p = None"
proof (induction xs arbitrary: p)
  case Nil
  then show ?case by (subst walk_sources.simps) simp
next
  case (Cons x xs)
  then obtain l where l: "p = Some x" "h x = Some l" "lpath linkNext h (linkNext l) (xs @ a # ys)" by auto
  then obtain l' where l': "h' x = Some l'" "linkNext l' = linkNext l" using Cons.prems(3) [of x] by auto
  have "walk_sources h' (linkNext l) = None" by (rule Cons.IH [OF l(3)]) (use Cons.prems in auto)
  then show ?case using l(1) l' by (subst walk_sources.simps) simp
qed

lemma upd_if_next:
  assumes "upd_if p f st = Some st'" "\<And>l. linkNext (f l) = linkNext l"
  shows "map_option linkNext (linkHeap st' b) = map_option linkNext (linkHeap st b)"
  using assms by (auto simp: upd_if_def upd_link_def split: if_splits Option.bind_splits)

lemma upd_if_ok: "(\<And>a. p = Some a \<Longrightarrow> a \<in> dom (linkHeap st)) \<Longrightarrow> \<exists>st'. upd_if p f st = Some st' \<and> dom (linkHeap st') = dom (linkHeap st) \<and> srcFirst st' = srcFirst st"
  by (cases p) (auto simp: upd_if_def upd_link_def)

lemma delete_source_broken:
  fixes st :: "'d Membership"
  assumes path: "lpath linkNext (linkHeap st) (srcFirst st) gs" "a \<in> set gs" "set gs = dom (linkHeap st)" "distinct gs"
    and l: "linkHeap st a = Some l" "linkPrev l = None" and old: "\<And>b. old = Some b \<Longrightarrow> b \<in> dom (linkHeap st)"
  shows "\<exists>st'. delete_source a l old st = Some st' \<and> linkHeap st' a = None \<and> walk_sources (linkHeap st') (srcFirst st') = None"
proof -
  obtain xs ys where gs: "gs = xs @ a # ys" using path(2) split_list by metis
  obtain st1 where s1: "upd_if old (\<lambda>m. m\<lparr>nextCollis := nextCollis l\<rparr>) st = Some st1"
    "dom (linkHeap st1) = dom (linkHeap st)" "srcFirst st1 = srcFirst st"
    using upd_if_ok [OF old] by blast
  have n: "b \<in> dom (linkHeap st1)" if "linkNext l = Some b" for b
  proof -
    have "lpath linkNext (linkHeap st) (Some a) (a # ys)" using lpath_suffix path(1) gs by blast
    then have "lpath linkNext (linkHeap st) (linkNext l) ys" using l(1) by simp
    then have "b \<in> set ys" using that by (cases ys) auto
    then show ?thesis using gs path(3) s1(2) by auto
  qed
  obtain st2 where s2: "upd_if (linkNext l) (\<lambda>m. m\<lparr>linkPrev := linkPrev l\<rparr>) st1 = Some st2"
    "dom (linkHeap st2) = dom (linkHeap st1)" "srcFirst st2 = srcFirst st1"
    using upd_if_ok [OF n] by blast
  have nx: "map_option linkNext (linkHeap st2 b) = map_option linkNext (linkHeap st b)" for b
    using upd_if_next [OF s1(1)] upd_if_next [OF s2(1)] by simp
  obtain st' where st': "delete_source a l old st = Some st'" "linkHeap st' = (linkHeap st2)(a := None)" "srcFirst st' = srcFirst st"
    using s1 s2 l(2) by (auto simp: delete_source_def upd_if_def decreaseMembersCount_def decreaseSendersCount_def Let_def)
  have "walk_sources (linkHeap st') (srcFirst st) = None"
    by (rule walk_sources_broken [of "linkHeap st" "srcFirst st" xs a ys]) (use path gs nx in \<open>auto simp: st'\<close>)
  then show ?thesis using st' by simp
qed

text \<open>
  Removing a registered source reports success and frees its link, but the links of the list in the order of arrival never
  point backwards, so the list is not repaired: the next walk over the sources reads the freed link.
\<close>

theorem removeSource_leaves_dangling:
  assumes "mem_ok st" "ssrc \<in> ids st"
  shows "\<exists>st'. removeSource st ssrc = Some (True, st') \<and> walk_sources (linkHeap st') (srcFirst st') = None"
proof -
  obtain cs gs where inv: "mem_inv st cs gs" using assms by (auto simp: mem_ok_def)
  note D = mem_invD [OF inv]
  let ?h = "linkHeap st" and ?i = "HASH st ssrc"
  have il: "?i < length (sourceLinks st)" by (rule HASH_less [OF D(1)])
  obtain xs ys found where s: "cs ?i = xs @ ys" "\<forall>x\<in>set xs. idof ?h x < ssrc"
    "if found then ys \<noteq> [] \<and> idof ?h (hd ys) = ssrc else \<forall>y\<in>set ys. ssrc < idof ?h y"
    "src_search ?h ssrc None (sourceLinks st ! ?i) =
      Some (if xs = [] then None else Some (last xs), if ys = [] then None else Some (hd ys), found)"
    using src_search_lpath [OF D(2,3) [OF il], of ssrc None] by blast
  have found: found using s(1-3) assms(2) unfolding ids_bucket [OF inv] by (auto split: if_splits)
  then have y: "ys \<noteq> []" "hd ys \<in> set (cs ?i)" using s by auto
  then have "hd ys \<in> dom ?h" using D(5) [OF il] by blast
  then obtain l where l: "?h (hd ys) = Some l" "linkPrev l = None" using D(6) by fastforce
  have old: "b \<in> dom ?h" if "(if xs = [] then None else Some (last xs)) = Some b" for b
  proof -
    have "b = last xs" "xs \<noteq> []" using that by (simp_all split: if_splits)
    then have "b \<in> set (cs ?i)" using s(1) by simp
    then show ?thesis using D(5) [OF il] by blast
  qed
  obtain st' where "delete_source (hd ys) l (if xs = [] then None else Some (last xs)) st = Some st'"
    "walk_sources (linkHeap st') (srcFirst st') = None"
    using delete_source_broken [OF D(7) _ D(9,8) l old] \<open>hd ys \<in> dom ?h\<close> D(9) by blast
  then show ?thesis using s(4) found y(1) l(1) by (simp add: removeSource_def)
qed

theorem removeSource_leaves_dangling_witness:
  "\<exists>st :: unit Membership. mem_ok st \<and> 5 \<in> ids st \<and>
     (\<exists>st'. removeSource st 5 = Some (True, st') \<and> walk_sources (linkHeap st') (srcFirst st') = None)"
proof -
  obtain st :: "unit Membership" where "mem_ok st" "5 \<in> ids st" using mem_ok_single [of 5] by auto
  then show ?thesis using removeSource_leaves_dangling [of st 5] by blast
qed

section \<open>Changes that keep the structure\<close>

text \<open>The links of the table as its invariant sees them.\<close>

definition table_view :: "'d SyncSourceLink \<Rightarrow> u32 \<times> addr option \<times> addr option \<times> addr option" where
  "table_view l = (srcID l, linkPrev l, linkNext l, nextCollis l)"

definition table_same :: "'d Membership \<Rightarrow> 'd Membership \<Rightarrow> bool" where
  "table_same m m' \<longleftrightarrow> (\<forall>b. map_option table_view (linkHeap m' b) = map_option table_view (linkHeap m b)) \<and>
     nextAddr m' = nextAddr m \<and> sourceLinks m' = sourceLinks m \<and> srcFirst m' = srcFirst m \<and> srcLast m' = srcLast m \<and>
     membersCount m' = membersCount m"

lemma table_same_refl [simp]: "table_same m m"
  by (simp add: table_same_def)

lemma table_same_trans: "table_same m m' \<Longrightarrow> table_same m' m'' \<Longrightarrow> table_same m m''"
  by (simp add: table_same_def)

lemma table_same_upd:
  "linkHeap m a = Some l \<Longrightarrow> table_view l' = table_view l \<Longrightarrow> table_same m (m\<lparr>linkHeap := (linkHeap m)(a \<mapsto> l')\<rparr>)"
  by (simp add: table_same_def)

lemma mem_ok_table:
  fixes m m' :: "'d Membership"
  assumes ok: "mem_ok m" and t: "table_same m m'"
  shows "mem_ok m'" "ids m' = ids m"
proof -
  obtain cs gs where inv: "mem_inv m cs gs" using ok by (auto simp: mem_ok_def)
  have v: "map_option table_view (linkHeap m' b) = map_option table_view (linkHeap m b)" for b using t by (simp add: table_same_def)
  have f: "map_option linkNext (linkHeap m' b) = map_option linkNext (linkHeap m b)" "map_option nextCollis (linkHeap m' b) = map_option nextCollis (linkHeap m b)"
    "b \<in> dom (linkHeap m') \<longleftrightarrow> b \<in> dom (linkHeap m)"
    "b \<in> dom (linkHeap m) \<Longrightarrow> idof (linkHeap m') b = idof (linkHeap m) b \<and> linkPrev (the (linkHeap m' b)) = linkPrev (the (linkHeap m b))" for b
    using v [of b] by (cases "linkHeap m' b"; cases "linkHeap m b"; auto simp: table_view_def idof_def)+
  have dom: "dom (linkHeap m') = dom (linkHeap m)" using f(3) by blast
  have p: "lpath linkNext (linkHeap m') p as = lpath linkNext (linkHeap m) p as" "lpath nextCollis (linkHeap m') p as = lpath nextCollis (linkHeap m) p as" for p as
    using f(1,2) by (auto intro!: lpath_cong)
  have H: "HASH m' = HASH m" using t by (simp add: table_same_def HASH_def fun_eq_iff)
  note D = mem_invD [OF inv]
  have b: "bucket_ok m cs" using D(2-4) by (simp add: bucket_ok_def)
  have "bucket_ok m' cs"
  proof (subst bucket_ok_cong [of m' m])
    show "map_option (\<lambda>l. (srcID l, nextCollis l)) (linkHeap m' c) = map_option (\<lambda>l. (srcID l, nextCollis l)) (linkHeap m c)" for c
      using v [of c] by (cases "linkHeap m' c"; cases "linkHeap m c") (auto simp: table_view_def)
  qed (use t b in \<open>auto simp: table_same_def\<close>)
  moreover have "a < nextAddr m' \<and> a \<in> set (cs (HASH m' (idof (linkHeap m') a))) \<and> linkPrev (the (linkHeap m' a)) = None" if "a \<in> dom (linkHeap m')" for a
    using that D(6) [of a] f(4) [of a] t unfolding dom H by (simp add: table_same_def)
  ultimately have "mem_inv m' cs gs"
    using D(1,7-11) t unfolding mem_inv_def bucket_ok_def dom p by (simp add: table_same_def)
  then show "mem_ok m'" by (auto simp: mem_ok_def)
  show "ids m' = ids m" unfolding ids_image dom using f(4) by (intro image_cong) simp_all
qed

lemma table_same_path:
  assumes "table_same m m'"
  shows "lpath linkNext (linkHeap m') p as = lpath linkNext (linkHeap m) p as"
proof (rule lpath_cong)
  fix a
  have "map_option table_view (linkHeap m' a) = map_option table_view (linkHeap m a)" using assms by (simp add: table_same_def)
  then show "map_option linkNext (linkHeap m' a) = map_option linkNext (linkHeap m a)"
    by (cases "linkHeap m' a"; cases "linkHeap m a") (auto simp: table_view_def)
qed

end
