(* ===== verification/Rtp_Packet.thy ===== *)
theory Rtp_Packet
  imports Ccrtp_Prelude
begin

text \<open>
  RTP packets: \<^verbatim>\<open>src/src/ccrtp/rtppkt.h\<close> and \<^verbatim>\<open>src/src/rtppkt.cpp\<close> without the SRTP methods. The
  packet memory is a byte list in network order; the sizes are the 32 bit words of the class, with
  the wrap-around of their arithmetic. Fresh memory is given by a function \<open>mem\<close> from offsets to
  bytes; an access outside the memory block is \<open>None\<close>.
\<close>

section \<open>The fixed header\<close>

definition hdr_version :: "byte list \<Rightarrow> byte" where
  "hdr_version b = drop_bit 6 (b ! 0)"
definition hdr_padding :: "byte list \<Rightarrow> bool" where
  "hdr_padding b = bit (b ! 0) 5"
definition hdr_extension :: "byte list \<Rightarrow> bool" where
  "hdr_extension b = bit (b ! 0) 4"
definition hdr_cc :: "byte list \<Rightarrow> nat" where
  "hdr_cc b = unat (b ! 0 AND 0x0F)"
definition hdr_marker :: "byte list \<Rightarrow> bool" where
  "hdr_marker b = bit (b ! 1) 7"
definition hdr_payload :: "byte list \<Rightarrow> byte" where
  "hdr_payload b = b ! 1 AND 0x7F"

definition set_bits :: "byte \<Rightarrow> byte \<Rightarrow> nat \<Rightarrow> byte list \<Rightarrow> byte list" where
  "set_bits msk v i b = b[i := (b ! i AND NOT msk) OR (v AND msk)]"

definition set_version :: "byte \<Rightarrow> byte list \<Rightarrow> byte list" where
  "set_version v = set_bits 0xC0 (push_bit 6 v) 0"
definition set_padding :: "bool \<Rightarrow> byte list \<Rightarrow> byte list" where
  "set_padding v = set_bits 0x20 (if v then 0x20 else 0) 0"
definition set_extension :: "bool \<Rightarrow> byte list \<Rightarrow> byte list" where
  "set_extension v = set_bits 0x10 (if v then 0x10 else 0) 0"
definition set_cc :: "nat \<Rightarrow> byte list \<Rightarrow> byte list" where
  "set_cc n = set_bits 0x0F (of_nat n) 0"
definition set_marker :: "bool \<Rightarrow> byte list \<Rightarrow> byte list" where
  "set_marker v = set_bits 0x80 (if v then 0x80 else 0) 1"
definition set_payload :: "byte \<Rightarrow> byte list \<Rightarrow> byte list" where
  "set_payload pt = set_bits 0x7F pt 1"

section \<open>Packets\<close>

record RTPPacket =
  pbuffer :: "byte list"
  ptotal :: u32
  payloadSize :: u32
  hdrSize :: u32
  cachedSeqNum :: u16
  cachedTimestamp :: u32
  srtpDataOffset :: u32
  srtpLength :: int

definition CCRTP_VERSION :: byte where "CCRTP_VERSION = 2"

definition getPayloadType :: "'a RTPPacket_scheme \<Rightarrow> byte" where
  "getPayloadType p = hdr_payload (pbuffer p)"
definition getSeqNum :: "'a RTPPacket_scheme \<Rightarrow> u16" where
  "getSeqNum p = cachedSeqNum p"
definition getTimestamp :: "'a RTPPacket_scheme \<Rightarrow> u32" where
  "getTimestamp p = cachedTimestamp p"
definition getProtocolVersion :: "'a RTPPacket_scheme \<Rightarrow> byte" where
  "getProtocolVersion p = hdr_version (pbuffer p)"
definition isPadded :: "'a RTPPacket_scheme \<Rightarrow> bool" where
  "isPadded p = hdr_padding (pbuffer p)"
definition getPaddingSize :: "'a RTPPacket_scheme \<Rightarrow> byte" where
  "getPaddingSize p = pbuffer p ! unat (ptotal p - 1)"
definition isMarked :: "'a RTPPacket_scheme \<Rightarrow> bool" where
  "isMarked p = hdr_marker (pbuffer p)"
definition isExtended :: "'a RTPPacket_scheme \<Rightarrow> bool" where
  "isExtended p = hdr_extension (pbuffer p)"
definition getCSRCsCount :: "'a RTPPacket_scheme \<Rightarrow> nat" where
  "getCSRCsCount p = hdr_cc (pbuffer p)"
definition getPayload :: "'a RTPPacket_scheme \<Rightarrow> byte list" where
  "getPayload p = take (unat (payloadSize p)) (drop (unat (hdrSize p)) (pbuffer p))"
definition getRawPacket :: "'a RTPPacket_scheme \<Rightarrow> byte list" where
  "getRawPacket p = take (unat (ptotal p)) (pbuffer p)"
definition getRawPacketSizeSrtp :: "'a RTPPacket_scheme \<Rightarrow> u32" where
  "getRawPacketSizeSrtp p = ptotal p + of_int (srtpLength p)"
definition getRawTimestamp :: "'a RTPPacket_scheme \<Rightarrow> u32" where
  "getRawTimestamp p = from_be32 (take 4 (drop 4 (pbuffer p)))"
text \<open>The array of contributing sources is the memory of the packet: four bytes each, in network order.\<close>

definition getCSRCs :: "'a RTPPacket_scheme \<Rightarrow> byte list list" where
  "getCSRCs p = map (\<lambda>i. take 4 (drop (12 + 4 * i) (pbuffer p))) [0..<getCSRCsCount p]"
definition getHdrExtSize :: "'a RTPPacket_scheme \<Rightarrow> nat" where
  "getHdrExtSize p =
     (if isExtended p
      then 4 * unat (from_be16 (take 2 (drop (12 + 4 * getCSRCsCount p + 2) (pbuffer p))))
      else 0)"
definition getHdrExtContent :: "'a RTPPacket_scheme \<Rightarrow> byte list option" where
  "getHdrExtContent p =
     (if isExtended p then Some (take (getHdrExtSize p) (drop (12 + 4 * getCSRCsCount p + 4) (pbuffer p)))
      else None)"

definition setbuffer :: "byte list \<Rightarrow> nat \<Rightarrow> RTPPacket \<Rightarrow> RTPPacket" where
  "setbuffer src pos p = p\<lparr>pbuffer := memcpy_at (pbuffer p) pos src\<rparr>"

section \<open>Received packets\<close>

text \<open>The header length, with the extension when the bit is set; \<open>None\<close> when it lies outside the block.\<close>

definition block_hdrSize :: "byte list \<Rightarrow> nat option" where
  "block_hdrSize blk =
     (if length blk < 12 then None
      else let hdr = 12 + 4 * hdr_cc blk in
        if hdr_extension blk then
          (if length blk < hdr + 4 then None
           else Some (hdr + 4 + 4 * unat (from_be16 (take 2 (drop (hdr + 2) blk)))))
        else Some hdr)"

definition newRTPPacket_in :: "byte list \<Rightarrow> RTPPacket option" where
  "newRTPPacket_in blk =
     do { hdr \<leftarrow> block_hdrSize blk;
          let len = (if hdr_padding blk then int (length blk) - uint (last blk) else int (length blk));
          Some \<lparr>pbuffer = blk, ptotal = of_nat (length blk), payloadSize = of_int (len - int hdr),
                hdrSize = of_nat hdr, cachedSeqNum = 0, cachedTimestamp = 0,
                srtpDataOffset = 0, srtpLength = 0\<rparr> }"

record IncomingRTPPkt = RTPPacket +
  headerValid :: bool
  cachedSSRC :: u32

definition RTP_INVALID_PT_MASK :: byte where "RTP_INVALID_PT_MASK = 0x7e"
definition RTP_INVALID_PT_VALUE :: byte where "RTP_INVALID_PT_VALUE = 0x48"

definition newIncomingRTPPkt :: "byte list \<Rightarrow> IncomingRTPPkt option" where
  "newIncomingRTPPkt blk =
     do { p \<leftarrow> newRTPPacket_in blk;
          if getProtocolVersion p \<noteq> CCRTP_VERSION \<or>
             getPayloadType p AND RTP_INVALID_PT_MASK = RTP_INVALID_PT_VALUE
          then Some (RTPPacket.extend p \<lparr>headerValid = False, cachedSSRC = 0\<rparr>)
          else Some (RTPPacket.extend
                 (p\<lparr>cachedTimestamp := getRawTimestamp p,
                    cachedSeqNum := from_be16 (take 2 (drop 2 (pbuffer p)))\<rparr>)
                 \<lparr>headerValid = True, cachedSSRC = from_be32 (take 4 (drop 8 (pbuffer p)))\<rparr>) }"

definition reComputePayLength :: "bool \<Rightarrow> 'a RTPPacket_scheme \<Rightarrow> 'a RTPPacket_scheme option" where
  "reComputePayLength padding p =
     (if padding then
        let p = p\<lparr>pbuffer := set_padding True (pbuffer p)\<rparr>;
            i = unat (payloadSize p - 1)
        in if i < length (pbuffer p)
           then let len = (0 - ucast (pbuffer p ! i) :: u64)
                in Some (p\<lparr>payloadSize := ucast (ucast (payloadSize p) - len)\<rparr>)
           else None
      else Some p)"

section \<open>Packets to send\<close>

text \<open>The base constructor; \<open>srtp\<close> is the length of the SRTP data when there is a crypto context.\<close>

definition padding_len :: "u32 \<Rightarrow> byte \<Rightarrow> byte" where
  "padding_len tot paddinglen =
     (if paddinglen = 0 then 0 else paddinglen - ucast (tot mod ucast paddinglen))"

definition newRTPPacket_out ::
  "(nat \<Rightarrow> byte) \<Rightarrow> nat \<Rightarrow> nat \<Rightarrow> byte \<Rightarrow> int option \<Rightarrow> RTPPacket" where
  "newRTPPacket_out mem hdrlen plen paddinglen srtp =
     (let tot = of_nat (hdrlen + unat (of_nat plen :: u32));
          padding = padding_len tot paddinglen;
          tot = tot + ucast padding;
          sl = (case srtp of None \<Rightarrow> 0 | Some n \<Rightarrow> n);
          off = (case srtp of None \<Rightarrow> 0 | Some n \<Rightarrow> tot);
          buf = map mem [0..<nat (uint tot + sl)];
          buf = memcpy_at buf 0 [0, 0, 0, 0];
          buf = set_version CCRTP_VERSION buf;
          buf = (if padding \<noteq> 0
                 then set_padding True
                        ((memcpy_at buf (unat tot - unat padding) (replicate (unat padding - 1) 0))
                           [unat tot - 1 := padding])
                 else set_padding False buf)
      in \<lparr>pbuffer = buf, ptotal = tot, payloadSize = of_nat plen, hdrSize = of_nat hdrlen,
          cachedSeqNum = 0, cachedTimestamp = 0, srtpDataOffset = off, srtpLength = sl\<rparr>)"

definition setCSRCArray :: "u32 list \<Rightarrow> RTPPacket \<Rightarrow> RTPPacket" where
  "setCSRCArray csrcs p =
     (let p = setbuffer (concat (map be32 csrcs)) 12 p
      in p\<lparr>pbuffer := set_cc (length csrcs) (pbuffer p)\<rparr>)"

definition newOutgoingRTPPkt_ext ::
  "(nat \<Rightarrow> byte) \<Rightarrow> u32 list \<Rightarrow> byte list \<Rightarrow> byte list \<Rightarrow> byte \<Rightarrow> int option \<Rightarrow> RTPPacket" where
  "newOutgoingRTPPkt_ext mem csrcs hdrext data paddinglen srtp =
     (let p = newRTPPacket_out mem (12 + 4 * length csrcs + length hdrext) (length data) paddinglen srtp;
          pointer = 12;
          p = setCSRCArray csrcs p;
          pointer = pointer + 4 * length csrcs;
          p = setbuffer hdrext pointer p;
          p = p\<lparr>pbuffer := set_extension (length hdrext > 0) (pbuffer p)\<rparr>;
          pointer = pointer + length hdrext
      in setbuffer data pointer p)"

definition newOutgoingRTPPkt_csrc ::
  "(nat \<Rightarrow> byte) \<Rightarrow> u32 list \<Rightarrow> byte list \<Rightarrow> byte \<Rightarrow> int option \<Rightarrow> RTPPacket" where
  "newOutgoingRTPPkt_csrc mem csrcs data paddinglen srtp =
     (let p = newRTPPacket_out mem (12 + 4 * length csrcs) (length data) paddinglen srtp;
          p = setCSRCArray csrcs p
      in setbuffer data (12 + 4 * length csrcs) p)"

definition newOutgoingRTPPkt ::
  "(nat \<Rightarrow> byte) \<Rightarrow> byte list \<Rightarrow> byte \<Rightarrow> int option \<Rightarrow> RTPPacket" where
  "newOutgoingRTPPkt mem data paddinglen srtp =
     setbuffer data 12 (newRTPPacket_out mem 12 (length data) paddinglen srtp)"

definition setPayloadType :: "byte \<Rightarrow> RTPPacket \<Rightarrow> RTPPacket" where
  "setPayloadType pt p = p\<lparr>pbuffer := set_payload pt (pbuffer p)\<rparr>"
definition setSeqNum :: "u16 \<Rightarrow> RTPPacket \<Rightarrow> RTPPacket" where
  "setSeqNum sq p = p\<lparr>cachedSeqNum := sq, pbuffer := memcpy_at (pbuffer p) 2 (be16 sq)\<rparr>"
definition setTimestamp :: "u32 \<Rightarrow> RTPPacket \<Rightarrow> RTPPacket" where
  "setTimestamp pts p = p\<lparr>cachedTimestamp := pts, pbuffer := memcpy_at (pbuffer p) 4 (be32 pts)\<rparr>"
definition setSSRC :: "u32 \<Rightarrow> RTPPacket \<Rightarrow> RTPPacket" where
  "setSSRC ssrc p = p\<lparr>pbuffer := memcpy_at (pbuffer p) 8 (be32 ssrc)\<rparr>"
definition setMarker :: "bool \<Rightarrow> RTPPacket \<Rightarrow> RTPPacket" where
  "setMarker mark p = p\<lparr>pbuffer := set_marker mark (pbuffer p)\<rparr>"

section \<open>Payload formats\<close>

definition staticAudioTypesRates :: "u32 list" where
  "staticAudioTypesRates =
     [8000, 0, 8000, 8000, 8000, 8000, 16000, 8000, 8000, 8000, 44100, 44100, 8000, 0, 90000, 8000,
      11015, 22050, 8000]"

record PayloadFormat =
  payloadType :: byte
  RTPClockRate :: u32

definition newStaticPayloadFormat :: "byte \<Rightarrow> PayloadFormat" where
  "newStaticPayloadFormat ty =
     \<lparr>payloadType = (if ty \<le> 34 then ty else 0),
      RTPClockRate = (if ty \<le> 18 then staticAudioTypesRates ! unat ty else 90000)\<rparr>"

definition newDynamicPayloadFormat :: "byte \<Rightarrow> u32 \<Rightarrow> PayloadFormat" where
  "newDynamicPayloadFormat ty rate = \<lparr>payloadType = ty, RTPClockRate = rate\<rparr>"

section \<open>The wire image\<close>

text \<open>The bytes of a packet, written down field by field.\<close>

definition pad_bytes :: "byte \<Rightarrow> byte list" where
  "pad_bytes n = (if n = 0 then [] else replicate (unat n - 1) 0 @ [n])"

definition byte0 :: "bool \<Rightarrow> bool \<Rightarrow> nat \<Rightarrow> byte" where
  "byte0 padding ext cc = 0x80 OR (if padding then 0x20 else 0) OR (if ext then 0x10 else 0) OR (of_nat cc AND 0x0F)"

definition byte1 :: "bool \<Rightarrow> byte \<Rightarrow> byte" where
  "byte1 marker pt = (if marker then 0x80 else 0) OR (pt AND 0x7F)"

text \<open>The packet as it goes out: all the fields in place.\<close>

definition rtp_wire ::
  "bool \<Rightarrow> byte \<Rightarrow> u16 \<Rightarrow> u32 \<Rightarrow> u32 \<Rightarrow> u32 list \<Rightarrow> byte list \<Rightarrow> byte list \<Rightarrow> byte \<Rightarrow> byte list" where
  "rtp_wire marker pt sq ts ssrc csrcs hdrext data pad =
     [byte0 (pad \<noteq> 0) (hdrext \<noteq> []) (length csrcs), byte1 marker pt] @ be16 sq @ be32 ts @ be32 ssrc @
     concat (map be32 csrcs) @ hdrext @ data @ pad_bytes pad"

definition send_pkt ::
  "bool \<Rightarrow> byte \<Rightarrow> u16 \<Rightarrow> u32 \<Rightarrow> u32 \<Rightarrow> RTPPacket \<Rightarrow> RTPPacket" where
  "send_pkt marker pt sq ts ssrc p =
     setMarker marker (setSSRC ssrc (setTimestamp ts (setSeqNum sq (setPayloadType pt p))))"

text \<open>A header extension is well formed when its length field counts its words.\<close>

definition valid_hdrext :: "byte list \<Rightarrow> bool" where
  "valid_hdrext x \<longleftrightarrow> x = [] \<or> 4 \<le> length x \<and> length x = 4 + 4 * unat (from_be16 (take 2 (drop 2 x)))"

section \<open>Building a packet gives its wire image\<close>

lemma list12_split:
  assumes "length f = 12 + n"
  obtains h0 h1 h2 h3 h4 h5 h6 h7 h8 h9 h10 h11 r where
    "f = [h0, h1, h2, h3, h4, h5, h6, h7, h8, h9, h10, h11] @ r" "length r = n"
proof -
  have "\<exists>h0 h1 h2 h3 h4 h5 h6 h7 h8 h9 h10 h11.
      take 12 f = [h0, h1, h2, h3, h4, h5, h6, h7, h8, h9, h10, h11]"
    using assms by (auto simp: length_Suc_conv eval_nat_numeral)
  then show thesis using that [of _ _ _ _ _ _ _ _ _ _ _ _ "drop 12 f"] assms
    by (metis append_take_drop_id length_drop diff_add_inverse)
qed

lemma unat_padding_len:
  assumes "pl \<noteq> 0"
  shows "unat (padding_len tot pl) = unat pl - unat tot mod unat pl" "padding_len tot pl \<noteq> 0"
    "(unat tot + unat (padding_len tot pl)) mod unat pl = 0"
proof -
  have pos: "0 < unat pl" using assms by (simp add: unat_gt_0)
  have lt: "unat pl < 256" using unsigned_less [of pl, where 'a = nat] by simp
  let ?r = "tot mod ucast pl"
  have r: "unat ?r = unat tot mod unat pl"
    using lt by (simp add: unat_mod unsigned_ucast_eq take_bit_nat_eq_self)
  have "unat tot mod unat pl < unat pl" using pos by simp
  then have u: "unat (ucast ?r :: byte) = unat tot mod unat pl"
    using lt by (simp add: unsigned_ucast_eq r take_bit_nat_eq_self)
  have le: "ucast ?r \<le> pl" using u pos by (simp add: word_le_nat_alt)
  then have eq: "unat (padding_len tot pl) = unat pl - unat tot mod unat pl"
    using assms u by (simp add: padding_len_def unat_sub)
  then show "unat (padding_len tot pl) = unat pl - unat tot mod unat pl" .
  show "padding_len tot pl \<noteq> 0"
    using eq pos mod_less_divisor [OF pos, of "unat tot"] by auto
  have "unat tot + (unat pl - unat tot mod unat pl) = unat tot div unat pl * unat pl + unat pl"
    using pos div_mult_mod_eq [of "unat tot" "unat pl"] mod_less_divisor [OF pos, of "unat tot"] by linarith
  then show "(unat tot + unat (padding_len tot pl)) mod unat pl = 0"
    unfolding eq by simp
qed

lemma length_pad_bytes [simp]: "length (pad_bytes n) = unat n"
proof (cases "n = 0")
  case False
  then have "0 < unat n" by (simp add: unat_gt_0)
  with False show ?thesis by (simp add: pad_bytes_def)
qed (simp add: pad_bytes_def)

lemma byte0_fields:
  "cc \<le> 15 \<Longrightarrow> unat (byte0 p x cc AND 0x0F) = cc" "bit (byte0 p x cc) 5 = p" "bit (byte0 p x cc) 4 = x"
  "drop_bit 6 (byte0 p x cc) = 2"
proof -
  show "bit (byte0 p x cc) 5 = p" "bit (byte0 p x cc) 4 = x"
    by (simp_all add: byte0_def bit_simps)
  show "drop_bit 6 (byte0 p x cc) = 2"
    by (rule byte_eqI) (auto simp: byte0_def bit_simps)
  assume cc: "cc \<le> 15"
  have "byte0 p x cc AND 0x0F = of_nat cc AND 0x0F"
    by (rule byte_eqI) (auto simp: byte0_def bit_simps)
  also have "\<dots> = take_bit 4 (of_nat cc)" by (simp add: take_bit_eq_mask mask_eq_exp_minus_1)
  finally show "unat (byte0 p x cc AND 0x0F) = cc"
    using cc by (simp add: unsigned_take_bit_eq unsigned_of_nat take_bit_nat_eq_self)
qed

lemma byte1_fields: "bit (byte1 m pt) 7 = m" "byte1 m pt AND 0x7F = pt AND 0x7F"
proof -
  show "bit (byte1 m pt) 7 = m" by (simp add: byte1_def bit_simps)
  show "byte1 m pt AND 0x7F = pt AND 0x7F" by (rule byte_eqI) (auto simp: byte1_def bit_simps)
qed

lemma out_bytes:
  "(((((0 AND NOT 0xC0) OR (push_bit 6 2 AND 0xC0)) AND NOT 0x20) OR ((if p then 0x20 else 0) AND 0x20)) :: byte)
    = byte0 p False 0"
  "(byte0 p False 0 AND NOT 0x0F) OR (of_nat cc AND 0x0F) = byte0 p False cc"
  "(byte0 p False cc AND NOT 0x10) OR ((if x then 0x10 else 0) AND 0x10) = byte0 p x cc"
  by (rule byte_eqI; auto simp: byte0_def bit_simps)+

lemma list_snoc_update: "length a = n \<Longrightarrow> (pre @ (a @ [x]) @ post)[length pre + n := y] = pre @ (a @ [y]) @ post"
  by (simp add: list_update_append)

lemma memcpy_pad:
  assumes "length P = unat n" "n \<noteq> 0"
  shows "(memcpy_at (pre @ P @ post) (length pre) (replicate (unat n - 1) 0))[length pre + unat n - 1 := n] =
    pre @ pad_bytes n @ post"
proof -
  have pos: "0 < unat n" using assms(2) by (simp add: unat_gt_0)
  then obtain x Q where P: "P = Q @ [x]" "length Q = unat n - 1"
    using assms(1) by (metis append_butlast_last_id length_butlast length_greater_0_conv)
  have "memcpy_at (pre @ Q @ ([x] @ post)) (length pre) (replicate (unat n - 1) 0) =
      pre @ replicate (unat n - 1) 0 @ ([x] @ post)"
    by (rule memcpy_at_mid) (simp_all add: P)
  then show ?thesis
    using list_snoc_update [of "replicate (unat n - 1) 0" "unat n - 1" pre x post n] pos assms(2)
    by (simp add: P pad_bytes_def)
qed

lemma out_buffer:
  assumes "12 + n1 + plen + 256 < 2 ^ 32" "0 \<le> sl"
    and sl: "sl = (case srtp of None \<Rightarrow> 0 | Some n \<Rightarrow> n)"
    and pad: "pad = padding_len (of_nat (12 + n1 + plen)) pl"
    and p: "p = newRTPPacket_out mem (12 + n1) plen pl srtp"
  obtains h4 h5 h6 h7 h8 h9 h10 h11 B T where
    "pbuffer p = [byte0 (pad \<noteq> 0) False 0, 0, 0, 0, h4, h5, h6, h7, h8, h9, h10, h11] @ B @ pad_bytes pad @ T"
    "length B = n1 + plen" "length T = nat sl"
    "ptotal p = of_nat (12 + n1 + plen + unat pad)" "payloadSize p = of_nat plen" "hdrSize p = of_nat (12 + n1)"
    "srtpLength p = sl" "srtpDataOffset p = (case srtp of None \<Rightarrow> 0 | Some n \<Rightarrow> ptotal p)"
proof -
  let ?N = "12 + n1 + plen"
  have plen: "unat (of_nat plen :: u32) = plen"
    using assms(1) by (simp add: unsigned_of_nat take_bit_nat_eq_self)
  have ubound: "unat pad < 256" using unsigned_less [of pad, where 'a = nat] by simp
  have tot: "(of_nat ?N :: u32) + ucast pad = of_nat (?N + unat pad)"
    by simp
  have utot: "unat (of_nat (?N + unat pad) :: u32) = ?N + unat pad"
    using assms(1) ubound by (subst unsigned_of_nat) (simp add: take_bit_nat_eq_self)
  define f where "f = map mem [0..<nat (uint (of_nat (?N + unat pad) :: u32) + sl)]"
  have lenf: "length f = 12 + (n1 + plen + (unat pad + nat sl))"
    using utot assms(2) unfolding f_def by (simp add: nat_add_distrib)
  obtain h0 h1 h2 h3 h4 h5 h6 h7 h8 h9 h10 h11 r where
    f: "f = [h0, h1, h2, h3, h4, h5, h6, h7, h8, h9, h10, h11] @ r" "length r = n1 + plen + (unat pad + nat sl)"
    by (rule list12_split [OF lenf])
  obtain B r2 where r: "r = B @ r2" "length B = n1 + plen" "length r2 = unat pad + nat sl"
    by (rule split_at [OF f(2)])
  obtain P T where r2: "r2 = P @ T" "length P = unat pad" "length T = nat sl"
    by (rule split_at [OF r(3)])
  let ?H = "[(0 AND NOT 0xC0) OR (push_bit 6 2 AND 0xC0), 0, 0, 0, h4, h5, h6, h7, h8, h9, h10, h11] :: byte list"
  have v: "set_version CCRTP_VERSION (memcpy_at f 0 [0, 0, 0, 0]) = ?H @ B @ P @ T"
    by (simp add: f r r2 memcpy_at_def set_version_def set_bits_def CCRTP_VERSION_def)
  let ?buf = "if pad \<noteq> 0 then set_padding True ((memcpy_at (?H @ B @ P @ T) (?N + unat pad - unat pad)
      (replicate (unat pad - 1) 0))[?N + unat pad - 1 := pad]) else set_padding False (?H @ B @ P @ T)"
  have "?buf = [byte0 (pad \<noteq> 0) False 0, 0, 0, 0, h4, h5, h6, h7, h8, h9, h10, h11] @ B @ pad_bytes pad @ T"
  proof (cases "pad = 0")
    case True
    then show ?thesis
      using out_bytes(1) [of False] r2 by (simp add: set_padding_def set_bits_def pad_bytes_def)
  next
    case False
    have len: "length (?H @ B) = ?N" using r by simp
    have "(memcpy_at (?H @ B @ P @ T) ?N (replicate (unat pad - 1) 0))[?N + unat pad - 1 := pad] =
        (?H @ B) @ pad_bytes pad @ T"
      using memcpy_pad [OF r2(2) False, of "?H @ B" T] unfolding len by (simp only: append_assoc)
    then show ?thesis
      using False out_bytes(1) [of True] by (simp add: set_padding_def set_bits_def)
  qed
  moreover have "pbuffer p = ?buf"
    unfolding p newRTPPacket_out_def Let_def plen pad [symmetric] tot sl [symmetric] f_def [symmetric] v utot
    by simp
  moreover have "ptotal p = of_nat (?N + unat pad)" "payloadSize p = of_nat plen" "hdrSize p = of_nat (12 + n1)"
    "srtpLength p = sl" "srtpDataOffset p = (case srtp of None \<Rightarrow> 0 | Some n \<Rightarrow> ptotal p)"
    unfolding p newRTPPacket_out_def Let_def plen pad [symmetric] tot sl [symmetric]
    by (simp_all split: option.split)
  ultimately show thesis
    using that [of h4 h5 h6 h7 h8 h9 h10 h11 B T] r r2 by auto
qed

lemma byte1_sets:
  "(((0 AND NOT 0x7F) OR (pt AND 0x7F)) AND NOT 0x80) OR ((if m then 0x80 else 0) AND 0x80) = byte1 m pt"
  by (rule byte_eqI) (auto simp: byte1_def bit_simps)

lemma out_ext_buffer:
  assumes "12 + 4 * length csrcs + length hdrext + length data + 256 < 2 ^ 32" "0 \<le> sl"
    and sl: "sl = (case srtp of None \<Rightarrow> 0 | Some n \<Rightarrow> n)"
    and pad: "pad = padding_len (of_nat (12 + (4 * length csrcs + length hdrext) + length data)) pl"
    and p: "p = send_pkt marker pt sq ts ssrc (newOutgoingRTPPkt_ext mem csrcs hdrext data pl srtp)"
  obtains T where "pbuffer p = rtp_wire marker pt sq ts ssrc csrcs hdrext data pad @ T" "length T = nat sl"
    "unat (ptotal p) = length (rtp_wire marker pt sq ts ssrc csrcs hdrext data pad)"
    "unat (payloadSize p) = length data" "unat (hdrSize p) = 12 + 4 * length csrcs + length hdrext"
    "srtpLength p = sl" "srtpDataOffset p = (case srtp of None \<Rightarrow> 0 | Some n \<Rightarrow> ptotal p)"
    "cachedSeqNum p = sq" "cachedTimestamp p = ts"
proof -
  let ?n1 = "4 * length csrcs + length hdrext"
  have b: "12 + ?n1 + length data + 256 < 2 ^ 32" using assms(1) by simp
  define q where "q = newRTPPacket_out mem (12 + ?n1) (length data) pl srtp"
  obtain h4 h5 h6 h7 h8 h9 h10 h11 B T where q: 
    "pbuffer q = [byte0 (pad \<noteq> 0) False 0, 0, 0, 0, h4, h5, h6, h7, h8, h9, h10, h11] @ B @ pad_bytes pad @ T"
    "length B = ?n1 + length data" "length T = nat sl"
    "ptotal q = of_nat (12 + ?n1 + length data + unat pad)" "payloadSize q = of_nat (length data)" "hdrSize q = of_nat (12 + ?n1)"
    "srtpLength q = sl" "srtpDataOffset q = (case srtp of None \<Rightarrow> 0 | Some n \<Rightarrow> ptotal q)"
    by (rule out_buffer [OF b assms(2) sl pad q_def])
  have "length B = 4 * length csrcs + (length hdrext + length data)" using q(2) by simp
  then obtain C r where C: "B = C @ r" "length C = 4 * length csrcs" "length r = length hdrext + length data"
    by (rule split_at)
  obtain X D where X: "r = X @ D" "length X = length hdrext" "length D = length data"
    by (rule split_at [OF C(3)])
  let ?H = "\<lambda>b. [b, 0, 0, 0, h4, h5, h6, h7, h8, h9, h10, h11] :: byte list"
  let ?cs = "concat (map be32 csrcs)"
  have 1: "memcpy_at (?H b @ C @ z) 12 ?cs = ?H b @ ?cs @ z" for b z
    by (rule memcpy_at_mid) (simp_all add: C)
  have 2: "memcpy_at (?H b @ ?cs @ X @ z) (12 + 4 * length csrcs) hdrext = ?H b @ ?cs @ hdrext @ z" for b z
    using memcpy_at_mid [of "?H b @ ?cs" "12 + 4 * length csrcs" X hdrext z] X by simp
  have 3: "memcpy_at (?H b @ ?cs @ hdrext @ D @ z) (12 + 4 * length csrcs + length hdrext) data =
      ?H b @ ?cs @ hdrext @ data @ z" for b z
    using memcpy_at_mid [of "?H b @ ?cs @ hdrext" "12 + 4 * length csrcs + length hdrext" D data z] X by simp
  have cc: "set_cc (length csrcs) (?H (byte0 (pad \<noteq> 0) False 0) @ z) = ?H (byte0 (pad \<noteq> 0) False (length csrcs)) @ z" for z
    using out_bytes(2) by (simp add: set_cc_def set_bits_def)
  have ex: "set_extension x (?H (byte0 (pad \<noteq> 0) False (length csrcs)) @ z) = ?H (byte0 (pad \<noteq> 0) x (length csrcs)) @ z" for x z
    using out_bytes(3) by (simp add: set_extension_def set_bits_def)
  have "pbuffer (newOutgoingRTPPkt_ext mem csrcs hdrext data pl srtp) =
      ?H (byte0 (pad \<noteq> 0) (hdrext \<noteq> []) (length csrcs)) @ ?cs @ hdrext @ data @ pad_bytes pad @ T"
    unfolding newOutgoingRTPPkt_ext_def Let_def add.assoc q_def [symmetric] setCSRCArray_def setbuffer_def
    by (simp add: q(1) C(1) X(1) 1 [simplified] 2 [simplified add.assoc, simplified] 3 [simplified add.assoc, simplified] cc [simplified] ex [simplified])
  then have "pbuffer p = rtp_wire marker pt sq ts ssrc csrcs hdrext data pad @ T"
    using byte1_sets [of pt marker]
    by (simp add: p send_pkt_def setMarker_def setSSRC_def setTimestamp_def setSeqNum_def setPayloadType_def
        rtp_wire_def set_payload_def set_marker_def set_bits_def memcpy_at_def be16_def be32_def)
  moreover have pb: "unat pad < 256" using unsigned_less [of pad, where 'a = nat] by simp
  have "ptotal p = ptotal q" "payloadSize p = payloadSize q" "hdrSize p = hdrSize q"
    "srtpDataOffset p = srtpDataOffset q" "srtpLength p = srtpLength q" "cachedSeqNum p = sq" "cachedTimestamp p = ts"
    by (simp_all add: p send_pkt_def setMarker_def setSSRC_def setTimestamp_def setSeqNum_def setPayloadType_def
        newOutgoingRTPPkt_ext_def Let_def setCSRCArray_def setbuffer_def q_def add.assoc)
  moreover have "unat (ptotal q) = 12 + ?n1 + length data + unat pad"
    unfolding q(4) using b pb by (intro unat_of_nat32) simp
  moreover have "unat (payloadSize q) = length data"
    unfolding q(5) using b by (intro unat_of_nat32) simp
  moreover have "unat (hdrSize q) = 12 + ?n1"
    unfolding q(6) using b by (intro unat_of_nat32) simp
  moreover have "length (rtp_wire marker pt sq ts ssrc csrcs hdrext data pad) = 12 + ?n1 + length data + unat pad"
    by (simp add: rtp_wire_def be16_def be32_def)
  moreover have "srtpDataOffset p = (case srtp of None \<Rightarrow> 0 | Some n \<Rightarrow> ptotal p)"
    unfolding \<open>srtpDataOffset p = srtpDataOffset q\<close> \<open>ptotal p = ptotal q\<close> by (rule q(8))
  ultimately show thesis
    by (intro that [of T]) (simp_all add: q(3,7))
qed

text \<open>Reading the wire image back.\<close>

lemma take_be32_nth:
  "i < length csrcs \<Longrightarrow> take 4 (drop (4 * i) (concat (map be32 csrcs) @ r)) = be32 (csrcs ! i)"
proof (induction csrcs arbitrary: i)
  case (Cons a csrcs)
  then show ?case by (cases i) simp_all
qed simp

lemma drop_12: "drop (12 + n) (a0 # a1 # a2 # a3 # a4 # a5 # a6 # a7 # a8 # a9 # a10 # a11 # r) = drop n r"
  by (simp add: numeral_eq_Suc)

lemma wire_hdr:
  assumes "length csrcs \<le> 15" "b = rtp_wire marker pt sq ts ssrc csrcs hdrext data pad"
  shows "hdr_version b = 2" "hdr_padding b = (pad \<noteq> 0)" "hdr_extension b = (hdrext \<noteq> [])"
    "hdr_cc b = length csrcs" "hdr_marker b = marker" "hdr_payload b = pt AND 0x7F"
    "take 2 (drop 2 b) = be16 sq" "take 4 (drop 4 b) = be32 ts" "take 4 (drop 8 b) = be32 ssrc"
    "drop (12 + n) b = drop n (concat (map be32 csrcs) @ hdrext @ data @ pad_bytes pad)"
    "length b = 12 + 4 * length csrcs + length hdrext + length data + unat pad"
  using assms byte0_fields byte1_fields
  by (simp_all add: rtp_wire_def hdr_version_def hdr_padding_def hdr_extension_def hdr_cc_def
      hdr_marker_def hdr_payload_def be16_def be32_def drop_12)

lemma wire_hdrSize:
  assumes "length csrcs \<le> 15" "valid_hdrext hdrext" "b = rtp_wire marker pt sq ts ssrc csrcs hdrext data pad"
  shows "block_hdrSize b = Some (12 + 4 * length csrcs + length hdrext)"
proof -
  note h = wire_hdr [OF assms(1,3)]
  have d: "drop (12 + 4 * length csrcs + 2) b = drop 2 (hdrext @ data @ pad_bytes pad)"
    using h(10) [of "4 * length csrcs + 2"] by (simp add: add.assoc)
  show ?thesis
  proof (cases "hdrext = []")
    case True
    then show ?thesis using h(3,4,11) by (simp add: block_hdrSize_def Let_def)
  next
    case False
    then have l: "4 \<le> length hdrext" "length hdrext = 4 + 4 * unat (from_be16 (take 2 (drop 2 hdrext)))"
      using assms(2) unfolding valid_hdrext_def by blast+
    have "take 2 (drop (12 + 4 * length csrcs + 2) b) = take 2 (drop 2 hdrext)"
      unfolding d using l(1) by (simp only: drop_append take_append) simp
    moreover have "\<not> length b < 12" "\<not> length b < 12 + 4 * length csrcs + 4" "hdr_extension b"
      using h(3,11) l(1) False by simp_all
    ultimately show ?thesis
      unfolding block_hdrSize_def Let_def h(4) using l(2) by (simp only: if_True if_False add.assoc)
  qed
qed

lemma last_pad_bytes: "pad \<noteq> 0 \<Longrightarrow> pad_bytes pad \<noteq> [] \<and> last (pad_bytes pad) = pad"
  by (simp add: pad_bytes_def)

lemma wire_last: "pad \<noteq> 0 \<Longrightarrow> last (rtp_wire marker pt sq ts ssrc csrcs hdrext data pad) = pad"
  using last_pad_bytes by (simp add: rtp_wire_def)

lemma pt_valid:
  fixes pt :: byte
  assumes "pt < 128"
  shows "pt AND 0x7F = pt" "pt AND 0x7E = 0x48 \<Longrightarrow> pt = 72 \<or> pt = 73"
proof -
  have "pt AND 0x7F = take_bit 7 pt" by (simp add: take_bit_eq_mask mask_eq_exp_minus_1)
  moreover have "unat pt < 2 ^ 7" using assms by (simp add: word_less_nat_alt)
  ultimately have "unat (pt AND 0x7F) = unat pt"
    by (simp add: take_bit_nat_eq_self unsigned_take_bit_eq)
  then show p: "pt AND 0x7F = pt" by (simp only: unsigned_word_eqI)
  have "pt AND 0x7F = (pt AND 0x7E) OR (pt AND 1)" by (rule byte_eqI) (auto simp: bit_simps bit_1_iff)
  moreover have "pt AND 1 = 0 \<or> pt AND 1 = 1" by (cases "even pt") (simp_all add: and_one_eq mod_2_eq_odd)
  ultimately show "pt AND 0x7E = 0x48 \<Longrightarrow> pt = 72 \<or> pt = 73" using p by auto
qed

text \<open>The packet object that parsing a wire image gives.\<close>

definition parsed_wire ::
  "bool \<Rightarrow> byte \<Rightarrow> u16 \<Rightarrow> u32 \<Rightarrow> u32 \<Rightarrow> u32 list \<Rightarrow> byte list \<Rightarrow> byte list \<Rightarrow> byte \<Rightarrow> IncomingRTPPkt" where
  "parsed_wire marker pt sq ts ssrc csrcs hdrext data pad =
     \<lparr>pbuffer = rtp_wire marker pt sq ts ssrc csrcs hdrext data pad,
      ptotal = of_nat (12 + (4 * length csrcs + length hdrext) + length data + unat pad),
      payloadSize = of_nat (length data), hdrSize = of_nat (12 + 4 * length csrcs + length hdrext),
      cachedSeqNum = sq, cachedTimestamp = ts, srtpDataOffset = 0, srtpLength = 0,
      headerValid = True, cachedSSRC = ssrc\<rparr>"

lemma parse_wire:
  assumes "length csrcs \<le> 15" "valid_hdrext hdrext" "pt < 128" "pt \<noteq> 72" "pt \<noteq> 73"
  shows "newIncomingRTPPkt (rtp_wire marker pt sq ts ssrc csrcs hdrext data pad) =
    Some (parsed_wire marker pt sq ts ssrc csrcs hdrext data pad)"
proof -
  define b where "b = rtp_wire marker pt sq ts ssrc csrcs hdrext data pad"
  note h = wire_hdr [OF assms(1) b_def] and hs = wire_hdrSize [OF assms(1,2) b_def]
  let ?hdr = "12 + 4 * length csrcs + length hdrext"
  define q where "q = \<lparr>pbuffer = b, ptotal = of_nat (length b), payloadSize = of_nat (length data),
      hdrSize = of_nat ?hdr, cachedSeqNum = 0, cachedTimestamp = 0, srtpDataOffset = 0, srtpLength = 0\<rparr>"
  have len: "(if hdr_padding b then int (length b) - uint (last b) else int (length b)) - int ?hdr = int (length data)"
  proof (cases "pad = 0")
    case True
    then show ?thesis using h(2,11) by simp
  next
    case False
    then have "last b = pad" unfolding b_def by (rule wire_last)
    then show ?thesis using False h(2,11) by simp
  qed
  have inq: "newRTPPacket_in b = Some q"
    unfolding newRTPPacket_in_def hs q_def Option.bind.simps Let_def len by simp
  have pt: "pt AND 0x7F = pt" "\<not> pt AND 0x7E = 0x48"
    using pt_valid assms(3-5) by auto
  have fields: "getProtocolVersion q = 2" "getPayloadType q = pt" "getRawTimestamp q = ts"
    "from_be16 (take 2 (drop 2 b)) = sq" "from_be32 (take 4 (drop 8 b)) = ssrc"
    using h pt(1) by (simp_all add: q_def getProtocolVersion_def getPayloadType_def getRawTimestamp_def)
  have "length b = 12 + (4 * length csrcs + length hdrext) + length data + unat pad" using h(11) by simp
  then show ?thesis
    using fields pt(2) unfolding newIncomingRTPPkt_def inq b_def [symmetric] parsed_wire_def
    by (simp add: CCRTP_VERSION_def RTP_INVALID_PT_MASK_def RTP_INVALID_PT_VALUE_def q_def RTPPacket.defs)
qed

lemma parsed_fields:
  assumes "length csrcs \<le> 15" "pt < 128" "12 + 4 * length csrcs + length hdrext + length data + 256 < 2 ^ 32"
    and ip: "ip = parsed_wire marker pt sq ts ssrc csrcs hdrext data pad"
  shows "isMarked ip = marker" "getPayloadType ip = pt" "getCSRCs ip = map be32 csrcs" "getPayload ip = data"
    "unat (ptotal ip) = 12 + (4 * length csrcs + length hdrext) + length data + unat pad"
    "unat (payloadSize ip) = length data" "unat (hdrSize ip) = 12 + 4 * length csrcs + length hdrext"
    "isPadded ip = (pad \<noteq> 0)"
proof -
  let ?b = "rtp_wire marker pt sq ts ssrc csrcs hdrext data pad"
  note h = wire_hdr [OF assms(1) refl, where marker = marker and pt = pt and sq = sq and ts = ts and ssrc = ssrc and
      hdrext = hdrext and data = data and pad = pad]
  have cc: "getCSRCsCount ip = length csrcs" using h(4) by (simp add: ip parsed_wire_def getCSRCsCount_def)
  show "isMarked ip = marker" "getPayloadType ip = pt" "isPadded ip = (pad \<noteq> 0)"
    using h(2,5,6) pt_valid(1) [OF assms(2)] by (simp_all add: ip parsed_wire_def isMarked_def getPayloadType_def isPadded_def)
  have "getCSRCs ip = map be32 (map (\<lambda>i. csrcs ! i) [0..<length csrcs])"
    unfolding getCSRCs_def cc map_map
    by (rule map_cong [OF refl]) (simp add: ip parsed_wire_def h(10) take_be32_nth del: drop_append)
  then show "getCSRCs ip = map be32 csrcs" by (simp add: map_nth del: map_map)
  have "unat pad < 256" using unsigned_less [of pad, where 'a = nat] by simp
  then show "unat (ptotal ip) = 12 + (4 * length csrcs + length hdrext) + length data + unat pad"
    using assms(3) by (simp add: ip parsed_wire_def unat_of_nat32 del: of_nat_add)
  show u: "unat (payloadSize ip) = length data" "unat (hdrSize ip) = 12 + 4 * length csrcs + length hdrext"
    using assms(3) by (auto simp: ip parsed_wire_def intro!: unat_of_nat32 simp del: of_nat_add)
  show "getPayload ip = data"
    using h(10) [of "4 * length csrcs + length hdrext"] u
    by (simp add: getPayload_def) (simp add: ip parsed_wire_def add.assoc)
qed

text \<open>
  C28: a packet survives the wire. A packet built by the sending side with any marker, payload type
  outside the reserved pair, sequence number, timestamp, source, up to fifteen contributing sources,
  a well-formed or no header extension, any payload and any padding granularity, parsed by the
  receiving side from its raw bytes, is valid and has the same fields and the same payload; the array
  of contributing sources is read as it is in the packet, each one in network order, and the
  padding makes its size a multiple of the granularity.
\<close>
theorem rtp_packet_round_trip:
  assumes "12 + 4 * length csrcs + length hdrext + length data + 256 < 2 ^ 32" "length csrcs \<le> 15"
    "valid_hdrext hdrext" "pt < 128" "pt \<noteq> 72" "pt \<noteq> 73"
    and srtp: "srtp = None \<or> (\<exists>n\<ge>0. srtp = Some n)"
    and p: "p = send_pkt marker pt sq ts ssrc (newOutgoingRTPPkt_ext mem csrcs hdrext data pl srtp)"
  shows "\<exists>ip. newIncomingRTPPkt (getRawPacket p) = Some ip \<and> headerValid ip \<and>
    cachedSeqNum ip = sq \<and> cachedTimestamp ip = ts \<and> cachedSSRC ip = ssrc \<and>
    isMarked ip = marker \<and> getPayloadType ip = pt \<and>
    getCSRCs ip = map be32 csrcs \<and> getPayload ip = data \<and>
    (pl \<noteq> 0 \<longrightarrow> unat (ptotal ip) mod unat pl = 0)"
proof -
  define sl where "sl = (case srtp of None \<Rightarrow> 0 | Some n \<Rightarrow> n)"
  have sl0: "0 \<le> sl" using srtp by (auto simp: sl_def)
  let ?n = "12 + (4 * length csrcs + length hdrext) + length data"
  define pad where "pad = padding_len (of_nat ?n) pl"
  define ip where "ip = parsed_wire marker pt sq ts ssrc csrcs hdrext data pad"
  obtain T where "pbuffer p = rtp_wire marker pt sq ts ssrc csrcs hdrext data pad @ T"
    "unat (ptotal p) = length (rtp_wire marker pt sq ts ssrc csrcs hdrext data pad)"
    using out_ext_buffer [OF assms(1) sl0 sl_def pad_def p] by metis
  then have "newIncomingRTPPkt (getRawPacket p) = Some ip"
    using parse_wire [OF assms(2-6)] by (simp add: getRawPacket_def ip_def)
  moreover note f = parsed_fields [OF assms(2,4,1) ip_def]
  moreover have "unat (ptotal ip) mod unat pl = 0" if "pl \<noteq> 0"
  proof -
    have "unat (of_nat ?n :: u32) = ?n" using assms(1) by (intro unat_of_nat32) simp
    then show ?thesis
      using unat_padding_len(3) [OF that, of "of_nat ?n"] f(5) unfolding pad_def [symmetric] by simp
  qed
  ultimately show ?thesis by (auto simp: ip_def parsed_wire_def)
qed

theorem rtp_packet_round_trip_witness:
  "\<exists>ip. newIncomingRTPPkt (getRawPacket (send_pkt True 0 65535 160 0xDEADBEEF
      (newOutgoingRTPPkt_ext (\<lambda>i. 0xAA) [7, 8] [0, 0, 0, 1, 1, 2, 3, 4] [9, 8, 7] 4 None))) = Some ip \<and>
    headerValid ip \<and> cachedSeqNum ip = 65535 \<and> cachedTimestamp ip = 160 \<and> cachedSSRC ip = 0xDEADBEEF \<and>
    isMarked ip = True \<and> getPayloadType ip = 0 \<and>
    getCSRCs ip = [[0, 0, 0, 7], [0, 0, 0, 8]] \<and> getPayload ip = [9, 8, 7] \<and>
    ((4 :: byte) \<noteq> 0 \<longrightarrow> unat (ptotal ip) mod unat (4 :: byte) = 0)"
proof -
  have e: "[[0, 0, 0, 7], [0, 0, 0, 8]] = map be32 [7, 8]" by (simp add: be32_def)
  show ?thesis
    unfolding e
    by (rule rtp_packet_round_trip [OF _ _ _ _ _ _ disjI1 refl]) (simp_all add: valid_hdrext_def from_be16_def)
qed

text \<open>
  \<open>reComputePayLength\<close> with the padding flag never takes anything off the payload: it adds the
  byte at offset \<open>payloadSize - 1\<close> of the buffer (a byte of the packet, not the padding count at its
  end) to the payload size.
\<close>
theorem reComputePayLength_adds:
  assumes "unat (payloadSize p - 1) < length (pbuffer p)"
  shows "\<exists>q. reComputePayLength True p = Some q \<and> hdr_padding (pbuffer q) \<and>
    payloadSize q = payloadSize p + ucast (pbuffer q ! unat (payloadSize p - 1))"
proof -
  have 0: "0 < length (pbuffer p)" using assms by auto
  have "bit ((x AND NOT 0x20) OR (0x20 AND 0x20)) 5" for x :: byte
    by (simp add: bit_simps)
  then have "hdr_padding (set_padding True (pbuffer p))"
    using 0 by (simp add: hdr_padding_def set_padding_def set_bits_def)
  moreover have "length (set_padding True (pbuffer p)) = length (pbuffer p)"
    by (simp add: set_padding_def set_bits_def)
  moreover have "ucast (ucast a - (0 - ucast c) :: u64) = a + ucast c" for a :: u32 and c :: byte
  proof -
    have "uint (ucast (ucast a + ucast c :: u64) :: u32) = uint (a + ucast c)"
      using unsigned_less [of a, where 'a = int] unsigned_less [of c, where 'a = int]
      by (simp add: unsigned_ucast_eq take_bit_eq_mod uint_word_ariths mod_mod_cancel mod_pos_pos_trivial)
    then have "ucast (ucast a + ucast c :: u64) = a + ucast c" by (rule unsigned_word_eqI)
    then show ?thesis by simp
  qed
  ultimately show ?thesis
    using assms by (simp add: reComputePayLength_def Let_def)
qed

theorem reComputePayLength_adds_witness:
  "let p = \<lparr>pbuffer = [0x80, 0, 0, 1, 5, 6], ptotal = 6, payloadSize = 5, hdrSize = 0, cachedSeqNum = 0,
        cachedTimestamp = 0, srtpDataOffset = 0, srtpLength = 0\<rparr>
   in \<exists>q. reComputePayLength True p = Some q \<and> hdr_padding (pbuffer q) \<and>
     payloadSize q = payloadSize p + ucast (pbuffer q ! unat (payloadSize p - 1))"
  unfolding Let_def by (rule reComputePayLength_adds) simp

end
