(* ===== verification/Reception.thy ===== *)
theory Reception
  imports Complex_Main Members Rtp_Packet
begin

text \<open>
  The statistics a session keeps of every source and the checks on the sequence number of an arriving packet:
  \<^verbatim>\<open>SyncSourceLink\<close> of \<^verbatim>\<open>src/src/ccrtp/iqueue.h\<close> with \<^verbatim>\<open>initStats\<close> and \<^verbatim>\<open>computeStats\<close> of
  \<^verbatim>\<open>src/src/members.cpp\<close>, and \<^verbatim>\<open>recordReception\<close> of \<^verbatim>\<open>src/src/incqueue.cpp\<close>. Counters keep their widths; the
  single-precision jitter is a real number with the rounding of every operation as a parameter. The lemmas
  compare the sequence number bookkeeping with the indices of an unbounded stream of packets.
\<close>

section \<open>State of a source\<close>

record timeval =
  tv_sec :: int
  tv_usec :: int

definition timersub :: "timeval \<Rightarrow> timeval \<Rightarrow> timeval" where
  "timersub a b =
     (let s = tv_sec a - tv_sec b; u = tv_usec a - tv_usec b
      in if u < 0 then \<lparr>tv_sec = s - 1, tv_usec = u + 1000000\<rparr> else \<lparr>tv_sec = s, tv_usec = u\<rparr>)"

definition timeval2microtimeout :: "timeval \<Rightarrow> u32" where
  "timeval2microtimeout t = of_int (tv_sec t * 1000000 + tv_usec t)"

definition time0 :: timeval where "time0 = \<lparr>tv_sec = 0, tv_usec = 0\<rparr>"

record 'na SourceData =
  networkAddress :: 'na
  dataTransportPort :: u16
  controlTransportPort :: u16
  prevConflict :: "('na \<times> u16 \<times> u16) option"
  pktFirst :: "addr option"
  pktLast :: "addr option"
  senderInfo :: "byte list option"
  receiverInfo :: "byte list option"
  lastPacketTime :: timeval
  lastRTCPPacketTime :: timeval
  lastRTCPSRTime :: timeval
  obsPacketCount :: u32
  obsOctetCount :: u32
  maxSeqNum :: u16
  extendedMaxSeqNum :: u32
  cumulativePacketLost :: u32
  fractionLost :: byte
  lastPacketTransitTime :: u32
  jitter :: real
  initialDataTimestamp :: u32
  initialDataTime :: timeval
  helloFlag :: bool
  badSeqNum :: u32
  probation :: byte
  baseSeqNum :: u16
  expectedPrior :: u32
  receivedPrior :: u32
  seqNumAccum :: u32

definition SEQNUMMOD :: u32 where "SEQNUMMOD = 65536"

definition initStats :: "'na SourceData \<Rightarrow> 'na SourceData" where
  "initStats d = d\<lparr>
     lastPacketTime := time0, lastRTCPPacketTime := time0, lastRTCPSRTime := time0,
     senderInfo := None, receiverInfo := None,
     obsPacketCount := 0, obsOctetCount := 0, maxSeqNum := 0, extendedMaxSeqNum := 0,
     cumulativePacketLost := 0, fractionLost := 0, jitter := 0,
     initialDataTimestamp := 0, initialDataTime := time0, helloFlag := False,
     badSeqNum := SEQNUMMOD + 1, probation := 0, baseSeqNum := 0,
     expectedPrior := 0, receivedPrior := 0, seqNumAccum := 0\<rparr>"

definition computeStats :: "'na SourceData \<Rightarrow> 'na SourceData" where
  "computeStats d =
     (let ext = ucast (maxSeqNum d) + seqNumAccum d;
          expected = ext - ucast (baseSeqNum d) + 1;
          pc = obsPacketCount d;
          lost = (if pc = 0 then 0 else expected - pc);
          expectedDelta = expected - expectedPrior d;
          receivedDelta = pc - receivedPrior d;
          lostDelta = expectedDelta - receivedDelta
      in d\<lparr>extendedMaxSeqNum := ext, cumulativePacketLost := lost,
           expectedPrior := expected, receivedPrior := pc,
           fractionLost := (if expectedDelta = 0 \<or> lostDelta = 0 then 0
                            else ucast (push_bit 8 lostDelta div expectedDelta))\<rparr>)"

definition getHello :: "'na SourceData \<Rightarrow> bool \<times> 'na SourceData" where
  "getHello d = (if helloFlag d then (False, d) else (True, d\<lparr>helloFlag := True\<rparr>))"

definition getGoodbye :: "'na SourceData \<Rightarrow> bool \<times> 'na SourceData" where
  "getGoodbye d = (if \<not> helloFlag d then (False, d) else (True, d\<lparr>helloFlag := False\<rparr>))"

definition isValid :: "'na SourceData \<Rightarrow> bool" where
  "isValid d \<longleftrightarrow> probation d = 0"

definition initSequence :: "u16 \<Rightarrow> 'na SourceData \<Rightarrow> 'na SourceData" where
  "initSequence seqnum d = d\<lparr>maxSeqNum := seqnum, seqNumAccum := ucast seqnum\<rparr>"

definition setPrevConflict :: "'na \<Rightarrow> u16 \<Rightarrow> u16 \<Rightarrow> 'na SourceData \<Rightarrow> 'na SourceData" where
  "setPrevConflict na dp cp d = d\<lparr>prevConflict := Some (na, dp, cp)\<rparr>"

section \<open>Reception of a packet\<close>

record reception_params =
  minValidPacketSequence :: byte
  maxPacketMisorder :: u16
  maxPacketDropout :: u16
  currentRTPClockRate :: u32

definition defaultMinValidPacketSequence :: byte where "defaultMinValidPacketSequence = 0"
definition defaultMaxPacketMisorder :: u16 where "defaultMaxPacketMisorder = 0"
definition defaultMaxPacketDropout :: u16 where "defaultMaxPacketDropout = 3000"

text \<open>The check of the sequence number: whether the packet is valid, and the source afterwards.\<close>

definition check_sequence :: "reception_params \<Rightarrow> u16 \<Rightarrow> 'na SourceData \<Rightarrow> bool \<times> 'na SourceData" where
  "check_sequence P sn d =
     (if \<not> isValid d then
        let (result, d) =
          (if unat sn = unat (maxSeqNum d) + 1 then
             let d = d\<lparr>probation := probation d - 1\<rparr>
             in if isValid d then (True, initSequence sn d) else (False, d)
           else (False, d\<lparr>probation := minValidPacketSequence P - 1\<rparr>))
        in (result, d\<lparr>maxSeqNum := sn\<rparr>)
      else
        let step = sn - maxSeqNum d in
        if step < maxPacketDropout P then
          (True, (if sn < maxSeqNum d then d\<lparr>seqNumAccum := seqNumAccum d + SEQNUMMOD\<rparr> else d)\<lparr>maxSeqNum := sn\<rparr>)
        else if ucast step \<le> SEQNUMMOD - ucast (maxPacketMisorder P) then
          (if ucast sn = badSeqNum d then (True, initSequence sn d)
           else
             let d = d\<lparr>badSeqNum := (ucast sn + 1) AND (SEQNUMMOD - 1)\<rparr>
             in if 0 < obsPacketCount d then (False, d) else (True, d\<lparr>maxSeqNum := sn\<rparr>))
        else (True, d))"

text \<open>The interarrival jitter, in single precision: \<open>rnd\<close> rounds the result of every operation.\<close>

definition update_jitter :: "(real \<Rightarrow> real) \<Rightarrow> u32 \<Rightarrow> u32 \<Rightarrow> 'na SourceData \<Rightarrow> 'na SourceData" where
  "update_jitter rnd rate ts d =
     (let tarrival = timersub (lastPacketTime d) (initialDataTime d);
          arrival = timeval2microtimeout tarrival * rate;
          transitTime = arrival - ts;
          delta = transitTime - lastPacketTransitTime d;
          delta = (if sint delta < 0 then - delta else delta)
      in d\<lparr>lastPacketTransitTime := transitTime,
           jitter := rnd (jitter d + rnd (1 / 16 * rnd (rnd (of_int (sint delta)) - jitter d)))\<rparr>)"

definition recordReception ::
  "(real \<Rightarrow> real) \<Rightarrow> reception_params \<Rightarrow> 'a RTPPacket_scheme \<Rightarrow> timeval
   \<Rightarrow> 'na SourceData SyncSourceLink \<Rightarrow> bool \<times> 'na SourceData SyncSourceLink" where
  "recordReception rnd P pkt recvtime l =
     (let (result, d) = check_sequence P (getSeqNum pkt) (linkData l) in
      if \<not> result then (False, l\<lparr>linkData := d\<rparr>)
      else
        let d = d\<lparr>obsPacketCount := obsPacketCount d + 1,
                  obsOctetCount := obsOctetCount d + payloadSize pkt,
                  lastPacketTime := recvtime\<rparr>;
            is_first = (obsPacketCount d = 1);
            d = (if is_first then d\<lparr>initialDataTimestamp := getTimestamp pkt\<rparr> else d)
        in (True, l\<lparr>srcSender := is_first \<or> srcSender l,
                    linkData := update_jitter rnd (currentRTPClockRate P) (getTimestamp pkt) d\<rparr>))"


fun receive_run ::
  "(real \<Rightarrow> real) \<Rightarrow> reception_params \<Rightarrow> (RTPPacket \<times> timeval) list
   \<Rightarrow> 'na SourceData SyncSourceLink \<Rightarrow> bool list \<times> 'na SourceData SyncSourceLink" where
  "receive_run rnd P [] l = ([], l)"
| "receive_run rnd P ((pkt, t) # xs) l =
     (let (r, l) = recordReception rnd P pkt t l; (rs, l) = receive_run rnd P xs l in (r # rs, l))"

section \<open>The extended sequence number\<close>

text \<open>The source has seen the packet of index \<open>m\<close> last, \<open>n\<close> packets in all.\<close>

definition tracks :: "nat \<Rightarrow> nat \<Rightarrow> 'na SourceData \<Rightarrow> bool" where
  "tracks m n d \<longleftrightarrow> isValid d \<and> maxSeqNum d = of_nat m \<and> seqNumAccum d = of_nat (m div 65536 * 65536) \<and>
     obsPacketCount d = of_nat n \<and> baseSeqNum d = 0"

lemma unat_of_nat_u16: "unat (of_nat m :: u16) = m mod 65536"
  by (simp add: unsigned_of_nat take_bit_eq_mod)

lemma wrap_iff:
  fixes m r :: nat
  assumes "r < b"
  shows "(m + r) mod b < m mod b \<longleftrightarrow> (m + r) div b = m div b + 1" "(m + r) div b = m div b \<or> (m + r) div b = m div b + 1"
proof -
  define q x where "q = m div b" "x = m mod b"
  have x: "x < b" "m = b * q + x" using assms by (simp_all add: q_x_def)
  consider "x + r < b" | "b \<le> x + r" "x + r - b < x" using assms x(1) by linarith
  then have "(m + r) mod b < x \<and> (m + r) div b = q + 1 \<or> \<not> (m + r) mod b < x \<and> (m + r) div b = q"
  proof cases
    case 1
    have e: "m + r = b * q + (x + r)" using x(2) by simp
    show ?thesis unfolding e using 1 by simp
  next
    case 2
    have e: "m + r = b * (q + 1) + (x + r - b)" using x(2) 2(1) by simp
    have "x + r - b < b" using 2(2) x(1) by simp
    then have md: "(b * (q + 1) + (x + r - b)) mod b = x + r - b" "(b * (q + 1) + (x + r - b)) div b = q + 1"
      using mod_mult_self4 [of b "q + 1" "x + r - b"] div_mult_self4 [of b "q + 1" "x + r - b"] by auto
    show ?thesis unfolding e md using 2(2) by blast
  qed
  then show "(m + r) mod b < m mod b \<longleftrightarrow> (m + r) div b = m div b + 1" "(m + r) div b = m div b \<or> (m + r) div b = m div b + 1"
    unfolding q_x_def by auto
qed

lemma check_sequence_step:
  assumes t: "tracks m n d" and i: "m \<le> i" "i < m + unat (maxPacketDropout P)"
  shows "\<exists>d'. check_sequence P (of_nat i) d = (True, d') \<and> tracks i n d'"
proof -
  have b: "unat (maxPacketDropout P) < 65536" using unsigned_less [of "maxPacketDropout P", where 'a = nat] by simp
  have st: "of_nat i - of_nat m = (of_nat (i - m) :: u16)" using i(1) by (simp add: of_nat_diff)
  have lt: "(of_nat (i - m) :: u16) < maxPacketDropout P"
    using i b unfolding word_less_nat_alt unat_of_nat_u16 by simp
  have w: "(of_nat i :: u16) < of_nat m \<longleftrightarrow> i div 65536 = m div 65536 + 1"
    "i div 65536 = m div 65536 \<or> i div 65536 = m div 65536 + 1"
    using wrap_iff [of "i - m" 65536 m] i b unfolding word_less_nat_alt unat_of_nat_u16 by simp_all
  have acc: "seqNumAccum d + (if (of_nat i :: u16) < of_nat m then SEQNUMMOD else 0) = of_nat (i div 65536 * 65536)"
    using t w by (auto simp: tracks_def SEQNUMMOD_def)
  show ?thesis
    using t lt acc by (auto simp: check_sequence_def tracks_def st isValid_def)
qed

lemma recordReception_linkData:
  assumes "check_sequence P (getSeqNum pkt) (linkData l) = (True, d)" "tracks m n d"
  shows "fst (recordReception rnd P pkt t l)" "tracks m (Suc n) (linkData (snd (recordReception rnd P pkt t l)))"
  using assms by (auto simp: recordReception_def Let_def update_jitter_def tracks_def isValid_def add.commute)

fun gaps_below :: "nat \<Rightarrow> nat \<Rightarrow> nat list \<Rightarrow> bool" where
  "gaps_below g m [] \<longleftrightarrow> True"
| "gaps_below g m (i # is) \<longleftrightarrow> m \<le> i \<and> i < m + g \<and> gaps_below g i is"

lemma receive_run_tracks:
  assumes "tracks m n (linkData l)" "map (getSeqNum \<circ> fst) xs = map of_nat is"
    "gaps_below (unat (maxPacketDropout P)) m is"
  shows "\<exists>l'. receive_run rnd P xs l = (replicate (length is) True, l') \<and> tracks (last (m # is)) (n + length is) (linkData l')"
  using assms
proof (induction xs arbitrary: m n l "is" )
  case (Cons x xs)
  obtain pkt t where x: "x = (pkt, t)" by (cases x)
  obtain i js where js: "is = i # js" "getSeqNum pkt = of_nat i" "map (getSeqNum \<circ> fst) xs = map of_nat js"
    using Cons.prems(2) x by (cases "is") (auto simp: comp_def)
  obtain d' where d': "check_sequence P (getSeqNum pkt) (linkData l) = (True, d')" "tracks i n d'"
    using check_sequence_step [OF Cons.prems(1), of i P] Cons.prems(3) js by auto
  define l1 where "l1 = snd (recordReception rnd P pkt t l)"
  have r: "recordReception rnd P pkt t l = (True, l1)" "tracks i (Suc n) (linkData l1)"
    using recordReception_linkData [OF d', of rnd t] unfolding l1_def by (metis prod.collapse)+
  obtain l' where "receive_run rnd P xs l1 = (replicate (length js) True, l')" "tracks (last (i # js)) (Suc n + length js) (linkData l')"
    using Cons.IH [OF r(2) js(3)] Cons.prems(3) js(1) by auto
  then show ?case using r(1) x js(1) by simp
qed simp

lemma check_sequence_first:
  assumes "linkData l = (initStats d)\<lparr>initialDataTime := t0, probation := 0\<rparr>" "unat s < 65536 - unat (maxPacketMisorder P)"
  shows "\<exists>d'. check_sequence P s (linkData l) = (True, d') \<and> tracks (unat s) 0 d'"
proof -
  have b: "unat s < 65536" using unsigned_less [of s, where 'a = nat] by simp
  have m: "unat (maxPacketMisorder P) < 65536" using unsigned_less [of "maxPacketMisorder P", where 'a = nat] by simp
  have le: "(ucast s :: u32) \<le> 65536 - ucast (maxPacketMisorder P)"
    using assms(2) b m by (simp add: word_le_nat_alt unat_sub_if' unsigned_ucast_eq take_bit_nat_eq_self)
  have "(ucast s :: u32) \<noteq> 65537"
  proof
    assume "(ucast s :: u32) = 65537"
    then have "unat (ucast s :: u32) = 65537" by simp
    then show False using b by (simp add: unsigned_ucast_eq take_bit_nat_eq_self)
  qed
  then show ?thesis
    using le b by (auto simp: assms(1) check_sequence_def initStats_def isValid_def SEQNUMMOD_def tracks_def)
qed

lemma computeStats_tracks:
  assumes "tracks m n d" "0 < n" "n < 2 ^ 32"
  shows "extendedMaxSeqNum (computeStats d) = of_nat m" "cumulativePacketLost (computeStats d) = of_nat (m + 1) - of_nat n"
proof -
  have "ucast (of_nat m :: u16) + of_nat (m div 65536 * 65536) = (of_nat m :: u32)"
  proof -
    have "ucast (of_nat m :: u16) = (of_nat (m mod 65536) :: u32)"
      by (metis unat_of_nat_u16 of_nat_unat)
    then show ?thesis by (metis of_nat_add mod_mult_div_eq mod_div_mult_eq)
  qed
  moreover have "(of_nat n :: u32) \<noteq> 0"
    using assms(2,3) by (simp add: word_of_nat_eq_0_iff nat_dvd_not_less)
  ultimately show "extendedMaxSeqNum (computeStats d) = of_nat m" "cumulativePacketLost (computeStats d) = of_nat (m + 1) - of_nat n"
    using assms(1) by (simp_all add: computeStats_def Let_def tracks_def)
qed

lemma receive_run_fresh:
  assumes "linkData l = (initStats d)\<lparr>initialDataTime := t0, probation := 0\<rparr>"
    and "map (getSeqNum \<circ> fst) xs = map of_nat (i # is)" "i < 65536 - unat (maxPacketMisorder P)"
    and "gaps_below (unat (maxPacketDropout P)) i is"
  shows "\<exists>l'. receive_run rnd P xs l = (replicate (length xs) True, l') \<and> tracks (last (i # is)) (length xs) (linkData l')"
proof -
  obtain x t ys where x: "xs = (x, t) # ys" "getSeqNum x = of_nat i" "map (getSeqNum \<circ> fst) ys = map of_nat is"
    using assms(2) by (cases xs) (auto simp: comp_def)
  have i: "unat (of_nat i :: u16) = i" using assms(3) by (simp add: unat_of_nat_u16)
  obtain d' where d': "check_sequence P (getSeqNum x) (linkData l) = (True, d')" "tracks i 0 d'"
    using check_sequence_first [OF assms(1), of "of_nat i" P] assms(3) i x(2) by auto
  define l1 where "l1 = snd (recordReception rnd P x t l)"
  have r: "recordReception rnd P x t l = (True, l1)" "tracks i (Suc 0) (linkData l1)"
    using recordReception_linkData [OF d', of rnd t] unfolding l1_def by (metis prod.collapse)+
  obtain l' where l': "receive_run rnd P ys l1 = (replicate (length is) True, l')"
    "tracks (last (i # is)) (Suc 0 + length is) (linkData l')"
    using receive_run_tracks [OF r(2) x(3) assms(4)] by blast
  have len: "length xs = Suc (length is)" using assms(2) map_eq_imp_length_eq by fastforce
  have "receive_run rnd P xs l = (replicate (length xs) True, l')"
    using l'(1) r(1) x(1) len by simp
  moreover have "tracks (last (i # is)) (length xs) (linkData l')" using l'(2) len by simp
  ultimately show ?thesis by blast
qed

text \<open>
  C27: a new source accepts every packet of a stream whose indices never step back and never jump by the dropout limit or more;
  it counts them all, and the extended sequence number of the next report is the index of the last packet, across every
  wrap-around of the 16-bit numbers.
\<close>

theorem reception_tracks_stream:
  assumes "linkData l = (initStats d)\<lparr>initialDataTime := t0, probation := 0\<rparr>"
    and "map (getSeqNum \<circ> fst) xs = map of_nat (i # is)" "i < 65536 - unat (maxPacketMisorder P)"
    and "gaps_below (unat (maxPacketDropout P)) i is" "length xs < 2 ^ 32"
  shows "\<exists>l'. receive_run rnd P xs l = (replicate (length xs) True, l') \<and>
    obsPacketCount (linkData l') = of_nat (length xs) \<and>
    extendedMaxSeqNum (computeStats (linkData l')) = of_nat (last (i # is))"
proof -
  obtain l' where l': "receive_run rnd P xs l = (replicate (length xs) True, l')" "tracks (last (i # is)) (length xs) (linkData l')"
    using receive_run_fresh [OF assms(1-4)] by blast
  moreover have "0 < length xs" using assms(2) by (cases xs) auto
  ultimately show ?thesis using computeStats_tracks(1) [OF l'(2)] assms(5) by (simp add: tracks_def)
qed

definition sample_rtp :: "u16 \<Rightarrow> RTPPacket \<times> timeval" where
  "sample_rtp sn = (\<lparr>pbuffer = [], ptotal = 12, payloadSize = 0, hdrSize = 12, cachedSeqNum = sn,
     cachedTimestamp = 0, srtpDataOffset = 0, srtpLength = 0\<rparr>, time0)"

definition sample_params :: reception_params where
  "sample_params = \<lparr>minValidPacketSequence = defaultMinValidPacketSequence, maxPacketMisorder = defaultMaxPacketMisorder,
     maxPacketDropout = defaultMaxPacketDropout, currentRTPClockRate = 8000\<rparr>"

definition blank_source :: "'na \<Rightarrow> 'na SourceData" where
  "blank_source na = \<lparr>networkAddress = na, dataTransportPort = 0, controlTransportPort = 0, prevConflict = None,
     pktFirst = None, pktLast = None, senderInfo = None, receiverInfo = None, lastPacketTime = time0,
     lastRTCPPacketTime = time0, lastRTCPSRTime = time0, obsPacketCount = 0, obsOctetCount = 0, maxSeqNum = 0,
     extendedMaxSeqNum = 0, cumulativePacketLost = 0, fractionLost = 0, lastPacketTransitTime = 0, jitter = 0,
     initialDataTimestamp = 0, initialDataTime = time0, helloFlag = False, badSeqNum = 0, probation = 0,
     baseSeqNum = 0, expectedPrior = 0, receivedPrior = 0, seqNumAccum = 0\<rparr>"

definition sample_link :: "unit SourceData SyncSourceLink" where
  "sample_link = \<lparr>srcID = 7, srcSender = False, linkPrev = None, linkNext = None, nextCollis = None,
     linkData = (initStats (blank_source ()))\<lparr>initialDataTime := time0, probation := 0\<rparr>\<rparr>"

lemma sample_link_data: "linkData sample_link = (initStats (blank_source ()))\<lparr>initialDataTime := time0, probation := 0\<rparr>"
  by (simp add: sample_link_def)

lemma getSeqNum_sample [simp]: "getSeqNum (fst (sample_rtp sn)) = sn"
  by (simp add: sample_rtp_def getSeqNum_def)

lemma sample_params_fields [simp]: "unat (maxPacketMisorder sample_params) = 0" "unat (maxPacketDropout sample_params) = 3000"
  by (simp_all add: sample_params_def defaultMaxPacketMisorder_def defaultMaxPacketDropout_def)

theorem reception_tracks_stream_witness:
  "\<exists>l'. receive_run id sample_params [sample_rtp 65534, sample_rtp 0, sample_rtp 1] sample_link = ([True, True, True], l') \<and>
     obsPacketCount (linkData l') = 3 \<and> extendedMaxSeqNum (computeStats (linkData l')) = 65537"
proof -
  have "\<exists>l'. receive_run id sample_params [sample_rtp 65534, sample_rtp 0, sample_rtp 1] sample_link
      = (replicate (length [sample_rtp 65534, sample_rtp 0, sample_rtp 1]) True, l') \<and>
    obsPacketCount (linkData l') = of_nat (length [sample_rtp 65534, sample_rtp 0, sample_rtp 1]) \<and>
    extendedMaxSeqNum (computeStats (linkData l')) = of_nat (last (65534 # [65536, 65537]))"
    by (rule reception_tracks_stream [OF sample_link_data]) (simp_all add: comp_def)
  then show ?thesis by (simp del: receive_run.simps add: numeral_3_eq_3)
qed

lemma gaps_below_upt: "1 < g \<Longrightarrow> gaps_below g m [Suc m ..< Suc m + n]"
proof (induction n arbitrary: m)
  case (Suc n)
  have "[Suc m ..< Suc m + Suc n] = Suc m # [Suc (Suc m) ..< Suc (Suc m) + n]" by (simp add: upt_conv_Cons)
  then show ?case using Suc.IH [of "Suc m"] Suc.prems by (simp del: upt_Suc)
qed simp

text \<open>
  The base sequence number of a source is never set, so that after a stream without any loss that starts at number \<open>s\<close> the
  report gives \<open>s\<close> lost packets.
\<close>

theorem reception_counts_start_as_lost:
  assumes "linkData l = (initStats d)\<lparr>initialDataTime := t0, probation := 0\<rparr>"
    and "map (getSeqNum \<circ> fst) xs = map of_nat [s ..< s + n]" "s < 65536 - unat (maxPacketMisorder P)"
    and "0 < n" "n < 2 ^ 32" "1 < maxPacketDropout P"
  shows "\<exists>l'. receive_run rnd P xs l = (replicate n True, l') \<and>
    cumulativePacketLost (computeStats (linkData l')) = of_nat s"
proof -
  obtain k where n: "n = Suc k" using assms(4) by (cases n) auto
  have up: "[s ..< s + n] = s # [Suc s ..< Suc s + k]" unfolding n by (simp add: upt_conv_Cons)
  have len: "length xs = n" using arg_cong [OF assms(2), of length] by simp
  have g: "gaps_below (unat (maxPacketDropout P)) s [Suc s ..< Suc s + k]"
    using assms(6) by (intro gaps_below_upt) (simp add: word_less_nat_alt)
  obtain l' where l': "receive_run rnd P xs l = (replicate (length xs) True, l')"
    "tracks (last (s # [Suc s ..< Suc s + k])) (length xs) (linkData l')"
    using receive_run_fresh [OF assms(1) assms(2) [unfolded up] assms(3) g] by blast
  have la: "last (s # [Suc s ..< Suc s + k]) = s + k" by (cases k) simp_all
  have "of_nat (s + k + 1) - of_nat n = (of_nat s :: u32)" unfolding n by simp
  then show ?thesis using computeStats_tracks(2) [OF l'(2)] l'(1) assms(4,5) len la by auto
qed

theorem reception_counts_start_as_lost_witness:
  "\<exists>l'. receive_run id sample_params [sample_rtp 40000, sample_rtp 40001] sample_link = ([True, True], l') \<and>
     cumulativePacketLost (computeStats (linkData l')) = 40000"
proof -
  have "\<exists>l'. receive_run id sample_params [sample_rtp 40000, sample_rtp 40001] sample_link = (replicate 2 True, l') \<and>
     cumulativePacketLost (computeStats (linkData l')) = of_nat 40000"
    by (rule reception_counts_start_as_lost [OF sample_link_data])
       (simp_all add: comp_def upt_conv_Cons sample_params_def defaultMaxPacketDropout_def defaultMaxPacketMisorder_def)
  then show ?thesis by (simp del: receive_run.simps add: numeral_2_eq_2)
qed

text \<open>
  When a source restarts at a distant sequence number and the second packet confirms it, the accumulator is set to the number
  too, and the extended sequence number of the next report is twice the number.
\<close>

theorem resync_doubles_index:
  assumes "isValid d" "\<not> sn - maxSeqNum d < maxPacketDropout P"
    "ucast (sn - maxSeqNum d) \<le> SEQNUMMOD - ucast (maxPacketMisorder P)" "badSeqNum d = ucast sn"
  shows "\<exists>d'. check_sequence P sn d = (True, d') \<and> extendedMaxSeqNum (computeStats d') = 2 * ucast sn"
  using assms by (simp add: check_sequence_def initSequence_def computeStats_def Let_def)

definition sample_restart :: "unit SourceData" where
  "sample_restart = (blank_source ())\<lparr>maxSeqNum := 5, badSeqNum := 20001, obsPacketCount := 1\<rparr>"

theorem resync_doubles_index_witness:
  "\<exists>d'. check_sequence sample_params 20001 sample_restart = (True, d') \<and> extendedMaxSeqNum (computeStats d') = 40002"
  using resync_doubles_index [of sample_restart 20001 sample_params]
  by (simp add: sample_restart_def blank_source_def isValid_def sample_params_def defaultMaxPacketDropout_def
      defaultMaxPacketMisorder_def SEQNUMMOD_def)

text \<open>
  With the default limits a packet that arrives after a later one of its source is dropped: the branch for reordered packets
  needs a step above 65536, which a 16-bit difference never is.
\<close>

theorem default_drops_reordered:
  assumes "isValid d" "0 < obsPacketCount d" "maxPacketMisorder P = defaultMaxPacketMisorder"
    "maxPacketDropout P = defaultMaxPacketDropout"
    "0 < k" "k < 62536" "sn = maxSeqNum d - of_nat k" "badSeqNum d \<noteq> ucast sn"
  shows "\<exists>d'. check_sequence P sn d = (False, d') \<and> maxSeqNum d' = maxSeqNum d"
proof -
  have e: "sn - maxSeqNum d = - of_nat k" using assms(7) by simp
  have "unat (- of_nat k :: u16) = 65536 - k"
  proof -
    have "(- of_nat k :: u16) = of_nat (65536 - k)" using assms(6) by (simp add: of_nat_diff)
    then show ?thesis using assms(5) by (simp only: unat_of_nat_u16) simp
  qed
  then have lt: "\<not> (- of_nat k :: u16) < maxPacketDropout P"
    using assms(4,6) by (simp add: word_less_nat_alt defaultMaxPacketDropout_def)
  have "(ucast (- of_nat k :: u16) :: u32) \<le> SEQNUMMOD - ucast (maxPacketMisorder P)"
    using unsigned_less [of "- of_nat k :: u16", where 'a = nat] assms(3)
    by (simp add: word_le_nat_alt SEQNUMMOD_def defaultMaxPacketMisorder_def unsigned_ucast_eq take_bit_nat_eq_self)
  then show ?thesis
    using assms(1,2,8) lt unfolding check_sequence_def Let_def e by auto
qed

theorem default_drops_reordered_witness:
  "\<exists>d'. check_sequence sample_params 4 sample_restart = (False, d') \<and> maxSeqNum d' = 5"
  using default_drops_reordered [of sample_restart sample_params 1 4]
  by (simp add: sample_restart_def blank_source_def isValid_def sample_params_def)

end
