(* ===== verification/Rtcp_Packet.thy ===== *)
theory Rtcp_Packet
  imports Reception
begin

text \<open>
  RTCP packets: \<^verbatim>\<open>src/src/rtcppkt.cpp\<close> and \<^verbatim>\<open>src/src/ccrtp/rtcppkt.h\<close>. A packet is the list of bytes from its fixed header on; its
  structures are packed and in network order. A read beyond the buffer is \<^term>\<open>None\<close>. The theory has the fields of the headers, the
  validity check of a compound packet, the layout and the accessors of the report blocks and the conversions of times.
\<close>

section \<open>Fields of a packet in the buffer\<close>

definition tSR :: byte where "tSR = 200"
definition tRR :: byte where "tRR = 201"
definition tSDES :: byte where "tSDES = 202"
definition tBYE :: byte where "tBYE = 203"
definition tAPP :: byte where "tAPP = 204"
definition tXR :: byte where "tXR = 194"

definition fh_version :: "byte list \<Rightarrow> byte" where "fh_version p = drop_bit 6 (p ! 0)"
definition fh_padding :: "byte list \<Rightarrow> bool" where "fh_padding p = bit (p ! 0) 5"
definition fh_block_count :: "byte list \<Rightarrow> byte" where "fh_block_count p = p ! 0 AND 0x1F"
definition fh_type :: "byte list \<Rightarrow> byte" where "fh_type p = p ! 1"
definition fh_length :: "byte list \<Rightarrow> u16" where "fh_length p = from_be16 (take 2 (drop 2 p))"

definition getLength :: "byte list \<Rightarrow> nat" where "getLength p = (unat (fh_length p) + 1) * 4"
definition getSSRC :: "byte list \<Rightarrow> u32" where "getSSRC p = from_be32 (take 4 (drop 4 p))"

definition rtcp_header :: "byte \<Rightarrow> byte \<Rightarrow> u16 \<Rightarrow> byte list" where
  "rtcp_header count type len = [0x80 OR (count AND 0x1F), type] @ be16 len"

section \<open>Validity of a compound packet\<close>

definition RTCP_VALID_MASK :: u16 where "RTCP_VALID_MASK = 0x00C0 OR 0x0020 OR 0xFE00"
definition RTCP_VALID_VALUE :: u16 where "RTCP_VALID_VALUE = push_bit 6 (ucast CCRTP_VERSION) OR push_bit 8 (ucast tSR)"

text \<open>
  The first two bytes are read as a little-endian number. The loop runs at least once; \<open>pointer\<close> stays below the size of the buffer
  (at most 65535 bytes) whenever a header is read, so that the 32-bit sum cannot wrap.
\<close>

function compound_loop :: "byte list \<Rightarrow> nat \<Rightarrow> nat \<Rightarrow> nat option" where
  "compound_loop buf len pointer =
     (if pointer + 4 > length buf then None
      else let pkt = drop pointer buf; pointer = pointer + getLength pkt
           in if pointer < len \<and> fh_version pkt = CCRTP_VERSION then compound_loop buf len pointer else Some pointer)"
  by pat_completeness auto
termination
  by (relation "measure (\<lambda>(buf, _, pointer). length buf - pointer)") (auto simp: getLength_def)

declare compound_loop.simps [simp del]

definition checkCompoundRTCPHeader :: "byte list \<Rightarrow> nat \<Rightarrow> bool option" where
  "checkCompoundRTCPHeader buf len =
     (if length buf < 2 then None
      else if (ucast (buf ! 0) OR push_bit 8 (ucast (buf ! 1))) AND RTCP_VALID_MASK \<noteq> RTCP_VALID_VALUE then Some False
      else do { pointer \<leftarrow> compound_loop buf len 0;
                Some (pointer = len) })"

section \<open>Report blocks\<close>

text \<open>The receiver information of a report block: its 20 bytes in network order, and the accessors of the class that wraps it.\<close>

definition receiver_info :: "byte \<Rightarrow> u32 \<Rightarrow> u32 \<Rightarrow> u32 \<Rightarrow> u32 \<Rightarrow> u32 \<Rightarrow> byte list" where
  "receiver_info fraction lost seqnum jit lsr dlsr =
     [fraction, ucast (drop_bit 16 (lost AND 0xFF0000))] @ be16 (ucast (lost AND 0xFFFF)) @
     be32 seqnum @ be32 jit @ be32 lsr @ be32 dlsr"

definition getFractionLost :: "byte list \<Rightarrow> byte" where "getFractionLost ri = ri ! 0"

definition getCumulativePacketLost :: "byte list \<Rightarrow> u32" where
  "getCumulativePacketLost ri = ucast (from_be16 (take 2 (drop 2 ri))) + push_bit 16 (ucast (ri ! 1))"

definition getExtendedSeqNum :: "byte list \<Rightarrow> u32" where "getExtendedSeqNum ri = from_be32 (take 4 (drop 4 ri))"
definition getJitter :: "byte list \<Rightarrow> u32" where "getJitter ri = from_be32 (take 4 (drop 8 ri))"

definition getLastSRNTPTimestampInt :: "byte list \<Rightarrow> u16" where
  "getLastSRNTPTimestampInt ri = ucast (drop_bit 16 (from_be32 (take 4 (drop 12 ri)) AND 0xFFFF0000))"
definition getLastSRNTPTimestampFrac :: "byte list \<Rightarrow> u16" where
  "getLastSRNTPTimestampFrac ri = ucast (from_be32 (take 4 (drop 12 ri)) AND 0xFFFF)"
definition getDelayLastSR :: "byte list \<Rightarrow> u32" where "getDelayLastSR ri = from_be32 (take 4 (drop 16 ri))"

text \<open>The sender information of an SR.\<close>

definition sender_info :: "u32 \<Rightarrow> u32 \<Rightarrow> u32 \<Rightarrow> u32 \<Rightarrow> u32 \<Rightarrow> byte list" where
  "sender_info msw lsw ts packets octets = be32 msw @ be32 lsw @ be32 ts @ be32 packets @ be32 octets"

definition getNTPTimestampInt :: "byte list \<Rightarrow> u32" where "getNTPTimestampInt si = from_be32 (take 4 si)"
definition getNTPTimestampFrac :: "byte list \<Rightarrow> u32" where "getNTPTimestampFrac si = from_be32 (take 4 (drop 4 si))"
definition getRTPTimestamp :: "byte list \<Rightarrow> u32" where "getRTPTimestamp si = from_be32 (take 4 (drop 8 si))"
definition getPacketCount :: "byte list \<Rightarrow> u32" where "getPacketCount si = from_be32 (take 4 (drop 12 si))"
definition getOctetCount :: "byte list \<Rightarrow> u32" where "getOctetCount si = from_be32 (take 4 (drop 16 si))"

text \<open>
  The constructors from a pointer copy twenty bytes from the place of the pointer itself, not from where it points: what they hold
  is what the stack holds there.
\<close>

definition newRTCPReceiverInfo :: "(nat \<Rightarrow> byte) \<Rightarrow> byte list \<Rightarrow> byte list" where
  "newRTCPReceiverInfo stack ri = map stack [0..<20]"
definition newRTCPSenderInfo :: "(nat \<Rightarrow> byte) \<Rightarrow> byte list \<Rightarrow> byte list" where
  "newRTCPSenderInfo stack si = map stack [0..<20]"

section \<open>Times\<close>

definition NTP_EPOCH_OFFSET :: u32 where "NTP_EPOCH_OFFSET = 2208992400"

text \<open>The fraction goes through double precision; \<open>rnd\<close> rounds the result of every operation. The product is exact.\<close>

definition NTP2Timeval :: "(real \<Rightarrow> real) \<Rightarrow> u32 \<Rightarrow> u32 \<Rightarrow> timeval" where
  "NTP2Timeval rnd msw lsw =
     \<lparr>tv_sec = uint (msw - NTP_EPOCH_OFFSET),
      tv_usec = \<lfloor>rnd (rnd (of_nat (unat lsw) * 1000000) / (2 ^ 32 - 1))\<rfloor> mod 2 ^ 32\<rparr>"

text \<open>Microseconds are not negative here.\<close>

definition timevalIntervalTo65536 :: "timeval \<Rightarrow> u32" where
  "timevalIntervalTo65536 t = of_int (tv_sec t * 65536) + of_int (tv_usec t * 4096 div 125000 * 2)"

definition microtimeout2Timeval :: "u32 \<Rightarrow> timeval" where
  "microtimeout2Timeval t = \<lparr>tv_sec = uint (t mod 1000000), tv_usec = uint (t div 1000000)\<rparr>"

section \<open>Lemmas\<close>

text \<open>A list of packets that fill a compound packet: each as long as its header says, all but the last with the version of RTP.\<close>

definition rtcp_packet :: "byte list \<Rightarrow> bool" where
  "rtcp_packet p \<longleftrightarrow> length p = getLength p"

definition compound :: "byte list list \<Rightarrow> bool" where
  "compound ps \<longleftrightarrow> ps \<noteq> [] \<and> list_all rtcp_packet ps \<and> list_all (\<lambda>p. fh_version p = CCRTP_VERSION) (butlast ps)"

lemma getLength_ge: "4 \<le> getLength p"
  by (simp add: getLength_def)

lemma fh_take:
  assumes "4 \<le> n" "4 \<le> length p"
  shows "fh_version (take n p) = fh_version p" "getLength (take n p) = getLength p" "fh_type (take n p) = fh_type p"
    "fh_block_count (take n p) = fh_block_count p"
proof -
  have "take 2 (drop 2 (take n p)) = take 2 (drop 2 p)" using assms by (simp add: take_drop min_def)
  then show "getLength (take n p) = getLength p" by (simp add: getLength_def fh_length_def)
qed (use assms in \<open>simp_all add: fh_version_def fh_type_def fh_block_count_def\<close>)

lemma compound_loop_sound:
  "compound_loop buf len pointer = Some len \<Longrightarrow> len \<le> length buf \<Longrightarrow> \<exists>ps. compound ps \<and> concat ps = take (len - pointer) (drop pointer buf)"
proof (induction buf len pointer rule: compound_loop.induct)
  case (1 buf len pointer)
  let ?p = "drop pointer buf"
  define n where "n = getLength ?p"
  have b: "pointer + 4 \<le> length buf" using "1.prems"(1) by (simp add: compound_loop.simps split: if_splits)
  have n4: "4 \<le> n" unfolding n_def by (rule getLength_ge)
  note step = "1.prems"(1) [unfolded compound_loop.simps [of buf len pointer] Let_def, folded n_def]
  have pk: "rtcp_packet (take n ?p)" "fh_version (take n ?p) = fh_version ?p" if "pointer + n \<le> length buf"
    using fh_take [of n ?p] n4 b that by (simp_all add: rtcp_packet_def n_def)
  show ?case
  proof (cases "pointer + n < len \<and> fh_version ?p = CCRTP_VERSION")
    case True
    then obtain ps where ps: "compound ps" "concat ps = take (len - (pointer + n)) (drop (pointer + n) buf)"
      using "1.IH" [OF _ refl refl, folded n_def] step b "1.prems"(2) by auto
    have "take n ?p @ concat ps = take (len - pointer) ?p"
    proof -
      have "len - pointer = n + (len - (pointer + n))" using True by simp
      then show ?thesis unfolding ps(2) by (metis add.commute drop_drop take_add)
    qed
    moreover have "compound (take n ?p # ps)" using ps(1) pk True "1.prems"(2) by (auto simp: compound_def)
    ultimately show ?thesis by (intro exI [of _ "take n ?p # ps"]) simp
  next
    case False
    then have "len = pointer + n" using step b by auto
    then show ?thesis using pk "1.prems"(2) by (intro exI [of _ "[take n ?p]"]) (auto simp: compound_def)
  qed
qed

lemma compound_loop_complete:
  "compound ps \<Longrightarrow> drop pointer buf = concat ps @ rest \<Longrightarrow> pointer \<le> length buf \<Longrightarrow>
     compound_loop buf (pointer + length (concat ps)) pointer = Some (pointer + length (concat ps))"
proof (induction ps arbitrary: pointer)
  case (Cons p ps)
  have lp: "length p = getLength p" "4 \<le> length p" using Cons.prems(1) getLength_ge [of p] by (auto simp: compound_def rtcp_packet_def)
  have d: "drop pointer buf = p @ concat ps @ rest" using Cons.prems(2) by simp
  have le: "pointer + length p \<le> length buf" using arg_cong [OF d, of length] Cons.prems(3) by simp
  have g: "getLength (drop pointer buf) = length p" "fh_version (drop pointer buf) = fh_version p"
    using fh_take [of "length p" "drop pointer buf"] lp le d by simp_all
  show ?case
  proof (cases "ps = []")
    case True
    then show ?thesis using le lp g by (simp add: compound_loop.simps [of buf _ pointer] Let_def)
  next
    case False
    then have v: "fh_version p = CCRTP_VERSION" "compound ps" using Cons.prems(1) by (auto simp: compound_def)
    then have "rtcp_packet (hd ps)" by (cases ps) (auto simp: compound_def)
    then have pos: "0 < length (concat ps)" using False getLength_ge [of "hd ps"] by (cases ps) (auto simp: rtcp_packet_def)
    have "drop (pointer + length p) buf = concat ps @ rest"
      using arg_cong [OF d, of "drop (length p)"] by (simp add: add.commute)
    from Cons.IH [OF v(2) this le] show ?thesis
      using le lp g v(1) pos by (simp add: compound_loop.simps [of buf _ pointer] Let_def add.assoc)
  qed
qed (simp add: compound_def)

lemma all_less_16: "(\<forall>n<16. P n) \<longleftrightarrow> P 0 \<and> P 1 \<and> P 2 \<and> P 3 \<and> P 4 \<and> P 5 \<and> P 6 \<and> P 7 \<and> P 8 \<and> P 9 \<and> P 10 \<and> P 11 \<and> P 12 \<and> P 13 \<and> P 14 \<and> P (15 :: nat)"
  by (simp add: numeral_eq_Suc All_less_Suc conj_ac)

lemma all_less_8: "(\<forall>n<8. P n) \<longleftrightarrow> P 0 \<and> P 1 \<and> P 2 \<and> P 3 \<and> P 4 \<and> P 5 \<and> P 6 \<and> P (7 :: nat)"
  by (simp add: numeral_eq_Suc All_less_Suc conj_ac)

lemma word_eq_bits: "(x :: 'a::len word) = y \<longleftrightarrow> (\<forall>n<LENGTH('a). bit x n = bit y n)"
  by (auto intro: bit_word_eqI)

lemma valid_mask:
  fixes a b :: byte
  shows "(ucast a OR push_bit 8 (ucast b)) AND RTCP_VALID_MASK = RTCP_VALID_VALUE \<longleftrightarrow>
    drop_bit 6 a = 2 \<and> \<not> bit a 5 \<and> b \<in> {200, 201}"
  unfolding RTCP_VALID_MASK_def RTCP_VALID_VALUE_def CCRTP_VERSION_def tSR_def word_eq_bits insert_iff
  by (simp add: all_less_16 all_less_8 bit_simps) blast

lemma checkCompoundRTCPHeader_iff:
  assumes "len \<le> length buf" "2 \<le> length buf"
  shows "checkCompoundRTCPHeader buf len = Some True \<longleftrightarrow>
    fh_version buf = CCRTP_VERSION \<and> \<not> fh_padding buf \<and> fh_type buf \<in> {tSR, tRR} \<and> (\<exists>ps. compound ps \<and> concat ps = take len buf)"
proof -
  have "compound_loop buf len 0 = Some len \<longleftrightarrow> (\<exists>ps. compound ps \<and> concat ps = take len buf)"
  proof
    assume "compound_loop buf len 0 = Some len"
    from compound_loop_sound [OF this assms(1)] show "\<exists>ps. compound ps \<and> concat ps = take len buf" by simp
  next
    assume "\<exists>ps. compound ps \<and> concat ps = take len buf"
    then obtain ps where ps: "compound ps" "concat ps = take len buf" by blast
    then have "drop 0 buf = concat ps @ drop len buf" by simp
    from compound_loop_complete [OF ps(1) this] ps(2) assms(1) show "compound_loop buf len 0 = Some len" by simp
  qed
  moreover have "(ucast (buf ! 0) OR push_bit 8 (ucast (buf ! 1))) AND RTCP_VALID_MASK = RTCP_VALID_VALUE \<longleftrightarrow>
      fh_version buf = CCRTP_VERSION \<and> \<not> fh_padding buf \<and> fh_type buf \<in> {tSR, tRR}"
    unfolding valid_mask by (simp add: fh_version_def fh_padding_def fh_type_def CCRTP_VERSION_def tSR_def tRR_def)
  ultimately show ?thesis
    using assms(2) by (cases "compound_loop buf len 0") (auto simp: checkCompoundRTCPHeader_def)
qed


text \<open>
  C13: a compound packet is accepted exactly when it starts with a sender or receiver report without padding of the right version and is cut
  into packets by the length fields of their headers without remainder, all of them except perhaps the last of the right version.
\<close>

theorem checkCompoundRTCPHeader_exact:
  assumes "len \<le> length buf" "2 \<le> length buf"
  shows "checkCompoundRTCPHeader buf len = Some True \<longleftrightarrow>
    fh_version buf = CCRTP_VERSION \<and> \<not> fh_padding buf \<and> fh_type buf \<in> {tSR, tRR} \<and> (\<exists>ps. compound ps \<and> concat ps = take len buf)"
  by (rule checkCompoundRTCPHeader_iff [OF assms])

theorem checkCompoundRTCPHeader_exact_witness:
  "checkCompoundRTCPHeader ([0x80, 201, 0, 1, 0, 0, 0, 7] @ [0x40, 203, 0, 0] @ [0xEE, 0xEE]) 12 = Some True"
proof -
  let ?a = "[0x80, 201, 0, 1, 0, 0, 0, 7] :: byte list" and ?b = "[0x40, 203, 0, 0] :: byte list"
  have "compound [?a, ?b]"
    by (simp add: compound_def rtcp_packet_def getLength_def fh_length_def from_be16_def fh_version_def CCRTP_VERSION_def)
  moreover have "concat [?a, ?b] = take 12 (?a @ ?b @ [0xEE, 0xEE])" by simp
  ultimately have "\<exists>ps. compound ps \<and> concat ps = take 12 (?a @ ?b @ [0xEE, 0xEE])" by blast
  then show ?thesis
    using checkCompoundRTCPHeader_exact [of 12 "?a @ ?b @ [0xEE, 0xEE]"]
    by (simp add: fh_version_def fh_padding_def fh_type_def CCRTP_VERSION_def tSR_def tRR_def)
qed

lemma receiver_info_fields:
  "getFractionLost (receiver_info f lost sn j lsr dlsr) = f"
  "getCumulativePacketLost (receiver_info f lost sn j lsr dlsr) = lost AND 0xFFFFFF"
  "getExtendedSeqNum (receiver_info f lost sn j lsr dlsr) = sn" "getJitter (receiver_info f lost sn j lsr dlsr) = j"
  "getDelayLastSR (receiver_info f lost sn j lsr dlsr) = dlsr" "length (receiver_info f lost sn j lsr dlsr) = 20"
proof -
  let ?r = "receiver_info f lost sn j lsr dlsr"
  show "getFractionLost ?r = f" "getExtendedSeqNum ?r = sn" "getJitter ?r = j" "getDelayLastSR ?r = dlsr" "length ?r = 20"
    by (simp_all add: getFractionLost_def getExtendedSeqNum_def getJitter_def getDelayLastSR_def receiver_info_def be16_def)
  have c: "getCumulativePacketLost ?r = ucast (ucast (lost AND 0xFFFF) :: u16) + push_bit 16 (ucast (ucast (drop_bit 16 (lost AND 0xFF0000)) :: byte))"
    by (simp add: getCumulativePacketLost_def receiver_info_def take_append length_be16)
  have m: "(0xFFFF :: u32) = mask 16" "(0xFF0000 :: u32) = push_bit 16 (mask 8)" "(0xFFFFFF :: u32) = mask 24"
    by (simp_all add: mask_eq_exp_minus_1)
  show "getCumulativePacketLost ?r = lost AND 0xFFFFFF"
    unfolding c
  proof (subst disjunctive_add)
    show "\<not> bit (ucast (ucast (lost AND 0xFFFF) :: u16) :: u32) n \<or> \<not> bit (push_bit 16 (ucast (ucast (drop_bit 16 (lost AND 0xFF0000)) :: byte)) :: u32) n" for n
      by (auto simp: bit_simps)
    show "ucast (ucast (lost AND 0xFFFF) :: u16) OR push_bit 16 (ucast (ucast (drop_bit 16 (lost AND 0xFF0000)) :: byte)) = lost AND 0xFFFFFF"
      unfolding m by (rule bit_word_eqI) (auto simp: bit_simps)
  qed
qed

lemma NTP_EPOCH_OFFSET_hour: "uint NTP_EPOCH_OFFSET = (70 * 365 + 17) * 86400 + 3600"
  by (simp add: NTP_EPOCH_OFFSET_def)

lemma microtimeout2Timeval_swapped: "t < 1000000 \<Longrightarrow> microtimeout2Timeval t = \<lparr>tv_sec = uint t, tv_usec = 0\<rparr>"
  by (simp add: microtimeout2Timeval_def word_less_def uint_mod_distrib uint_div_distrib)

end
