(* ===== verification/Twofish.thy ===== *)
theory Twofish
  imports Ccrtp_Prelude
begin

text \<open>
  The Twofish block cipher of \<^verbatim>\<open>src/src/ccrtp/crypto/twofish.c\<close>.
  \<^verbatim>\<open>Twofish_UInt32\<close> is a 32-bit word, \<^verbatim>\<open>Twofish_Byte\<close> an 8-bit word, an array a list.
  The file-scope tables and the flag \<^verbatim>\<open>Twofish_initialised\<close> are the record
  \<open>twofish_state\<close>, passed explicitly. The configuration is the default one of the file
  (portable byte access, small q-tables).
\<close>

section \<open>Platform macros\<close>

definition UINT32_MASK :: u32 where
  "UINT32_MASK = push_bit 31 2 - 1"

definition ROL32 :: "u32 \<Rightarrow> nat \<Rightarrow> u32" where
  "ROL32 x n = push_bit n x OR drop_bit (32 - n) (x AND UINT32_MASK)"

definition ROR32 :: "u32 \<Rightarrow> nat \<Rightarrow> u32" where
  "ROR32 x n = drop_bit n x OR push_bit (32 - n) (x AND UINT32_MASK)"

definition BSWAP :: "u32 \<Rightarrow> u32" where
  "BSWAP x = (ROL32 x 8 AND 0x00ff00ff) OR (ROR32 x 8 AND 0xff00ff00)"

definition SELECT_BYTE :: "u32 \<Rightarrow> nat \<Rightarrow> u32" where
  "SELECT_BYTE X b = drop_bit (8 * b) X AND 0xff"

definition GET32 :: "byte list \<Rightarrow> nat \<Rightarrow> u32" where
  "GET32 p off = ucast (p ! off) OR push_bit 8 (ucast (p ! (off + 1)))
     OR push_bit 16 (ucast (p ! (off + 2))) OR push_bit 24 (ucast (p ! (off + 3)))"

definition PUT32 :: "u32 \<Rightarrow> byte list" where
  "PUT32 v = [ucast (v AND 0xff), ucast (drop_bit 8 v AND 0xff),
              ucast (drop_bit 16 v AND 0xff), ucast (drop_bit 24 v AND 0xff)]"

section \<open>Return codes\<close>

definition SUCCESS :: int where "SUCCESS = 1"
definition ERR_GET32 :: int where "ERR_GET32 = - 4"
definition ERR_PUT32 :: int where "ERR_PUT32 = - 5"
definition ERR_ROLR :: int where "ERR_ROLR = - 6"
definition ERR_BSWAP :: int where "ERR_BSWAP = - 7"
definition ERR_SELECTB :: int where "ERR_SELECTB = - 8"
definition ERR_TEST_ENC :: int where "ERR_TEST_ENC = - 9"
definition ERR_TEST_DEC :: int where "ERR_TEST_DEC = - 10"
definition ERR_SEQ_ENC :: int where "ERR_SEQ_ENC = - 11"
definition ERR_SEQ_DEC :: int where "ERR_SEQ_DEC = - 12"
definition ERR_ODD_KEY :: int where "ERR_ODD_KEY = - 13"
definition ERR_KEY_LEN :: int where "ERR_KEY_LEN = - 15"
definition ERR_ILL_ARG :: int where "ERR_ILL_ARG = - 16"

lemmas twofish_codes =
  SUCCESS_def ERR_GET32_def ERR_PUT32_def ERR_ROLR_def ERR_BSWAP_def ERR_SELECTB_def
  ERR_TEST_ENC_def ERR_TEST_DEC_def ERR_SEQ_ENC_def ERR_SEQ_DEC_def ERR_ODD_KEY_def
  ERR_KEY_LEN_def ERR_ILL_ARG_def

section \<open>Tables\<close>

record twofish_state =
  q_table :: "byte list list"
  MDS_table :: "u32 list list"
  Twofish_initialised :: bool

record Twofish_key =
  sbox :: "u32 list list"
  Kw :: "u32 list"

definition t_table :: "byte list list list" where
  "t_table =
    [[[0x8,0x1,0x7,0xD,0x6,0xF,0x3,0x2,0x0,0xB,0x5,0x9,0xE,0xC,0xA,0x4],
      [0xE,0xC,0xB,0x8,0x1,0x2,0x3,0x5,0xF,0x4,0xA,0x6,0x7,0x0,0x9,0xD],
      [0xB,0xA,0x5,0xE,0x6,0xD,0x9,0x0,0xC,0x8,0xF,0x3,0x2,0x4,0x7,0x1],
      [0xD,0x7,0xF,0x4,0x1,0x2,0x6,0xE,0x9,0xB,0x3,0x0,0x8,0x5,0xC,0xA]],
     [[0x2,0x8,0xB,0xD,0xF,0x7,0x6,0xE,0x3,0x1,0x9,0x4,0x0,0xA,0xC,0x5],
      [0x1,0xE,0x2,0xB,0x4,0xC,0x3,0x7,0x6,0xD,0xA,0x5,0xF,0x9,0x0,0x8],
      [0x4,0xC,0x7,0x5,0x1,0x6,0x9,0xA,0x0,0xE,0xD,0x8,0x2,0xB,0x3,0xF],
      [0xB,0x9,0x5,0x1,0xC,0x3,0xD,0xE,0x6,0x4,0x7,0xF,0x2,0x0,0x8,0xA]]]"

definition ROR4BY1 :: "u32 \<Rightarrow> u32" where
  "ROR4BY1 x = drop_bit 1 x OR (push_bit 3 x AND 0x8)"

definition q_entry :: "byte list list \<Rightarrow> u32 \<Rightarrow> byte" where
  "q_entry t i =
     (let ae = drop_bit 4 i; be = i AND 0xf;
          ao = ae XOR be; bo = ae XOR ROR4BY1 be XOR (push_bit 3 ae AND 8);
          ae = ucast (t ! 0 ! unat ao); be = ucast (t ! 1 ! unat bo);
          ao = ae XOR be; bo = ae XOR ROR4BY1 be XOR (push_bit 3 ae AND 8);
          ae = ucast (t ! 2 ! unat ao); be = ucast (t ! 3 ! unat bo)
      in ucast (push_bit 4 be OR ae :: u32))"

definition make_q_table :: "byte list list \<Rightarrow> byte list" where
  "make_q_table t = map (\<lambda>i. q_entry t (of_nat i)) [0..<256]"

definition initialise_q_boxes :: "twofish_state \<Rightarrow> twofish_state" where
  "initialise_q_boxes st =
     st\<lparr>q_table := [make_q_table (t_table ! 0), make_q_table (t_table ! 1)]\<rparr>"

definition mds_poly_divx_const :: "u32 list" where
  "mds_poly_divx_const = [0, 0xb4]"

definition mds_qef_q5b :: "u32 \<Rightarrow> u32 \<times> u32" where
  "mds_qef_q5b q =
     (let qef = drop_bit 1 q XOR mds_poly_divx_const ! unat (q AND 1);
          q5b = drop_bit 1 qef XOR mds_poly_divx_const ! unat (qef AND 1) XOR q;
          qef = qef XOR q5b
      in (qef, q5b))"

definition initialise_mds_tables :: "twofish_state \<Rightarrow> twofish_state" where
  "initialise_mds_tables st =
     st\<lparr>MDS_table :=
       [map (\<lambda>i. let q = ucast (q_table st ! 1 ! i); (qef, q5b) = mds_qef_q5b q
                 in push_bit 24 qef OR push_bit 16 qef OR push_bit 8 q5b OR q) [0..<256],
        map (\<lambda>i. let q = ucast (q_table st ! 0 ! i); (qef, q5b) = mds_qef_q5b q
                 in push_bit 24 q OR push_bit 16 q5b OR push_bit 8 qef OR qef) [0..<256],
        map (\<lambda>i. let q = ucast (q_table st ! 1 ! i); (qef, q5b) = mds_qef_q5b q
                 in push_bit 24 qef OR push_bit 16 q OR push_bit 8 qef OR q5b) [0..<256],
        map (\<lambda>i. let q = ucast (q_table st ! 0 ! i); (qef, q5b) = mds_qef_q5b q
                 in push_bit 24 q5b OR push_bit 16 qef OR push_bit 8 q OR q5b) [0..<256]]\<rparr>"

section \<open>The h function and the keyed S-boxes\<close>

abbreviation (input) q0 :: "twofish_state \<Rightarrow> byte \<Rightarrow> byte" where
  "q0 st y \<equiv> q_table st ! 0 ! unat y"

abbreviation (input) q1 :: "twofish_state \<Rightarrow> byte \<Rightarrow> byte" where
  "q1 st y \<equiv> q_table st ! 1 ! unat y"

abbreviation (input) mds :: "twofish_state \<Rightarrow> nat \<Rightarrow> byte \<Rightarrow> u32" where
  "mds st c y \<equiv> MDS_table st ! c ! unat y"

definition H02 :: "twofish_state \<Rightarrow> byte \<Rightarrow> byte list \<Rightarrow> u32" where
  "H02 st y L = mds st 0 (q0 st (q0 st y XOR L ! 8) XOR L ! 0)"
definition H12 :: "twofish_state \<Rightarrow> byte \<Rightarrow> byte list \<Rightarrow> u32" where
  "H12 st y L = mds st 1 (q0 st (q1 st y XOR L ! 9) XOR L ! 1)"
definition H22 :: "twofish_state \<Rightarrow> byte \<Rightarrow> byte list \<Rightarrow> u32" where
  "H22 st y L = mds st 2 (q1 st (q0 st y XOR L ! 10) XOR L ! 2)"
definition H32 :: "twofish_state \<Rightarrow> byte \<Rightarrow> byte list \<Rightarrow> u32" where
  "H32 st y L = mds st 3 (q1 st (q1 st y XOR L ! 11) XOR L ! 3)"
definition H03 :: "twofish_state \<Rightarrow> byte \<Rightarrow> byte list \<Rightarrow> u32" where
  "H03 st y L = H02 st (q1 st y XOR L ! 16) L"
definition H13 :: "twofish_state \<Rightarrow> byte \<Rightarrow> byte list \<Rightarrow> u32" where
  "H13 st y L = H12 st (q1 st y XOR L ! 17) L"
definition H23 :: "twofish_state \<Rightarrow> byte \<Rightarrow> byte list \<Rightarrow> u32" where
  "H23 st y L = H22 st (q0 st y XOR L ! 18) L"
definition H33 :: "twofish_state \<Rightarrow> byte \<Rightarrow> byte list \<Rightarrow> u32" where
  "H33 st y L = H32 st (q0 st y XOR L ! 19) L"
definition H04 :: "twofish_state \<Rightarrow> byte \<Rightarrow> byte list \<Rightarrow> u32" where
  "H04 st y L = H03 st (q1 st y XOR L ! 24) L"
definition H14 :: "twofish_state \<Rightarrow> byte \<Rightarrow> byte list \<Rightarrow> u32" where
  "H14 st y L = H13 st (q0 st y XOR L ! 25) L"
definition H24 :: "twofish_state \<Rightarrow> byte \<Rightarrow> byte list \<Rightarrow> u32" where
  "H24 st y L = H23 st (q0 st y XOR L ! 26) L"
definition H34 :: "twofish_state \<Rightarrow> byte \<Rightarrow> byte list \<Rightarrow> u32" where
  "H34 st y L = H33 st (q1 st y XOR L ! 27) L"

definition h :: "twofish_state \<Rightarrow> byte \<Rightarrow> byte list \<Rightarrow> nat \<Rightarrow> u32" where
  "h st k L kCycles =
     (if kCycles = 2 then H02 st k L XOR H12 st k L XOR H22 st k L XOR H32 st k L
      else if kCycles = 3 then H03 st k L XOR H13 st k L XOR H23 st k L XOR H33 st k L
      else if kCycles = 4 then H04 st k L XOR H14 st k L XOR H24 st k L XOR H34 st k L
      else of_int ERR_ILL_ARG)"

definition sbox_column :: "(byte \<Rightarrow> u32) \<Rightarrow> u32 list" where
  "sbox_column f = map (\<lambda>i. f (of_nat i)) [0..<256]"

definition fill_keyed_sboxes ::
  "twofish_state \<Rightarrow> byte list \<Rightarrow> nat \<Rightarrow> Twofish_key \<Rightarrow> int \<times> Twofish_key" where
  "fill_keyed_sboxes st S kCycles xkey =
     (if kCycles = 2 then
        (SUCCESS, xkey\<lparr>sbox := [sbox_column (\<lambda>y. H02 st y S), sbox_column (\<lambda>y. H12 st y S),
                               sbox_column (\<lambda>y. H22 st y S), sbox_column (\<lambda>y. H32 st y S)]\<rparr>)
      else if kCycles = 3 then
        (SUCCESS, xkey\<lparr>sbox := [sbox_column (\<lambda>y. H03 st y S), sbox_column (\<lambda>y. H13 st y S),
                               sbox_column (\<lambda>y. H23 st y S), sbox_column (\<lambda>y. H33 st y S)]\<rparr>)
      else if kCycles = 4 then
        (SUCCESS, xkey\<lparr>sbox := [sbox_column (\<lambda>y. H04 st y S), sbox_column (\<lambda>y. H14 st y S),
                               sbox_column (\<lambda>y. H24 st y S), sbox_column (\<lambda>y. H34 st y S)]\<rparr>)
      else (ERR_ILL_ARG, xkey))"

section \<open>Key schedule\<close>

definition rs_poly_const :: "u32 list" where
  "rs_poly_const = [0, 0x14d]"

definition rs_poly_div_const :: "u32 list" where
  "rs_poly_div_const = [0, 0xa6]"

definition rs_bx :: "byte \<Rightarrow> byte" where
  "rs_bx b = ucast (push_bit 1 (ucast b :: u32) XOR rs_poly_const ! unat (drop_bit 7 b))"

definition rs_bxx :: "byte \<Rightarrow> byte" where
  "rs_bxx b = ucast (drop_bit 1 (ucast b :: u32) XOR rs_poly_div_const ! unat (b AND 1)
     XOR ucast (rs_bx b))"

text \<open>One pass of the inner loop, and the loop: \<^verbatim>\<open>t\<close> runs from \<open>sptr + 3 + c\<close> to \<open>sptr + 4\<close>.\<close>

definition xor_at :: "nat \<Rightarrow> byte \<Rightarrow> byte list \<Rightarrow> byte list" where
  "xor_at i x K = K[i := K ! i XOR x]"

definition rs_step :: "nat \<Rightarrow> byte list \<Rightarrow> byte list" where
  "rs_step t K =
     (let b = K ! t; bx = rs_bx b; bxx = rs_bxx b
      in xor_at (t - 4) b (xor_at (t - 3) bxx (xor_at (t - 2) bx (xor_at (t - 1) bxx K))))"

fun rs_reduce :: "nat \<Rightarrow> nat \<Rightarrow> byte list \<Rightarrow> byte list" where
  "rs_reduce 0 sptr K = K"
| "rs_reduce (Suc c) sptr K = rs_reduce c sptr (rs_step (sptr + 3 + Suc c) K)"

text \<open>The outer loop: \<open>n\<close> groups of eight key bytes remain, \<^verbatim>\<open>kptr\<close> is \<open>K + 8 * n\<close>.\<close>

fun rs_words :: "nat \<Rightarrow> nat \<Rightarrow> byte list \<Rightarrow> byte list" where
  "rs_words 0 sptr K = K"
| "rs_words (Suc n) sptr K =
     (let kptr = 8 * n;
          K = memcpy_at K sptr [0, 0, 0, 0];
          K = memcpy_at K (sptr + 4) (take 8 (drop kptr K));
          K = rs_reduce 8 sptr K
      in rs_words n (sptr + 8) K)"

definition round_key_pair :: "twofish_state \<Rightarrow> byte list \<Rightarrow> nat \<Rightarrow> nat \<Rightarrow> u32 list" where
  "round_key_pair st K kCycles i =
     (let A = h st (of_nat i) K kCycles;
          B = h st (of_nat (i + 1)) (drop 4 K) kCycles;
          B = ROL32 B 8;
          A = A + B;
          B = B + A
      in [A, ROL32 B 9])"

text \<open>The padded key array (first part of the function) and the number of key cycles.\<close>

definition key_array :: "byte list \<Rightarrow> nat \<Rightarrow> byte list" where
  "key_array key key_len = take key_len key @ replicate (68 - key_len) 0"

definition key_cycles :: "nat \<Rightarrow> nat" where
  "key_cycles key_len =
     (let kCycles = drop_bit 3 (key_len + 7) in if kCycles < 2 then 2 else kCycles)"

definition expand_key :: "twofish_state \<Rightarrow> byte list \<Rightarrow> nat \<Rightarrow> Twofish_key \<Rightarrow> int \<times> Twofish_key" where
  "expand_key st K kCycles xkey =
     (let xkey = xkey\<lparr>Kw := concat (map (\<lambda>j. round_key_pair st K kCycles (2 * j)) [0..<20])\<rparr>;
          K = rs_words kCycles 32 K;
          (_, xkey) = fill_keyed_sboxes st (drop 32 K) kCycles xkey
      in (SUCCESS, xkey))"

text \<open>
  \<open>None\<close>: the call does not return (the endless loop of an uninitialised library) or reads
  beyond the key array. Otherwise the return code and the expanded key.
\<close>

definition Twofish_prepare_key ::
  "twofish_state \<Rightarrow> byte list \<Rightarrow> int \<Rightarrow> Twofish_key \<Rightarrow> (int \<times> Twofish_key) option" where
  "Twofish_prepare_key st key key_len xkey =
     (if \<not> Twofish_initialised st then None
      else if key_len < 0 \<or> key_len > 32 then Some (ERR_KEY_LEN, xkey)
      else if length key < nat key_len then None
      else Some (expand_key st (key_array key (nat key_len)) (key_cycles (nat key_len)) xkey))"

section \<open>Encryption and decryption\<close>

definition g0 :: "u32 \<Rightarrow> Twofish_key \<Rightarrow> u32" where
  "g0 X xkey = sbox xkey ! 0 ! unat (SELECT_BYTE X 0) XOR sbox xkey ! 1 ! unat (SELECT_BYTE X 1)
     XOR sbox xkey ! 2 ! unat (SELECT_BYTE X 2) XOR sbox xkey ! 3 ! unat (SELECT_BYTE X 3)"

definition g1 :: "u32 \<Rightarrow> Twofish_key \<Rightarrow> u32" where
  "g1 X xkey = sbox xkey ! 0 ! unat (SELECT_BYTE X 3) XOR sbox xkey ! 1 ! unat (SELECT_BYTE X 0)
     XOR sbox xkey ! 2 ! unat (SELECT_BYTE X 1) XOR sbox xkey ! 3 ! unat (SELECT_BYTE X 2)"

type_synonym tf_words = "u32 \<times> u32 \<times> u32 \<times> u32"

fun ENCRYPT_RND :: "tf_words \<Rightarrow> Twofish_key \<Rightarrow> nat \<Rightarrow> tf_words" where
  "ENCRYPT_RND (A, B, C, D) xkey r =
     (let T0 = g0 A xkey; T1 = g1 B xkey;
          C = C XOR (T0 + T1 + Kw xkey ! (8 + 2 * r)); C = ROR32 C 1;
          D = ROL32 D 1; D = D XOR (T0 + 2 * T1 + Kw xkey ! (8 + 2 * r + 1))
      in (A, B, C, D))"

fun ENCRYPT_CYCLE :: "tf_words \<Rightarrow> Twofish_key \<Rightarrow> nat \<Rightarrow> tf_words" where
  "ENCRYPT_CYCLE (A, B, C, D) xkey r =
     (let (A, B, C, D) = ENCRYPT_RND (A, B, C, D) xkey (2 * r);
          (C, D, A, B) = ENCRYPT_RND (C, D, A, B) xkey (2 * r + 1)
      in (A, B, C, D))"

definition ENCRYPT :: "tf_words \<Rightarrow> Twofish_key \<Rightarrow> tf_words" where
  "ENCRYPT s xkey = foldl (\<lambda>s r. ENCRYPT_CYCLE s xkey r) s [0, 1, 2, 3, 4, 5, 6, 7]"

fun DECRYPT_RND :: "tf_words \<Rightarrow> Twofish_key \<Rightarrow> nat \<Rightarrow> tf_words" where
  "DECRYPT_RND (A, B, C, D) xkey r =
     (let T0 = g0 A xkey; T1 = g1 B xkey;
          C = ROL32 C 1; C = C XOR (T0 + T1 + Kw xkey ! (8 + 2 * r));
          D = D XOR (T0 + 2 * T1 + Kw xkey ! (8 + 2 * r + 1)); D = ROR32 D 1
      in (A, B, C, D))"

fun DECRYPT_CYCLE :: "tf_words \<Rightarrow> Twofish_key \<Rightarrow> nat \<Rightarrow> tf_words" where
  "DECRYPT_CYCLE (A, B, C, D) xkey r =
     (let (A, B, C, D) = DECRYPT_RND (A, B, C, D) xkey (2 * r + 1);
          (C, D, A, B) = DECRYPT_RND (C, D, A, B) xkey (2 * r)
      in (A, B, C, D))"

definition DECRYPT :: "tf_words \<Rightarrow> Twofish_key \<Rightarrow> tf_words" where
  "DECRYPT s xkey = foldl (\<lambda>s r. DECRYPT_CYCLE s xkey r) s [7, 6, 5, 4, 3, 2, 1, 0]"

definition GET_INPUT :: "byte list \<Rightarrow> Twofish_key \<Rightarrow> nat \<Rightarrow> tf_words" where
  "GET_INPUT src xkey koff =
     (GET32 src 0 XOR Kw xkey ! koff, GET32 src 4 XOR Kw xkey ! (1 + koff),
      GET32 src 8 XOR Kw xkey ! (2 + koff), GET32 src 12 XOR Kw xkey ! (3 + koff))"

fun PUT_OUTPUT :: "tf_words \<Rightarrow> Twofish_key \<Rightarrow> nat \<Rightarrow> byte list" where
  "PUT_OUTPUT (A, B, C, D) xkey koff =
     PUT32 (A XOR Kw xkey ! koff) @ PUT32 (B XOR Kw xkey ! (1 + koff)) @
     PUT32 (C XOR Kw xkey ! (2 + koff)) @ PUT32 (D XOR Kw xkey ! (3 + koff))"

definition Twofish_encrypt :: "Twofish_key \<Rightarrow> byte list \<Rightarrow> byte list" where
  "Twofish_encrypt xkey p =
     (let (A, B, C, D) = ENCRYPT (GET_INPUT p xkey 0) xkey
      in PUT_OUTPUT (C, D, A, B) xkey 4)"

definition Twofish_decrypt :: "Twofish_key \<Rightarrow> byte list \<Rightarrow> byte list" where
  "Twofish_decrypt xkey c =
     (let (A, B, C, D) = DECRYPT (GET_INPUT c xkey 4) xkey
      in PUT_OUTPUT (C, D, A, B) xkey 0)"

section \<open>Rotations, byte order and the round trip\<close>

lemma UINT32_MASK_eq: "UINT32_MASK = - 1"
  by (simp add: UINT32_MASK_def)

lemma ROL32_eq_rotl:
  assumes "n < 32"
  shows "ROL32 x n = word_rotl n x"
proof (rule bit_word_eqI)
  fix m assume "m < LENGTH(32)"
  then have m: "m < 32" by simp
  show "bit (ROL32 x n) m = bit (word_rotl n x) m"
  proof (cases "n \<le> m")
    case True
    have "(m + (32 - n)) mod 32 = m - n"
      using m assms True by (simp add: mod_if)
    with True m assms show ?thesis
      by (auto simp: ROL32_def UINT32_MASK_eq bit_simps dest: bit_imp_le_length)
  next
    case False
    then have "(m + (32 - n)) mod 32 = 32 - n + m"
      using assms by simp
    with False m assms show ?thesis
      by (auto simp: ROL32_def UINT32_MASK_eq bit_simps)
  qed
qed

lemma ROR32_eq_rotr:
  assumes "n < 32"
  shows "ROR32 x n = word_rotr n x"
proof (rule bit_word_eqI)
  fix m assume "m < LENGTH(32)"
  then have m: "m < 32" by simp
  show "bit (ROR32 x n) m = bit (word_rotr n x) m"
  proof (cases "m + n < 32")
    case True
    with m assms show ?thesis
      by (auto simp: ROR32_def UINT32_MASK_eq bit_simps ac_simps dest: bit_imp_le_length)
  next
    case False
    then have "(m + n) mod 32 = m - (32 - n)"
      using assms m by (simp add: mod_if)
    with False m assms show ?thesis
      by (auto simp: ROR32_def UINT32_MASK_eq bit_simps ac_simps dest: bit_imp_le_length)
  qed
qed

lemma ROL32_ROR32 [simp]: "n < 32 \<Longrightarrow> ROL32 (ROR32 x n) n = x"
  by (simp add: ROL32_eq_rotl ROR32_eq_rotr word_rot_rl)

lemma ROR32_ROL32 [simp]: "n < 32 \<Longrightarrow> ROR32 (ROL32 x n) n = x"
  by (simp add: ROL32_eq_rotl ROR32_eq_rotr word_rot_lr)

fun swap_halves :: "tf_words \<Rightarrow> tf_words" where
  "swap_halves (A, B, C, D) = (C, D, A, B)"

lemma DECRYPT_RND_ENCRYPT_RND [simp]: "DECRYPT_RND (ENCRYPT_RND s xkey r) xkey r = s"
  by (cases s) (simp add: Let_def)

lemma ENCRYPT_RND_DECRYPT_RND [simp]: "ENCRYPT_RND (DECRYPT_RND s xkey r) xkey r = s"
  by (cases s) (simp add: Let_def)

lemma DECRYPT_CYCLE_ENCRYPT_CYCLE:
  "DECRYPT_CYCLE (swap_halves (ENCRYPT_CYCLE s xkey r)) xkey r = swap_halves s"
  by (cases s) (simp add: Let_def del: )

lemma ENCRYPT_CYCLE_DECRYPT_CYCLE:
  "ENCRYPT_CYCLE (swap_halves (DECRYPT_CYCLE s xkey r)) xkey r = swap_halves s"
  by (cases s) (simp add: Let_def)

lemma swap_swap [simp]: "swap_halves (swap_halves s) = s"
  by (cases s) simp

lemma DECRYPT_ENCRYPT: "DECRYPT (swap_halves (ENCRYPT s xkey)) xkey = swap_halves s"
  by (simp add: DECRYPT_def ENCRYPT_def DECRYPT_CYCLE_ENCRYPT_CYCLE)

lemma ENCRYPT_DECRYPT: "ENCRYPT (swap_halves (DECRYPT s xkey)) xkey = swap_halves s"
  by (simp add: DECRYPT_def ENCRYPT_def ENCRYPT_CYCLE_DECRYPT_CYCLE)

lemma length_PUT32 [simp]: "length (PUT32 v) = 4"
  by (simp add: PUT32_def)

lemma GET32_PUT32 [simp]: "GET32 (PUT32 v) 0 = v"
proof (rule bit_word_eqI)
  fix n assume "n < LENGTH(32)"
  then have "n < 32" by simp
  then show "bit (GET32 (PUT32 v) 0) n = bit v n"
    by (cases rule: word32_bit_cases)
      (auto simp: GET32_def PUT32_def and_0xff_eq_take_bit bit_simps ac_simps)
qed

lemma PUT32_GET32_0: "length bs = 4 \<Longrightarrow> PUT32 (GET32 bs 0) = bs"
  by (erule list4_cases)
    (auto simp: GET32_def PUT32_def and_0xff_eq_take_bit bit_eq_iff bit_simps)

lemma GET32_offset:
  "off + 4 \<le> length p \<Longrightarrow> GET32 p off = GET32 (take 4 (drop off p)) 0"
  by (simp add: GET32_def)

lemma PUT32_GET32: "off + 4 \<le> length p \<Longrightarrow> PUT32 (GET32 p off) = take 4 (drop off p)"
  by (subst GET32_offset) (simp_all add: PUT32_GET32_0)

lemma GET_INPUT_PUT_OUTPUT [simp]: "GET_INPUT (PUT_OUTPUT s xkey k) xkey k = s"
proof (cases s)
  case (fields A B C D)
  then show ?thesis
    by (simp add: GET_INPUT_def GET32_offset [of 0] GET32_offset [of 4] GET32_offset [of 8]
        GET32_offset [of 12])
qed

lemma PUT_OUTPUT_GET_INPUT [simp]:
  "length p = 16 \<Longrightarrow> PUT_OUTPUT (GET_INPUT p xkey k) xkey k = p"
  using list_chunks4 [of p] by (simp add: GET_INPUT_def PUT32_GET32)

lemma Twofish_encrypt_alt:
  "Twofish_encrypt xkey p = PUT_OUTPUT (swap_halves (ENCRYPT (GET_INPUT p xkey 0) xkey)) xkey 4"
  by (cases "ENCRYPT (GET_INPUT p xkey 0) xkey") (simp add: Twofish_encrypt_def)

lemma Twofish_decrypt_alt:
  "Twofish_decrypt xkey c = PUT_OUTPUT (swap_halves (DECRYPT (GET_INPUT c xkey 4) xkey)) xkey 0"
  by (cases "DECRYPT (GET_INPUT c xkey 4) xkey") (simp add: Twofish_decrypt_def)

lemma length_PUT_OUTPUT [simp]: "length (PUT_OUTPUT s xkey k) = 16"
  by (cases s) simp

lemma Twofish_decrypt_encrypt:
  "length p = 16 \<Longrightarrow> Twofish_decrypt xkey (Twofish_encrypt xkey p) = p"
  by (simp add: Twofish_encrypt_alt Twofish_decrypt_alt DECRYPT_ENCRYPT)

lemma Twofish_encrypt_decrypt:
  "length c = 16 \<Longrightarrow> Twofish_encrypt xkey (Twofish_decrypt xkey c) = c"
  by (simp add: Twofish_encrypt_alt Twofish_decrypt_alt ENCRYPT_DECRYPT)

lemma length_Twofish_encrypt [simp]: "length (Twofish_encrypt xkey p) = 16"
  by (simp add: Twofish_encrypt_alt)

lemma length_Twofish_decrypt [simp]: "length (Twofish_decrypt xkey p) = 16"
  by (simp add: Twofish_decrypt_alt)

interpretation tf: block_permutation Twofish_encrypt Twofish_decrypt
  by unfold_locales (simp_all add: Twofish_decrypt_encrypt Twofish_encrypt_decrypt)

text \<open>
  C29: for every expanded key, Twofish encryption is a permutation of the blocks of sixteen bytes:
  the encryption of a block is a block, two blocks never have the same ciphertext, and decryption
  computes the inverse in both directions.
\<close>
theorem Twofish_block_permutation:
  "length p = 16 \<Longrightarrow>
     Twofish_decrypt xkey (Twofish_encrypt xkey p) = p \<and>
     Twofish_encrypt xkey (Twofish_decrypt xkey p) = p \<and>
     bij_betw (Twofish_encrypt xkey) {p. length p = 16} {c. length c = 16}"
  using tf.dec_enc tf.enc_dec tf.enc_bij by blast

theorem Twofish_block_permutation_witness:
  "length (replicate 16 (7 :: byte)) = 16 \<and>
   Twofish_decrypt \<lparr>sbox = replicate 4 (replicate 256 5), Kw = replicate 40 9\<rparr>
     (Twofish_encrypt \<lparr>sbox = replicate 4 (replicate 256 5), Kw = replicate 40 9\<rparr> (replicate 16 7))
   = replicate 16 7"
  using Twofish_block_permutation [of "replicate 16 7"] by simp

end
