(* ===== verification/Twofish_Keys.thy ===== *)
theory Twofish_Keys
  imports Twofish
begin

text \<open>
  The key schedule of Twofish: odd-sized keys are zero-padded regular keys, the MDS table entries
  are products in the field of the MDS matrix, and the Reed-Solomon loop of
  \<^verbatim>\<open>Twofish_prepare_key\<close> multiplies each group of eight key bytes by the RS matrix of the
  Twofish specification.
\<close>

section \<open>Key lengths\<close>

definition regular_key_len :: "nat \<Rightarrow> nat" where
  "regular_key_len i = (if i \<le> 16 then 16 else if i \<le> 24 then 24 else 32)"

lemma regular_key_len_bounds: "n \<le> 32 \<Longrightarrow> n \<le> regular_key_len n \<and> regular_key_len n \<le> 32"
  by (simp add: regular_key_len_def)

lemma key_cycles_regular: "n \<le> 32 \<Longrightarrow> key_cycles (regular_key_len n) = key_cycles n"
  unfolding key_cycles_def Let_def regular_key_len_def drop_bit_eq_div
  by simp presburger

lemma key_array_padded:
  assumes "length key = n" "n \<le> m" "m \<le> 68"
  shows "key_array (key @ replicate (m - n) 0) m = key_array key n"
proof -
  have "replicate (m - n) 0 @ replicate (68 - m) 0 = replicate (68 - n) (0 :: byte)"
    using assms by (simp add: replicate_add [symmetric])
  with assms show ?thesis
    by (simp add: key_array_def)
qed

section \<open>The MDS tables\<close>

definition mds_divx :: "u32 \<Rightarrow> u32" where
  "mds_divx q = drop_bit 1 q XOR mds_poly_divx_const ! unat (q AND 1)"

lemma mds_divx_alt: "mds_divx q = drop_bit 1 q XOR (if bit q 0 then 0xb4 else 0)"
  by (simp add: mds_divx_def mds_poly_divx_const_def unat_and_1)


lemma mds_qef_q5b_alt:
  "mds_qef_q5b q = (let d = mds_divx q; q5b = mds_divx d XOR q in (d XOR q5b, q5b))"
  by (simp add: mds_qef_q5b_def mds_divx_def Let_def xor.assoc)

lemma mds_divx_linear: "mds_divx (x XOR y) = mds_divx x XOR mds_divx y"
  by (rule bit_word_eqI) (auto simp: mds_divx_alt bit_simps)

lemma xor_linear_mds_divx: "xor_linear f \<Longrightarrow> xor_linear (\<lambda>x. mds_divx (f x))"
  by (simp add: xor_linear_def mds_divx_linear) (simp add: mds_divx_alt)

lemma mds_5b: "mds_divx (mds_divx (ucast b)) XOR ucast b = ucast (gf_mul 0x69 0x5B b)"
proof (rule xor_linear_ext [of "\<lambda>b. mds_divx (mds_divx (ucast b)) XOR ucast b" "\<lambda>b. ucast (gf_mul 0x69 0x5B b)"])
  show "xor_linear (\<lambda>b. mds_divx (mds_divx (ucast b)) XOR ucast b)"
    by (intro xor_linear_xor xor_linear_mds_divx xor_linear_ucast xor_linear_id)
  show "xor_linear (\<lambda>b. ucast (gf_mul 0x69 0x5B b) :: u32)"
    by (intro xor_linear_ucast xor_linear_gf_mul)
  show "list_all (\<lambda>b. mds_divx (mds_divx (ucast b)) XOR ucast b = (ucast (gf_mul 0x69 0x5B b) :: u32))
    [1, 2, 4, 8, 16, 32, 64, 128]"
    by code_simp
qed

section \<open>The Reed-Solomon code\<close>

lemma drop_bit_7_byte: "drop_bit 7 (b :: byte) = of_bool (bit b 7)"
proof (rule bit_word_eqI)
  fix n assume "n < LENGTH(8)"
  show "bit (drop_bit 7 b) n = bit (of_bool (bit b 7) :: byte) n"
    by (cases n) (simp_all add: bit_simps bit_1_iff)
qed

lemma ucast_push_bit: "ucast (push_bit n (ucast b :: u32)) = push_bit n (b :: byte)"
  by (rule bit_word_eqI) (auto simp: bit_simps)

lemma rs_bx_alt: "rs_bx b = gf_xtime 0x4d b"
proof -
  have c: "(333 :: byte) = 77" by simp
  have "rs_poly_const ! unat (drop_bit 7 b) = (if bit b 7 then 0x14d else 0)"
    by (simp add: drop_bit_7_byte rs_poly_const_def)
  then show ?thesis
    unfolding rs_bx_def gf_xtime_def unsigned_xor_eq ucast_push_bit by (simp add: c)
qed

definition gf_divx :: "byte \<Rightarrow> byte" where
  "gf_divx b = drop_bit 1 b XOR (if bit b 0 then 0xa6 else 0)"

lemma rs_bxx_alt: "rs_bxx b = gf_divx b XOR gf_xtime 0x4d b"
proof -
  have "rs_poly_div_const ! unat (b AND 1) = (if bit b 0 then 0xa6 else 0)"
    by (simp add: unat_and_1 rs_poly_div_const_def)
  moreover have "ucast (drop_bit 1 (ucast b :: u32) XOR (if c then 0xa6 else 0) XOR ucast d) =
      (drop_bit 1 b XOR (if c then 0xa6 else 0)) XOR d" for c and d :: byte
    by (rule bit_word_eqI) (auto simp: bit_simps)
  ultimately show ?thesis
    by (simp add: rs_bxx_def rs_bx_alt gf_divx_def)
qed

lemma xor_linear_rs_bx: "xor_linear rs_bx"
  using xor_linear_xtime [of "0x4d"] by (simp add: rs_bx_alt [abs_def] eta_contract_eq)

lemma xor_linear_rs_bxx: "xor_linear rs_bxx"
proof -
  have "xor_linear gf_divx"
    unfolding xor_linear_def gf_divx_def by (auto simp: bit_simps bit_eq_iff)
  then show ?thesis
    using xor_linear_xor [OF _ xor_linear_xtime] by (simp add: rs_bxx_alt [abs_def])
qed

lemma length_xor_at [simp]: "length (xor_at i x K) = length K"
  by (simp add: xor_at_def)

lemma length_rs_step [simp]: "length (rs_step t K) = length K"
  by (simp add: rs_step_def Let_def)

lemma length_rs_reduce [simp]: "length (rs_reduce c sptr K) = length K"
  by (induction c arbitrary: K) simp_all

text \<open>The reduction only touches its window of twelve bytes.\<close>

lemma xor_at_window:
  "i < length w \<Longrightarrow> xor_at (length pre + i) x (pre @ w @ post) = pre @ xor_at i x w @ post"
  by (simp add: xor_at_def nth_append list_update_append)

lemma rs_step_window:
  assumes "length w = 12" "4 \<le> t" "t < 12"
  shows "rs_step (length pre + t) (pre @ w @ post) = pre @ rs_step t w @ post"
proof -
  have sub: "length pre + t - 4 = length pre + (t - 4)" "length pre + t - 3 = length pre + (t - 3)"
    "length pre + t - 2 = length pre + (t - 2)" "length pre + t - 1 = length pre + (t - 1)"
    using assms by simp_all
  have bnd: "t - 4 < length w" "t - 3 < length w" "t - 2 < length w" "t - 1 < length w"
    and nth: "(pre @ w @ post) ! (length pre + t) = w ! t"
    using assms by (simp_all add: nth_append)
  show ?thesis
    unfolding rs_step_def Let_def sub nth
    by (simp only: xor_at_window length_xor_at bnd)
qed

lemma rs_reduce_window:
  "length w = 12 \<Longrightarrow> c \<le> 8 \<Longrightarrow>
   rs_reduce c (length pre) (pre @ w @ post) = pre @ rs_reduce c 0 w @ post"
proof (induction c arbitrary: w)
  case (Suc c)
  then show ?case
    using rs_step_window [of w "4 + c" pre post] by (simp add: ac_simps)
qed simp

lemma xor_at_linear:
  "length K = length K' \<Longrightarrow> i < length K \<Longrightarrow>
   xor_at i (x XOR y) (map2 (XOR) K K') = map2 (XOR) (xor_at i x K) (xor_at i y K')"
  by (simp add: xor_at_def zip_update map_update ac_simps)

lemma rs_step_linear:
  "length K = 12 \<Longrightarrow> length K' = 12 \<Longrightarrow> t < 12 \<Longrightarrow>
   rs_step t (map2 (XOR) K K') = map2 (XOR) (rs_step t K) (rs_step t K')"
  using xor_linear_rs_bx xor_linear_rs_bxx
  by (simp add: rs_step_def Let_def xor_at_linear xor_linear_def)

lemma rs_reduce_linear:
  "length K = 12 \<Longrightarrow> length K' = 12 \<Longrightarrow> c \<le> 8 \<Longrightarrow>
   rs_reduce c 0 (map2 (XOR) K K') = map2 (XOR) (rs_reduce c 0 K) (rs_reduce c 0 K')"
  by (induction c arbitrary: K K') (simp_all add: rs_step_linear)

definition RS_matrix :: "byte list list" where
  "RS_matrix =
    [[0x01, 0xA4, 0x55, 0x87, 0x5A, 0x58, 0xDB, 0x9E],
     [0xA4, 0x56, 0x82, 0xF3, 0x1E, 0xC6, 0x68, 0xE5],
     [0x02, 0xA1, 0xFC, 0xC1, 0x47, 0xAE, 0x3D, 0x19],
     [0xA4, 0x55, 0x87, 0x5A, 0x58, 0xDB, 0x9E, 0x03]]"

definition RS_mult :: "byte list \<Rightarrow> byte list" where
  "RS_mult m = map (\<lambda>row. foldr (XOR) (map2 (gf_mul 0x4d) row m) 0) RS_matrix"

definition rs_unit :: "nat \<Rightarrow> byte \<Rightarrow> byte list" where
  "rs_unit j x = xor_at (j + 4) x (replicate 12 0)"

definition rs_coord :: "nat \<Rightarrow> byte list \<Rightarrow> byte" where
  "rs_coord i K = rs_reduce 8 0 K ! i"

lemma rs_coord_linear:
  "length K = 12 \<Longrightarrow> length K' = 12 \<Longrightarrow> i < 12 \<Longrightarrow>
   rs_coord i (map2 (XOR) K K') = rs_coord i K XOR rs_coord i K'"
  by (simp add: rs_coord_def rs_reduce_linear)

lemma rs_unit_xor: "j < 8 \<Longrightarrow> rs_unit j (x XOR y) = map2 (XOR) (rs_unit j x) (rs_unit j y)"
  by (simp add: rs_unit_def xor_at_linear [symmetric])

lemma rs_unit_0: "j < 8 \<Longrightarrow> rs_unit j 0 = replicate 12 0"
  by (simp add: rs_unit_def xor_at_def list_eq_iff_nth_eq nth_list_update)

lemma length_rs_unit [simp]: "length (rs_unit j x) = 12"
  by (simp add: rs_unit_def)

lemma rs_coord_0: "i < 12 \<Longrightarrow> rs_coord i (replicate 12 0) = 0"
  using rs_coord_linear [of "replicate 12 0" "replicate 12 0" i] by simp

lemma xor_linear_rs_unit: "j < 8 \<Longrightarrow> i < 4 \<Longrightarrow> xor_linear (\<lambda>x. rs_coord i (rs_unit j x))"
  by (simp add: xor_linear_def rs_unit_xor rs_unit_0 rs_coord_0 rs_coord_linear)

lemma rs_reduce_8: "rs_reduce 8 0 K = rs_step 4 (rs_step 5 (rs_step 6 (rs_step 7 (rs_step 8
    (rs_step 9 (rs_step 10 (rs_step 11 K)))))))"
  by (simp add: eval_nat_numeral)

lemma xor_at_simps:
  "xor_at 0 x (y # ys) = (y XOR x) # ys"
  "xor_at (Suc 0) x (y # z # ys) = y # (z XOR x) # ys"
  "xor_at (numeral k) x (y # ys) = y # xor_at (pred_numeral k) x ys"
  by (simp_all add: xor_at_def numeral_eq_Suc)

lemma gf_mul_unfold:
  "gf_mul p c a =
     (if bit c 0 then a else 0) XOR (if bit c 1 then gf_xtime p a else 0) XOR
     (if bit c 2 then gf_xtime p (gf_xtime p a) else 0) XOR
     (if bit c 3 then gf_xtime p (gf_xtime p (gf_xtime p a)) else 0) XOR
     (if bit c 4 then gf_xtime p (gf_xtime p (gf_xtime p (gf_xtime p a))) else 0) XOR
     (if bit c 5 then gf_xtime p (gf_xtime p (gf_xtime p (gf_xtime p (gf_xtime p a)))) else 0) XOR
     (if bit c 6 then gf_xtime p (gf_xtime p (gf_xtime p (gf_xtime p (gf_xtime p (gf_xtime p a)))))
        else 0) XOR
     (if bit c 7 then gf_xtime p (gf_xtime p (gf_xtime p (gf_xtime p (gf_xtime p (gf_xtime p
        (gf_xtime p a)))))) else 0)"
  by (simp add: gf_mul_def upt_rec eval_nat_numeral)

lemma replicate_12: "replicate 12 x = [x, x, x, x, x, x, x, x, x, x, x, x]"
  by (simp add: eval_nat_numeral)

definition rs_check :: "nat \<Rightarrow> byte \<Rightarrow> bool" where
  "rs_check j b \<longleftrightarrow> take 4 (rs_reduce 8 0 (rs_unit j b)) = map (\<lambda>row. gf_mul 0x4d (row ! j) b) RS_matrix"

lemmas rs_eval = rs_check_def rs_reduce_8 rs_unit_def rs_step_def Let_def xor_at_simps rs_bx_alt
  rs_bxx_alt gf_xtime_def gf_divx_def gf_mul_unfold RS_matrix_def replicate_12

lemma rs_check_basis: "j < 8 \<Longrightarrow> list_all (rs_check j) [1, 2, 4, 8, 16, 32, 64, 128]"
  by (drule less_8_cases) (elim disjE; simp add: rs_eval)

lemma rs_coord_unit:
  assumes "j < 8" "i < 4"
  shows "rs_coord i (rs_unit j x) = gf_mul 0x4d (RS_matrix ! i ! j) x"
proof (rule xor_linear_ext [where f = "\<lambda>x. rs_coord i (rs_unit j x)"])
  have rows: "length RS_matrix = 4" by (simp add: RS_matrix_def)
  have "rs_coord i (rs_unit j b) = gf_mul 0x4d (RS_matrix ! i ! j) b" if "rs_check j b" for b
  proof -
    have "take 4 (rs_reduce 8 0 (rs_unit j b)) ! i = map (\<lambda>row. gf_mul 0x4d (row ! j) b) RS_matrix ! i"
      using that by (simp only: rs_check_def)
    with assms rows show ?thesis by (simp add: rs_coord_def)
  qed
  then show "list_all (\<lambda>b. rs_coord i (rs_unit j b) = gf_mul 0x4d (RS_matrix ! i ! j) b)
      [1, 2, 4, 8, 16, 32, 64, 128]"
    using rs_check_basis [OF assms(1)] by simp
qed (use assms in \<open>simp_all add: xor_linear_rs_unit xor_linear_gf_mul\<close>)

lemma list8_cases:
  assumes "length bs = 8"
  obtains a b c d e f g h where "bs = [a, b, c, d, e, f, g, h]"
  using assms by (auto simp: length_Suc_conv eval_nat_numeral)

lemma rs_window_split:
  "[0, 0, 0, 0, m0, m1, m2, m3, m4, m5, m6, m7] =
     map2 (XOR) (rs_unit 0 m0) (map2 (XOR) (rs_unit 1 m1) (map2 (XOR) (rs_unit 2 m2)
      (map2 (XOR) (rs_unit 3 m3) (map2 (XOR) (rs_unit 4 m4) (map2 (XOR) (rs_unit 5 m5)
      (map2 (XOR) (rs_unit 6 m6) (rs_unit 7 m7)))))))"
  by (simp add: rs_unit_def xor_at_simps replicate_12)

lemma rs_coord_window:
  assumes "length m = 8" "i < 4"
  shows "rs_coord i ([0, 0, 0, 0] @ m) = RS_mult m ! i"
  using assms(1)
proof (rule list8_cases)
  fix a b c d e f g h assume m: "m = [a, b, c, d, e, f, g, h]"
  have "rs_coord i ([0, 0, 0, 0] @ m) =
     gf_mul 0x4d (RS_matrix ! i ! 0) a XOR gf_mul 0x4d (RS_matrix ! i ! 1) b XOR
     gf_mul 0x4d (RS_matrix ! i ! 2) c XOR gf_mul 0x4d (RS_matrix ! i ! 3) d XOR
     gf_mul 0x4d (RS_matrix ! i ! 4) e XOR gf_mul 0x4d (RS_matrix ! i ! 5) f XOR
     gf_mul 0x4d (RS_matrix ! i ! 6) g XOR gf_mul 0x4d (RS_matrix ! i ! 7) h"
    unfolding m append.simps rs_window_split
    using assms(2) by (simp add: rs_coord_linear rs_coord_unit)
  moreover have "i = 0 \<or> i = 1 \<or> i = 2 \<or> i = 3" using assms(2) by linarith
  ultimately show ?thesis
    by (auto simp: m RS_mult_def RS_matrix_def)
qed

lemma take4_eq: "length xs = 12 \<Longrightarrow> length ys = 4 \<Longrightarrow> (\<And>i. i < 4 \<Longrightarrow> xs ! i = ys ! i) \<Longrightarrow> take 4 xs = ys"
  by (rule nth_equalityI) auto

lemma length_RS_mult [simp]: "length (RS_mult m) = 4"
  by (simp add: RS_mult_def RS_matrix_def)

lemma rs_reduce_RS_mult:
  assumes "length m = 8"
  shows "take 4 (rs_reduce 8 0 ([0, 0, 0, 0] @ m)) = RS_mult m"
  using assms by (intro take4_eq) (simp_all add: rs_coord_window [symmetric] rs_coord_def)

text \<open>One pass of the outer loop.\<close>

definition rs_pass :: "nat \<Rightarrow> nat \<Rightarrow> byte list \<Rightarrow> byte list" where
  "rs_pass kptr sptr K = rs_reduce 8 sptr (memcpy_at (memcpy_at K sptr [0, 0, 0, 0]) (sptr + 4)
     (take 8 (drop kptr (memcpy_at K sptr [0, 0, 0, 0]))))"

lemma rs_words_pass: "rs_words (Suc n) sptr K = rs_words n (sptr + 8) (rs_pass (8 * n) sptr K)"
  by (simp add: rs_pass_def Let_def)

lemma rs_pass_eq:
  assumes "length K = 68" "kptr + 8 \<le> sptr" "sptr \<le> 56"
  shows "rs_pass kptr sptr K =
    take sptr K @ rs_reduce 8 0 ([0, 0, 0, 0] @ take 8 (drop kptr K)) @ drop (sptr + 12) K"
proof -
  define kb where "kb = take 8 (drop kptr K)"
  have kb: "take 8 (drop kptr (memcpy_at K sptr [0, 0, 0, 0])) = kb"
    using assms by (simp add: kb_def memcpy_at_def drop_take)
  have len: "length kb = 8" using assms by (simp add: kb_def)
  have "memcpy_at (memcpy_at K sptr [0, 0, 0, 0]) (sptr + 4) kb =
      take sptr K @ ([0, 0, 0, 0] @ kb) @ drop (sptr + 12) K"
    using assms len by (simp add: memcpy_at_def add.commute)
  moreover have "length (take sptr K) = sptr" using assms by simp
  ultimately show ?thesis
    using rs_reduce_window [of "[0, 0, 0, 0] @ kb" 8 "take sptr K" "drop (sptr + 12) K"] len
    by (simp add: rs_pass_def kb kb_def [symmetric])
qed

lemma rs_words_spec:
  assumes "length K = 68" "sptr + 8 * n \<le> 64" "32 \<le> sptr"
  shows "length (rs_words n sptr K) = 68 \<and> take sptr (rs_words n sptr K) = take sptr K \<and>
    (\<forall>j<n. take 4 (drop (sptr + 8 * j) (rs_words n sptr K)) = RS_mult (take 8 (drop (8 * (n - 1 - j)) K)))"
  using assms
proof (induction n arbitrary: sptr K)
  case (Suc n)
  define K' where "K' = rs_pass (8 * n) sptr K"
  have K': "K' = take sptr K @ rs_reduce 8 0 ([0, 0, 0, 0] @ take 8 (drop (8 * n) K)) @ drop (sptr + 12) K"
    using Suc.prems by (simp only: K'_def, intro rs_pass_eq) auto
  have len: "length K' = 68" and pre: "take sptr K' = take sptr K"
    using Suc.prems by (simp_all add: K')
  have word: "take 4 (drop sptr K') = RS_mult (take 8 (drop (8 * n) K))"
    using Suc.prems rs_reduce_RS_mult [of "take 8 (drop (8 * n) K)"] by (simp add: K')
  have key: "take 8 (drop (8 * i) K') = take 8 (drop (8 * i) K)" if "i < n" for i
  proof -
    have "take 8 (drop (8 * i) (take sptr K')) = take 8 (drop (8 * i) (take sptr K))"
      using pre by simp
    moreover have "8 * i + 8 \<le> sptr" using that Suc.prems by simp
    then have "8 \<le> sptr - 8 * i" by simp
    ultimately show ?thesis by (simp add: drop_take min_absorb1)
  qed
  have IH: "length (rs_words n (sptr + 8) K') = 68" "take (sptr + 8) (rs_words n (sptr + 8) K') = take (sptr + 8) K'"
    "\<And>j. j < n \<Longrightarrow> take 4 (drop (sptr + 8 + 8 * j) (rs_words n (sptr + 8) K')) =
      RS_mult (take 8 (drop (8 * (n - 1 - j)) K'))"
    using Suc.IH [of K' "sptr + 8"] len Suc.prems by auto
  have "take sptr (rs_words n (sptr + 8) K') = take sptr K"
    using arg_cong [OF IH(2), of "take sptr"] pre by (simp add: min_def)
  moreover have "take 4 (drop (sptr + 8 * j) (rs_words n (sptr + 8) K')) = RS_mult (take 8 (drop (8 * (n - j)) K))"
    if "j < Suc n" for j
  proof (cases j)
    case 0
    have "take 4 (drop sptr (rs_words n (sptr + 8) K')) = take 4 (drop sptr K')"
      using arg_cong [OF IH(2), of "\<lambda>x. take 4 (drop sptr x)"] by (simp add: drop_take)
    with 0 word show ?thesis by simp
  next
    case (Suc k)
    with that IH(3) [of k] key [of "n - 1 - k"] show ?thesis
      by (simp add: algebra_simps)
  qed
  ultimately show ?case
    using IH(1) unfolding rs_words_pass K'_def [symmetric] by simp
qed simp

section \<open>Products with the MDS constants\<close>

lemma mds_ef: "mds_divx (ucast b) XOR (mds_divx (mds_divx (ucast b)) XOR ucast b) = ucast (gf_mul 0x69 0xEF b)"
proof (rule xor_linear_ext [of "\<lambda>b. mds_divx (ucast b) XOR (mds_divx (mds_divx (ucast b)) XOR ucast b)"
      "\<lambda>b. ucast (gf_mul 0x69 0xEF b)"])
  show "xor_linear (\<lambda>b. mds_divx (ucast b) XOR (mds_divx (mds_divx (ucast b)) XOR ucast b))"
    by (intro xor_linear_xor xor_linear_mds_divx xor_linear_ucast xor_linear_id)
  show "xor_linear (\<lambda>b. ucast (gf_mul 0x69 0xEF b) :: u32)"
    by (intro xor_linear_ucast xor_linear_gf_mul)
  show "list_all (\<lambda>b. mds_divx (ucast b) XOR (mds_divx (mds_divx (ucast b)) XOR ucast b) =
      (ucast (gf_mul 0x69 0xEF b) :: u32)) [1, 2, 4, 8, 16, 32, 64, 128]"
    by code_simp
qed

lemma mds_products:
  "mds_qef_q5b (ucast b) = (ucast (gf_mul 0x69 0xEF b), ucast (gf_mul 0x69 0x5B b))"
  by (simp add: mds_qef_q5b_alt Let_def mds_5b mds_ef [symmetric])

lemma gf_mul_1: "gf_mul p 1 b = b"
  by (simp add: gf_mul_unfold)

lemma SELECT_BYTE_pack:
  fixes a b c d :: byte
  defines "w \<equiv> push_bit 24 (ucast a) OR push_bit 16 (ucast b) OR push_bit 8 (ucast c) OR ucast d :: u32"
  shows "SELECT_BYTE w 0 = ucast d" "SELECT_BYTE w (Suc 0) = ucast c" "SELECT_BYTE w 2 = ucast b"
    "SELECT_BYTE w 3 = ucast a"
  unfolding w_def SELECT_BYTE_def and_0xff_eq_take_bit
  by (rule bit_word_eqI; auto simp: bit_simps dest: bit_imp_le_length)+

definition MDS_matrix :: "byte list list" where
  "MDS_matrix =
    [[0x01, 0xEF, 0x5B, 0x5B],
     [0x5B, 0xEF, 0xEF, 0x01],
     [0xEF, 0x5B, 0x01, 0xEF],
     [0xEF, 0x01, 0xEF, 0x5B]]"

lemma less_4_cases: "i < 4 \<Longrightarrow> i = 0 \<or> i = 1 \<or> i = 2 \<or> i = (3::nat)"
  by linarith

section \<open>The shape of an expanded key\<close>

lemma key_cycles_bounds: "n \<le> 32 \<Longrightarrow> 2 \<le> key_cycles n \<and> key_cycles n \<le> 4"
  unfolding key_cycles_def Let_def drop_bit_eq_div by simp presburger

lemma length_sbox_column [simp]: "length (sbox_column f) = 256"
  by (simp add: sbox_column_def)

definition well_formed_key :: "Twofish_key \<Rightarrow> bool" where
  "well_formed_key xkey \<longleftrightarrow> length (Kw xkey) = 40 \<and> map length (sbox xkey) = [256, 256, 256, 256]"

lemma length_concat_pairs: "(\<And>j. length (f j) = 2) \<Longrightarrow> length (concat (map f xs)) = 2 * length xs"
  by (induction xs) simp_all

lemma length_round_key_pair: "length (round_key_pair st K c i) = 2"
  by (simp add: round_key_pair_def Let_def)

lemma expand_key_SUCCESS: "fst (expand_key st K kCycles xkey) = SUCCESS"
  by (simp add: expand_key_def case_prod_unfold)

lemma expand_key_well_formed:
  assumes "2 \<le> kCycles" "kCycles \<le> 4"
  shows "well_formed_key (snd (expand_key st K kCycles xkey))"
proof -
  have "kCycles = 2 \<or> kCycles = 3 \<or> kCycles = 4" using assms by linarith
  then show ?thesis
    by (elim disjE)
      (simp_all add: expand_key_def Let_def fill_keyed_sboxes_def well_formed_key_def
        length_concat_pairs length_round_key_pair del: upt_Suc)
qed

lemma expand_key_fresh:
  assumes "2 \<le> kCycles" "kCycles \<le> 4"
  shows "expand_key st K kCycles xkey = expand_key st K kCycles xkey'"
proof -
  have "kCycles = 2 \<or> kCycles = 3 \<or> kCycles = 4" using assms by linarith
  then show ?thesis
    by (cases xkey; cases xkey'; elim disjE)
      (simp_all add: expand_key_def fill_keyed_sboxes_def)
qed


lemma expand_key_eq:
  assumes "2 \<le> kCycles" "kCycles \<le> 4"
  shows "expand_key st K kCycles xkey = (SUCCESS, snd (expand_key st K kCycles xkey'))"
  unfolding expand_key_fresh [OF assms, of st K xkey xkey']
  using expand_key_SUCCESS [of st K kCycles xkey']
  by (cases "expand_key st K kCycles xkey'") simp

section \<open>Properties\<close>

text \<open>
  The outcome of the key schedule. On an initialised library every key length from 0 to 32
  succeeds and gives one well-formed expanded key (forty round words, four S-boxes of 256 entries)
  that does not depend on what the structure held before; any other length is refused with
  \<open>ERR_KEY_LEN\<close> and leaves the structure alone.
\<close>
theorem Twofish_prepare_key_result:
  assumes "Twofish_initialised st" "key_len \<le> int (length key)"
  shows "if 0 \<le> key_len \<and> key_len \<le> 32
    then \<exists>k. well_formed_key k \<and>
      (\<forall>xkey. Twofish_prepare_key st key key_len xkey = Some (SUCCESS, k))
    else \<forall>xkey. Twofish_prepare_key st key key_len xkey = Some (ERR_KEY_LEN, xkey)"
proof (cases "0 \<le> key_len \<and> key_len \<le> 32")
  case True
  let ?ex = "expand_key st (key_array key (nat key_len)) (key_cycles (nat key_len))"
  have c: "2 \<le> key_cycles (nat key_len)" "key_cycles (nat key_len) \<le> 4"
    using key_cycles_bounds [of "nat key_len"] True by auto
  have "Twofish_prepare_key st key key_len xkey = Some (SUCCESS, snd (?ex undefined))" for xkey
    using True assms expand_key_eq [OF c, of st "key_array key (nat key_len)" xkey undefined]
    by (simp add: Twofish_prepare_key_def)
  with True expand_key_well_formed [OF c] show ?thesis
    by auto
qed (use assms in \<open>auto simp: Twofish_prepare_key_def\<close>)

theorem Twofish_prepare_key_result_witness:
  "\<exists>k. well_formed_key k \<and>
     (\<forall>xkey. Twofish_prepare_key \<lparr>q_table = [], MDS_table = [], Twofish_initialised = True\<rparr>
        [1, 2, 3] 3 xkey = Some (SUCCESS, k))"
  using Twofish_prepare_key_result
    [of "\<lparr>q_table = [], MDS_table = [], Twofish_initialised = True\<rparr>" 3 "[1, 2, 3]"] by simp

text \<open>
  Odd-sized keys. A key of at most 32 bytes expands exactly as the same key padded with zero
  bytes to the next regular length (16, 24 or 32), on every state of the library.
\<close>
theorem Twofish_prepare_key_odd:
  assumes "length key \<le> 32"
  shows "Twofish_prepare_key st key (int (length key)) xkey =
    Twofish_prepare_key st (key @ replicate (regular_key_len (length key) - length key) 0)
      (int (regular_key_len (length key))) xkey"
  using assms regular_key_len_bounds [OF assms] key_cycles_regular [OF assms]
  by (simp add: Twofish_prepare_key_def key_array_padded)

theorem Twofish_prepare_key_odd_witness:
  "length [1, 2, 3 :: byte] \<le> 32 \<and>
   (\<forall>st xkey. Twofish_prepare_key st [1, 2, 3] 3 xkey =
     Twofish_prepare_key st ([1, 2, 3] @ replicate 13 0) 16 xkey)"
  using Twofish_prepare_key_odd [of "[1, 2, 3]"] by (simp add: regular_key_len_def)

text \<open>
  The tables built by \<^verbatim>\<open>initialise_mds_tables\<close> hold the columns of the MDS matrix times the
  q-box value, computed in the field of 256 elements with the polynomial of the Twofish
  specification: byte \<open>r\<close> of entry \<open>i\<close> of table \<open>c\<close> is the product of the matrix entry in row
  \<open>r\<close> and column \<open>c\<close> with the q-box value.
\<close>
theorem initialise_mds_tables_products:
  assumes "c < 4" "r < 4" "i < 256"
  shows "SELECT_BYTE (MDS_table (initialise_mds_tables st) ! c ! i) r =
    ucast (gf_mul 0x69 (MDS_matrix ! r ! c) (q_table st ! (if even c then 1 else 0) ! i))"
  using less_4_cases [OF assms(1)] less_4_cases [OF assms(2)] assms(3)
  by (elim disjE)
    (simp_all add: initialise_mds_tables_def mds_products SELECT_BYTE_pack MDS_matrix_def gf_mul_1)

theorem initialise_mds_tables_products_witness:
  "(2 :: nat) < 4 \<and> (3 :: nat) < 4 \<and> (1 :: nat) < 256 \<and>
   SELECT_BYTE (MDS_table (initialise_mds_tables
      \<lparr>q_table = [[4, 5], [6, 7]], MDS_table = [], Twofish_initialised = False\<rparr>) ! 2 ! 1) 3 =
   ucast (gf_mul 0x69 0xEF 7)"
  using initialise_mds_tables_products
    [of 2 3 1 "\<lparr>q_table = [[4, 5], [6, 7]], MDS_table = [], Twofish_initialised = False\<rparr>"]
  by (simp add: MDS_matrix_def)

text \<open>
  C33: the Reed-Solomon loop of \<^verbatim>\<open>Twofish_prepare_key\<close>. For every key of at most 32 bytes the
  pointer loops end with the S-vector in place: word \<open>j\<close>, eight bytes apart from its neighbours,
  is the RS matrix of the Twofish specification times the eight key bytes at the mirrored
  position.
\<close>
theorem rs_words_matrix:
  assumes "n \<le> 32" "length key = n" "j < key_cycles n"
  shows "take 4 (drop (32 + 8 * j) (rs_words (key_cycles n) 32 (key_array key n))) =
    RS_mult (take 8 (drop (8 * (key_cycles n - 1 - j)) (key_array key n)))"
  using rs_words_spec [of "key_array key n" 32 "key_cycles n"] key_cycles_bounds [of n] assms
  by (simp add: key_array_def)

theorem rs_words_matrix_witness:
  "take 4 (drop (32 + 8 * 1) (rs_words (key_cycles 3) 32 (key_array [1, 2, 3] 3))) =
   RS_mult [1, 2, 3, 0, 0, 0, 0, 0]"
proof -
  have "replicate 65 (0 :: byte) = [0, 0, 0, 0, 0] @ replicate 60 0"
  proof -
    have "replicate 65 (0 :: byte) = replicate 5 0 @ replicate 60 0"
      unfolding replicate_add [symmetric] by simp
    also have "replicate 5 (0 :: byte) = [0, 0, 0, 0, 0]" by (simp add: numeral_eq_Suc)
    finally show ?thesis .
  qed
  then have "take 8 (key_array [1, 2, 3] 3) = [1, 2, 3, 0, 0, 0, 0, 0]"
    by (simp add: key_array_def)
  moreover have "key_cycles 3 = 2" by (simp add: key_cycles_def drop_bit_eq_div)
  ultimately show ?thesis
    using rs_words_matrix [of 3 "[1, 2, 3]" 1] by simp
qed

end
