(* ===== verification/Twofish_Selftest.thy ===== *)
theory Twofish_Selftest
  imports Twofish_Keys
begin

text \<open>
  The self-test that \<^verbatim>\<open>Twofish_initialise\<close> runs: the checks of the platform macros, the
  test vectors, the test sequences and the odd-sized keys. The macro \<^verbatim>\<open>Twofish_fatal\<close> returns its
  code, so every routine gives a code; \<open>None\<close> is a call of \<^verbatim>\<open>Twofish_prepare_key\<close> that does not
  return. The uninitialised local \<^verbatim>\<open>xkey\<close> is the parameter \<open>xk\<close>.
\<close>

section \<open>Platform checks\<close>

fun test_rotations :: "u32 \<Rightarrow> nat list \<Rightarrow> bool" where
  "test_rotations C [] = True"
| "test_rotations C (i # is) =
     (let x = ROR32 C i; y = ROL32 C i;
          x = x XOR (drop_bit i C XOR push_bit (32 - i) C);
          y = y XOR (push_bit i C XOR drop_bit (32 - i) C);
          x = x OR y
      in if x AND 0xffffffff \<noteq> 0 then False else test_rotations C is)"

definition test_platform :: int where
  "test_platform =
     (let buf = [0x12, 0x34, 0x56, 0x78, 0x9a, 0xbc, 0xde, 0] in
      if GET32 buf 0 \<noteq> 0x78563412 \<or> GET32 buf 1 \<noteq> 0x9a785634 \<or>
         GET32 buf 2 \<noteq> 0xbc9a7856 \<or> GET32 buf 3 \<noteq> 0xdebc9a78 then ERR_GET32
      else
        let C = GET32 buf 0; buf = memcpy_at buf 0 (PUT32 (3 * C)) in
        if GET32 buf 0 \<noteq> 0x69029c36 then ERR_PUT32
        else if \<not> test_rotations C [1..<32] then ERR_ROLR
        else if BSWAP C \<noteq> 0x12345678 then ERR_BSWAP
        else if SELECT_BYTE C 0 \<noteq> 0x12 \<or> SELECT_BYTE C 1 \<noteq> 0x34 \<or>
                SELECT_BYTE C 2 \<noteq> 0x56 \<or> SELECT_BYTE C 3 \<noteq> 0x78 then ERR_SELECTB
        else SUCCESS)"

lemma ROR32_xor: "i < 32 \<Longrightarrow> 0 < i \<Longrightarrow> ROR32 C i = drop_bit i C XOR push_bit (32 - i) C"
  by (rule bit_word_eqI) (auto simp: ROR32_def UINT32_MASK_eq bit_simps dest: bit_imp_le_length)

lemma ROL32_xor: "i < 32 \<Longrightarrow> 0 < i \<Longrightarrow> ROL32 C i = push_bit i C XOR drop_bit (32 - i) C"
  by (rule bit_word_eqI) (auto simp: ROL32_def UINT32_MASK_eq bit_simps dest: bit_imp_le_length)

lemma test_rotations_ok: "\<forall>i\<in>set is. 0 < i \<and> i < 32 \<Longrightarrow> test_rotations C is"
  by (induction "is") (auto simp: ROR32_xor ROL32_xor Let_def)

lemma test_platform_SUCCESS: "test_platform = SUCCESS"
proof -
  have C: "GET32 [0x12, 0x34, 0x56, 0x78, 0x9a, 0xbc, 0xde, 0] 0 = 0x78563412"
    "GET32 [0x12, 0x34, 0x56, 0x78, 0x9a, 0xbc, 0xde, 0] 1 = 0x9a785634"
    "GET32 [0x12, 0x34, 0x56, 0x78, 0x9a, 0xbc, 0xde, 0] 2 = 0xbc9a7856"
    "GET32 [0x12, 0x34, 0x56, 0x78, 0x9a, 0xbc, 0xde, 0] 3 = 0xdebc9a78"
    by (simp_all add: GET32_def)
  have P: "GET32 (memcpy_at [0x12, 0x34, 0x56, 0x78, 0x9a, 0xbc, 0xde, 0] 0 (PUT32 6056746038)) 0 = 0x69029c36"
    by (simp add: GET32_def PUT32_def memcpy_at_def)
  have "BSWAP 0x78563412 = 0x12345678"
    by (simp add: BSWAP_def ROL32_def ROR32_def UINT32_MASK_eq)
  moreover have "SELECT_BYTE 0x78563412 0 = 0x12" "SELECT_BYTE 0x78563412 1 = 0x34"
    "SELECT_BYTE 0x78563412 2 = 0x56" "SELECT_BYTE 0x78563412 3 = 0x78"
    by (simp_all add: SELECT_BYTE_def)
  moreover have "test_rotations C [1..<32]" for C
    by (rule test_rotations_ok) auto
  ultimately show ?thesis
    using C P by (simp add: test_platform_def Let_def)
qed

section \<open>Test vectors\<close>

fun test_vector_loop :: "nat \<Rightarrow> Twofish_key \<Rightarrow> byte list \<Rightarrow> byte list \<Rightarrow> int" where
  "test_vector_loop 0 xkey p c = SUCCESS"
| "test_vector_loop (Suc i) xkey p c =
     (if take 16 c \<noteq> Twofish_encrypt xkey p then ERR_TEST_ENC
      else if take 16 p \<noteq> Twofish_decrypt xkey c then ERR_TEST_DEC
      else test_vector_loop i xkey p c)"

definition test_vector ::
  "twofish_state \<Rightarrow> Twofish_key \<Rightarrow> byte list \<Rightarrow> int \<Rightarrow> byte list \<Rightarrow> byte list \<Rightarrow> int option" where
  "test_vector st xk key key_len p c =
     do { (i, xkey) \<leftarrow> Twofish_prepare_key st key key_len xk;
          if i < 0 then Some i else Some (test_vector_loop 2 xkey p c) }"

definition k128 :: "byte list" where
  "k128 = [0x9F, 0x58, 0x9F, 0x5C, 0xF6, 0x12, 0x2C, 0x32,
           0xB6, 0xBF, 0xEC, 0x2F, 0x2A, 0xE8, 0xC3, 0x5A]"
definition p128 :: "byte list" where
  "p128 = [0xD4, 0x91, 0xDB, 0x16, 0xE7, 0xB1, 0xC3, 0x9E,
           0x86, 0xCB, 0x08, 0x6B, 0x78, 0x9F, 0x54, 0x19]"
definition c128 :: "byte list" where
  "c128 = [0x01, 0x9F, 0x98, 0x09, 0xDE, 0x17, 0x11, 0x85,
           0x8F, 0xAA, 0xC3, 0xA3, 0xBA, 0x20, 0xFB, 0xC3]"
definition k192 :: "byte list" where
  "k192 = [0x88, 0xB2, 0xB2, 0x70, 0x6B, 0x10, 0x5E, 0x36,
           0xB4, 0x46, 0xBB, 0x6D, 0x73, 0x1A, 0x1E, 0x88,
           0xEF, 0xA7, 0x1F, 0x78, 0x89, 0x65, 0xBD, 0x44]"
definition p192 :: "byte list" where
  "p192 = [0x39, 0xDA, 0x69, 0xD6, 0xBA, 0x49, 0x97, 0xD5,
           0x85, 0xB6, 0xDC, 0x07, 0x3C, 0xA3, 0x41, 0xB2]"
definition c192 :: "byte list" where
  "c192 = [0x18, 0x2B, 0x02, 0xD8, 0x14, 0x97, 0xEA, 0x45,
           0xF9, 0xDA, 0xAC, 0xDC, 0x29, 0x19, 0x3A, 0x65]"
definition k256 :: "byte list" where
  "k256 = [0xD4, 0x3B, 0xB7, 0x55, 0x6E, 0xA3, 0x2E, 0x46,
           0xF2, 0xA2, 0x82, 0xB7, 0xD4, 0x5B, 0x4E, 0x0D,
           0x57, 0xFF, 0x73, 0x9D, 0x4D, 0xC9, 0x2C, 0x1B,
           0xD7, 0xFC, 0x01, 0x70, 0x0C, 0xC8, 0x21, 0x6F]"
definition p256 :: "byte list" where
  "p256 = [0x90, 0xAF, 0xE9, 0x1B, 0xB2, 0x88, 0x54, 0x4F,
           0x2C, 0x32, 0xDC, 0x23, 0x9B, 0x26, 0x35, 0xE6]"
definition c256 :: "byte list" where
  "c256 = [0x6C, 0xB4, 0x56, 0x1C, 0x40, 0xBF, 0x0A, 0x97,
           0x05, 0x93, 0x1C, 0xB6, 0xD4, 0x08, 0xE7, 0xFA]"

lemmas test_vector_data =
  k128_def p128_def c128_def k192_def p192_def c192_def k256_def p256_def c256_def

text \<open>The calls in sequence: the first negative code is returned, else \<open>SUCCESS\<close>.\<close>

fun first_failure :: "(unit \<Rightarrow> int option) list \<Rightarrow> int option" where
  "first_failure [] = Some SUCCESS"
| "first_failure (t # ts) = do { ret \<leftarrow> t (); if ret < 0 then Some ret else first_failure ts }"

definition test_vectors :: "twofish_state \<Rightarrow> Twofish_key \<Rightarrow> int option" where
  "test_vectors st xk = first_failure
     [\<lambda>_. test_vector st xk k128 16 p128 c128,
      \<lambda>_. test_vector st xk k192 24 p192 c192,
      \<lambda>_. test_vector st xk k256 32 p256 c256]"

section \<open>Test sequences\<close>

text \<open>The loop body for \<open>n\<close> more passes; \<open>p\<close> is the offset of the plaintext in the buffer.\<close>

fun test_sequence_loop ::
  "nat \<Rightarrow> twofish_state \<Rightarrow> Twofish_key \<Rightarrow> int \<Rightarrow> byte list \<Rightarrow> nat \<Rightarrow> byte list \<Rightarrow> int option" where
  "test_sequence_loop 0 st xk key_len buf p final_value =
     Some (if take 16 (drop p buf) \<noteq> final_value then ERR_SEQ_ENC else SUCCESS)"
| "test_sequence_loop (Suc n) st xk key_len buf p final_value =
     do { (ret, xkey) \<leftarrow> Twofish_prepare_key st (drop (p + 16) buf) key_len xk;
          if ret < 0 then Some ret
          else let buf = memcpy_at buf (p - 16) (Twofish_encrypt xkey (drop p buf));
                   tmp = Twofish_decrypt xkey (drop (p - 16) buf)
               in if tmp \<noteq> take 16 (drop p buf) then Some ERR_SEQ_DEC
                  else test_sequence_loop n st xkey key_len buf (p - 16) final_value }"

definition test_sequence :: "twofish_state \<Rightarrow> Twofish_key \<Rightarrow> int \<Rightarrow> byte list \<Rightarrow> int option" where
  "test_sequence st xk key_len final_value =
     test_sequence_loop 49 st xk key_len (replicate ((50 + 3) * 16) 0) (50 * 16) final_value"

definition r128 :: "byte list" where
  "r128 = [0x5D, 0x9D, 0x4E, 0xEF, 0xFA, 0x91, 0x51, 0x57,
           0x55, 0x24, 0xF1, 0x15, 0x81, 0x5A, 0x12, 0xE0]"
definition r192 :: "byte list" where
  "r192 = [0xE7, 0x54, 0x49, 0x21, 0x2B, 0xEE, 0xF9, 0xF4,
           0xA3, 0x90, 0xBD, 0x86, 0x0A, 0x64, 0x09, 0x41]"
definition r256 :: "byte list" where
  "r256 = [0x37, 0xFE, 0x26, 0xFF, 0x1C, 0xF6, 0x61, 0x75,
           0xF5, 0xDD, 0xF4, 0xC3, 0x3B, 0x97, 0xA2, 0x05]"

definition test_sequences :: "twofish_state \<Rightarrow> Twofish_key \<Rightarrow> int option" where
  "test_sequences st xk = first_failure
     [\<lambda>_. test_sequence st xk 16 r128, \<lambda>_. test_sequence st xk 24 r192,
      \<lambda>_. test_sequence st xk 32 r256]"

section \<open>Odd-sized keys and the whole self-test\<close>

text \<open>The loop from \<open>i = n - 1\<close> down to 0; \<open>xkey\<close> and \<open>xkey_two\<close> keep their values between passes.\<close>

fun test_odd_loop ::
  "nat \<Rightarrow> twofish_state \<Rightarrow> Twofish_key \<Rightarrow> Twofish_key \<Rightarrow> byte list \<Rightarrow> int option" where
  "test_odd_loop 0 st xkey xkey_two buf = Some SUCCESS"
| "test_odd_loop (Suc i) st xkey xkey_two buf =
     (let buf = buf[i := 0] in
      do { (ret, xkey) \<leftarrow> Twofish_prepare_key st buf (int i) xkey;
           if ret < 0 then Some ret
           else do { (ret, xkey_two) \<leftarrow>
                       Twofish_prepare_key st buf (int (regular_key_len i)) xkey_two;
                     if ret < 0 then Some ret
                     else if xkey \<noteq> xkey_two then Some ERR_ODD_KEY
                     else test_odd_loop i st xkey xkey_two buf } })"

definition test_odd_sized_keys :: "twofish_state \<Rightarrow> Twofish_key \<Rightarrow> Twofish_key \<Rightarrow> int option" where
  "test_odd_sized_keys st xk xk_two =
     (let buf = replicate 32 0 in
      do { (ret, xkey) \<leftarrow> Twofish_prepare_key st buf 16 xk;
           if ret < 0 then Some ret
           else let buf = memcpy_at buf 0 (Twofish_encrypt xkey buf);
                    buf = memcpy_at buf 16 (Twofish_encrypt xkey buf)
                in test_odd_loop 32 st xkey xk_two buf })"

definition self_test :: "twofish_state \<Rightarrow> Twofish_key \<Rightarrow> Twofish_key \<Rightarrow> int option" where
  "self_test st xk xk_two = first_failure
     [\<lambda>_. test_vectors st xk, \<lambda>_. test_sequences st xk, \<lambda>_. test_odd_sized_keys st xk xk_two]"

definition Twofish_initialise ::
  "twofish_state \<Rightarrow> Twofish_key \<Rightarrow> Twofish_key \<Rightarrow> int option \<times> twofish_state" where
  "Twofish_initialise st xk xk_two =
     (let ret = test_platform in
      if ret < 0 then (Some ret, st)
      else let st = initialise_q_boxes st; st = initialise_mds_tables st;
               st = st\<lparr>Twofish_initialised := True\<rparr>
           in (self_test st xk xk_two, st))"

section \<open>What the self-test can report\<close>

lemma prepare_key_eq:
  assumes "Twofish_initialised st" "0 \<le> n" "n \<le> 32" "n \<le> int (length key)"
  shows "Twofish_prepare_key st key n xk =
    Some (SUCCESS, snd (expand_key st (key_array key (nat n)) (key_cycles (nat n)) undefined))"
  using assms key_cycles_bounds [of "nat n"]
    expand_key_eq [of "key_cycles (nat n)" st "key_array key (nat n)" xk undefined]
  by (simp add: Twofish_prepare_key_def nat_le_iff)

lemma test_vector_loop_eq:
  assumes "length p = 16" "length c = 16"
  shows "test_vector_loop n xkey p c =
    (if n = 0 \<or> Twofish_encrypt xkey p = c then SUCCESS else ERR_TEST_ENC)"
  using assms by (induction n) (auto simp: Twofish_decrypt_encrypt)

lemma test_vector_codes:
  assumes "Twofish_initialised st" "0 \<le> n" "n \<le> 32" "n \<le> int (length key)"
    "length p = 16" "length c = 16"
  shows "test_vector st xk key n p c \<in> {Some SUCCESS, Some ERR_TEST_ENC}"
  using assms by (simp add: test_vector_def prepare_key_eq test_vector_loop_eq twofish_codes)

lemma test_vectors_codes:
  "Twofish_initialised st \<Longrightarrow> test_vectors st xk \<in> {Some SUCCESS, Some ERR_TEST_ENC}"
  using test_vector_codes [of st 16 k128 p128 c128 xk] test_vector_codes [of st 24 k192 p192 c192 xk]
    test_vector_codes [of st 32 k256 p256 c256 xk]
  by (auto simp: test_vectors_def test_vector_data twofish_codes)

lemma Twofish_encrypt_take: "16 \<le> length p \<Longrightarrow> Twofish_encrypt k (take 16 p) = Twofish_encrypt k p"
  by (simp add: Twofish_encrypt_alt GET_INPUT_def GET32_def)

lemma Twofish_decrypt_take: "16 \<le> length p \<Longrightarrow> Twofish_decrypt k (take 16 p) = Twofish_decrypt k p"
  by (simp add: Twofish_decrypt_alt GET_INPUT_def GET32_def)

lemma test_sequence_loop_codes:
  assumes "Twofish_initialised st" "0 \<le> key_len" "key_len \<le> 32"
    "p + 48 \<le> length buf" "16 * n \<le> p"
  shows "test_sequence_loop n st xk key_len buf p fv \<in> {Some SUCCESS, Some ERR_SEQ_ENC}"
  using assms(4,5)
proof (induction n arbitrary: xk buf p)
  case (Suc n)
  let ?k = "snd (expand_key st (key_array (drop (p + 16) buf) (nat key_len))
    (key_cycles (nat key_len)) undefined)"
  let ?buf = "memcpy_at buf (p - 16) (Twofish_encrypt ?k (drop p buf))"
  have pk: "Twofish_prepare_key st (drop (p + 16) buf) key_len xk = Some (SUCCESS, ?k)"
    using assms Suc.prems by (intro prepare_key_eq) auto
  have rest: "drop p ?buf = drop p buf" and out: "take 16 (drop (p - 16) ?buf) = Twofish_encrypt ?k (drop p buf)"
    and len: "length ?buf = length buf"
    using Suc.prems by (simp_all add: memcpy_at_def)
  have "Twofish_decrypt ?k (drop (p - 16) ?buf) = take 16 (drop p ?buf)"
    using Suc.prems Twofish_decrypt_encrypt [of "take 16 (drop p buf)" ?k] len rest out
      Twofish_decrypt_take [of "drop (p - 16) ?buf" ?k] Twofish_encrypt_take [of "drop p buf" ?k]
    by simp
  then show ?case
    using Suc.IH [where buf = ?buf and p = "p - 16" and xk = ?k] Suc.prems len pk
    by (simp add: Let_def twofish_codes)
qed (simp add: twofish_codes)

lemma test_sequence_codes:
  "Twofish_initialised st \<Longrightarrow> 0 \<le> n \<Longrightarrow> n \<le> 32 \<Longrightarrow>
   test_sequence st xk n fv \<in> {Some SUCCESS, Some ERR_SEQ_ENC}"
  unfolding test_sequence_def by (rule test_sequence_loop_codes) simp_all

lemma test_sequences_codes:
  "Twofish_initialised st \<Longrightarrow> test_sequences st xk \<in> {Some SUCCESS, Some ERR_SEQ_ENC}"
  using test_sequence_codes [of st 16 xk r128] test_sequence_codes [of st 24 xk r192]
    test_sequence_codes [of st 32 xk r256]
  by (auto simp: test_sequences_def twofish_codes)

lemma key_array_zeros:
  assumes "n \<le> m" "m \<le> length key" "m \<le> 68" "\<forall>j. n \<le> j \<and> j < m \<longrightarrow> key ! j = 0"
  shows "key_array key m = key_array key n"
  using assms by (auto simp: key_array_def list_eq_iff_nth_eq nth_append min_def)

lemma test_odd_loop_SUCCESS:
  assumes "Twofish_initialised st" "length buf = 32" "n \<le> 32" "\<forall>j. n \<le> j \<and> j < 32 \<longrightarrow> buf ! j = 0"
  shows "test_odd_loop n st xk xk_two buf = Some SUCCESS"
  using assms(2-4)
proof (induction n arbitrary: buf xk xk_two)
  case (Suc n)
  let ?buf = "buf[n := 0]" and ?m = "regular_key_len n"
  have m: "n \<le> ?m" "?m \<le> 32"
    using regular_key_len_bounds [of n] Suc.prems by simp_all
  have zero: "\<forall>j. n \<le> j \<and> j < 32 \<longrightarrow> ?buf ! j = 0"
    using Suc.prems by (auto simp: nth_list_update)
  have "key_array ?buf ?m = key_array ?buf n"
    by (rule key_array_zeros) (use m Suc.prems zero in auto)
  then have "Twofish_prepare_key st ?buf (int ?m) x = Twofish_prepare_key st ?buf (int n) y" for x y
    using m Suc.prems assms(1) by (simp add: prepare_key_eq key_cycles_regular)
  moreover obtain k where "Twofish_prepare_key st ?buf (int n) x = Some (SUCCESS, k)" for x
    using m Suc.prems assms(1) by (simp add: prepare_key_eq)
  ultimately show ?case
    using Suc.IH [of ?buf k k] Suc.prems zero by (simp add: Let_def twofish_codes)
qed simp

lemma test_odd_sized_keys_SUCCESS:
  assumes "Twofish_initialised st"
  shows "test_odd_sized_keys st xk xk_two = Some SUCCESS"
proof -
  have "test_odd_loop 32 st x y (memcpy_at (memcpy_at (replicate 32 0) 0 (Twofish_encrypt k b)) 16
      (Twofish_encrypt k c)) = Some SUCCESS" for x y k b c
    using assms by (intro test_odd_loop_SUCCESS) auto
  then show ?thesis
    using assms by (simp add: test_odd_sized_keys_def prepare_key_eq twofish_codes Let_def)
qed

lemma self_test_codes:
  "Twofish_initialised st \<Longrightarrow>
   self_test st xk xk_two \<in> {Some SUCCESS, Some ERR_TEST_ENC, Some ERR_SEQ_ENC}"
  using test_vectors_codes [of st xk] test_sequences_codes [of st xk]
    test_odd_sized_keys_SUCCESS [of st xk xk_two]
  by (auto simp: self_test_def twofish_codes)

text \<open>
  The self-test of the library. From any state \<^verbatim>\<open>Twofish_initialise\<close> returns, leaves the
  library initialised with tables of the right sizes, and can only report that a test vector or a
  test sequence gave another ciphertext than the published one: the platform checks, all the
  decryption checks and the odd-sized key checks cannot fail.
\<close>
theorem Twofish_initialise_codes:
  "fst (Twofish_initialise st xk xk_two) \<in> {Some SUCCESS, Some ERR_TEST_ENC, Some ERR_SEQ_ENC} \<and>
   Twofish_initialised (snd (Twofish_initialise st xk xk_two)) \<and>
   map length (q_table (snd (Twofish_initialise st xk xk_two))) = [256, 256] \<and>
   map length (MDS_table (snd (Twofish_initialise st xk xk_two))) = [256, 256, 256, 256]"
proof -
  have "\<not> test_platform < 0" by (simp add: test_platform_SUCCESS twofish_codes)
  then show ?thesis
    using self_test_codes
    by (simp add: Twofish_initialise_def Let_def initialise_q_boxes_def initialise_mds_tables_def
        make_q_table_def)
qed

end
