(* ===== verification/Sym_Crypto.thy ===== *)
theory Sym_Crypto
  imports Twofish_Selftest
begin

text \<open>
  The symmetric cipher object of SRTP: class \<^verbatim>\<open>SrtpSymCrypto\<close> of
  \<^verbatim>\<open>src/src/ccrtp/crypto/openssl/SrtpSymCrypto.cpp\<close>. The AES functions of OpenSSL are the
  parameter \<open>aes\<close>; Twofish is the model of \<^verbatim>\<open>twofish.c\<close>. A use of the key pointer when it does not
  point to a key of the right kind, and a loop that does not end, are \<open>None\<close>. Buffers are byte lists,
  a buffer updated in place is returned.
\<close>

datatype srtp_ealg = SrtpEncryptionNull | SrtpEncryptionAESCM | SrtpEncryptionAESF8
  | SrtpEncryptionTWOCM | SrtpEncryptionTWOF8

record 'ak aes_lib =
  AES_set_encrypt_key :: "byte list \<Rightarrow> int \<Rightarrow> 'ak"
  AES_encrypt :: "'ak \<Rightarrow> byte list \<Rightarrow> byte list"

text \<open>The key pointer: null, freed but not cleared, or pointing to an expanded key.\<close>

datatype 'ak sym_key = KeyNull | KeyFreed | KeyAes 'ak | KeyTwofish Twofish_key

record 'ak SrtpSymCrypto =
  skey :: "'ak sym_key"
  algorithm :: srtp_ealg

text \<open>The library state that \<^verbatim>\<open>setNewKey\<close> shares: the Twofish tables and the flag \<^verbatim>\<open>twoFishInit\<close>.\<close>

record tf_env =
  tf_state :: twofish_state
  twoFishInit :: bool

definition is_aes :: "srtp_ealg \<Rightarrow> bool" where
  "is_aes a \<longleftrightarrow> a = SrtpEncryptionAESCM \<or> a = SrtpEncryptionAESF8"

definition is_twofish :: "srtp_ealg \<Rightarrow> bool" where
  "is_twofish a \<longleftrightarrow> a = SrtpEncryptionTWOCM \<or> a = SrtpEncryptionTWOF8"

definition zero_twofish_key :: Twofish_key where
  "zero_twofish_key = \<lparr>sbox = replicate 4 (replicate 256 0), Kw = replicate 40 0\<rparr>"

definition newSrtpSymCrypto :: "srtp_ealg \<Rightarrow> 'ak SrtpSymCrypto" where
  "newSrtpSymCrypto algo = \<lparr>skey = KeyNull, algorithm = algo\<rparr>"

definition setNewKey ::
  "'ak aes_lib \<Rightarrow> tf_env \<Rightarrow> 'ak SrtpSymCrypto \<Rightarrow> byte list \<Rightarrow> int
   \<Rightarrow> (bool \<times> tf_env \<times> 'ak SrtpSymCrypto) option" where
  "setNewKey aes env c k keyLength =
     (let c = (if skey c \<noteq> KeyNull then c\<lparr>skey := KeyFreed\<rparr> else c) in
      if \<not> (keyLength = 16 \<or> keyLength = 32) then Some (False, env, c)
      else if is_aes (algorithm c) then
        Some (True, env, c\<lparr>skey := KeyAes (AES_set_encrypt_key aes k (keyLength * 8))\<rparr>)
      else if is_twofish (algorithm c) then
        let env = (if \<not> twoFishInit env
                   then \<lparr>tf_state = snd (Twofish_initialise (tf_state env) zero_twofish_key zero_twofish_key),
                         twoFishInit = True\<rparr>
                   else env)
        in do { (_, xk) \<leftarrow> Twofish_prepare_key (tf_state env) k keyLength zero_twofish_key;
                Some (True, env, c\<lparr>skey := KeyTwofish xk\<rparr>) }
      else Some (False, env, c))"

definition encrypt ::
  "'ak aes_lib \<Rightarrow> 'ak SrtpSymCrypto \<Rightarrow> byte list \<Rightarrow> byte list \<Rightarrow> byte list option" where
  "encrypt aes c input output =
     (if is_aes (algorithm c) then
        (case skey c of KeyAes k \<Rightarrow> Some (AES_encrypt aes k input) | _ \<Rightarrow> None)
      else if is_twofish (algorithm c) then
        (case skey c of KeyTwofish k \<Rightarrow> Some (Twofish_encrypt k input) | _ \<Rightarrow> None)
      else Some output)"

section \<open>Counter mode\<close>

definition ctr_iv :: "byte list \<Rightarrow> u16 \<Rightarrow> byte list" where
  "ctr_iv iv ctr = iv[14 := ucast (drop_bit 8 (ctr AND 0xFF00)), 15 := ucast (ctr AND 0x00FF)]"

text \<open>\<open>l\<close> full blocks; the buffer \<^verbatim>\<open>temp\<close> is only read after \<^verbatim>\<open>encrypt\<close> wrote it.\<close>

fun ctr_stream_blocks ::
  "'ak aes_lib \<Rightarrow> 'ak SrtpSymCrypto \<Rightarrow> nat \<Rightarrow> u16 \<Rightarrow> byte list \<Rightarrow> byte list
   \<Rightarrow> (byte list \<times> byte list \<times> u16) option" where
  "ctr_stream_blocks aes c 0 ctr output iv = Some ([], iv, ctr)"
| "ctr_stream_blocks aes c (Suc l) ctr output iv =
     do { let iv = ctr_iv iv ctr;
          blk \<leftarrow> encrypt aes c iv (take 16 output);
          (out, iv, ctr) \<leftarrow> ctr_stream_blocks aes c l (ctr + 1) (drop 16 output) iv;
          Some (blk @ out, iv, ctr) }"

definition get_ctr_cipher_stream ::
  "'ak aes_lib \<Rightarrow> 'ak SrtpSymCrypto \<Rightarrow> byte list \<Rightarrow> nat \<Rightarrow> byte list \<Rightarrow> (byte list \<times> byte list) option" where
  "get_ctr_cipher_stream aes c output len iv =
     (if len div 16 > 65535 then None
      else do { (out, iv, ctr) \<leftarrow> ctr_stream_blocks aes c (len div 16) 0 output iv;
                if len mod 16 > 0 then
                  do { let iv = ctr_iv iv ctr;
                       temp \<leftarrow> encrypt aes c iv (replicate 16 0);
                       Some (out @ take (len mod 16) temp, iv) }
                else Some (out, iv) })"

definition xor_bytes :: "byte list \<Rightarrow> byte list \<Rightarrow> byte list" where
  "xor_bytes = map2 (XOR)"

fun ctr_xor_blocks ::
  "'ak aes_lib \<Rightarrow> 'ak SrtpSymCrypto \<Rightarrow> nat \<Rightarrow> u16 \<Rightarrow> byte list \<Rightarrow> byte list
   \<Rightarrow> (byte list \<times> byte list \<times> u16) option" where
  "ctr_xor_blocks aes c 0 ctr input iv = Some ([], iv, ctr)"
| "ctr_xor_blocks aes c (Suc l) ctr input iv =
     do { let iv = ctr_iv iv ctr;
          temp \<leftarrow> encrypt aes c iv (replicate 16 0);
          (out, iv, ctr) \<leftarrow> ctr_xor_blocks aes c l (ctr + 1) (drop 16 input) iv;
          Some (xor_bytes temp (take 16 input) @ out, iv, ctr) }"

text \<open>
  The two overloads differ only in where the result goes: a separate buffer \<^verbatim>\<open>output\<close> or the data
  itself. Without a key the destination keeps its contents.
\<close>

definition ctr_encrypt_to ::
  "'ak aes_lib \<Rightarrow> 'ak SrtpSymCrypto \<Rightarrow> byte list \<Rightarrow> byte list \<Rightarrow> byte list \<Rightarrow> (byte list \<times> byte list) option" where
  "ctr_encrypt_to aes c input output iv =
     (if skey c = KeyNull then Some (output, iv)
      else if length input div 16 > 65535 then None
      else do { (out, iv, ctr) \<leftarrow> ctr_xor_blocks aes c (length input div 16) 0 input iv;
                let l = length input mod 16;
                if l > 0 then
                  do { let iv = ctr_iv iv ctr;
                       temp \<leftarrow> encrypt aes c iv (replicate 16 0);
                       Some (out @ xor_bytes temp (drop (16 * (length input div 16)) input), iv) }
                else Some (out, iv) })"

definition ctr_encrypt ::
  "'ak aes_lib \<Rightarrow> 'ak SrtpSymCrypto \<Rightarrow> byte list \<Rightarrow> byte list \<Rightarrow> (byte list \<times> byte list) option" where
  "ctr_encrypt aes c data iv = ctr_encrypt_to aes c data data iv"

section \<open>F8 mode\<close>

definition f8_deriveForIV ::
  "'ak aes_lib \<Rightarrow> tf_env \<Rightarrow> 'ak SrtpSymCrypto \<Rightarrow> byte list \<Rightarrow> int \<Rightarrow> byte list \<Rightarrow> int
   \<Rightarrow> (tf_env \<times> 'ak SrtpSymCrypto) option" where
  "f8_deriveForIV aes env f8Cipher key keyLen salt saltLen =
     (if keyLen > 32 then Some (env, f8Cipher)
      else if saltLen > keyLen then Some (env, f8Cipher)
      else
        let saltMask = take (nat saltLen) salt @ replicate (nat (keyLen - saltLen)) 0x55;
            maskedKey = xor_bytes (take (nat keyLen) key) saltMask
        in map_option snd (setNewKey aes env f8Cipher maskedKey keyLen))"

record f8_ctx =
  f8_S :: "byte list"
  ivAccent :: "byte list"
  f8_J :: u32

definition processBlock ::
  "'ak aes_lib \<Rightarrow> 'ak SrtpSymCrypto \<Rightarrow> f8_ctx \<Rightarrow> byte list \<Rightarrow> (byte list \<times> f8_ctx) option" where
  "processBlock aes c f8ctx inp =
     (let S = xor_bytes (f8_S f8ctx) (ivAccent f8ctx);
          S = memcpy_at S 12 (xor_bytes (take 4 (drop 12 S)) (be32 (f8_J f8ctx)));
          f8ctx = f8ctx\<lparr>f8_J := f8_J f8ctx + 1\<rparr>
      in do { S \<leftarrow> encrypt aes c S S;
              Some (xor_bytes inp S, f8ctx\<lparr>f8_S := S\<rparr>) })"

function f8_loop ::
  "'ak aes_lib \<Rightarrow> 'ak SrtpSymCrypto \<Rightarrow> f8_ctx \<Rightarrow> byte list \<Rightarrow> byte list option" where
  "f8_loop aes c f8ctx inp =
     (if length inp \<ge> 16 then
        do { (out, f8ctx) \<leftarrow> processBlock aes c f8ctx (take 16 inp);
             rest \<leftarrow> f8_loop aes c f8ctx (drop 16 inp);
             Some (out @ rest) }
      else if length inp > 0 then map_option fst (processBlock aes c f8ctx inp)
      else Some [])"
  by pat_completeness auto
termination
  by (relation "measure (\<lambda>(aes, c, f8ctx, inp). length inp)") auto

declare f8_loop.simps [simp del]

definition f8_encrypt_to ::
  "'ak aes_lib \<Rightarrow> 'ak SrtpSymCrypto \<Rightarrow> byte list \<Rightarrow> byte list \<Rightarrow> byte list \<Rightarrow> 'ak SrtpSymCrypto
   \<Rightarrow> byte list option" where
  "f8_encrypt_to aes c inp out iv f8Cipher =
     (if skey c = KeyNull then Some out
      else do { iv' \<leftarrow> encrypt aes f8Cipher iv (replicate 16 0);
                f8_loop aes c \<lparr>f8_S = replicate 16 0, ivAccent = iv', f8_J = 0\<rparr> inp })"

definition f8_encrypt ::
  "'ak aes_lib \<Rightarrow> 'ak SrtpSymCrypto \<Rightarrow> byte list \<Rightarrow> byte list \<Rightarrow> 'ak SrtpSymCrypto \<Rightarrow> byte list option" where
  "f8_encrypt aes c data iv f8Cipher = f8_encrypt_to aes c data data iv f8Cipher"

section \<open>Modes over a block function\<close>

text \<open>
  A cipher object whose calls of \<^verbatim>\<open>encrypt\<close> all succeed computes with a block function \<open>E\<close>; the
  interface of a block cipher gives the length of its blocks.
\<close>

definition runs :: "'ak aes_lib \<Rightarrow> 'ak SrtpSymCrypto \<Rightarrow> (byte list \<Rightarrow> byte list) \<Rightarrow> bool" where
  "runs aes c E \<longleftrightarrow> (\<forall>i out. length i = 16 \<longrightarrow> encrypt aes c i out = Some (E i)) \<and>
     (\<forall>i. length i = 16 \<longrightarrow> length (E i) = 16) \<and> skey c \<noteq> KeyNull"

definition ctr_blocks :: "(byte list \<Rightarrow> byte list) \<Rightarrow> byte list \<Rightarrow> nat \<Rightarrow> nat \<Rightarrow> byte list" where
  "ctr_blocks E iv from n = concat (map (\<lambda>i. E (ctr_iv iv (of_nat i))) [from..<from + n])"

lemma length_xor_bytes [simp]: "length (xor_bytes a b) = min (length a) (length b)"
  by (simp add: xor_bytes_def)

lemma xor_bytes_comm: "xor_bytes a b = xor_bytes b a"
  by (simp add: xor_bytes_def list_eq_iff_nth_eq ac_simps)

lemma xor_bytes_cancel: "length a \<le> length b \<Longrightarrow> xor_bytes (xor_bytes a b) b = a"
  by (simp add: xor_bytes_def list_eq_iff_nth_eq)

lemma xor_bytes_append:
  "length a = length c \<Longrightarrow> xor_bytes (a @ b) (c @ d) = xor_bytes a c @ xor_bytes b d"
  by (simp add: xor_bytes_def)

lemma xor_bytes_take: "xor_bytes a b = xor_bytes a (take (length a) b)"
  by (simp add: xor_bytes_def list_eq_iff_nth_eq)

lemma length_ctr_iv [simp]: "length (ctr_iv iv n) = length iv"
  by (simp add: ctr_iv_def)

lemma ctr_iv_ctr_iv [simp]: "ctr_iv (ctr_iv iv n) m = ctr_iv iv m"
  by (simp add: ctr_iv_def list_update_swap)

lemma ctr_blocks_Suc: "ctr_blocks E iv k (Suc n) = E (ctr_iv iv (of_nat k)) @ ctr_blocks E iv (Suc k) n"
  by (simp add: ctr_blocks_def upt_rec)

lemma ctr_blocks_iv: "ctr_blocks E (ctr_iv iv m) k n = ctr_blocks E iv k n"
  by (simp add: ctr_blocks_def)

lemma length_ctr_blocks:
  assumes "\<And>i. length i = 16 \<Longrightarrow> length (E i) = 16" "length iv = 16"
  shows "length (ctr_blocks E iv k n) = 16 * n"
proof -
  have "sum_list (map (\<lambda>i. length (E (ctr_iv iv (of_nat i)))) is) = 16 * length is" for "is" :: "nat list"
    using assms by (induction "is") simp_all
  then show ?thesis by (simp add: ctr_blocks_def length_concat comp_def)
qed

definition ctr_keystream :: "(byte list \<Rightarrow> byte list) \<Rightarrow> byte list \<Rightarrow> nat \<Rightarrow> byte list" where
  "ctr_keystream E iv len = take len (ctr_blocks E iv 0 (len div 16 + 1))"

definition same_iv :: "byte list \<Rightarrow> byte list \<Rightarrow> bool" where
  "same_iv iv iv' \<longleftrightarrow> length iv' = 16 \<and> (\<forall>m. ctr_iv iv' m = ctr_iv iv m)"

lemma same_iv_ctr: "length iv = 16 \<Longrightarrow> same_iv (ctr_iv iv k) iv' \<Longrightarrow> same_iv iv iv'"
  by (simp add: same_iv_def)

lemma ctr_stream_blocks_eq:
  assumes "runs aes c E"
  shows "length iv = 16 \<Longrightarrow> \<exists>iv'. ctr_stream_blocks aes c n (of_nat k) out iv =
    Some (ctr_blocks E iv k n, iv', of_nat (k + n)) \<and> same_iv iv iv'"
proof (induction n arbitrary: k out iv)
  case 0
  then show ?case by (simp add: ctr_blocks_def same_iv_def)
next
  case (Suc n)
  let ?iv = "ctr_iv iv (of_nat k)"
  obtain iv' where "ctr_stream_blocks aes c n (of_nat (Suc k)) (drop 16 out) ?iv =
      Some (ctr_blocks E ?iv (Suc k) n, iv', of_nat (Suc k + n))" "same_iv ?iv iv'"
    using Suc.IH [of ?iv "Suc k" "drop 16 out"] Suc.prems by auto
  then show ?case
    using Suc.prems assms same_iv_ctr [of iv "of_nat k" iv']
    by (auto simp: ctr_blocks_Suc ctr_blocks_iv runs_def Let_def ac_simps)
qed

lemma ctr_xor_blocks_eq:
  assumes "runs aes c E"
  shows "length iv = 16 \<Longrightarrow> 16 * n \<le> length input \<Longrightarrow> \<exists>iv'. ctr_xor_blocks aes c n (of_nat k) input iv =
    Some (xor_bytes (take (16 * n) input) (ctr_blocks E iv k n), iv', of_nat (k + n)) \<and> same_iv iv iv'"
proof (induction n arbitrary: k input iv)
  case 0
  then show ?case by (simp add: ctr_blocks_def xor_bytes_def same_iv_def)
next
  case (Suc n)
  let ?iv = "ctr_iv iv (of_nat k)"
  have E: "length (E ?iv) = 16" using Suc.prems assms by (simp add: runs_def)
  have le: "16 * n \<le> length (drop 16 input)" using Suc.prems by simp
  have "take (16 * Suc n) input = take 16 input @ take (16 * n) (drop 16 input)"
    by (simp add: take_add [symmetric] add.commute)
  then have x: "xor_bytes (take (16 * Suc n) input) (ctr_blocks E iv k (Suc n)) =
      xor_bytes (E ?iv) (take 16 input) @ xor_bytes (take (16 * n) (drop 16 input)) (ctr_blocks E iv (Suc k) n)"
    using E Suc.prems by (simp add: ctr_blocks_Suc xor_bytes_append xor_bytes_comm [of "take 16 input"])
  obtain iv' where "ctr_xor_blocks aes c n (of_nat (Suc k)) (drop 16 input) ?iv =
      Some (xor_bytes (take (16 * n) (drop 16 input)) (ctr_blocks E ?iv (Suc k) n), iv', of_nat (Suc k + n))"
      "same_iv ?iv iv'"
    using Suc.IH [of ?iv "drop 16 input" "Suc k"] Suc.prems le by auto
  then show ?case
    using Suc.prems assms same_iv_ctr [of iv "of_nat k" iv'] unfolding x
    by (auto simp: ctr_blocks_iv runs_def Let_def ac_simps)
qed

lemma ctr_blocks_split: "ctr_blocks E iv k (n + 1) = ctr_blocks E iv k n @ E (ctr_iv iv (of_nat (k + n)))"
  by (simp add: ctr_blocks_def)

lemma length_keystream:
  assumes "runs aes c E" "length iv = 16"
  shows "length (ctr_keystream E iv len) = len"
proof -
  have "len \<le> 16 * (len div 16 + 1)" by presburger
  then show ?thesis
    using length_ctr_blocks [of E iv 0 "len div 16 + 1"] assms
    unfolding ctr_keystream_def runs_def length_take by (simp add: min_absorb2)
qed

lemma keystream_parts:
  assumes "runs aes c E" "length iv = 16"
  shows "ctr_keystream E iv len = ctr_blocks E iv 0 (len div 16) @
    take (len mod 16) (E (ctr_iv iv (of_nat (len div 16))))"
proof -
  have "length (ctr_blocks E iv 0 (len div 16)) = 16 * (len div 16)"
    using length_ctr_blocks [of E iv 0 "len div 16"] assms by (simp add: runs_def)
  moreover have "len - 16 * (len div 16) = len mod 16" by (simp add: minus_mult_div_eq_mod)
  moreover have "16 * (len div 16) \<le> len" by simp
  ultimately show ?thesis
    by (simp only: ctr_keystream_def ctr_blocks_split take_append add_0) simp
qed

lemma get_ctr_cipher_stream_eq:
  assumes "runs aes c E" "length iv = 16" "len < 2 ^ 20"
  shows "\<exists>iv'. get_ctr_cipher_stream aes c out len iv = Some (ctr_keystream E iv len, iv')"
proof -
  have "len div 16 \<le> 65535" using assms(3) by simp
  moreover obtain iv' where "ctr_stream_blocks aes c (len div 16) 0 out iv =
      Some (ctr_blocks E iv 0 (len div 16), iv', of_nat (len div 16))" "same_iv iv iv'"
    using ctr_stream_blocks_eq [OF assms(1,2), of "len div 16" 0 out] by auto
  ultimately show ?thesis
    using assms
    by (auto simp: get_ctr_cipher_stream_def keystream_parts [OF assms(1,2)] runs_def same_iv_def Let_def)
qed

lemma ctr_encrypt_to_eq:
  assumes "runs aes c E" "length iv = 16" "length input < 2 ^ 20"
  shows "\<exists>iv'. ctr_encrypt_to aes c input out iv = Some (xor_bytes input (ctr_keystream E iv (length input)), iv')"
proof -
  let ?n = "length input div 16" and ?l = "length input mod 16"
  have n: "?n \<le> 65535" using assms(3) by simp
  have le: "16 * ?n \<le> length input" by simp
  let ?last = "E (ctr_iv iv (of_nat ?n))"
  have "length (ctr_blocks E iv 0 ?n) = 16 * ?n"
    using length_ctr_blocks [of E iv 0 ?n] assms by (simp add: runs_def)
  then have "xor_bytes (take (16 * ?n) input @ drop (16 * ?n) input) (ctr_blocks E iv 0 ?n @ take ?l ?last) =
      xor_bytes (take (16 * ?n) input) (ctr_blocks E iv 0 ?n) @ xor_bytes (drop (16 * ?n) input) (take ?l ?last)"
    by (intro xor_bytes_append) (simp add: le)
  moreover have "xor_bytes (drop (16 * ?n) input) (take ?l ?last) = xor_bytes (drop (16 * ?n) input) ?last"
    using xor_bytes_take [of "drop (16 * ?n) input" ?last] by (simp add: minus_mult_div_eq_mod)
  ultimately have "xor_bytes input (ctr_keystream E iv (length input)) =
      xor_bytes (take (16 * ?n) input) (ctr_blocks E iv 0 ?n) @ xor_bytes ?last (drop (16 * ?n) input)"
    by (simp add: keystream_parts [OF assms(1,2)] xor_bytes_comm [of ?last])
  moreover have "?l = 0 \<Longrightarrow> drop (16 * ?n) input = []"
    by auto
  moreover obtain iv' where "ctr_xor_blocks aes c ?n 0 input iv =
      Some (xor_bytes (take (16 * ?n) input) (ctr_blocks E iv 0 ?n), iv', of_nat ?n)" "same_iv iv iv'"
    using ctr_xor_blocks_eq [OF assms(1,2) le, of 0] by auto
  ultimately show ?thesis
    using assms n by (auto simp: ctr_encrypt_to_def runs_def Let_def same_iv_def xor_bytes_def)
qed


section \<open>The F8 key stream\<close>

definition f8_next :: "byte list \<Rightarrow> byte list \<Rightarrow> u32 \<Rightarrow> byte list" where
  "f8_next S iva J = (let S = xor_bytes S iva in memcpy_at S 12 (xor_bytes (take 4 (drop 12 S)) (be32 J)))"

fun f8_stream :: "(byte list \<Rightarrow> byte list) \<Rightarrow> byte list \<Rightarrow> byte list \<Rightarrow> u32 \<Rightarrow> nat \<Rightarrow> byte list" where
  "f8_stream E iva S J 0 = []"
| "f8_stream E iva S J (Suc n) = E (f8_next S iva J) @ f8_stream E iva (E (f8_next S iva J)) (J + 1) n"

lemma length_f8_next [simp]: "length S = 16 \<Longrightarrow> length iva = 16 \<Longrightarrow> length (f8_next S iva J) = 16"
  by (simp add: f8_next_def Let_def be32_def)

lemma processBlock_eq:
  assumes "runs aes c E" "length (f8_S x) = 16" "length (ivAccent x) = 16"
  shows "processBlock aes c x inp =
    Some (xor_bytes inp (E (f8_next (f8_S x) (ivAccent x) (f8_J x))),
      x\<lparr>f8_J := f8_J x + 1, f8_S := E (f8_next (f8_S x) (ivAccent x) (f8_J x))\<rparr>)"
  using assms length_f8_next [of "f8_S x" "ivAccent x" "f8_J x"]
  by (simp add: processBlock_def runs_def Let_def f8_next_def)

lemma f8_loop_eq:
  assumes "runs aes c E"
  shows "length (f8_S x) = 16 \<Longrightarrow> length (ivAccent x) = 16 \<Longrightarrow> length inp \<le> 16 * n \<Longrightarrow>
    f8_loop aes c x inp = Some (xor_bytes inp (f8_stream E (ivAccent x) (f8_S x) (f8_J x) n))"
proof (induction n arbitrary: x inp)
  case 0
  then show ?case by (subst f8_loop.simps) (simp add: xor_bytes_def)
next
  case (Suc n)
  let ?S = "E (f8_next (f8_S x) (ivAccent x) (f8_J x))"
  let ?x = "x\<lparr>f8_J := f8_J x + 1, f8_S := ?S\<rparr>"
  have S: "length ?S = 16" using Suc.prems assms by (simp add: runs_def)
  note step = processBlock_eq [OF assms Suc.prems(1,2)]
  show ?case
  proof (cases "16 \<le> length inp")
    case True
    have "xor_bytes inp (f8_stream E (ivAccent x) (f8_S x) (f8_J x) (Suc n)) =
        xor_bytes (take 16 inp @ drop 16 inp) (?S @ f8_stream E (ivAccent x) ?S (f8_J x + 1) n)"
      by simp
    also have "\<dots> = xor_bytes (take 16 inp) ?S @ xor_bytes (drop 16 inp) (f8_stream E (ivAccent x) ?S (f8_J x + 1) n)"
      using True S by (intro xor_bytes_append) simp
    finally show ?thesis
      using Suc.IH [of ?x "drop 16 inp"] Suc.prems S True step by (subst f8_loop.simps) simp
  next
    case False
    have "xor_bytes inp (?S @ r) = xor_bytes inp ?S" for r
      using xor_bytes_take [of inp "?S @ r"] xor_bytes_take [of inp ?S] False S by simp
    then show ?thesis
      using False step by (subst f8_loop.simps) (simp add: xor_bytes_def)
  qed
qed

lemma length_f8_stream:
  assumes "runs aes c E"
  shows "length S = 16 \<Longrightarrow> length iva = 16 \<Longrightarrow> length (f8_stream E iva S J n) = 16 * n"
  using assms by (induction n arbitrary: S J) (simp_all add: runs_def)

section \<open>Cipher objects with a key\<close>

lemma runs_twofish:
  "is_twofish (algorithm c) \<Longrightarrow> skey c = KeyTwofish k \<Longrightarrow> runs aes c (Twofish_encrypt k)"
  by (auto simp: runs_def encrypt_def is_aes_def is_twofish_def)

lemma runs_aes:
  assumes "block_cipher (AES_encrypt aes)" "is_aes (algorithm c)" "skey c = KeyAes k"
  shows "runs aes c (AES_encrypt aes k)"
  using assms by (auto simp: runs_def encrypt_def is_aes_def block_cipher_def)

lemma setNewKey_runs:
  assumes "block_cipher (AES_encrypt aes)" "setNewKey aes env c k n = Some (True, env', c')"
  shows "\<exists>E. runs aes c' E" "algorithm c' = algorithm c"
proof -
  have "(is_aes (algorithm c') \<and> (\<exists>k. skey c' = KeyAes k) \<or>
      is_twofish (algorithm c') \<and> (\<exists>k. skey c' = KeyTwofish k)) \<and> algorithm c' = algorithm c"
    using assms(2)
    by (auto simp: setNewKey_def Let_def split: if_splits option.splits Option.bind_splits)
  then show "\<exists>E. runs aes c' E" "algorithm c' = algorithm c"
    using runs_aes [OF assms(1)] runs_twofish by blast+
qed

section \<open>Properties\<close>

text \<open>
  Counter mode. With a key set successfully (and an AES library whose blocks have sixteen
  bytes), encrypting any data shorter than a mebibyte succeeds, the result is the data xored with
  the stream that \<^verbatim>\<open>get_ctr_cipher_stream\<close> generates for the same vector, and encrypting the
  result again with the same vector gives the data back.
\<close>
theorem ctr_encrypt_involution:
  assumes "block_cipher (AES_encrypt aes)" "setNewKey aes env c0 k n = Some (True, env', c)"
    "length iv = 16" "length data < 2 ^ 20"
  shows "\<exists>ks ct iv1 iv2 iv3.
    get_ctr_cipher_stream aes c out (length data) iv = Some (ks, iv1) \<and>
    ctr_encrypt aes c data iv = Some (ct, iv2) \<and> ct = xor_bytes data ks \<and>
    length ct = length data \<and> ctr_encrypt aes c ct iv = Some (data, iv3)"
proof -
  obtain E where E: "runs aes c E" using setNewKey_runs [OF assms(1,2)] by blast
  let ?ks = "ctr_keystream E iv (length data)"
  have len: "length ?ks = length data" by (rule length_keystream [OF E assms(3)])
  obtain iv1 where "get_ctr_cipher_stream aes c out (length data) iv = Some (?ks, iv1)"
    using get_ctr_cipher_stream_eq [OF E assms(3,4)] by blast
  moreover obtain iv2 where "ctr_encrypt aes c data iv = Some (xor_bytes data ?ks, iv2)"
    using ctr_encrypt_to_eq [OF E assms(3,4)] unfolding ctr_encrypt_def by blast
  moreover obtain iv3 where "ctr_encrypt aes c (xor_bytes data ?ks) iv = Some (data, iv3)"
    using ctr_encrypt_to_eq [OF E assms(3), of "xor_bytes data ?ks" "xor_bytes data ?ks"] len assms(4)
    by (auto simp: ctr_encrypt_def xor_bytes_cancel)
  ultimately show ?thesis using len by auto
qed

definition sample_aes :: "byte list aes_lib" where
  "sample_aes = \<lparr>AES_set_encrypt_key = \<lambda>k n. k, AES_encrypt = \<lambda>k b. xor_bytes b (take 16 (k @ replicate 16 0))\<rparr>"

lemma sample_aes_block_cipher: "block_cipher (AES_encrypt sample_aes)"
  by (simp add: block_cipher_def sample_aes_def)

definition sample_env :: tf_env where
  "sample_env = \<lparr>tf_state = \<lparr>q_table = [], MDS_table = [], Twofish_initialised = False\<rparr>, twoFishInit = False\<rparr>"

theorem ctr_encrypt_involution_witness:
  "\<exists>ks ct iv1 iv2 iv3 c.
    setNewKey sample_aes sample_env (newSrtpSymCrypto SrtpEncryptionAESCM) (replicate 16 5) 16 = Some (True, sample_env, c) \<and>
    get_ctr_cipher_stream sample_aes c [] (length [7, 8, 9 :: byte]) (replicate 16 1) = Some (ks, iv1) \<and>
    ctr_encrypt sample_aes c [7, 8, 9] (replicate 16 1) = Some (ct, iv2) \<and> ct = xor_bytes [7, 8, 9] ks \<and>
    length ct = length [7, 8, 9 :: byte] \<and> ctr_encrypt sample_aes c ct (replicate 16 1) = Some ([7, 8, 9], iv3)"
proof -
  let ?c = "\<lparr>skey = KeyAes (replicate 16 5), algorithm = SrtpEncryptionAESCM\<rparr>"
  have "setNewKey sample_aes sample_env (newSrtpSymCrypto SrtpEncryptionAESCM) (replicate 16 5) 16 = Some (True, sample_env, ?c)"
    by (simp add: setNewKey_def newSrtpSymCrypto_def is_aes_def sample_aes_def)
  moreover have "length (replicate 16 (1 :: byte)) = 16" "length [7, 8, 9 :: byte] < 2 ^ 20" by simp_all
  ultimately show ?thesis
    using ctr_encrypt_involution [OF sample_aes_block_cipher, of sample_env
        "newSrtpSymCrypto SrtpEncryptionAESCM" "replicate 16 5" 16 sample_env ?c "replicate 16 1" "[7, 8, 9]" "[]"]
    by blast
qed

text \<open>
  F8 mode. With both cipher objects keyed, encrypting any data succeeds, keeps its length, and
  encrypting the result again with the same vector gives the data back.
\<close>
theorem f8_encrypt_involution:
  assumes "block_cipher (AES_encrypt aes)" "setNewKey aes env c0 k n = Some (True, env1, c)"
    "setNewKey aes env1 f0 k' n' = Some (True, env2, f8)" "length iv = 16"
  shows "\<exists>ct. f8_encrypt aes c data iv f8 = Some ct \<and> length ct = length data \<and>
    f8_encrypt aes c ct iv f8 = Some data"
proof -
  obtain E where E: "runs aes c E" using setNewKey_runs [OF assms(1,2)] by blast
  obtain F where F: "runs aes f8 F" using setNewKey_runs [OF assms(1,3)] by blast
  let ?n = "length data" and ?x = "\<lparr>f8_S = replicate 16 0, ivAccent = F iv, f8_J = 0\<rparr>"
  let ?ks = "f8_stream E (F iv) (replicate 16 0) 0 ?n"
  have iva: "length (F iv) = 16" using F assms(4) by (simp add: runs_def)
  have f8: "f8_encrypt aes c d iv f8 = f8_loop aes c ?x d" for d
    using E F assms(4) by (simp add: f8_encrypt_def f8_encrypt_to_def runs_def)
  have loop: "length d = ?n \<Longrightarrow> f8_encrypt aes c d iv f8 = Some (xor_bytes d ?ks)" for d
    using f8_loop_eq [OF E, of ?x d ?n] iva by (simp add: f8)
  have "?n \<le> length ?ks" using length_f8_stream [OF E, of "replicate 16 0" "F iv"] iva by simp
  then show ?thesis using loop [of data] loop [of "xor_bytes data ?ks"] by (simp add: xor_bytes_cancel)
qed

theorem f8_encrypt_involution_witness:
  "\<exists>c f8 ct.
    setNewKey sample_aes sample_env (newSrtpSymCrypto SrtpEncryptionAESCM) (replicate 16 5) 16 = Some (True, sample_env, c) \<and>
    setNewKey sample_aes sample_env (newSrtpSymCrypto SrtpEncryptionAESF8) (replicate 16 6) 16 = Some (True, sample_env, f8) \<and>
    f8_encrypt sample_aes c [7, 8, 9] (replicate 16 1) f8 = Some ct \<and> length ct = 3 \<and>
    f8_encrypt sample_aes c ct (replicate 16 1) f8 = Some [7, 8, 9]"
proof -
  let ?c = "\<lparr>skey = KeyAes (replicate 16 5), algorithm = SrtpEncryptionAESCM\<rparr>"
  let ?f = "\<lparr>skey = KeyAes (replicate 16 6), algorithm = SrtpEncryptionAESF8\<rparr>"
  have 1: "setNewKey sample_aes sample_env (newSrtpSymCrypto SrtpEncryptionAESCM) (replicate 16 5) 16 = Some (True, sample_env, ?c)"
    and 2: "setNewKey sample_aes sample_env (newSrtpSymCrypto SrtpEncryptionAESF8) (replicate 16 6) 16 = Some (True, sample_env, ?f)"
    by (simp_all add: setNewKey_def newSrtpSymCrypto_def is_aes_def sample_aes_def)
  have "length (replicate 16 (1 :: byte)) = 16" by simp
  from f8_encrypt_involution [OF sample_aes_block_cipher 1 2 this, of "[7, 8, 9]"] obtain ct where
    "f8_encrypt sample_aes ?c [7, 8, 9] (replicate 16 1) ?f = Some ct" "length ct = length [7, 8, 9 :: byte]"
    "f8_encrypt sample_aes ?c ct (replicate 16 1) ?f = Some [7, 8, 9]" by blast
  then show ?thesis using 1 2 by auto
qed

text \<open>
  Setting a key of an unsupported length on an object that already has one frees the old key
  but keeps the pointer: the call reports failure, and the next encryption of any data reads the
  freed key.
\<close>
theorem setNewKey_bad_length:
  assumes "skey c \<noteq> KeyNull" "n \<noteq> 16" "n \<noteq> 32" "algorithm c \<noteq> SrtpEncryptionNull" "data \<noteq> []"
  shows "\<exists>c'. setNewKey aes env c k n = Some (False, env, c') \<and> skey c' = KeyFreed \<and>
    ctr_encrypt aes c' data iv = None"
proof -
  let ?c = "c\<lparr>skey := KeyFreed\<rparr>"
  have e: "encrypt aes ?c i out = None" for i out
    using assms(4) by (cases "algorithm c") (simp_all add: encrypt_def is_aes_def is_twofish_def)
  have "length data mod 16 = 0 \<Longrightarrow> length data div 16 \<noteq> 0"
    using assms(5) by (metis length_0_conv mod_less div_eq_0_iff zero_neq_numeral)
  then have "ctr_encrypt aes ?c data iv = None"
    by (cases "length data div 16") (auto simp: ctr_encrypt_def ctr_encrypt_to_def e Let_def)
  then show ?thesis using assms by (simp add: setNewKey_def)
qed

theorem setNewKey_bad_length_witness:
  "\<exists>c'. setNewKey sample_aes sample_env \<lparr>skey = KeyAes [1], algorithm = SrtpEncryptionAESCM\<rparr> [] 24 = Some (False, sample_env, c') \<and>
    skey c' = KeyFreed \<and> ctr_encrypt sample_aes c' [1] (replicate 16 0) = None"
  using setNewKey_bad_length [of "\<lparr>skey = KeyAes [1], algorithm = SrtpEncryptionAESCM\<rparr>" 24 "[1]" sample_aes sample_env "[]" "replicate 16 0"]
  by simp

end
