(* ===== verification/Skein_Block.thy ===== *)
theory Skein_Block
  imports Ccrtp_Prelude
begin

text \<open>
  The Threefish block functions of Skein: \<^verbatim>\<open>src/src/ccrtp/crypto/skein_block.c\<close> with the
  constants of \<^verbatim>\<open>skein.h\<close> and the byte order functions of \<^verbatim>\<open>skein_port.h\<close>, in the default
  configuration (\<^verbatim>\<open>SKEIN_LOOP = 001\<close>: the 256 and 512 bit functions are unrolled with key words
  selected modulo the schedule length, the 1024 bit function loops over a rotating key schedule
  that shares its array with the tweak schedule). The three context types differ only in the
  lengths of their arrays and are one record.
\<close>

section \<open>Constants, byte order and the context\<close>

definition SKEIN_T1_FLAG_FIRST :: u64 where "SKEIN_T1_FLAG_FIRST = push_bit 62 1"
definition SKEIN_T1_FLAG_FINAL :: u64 where "SKEIN_T1_FLAG_FINAL = push_bit 63 1"
definition SKEIN_T1_FLAG_BIT_PAD :: u64 where "SKEIN_T1_FLAG_BIT_PAD = push_bit 55 1"

definition SKEIN_T1_BLK_TYPE_KEY :: u64 where "SKEIN_T1_BLK_TYPE_KEY = push_bit 56 0"
definition SKEIN_T1_BLK_TYPE_CFG :: u64 where "SKEIN_T1_BLK_TYPE_CFG = push_bit 56 4"
definition SKEIN_T1_BLK_TYPE_MSG :: u64 where "SKEIN_T1_BLK_TYPE_MSG = push_bit 56 48"
definition SKEIN_T1_BLK_TYPE_OUT :: u64 where "SKEIN_T1_BLK_TYPE_OUT = push_bit 56 63"

definition SKEIN_T1_BLK_TYPE_CFG_FINAL :: u64 where
  "SKEIN_T1_BLK_TYPE_CFG_FINAL = SKEIN_T1_BLK_TYPE_CFG OR SKEIN_T1_FLAG_FINAL"
definition SKEIN_T1_BLK_TYPE_OUT_FINAL :: u64 where
  "SKEIN_T1_BLK_TYPE_OUT_FINAL = SKEIN_T1_BLK_TYPE_OUT OR SKEIN_T1_FLAG_FINAL"

definition SKEIN_MK_64 :: "u64 \<Rightarrow> u64 \<Rightarrow> u64" where
  "SKEIN_MK_64 hi32 lo32 = lo32 + push_bit 32 hi32"

definition SKEIN_SCHEMA_VER :: u64 where "SKEIN_SCHEMA_VER = SKEIN_MK_64 1 0x33414853"
definition SKEIN_KS_PARITY :: u64 where "SKEIN_KS_PARITY = SKEIN_MK_64 0x1BD11BDA 0xA9FC1A22"

definition SKEIN_CFG_TREE_INFO :: "u64 \<Rightarrow> u64 \<Rightarrow> u64 \<Rightarrow> u64" where
  "SKEIN_CFG_TREE_INFO leaf node maxLvl = leaf OR push_bit 8 node OR push_bit 16 maxLvl"

definition SKEIN_CFG_TREE_INFO_SEQUENTIAL :: u64 where
  "SKEIN_CFG_TREE_INFO_SEQUENTIAL = SKEIN_CFG_TREE_INFO 0 0 0"

definition RotL_64 :: "u64 \<Rightarrow> nat \<Rightarrow> u64" where
  "RotL_64 x N = push_bit N x OR drop_bit (64 - N) x"

definition get64 :: "byte list \<Rightarrow> nat \<Rightarrow> u64" where
  "get64 src n = ucast (src ! n) + push_bit 8 (ucast (src ! (n + 1)))
     + push_bit 16 (ucast (src ! (n + 2))) + push_bit 24 (ucast (src ! (n + 3)))
     + push_bit 32 (ucast (src ! (n + 4))) + push_bit 40 (ucast (src ! (n + 5)))
     + push_bit 48 (ucast (src ! (n + 6))) + push_bit 56 (ucast (src ! (n + 7)))"

definition Skein_Get64_LSB_First :: "byte list \<Rightarrow> nat \<Rightarrow> u64 list" where
  "Skein_Get64_LSB_First src wCnt = map (\<lambda>i. get64 src (8 * i)) [0..<wCnt]"

definition Skein_Put64_LSB_First :: "u64 list \<Rightarrow> nat \<Rightarrow> byte list" where
  "Skein_Put64_LSB_First src bCnt = map (\<lambda>n. ucast (drop_bit (8 * (n mod 8)) (src ! (n div 8)))) [0..<bCnt]"

record Skein_Ctxt =
  hashBitLen :: u64
  bCnt :: nat
  tweak0 :: u64
  tweak1 :: u64
  chainX :: "u64 list"
  partial_buf :: "byte list"

definition Skein_Start_New_Type :: "Skein_Ctxt \<Rightarrow> u64 \<Rightarrow> Skein_Ctxt" where
  "Skein_Start_New_Type ctx ty =
     ctx\<lparr>tweak0 := 0, tweak1 := SKEIN_T1_FLAG_FIRST OR ty, bCnt := 0\<rparr>"

section \<open>Rounds\<close>

text \<open>One mixing step: \<^verbatim>\<open>Xp += Xq; Xq = RotL_64(Xq,rot); Xq ^= Xp\<close>.\<close>

definition skein_mix :: "nat \<Rightarrow> nat \<Rightarrow> nat \<Rightarrow> u64 list \<Rightarrow> u64 list" where
  "skein_mix p q rot X =
     (let X = X[p := X ! p + X ! q];
          X = X[q := RotL_64 (X ! q) rot]
      in X[q := X ! q XOR X ! p])"

definition Round256 :: "nat \<Rightarrow> nat \<Rightarrow> nat \<Rightarrow> nat \<Rightarrow> nat \<times> nat \<Rightarrow> u64 list \<Rightarrow> u64 list" where
  "Round256 p0 p1 p2 p3 rot X = skein_mix p2 p3 (snd rot) (skein_mix p0 p1 (fst rot) X)"

definition I256 :: "u64 list \<Rightarrow> u64 list \<Rightarrow> nat \<Rightarrow> u64 list \<Rightarrow> u64 list" where
  "I256 ks ts R X =
     [X ! 0 + ks ! ((R + 1) mod 5),
      X ! 1 + (ks ! ((R + 2) mod 5) + ts ! ((R + 1) mod 3)),
      X ! 2 + (ks ! ((R + 3) mod 5) + ts ! ((R + 2) mod 3)),
      X ! 3 + (ks ! ((R + 4) mod 5) + of_nat R + 1)]"

definition R256_8_rounds :: "u64 list \<Rightarrow> u64 list \<Rightarrow> nat \<Rightarrow> u64 list \<Rightarrow> u64 list" where
  "R256_8_rounds ks ts R X =
     (let X = Round256 0 1 2 3 (14, 16) X;
          X = Round256 0 3 2 1 (52, 57) X;
          X = Round256 0 1 2 3 (23, 40) X;
          X = Round256 0 3 2 1 (5, 37) X;
          X = I256 ks ts (2 * R) X;
          X = Round256 0 1 2 3 (25, 33) X;
          X = Round256 0 3 2 1 (46, 12) X;
          X = Round256 0 1 2 3 (58, 22) X;
          X = Round256 0 3 2 1 (32, 32) X
      in I256 ks ts (2 * R + 1) X)"

text \<open>
  The body of the block loop: from the chaining words, the three tweak words and the input words to
  the new chaining words. \<open>72 / 8 = 9\<close> calls of the eight-round macro.
\<close>

definition skein_256_compress :: "u64 list \<Rightarrow> u64 list \<Rightarrow> u64 list \<Rightarrow> u64 list" where
  "skein_256_compress cX ts w =
     (let ks = cX @ [cX ! 0 XOR cX ! 1 XOR cX ! 2 XOR cX ! 3 XOR SKEIN_KS_PARITY];
          X = [w ! 0 + ks ! 0, w ! 1 + ks ! 1 + ts ! 0, w ! 2 + ks ! 2 + ts ! 1, w ! 3 + ks ! 3];
          X = foldl (\<lambda>X R. R256_8_rounds ks ts R X) X [0..<9]
      in [X ! 0 XOR w ! 0, X ! 1 XOR w ! 1, X ! 2 XOR w ! 2, X ! 3 XOR w ! 3])"

type_synonym rot4 = "nat \<times> nat \<times> nat \<times> nat"

fun Round512 ::
  "nat \<Rightarrow> nat \<Rightarrow> nat \<Rightarrow> nat \<Rightarrow> nat \<Rightarrow> nat \<Rightarrow> nat \<Rightarrow> nat \<Rightarrow> rot4 \<Rightarrow> u64 list \<Rightarrow> u64 list" where
  "Round512 p0 p1 p2 p3 p4 p5 p6 p7 (r0, r1, r2, r3) X =
     skein_mix p6 p7 r3 (skein_mix p4 p5 r2 (skein_mix p2 p3 r1 (skein_mix p0 p1 r0 X)))"

definition I512 :: "u64 list \<Rightarrow> u64 list \<Rightarrow> nat \<Rightarrow> u64 list \<Rightarrow> u64 list" where
  "I512 ks ts R X =
     [X ! 0 + ks ! ((R + 1) mod 9),
      X ! 1 + ks ! ((R + 2) mod 9),
      X ! 2 + ks ! ((R + 3) mod 9),
      X ! 3 + ks ! ((R + 4) mod 9),
      X ! 4 + ks ! ((R + 5) mod 9),
      X ! 5 + (ks ! ((R + 6) mod 9) + ts ! ((R + 1) mod 3)),
      X ! 6 + (ks ! ((R + 7) mod 9) + ts ! ((R + 2) mod 3)),
      X ! 7 + (ks ! ((R + 8) mod 9) + of_nat R + 1)]"

definition R512_8_rounds :: "u64 list \<Rightarrow> u64 list \<Rightarrow> nat \<Rightarrow> u64 list \<Rightarrow> u64 list" where
  "R512_8_rounds ks ts R X =
     (let X = Round512 0 1 2 3 4 5 6 7 (46, 36, 19, 37) X;
          X = Round512 2 1 4 7 6 5 0 3 (33, 27, 14, 42) X;
          X = Round512 4 1 6 3 0 5 2 7 (17, 49, 36, 39) X;
          X = Round512 6 1 0 7 2 5 4 3 (44, 9, 54, 56) X;
          X = I512 ks ts (2 * R) X;
          X = Round512 0 1 2 3 4 5 6 7 (39, 30, 34, 24) X;
          X = Round512 2 1 4 7 6 5 0 3 (13, 50, 10, 17) X;
          X = Round512 4 1 6 3 0 5 2 7 (25, 29, 39, 43) X;
          X = Round512 6 1 0 7 2 5 4 3 (8, 35, 56, 22) X
      in I512 ks ts (2 * R + 1) X)"

definition skein_512_compress :: "u64 list \<Rightarrow> u64 list \<Rightarrow> u64 list \<Rightarrow> u64 list" where
  "skein_512_compress cX ts w =
     (let ks = cX @ [cX ! 0 XOR cX ! 1 XOR cX ! 2 XOR cX ! 3 XOR cX ! 4 XOR cX ! 5 XOR cX ! 6
                XOR cX ! 7 XOR SKEIN_KS_PARITY];
          X = [w ! 0 + ks ! 0, w ! 1 + ks ! 1, w ! 2 + ks ! 2, w ! 3 + ks ! 3, w ! 4 + ks ! 4,
               w ! 5 + ks ! 5 + ts ! 0, w ! 6 + ks ! 6 + ts ! 1, w ! 7 + ks ! 7];
          X = foldl (\<lambda>X R. R512_8_rounds ks ts R X) X [0..<9]
      in [X ! 0 XOR w ! 0, X ! 1 XOR w ! 1, X ! 2 XOR w ! 2, X ! 3 XOR w ! 3,
          X ! 4 XOR w ! 4, X ! 5 XOR w ! 5, X ! 6 XOR w ! 6, X ! 7 XOR w ! 7])"

fun Round1024 :: "nat list \<Rightarrow> nat list \<Rightarrow> u64 list \<Rightarrow> u64 list" where
  "Round1024 (p # q # ps) (r # rs) X = Round1024 ps rs (skein_mix p q r X)"
| "Round1024 _ _ X = X"

text \<open>
  Key injection in the looping configuration. \<^verbatim>\<open>ts\<close> is \<^verbatim>\<open>kw\<close> and \<^verbatim>\<open>ks\<close> is \<^verbatim>\<open>kw + 3\<close>; \<open>d\<close> is
  \<^verbatim>\<open>r + (R)\<close>. After the additions the oldest key word moves seventeen places up and the oldest tweak
  word takes the place that became free.
\<close>

fun I1024 :: "nat \<Rightarrow> u64 list \<times> u64 list \<Rightarrow> u64 list \<times> u64 list" where
  "I1024 d (X, kw) =
     (let X = map (\<lambda>i. X ! i + kw ! (3 + d + i)) [0..<13] @
              [X ! 13 + (kw ! (3 + d + 13) + kw ! d),
               X ! 14 + (kw ! (3 + d + 14) + kw ! (d + 1)),
               X ! 15 + (kw ! (3 + d + 15) + of_nat d)];
          kw = kw[3 + d + 16 := kw ! (3 + d - 1)];
          kw = kw[d + 2 := kw ! (d - 1)]
      in (X, kw))"

text \<open>Key injection in the unrolled configuration.\<close>

definition I1024_unrolled :: "u64 list \<Rightarrow> u64 list \<Rightarrow> nat \<Rightarrow> u64 list \<Rightarrow> u64 list" where
  "I1024_unrolled ks ts R X =
     map (\<lambda>i. X ! i + ks ! ((R + 1 + i) mod 17)) [0..<13] @
     [X ! 13 + (ks ! ((R + 14) mod 17) + ts ! ((R + 1) mod 3)),
      X ! 14 + (ks ! ((R + 15) mod 17) + ts ! ((R + 2) mod 3)),
      X ! 15 + (ks ! ((R + 16) mod 17) + of_nat R + 1)]"

definition R1024_rounds_even :: "u64 list \<Rightarrow> u64 list" where
  "R1024_rounds_even X =
     (let X = Round1024 [0,1,2,3,4,5,6,7,8,9,10,11,12,13,14,15] [24,13,8,47,8,17,22,37] X;
          X = Round1024 [0,9,2,13,6,11,4,15,10,7,12,3,14,5,8,1] [38,19,10,55,49,18,23,52] X;
          X = Round1024 [0,7,2,5,4,3,6,1,12,15,14,13,8,11,10,9] [33,4,51,13,34,41,59,17] X
      in Round1024 [0,15,2,11,6,13,4,9,14,1,8,5,10,3,12,7] [5,20,48,41,47,28,16,25] X)"

definition R1024_rounds_odd :: "u64 list \<Rightarrow> u64 list" where
  "R1024_rounds_odd X =
     (let X = Round1024 [0,1,2,3,4,5,6,7,8,9,10,11,12,13,14,15] [41,9,37,31,12,47,44,30] X;
          X = Round1024 [0,9,2,13,6,11,4,15,10,7,12,3,14,5,8,1] [16,34,56,51,4,53,42,41] X;
          X = Round1024 [0,7,2,5,4,3,6,1,12,15,14,13,8,11,10,9] [31,44,47,46,19,42,44,25] X
      in Round1024 [0,15,2,11,6,13,4,9,14,1,8,5,10,3,12,7] [9,48,35,52,23,31,37,20] X)"

text \<open>The macro as the loop body uses it, with \<open>R = 0\<close> and the loop variable \<open>r\<close>.\<close>

fun R1024_8_rounds :: "nat \<Rightarrow> u64 list \<times> u64 list \<Rightarrow> u64 list \<times> u64 list" where
  "R1024_8_rounds r (X, kw) =
     (let (X, kw) = I1024 r (R1024_rounds_even X, kw)
      in I1024 (r + 1) (R1024_rounds_odd X, kw))"

definition R1024_8_rounds_unrolled :: "u64 list \<Rightarrow> u64 list \<Rightarrow> nat \<Rightarrow> u64 list \<Rightarrow> u64 list" where
  "R1024_8_rounds_unrolled ks ts R X =
     (let X = I1024_unrolled ks ts (2 * R) (R1024_rounds_even X)
      in I1024_unrolled ks ts (2 * R + 1) (R1024_rounds_odd X))"

definition skein1024_ks :: "u64 list \<Rightarrow> u64 list" where
  "skein1024_ks cX = cX @ [foldl (XOR) (hd cX) (tl cX) XOR SKEIN_KS_PARITY]"

definition skein1024_first :: "u64 list \<Rightarrow> u64 list \<Rightarrow> u64 list \<Rightarrow> u64 list" where
  "skein1024_first ks ts w =
     map (\<lambda>i. w ! i + ks ! i) [0..<13] @
     [w ! 13 + ks ! 13 + ts ! 0, w ! 14 + ks ! 14 + ts ! 1, w ! 15 + ks ! 15]"

text \<open>
  The loop \<^verbatim>\<open>for (r=1;r <= 2*RCNT;r+=2)\<close> with \<open>RCNT = 80 / 8\<close>. The last twenty words of \<^verbatim>\<open>kw\<close>
  are uninitialised before the loop writes them; they start as \<open>tail\<close> here.
\<close>

definition skein1024_compress :: "u64 list \<Rightarrow> u64 list \<Rightarrow> u64 list \<Rightarrow> u64 list \<Rightarrow> u64 list" where
  "skein1024_compress tail cX ts w =
     (let ks = skein1024_ks cX;
          kw = ts @ ks @ tail;
          X = skein1024_first ks ts w;
          (X, kw) = foldl (\<lambda>s i. R1024_8_rounds (2 * i + 1) s) (X, kw) [0..<10]
      in map2 (XOR) X w)"

definition skein1024_compress_unrolled :: "u64 list \<Rightarrow> u64 list \<Rightarrow> u64 list \<Rightarrow> u64 list" where
  "skein1024_compress_unrolled cX ts w =
     (let ks = skein1024_ks cX;
          X = skein1024_first ks ts w;
          X = foldl (\<lambda>X R. R1024_8_rounds_unrolled ks ts R X) X [0..<10]
      in map2 (XOR) X w)"

section \<open>Block processing\<close>

text \<open>
  One pass of the \<^verbatim>\<open>do ... while (--blkCnt)\<close> loop and the loop, for a state of \<open>W\<close> words and a body
  \<open>cf\<close>. The loop is never entered with \<^verbatim>\<open>blkCnt = 0\<close> (the code asserts it).
\<close>

type_synonym skein_comp = "u64 list \<Rightarrow> u64 list \<Rightarrow> u64 list \<Rightarrow> u64 list"

definition skein_block_step ::
  "nat \<Rightarrow> skein_comp \<Rightarrow> Skein_Ctxt \<Rightarrow> byte list \<Rightarrow> u64 \<Rightarrow> Skein_Ctxt" where
  "skein_block_step W cf ctx blkPtr byteCntAdd =
     (let t0 = tweak0 ctx + byteCntAdd; t1 = tweak1 ctx;
          w = Skein_Get64_LSB_First blkPtr W
      in ctx\<lparr>chainX := cf (chainX ctx) [t0, t1, t0 XOR t1] w,
             tweak0 := t0, tweak1 := t1 AND NOT SKEIN_T1_FLAG_FIRST\<rparr>)"

fun Skein_Process_Block ::
  "nat \<Rightarrow> skein_comp \<Rightarrow> Skein_Ctxt \<Rightarrow> byte list \<Rightarrow> nat \<Rightarrow> u64 \<Rightarrow> Skein_Ctxt" where
  "Skein_Process_Block W cf ctx blkPtr 0 byteCntAdd = ctx"
| "Skein_Process_Block W cf ctx blkPtr (Suc blkCnt) byteCntAdd =
     Skein_Process_Block W cf (skein_block_step W cf ctx blkPtr byteCntAdd)
       (drop (8 * W) blkPtr) blkCnt byteCntAdd"

definition Skein_256_Process_Block :: "Skein_Ctxt \<Rightarrow> byte list \<Rightarrow> nat \<Rightarrow> u64 \<Rightarrow> Skein_Ctxt" where
  "Skein_256_Process_Block = Skein_Process_Block 4 skein_256_compress"

definition Skein_512_Process_Block :: "Skein_Ctxt \<Rightarrow> byte list \<Rightarrow> nat \<Rightarrow> u64 \<Rightarrow> Skein_Ctxt" where
  "Skein_512_Process_Block = Skein_Process_Block 8 skein_512_compress"

definition Skein1024_Process_Block :: "Skein_Ctxt \<Rightarrow> byte list \<Rightarrow> nat \<Rightarrow> u64 \<Rightarrow> Skein_Ctxt" where
  "Skein1024_Process_Block = Skein_Process_Block 16 (skein1024_compress (replicate 20 0))"

section \<open>The rotating key schedule\<close>

text \<open>
  Before injection \<open>d\<close> the array holds the tweak words from position \<open>d - 1\<close> and the key words from
  position \<open>d + 2\<close>, both cyclically.
\<close>

definition kw_inv :: "u64 list \<Rightarrow> u64 list \<Rightarrow> nat \<Rightarrow> u64 list \<Rightarrow> bool" where
  "kw_inv ks ts d kw \<longleftrightarrow> length kw = 40 \<and>
     (\<forall>i<3. kw ! (d - 1 + i) = ts ! ((d - 1 + i) mod 3)) \<and>
     (\<forall>i<17. kw ! (d + 2 + i) = ks ! ((d - 1 + i) mod 17))"

lemma kw_inv_init:
  "length ks = 17 \<Longrightarrow> length ts = 3 \<Longrightarrow> length tail = 20 \<Longrightarrow> kw_inv ks ts 1 (ts @ ks @ tail)"
  by (auto simp: kw_inv_def nth_append)

lemma kw_inv_read:
  assumes "kw_inv ks ts d kw" "1 \<le> d" "i < 16"
  shows "kw ! (3 + d + i) = ks ! ((d + i) mod 17)"
proof -
  have "i + 1 < 17" using assms by simp
  then have "kw ! (d + 2 + (i + 1)) = ks ! ((d - 1 + (i + 1)) mod 17)"
    using assms(1) unfolding kw_inv_def by blast
  moreover have "d + 2 + (i + 1) = 3 + d + i" "d - 1 + (i + 1) = d + i"
    using assms(2) by simp_all
  ultimately show ?thesis by (simp only:)
qed

lemma kw_inv_tweak:
  assumes "kw_inv ks ts d kw" "1 \<le> d" "i < 2"
  shows "kw ! (d + i) = ts ! ((d + i) mod 3)"
proof -
  have "i + 1 < 3" using assms by simp
  then have "kw ! (d - 1 + (i + 1)) = ts ! ((d - 1 + (i + 1)) mod 3)"
    using assms(1) unfolding kw_inv_def by blast
  then show ?thesis
    using assms(2) by simp
qed

lemma kw_inv_rotate:
  assumes "kw_inv ks ts d kw" "1 \<le> d" "d \<le> 20"
  shows "kw_inv ks ts (d + 1) (kw[3 + d + 16 := kw ! (3 + d - 1), d + 2 := kw ! (d - 1)])"
proof -
  let ?kw = "kw[3 + d + 16 := kw ! (3 + d - 1), d + 2 := kw ! (d - 1)]"
  have len: "length kw = 40" and old: "kw ! (d - 1) = ts ! ((d - 1) mod 3)"
    "kw ! (d + 2) = ks ! ((d - 1) mod 17)"
    using assms(1) unfolding kw_inv_def by (auto dest: spec [of _ 0])
  have t: "?kw ! (d + i) = ts ! ((d + i) mod 3)" if "i < 3" for i
  proof (cases "i = 2")
    case True
    have "(d + 2) mod 3 = (d - 1) mod 3"
      using assms(2) by (simp add: mod_eq_dvd_iff_nat)
    then show ?thesis using True len old(1) assms by simp
  next
    case False
    then show ?thesis using kw_inv_tweak [OF assms(1,2), of i] that by simp
  qed
  have k: "?kw ! (d + 3 + i) = ks ! ((d + i) mod 17)" if "i < 17" for i
  proof (cases "i = 16")
    case True
    have "(d + 16) mod 17 = (d - 1) mod 17"
      using assms(2) by (simp add: mod_eq_dvd_iff_nat)
    then show ?thesis using True len old(2) assms by (simp add: ac_simps)
  next
    case False
    then show ?thesis using kw_inv_read [OF assms(1,2), of i] that by (simp add: ac_simps)
  qed
  have "d + 1 - 1 = d" "d + 1 + 2 = d + 3" by simp_all
  with len t k show ?thesis
    unfolding kw_inv_def by (simp only: length_list_update) blast
qed

lemma I1024_eq:
  assumes "kw_inv ks ts d kw" "1 \<le> d" "d \<le> 20"
  shows "\<exists>kw'. I1024 d (X, kw) = (I1024_unrolled ks ts (d - 1) X, kw') \<and> kw_inv ks ts (d + 1) kw'"
proof -
  have d: "d - 1 + 1 = d" "d - 1 + 2 = d + 1" "d - 1 + 14 = d + 13" "d - 1 + 15 = d + 14"
    "d - 1 + 16 = d + 15" "of_nat (d - 1) + 1 = (of_nat d :: u64)"
    using assms(2) by (simp_all add: of_nat_diff)
  have "map (\<lambda>i. X ! i + kw ! (3 + d + i)) [0..<13] = map (\<lambda>i. X ! i + ks ! ((d + i) mod 17)) [0..<13]"
    using kw_inv_read [OF assms(1,2)] by simp
  then have "fst (I1024 d (X, kw)) = I1024_unrolled ks ts (d - 1) X"
    using kw_inv_read [OF assms(1,2), of 13] kw_inv_read [OF assms(1,2), of 14]
      kw_inv_read [OF assms(1,2), of 15] kw_inv_tweak [OF assms(1,2), of 0]
      kw_inv_tweak [OF assms(1,2), of 1]
    unfolding I1024.simps I1024_unrolled_def Let_def d add.assoc fst_conv by simp
  moreover have "snd (I1024 d (X, kw)) = kw[3 + d + 16 := kw ! (3 + d - 1), d + 2 := kw ! (d - 1)]"
    by (simp add: Let_def)
  ultimately show ?thesis
    using kw_inv_rotate [OF assms] by (metis prod.collapse)
qed

lemma R1024_8_rounds_eq:
  assumes "kw_inv ks ts (2 * i + 1) kw" "i < 10"
  shows "\<exists>kw'. R1024_8_rounds (2 * i + 1) (X, kw) = (R1024_8_rounds_unrolled ks ts i X, kw') \<and>
    kw_inv ks ts (2 * Suc i + 1) kw'"
proof -
  obtain kw1 where 1: "I1024 (2 * i + 1) (R1024_rounds_even X, kw) =
      (I1024_unrolled ks ts (2 * i) (R1024_rounds_even X), kw1)" "kw_inv ks ts (2 * i + 2) kw1"
    using I1024_eq [OF assms(1), of "R1024_rounds_even X"] assms(2) by auto
  let ?X = "R1024_rounds_odd (I1024_unrolled ks ts (2 * i) (R1024_rounds_even X))"
  obtain kw2 where 2: "I1024 (2 * i + 2) (?X, kw1) = (I1024_unrolled ks ts (2 * i + 1) ?X, kw2)"
      "kw_inv ks ts (2 * i + 3) kw2"
    using I1024_eq [OF 1(2), of ?X] assms(2) by (auto simp: eval_nat_numeral)
  have "R1024_8_rounds (2 * i + 1) (X, kw) = (R1024_8_rounds_unrolled ks ts i X, kw2)"
    using 1(1) 2(1) by (simp add: R1024_8_rounds_unrolled_def Let_def del: I1024.simps)
  with 2(2) show ?thesis by (simp add: eval_nat_numeral)
qed

lemma R1024_loop_eq:
  assumes "kw_inv ks ts 1 kw" "n \<le> 10"
  shows "\<exists>kw'. foldl (\<lambda>s i. R1024_8_rounds (2 * i + 1) s) (X, kw) [0..<n] =
      (foldl (\<lambda>X R. R1024_8_rounds_unrolled ks ts R X) X [0..<n], kw') \<and> kw_inv ks ts (2 * n + 1) kw'"
  using assms(2)
proof (induction n)
  case (Suc n)
  then obtain kw' where "foldl (\<lambda>s i. R1024_8_rounds (2 * i + 1) s) (X, kw) [0..<n] =
      (foldl (\<lambda>X R. R1024_8_rounds_unrolled ks ts R X) X [0..<n], kw')" "kw_inv ks ts (2 * n + 1) kw'"
    by auto
  with R1024_8_rounds_eq [of ks ts n kw'] Suc.prems show ?case
    by (simp del: R1024_8_rounds.simps)
qed (use assms(1) in simp)

text \<open>
  C30: the looping Threefish-1024 with its rotating key schedule, in which the tweak words
  overwrite the key words that have been used up, computes the same as the unrolled form that
  picks key words modulo 17 and tweak words modulo 3; the uninitialised end of the array has no
  influence.
\<close>
theorem skein1024_loop_eq_unrolled:
  assumes "length cX = 16" "length ts = 3" "length tail = 20"
  shows "skein1024_compress tail cX ts w = skein1024_compress_unrolled cX ts w"
proof -
  have "kw_inv (skein1024_ks cX) ts 1 (ts @ skein1024_ks cX @ tail)"
    using assms by (intro kw_inv_init) (simp_all add: skein1024_ks_def)
  from R1024_loop_eq [OF this order_refl, of "skein1024_first (skein1024_ks cX) ts w"] show ?thesis
    by (auto simp: skein1024_compress_def skein1024_compress_unrolled_def Let_def
        simp del: R1024_8_rounds.simps upt_Suc)
qed

theorem skein1024_loop_eq_unrolled_witness:
  "length (replicate 16 (5 :: u64)) = 16 \<and> length [1, 2, 3 :: u64] = 3 \<and>
   length (replicate 20 (9 :: u64)) = 20 \<and>
   skein1024_compress (replicate 20 9) (replicate 16 5) [1, 2, 3] (replicate 16 7) =
   skein1024_compress_unrolled (replicate 16 5) [1, 2, 3] (replicate 16 7)"
  using skein1024_loop_eq_unrolled [of "replicate 16 5" "[1, 2, 3]" "replicate 20 9" "replicate 16 7"]
  by simp

end
