(* ===== verification/Skein.thy ===== *)
theory Skein
  imports Skein_Block
begin

text \<open>
  The incremental Skein hash of \<^verbatim>\<open>src/src/ccrtp/crypto/skein.c\<close>. The file repeats each function
  for the state sizes 256, 512 and 1024; here each function is defined once for a state of \<open>W\<close> words
  with block body \<open>cf\<close> and then instantiated. Byte counts of buffers and messages are natural
  numbers (they are lengths of objects in memory), the output length and the tweak words are 64 bit
  words. The checks \<^verbatim>\<open>Skein_Assert\<close> are compiled out in this file.
\<close>

definition SKEIN_SUCCESS :: int where "SKEIN_SUCCESS = 0"
definition SKEIN_FAIL :: int where "SKEIN_FAIL = 1"
definition SKEIN_BAD_HASHLEN :: int where "SKEIN_BAD_HASHLEN = 2"

section \<open>Update\<close>

definition skein_finish_buffer ::
  "nat \<Rightarrow> skein_comp \<Rightarrow> Skein_Ctxt \<Rightarrow> byte list \<Rightarrow> Skein_Ctxt \<times> byte list" where
  "skein_finish_buffer W cf ctx msg =
     (if bCnt ctx \<noteq> 0 then
        let n = 8 * W - bCnt ctx;
            (ctx, msg) = (if n \<noteq> 0
               then (ctx\<lparr>partial_buf := memcpy_at (partial_buf ctx) (bCnt ctx) (take n msg),
                         bCnt := bCnt ctx + n\<rparr>, drop n msg)
               else (ctx, msg));
            ctx = Skein_Process_Block W cf ctx (partial_buf ctx) 1 (of_nat (8 * W))
        in (ctx\<lparr>bCnt := 0\<rparr>, msg)
      else (ctx, msg))"

definition skein_direct_blocks ::
  "nat \<Rightarrow> skein_comp \<Rightarrow> Skein_Ctxt \<Rightarrow> byte list \<Rightarrow> Skein_Ctxt \<times> byte list" where
  "skein_direct_blocks W cf ctx msg =
     (if length msg > 8 * W then
        let n = (length msg - 1) div (8 * W);
            ctx = Skein_Process_Block W cf ctx msg n (of_nat (8 * W))
        in (ctx, drop (n * (8 * W)) msg)
      else (ctx, msg))"

definition skein_store_rest :: "Skein_Ctxt \<Rightarrow> byte list \<Rightarrow> Skein_Ctxt" where
  "skein_store_rest ctx msg =
     (if length msg \<noteq> 0 then
        ctx\<lparr>partial_buf := memcpy_at (partial_buf ctx) (bCnt ctx) msg,
            bCnt := bCnt ctx + length msg\<rparr>
      else ctx)"

definition Skein_Update :: "nat \<Rightarrow> skein_comp \<Rightarrow> Skein_Ctxt \<Rightarrow> byte list \<Rightarrow> Skein_Ctxt" where
  "Skein_Update W cf ctx msg =
     (let (ctx, msg) =
        (if length msg + bCnt ctx > 8 * W then
           let (ctx, msg) = skein_finish_buffer W cf ctx msg
           in skein_direct_blocks W cf ctx msg
         else (ctx, msg))
      in skein_store_rest ctx msg)"

section \<open>Final, padding and output\<close>

definition skein_pad :: "nat \<Rightarrow> skein_comp \<Rightarrow> Skein_Ctxt \<Rightarrow> Skein_Ctxt" where
  "skein_pad W cf ctx =
     (let ctx = ctx\<lparr>tweak1 := tweak1 ctx OR SKEIN_T1_FLAG_FINAL\<rparr>;
          ctx = (if bCnt ctx < 8 * W
                 then ctx\<lparr>partial_buf := memcpy_at (partial_buf ctx) (bCnt ctx) (replicate (8 * W - bCnt ctx) 0)\<rparr>
                 else ctx)
      in Skein_Process_Block W cf ctx (partial_buf ctx) 1 (of_nat (bCnt ctx)))"

text \<open>One pass of the output loop and the loop; the bytes written to \<^verbatim>\<open>hashVal\<close> are collected.\<close>

definition skein_output_step ::
  "nat \<Rightarrow> skein_comp \<Rightarrow> u64 list \<Rightarrow> nat \<Rightarrow> nat \<Rightarrow> Skein_Ctxt \<Rightarrow> Skein_Ctxt \<times> byte list" where
  "skein_output_step W cf X byteCnt i ctx =
     (let ctx = ctx\<lparr>partial_buf := memcpy_at (partial_buf ctx) 0 (Skein_Put64_LSB_First [of_nat i] 8)\<rparr>;
          ctx = Skein_Start_New_Type ctx SKEIN_T1_BLK_TYPE_OUT_FINAL;
          ctx = Skein_Process_Block W cf ctx (partial_buf ctx) 1 8;
          n = byteCnt - i * (8 * W);
          n = (if n \<ge> 8 * W then 8 * W else n);
          out = Skein_Put64_LSB_First (chainX ctx) n
      in (ctx\<lparr>chainX := X\<rparr>, out))"

function skein_output_loop ::
  "nat \<Rightarrow> skein_comp \<Rightarrow> u64 list \<Rightarrow> nat \<Rightarrow> nat \<Rightarrow> Skein_Ctxt \<Rightarrow> Skein_Ctxt \<times> byte list" where
  "skein_output_loop W cf X byteCnt i ctx =
     (if W \<noteq> 0 \<and> i * (8 * W) < byteCnt then
        let (ctx, out) = skein_output_step W cf X byteCnt i ctx;
            (ctx, outs) = skein_output_loop W cf X byteCnt (i + 1) ctx
        in (ctx, out @ outs)
      else (ctx, []))"
  by pat_completeness auto
termination
  by (relation "measure (\<lambda>(W, cf, X, byteCnt, i, ctx). byteCnt - i * (8 * W))")
    (auto simp: algebra_simps)

declare skein_output_loop.simps [simp del]

definition Skein_Output :: "nat \<Rightarrow> skein_comp \<Rightarrow> Skein_Ctxt \<Rightarrow> Skein_Ctxt \<times> byte list" where
  "Skein_Output W cf ctx =
     (let byteCnt = unat (drop_bit 3 (hashBitLen ctx + 7));
          ctx = ctx\<lparr>partial_buf := replicate (8 * W) 0\<rparr>
      in skein_output_loop W cf (chainX ctx) byteCnt 0 ctx)"

definition Skein_Final :: "nat \<Rightarrow> skein_comp \<Rightarrow> Skein_Ctxt \<Rightarrow> Skein_Ctxt \<times> byte list" where
  "Skein_Final W cf ctx = Skein_Output W cf (skein_pad W cf ctx)"

definition Skein_Final_Pad :: "nat \<Rightarrow> skein_comp \<Rightarrow> Skein_Ctxt \<Rightarrow> Skein_Ctxt \<times> byte list" where
  "Skein_Final_Pad W cf ctx =
     (let ctx = skein_pad W cf ctx in (ctx, Skein_Put64_LSB_First (chainX ctx) (8 * W)))"

section \<open>Initialisation\<close>

definition skein_config :: "nat \<Rightarrow> skein_comp \<Rightarrow> Skein_Ctxt \<Rightarrow> u64 \<Rightarrow> u64 \<Rightarrow> Skein_Ctxt" where
  "skein_config W cf ctx hbl treeInfo =
     (let cfg = Skein_Put64_LSB_First ([SKEIN_SCHEMA_VER, hbl, treeInfo] @ replicate (W - 3) 0) (8 * W)
      in Skein_Process_Block W cf (Skein_Start_New_Type ctx SKEIN_T1_BLK_TYPE_CFG_FINAL) cfg 1 32)"

definition Skein_Init ::
  "nat \<Rightarrow> skein_comp \<Rightarrow> (u64 \<Rightarrow> u64 list option) \<Rightarrow> Skein_Ctxt \<Rightarrow> u64 \<Rightarrow> Skein_Ctxt" where
  "Skein_Init W cf iv ctx hbl =
     (let ctx = ctx\<lparr>hashBitLen := hbl\<rparr>;
          ctx = (case iv hbl of
                   Some X \<Rightarrow> ctx\<lparr>chainX := X\<rparr>
                 | None \<Rightarrow> skein_config W cf (ctx\<lparr>chainX := replicate W 0\<rparr>) hbl
                     SKEIN_CFG_TREE_INFO_SEQUENTIAL)
      in Skein_Start_New_Type ctx SKEIN_T1_BLK_TYPE_MSG)"

definition skein_key_state :: "nat \<Rightarrow> skein_comp \<Rightarrow> Skein_Ctxt \<Rightarrow> byte list \<Rightarrow> Skein_Ctxt" where
  "skein_key_state W cf ctx key =
     (if length key = 0 then ctx\<lparr>chainX := replicate W 0\<rparr>
      else
        let ctx = ctx\<lparr>hashBitLen := of_nat (8 * (8 * W))\<rparr>;
            ctx = Skein_Start_New_Type ctx SKEIN_T1_BLK_TYPE_KEY;
            ctx = ctx\<lparr>chainX := replicate W 0\<rparr>;
            ctx = Skein_Update W cf ctx key;
            (ctx, cfg) = Skein_Final_Pad W cf ctx
        in ctx\<lparr>chainX := Skein_Get64_LSB_First cfg W\<rparr>)"

definition Skein_InitExt ::
  "nat \<Rightarrow> skein_comp \<Rightarrow> Skein_Ctxt \<Rightarrow> u64 \<Rightarrow> u64 \<Rightarrow> byte list \<Rightarrow> Skein_Ctxt" where
  "Skein_InitExt W cf ctx hbl treeInfo key =
     (let ctx = skein_key_state W cf ctx key;
          ctx = ctx\<lparr>hashBitLen := hbl\<rparr>;
          ctx = skein_config W cf ctx hbl treeInfo
      in Skein_Start_New_Type ctx SKEIN_T1_BLK_TYPE_MSG)"

section \<open>The three state sizes\<close>

definition skein_256_iv :: "u64 \<Rightarrow> u64 list option" where
  "skein_256_iv hbl =
     (if hbl = 256 then Some [SKEIN_MK_64 0xFC9DA860 0xD048B449, SKEIN_MK_64 0x2FCA6647 0x9FA7D833,
                              SKEIN_MK_64 0xB33BC389 0x6656840F, SKEIN_MK_64 0x6A54E920 0xFDE8DA69]
      else if hbl = 224 then Some [SKEIN_MK_64 0xC6098A8C 0x9AE5EA0B, SKEIN_MK_64 0x876D5686 0x08C5191C,
                              SKEIN_MK_64 0x99CB88D7 0xD7F53884, SKEIN_MK_64 0x384BDDB1 0xAEDDB5DE]
      else if hbl = 160 then Some [SKEIN_MK_64 0x14202314 0x72825E98, SKEIN_MK_64 0x2AC4E9A2 0x5A77E590,
                              SKEIN_MK_64 0xD47A5856 0x8838D63E, SKEIN_MK_64 0x2DD2E496 0x8586AB7D]
      else if hbl = 128 then Some [SKEIN_MK_64 0xE1111906 0x964D7260, SKEIN_MK_64 0x883DAAA7 0x7C8D811C,
                              SKEIN_MK_64 0x10080DF4 0x91960F7A, SKEIN_MK_64 0xCCF7DDE5 0xB45BC1C2]
      else None)"

definition skein_512_iv :: "u64 \<Rightarrow> u64 list option" where
  "skein_512_iv hbl =
     (if hbl = 512 then Some
        [SKEIN_MK_64 0x4903ADFF 0x749C51CE, SKEIN_MK_64 0x0D95DE39 0x9746DF03,
         SKEIN_MK_64 0x8FD19341 0x27C79BCE, SKEIN_MK_64 0x9A255629 0xFF352CB1,
         SKEIN_MK_64 0x5DB62599 0xDF6CA7B0, SKEIN_MK_64 0xEABE394C 0xA9D5C3F4,
         SKEIN_MK_64 0x991112C7 0x1A75B523, SKEIN_MK_64 0xAE18A40B 0x660FCC33]
      else if hbl = 384 then Some
        [SKEIN_MK_64 0xA3F6C6BF 0x3A75EF5F, SKEIN_MK_64 0xB0FEF9CC 0xFD84FAA4,
         SKEIN_MK_64 0x9D77DD66 0x3D770CFE, SKEIN_MK_64 0xD798CBF3 0xB468FDDA,
         SKEIN_MK_64 0x1BC4A666 0x8A0E4465, SKEIN_MK_64 0x7ED7D434 0xE5807407,
         SKEIN_MK_64 0x548FC1AC 0xD4EC44D6, SKEIN_MK_64 0x266E1754 0x6AA18FF8]
      else if hbl = 256 then Some
        [SKEIN_MK_64 0xCCD044A1 0x2FDB3E13, SKEIN_MK_64 0xE8359030 0x1A79A9EB,
         SKEIN_MK_64 0x55AEA061 0x4F816E6F, SKEIN_MK_64 0x2A2767A4 0xAE9B94DB,
         SKEIN_MK_64 0xEC06025E 0x74DD7683, SKEIN_MK_64 0xE7A436CD 0xC4746251,
         SKEIN_MK_64 0xC36FBAF9 0x393AD185, SKEIN_MK_64 0x3EEDBA18 0x33EDFC13]
      else if hbl = 224 then Some
        [SKEIN_MK_64 0xCCD06162 0x48677224, SKEIN_MK_64 0xCBA65CF3 0xA92339EF,
         SKEIN_MK_64 0x8CCD69D6 0x52FF4B64, SKEIN_MK_64 0x398AED7B 0x3AB890B4,
         SKEIN_MK_64 0x0F59D1B1 0x457D2BD0, SKEIN_MK_64 0x6776FE65 0x75D4EB3D,
         SKEIN_MK_64 0x99FBC70E 0x997413E9, SKEIN_MK_64 0x9E2CFCCF 0xE1C41EF7]
      else None)"

definition skein1024_iv :: "u64 \<Rightarrow> u64 list option" where
  "skein1024_iv hbl =
     (if hbl = 512 then Some
        [SKEIN_MK_64 0xCAEC0E5D 0x7C1B1B18, SKEIN_MK_64 0xA01B0E04 0x5F03E802,
         SKEIN_MK_64 0x33840451 0xED912885, SKEIN_MK_64 0x374AFB04 0xEAEC2E1C,
         SKEIN_MK_64 0xDF25A0E2 0x813581F7, SKEIN_MK_64 0xE4004093 0x8B12F9D2,
         SKEIN_MK_64 0xA662D539 0xC2ED39B6, SKEIN_MK_64 0xFA8B85CF 0x45D8C75A,
         SKEIN_MK_64 0x8316ED8E 0x29EDE796, SKEIN_MK_64 0x053289C0 0x2E9F91B8,
         SKEIN_MK_64 0xC3F8EF1D 0x6D518B73, SKEIN_MK_64 0xBDCEC3C4 0xD5EF332E,
         SKEIN_MK_64 0x549A7E52 0x22974487, SKEIN_MK_64 0x67070872 0x5B749816,
         SKEIN_MK_64 0xB9CD28FB 0xF0581BD1, SKEIN_MK_64 0x0E2940B8 0x15804974]
      else if hbl = 384 then Some
        [SKEIN_MK_64 0x5102B6B8 0xC1894A35, SKEIN_MK_64 0xFEEBC9E3 0xFE8AF11A,
         SKEIN_MK_64 0x0C807F06 0xE32BED71, SKEIN_MK_64 0x60C13A52 0xB41A91F6,
         SKEIN_MK_64 0x9716D35D 0xD4917C38, SKEIN_MK_64 0xE780DF12 0x6FD31D3A,
         SKEIN_MK_64 0x797846B6 0xC898303A, SKEIN_MK_64 0xB172C2A8 0xB3572A3B,
         SKEIN_MK_64 0xC9BC8203 0xA6104A6C, SKEIN_MK_64 0x65909338 0xD75624F4,
         SKEIN_MK_64 0x94BCC568 0x4B3F81A0, SKEIN_MK_64 0x3EBBF51E 0x10ECFD46,
         SKEIN_MK_64 0x2DF50F0B 0xEEB08542, SKEIN_MK_64 0x3B5A6530 0x0DBC6516,
         SKEIN_MK_64 0x484B9CD2 0x167BBCE1, SKEIN_MK_64 0x2D136947 0xD4CBAFEA]
      else if hbl = 1024 then Some
        [SKEIN_MK_64 0xD593DA07 0x41E72355, SKEIN_MK_64 0x15B5E511 0xAC73E00C,
         SKEIN_MK_64 0x5180E5AE 0xBAF2C4F0, SKEIN_MK_64 0x03BD41D3 0xFCBCAFAF,
         SKEIN_MK_64 0x1CAEC6FD 0x1983A898, SKEIN_MK_64 0x6E510B8B 0xCDD0589F,
         SKEIN_MK_64 0x77E2BDFD 0xC6394ADA, SKEIN_MK_64 0xC11E1DB5 0x24DCB0A3,
         SKEIN_MK_64 0xD6D14AF9 0xC6329AB5, SKEIN_MK_64 0x6A9B0BFC 0x6EB67E0D,
         SKEIN_MK_64 0x9243C60D 0xCCFF1332, SKEIN_MK_64 0x1A1F1DDE 0x743F02D4,
         SKEIN_MK_64 0x0996753C 0x10ED0BB8, SKEIN_MK_64 0x6572DD22 0xF2B4969A,
         SKEIN_MK_64 0x61FD3062 0xD00A579A, SKEIN_MK_64 0x1DE0536E 0x8682E539]
      else None)"

abbreviation (input) cf1024 :: skein_comp where
  "cf1024 \<equiv> skein1024_compress (replicate 20 0)"

definition Skein_256_Init :: "Skein_Ctxt \<Rightarrow> u64 \<Rightarrow> int \<times> Skein_Ctxt" where
  "Skein_256_Init ctx hbl = (SKEIN_SUCCESS, Skein_Init 4 skein_256_compress skein_256_iv ctx hbl)"
definition Skein_512_Init :: "Skein_Ctxt \<Rightarrow> u64 \<Rightarrow> int \<times> Skein_Ctxt" where
  "Skein_512_Init ctx hbl = (SKEIN_SUCCESS, Skein_Init 8 skein_512_compress skein_512_iv ctx hbl)"
definition Skein1024_Init :: "Skein_Ctxt \<Rightarrow> u64 \<Rightarrow> int \<times> Skein_Ctxt" where
  "Skein1024_Init ctx hbl = (SKEIN_SUCCESS, Skein_Init 16 cf1024 skein1024_iv ctx hbl)"

definition Skein_256_InitExt :: "Skein_Ctxt \<Rightarrow> u64 \<Rightarrow> u64 \<Rightarrow> byte list \<Rightarrow> int \<times> Skein_Ctxt" where
  "Skein_256_InitExt ctx hbl treeInfo key =
     (SKEIN_SUCCESS, Skein_InitExt 4 skein_256_compress ctx hbl treeInfo key)"
definition Skein_512_InitExt :: "Skein_Ctxt \<Rightarrow> u64 \<Rightarrow> u64 \<Rightarrow> byte list \<Rightarrow> int \<times> Skein_Ctxt" where
  "Skein_512_InitExt ctx hbl treeInfo key =
     (SKEIN_SUCCESS, Skein_InitExt 8 skein_512_compress ctx hbl treeInfo key)"
definition Skein1024_InitExt :: "Skein_Ctxt \<Rightarrow> u64 \<Rightarrow> u64 \<Rightarrow> byte list \<Rightarrow> int \<times> Skein_Ctxt" where
  "Skein1024_InitExt ctx hbl treeInfo key =
     (SKEIN_SUCCESS, Skein_InitExt 16 cf1024 ctx hbl treeInfo key)"

definition Skein_256_Update :: "Skein_Ctxt \<Rightarrow> byte list \<Rightarrow> int \<times> Skein_Ctxt" where
  "Skein_256_Update ctx msg = (SKEIN_SUCCESS, Skein_Update 4 skein_256_compress ctx msg)"
definition Skein_512_Update :: "Skein_Ctxt \<Rightarrow> byte list \<Rightarrow> int \<times> Skein_Ctxt" where
  "Skein_512_Update ctx msg = (SKEIN_SUCCESS, Skein_Update 8 skein_512_compress ctx msg)"
definition Skein1024_Update :: "Skein_Ctxt \<Rightarrow> byte list \<Rightarrow> int \<times> Skein_Ctxt" where
  "Skein1024_Update ctx msg = (SKEIN_SUCCESS, Skein_Update 16 cf1024 ctx msg)"

definition Skein_256_Final :: "Skein_Ctxt \<Rightarrow> int \<times> Skein_Ctxt \<times> byte list" where
  "Skein_256_Final ctx = (SKEIN_SUCCESS, Skein_Final 4 skein_256_compress ctx)"
definition Skein_512_Final :: "Skein_Ctxt \<Rightarrow> int \<times> Skein_Ctxt \<times> byte list" where
  "Skein_512_Final ctx = (SKEIN_SUCCESS, Skein_Final 8 skein_512_compress ctx)"
definition Skein1024_Final :: "Skein_Ctxt \<Rightarrow> int \<times> Skein_Ctxt \<times> byte list" where
  "Skein1024_Final ctx = (SKEIN_SUCCESS, Skein_Final 16 cf1024 ctx)"

definition Skein_256_Final_Pad :: "Skein_Ctxt \<Rightarrow> int \<times> Skein_Ctxt \<times> byte list" where
  "Skein_256_Final_Pad ctx = (SKEIN_SUCCESS, Skein_Final_Pad 4 skein_256_compress ctx)"
definition Skein_512_Final_Pad :: "Skein_Ctxt \<Rightarrow> int \<times> Skein_Ctxt \<times> byte list" where
  "Skein_512_Final_Pad ctx = (SKEIN_SUCCESS, Skein_Final_Pad 8 skein_512_compress ctx)"
definition Skein1024_Final_Pad :: "Skein_Ctxt \<Rightarrow> int \<times> Skein_Ctxt \<times> byte list" where
  "Skein1024_Final_Pad ctx = (SKEIN_SUCCESS, Skein_Final_Pad 16 cf1024 ctx)"

definition Skein_256_Output :: "Skein_Ctxt \<Rightarrow> int \<times> Skein_Ctxt \<times> byte list" where
  "Skein_256_Output ctx = (SKEIN_SUCCESS, Skein_Output 4 skein_256_compress ctx)"
definition Skein_512_Output :: "Skein_Ctxt \<Rightarrow> int \<times> Skein_Ctxt \<times> byte list" where
  "Skein_512_Output ctx = (SKEIN_SUCCESS, Skein_Output 8 skein_512_compress ctx)"
definition Skein1024_Output :: "Skein_Ctxt \<Rightarrow> int \<times> Skein_Ctxt \<times> byte list" where
  "Skein1024_Output ctx = (SKEIN_SUCCESS, Skein_Output 16 cf1024 ctx)"

section \<open>Refinement: a context is its pending bytes\<close>

text \<open>
  What a context means: only the first \<^verbatim>\<open>bCnt\<close> bytes of its buffer count. The reference semantics of
  \<^verbatim>\<open>Update\<close> appends the message to the pending bytes and compresses every block that is followed by at
  least one more byte.
\<close>

definition skein_view :: "Skein_Ctxt \<Rightarrow> Skein_Ctxt" where
  "skein_view ctx = ctx\<lparr>partial_buf := take (bCnt ctx) (partial_buf ctx)\<rparr>"

definition skein_inv :: "nat \<Rightarrow> Skein_Ctxt \<Rightarrow> bool" where
  "skein_inv W ctx \<longleftrightarrow> bCnt ctx \<le> 8 * W \<and> length (partial_buf ctx) = 8 * W \<and> length (chainX ctx) = W"

function skein_absorb :: "nat \<Rightarrow> skein_comp \<Rightarrow> Skein_Ctxt \<Rightarrow> Skein_Ctxt" where
  "skein_absorb W cf v =
     (if W \<noteq> 0 \<and> 8 * W < length (partial_buf v) then
        skein_absorb W cf ((skein_block_step W cf v (partial_buf v) (of_nat (8 * W)))
          \<lparr>partial_buf := drop (8 * W) (partial_buf v)\<rparr>)
      else v\<lparr>bCnt := length (partial_buf v)\<rparr>)"
  by pat_completeness auto
termination
  by (relation "measure (\<lambda>(W, cf, v). length (partial_buf v))") auto

declare skein_absorb.simps [simp del]

lemma upd_comm [simp]: "ctx\<lparr>bCnt := k, partial_buf := x\<rparr> = ctx\<lparr>partial_buf := x, bCnt := k\<rparr>"
  by (cases ctx) simp

lemma step_upd [simp]:
  "skein_block_step W cf (ctx\<lparr>partial_buf := x\<rparr>) m a = (skein_block_step W cf ctx m a)\<lparr>partial_buf := x\<rparr>"
  "skein_block_step W cf (ctx\<lparr>bCnt := k\<rparr>) m a = (skein_block_step W cf ctx m a)\<lparr>bCnt := k\<rparr>"
  "partial_buf (skein_block_step W cf ctx m a) = partial_buf ctx"
  "bCnt (skein_block_step W cf ctx m a) = bCnt ctx"
  "hashBitLen (skein_block_step W cf ctx m a) = hashBitLen ctx"
  by (simp_all add: skein_block_step_def Let_def)

lemma process_upd [simp]:
  "Skein_Process_Block W cf (ctx\<lparr>partial_buf := x\<rparr>) m n a =
     (Skein_Process_Block W cf ctx m n a)\<lparr>partial_buf := x\<rparr>"
  "Skein_Process_Block W cf (ctx\<lparr>bCnt := k\<rparr>) m n a = (Skein_Process_Block W cf ctx m n a)\<lparr>bCnt := k\<rparr>"
  "partial_buf (Skein_Process_Block W cf ctx m n a) = partial_buf ctx"
  "bCnt (Skein_Process_Block W cf ctx m n a) = bCnt ctx"
  "hashBitLen (Skein_Process_Block W cf ctx m n a) = hashBitLen ctx"
  by (induction n arbitrary: ctx m) simp_all

lemma get64_take: "n + 8 \<le> k \<Longrightarrow> get64 (take k m) n = get64 m n"
  by (simp add: get64_def)

lemma step_prefix: "skein_block_step W cf ctx (take (8 * W) m) a = skein_block_step W cf ctx m a"
proof -
  have "Skein_Get64_LSB_First (take (8 * W) m) W = Skein_Get64_LSB_First m W"
    by (simp add: Skein_Get64_LSB_First_def get64_take)
  then show ?thesis by (simp add: skein_block_step_def)
qed

lemma absorb_small: "length (partial_buf v) \<le> 8 * W \<Longrightarrow>
    skein_absorb W cf v = v\<lparr>bCnt := length (partial_buf v)\<rparr>"
  by (subst skein_absorb.simps) simp

lemma absorb_big: "W \<noteq> 0 \<Longrightarrow> 8 * W < length m \<Longrightarrow>
    skein_absorb W cf (v\<lparr>partial_buf := m\<rparr>) =
    skein_absorb W cf ((skein_block_step W cf v m (of_nat (8 * W)))\<lparr>partial_buf := drop (8 * W) m\<rparr>)"
  by (subst skein_absorb.simps) simp

lemma absorb_bCnt [simp]: "skein_absorb W cf (v\<lparr>bCnt := k\<rparr>) = skein_absorb W cf v"
proof (induction W cf v arbitrary: k rule: skein_absorb.induct)
  case (1 W cf v)
  show ?case
  proof (cases "W \<noteq> 0 \<and> 8 * W < length (partial_buf v)")
    case True
    then show ?thesis
      using "1.IH" by (subst (1 2) skein_absorb.simps) simp
  next
    case False
    then show ?thesis by (subst (1 2) skein_absorb.simps) auto
  qed
qed

lemma absorb_blocks:
  "W \<noteq> 0 \<Longrightarrow> n * (8 * W) < length m \<Longrightarrow>
   skein_absorb W cf (v\<lparr>partial_buf := m\<rparr>) =
   skein_absorb W cf ((Skein_Process_Block W cf v m n (of_nat (8 * W)))\<lparr>partial_buf := drop (n * (8 * W)) m\<rparr>)"
proof (induction n arbitrary: v m)
  case (Suc n)
  have "8 * W < length m" "n * (8 * W) < length (drop (8 * W) m)" using Suc.prems by auto
  then show ?case
    using Suc.IH [of "drop (8 * W) m" "skein_block_step W cf v m (of_nat (8 * W))"] Suc.prems(1)
    by (simp add: absorb_big add.commute)
qed simp

lemma absorb_absorb:
  "skein_absorb W cf ((skein_absorb W cf v)\<lparr>partial_buf := partial_buf (skein_absorb W cf v) @ m\<rparr>) =
   skein_absorb W cf (v\<lparr>partial_buf := partial_buf v @ m\<rparr>)"
proof (induction W cf v rule: skein_absorb.induct)
  case (1 W cf v)
  show ?case
  proof (cases "W \<noteq> 0 \<and> 8 * W < length (partial_buf v)")
    case True
    let ?v = "(skein_block_step W cf v (partial_buf v) (of_nat (8 * W)))\<lparr>partial_buf := drop (8 * W) (partial_buf v)\<rparr>"
    have pre: "skein_block_step W cf v (partial_buf v @ m) a = skein_block_step W cf v (partial_buf v) a" for a
      using True step_prefix [of W cf v "partial_buf v @ m" a] step_prefix [of W cf v "partial_buf v" a]
      by simp
    have "skein_absorb W cf v = skein_absorb W cf ?v"
      using True by (subst skein_absorb.simps) simp
    moreover have "skein_absorb W cf (v\<lparr>partial_buf := partial_buf v @ m\<rparr>) =
        skein_absorb W cf (?v\<lparr>partial_buf := partial_buf ?v @ m\<rparr>)"
      using True by (simp add: absorb_big pre)
    ultimately show ?thesis
      using "1.IH" [OF True] by simp
  next
    case False
    then have "skein_absorb W cf v = v\<lparr>bCnt := length (partial_buf v)\<rparr>"
      by (subst skein_absorb.simps) auto
    then show ?thesis by simp
  qed
qed

lemma finish_buffer_absorb:
  assumes "W \<noteq> 0" "skein_inv W ctx" "8 * W < length msg + bCnt ctx"
    and "skein_finish_buffer W cf ctx msg = (ctx1, msg1)"
  shows "skein_absorb W cf (ctx\<lparr>partial_buf := take (bCnt ctx) (partial_buf ctx) @ msg\<rparr>) =
      skein_absorb W cf (ctx1\<lparr>partial_buf := msg1\<rparr>)"
    and "bCnt ctx1 = 0" "length (partial_buf ctx1) = 8 * W" "msg1 \<noteq> []"
proof -
  let ?n = "8 * W - bCnt ctx" and ?b = "take (bCnt ctx) (partial_buf ctx)"
  have inv: "bCnt ctx \<le> 8 * W" "length (partial_buf ctx) = 8 * W"
    using assms(2) by (auto simp: skein_inv_def)
  have eq: "memcpy_at (partial_buf ctx) (bCnt ctx) (take ?n msg) = ?b @ take ?n msg"
    using inv assms(3) by (simp add: memcpy_at_def)
  have blk: "take (8 * W) (?b @ msg) = ?b @ take ?n msg"
    using inv by (simp add: min_absorb1)
  have step: "skein_block_step W cf ctx (?b @ take ?n msg) a = skein_block_step W cf ctx (?b @ msg) a" for a
    using step_prefix [of W cf ctx "?b @ msg" a] by (simp only: blk)
  have full: "?n = 0 \<Longrightarrow> partial_buf ctx = ?b" using inv by simp
  have res: "ctx1 = (if bCnt ctx = 0 then ctx else (skein_block_step W cf ctx (?b @ msg) (of_nat (8 * W)))
      \<lparr>partial_buf := ?b @ take ?n msg, bCnt := 0\<rparr>)" "msg1 = (if bCnt ctx = 0 then msg else drop ?n msg)"
    using assms(4) eq step inv
    by (auto simp: skein_finish_buffer_def Let_def split: if_splits)
  show "skein_absorb W cf (ctx\<lparr>partial_buf := ?b @ msg\<rparr>) = skein_absorb W cf (ctx1\<lparr>partial_buf := msg1\<rparr>)"
    using inv assms(1,3) by (simp add: res absorb_big)
  show "bCnt ctx1 = 0" "length (partial_buf ctx1) = 8 * W" "msg1 \<noteq> []"
    using inv assms(1,3) by (auto simp: res)
qed

lemma direct_blocks_absorb:
  assumes "W \<noteq> 0" "bCnt ctx = 0" "length (partial_buf ctx) = 8 * W" "msg \<noteq> []"
    and "skein_direct_blocks W cf ctx msg = (ctx1, msg1)"
  shows "skein_absorb W cf (ctx\<lparr>partial_buf := msg\<rparr>) = skein_absorb W cf (ctx1\<lparr>partial_buf := msg1\<rparr>)"
    and "bCnt ctx1 = 0" "length (partial_buf ctx1) = 8 * W" "msg1 \<noteq> []" "length msg1 \<le> 8 * W"
proof -
  let ?n = "(length msg - 1) div (8 * W)"
  have lt: "?n * (8 * W) < length msg"
    using assms(4) by (metis One_nat_def Suc_pred div_times_less_eq_dividend le_imp_less_Suc length_greater_0_conv)
  have le: "length msg \<le> ?n * (8 * W) + 8 * W"
    using assms(1,4) mod_less_divisor [of "8 * W" "length msg - 1"] div_mult_mod_eq [of "length msg - 1" "8 * W"]
    by linarith
  have res: "(ctx1, msg1) = (if 8 * W < length msg
      then (Skein_Process_Block W cf ctx msg ?n (of_nat (8 * W)), drop (?n * (8 * W)) msg) else (ctx, msg))"
    using assms(5) by (simp add: skein_direct_blocks_def Let_def split: if_splits)
  show "skein_absorb W cf (ctx\<lparr>partial_buf := msg\<rparr>) = skein_absorb W cf (ctx1\<lparr>partial_buf := msg1\<rparr>)"
    using res absorb_blocks [OF assms(1) lt, of cf ctx] by (simp split: if_splits)
  show "bCnt ctx1 = 0" "length (partial_buf ctx1) = 8 * W" "msg1 \<noteq> []" "length msg1 \<le> 8 * W"
    using res lt le assms by (auto split: if_splits)
qed

lemma store_rest_view:
  assumes "bCnt ctx + length msg \<le> 8 * W" "length (partial_buf ctx) = 8 * W"
  shows "skein_view (skein_store_rest ctx msg) =
      skein_absorb W cf (ctx\<lparr>partial_buf := take (bCnt ctx) (partial_buf ctx) @ msg\<rparr>)"
    and "bCnt (skein_store_rest ctx msg) \<le> 8 * W"
    and "length (partial_buf (skein_store_rest ctx msg)) = 8 * W"
    and "chainX (skein_store_rest ctx msg) = chainX ctx"
  using assms by (auto simp: skein_store_rest_def skein_view_def absorb_small memcpy_at_def)

lemma Skein_Update_absorb:
  assumes "W \<noteq> 0" "skein_inv W ctx"
  shows "skein_view (Skein_Update W cf ctx msg) =
      skein_absorb W cf (ctx\<lparr>partial_buf := take (bCnt ctx) (partial_buf ctx) @ msg\<rparr>)"
    and "bCnt (Skein_Update W cf ctx msg) \<le> 8 * W"
    and "length (partial_buf (Skein_Update W cf ctx msg)) = 8 * W"
proof -
  have inv: "bCnt ctx \<le> 8 * W" "length (partial_buf ctx) = 8 * W"
    using assms(2) by (auto simp: skein_inv_def)
  consider (small) "length msg + bCnt ctx \<le> 8 * W" | (big) "8 * W < length msg + bCnt ctx" by linarith
  then have "skein_view (Skein_Update W cf ctx msg) =
      skein_absorb W cf (ctx\<lparr>partial_buf := take (bCnt ctx) (partial_buf ctx) @ msg\<rparr>) \<and>
    bCnt (Skein_Update W cf ctx msg) \<le> 8 * W \<and> length (partial_buf (Skein_Update W cf ctx msg)) = 8 * W"
  proof cases
    case small
    then show ?thesis
      using store_rest_view [where ctx = ctx and msg = msg and W = W] inv by (simp add: Skein_Update_def)
  next
    case big
    obtain ctx1 msg1 where 1: "skein_finish_buffer W cf ctx msg = (ctx1, msg1)" by fastforce
    obtain ctx2 msg2 where 2: "skein_direct_blocks W cf ctx1 msg1 = (ctx2, msg2)" by fastforce
    note a = finish_buffer_absorb [OF assms big 1]
    note b = direct_blocks_absorb [OF assms(1) a(2-4) 2]
    have "Skein_Update W cf ctx msg = skein_store_rest ctx2 msg2"
      using big by (simp add: Skein_Update_def 1 2)
    then show ?thesis
      using store_rest_view [where ctx = ctx2 and msg = msg2 and W = W] a b by simp
  qed
  then show "skein_view (Skein_Update W cf ctx msg) =
      skein_absorb W cf (ctx\<lparr>partial_buf := take (bCnt ctx) (partial_buf ctx) @ msg\<rparr>)"
    "bCnt (Skein_Update W cf ctx msg) \<le> 8 * W"
    "length (partial_buf (Skein_Update W cf ctx msg)) = 8 * W" by auto
qed

section \<open>The contract of a state size\<close>

locale skein_variant =
  fixes W :: nat and cf :: skein_comp
  assumes W_ge_3: "3 \<le> W"
    and length_cf: "length w = W \<Longrightarrow> length (cf X ts w) = W"
begin

lemma W_pos: "W \<noteq> 0"
  using W_ge_3 by simp

lemma length_Get64 [simp]: "length (Skein_Get64_LSB_First m W) = W"
  by (simp add: Skein_Get64_LSB_First_def)

lemma length_step [simp]: "length (chainX (skein_block_step W cf ctx m a)) = W"
  by (simp add: skein_block_step_def Let_def length_cf)

lemma length_process: "length (chainX ctx) = W \<Longrightarrow> length (chainX (Skein_Process_Block W cf ctx m n a)) = W"
  by (induction n arbitrary: ctx m) simp_all

lemma length_absorb: "length (chainX v) = W \<Longrightarrow> length (chainX (skein_absorb W cf v)) = W"
proof (induction "length (partial_buf v)" arbitrary: v rule: less_induct)
  case less
  then show ?case
    using W_pos by (subst skein_absorb.simps) simp
qed

lemma chainX_view: "chainX (skein_view ctx) = chainX ctx"
  by (simp add: skein_view_def)

lemma Update_inv: "skein_inv W ctx \<Longrightarrow> skein_inv W (Skein_Update W cf ctx msg)"
  using Skein_Update_absorb [OF W_pos, of ctx cf msg] length_absorb chainX_view
  by (simp add: skein_inv_def) (metis Skein_Ctxt.select_convs(5) Skein_Ctxt.update_convs(6) Skein_Ctxt.surjective)

lemma Update_absorb: "skein_inv W ctx \<Longrightarrow>
    skein_view (Skein_Update W cf ctx msg) =
    skein_absorb W cf ((skein_view ctx)\<lparr>partial_buf := partial_buf (skein_view ctx) @ msg\<rparr>)"
  using Skein_Update_absorb [OF W_pos, of ctx cf msg] by (simp add: skein_view_def)

lemma Update_Update:
  assumes "skein_inv W ctx"
  shows "skein_view (Skein_Update W cf (Skein_Update W cf ctx m1) m2) =
    skein_view (Skein_Update W cf ctx (m1 @ m2))"
  using assms Update_inv [OF assms, of m1]
    absorb_absorb [of W cf "(skein_view ctx)\<lparr>partial_buf := partial_buf (skein_view ctx) @ m1\<rparr>" m2]
  by (simp add: Update_absorb)

lemma Update_cong:
  "skein_inv W c1 \<Longrightarrow> skein_inv W c2 \<Longrightarrow> skein_view c1 = skein_view c2 \<Longrightarrow>
   skein_view (Skein_Update W cf c1 m) = skein_view (Skein_Update W cf c2 m)"
  by (simp add: Update_absorb)

lemma Update_Nil: "skein_inv W ctx \<Longrightarrow> skein_view (Skein_Update W cf ctx []) = skein_view ctx"
  by (simp add: skein_inv_def Skein_Update_def skein_store_rest_def)

lemma Update_chunks:
  assumes "skein_inv W ctx"
  shows "skein_inv W (foldl (Skein_Update W cf) ctx ms) \<and>
    skein_view (foldl (Skein_Update W cf) ctx ms) = skein_view (Skein_Update W cf ctx (concat ms))"
proof (induction ms rule: rev_induct)
  case (snoc m ms)
  then show ?case
    using Update_Update [OF assms, of "concat ms" m] Update_inv [of "foldl (Skein_Update W cf) ctx ms" m]
      Update_cong [of "foldl (Skein_Update W cf) ctx ms" "Skein_Update W cf ctx (concat ms)" m]
      Update_inv [OF assms, of "concat ms"]
    by simp
qed (simp add: assms Update_Nil)

lemma pad_view:
  assumes "skein_inv W c1" "skein_inv W c2" "skein_view c1 = skein_view c2"
  shows "skein_pad W cf c1 = skein_pad W cf c2"
proof -
  have eq: "bCnt c1 = bCnt c2" "tweak1 c1 = tweak1 c2" "take (bCnt c2) (partial_buf c1) = take (bCnt c2) (partial_buf c2)"
    "c1\<lparr>partial_buf := x\<rparr> = c2\<lparr>partial_buf := x\<rparr>" for x
    using assms(3) by (cases c1; cases c2; simp add: skein_view_def)+
  have "bCnt c2 = 8 * W \<Longrightarrow> c1 = c2"
    using assms eq(3) by (cases c1; cases c2) (simp add: skein_inv_def skein_view_def)
  moreover have "bCnt c < 8 * W \<Longrightarrow> skein_inv W c \<Longrightarrow> skein_pad W cf c =
      (Skein_Process_Block W cf ((c\<lparr>partial_buf := []\<rparr>)\<lparr>tweak1 := tweak1 (c\<lparr>partial_buf := []\<rparr>) OR SKEIN_T1_FLAG_FINAL\<rparr>)
        (take (bCnt c) (partial_buf c) @ replicate (8 * W - bCnt c) 0) 1 (of_nat (bCnt c)))
       \<lparr>partial_buf := take (bCnt c) (partial_buf c) @ replicate (8 * W - bCnt c) 0\<rparr>" for c
    by (cases c) (simp add: skein_pad_def Let_def skein_inv_def memcpy_at_def skein_block_step_def)
  ultimately show ?thesis
    using assms(1,2) eq by (cases "bCnt c2 = 8 * W") (auto simp: skein_inv_def)
qed

lemma Final_view:
  "skein_inv W c1 \<Longrightarrow> skein_inv W c2 \<Longrightarrow> skein_view c1 = skein_view c2 \<Longrightarrow>
   Skein_Final W cf c1 = Skein_Final W cf c2"
  using pad_view [of c1 c2] by (simp add: Skein_Final_def)

lemma Final_chunks:
  "skein_inv W ctx \<Longrightarrow>
   Skein_Final W cf (foldl (Skein_Update W cf) ctx ms) = Skein_Final W cf (Skein_Update W cf ctx (concat ms))"
  using Update_chunks Update_inv Final_view by blast

lemma length_partial_output_step: "length (partial_buf ctx) = 8 * W \<Longrightarrow>
    length (partial_buf (fst (skein_output_step W cf X byteCnt i ctx))) = 8 * W"
  using W_pos
  by (simp add: skein_output_step_def Let_def Skein_Start_New_Type_def Skein_Put64_LSB_First_def)

lemma hashBitLen_output_step: "hashBitLen (fst (skein_output_step W cf X byteCnt i ctx)) = hashBitLen ctx"
  by (simp add: skein_output_step_def Let_def Skein_Start_New_Type_def)

lemma length_output_step:
  "length (snd (skein_output_step W cf X byteCnt i ctx)) = min (8 * W) (byteCnt - i * (8 * W))"
  by (simp add: skein_output_step_def Let_def Skein_Put64_LSB_First_def min_def)

lemma output_loop:
  "length X = W \<Longrightarrow> length (partial_buf ctx) = 8 * W \<Longrightarrow> chainX ctx = X \<Longrightarrow>
   skein_output_loop W cf X byteCnt i ctx = (ctx', out) \<Longrightarrow>
   length out = byteCnt - i * (8 * W) \<and> length (partial_buf ctx') = 8 * W \<and>
   hashBitLen ctx' = hashBitLen ctx \<and> chainX ctx' = X"
proof (induction "byteCnt - i * (8 * W)" arbitrary: i ctx ctx' out rule: less_induct)
  case less
  show ?case
  proof (cases "i * (8 * W) < byteCnt")
    case True
    obtain c1 o1 where 1: "skein_output_step W cf X byteCnt i ctx = (c1, o1)" by fastforce
    obtain c2 o2 where 2: "skein_output_loop W cf X byteCnt (i + 1) c1 = (c2, o2)" by fastforce
    have c1: "length (partial_buf c1) = 8 * W" "hashBitLen c1 = hashBitLen ctx"
      "length o1 = min (8 * W) (byteCnt - i * (8 * W))" "chainX c1 = X"
      using length_partial_output_step [OF less.prems(2), of X byteCnt i]
        hashBitLen_output_step [of X byteCnt i ctx] length_output_step [of X byteCnt i ctx]
      by (simp_all add: 1) (use 1 in \<open>auto simp: skein_output_step_def Let_def\<close>)
    have "byteCnt - (i + 1) * (8 * W) < byteCnt - i * (8 * W)" using True W_pos by simp
    from less.hyps [OF this less.prems(1) c1(1,4) 2]
    have "length o2 = byteCnt - (i + 1) * (8 * W)" "length (partial_buf c2) = 8 * W"
      "hashBitLen c2 = hashBitLen c1" "chainX c2 = X" by auto
    moreover have "ctx' = c2" "out = o1 @ o2"
      using less.prems(4) True W_pos 1 2
      by (subst (asm) skein_output_loop.simps; simp)+
    ultimately show ?thesis using c1 by auto
  next
    case False
    then show ?thesis
      using less.prems by (subst (asm) skein_output_loop.simps) auto
  qed
qed

lemma pad_shape:
  "skein_inv W ctx \<Longrightarrow> length (partial_buf (skein_pad W cf ctx)) = 8 * W \<and>
   length (chainX (skein_pad W cf ctx)) = W \<and> hashBitLen (skein_pad W cf ctx) = hashBitLen ctx"
  by (simp add: skein_pad_def Let_def skein_inv_def)

lemma Final_shape:
  assumes "skein_inv W ctx" "Skein_Final W cf ctx = (ctx', out)"
  shows "length out = unat (drop_bit 3 (hashBitLen ctx + 7))" "length (partial_buf ctx') = 8 * W"
    "hashBitLen ctx' = hashBitLen ctx" "length (chainX ctx') = W"
  using pad_shape [OF assms(1)] assms(2)
    output_loop [of "chainX (skein_pad W cf ctx)" "(skein_pad W cf ctx)\<lparr>partial_buf := replicate (8 * W) 0\<rparr>"
      "unat (drop_bit 3 (hashBitLen ctx + 7))" 0 ctx' out]
  by (simp_all add: Skein_Final_def Skein_Output_def Let_def)

lemma Start_New_Type_inv:
  "length (partial_buf ctx) = 8 * W \<Longrightarrow> length (chainX ctx) = W \<Longrightarrow> skein_inv W (Skein_Start_New_Type ctx ty)"
  by (simp add: skein_inv_def Skein_Start_New_Type_def)

lemma InitExt_shape:
  assumes "length (partial_buf ctx) = 8 * W"
  shows "skein_inv W (Skein_InitExt W cf ctx hbl tree key)"
    "hashBitLen (Skein_InitExt W cf ctx hbl tree key) = hbl"
    "Skein_Start_New_Type (Skein_InitExt W cf ctx hbl tree key) SKEIN_T1_BLK_TYPE_MSG =
       Skein_InitExt W cf ctx hbl tree key"
proof -
  let ?k = "skein_key_state W cf ctx key"
  let ?c = "(Skein_Start_New_Type (ctx\<lparr>hashBitLen := of_nat (8 * (8 * W))\<rparr>) SKEIN_T1_BLK_TYPE_KEY)\<lparr>chainX := replicate W 0\<rparr>"
  have "skein_inv W ?c" using assms by (simp add: skein_inv_def Skein_Start_New_Type_def)
  then have k: "length (partial_buf ?k) = 8 * W" "length (chainX ?k) = W"
    using assms pad_shape [OF Update_inv, of ?c key]
    by (auto simp: skein_key_state_def Let_def Skein_Final_Pad_def)
  then show "skein_inv W (Skein_InitExt W cf ctx hbl tree key)"
    unfolding Skein_InitExt_def Let_def
    by (intro Start_New_Type_inv) (simp_all add: skein_config_def Skein_Start_New_Type_def)
  show "hashBitLen (Skein_InitExt W cf ctx hbl tree key) = hbl"
    "Skein_Start_New_Type (Skein_InitExt W cf ctx hbl tree key) SKEIN_T1_BLK_TYPE_MSG =
       Skein_InitExt W cf ctx hbl tree key"
    by (simp_all add: Skein_InitExt_def Let_def skein_config_def Skein_Start_New_Type_def)
qed

end

lemma length_I1024: "length (fst (I1024 d s)) = 16"
  by (cases s) (simp add: Let_def)

lemma length_R1024_8_rounds: "length (fst (R1024_8_rounds r s)) = 16"
  using length_I1024 by (cases s) (simp add: Let_def case_prod_unfold del: I1024.simps)

lemma length_R1024_loop:
  "length (fst s) = 16 \<Longrightarrow> length (fst (foldl (\<lambda>s i. R1024_8_rounds (2 * i + 1) s) s is)) = 16"
  by (induction "is" arbitrary: s) (simp_all add: length_R1024_8_rounds del: R1024_8_rounds.simps)

lemma length_skein1024_compress: "length w = 16 \<Longrightarrow> length (skein1024_compress tail cX ts w) = 16"
  using length_R1024_loop [of "(skein1024_first (skein1024_ks cX) ts w, ts @ skein1024_ks cX @ tail)" "[0..<10]"]
  by (simp add: skein1024_compress_def Let_def case_prod_unfold skein1024_first_def
      del: upt_Suc R1024_8_rounds.simps)

interpretation sk256: skein_variant 4 skein_256_compress
  by unfold_locales (simp_all add: skein_256_compress_def Let_def)

interpretation sk512: skein_variant 8 skein_512_compress
  by unfold_locales (simp_all add: skein_512_compress_def Let_def)

interpretation sk1024: skein_variant 16 "skein1024_compress (replicate 20 0)"
  by unfold_locales (simp_all add: length_skein1024_compress)

end
