(* ===== verification/Skein_Api.thy ===== *)
theory Skein_Api
  imports Skein
begin

text \<open>
  The convenience layer of \<^verbatim>\<open>src/src/ccrtp/crypto/skeinApi.c\<close> and the message authentication
  functions of \<^verbatim>\<open>macSkein.cpp\<close>. The union of the three contexts inside \<^verbatim>\<open>SkeinCtx_t\<close> is the
  context selected by \<^verbatim>\<open>skeinSize\<close>. This file is compiled with \<^verbatim>\<open>SKEIN_ERR_CHECK\<close>, so here
  \<^verbatim>\<open>Skein_Assert\<close> returns its code; a failing \<^verbatim>\<open>Skein_assert\<close> (an abort) is \<open>None\<close>. A null terminated
  array of data pointers is the list of the chunks.
\<close>

datatype SkeinSize_t = Skein256 | Skein512 | Skein1024

fun state_words :: "SkeinSize_t \<Rightarrow> nat" where
  "state_words Skein256 = 4"
| "state_words Skein512 = 8"
| "state_words Skein1024 = 16"

record SkeinCtx =
  skeinSize :: SkeinSize_t
  XSave :: "u64 list"
  ctx_m :: Skein_Ctxt

definition skeinCtxPrepare :: "SkeinSize_t \<Rightarrow> int \<times> SkeinCtx" where
  "skeinCtxPrepare sz =
     (SKEIN_SUCCESS,
      \<lparr>skeinSize = sz, XSave = replicate 16 0,
       ctx_m = \<lparr>hashBitLen = 0, bCnt = 0, tweak0 = 0, tweak1 = 0,
                chainX = replicate (state_words sz) 0,
                partial_buf = replicate (8 * state_words sz) 0\<rparr>\<rparr>)"

definition skein_save :: "SkeinCtx \<Rightarrow> int \<times> Skein_Ctxt \<Rightarrow> int \<times> SkeinCtx" where
  "skein_save ctx r =
     (let (ret, m) = r; ctx = ctx\<lparr>ctx_m := m\<rparr>
      in (ret, if ret = SKEIN_SUCCESS
               then ctx\<lparr>XSave := memcpy_at (XSave ctx) 0 (take (state_words (skeinSize ctx)) (chainX m))\<rparr>
               else ctx))"

definition skeinInit :: "SkeinCtx \<Rightarrow> u64 \<Rightarrow> int \<times> SkeinCtx" where
  "skeinInit ctx hbl =
     (let treeInfo = SKEIN_CFG_TREE_INFO_SEQUENTIAL in
      skein_save ctx
        (case skeinSize ctx of
           Skein256 \<Rightarrow> Skein_256_InitExt (ctx_m ctx) hbl treeInfo []
         | Skein512 \<Rightarrow> Skein_512_InitExt (ctx_m ctx) hbl treeInfo []
         | Skein1024 \<Rightarrow> Skein1024_InitExt (ctx_m ctx) hbl treeInfo []))"

definition skeinMacInit :: "SkeinCtx \<Rightarrow> byte list \<Rightarrow> u64 \<Rightarrow> int \<times> SkeinCtx" where
  "skeinMacInit ctx key hbl =
     (let treeInfo = SKEIN_CFG_TREE_INFO_SEQUENTIAL in
      if hbl = 0 then (SKEIN_BAD_HASHLEN, ctx)
      else skein_save ctx
        (case skeinSize ctx of
           Skein256 \<Rightarrow> Skein_256_InitExt (ctx_m ctx) hbl treeInfo key
         | Skein512 \<Rightarrow> Skein_512_InitExt (ctx_m ctx) hbl treeInfo key
         | Skein1024 \<Rightarrow> Skein1024_InitExt (ctx_m ctx) hbl treeInfo key))"

definition skeinReset :: "SkeinCtx \<Rightarrow> SkeinCtx" where
  "skeinReset ctx =
     (let m = ctx_m ctx;
          m = m\<lparr>chainX := memcpy_at (chainX m) 0 (take (state_words (skeinSize ctx)) (XSave ctx))\<rparr>
      in ctx\<lparr>ctx_m := Skein_Start_New_Type m SKEIN_T1_BLK_TYPE_MSG\<rparr>)"

definition skeinUpdate :: "SkeinCtx \<Rightarrow> byte list \<Rightarrow> int \<times> SkeinCtx" where
  "skeinUpdate ctx msg =
     (let (ret, m) =
        (case skeinSize ctx of
           Skein256 \<Rightarrow> Skein_256_Update (ctx_m ctx) msg
         | Skein512 \<Rightarrow> Skein_512_Update (ctx_m ctx) msg
         | Skein1024 \<Rightarrow> Skein1024_Update (ctx_m ctx) msg)
      in (ret, ctx\<lparr>ctx_m := m\<rparr>))"

definition skeinFinal :: "SkeinCtx \<Rightarrow> int \<times> SkeinCtx \<times> byte list" where
  "skeinFinal ctx =
     (let (ret, m, hash) =
        (case skeinSize ctx of
           Skein256 \<Rightarrow> Skein_256_Final (ctx_m ctx)
         | Skein512 \<Rightarrow> Skein_512_Final (ctx_m ctx)
         | Skein1024 \<Rightarrow> Skein1024_Final (ctx_m ctx))
      in (ret, ctx\<lparr>ctx_m := m\<rparr>, hash))"

definition skeinUpdateBits :: "SkeinCtx \<Rightarrow> byte list \<Rightarrow> nat \<Rightarrow> (int \<times> SkeinCtx) option" where
  "skeinUpdateBits ctx msg msgBitCnt =
     (if \<not> (tweak1 (ctx_m ctx) AND SKEIN_T1_FLAG_BIT_PAD = 0 \<or> msgBitCnt = 0)
      then Some (SKEIN_FAIL, ctx)
      else if msgBitCnt mod 8 = 0 then Some (skeinUpdate ctx (take (msgBitCnt div 8) msg))
      else
        let (_, ctx) = skeinUpdate ctx (take (msgBitCnt div 8 + 1) msg);
            m = ctx_m ctx;
            m = m\<lparr>tweak1 := tweak1 m OR SKEIN_T1_FLAG_BIT_PAD\<rparr>;
            len = bCnt m
        in if len = 0 then None
           else let mask = push_bit (7 - msgBitCnt mod 8) 1;
                    up = partial_buf m;
                    up = up[len - 1 := (up ! (len - 1) AND (0 - mask)) OR mask]
                in Some (SKEIN_SUCCESS, ctx\<lparr>ctx_m := m\<lparr>partial_buf := up\<rparr>\<rparr>))"

section \<open>Message authentication codes\<close>

definition macSkein :: "byte list \<Rightarrow> byte list \<Rightarrow> 32 word \<Rightarrow> SkeinSize_t \<Rightarrow> byte list" where
  "macSkein key data mac_length sz =
     (let (_, ctx) = skeinCtxPrepare sz;
          (_, ctx) = skeinMacInit ctx key (scast mac_length);
          (_, ctx) = skeinUpdate ctx data;
          (_, ctx, mac) = skeinFinal ctx
      in mac)"

definition skein_update_all :: "SkeinCtx \<Rightarrow> byte list list \<Rightarrow> SkeinCtx" where
  "skein_update_all = foldl (\<lambda>ctx d. snd (skeinUpdate ctx d))"

definition macSkein_chunks ::
  "byte list \<Rightarrow> byte list list \<Rightarrow> 32 word \<Rightarrow> SkeinSize_t \<Rightarrow> byte list" where
  "macSkein_chunks key data mac_length sz =
     (let (_, ctx) = skeinCtxPrepare sz;
          (_, ctx) = skeinMacInit ctx key (scast mac_length);
          ctx = skein_update_all ctx data;
          (_, ctx, mac) = skeinFinal ctx
      in mac)"

definition createSkeinMacContext :: "byte list \<Rightarrow> 32 word \<Rightarrow> SkeinSize_t \<Rightarrow> SkeinCtx" where
  "createSkeinMacContext key mac_length sz =
     (let (_, ctx) = skeinCtxPrepare sz;
          (_, ctx) = skeinMacInit ctx key (scast mac_length)
      in ctx)"

definition macSkeinCtx :: "SkeinCtx \<Rightarrow> byte list \<Rightarrow> SkeinCtx \<times> byte list" where
  "macSkeinCtx ctx data =
     (let (_, ctx) = skeinUpdate ctx data;
          (_, ctx, mac) = skeinFinal ctx
      in (skeinReset ctx, mac))"

definition macSkeinCtx_chunks :: "SkeinCtx \<Rightarrow> byte list list \<Rightarrow> SkeinCtx \<times> byte list" where
  "macSkeinCtx_chunks ctx data =
     (let ctx = skein_update_all ctx data;
          (_, ctx, mac) = skeinFinal ctx
      in (skeinReset ctx, mac))"

section \<open>Every state sz is a variant\<close>

fun state_comp :: "SkeinSize_t \<Rightarrow> skein_comp" where
  "state_comp Skein256 = skein_256_compress"
| "state_comp Skein512 = skein_512_compress"
| "state_comp Skein1024 = skein1024_compress (replicate 20 0)"

interpretation sk: skein_variant "state_words s" "state_comp s" for s
  by (cases s) (simp_all add: sk256.skein_variant_axioms sk512.skein_variant_axioms
      sk1024.skein_variant_axioms)

lemma skeinUpdate_eq:
  "skeinUpdate ctx msg = (SKEIN_SUCCESS,
     ctx\<lparr>ctx_m := Skein_Update (state_words (skeinSize ctx)) (state_comp (skeinSize ctx)) (ctx_m ctx) msg\<rparr>)"
  by (cases "skeinSize ctx")
    (simp_all add: skeinUpdate_def Skein_256_Update_def Skein_512_Update_def Skein1024_Update_def)

lemma skeinFinal_eq:
  "skeinFinal ctx = (SKEIN_SUCCESS,
     ctx\<lparr>ctx_m := fst (Skein_Final (state_words (skeinSize ctx)) (state_comp (skeinSize ctx)) (ctx_m ctx))\<rparr>,
     snd (Skein_Final (state_words (skeinSize ctx)) (state_comp (skeinSize ctx)) (ctx_m ctx)))"
  by (cases "skeinSize ctx")
    (simp_all add: skeinFinal_def Skein_256_Final_def Skein_512_Final_def Skein1024_Final_def
      case_prod_unfold)

lemma skeinMacInit_eq:
  "hbl \<noteq> 0 \<Longrightarrow> skeinMacInit ctx key hbl =
    skein_save ctx (SKEIN_SUCCESS, Skein_InitExt (state_words (skeinSize ctx)) (state_comp (skeinSize ctx))
      (ctx_m ctx) hbl SKEIN_CFG_TREE_INFO_SEQUENTIAL key)"
  by (cases "skeinSize ctx")
    (simp_all add: skeinMacInit_def Skein_256_InitExt_def Skein_512_InitExt_def Skein1024_InitExt_def)

definition api_inv :: "SkeinCtx \<Rightarrow> bool" where
  "api_inv ctx \<longleftrightarrow> skein_inv (state_words (skeinSize ctx)) (ctx_m ctx) \<and> length (XSave ctx) = 16"

lemma state_words_le: "state_words s \<le> 16"
  by (cases s) simp_all

lemma api_inv_prepare: "api_inv (snd (skeinCtxPrepare sz))"
  by (simp add: api_inv_def skeinCtxPrepare_def skein_inv_def)

lemma api_inv_MacInit: "api_inv ctx \<Longrightarrow> api_inv (snd (skeinMacInit ctx key hbl))"
  using sk.InitExt_shape(1) [of "ctx_m ctx" "skeinSize ctx"] state_words_le [of "skeinSize ctx"]
  by (cases "hbl = 0")
    (auto simp: skeinMacInit_def [of _ _ 0] skeinMacInit_eq skein_save_def api_inv_def skein_inv_def)

lemma update_all_eq:
  "skein_update_all ctx ms = ctx\<lparr>ctx_m :=
     foldl (Skein_Update (state_words (skeinSize ctx)) (state_comp (skeinSize ctx))) (ctx_m ctx) ms\<rparr>"
  by (induction ms arbitrary: ctx) (simp_all add: skein_update_all_def skeinUpdate_eq)

lemma skeinFinal_chunks:
  assumes "api_inv ctx"
  shows "skeinFinal (skein_update_all ctx ms) = skeinFinal (snd (skeinUpdate ctx (concat ms)))"
  using assms sk.Final_chunks [of "skeinSize ctx" "ctx_m ctx" ms]
  by (simp add: api_inv_def skeinFinal_eq skeinUpdate_eq update_all_eq)

text \<open>
  C31: Skein authenticates the message, not its chunks. For every key, output length, state size
  and every way of cutting the message into chunks, the code computed over the chunk array is the
  code of the whole message.
\<close>
theorem macSkein_chunks_eq:
  "macSkein_chunks key chunks mac_length sz = macSkein key (concat chunks) mac_length sz"
  using skeinFinal_chunks [OF api_inv_MacInit [OF api_inv_prepare], of sz key "scast mac_length" chunks]
  by (simp add: macSkein_chunks_def macSkein_def case_prod_unfold Let_def)

text \<open>
  Reusing a context: \<^verbatim>\<open>skeinReset\<close> brings a context back to a state that behaves like the one that
  was created.
\<close>

definition mac_ready :: "SkeinCtx \<Rightarrow> SkeinCtx \<Rightarrow> bool" where
  "mac_ready c0 c \<longleftrightarrow> api_inv c \<and> skeinSize c = skeinSize c0 \<and> XSave c = XSave c0 \<and>
     skein_view (ctx_m c) = skein_view (ctx_m c0)"

lemma scast_eq_0:
  assumes "(scast (x :: 32 word) :: u64) = 0"
  shows "x = 0"
proof (rule bit_word_eqI)
  fix n assume "n < LENGTH(32)"
  then have "n < 32" "min 31 n = n" by auto
  then have "bit (scast x :: u64) n \<longleftrightarrow> bit x n" by (simp add: bit_signed_iff)
  then show "bit x n \<longleftrightarrow> bit 0 n" by (simp add: assms)
qed

lemma mac_ready_create:
  assumes "mac_length \<noteq> 0" and c0_def: "c0 = createSkeinMacContext key mac_length sz"
  shows "mac_ready c0 c0"
    "Skein_Start_New_Type (ctx_m c0) SKEIN_T1_BLK_TYPE_MSG = ctx_m c0"
    "take (state_words (skeinSize c0)) (XSave c0) = chainX (ctx_m c0)"
proof -
  let ?p = "snd (skeinCtxPrepare sz)"
  have nz: "scast mac_length \<noteq> (0 :: u64)"
    using assms(1) scast_eq_0 [of mac_length] by blast
  show "mac_ready c0 c0"
    using api_inv_MacInit [OF api_inv_prepare]
    by (simp add: mac_ready_def c0_def createSkeinMacContext_def case_prod_unfold Let_def)
  have "c0 = snd (skein_save ?p (SKEIN_SUCCESS, Skein_InitExt (state_words sz) (state_comp sz)
      (ctx_m ?p) (scast mac_length) SKEIN_CFG_TREE_INFO_SEQUENTIAL key))"
    using skeinMacInit_eq [OF nz, of ?p key]
    by (simp add: c0_def createSkeinMacContext_def case_prod_unfold Let_def skeinCtxPrepare_def)
  then show "Skein_Start_New_Type (ctx_m c0) SKEIN_T1_BLK_TYPE_MSG = ctx_m c0"
    "take (state_words (skeinSize c0)) (XSave c0) = chainX (ctx_m c0)"
    using sk.InitExt_shape [of "ctx_m ?p" sz "scast mac_length" SKEIN_CFG_TREE_INFO_SEQUENTIAL key]
      state_words_le [of sz]
    by (simp_all add: skein_save_def skeinCtxPrepare_def skein_inv_def memcpy_at_def)
qed

lemma view_Start:
  "hashBitLen a = hashBitLen b \<Longrightarrow> chainX a = chainX b \<Longrightarrow>
   skein_view (Skein_Start_New_Type a ty) = skein_view (Skein_Start_New_Type b ty)"
  by (cases a; cases b) (simp add: skein_view_def Skein_Start_New_Type_def)

lemma view_hashBitLen: "skein_view a = skein_view b \<Longrightarrow> hashBitLen a = hashBitLen b"
  by (cases a; cases b) (simp add: skein_view_def)

lemma hashBitLen_absorb: "hashBitLen (skein_absorb W cf v) = hashBitLen v"
proof (induction W cf v rule: skein_absorb.induct)
  case (1 W cf v)
  then show ?case by (subst skein_absorb.simps) simp
qed

lemma hashBitLen_Update:
  "skein_inv (state_words s) ctx \<Longrightarrow>
   hashBitLen (Skein_Update (state_words s) (state_comp s) ctx msg) = hashBitLen ctx"
  using arg_cong [OF sk.Update_absorb [of s ctx msg], of hashBitLen]
  by (simp add: hashBitLen_absorb) (simp add: skein_view_def)

lemma macSkeinCtx_step:
  assumes ready: "mac_ready c0 c"
    and start: "Skein_Start_New_Type (ctx_m c0) SKEIN_T1_BLK_TYPE_MSG = ctx_m c0"
    and save: "take (state_words (skeinSize c0)) (XSave c0) = chainX (ctx_m c0)"
    and call: "macSkeinCtx c d = (c', mac)"
  shows "mac_ready c0 c'" "mac_ready c0 c0 \<Longrightarrow> mac = snd (macSkeinCtx c0 d)"
proof -
  let ?s = "skeinSize c0"
  let ?m = "fst (Skein_Final (state_words ?s) (state_comp ?s) (Skein_Update (state_words ?s) (state_comp ?s) (ctx_m c) d))"
  have inv: "skein_inv (state_words ?s) (ctx_m c)" "length (XSave c) = 16" "skeinSize c = ?s"
    and c: "XSave c = XSave c0" "skein_view (ctx_m c) = skein_view (ctx_m c0)"
    using ready by (auto simp: mac_ready_def api_inv_def)
  have shape: "length (partial_buf ?m) = 8 * state_words ?s" "length (chainX ?m) = state_words ?s"
    "hashBitLen ?m = hashBitLen (ctx_m c0)"
    using sk.Final_shape [OF sk.Update_inv [OF inv(1)], of d] hashBitLen_Update [OF inv(1), of d]
      view_hashBitLen [OF c(2)]
    by (metis prod.collapse)+
  have X: "memcpy_at (chainX ?m) 0 (take (state_words ?s) (XSave c0)) = chainX (ctx_m c0)"
    "length (chainX (ctx_m c0)) = state_words ?s"
    using shape(2) save inv(2) c(1) state_words_le [of ?s]
    by (simp_all add: memcpy_at_def save [symmetric])
  have c': "c' = c\<lparr>ctx_m := Skein_Start_New_Type (?m\<lparr>chainX := chainX (ctx_m c0)\<rparr>) SKEIN_T1_BLK_TYPE_MSG\<rparr>"
    using call inv(3) X(1) c(1)
    by (simp add: macSkeinCtx_def skeinUpdate_eq skeinFinal_eq skeinReset_def Let_def)
  have "skein_view (ctx_m c') = skein_view (ctx_m c0)"
    unfolding c' using view_Start [of "?m\<lparr>chainX := chainX (ctx_m c0)\<rparr>" "ctx_m c0"] shape(3) start
    by simp
  moreover have "api_inv c'"
    using sk.Start_New_Type_inv [of "?m\<lparr>chainX := chainX (ctx_m c0)\<rparr>" ?s] shape inv X(2)
    by (simp add: c' api_inv_def)
  ultimately show "mac_ready c0 c'"
    using inv c by (simp add: mac_ready_def c')
  show "mac = snd (macSkeinCtx c0 d)" if "mac_ready c0 c0"
  proof -
    have inv0: "skein_inv (state_words ?s) (ctx_m c0)" using that by (simp add: mac_ready_def api_inv_def)
    have "Skein_Final (state_words ?s) (state_comp ?s) (Skein_Update (state_words ?s) (state_comp ?s) (ctx_m c) d) =
      Skein_Final (state_words ?s) (state_comp ?s) (Skein_Update (state_words ?s) (state_comp ?s) (ctx_m c0) d)"
      using sk.Final_view [OF sk.Update_inv [OF inv(1)] sk.Update_inv [OF inv0]
          sk.Update_cong [OF inv(1) inv0 c(2)]] .
    then show ?thesis
      using call inv(3) by (auto simp: macSkeinCtx_def skeinUpdate_eq skeinFinal_eq Let_def)
  qed
qed

text \<open>The sequence of calls on one context: the codes in order.\<close>

fun mac_session :: "SkeinCtx \<Rightarrow> byte list list \<Rightarrow> byte list list" where
  "mac_session ctx [] = []"
| "mac_session ctx (d # ds) = (let (ctx, mac) = macSkeinCtx ctx d in mac # mac_session ctx ds)"

lemma mac_session_ready:
  assumes start: "Skein_Start_New_Type (ctx_m c0) SKEIN_T1_BLK_TYPE_MSG = ctx_m c0"
    and save: "take (state_words (skeinSize c0)) (XSave c0) = chainX (ctx_m c0)"
    and c0: "mac_ready c0 c0"
  shows "mac_ready c0 c \<Longrightarrow> mac_session c ds = map (\<lambda>d. snd (macSkeinCtx c0 d)) ds"
proof (induction ds arbitrary: c)
  case (Cons d ds)
  obtain c' mac where "macSkeinCtx c d = (c', mac)" by fastforce
  with macSkeinCtx_step [OF Cons.prems start save this] c0 Cons.IH [of c'] show ?case by simp
qed simp

text \<open>
  A Skein MAC context can be reused. A context made by \<^verbatim>\<open>createSkeinMacContext\<close> for a non-zero
  output length and passed to \<^verbatim>\<open>macSkeinCtx\<close> for any sequence of messages gives for each of them
  the code that the one-shot \<^verbatim>\<open>macSkein\<close> computes; nothing of an earlier message leaks into a
  later code.
\<close>
theorem macSkeinCtx_reuse:
  assumes "mac_length \<noteq> 0"
  shows "mac_session (createSkeinMacContext key mac_length sz) ds =
    map (\<lambda>d. macSkein key d mac_length sz) ds"
proof -
  have "macSkein key d mac_length sz = snd (macSkeinCtx (createSkeinMacContext key mac_length sz) d)" for d
    by (simp add: macSkein_def macSkeinCtx_def createSkeinMacContext_def case_prod_unfold Let_def)
  then show ?thesis
    using mac_ready_create [OF assms refl, of key sz] mac_session_ready by auto
qed

theorem macSkeinCtx_reuse_witness:
  "(64 :: 32 word) \<noteq> 0 \<and>
   mac_session (createSkeinMacContext [1, 2] 64 Skein512) [[3], [], [3]] =
   [macSkein [1, 2] [3] 64 Skein512, macSkein [1, 2] [] 64 Skein512, macSkein [1, 2] [3] 64 Skein512]"
  using macSkeinCtx_reuse [of 64 "[1, 2]" Skein512 "[[3], [], [3]]"] by simp

text \<open>
  C32: \<^verbatim>\<open>Update\<close> refines its specification. On a context whose counters are in range the buffered,
  block-wise code leaves the context that results from appending the message to the pending bytes
  and compressing every full block that is followed by a byte, and keeps the counters in range.
\<close>
theorem skeinUpdate_refines:
  assumes "api_inv ctx"
  shows "skein_view (ctx_m (snd (skeinUpdate ctx msg))) =
      skein_absorb (state_words (skeinSize ctx)) (state_comp (skeinSize ctx))
        ((skein_view (ctx_m ctx))\<lparr>partial_buf := partial_buf (skein_view (ctx_m ctx)) @ msg\<rparr>) \<and>
    api_inv (snd (skeinUpdate ctx msg))"
  using assms sk.Update_absorb [of "skeinSize ctx" "ctx_m ctx" msg] sk.Update_inv [of "skeinSize ctx" "ctx_m ctx" msg]
  by (simp add: skeinUpdate_eq api_inv_def)

theorem skeinUpdate_refines_witness:
  "api_inv (snd (skeinCtxPrepare Skein256)) \<and>
   skein_view (ctx_m (snd (skeinUpdate (snd (skeinCtxPrepare Skein256)) [1, 2]))) =
   (ctx_m (snd (skeinCtxPrepare Skein256)))\<lparr>partial_buf := [1, 2], bCnt := 2\<rparr>"
proof -
  let ?c = "snd (skeinCtxPrepare Skein256)"
  have "skein_view (ctx_m ?c) = (ctx_m ?c)\<lparr>partial_buf := []\<rparr>" "state_words (skeinSize ?c) = 4"
    by (simp_all add: skeinCtxPrepare_def skein_view_def)
  then show ?thesis
    using skeinUpdate_refines [OF api_inv_prepare, of Skein256 "[1, 2]"] api_inv_prepare [of Skein256]
    by (simp add: absorb_small numeral_eq_Suc)
qed

lemma unat_bytes:
  assumes "0 < sint (m :: 32 word)"
  shows "unat (drop_bit 3 (scast m + 7 :: u64)) = nat ((sint m + 7) div 8)"
proof -
  have lt: "sint m < 2 ^ 31" using sint_less [of m] by simp
  have u: "uint (scast m :: u64) = sint m"
    unfolding scast_eq using assms lt by (simp add: unsigned_of_int take_bit_int_eq_self del: of_int_sint)
  have "uint (scast m + 7 :: u64) = sint m + 7"
    using u assms lt by (simp add: uint_word_ariths)
  then have "unat (scast m + 7 :: u64) = nat (sint m + 7)"
    by (simp only: unat_eq_nat_uint)
  moreover have "unat (drop_bit 3 w) = unat w div 8" for w :: u64
    using unsigned_less [of w, where 'a = nat] unfolding unsigned_drop_bit_eq
    by (simp add: drop_bit_eq_div take_bit_nat_eq_self)
  ultimately show ?thesis
    using assms by (simp only: nat_div_distrib) simp
qed

lemma macSkein_length:
  assumes "0 < sint mac_length"
  shows "length (macSkein key d mac_length sz) = nat ((sint mac_length + 7) div 8)"
proof -
  let ?h = "scast mac_length :: u64" and ?p = "snd (skeinCtxPrepare sz)"
  let ?m = "Skein_InitExt (state_words sz) (state_comp sz) (ctx_m ?p) ?h SKEIN_CFG_TREE_INFO_SEQUENTIAL key"
  have "mac_length \<noteq> 0" using assms by auto
  then have "?h \<noteq> 0" using scast_eq_0 by blast
  then have mac: "macSkein key d mac_length sz =
      snd (Skein_Final (state_words sz) (state_comp sz) (Skein_Update (state_words sz) (state_comp sz) ?m d))"
    by (simp add: macSkein_def skeinMacInit_eq skein_save_def skeinUpdate_eq skeinFinal_eq
        case_prod_unfold Let_def) (simp add: skeinCtxPrepare_def)
  have m: "skein_inv (state_words sz) ?m" "hashBitLen ?m = ?h"
    using sk.InitExt_shape [of "ctx_m ?p" sz] by (simp_all add: skeinCtxPrepare_def)
  have "length (macSkein key d mac_length sz) = unat (drop_bit 3 (?h + 7))"
    using sk.Final_shape(1) [OF sk.Update_inv [OF m(1)], of d] hashBitLen_Update [OF m(1), of d] m(2)
    unfolding mac by (metis prod.collapse)
  also have "\<dots> = nat ((sint mac_length + 7) div 8)"
    using assms by (rule unat_bytes)
  finally show ?thesis .
qed

lemma macSkeinCtx_chunks_eq:
  "api_inv c \<Longrightarrow> macSkeinCtx_chunks c ds = macSkeinCtx c (concat ds)"
  using skeinFinal_chunks [of c ds]
  by (simp add: macSkeinCtx_chunks_def macSkeinCtx_def case_prod_unfold Let_def)

lemma macSkeinCtx_chunks_ready:
  assumes "mac_length \<noteq> 0" "mac_ready (createSkeinMacContext key mac_length sz) c"
    "macSkeinCtx_chunks c ds = (c', mac)"
  shows "mac_ready (createSkeinMacContext key mac_length sz) c'" "mac = macSkein key (concat ds) mac_length sz"
proof -
  let ?c0 = "createSkeinMacContext key mac_length sz"
  note r = mac_ready_create [OF assms(1) refl, of key sz]
  have "api_inv c" using assms(2) by (simp add: mac_ready_def)
  then have call: "macSkeinCtx c (concat ds) = (c', mac)" using assms(3) by (simp add: macSkeinCtx_chunks_eq)
  show "mac_ready ?c0 c'" by (rule macSkeinCtx_step(1) [OF assms(2) r(2,3) call])
  have "mac = snd (macSkeinCtx ?c0 (concat ds))" by (rule macSkeinCtx_step(2) [OF assms(2) r(2,3) call r(1)])
  then show "mac = macSkein key (concat ds) mac_length sz"
    by (simp add: macSkeinCtx_def createSkeinMacContext_def macSkein_def case_prod_unfold Let_def)
qed

text \<open>
  The length of the code. The one-shot function writes exactly \<open>(mac_length + 7) div 8\<close> bytes
  for every non-negative output length, over any key and message.
\<close>
theorem length_macSkein:
  assumes "0 < sint mac_length"
  shows "length (macSkein key d mac_length sz) = nat ((sint mac_length + 7) div 8)"
  using assms by (rule macSkein_length)

theorem length_macSkein_witness:
  "0 < sint (33 :: 32 word) \<and> length (macSkein [1] [2] 33 Skein256) = 5"
  using length_macSkein [of 33 "[1]" "[2]" Skein256] by simp

end
