(* ===== verification/Crypto_Context.thy ===== *)
theory Crypto_Context
  imports Sym_Crypto Skein_Api Rtp_Packet
begin

text \<open>
  The SRTP cryptographic context: \<^verbatim>\<open>src/src/CryptoContext.cpp\<close> with its header, and the HMAC
  wrappers of \<^verbatim>\<open>src/src/ccrtp/crypto/openssl/hmac.cpp\<close>. OpenSSL's HMAC functions are the parameter
  \<open>hm\<close>, its AES functions the parameter \<open>aes\<close>. The byte arrays of the class are lists, so that their
  length fields are the lengths of the lists where the class allocates them from the lengths. What
  has no defined result in C (a shift by a negative amount or by 64, a call through a null pointer,
  a read past an array) is \<open>None\<close>.
\<close>

section \<open>HMAC-SHA1\<close>

text \<open>
  The HMAC functions of OpenSSL: a fresh context for a key (\<^verbatim>\<open>HMAC_CTX_init\<close> and \<^verbatim>\<open>HMAC_Init_ex\<close>), the
  same context started again (\<^verbatim>\<open>HMAC_Init_ex\<close> without a key), more data, and the code.
\<close>

record 'hm hmac_lib =
  HMAC_Init_key :: "byte list \<Rightarrow> 'hm"
  HMAC_Init_again :: "'hm \<Rightarrow> 'hm"
  HMAC_Update :: "'hm \<Rightarrow> byte list \<Rightarrow> 'hm"
  HMAC_Final :: "'hm \<Rightarrow> 'hm \<times> byte list"
  HMAC :: "byte list \<Rightarrow> byte list \<Rightarrow> byte list"

definition hmac_sha1 :: "'hm hmac_lib \<Rightarrow> byte list \<Rightarrow> byte list \<Rightarrow> byte list" where
  "hmac_sha1 hm key data = HMAC hm key data"

definition hmac_sha1_chunks :: "'hm hmac_lib \<Rightarrow> byte list \<Rightarrow> byte list list \<Rightarrow> byte list" where
  "hmac_sha1_chunks hm key data_chunks =
     snd (HMAC_Final hm (foldl (HMAC_Update hm) (HMAC_Init_key hm key) data_chunks))"

definition createSha1HmacContext :: "'hm hmac_lib \<Rightarrow> byte list \<Rightarrow> 'hm" where
  "createSha1HmacContext hm key = HMAC_Init_key hm key"

definition hmacSha1Ctx :: "'hm hmac_lib \<Rightarrow> 'hm \<Rightarrow> byte list \<Rightarrow> 'hm \<times> byte list" where
  "hmacSha1Ctx hm ctx data = HMAC_Final hm (HMAC_Update hm (HMAC_Init_again hm ctx) data)"

definition hmacSha1Ctx_chunks :: "'hm hmac_lib \<Rightarrow> 'hm \<Rightarrow> byte list list \<Rightarrow> 'hm \<times> byte list" where
  "hmacSha1Ctx_chunks hm ctx data = HMAC_Final hm (foldl (HMAC_Update hm) (HMAC_Init_again hm ctx) data)"

section \<open>The context\<close>

datatype srtp_aalg = SrtpAuthenticationNull | SrtpAuthenticationSha1Hmac | SrtpAuthenticationSkeinHmac

text \<open>The pointer \<^verbatim>\<open>macCtx\<close>: no constructor sets it, \<^verbatim>\<open>deriveSrtpKeys\<close> does.\<close>

datatype 'hm mac_ctx = MacUnset | MacSha1 'hm | MacSkein SkeinCtx

definition REPLAY_WINDOW_SIZE :: int where "REPLAY_WINDOW_SIZE = 64"

record ('ak, 'hm) CryptoContext =
  ssrcCtx :: u32
  mkiLength :: u32
  roc :: u32
  guessed_roc :: u32
  s_l :: u16
  key_deriv_rate :: u64
  replay_window :: u64
  master_key :: "byte list"
  master_salt :: "byte list"
  n_e :: nat
  k_e :: "byte list"
  n_a :: nat
  k_a :: "byte list"
  n_s :: nat
  k_s :: "byte list"
  ealg :: srtp_ealg
  aalg :: srtp_aalg
  ekeyl :: nat
  akeyl :: nat
  skeyl :: nat
  tagLength :: nat
  seqNumSet :: bool
  macCtx :: "'hm mac_ctx"
  cipher :: "'ak SrtpSymCrypto option"
  f8Cipher :: "'ak SrtpSymCrypto option"

definition newCryptoContext_null :: "nat \<Rightarrow> u32 \<Rightarrow> ('ak, 'hm) CryptoContext" where
  "newCryptoContext_null unset ssrc =
     \<lparr>ssrcCtx = ssrc, mkiLength = 0, roc = 0, guessed_roc = 0, s_l = 0, key_deriv_rate = 0,
      replay_window = 0, master_key = [], master_salt = [], n_e = 0, k_e = [], n_a = 0, k_a = [],
      n_s = 0, k_s = [], ealg = SrtpEncryptionNull, aalg = SrtpAuthenticationNull,
      ekeyl = 0, akeyl = 0, skeyl = 0, tagLength = unset, seqNumSet = False, macCtx = MacUnset,
      cipher = None, f8Cipher = None\<rparr>"

definition newCryptoContext ::
  "(nat \<Rightarrow> byte) \<Rightarrow> u32 \<Rightarrow> u32 \<Rightarrow> u64 \<Rightarrow> srtp_ealg \<Rightarrow> srtp_aalg \<Rightarrow> byte list \<Rightarrow> byte list
   \<Rightarrow> nat \<Rightarrow> nat \<Rightarrow> nat \<Rightarrow> nat \<Rightarrow> ('ak, 'hm) CryptoContext" where
  "newCryptoContext mem ssrc r kdr ea aa mkey msalt ekl akl skl tagl =
     (let c = (newCryptoContext_null 0 ssrc)
            \<lparr>roc := r, key_deriv_rate := kdr, ealg := ea, aalg := aa, ekeyl := ekl, akeyl := akl,
             skeyl := skl, master_key := mkey, master_salt := msalt\<rparr>;
          keyed = (\<lambda>c. c\<lparr>n_e := ekl, k_e := map mem [0..<ekl], n_s := skl, k_s := map mem [0..<skl]\<rparr>);
          c = (case ea of
                 SrtpEncryptionNull \<Rightarrow> c\<lparr>n_e := 0, k_e := [], n_s := 0, k_s := []\<rparr>
               | SrtpEncryptionTWOF8 \<Rightarrow>
                   (keyed (c\<lparr>f8Cipher := Some (newSrtpSymCrypto SrtpEncryptionTWOF8)\<rparr>))
                     \<lparr>cipher := Some (newSrtpSymCrypto SrtpEncryptionTWOCM)\<rparr>
               | SrtpEncryptionTWOCM \<Rightarrow>
                   (keyed c)\<lparr>cipher := Some (newSrtpSymCrypto SrtpEncryptionTWOCM)\<rparr>
               | SrtpEncryptionAESF8 \<Rightarrow>
                   (keyed (c\<lparr>f8Cipher := Some (newSrtpSymCrypto SrtpEncryptionAESF8)\<rparr>))
                     \<lparr>cipher := Some (newSrtpSymCrypto SrtpEncryptionAESCM)\<rparr>
               | SrtpEncryptionAESCM \<Rightarrow>
                   (keyed c)\<lparr>cipher := Some (newSrtpSymCrypto SrtpEncryptionAESCM)\<rparr>)
      in case aa of
           SrtpAuthenticationNull \<Rightarrow> c\<lparr>n_a := 0, k_a := [], tagLength := 0\<rparr>
         | _ \<Rightarrow> c\<lparr>n_a := akl, k_a := map mem [0..<akl], tagLength := tagl\<rparr>)"

definition newCryptoContextForSSRC ::
  "(nat \<Rightarrow> byte) \<Rightarrow> ('ak, 'hm) CryptoContext \<Rightarrow> u32 \<Rightarrow> u32 \<Rightarrow> u64 \<Rightarrow> ('ak, 'hm) CryptoContext" where
  "newCryptoContextForSSRC mem c ssrc r keyDerivRate =
     newCryptoContext mem ssrc r keyDerivRate (ealg c) (aalg c) (master_key c) (master_salt c)
       (ekeyl c) (akeyl c) (skeyl c) (tagLength c)"

section \<open>Key derivation\<close>

text \<open>A salt of fewer than fourteen bytes is read past its end.\<close>

definition computeIv :: "u64 \<Rightarrow> u64 \<Rightarrow> u64 \<Rightarrow> byte list \<Rightarrow> byte list option" where
  "computeIv label index kdv salt =
     (let key_id = (if kdv = 0 then push_bit 48 label else push_bit 48 label OR (index div kdv)) in
      if length salt < 14 then None
      else Some (map (\<lambda>i. salt ! i) [0..<7] @
                 map (\<lambda>i. ucast (0xFF AND drop_bit (8 * (13 - i)) key_id) XOR salt ! i) [7..<14] @ [0, 0]))"

definition session_key ::
  "'ak aes_lib \<Rightarrow> 'ak SrtpSymCrypto \<Rightarrow> u64 \<Rightarrow> u64 \<Rightarrow> u64 \<Rightarrow> byte list \<Rightarrow> byte list \<Rightarrow> nat \<Rightarrow> byte list option" where
  "session_key aes c label index kdv salt out n =
     do { iv \<leftarrow> computeIv label index kdv salt;
          (k, _) \<leftarrow> get_ctr_cipher_stream aes c out n iv;
          Some k }"

definition derive_f8 ::
  "'ak aes_lib \<Rightarrow> tf_env \<Rightarrow> 'ak SrtpSymCrypto option \<Rightarrow> byte list \<Rightarrow> nat \<Rightarrow> byte list \<Rightarrow> nat
   \<Rightarrow> (tf_env \<times> 'ak SrtpSymCrypto option) option" where
  "derive_f8 aes env f8c ke ne ks ns =
     (case f8c of
        None \<Rightarrow> Some (env, None)
      | Some f8 \<Rightarrow> map_option (apsnd Some) (f8_deriveForIV aes env f8 ke (int ne) ks (int ns)))"

definition deriveSrtpKeys ::
  "'ak aes_lib \<Rightarrow> 'hm hmac_lib \<Rightarrow> tf_env \<Rightarrow> ('ak, 'hm) CryptoContext \<Rightarrow> u64
   \<Rightarrow> (tf_env \<times> ('ak, 'hm) CryptoContext) option" where
  "deriveSrtpKeys aes hm env ctx index =
     do { ci \<leftarrow> cipher ctx;
          (_, env, ci) \<leftarrow> setNewKey aes env ci (master_key ctx) (int (length (master_key ctx)));
          let ctx = ctx\<lparr>master_key := replicate (length (master_key ctx)) 0\<rparr>;
          ke \<leftarrow> session_key aes ci 0 index (key_deriv_rate ctx) (master_salt ctx) (k_e ctx) (n_e ctx);
          ka \<leftarrow> session_key aes ci 1 index (key_deriv_rate ctx) (master_salt ctx) (k_a ctx) (n_a ctx);
          let ctx = (case aalg ctx of
                 SrtpAuthenticationSha1Hmac \<Rightarrow> ctx\<lparr>macCtx := MacSha1 (createSha1HmacContext hm ka)\<rparr>
               | SrtpAuthenticationSkeinHmac \<Rightarrow>
                   ctx\<lparr>macCtx := MacSkein (createSkeinMacContext ka (of_nat (tagLength ctx * 8)) Skein512)\<rparr>
               | SrtpAuthenticationNull \<Rightarrow> ctx);
          let ctx = ctx\<lparr>k_a := replicate (n_a ctx) 0\<rparr>;
          ks \<leftarrow> session_key aes ci 2 index (key_deriv_rate ctx) (master_salt ctx) (k_s ctx) (n_s ctx);
          let ctx = ctx\<lparr>k_s := ks, master_salt := replicate (length (master_salt ctx)) 0\<rparr>;
          (_, env, ci) \<leftarrow> setNewKey aes env ci ke (int (n_e ctx));
          (env, f8) \<leftarrow> derive_f8 aes env (f8Cipher ctx) ke (n_e ctx) ks (n_s ctx);
          Some (env, ctx\<lparr>k_e := replicate (n_e ctx) 0, cipher := Some ci, f8Cipher := f8\<rparr>) }"

section \<open>Packet index and replay protection\<close>

definition packet_index :: "u32 \<Rightarrow> u16 \<Rightarrow> u64" where
  "packet_index r sq = push_bit 16 (ucast r) OR ucast sq"

definition guessIndex :: "('ak, 'hm) CryptoContext \<Rightarrow> u16 \<Rightarrow> u64 \<times> ('ak, 'hm) CryptoContext" where
  "guessIndex ctx new_seq_nb =
     (let ctx = (if \<not> seqNumSet ctx then ctx\<lparr>seqNumSet := True, s_l := new_seq_nb\<rparr> else ctx);
          g = (if s_l ctx < 32768 then
                 (if uint new_seq_nb - uint (s_l ctx) > 32768 then roc ctx - 1 else roc ctx)
               else
                 (if uint (s_l ctx) - 32768 > uint new_seq_nb then roc ctx + 1 else roc ctx))
      in (packet_index g new_seq_nb, ctx\<lparr>guessed_roc := g\<rparr>))"

text \<open>The signed difference of two packet indices, in 64 bits.\<close>

definition index_delta :: "u64 \<Rightarrow> u64 \<Rightarrow> int" where
  "index_delta a b = sint (a - b)"

text \<open>Shifts by 64 or more, or by a negative amount, have no defined result: \<open>None\<close>.\<close>

definition checkReplay :: "('ak, 'hm) CryptoContext \<Rightarrow> u16 \<Rightarrow> (bool \<times> ('ak, 'hm) CryptoContext) option" where
  "checkReplay ctx new_seq_nb =
     (if aalg ctx = SrtpAuthenticationNull \<and> ealg ctx = SrtpEncryptionNull then Some (True, ctx)
      else
        let ctx = (if \<not> seqNumSet ctx then ctx\<lparr>seqNumSet := True, s_l := new_seq_nb\<rparr> else ctx);
            (guessed_index, ctx) = guessIndex ctx new_seq_nb;
            local_index = packet_index (roc ctx) (s_l ctx);
            delta = index_delta guessed_index local_index
        in if delta > 0 then Some (True, ctx)
           else if - delta > REPLAY_WINDOW_SIZE then Some (False, ctx)
           else if - delta \<ge> 64 then None
           else if odd (drop_bit (nat (- delta)) (replay_window ctx)) then Some (False, ctx)
           else Some (True, ctx))"

definition update :: "('ak, 'hm) CryptoContext \<Rightarrow> u16 \<Rightarrow> ('ak, 'hm) CryptoContext option" where
  "update ctx new_seq_nb =
     (let (gi, ctx) = guessIndex ctx new_seq_nb;
          delta = index_delta gi (packet_index (roc ctx) (s_l ctx))
      in do {
        ctx \<leftarrow> (if delta > 0 then
                 (if delta \<ge> 64 then None
                  else Some (ctx\<lparr>replay_window := push_bit (nat delta) (replay_window ctx) OR 1\<rparr>))
               else if delta = 0 then Some (ctx\<lparr>replay_window := replay_window ctx OR 1\<rparr>)
               else None);
        let ctx = (if new_seq_nb > s_l ctx then ctx\<lparr>s_l := new_seq_nb\<rparr> else ctx);
        Some (if guessed_roc ctx > roc ctx then ctx\<lparr>roc := guessed_roc ctx, s_l := new_seq_nb\<rparr> else ctx) })"

section \<open>Encryption and authentication of a packet\<close>

definition cm_iv :: "byte list \<Rightarrow> u32 \<Rightarrow> u64 \<Rightarrow> byte list" where
  "cm_iv ks ssrc index =
     take 4 ks @
     map (\<lambda>i. ucast (0xFF AND drop_bit ((7 - i) * 8) ssrc) XOR ks ! i) [4..<8] @
     map (\<lambda>i. (0xFF AND ucast (drop_bit ((13 - i) * 8) index)) XOR ks ! i) [8..<14] @ [0, 0]"

definition f8_iv :: "byte list \<Rightarrow> u32 \<Rightarrow> byte list" where
  "f8_iv raw r = memcpy_at ((take 12 raw @ replicate 4 0)[0 := 0]) 12 (be32 r)"

text \<open>The part of the packet that is encrypted: the payload and the padding.\<close>

definition crypt_len :: "'a RTPPacket_scheme \<Rightarrow> u32" where
  "crypt_len rtp = payloadSize rtp + (if isPadded rtp then ucast (getPaddingSize rtp) else 0)"

definition srtpEncrypt ::
  "'ak aes_lib \<Rightarrow> ('ak, 'hm) CryptoContext \<Rightarrow> 'a RTPPacket_scheme \<Rightarrow> u64 \<Rightarrow> u32
   \<Rightarrow> 'a RTPPacket_scheme option" where
  "srtpEncrypt aes ctx rtp index ssrc =
     (if ealg ctx = SrtpEncryptionNull then Some rtp
      else
        let off = unat (hdrSize rtp); len = unat (crypt_len rtp);
            data = take len (drop off (pbuffer rtp))
        in if off + len > length (pbuffer rtp) then None
           else if ealg ctx = SrtpEncryptionAESCM \<or> ealg ctx = SrtpEncryptionTWOCM then
             (if length (k_s ctx) < 14 then None
              else do { ci \<leftarrow> cipher ctx;
                        (out, _) \<leftarrow> ctr_encrypt aes ci data (cm_iv (k_s ctx) ssrc index);
                        Some (rtp\<lparr>pbuffer := memcpy_at (pbuffer rtp) off out\<rparr>) })
           else do { ci \<leftarrow> cipher ctx;
                     f8 \<leftarrow> f8Cipher ctx;
                     out \<leftarrow> f8_encrypt aes ci data (f8_iv (getRawPacket rtp) (roc ctx)) f8;
                     Some (rtp\<lparr>pbuffer := memcpy_at (pbuffer rtp) off out\<rparr>) })"

text \<open>The code is computed in a buffer of twenty bytes and its first bytes are copied to \<open>tag\<close>.\<close>

definition srtpAuthenticate ::
  "'hm hmac_lib \<Rightarrow> ('ak, 'hm) CryptoContext \<Rightarrow> 'a RTPPacket_scheme \<Rightarrow> u32 \<Rightarrow> byte list
   \<Rightarrow> (('ak, 'hm) CryptoContext \<times> byte list) option" where
  "srtpAuthenticate hm ctx rtp r tag =
     (let chunks = [getRawPacket rtp, be32 r];
          finish = (\<lambda>mc temp. if tagLength ctx > 20 \<or> length temp > 20 then None
                     else Some (ctx\<lparr>macCtx := mc\<rparr>, memcpy_at tag 0 (take (tagLength ctx) temp)))
      in case aalg ctx of
           SrtpAuthenticationNull \<Rightarrow> Some (ctx, tag)
         | SrtpAuthenticationSha1Hmac \<Rightarrow>
             (case macCtx ctx of
                MacSha1 m \<Rightarrow> let (m, temp) = hmacSha1Ctx_chunks hm m chunks in finish (MacSha1 m) temp
              | _ \<Rightarrow> None)
         | SrtpAuthenticationSkeinHmac \<Rightarrow>
             (case macCtx ctx of
                MacSkein m \<Rightarrow> let (m, temp) = macSkeinCtx_chunks m chunks in finish (MacSkein m) temp
              | _ \<Rightarrow> None))"

end
