(* ===== verification/Srtp_Replay.thy ===== *)
theory Srtp_Replay
  imports Crypto_Context
begin

text \<open>
  The packet index and the replay window of the SRTP context: what \<^verbatim>\<open>guessIndex\<close>, \<^verbatim>\<open>checkReplay\<close> and
  \<^verbatim>\<open>update\<close> of \<^verbatim>\<open>src/src/CryptoContext.cpp\<close> compute, against the set of the indices accepted so far.
\<close>

section \<open>Packet indices\<close>

lemma unat_u16_less: "unat (x :: u16) < 65536"
  using unsigned_less [of x, where 'a = nat] by simp

lemma unat_u32_less: "unat (x :: u32) < 4294967296"
  using unsigned_less [of x, where 'a = nat] by simp

lemma unat_packet_index: "unat (packet_index r s) = unat r * 65536 + unat s"
proof -
  have "push_bit 16 (ucast r) OR ucast s = (push_bit 16 (ucast r) + ucast s :: u64)"
    by (rule disjunctive_add [symmetric]) (auto simp: bit_simps dest: bit_imp_le_length)
  also have "unat \<dots> = unat r * 65536 + unat s"
  proof -
    have 1: "unat (push_bit 16 (ucast r) :: u64) = unat r * 65536"
      using unat_u32_less [of r]
      by (simp add: push_bit_eq_mult unat_word_ariths unsigned_ucast_eq take_bit_nat_eq_self)
    have 2: "unat (ucast s :: u64) = unat s"
      using unat_u16_less [of s] by (simp add: unsigned_ucast_eq take_bit_nat_eq_self)
    have "unat (push_bit 16 (ucast r) :: u64) + unat (ucast s :: u64) < 2 ^ LENGTH(64)"
      unfolding 1 2 using unat_u32_less [of r] unat_u16_less [of s] by simp
    then show ?thesis by (simp add: unat_word_ariths 1 2)
  qed
  finally show ?thesis unfolding packet_index_def .
qed

definition local_index :: "('ak, 'hm) CryptoContext \<Rightarrow> nat" where
  "local_index c = unat (packet_index (roc c) (s_l c))"

lemma packet_index_less: "unat (packet_index r s) < 281474976710656"
  using unat_u16_less [of s] unat_u32_less [of r] by (simp add: unat_packet_index)

lemma index_delta_eq:
  "index_delta (packet_index r s) (packet_index r' s') =
     int (unat (packet_index r s)) - int (unat (packet_index r' s'))"
proof -
  let ?a = "packet_index r s" and ?b = "packet_index r' s'"
  have "int (unat ?a) < 281474976710656" "int (unat ?b) < 281474976710656"
    using packet_index_less [of r s] packet_index_less [of r' s'] by linarith+
  then have "uint ?a < 281474976710656" "uint ?b < 281474976710656" by simp_all
  then have b: "- 281474976710656 < uint ?a - uint ?b" "uint ?a - uint ?b < 281474976710656"
    using uint_ge_0 [of ?a] uint_ge_0 [of ?b] by linarith+
  have "?a - ?b = word_of_int (uint ?a - uint ?b)" by simp
  then have "sint (?a - ?b) = signed_take_bit 63 (uint ?a - uint ?b)"
    by (simp only: signed_of_int) simp
  also have "\<dots> = uint ?a - uint ?b"
    using b by (intro signed_take_bit_int_eq_self) simp_all
  finally show ?thesis by (simp add: index_delta_def)
qed

lemma guessIndex_unset:
  assumes "\<not> seqNumSet c"
  shows "guessIndex c sq = (packet_index (roc c) sq, c\<lparr>seqNumSet := True, s_l := sq, guessed_roc := roc c\<rparr>)"
  using assms by (simp add: guessIndex_def Let_def)

definition guessed :: "('ak, 'hm) CryptoContext \<Rightarrow> u16 \<Rightarrow> u32" where
  "guessed c sq = guessed_roc (snd (guessIndex c sq))"

lemma guessIndex_set:
  assumes "seqNumSet c"
  shows "guessIndex c sq = (packet_index (guessed c sq) sq, c\<lparr>guessed_roc := guessed c sq\<rparr>)"
  using assms by (simp add: guessed_def guessIndex_def Let_def)

lemma uint_guessed:
  assumes "seqNumSet c" "0 < roc c" "roc c \<noteq> - 1"
  shows "uint (guessed c sq) =
    (if uint (s_l c) < 32768 then (if uint sq - uint (s_l c) > 32768 then uint (roc c) - 1 else uint (roc c))
     else if uint (s_l c) - 32768 > uint sq then uint (roc c) + 1 else uint (roc c))"
proof -
  have b: "0 \<le> uint (roc c)" "uint (roc c) < 4294967296"
    using unsigned_less [of "roc c", where 'a = int] by simp_all
  have "uint (roc c) \<noteq> uint (0 :: u32)" "uint (roc c) \<noteq> uint (- 1 :: u32)"
    using assms(2,3) by (metis unsigned_word_eqI less_irrefl)+
  then have n: "uint (roc c) \<noteq> 0" "uint (roc c) \<noteq> 4294967295"
    by (simp_all add: unsigned_minus_1_eq_mask mask_eq_exp_minus_1)
  then have "1 \<le> uint (roc c)" using b(1) by linarith
  then have m: "uint (roc c - 1) = uint (roc c) - 1"
    using b mod_pos_pos_trivial [of "uint (roc c) - 1" 4294967296] by (simp add: uint_word_ariths)
  have p: "uint (roc c + 1) = uint (roc c) + 1"
    using b n by (simp add: uint_word_ariths mod_pos_pos_trivial)
  show ?thesis
    using assms(1) m p by (simp add: guessed_def guessIndex_def Let_def word_less_def)
qed

section \<open>Index estimation\<close>

lemma uint_guessed_mod:
  assumes "seqNumSet c"
  shows "uint (guessed c sq) =
    (if uint (s_l c) < 32768 then (if uint sq - uint (s_l c) > 32768 then uint (roc c) - 1 else uint (roc c))
     else if uint (s_l c) - 32768 > uint sq then uint (roc c) + 1 else uint (roc c)) mod 4294967296"
proof -
  have "uint (roc c) mod 4294967296 = uint (roc c)"
    using unsigned_less [of "roc c", where 'a = int] by (intro mod_pos_pos_trivial) simp_all
  then show ?thesis
    using assms by (simp add: guessed_def guessIndex_def Let_def word_less_def uint_word_ariths)
qed

lemma closest_in_class:
  fixes x :: int
  assumes "j mod 65536 = k mod 65536" "\<bar>j - x\<bar> \<le> 32768"
  shows "\<bar>j - x\<bar> \<le> \<bar>k - x\<bar>"
proof (cases "k = j")
  case False
  from assms(1) obtain m where m: "k - j = 65536 * m" by (metis mod_eq_dvd_iff dvdE)
  then have "65536 \<le> \<bar>k - j\<bar>" using False by (simp add: abs_mult)
  then show ?thesis using assms(2) by linarith
qed simp

text \<open>
  C22: the index estimate. Once a sequence number has been seen, the index that \<^verbatim>\<open>guessIndex\<close> gives for a sequence number is,
  modulo \<^term>\<open>2 ^ 48 :: nat\<close>, the integer that ends in that number and is closest to the local index: it is at most half a
  cycle away from it and no integer that ends in the number is closer. It is that integer itself unless the rollover counter is
  zero or at its last value; there the closest integer may lie below zero or above the last index, and the estimate is its
  remainder (with the counter at zero, a number more than half a cycle above gives the counter \<open>2 ^ 32 - 1\<close>).
\<close>
theorem guessIndex_closest:
  assumes "seqNumSet c" "guessIndex c sq = (i, c')"
  shows "\<exists>j. j mod 65536 = uint sq \<and> \<bar>j - int (local_index c)\<bar> \<le> 32768 \<and>
    (\<forall>k. k mod 65536 = uint sq \<longrightarrow> \<bar>j - int (local_index c)\<bar> \<le> \<bar>k - int (local_index c)\<bar>) \<and>
    int (unat i) = j mod 2 ^ 48 \<and> (0 < roc c \<and> roc c \<noteq> - 1 \<longrightarrow> int (unat i) = j)"
proof -
  define l where "l = uint (s_l c)"
  define r where "r = uint (roc c)"
  define s where "s = uint sq"
  define g where "g = (if l < 32768 then (if s - l > 32768 then r - 1 else r) else if l - 32768 > s then r + 1 else r)"
  let ?j = "g * 65536 + s"
  have i: "i = packet_index (guessed c sq) sq" using guessIndex_set [OF assms(1), of sq] assms(2) by simp
  have ui: "int (unat i) = uint (guessed c sq) * 65536 + s" and ul: "int (local_index c) = r * 65536 + l"
    by (simp_all add: i unat_packet_index local_index_def s_def r_def l_def)
  have b: "0 \<le> l" "l < 65536" "0 \<le> s" "s < 65536"
    using unsigned_less [of sq, where 'a = int] unsigned_less [of "s_l c", where 'a = int] by (simp_all add: l_def s_def)
  have gm: "uint (guessed c sq) = g mod 4294967296"
    using uint_guessed_mod [OF assms(1), of sq] by (simp add: g_def l_def r_def s_def)
  have js: "?j mod 65536 = s" using b by simp
  have d: "\<bar>?j - int (local_index c)\<bar> \<le> 32768" using b by (auto simp: g_def ul)
  have m: "int (unat i) = ?j mod 2 ^ 48"
  proof -
    have "0 \<le> (g mod 4294967296) * 65536 + s" by (simp add: b(3))
    moreover have "(g mod 4294967296) * 65536 + s < 2 ^ 48" using b(4) pos_mod_bound [of 4294967296 g] by simp
    moreover have "?j = (g mod 4294967296) * 65536 + s + (g div 4294967296) * 2 ^ 48"
      using arg_cong [OF div_mult_mod_eq [of g 4294967296], of "\<lambda>x. x * 65536"] by (simp only: distrib_right mult.assoc) simp
    then have "?j mod 2 ^ 48 = ((g mod 4294967296) * 65536 + s) mod 2 ^ 48" by (simp only: mod_mult_self1)
    ultimately show ?thesis using ui gm by simp
  qed
  have n: "\<bar>?j - int (local_index c)\<bar> \<le> \<bar>k - int (local_index c)\<bar>" if "k mod 65536 = uint sq" for k
    using js that by (intro closest_in_class d) (simp add: s_def)
  have "int (unat i) = ?j" if "0 < roc c \<and> roc c \<noteq> - 1"
    using uint_guessed [OF assms(1), of sq] that ui by (simp add: g_def l_def r_def s_def)
  then show ?thesis using js d m n by (intro exI [of _ ?j] conjI allI impI) (simp_all add: s_def)
qed

definition sample_rx :: "u16 \<Rightarrow> (byte list, byte list) CryptoContext" where
  "sample_rx sq = (newCryptoContext (\<lambda>_. 0) 7 5 0 SrtpEncryptionAESCM SrtpAuthenticationSha1Hmac
     (replicate 16 1) (replicate 14 2) 16 20 14 10)\<lparr>s_l := sq, seqNumSet := True\<rparr>"

definition first_rx :: "u16 \<Rightarrow> (byte list, byte list) CryptoContext" where
  "first_rx sq = (sample_rx sq)\<lparr>roc := 0\<rparr>"

theorem guessIndex_closest_witness:
  "(\<exists>j. j mod 65536 = uint (3 :: u16) \<and> \<bar>j - int (local_index (sample_rx 65530))\<bar> \<le> 32768 \<and>
     int (unat (fst (guessIndex (sample_rx 65530) 3))) = j) \<and> fst (guessIndex (sample_rx 65530) 3) = 6 * 65536 + 3 \<and>
   (\<exists>j. j mod 65536 = uint (65000 :: u16) \<and> \<bar>j - int (local_index (first_rx 10))\<bar> \<le> 32768 \<and>
     int (unat (fst (guessIndex (first_rx 10) 65000))) = j mod 2 ^ 48) \<and> unat (fst (guessIndex (first_rx 10) 65000)) = 2 ^ 48 - 536"
proof -
  have s: "seqNumSet (sample_rx n)" "0 < roc (sample_rx n)" "roc (sample_rx n) \<noteq> - 1" "seqNumSet (first_rx n)" for n
    by (simp_all add: sample_rx_def first_rx_def newCryptoContext_def newCryptoContext_null_def Let_def)
  have "fst (guessIndex (sample_rx 65530) 3) = 6 * 65536 + 3"
    by (simp add: sample_rx_def newCryptoContext_def newCryptoContext_null_def Let_def guessIndex_def packet_index_def)
  moreover have "guessed (first_rx 10) 65000 = - 1"
    by (simp add: sample_rx_def first_rx_def newCryptoContext_def newCryptoContext_null_def Let_def guessIndex_def guessed_def)
  then have "unat (fst (guessIndex (first_rx 10) 65000)) = 2 ^ 48 - 536"
    by (simp add: guessIndex_set [OF s(4)] unat_packet_index unsigned_minus_1_eq_mask mask_eq_exp_minus_1)
  ultimately show ?thesis
    using guessIndex_closest [OF s(1), of 65530 3] guessIndex_closest [OF s(4), of 10 65000] s(2,3) by (metis surjective_pairing)
qed
section \<open>Replay protection\<close>

definition secured :: "('ak, 'hm) CryptoContext \<Rightarrow> bool" where
  "secured c \<longleftrightarrow> \<not> (aalg c = SrtpAuthenticationNull \<and> ealg c = SrtpEncryptionNull)"

text \<open>The window describes the set \<open>S\<close> of accepted indices.\<close>

definition window_of :: "('ak, 'hm) CryptoContext \<Rightarrow> nat set \<Rightarrow> bool" where
  "window_of c S \<longleftrightarrow> secured c \<and> (\<forall>i\<in>S. seqNumSet c \<and> i \<le> local_index c) \<and>
     (\<forall>k<64. bit (replay_window c) k \<longleftrightarrow> k \<le> local_index c \<and> local_index c - k \<in> S)"

abbreviation rx_index :: "('ak, 'hm) CryptoContext \<Rightarrow> u16 \<Rightarrow> nat" where
  "rx_index c sq \<equiv> unat (fst (guessIndex c sq))"

definition synced :: "('ak, 'hm) CryptoContext \<Rightarrow> u16 \<Rightarrow> ('ak, 'hm) CryptoContext" where
  "synced c sq = (if seqNumSet c then c else c\<lparr>seqNumSet := True, s_l := sq\<rparr>)"

lemma synced_set [simp]: "seqNumSet (synced c sq)"
  by (simp add: synced_def)

lemma guessIndex_synced: "guessIndex (synced c sq) sq = guessIndex c sq"
  by (simp add: synced_def guessIndex_def)

lemma guessIndex_eq:
  "guessIndex c sq = (packet_index (guessed c sq) sq, (synced c sq)\<lparr>guessed_roc := guessed c sq\<rparr>)"
  by (simp add: guessed_def guessIndex_def Let_def synced_def)

lemma guessed_guessed_roc [simp]: "guessed (c\<lparr>guessed_roc := g\<rparr>) sq = guessed c sq"
  by (simp add: guessed_def guessIndex_def Let_def)

lemma guessed_synced [simp]: "guessed (synced c sq) sq = guessed c sq"
  by (simp add: guessed_def guessIndex_synced)

lemma checkReplay_eq:
  assumes "secured c"
  shows "checkReplay c sq =
    (let d = int (rx_index c sq) - int (local_index (synced c sq));
         c' = (synced c sq)\<lparr>guessed_roc := guessed c sq\<rparr>
     in if d > 0 then Some (True, c') else if - d > 64 then Some (False, c')
        else if - d = 64 then None else Some (\<not> bit (replay_window c) (nat (- d)), c'))"
proof -
  have 1: "(if \<not> seqNumSet c then c\<lparr>seqNumSet := True, s_l := sq\<rparr> else c) = synced c sq"
    by (simp add: synced_def)
  have 2: "guessIndex (synced c sq) sq = (packet_index (guessed c sq) sq, (synced c sq)\<lparr>guessed_roc := guessed c sq\<rparr>)"
    by (simp only: guessIndex_synced guessIndex_eq [of c])
  have n: "(aalg c = SrtpAuthenticationNull \<and> ealg c = SrtpEncryptionNull) = False"
    using assms by (simp add: secured_def)
  have w: "replay_window (synced c sq) = replay_window c" by (simp add: synced_def)
  show ?thesis
    unfolding checkReplay_def 1 2 Let_def case_prod_conv n if_False
    by (simp add: guessIndex_eq index_delta_eq local_index_def REPLAY_WINDOW_SIZE_def w
        bit_iff_odd_drop_bit flip: One_nat_def)
qed


lemma window_of_synced:
  assumes "window_of c S"
  shows "window_of (synced c sq) S"
proof (cases "seqNumSet c")
  case False
  then have S: "S = {}" using assms by (auto simp: window_of_def)
  show ?thesis
    using assms False unfolding window_of_def S by (simp add: synced_def secured_def)
qed (use assms in \<open>simp add: synced_def\<close>)

lemma window_of_guessed [simp]: "window_of (c\<lparr>guessed_roc := g\<rparr>) S = window_of c S"
  by (simp add: window_of_def secured_def local_index_def)

lemma checkReplay_window:
  assumes "window_of c S"
  shows "checkReplay c sq =
    (let i = rx_index c sq; l = local_index (synced c sq);
         c' = (synced c sq)\<lparr>guessed_roc := guessed c sq\<rparr>
     in if l < i then Some (True, c') else if l - i > 64 then Some (False, c')
        else if l - i = 64 then None else Some (i \<notin> S, c'))"
proof -
  define i where "i = rx_index c sq"
  define l where "l = local_index (synced c sq)"
  have sec: "secured c" using assms by (simp add: window_of_def)
  have b: "bit (replay_window c) (l - i) \<longleftrightarrow> i \<in> S" if "i \<le> l" "l - i < 64"
    using window_of_synced [OF assms, of sq] that
    by (auto simp: window_of_def synced_def l_def split: if_splits)
  have n: "nat (- (int i - int l)) = l - i" if "i \<le> l" using that by simp
  show ?thesis
    unfolding checkReplay_eq [OF sec] Let_def i_def [symmetric] l_def [symmetric]
  proof (cases "l < i")
    case False
    then show "(if 0 < int i - int l then Some (True, (synced c sq)\<lparr>guessed_roc := guessed c sq\<rparr>)
      else if 64 < - (int i - int l) then Some (False, (synced c sq)\<lparr>guessed_roc := guessed c sq\<rparr>)
      else if - (int i - int l) = 64 then None
      else Some (\<not> bit (replay_window c) (nat (- (int i - int l))), (synced c sq)\<lparr>guessed_roc := guessed c sq\<rparr>)) =
      (if l < i then Some (True, (synced c sq)\<lparr>guessed_roc := guessed c sq\<rparr>)
       else if 64 < l - i then Some (False, (synced c sq)\<lparr>guessed_roc := guessed c sq\<rparr>)
       else if l - i = 64 then None else Some (i \<notin> S, (synced c sq)\<lparr>guessed_roc := guessed c sq\<rparr>))"
      using n b by (cases "64 < l - i"; cases "l - i = 64") auto
  qed simp
qed

lemma mult_65536_less: "a * 65536 + x < b * 65536 + y \<Longrightarrow> y < (65536 :: nat) \<Longrightarrow> a < b \<or> a = b \<and> x < y"
  by (cases "a < b"; cases "a = b") auto

lemma mult_65536_eq:
  "a * 65536 + x = b * 65536 + y \<Longrightarrow> x < (65536 :: nat) \<Longrightarrow> y < 65536 \<Longrightarrow> a = b \<and> x = y"
  by (cases a b rule: linorder_cases) auto

lemma update_eq:
  assumes "seqNumSet c"
  shows "update c sq =
    (let d = int (rx_index c sq) - int (local_index c) in
     if d < 0 \<or> 64 \<le> d then None
     else Some (c\<lparr>guessed_roc := guessed c sq, roc := guessed c sq, s_l := sq,
                 replay_window := push_bit (nat d) (replay_window c) OR 1\<rparr>))"
proof -
  have c: "synced c sq = c" using assms by (simp add: synced_def)
  let ?g = "guessed c sq"
  let ?d = "int (rx_index c sq) - int (local_index c)"
  have i: "rx_index c sq = unat ?g * 65536 + unat sq"
    by (simp add: guessIndex_eq unat_packet_index)
  have l: "local_index c = unat (roc c) * 65536 + unat (s_l c)"
    by (simp add: local_index_def unat_packet_index)
  have b: "unat sq < 65536" "unat (s_l c) < 65536" by (simp_all add: unat_u16_less)
  define i where "i = rx_index c sq"
  define l where "l = local_index c"
  have eq: "?g = roc c \<and> sq = s_l c" if "i = l"
    using mult_65536_eq [OF that [unfolded i_def l_def i l] b] by (auto simp: word_unat_eq_iff)
  have gt: "roc c < ?g \<or> roc c = ?g \<and> s_l c < sq" if "l < i"
    using mult_65536_less [OF that [unfolded i_def l_def i l] b(1)]
    by (auto simp: word_less_nat_alt word_unat_eq_iff)
  have 1: "update c sq = (do {
      c1 \<leftarrow> (if int i - int l > 0 then
           (if int i - int l \<ge> 64 then None
            else Some (c\<lparr>guessed_roc := ?g, replay_window := push_bit (nat (int i - int l)) (replay_window c) OR 1\<rparr>))
         else if int i - int l = 0 then Some (c\<lparr>guessed_roc := ?g, replay_window := replay_window c OR 1\<rparr>)
         else None);
      let c2 = (if sq > s_l c1 then c1\<lparr>s_l := sq\<rparr> else c1);
      Some (if guessed_roc c2 > roc c2 then c2\<lparr>roc := guessed_roc c2, s_l := sq\<rparr> else c2) })"
    unfolding update_def guessIndex_eq c Let_def case_prod_conv i_def l_def local_index_def
    by (simp add: index_delta_eq)
  show ?thesis
  proof (cases "l < i")
    case True
    then show ?thesis
      unfolding 1 Let_def i_def [symmetric] l_def [symmetric] using gt [OF True] by auto
  next
    case False
    then show ?thesis
      unfolding 1 Let_def i_def [symmetric] l_def [symmetric]
      using eq by (cases "i = l") (auto simp: assms)
  qed
qed

lemma update_window:
  assumes "window_of c S" "seqNumSet c" "update c sq = Some c'"
  shows "window_of c' (insert (rx_index c sq) S)" "local_index c' = rx_index c sq" "local_index c \<le> rx_index c sq"
proof -
  define i where "i = rx_index c sq"
  define l where "l = local_index c"
  let ?w = "replay_window c"
  have d: "l \<le> i" "i - l < 64" and c': "c' = c\<lparr>guessed_roc := guessed c sq, roc := guessed c sq, s_l := sq,
      replay_window := push_bit (i - l) ?w OR 1\<rparr>"
    using assms(3) unfolding update_eq [OF assms(2)] i_def [symmetric] l_def [symmetric]
    by (auto simp: Let_def nat_diff_distrib' split: if_splits)
  show l': "local_index c' = rx_index c sq" by (simp add: c' local_index_def guessIndex_eq)
  show "local_index c \<le> rx_index c sq" using d by (simp add: i_def l_def)
  have w: "bit ?w k \<longleftrightarrow> k \<le> l \<and> l - k \<in> S" if "k < 64" for k
    using assms(1) that by (simp add: window_of_def l_def)
  have S: "j \<in> S \<Longrightarrow> j \<le> l" for j using assms(1) by (simp add: window_of_def l_def)
  have "bit (push_bit (i - l) ?w OR 1) k \<longleftrightarrow> k \<le> i \<and> i - k \<in> insert i S" if "k < 64" for k
  proof (cases "k = 0")
    case False
    have "bit (push_bit (i - l) ?w OR 1) k \<longleftrightarrow> i - l \<le> k \<and> bit ?w (k - (i - l))"
      using False that by (simp add: bit_or_iff bit_push_bit_iff bit_1_iff)
    also have "\<dots> \<longleftrightarrow> i - l \<le> k \<and> k - (i - l) \<le> l \<and> l - (k - (i - l)) \<in> S"
      using w [of "k - (i - l)"] that by auto
    also have "\<dots> \<longleftrightarrow> k \<le> i \<and> i - k \<in> insert i S"
    proof (cases "i - l \<le> k")
      case True
      then have "l - (k - (i - l)) = i - k" "k - (i - l) \<le> l \<longleftrightarrow> k \<le> i" using d by auto
      then show ?thesis using True False by auto
    next
      case F: False
      then have "\<not> i - k \<le> l" using d by simp
      then show ?thesis using F False S by auto
    qed
    finally show ?thesis .
  qed (simp add: bit_or_iff)
  then show "window_of c' (insert (rx_index c sq) S)"
    using assms(1,2) S d l' unfolding window_of_def l' i_def [symmetric]
    by (auto simp: c' secured_def intro: order_trans [OF _ d(1)])
qed


text \<open>
  The states a receiving context can be in, with the indices of the packets it has accepted: a fresh
  context; a packet is examined (and fails later on, or not); a packet passes the check, is found
  authentic and enters the window.
\<close>

inductive receiving :: "('ak, 'hm) CryptoContext \<Rightarrow> nat set \<Rightarrow> bool" where
  fresh: "secured c \<Longrightarrow> \<not> seqNumSet c \<Longrightarrow> replay_window c = 0 \<Longrightarrow> receiving c {}"
| examined: "receiving c S \<Longrightarrow> checkReplay c sq = Some (b, c') \<Longrightarrow> receiving c' S"
| accepted: "receiving c S \<Longrightarrow> checkReplay c sq = Some (True, c1) \<Longrightarrow> update c1 sq = Some c2 \<Longrightarrow>
    receiving c2 (insert (rx_index c sq) S)"

lemma checkReplay_result:
  assumes "window_of c S" "checkReplay c sq = Some (b, c')"
  shows "c' = (synced c sq)\<lparr>guessed_roc := guessed c sq\<rparr>"
  using assms(2) unfolding checkReplay_window [OF assms(1)] by (auto simp: Let_def split: if_splits)

lemma receiving_window: "receiving c S \<Longrightarrow> window_of c S"
proof (induction rule: receiving.induct)
  case (fresh c)
  then show ?case by (simp add: window_of_def)
next
  case (examined c S sq b c')
  then show ?case using checkReplay_result window_of_synced by fastforce
next
  case (accepted c S sq c1 c2)
  have c1: "c1 = (synced c sq)\<lparr>guessed_roc := guessed c sq\<rparr>"
    using accepted checkReplay_result by blast
  have "rx_index c1 sq = rx_index c sq"
    unfolding c1 by (simp add: guessIndex_eq)
  moreover have "window_of c1 S" "seqNumSet c1"
    using accepted.IH window_of_synced unfolding c1 by auto
  ultimately show ?case using update_window(1) [of c1 S sq c2] accepted.hyps by simp
qed

definition fresh_rx :: "(byte list, byte list) CryptoContext" where
  "fresh_rx = newCryptoContext (\<lambda>_. 0) 7 5 0 SrtpEncryptionAESCM SrtpAuthenticationSha1Hmac
     (replicate 16 1) (replicate 14 2) 16 20 14 10"

lemma receiving_fresh: "receiving fresh_rx {}"
  by (rule receiving.fresh)
    (simp_all add: fresh_rx_def newCryptoContext_def newCryptoContext_null_def Let_def secured_def)

definition one_rx :: "(byte list, byte list) CryptoContext" where
  "one_rx = fresh_rx\<lparr>seqNumSet := True, s_l := 9, guessed_roc := 5, replay_window := 1\<rparr>"

lemma fresh_fields: "roc fresh_rx = 5" "\<not> seqNumSet fresh_rx" "replay_window fresh_rx = 0"
  "aalg fresh_rx = SrtpAuthenticationSha1Hmac"
  by (simp_all add: fresh_rx_def newCryptoContext_def newCryptoContext_null_def Let_def)

lemma receiving_one: "receiving one_rx {5 * 65536 + 9}"
proof -
  let ?c = "fresh_rx\<lparr>seqNumSet := True, s_l := 9, guessed_roc := 5\<rparr>"
  have i: "guessIndex fresh_rx 9 = (packet_index 5 9, ?c)" "guessIndex ?c 9 = (packet_index 5 9, ?c)"
    "guessIndex (fresh_rx\<lparr>seqNumSet := True, s_l := 9\<rparr>) 9 = (packet_index 5 9, ?c)"
    by (simp_all add: guessIndex_def fresh_fields)
  have "checkReplay fresh_rx 9 = Some (True, ?c)"
    unfolding checkReplay_def using i by (simp add: fresh_fields index_delta_eq REPLAY_WINDOW_SIZE_def)
  moreover have "update ?c 9 = Some one_rx"
    unfolding update_def i by (simp add: one_rx_def fresh_fields index_delta_eq)
  moreover have "rx_index fresh_rx 9 = 5 * 65536 + 9" by (simp add: i unat_packet_index)
  ultimately show ?thesis using receiving.accepted [OF receiving_fresh] by fastforce
qed

text \<open>
  C21: the replay check decides membership. In every reachable receiving state the check accepts an
  index above the highest one, refuses one more than 64 below it, and between them accepts exactly
  the indices that were not accepted before; at distance 64 it shifts by the width of the window,
  which has no defined result.
\<close>
theorem checkReplay_exact:
  assumes "receiving c S"
  shows "map_option fst (checkReplay c sq) =
    (let i = rx_index c sq; l = local_index (snd (guessIndex c sq)) in
     if l < i then Some True else if l - i > 64 then Some False
     else if l - i = 64 then None else Some (i \<notin> S))"
  using receiving_window [OF assms]
  by (simp add: checkReplay_window Let_def guessIndex_eq local_index_def)

theorem checkReplay_exact_witness:
  "receiving one_rx {5 * 65536 + 9} \<and> map_option fst (checkReplay one_rx 9) = Some False \<and>
   map_option fst (checkReplay one_rx 8) = Some True"
  using receiving_one checkReplay_exact [OF receiving_one, of 9] checkReplay_exact [OF receiving_one, of 8]
  by (simp add: Let_def guessIndex_def one_rx_def fresh_fields unat_packet_index local_index_def)

text \<open>
  C4: no packet is accepted twice: in a reachable receiving state no sequence number whose index was
  accepted before passes the check.
\<close>
theorem no_replay:
  assumes "receiving c S" "rx_index c sq \<in> S"
  shows "map_option fst (checkReplay c sq) \<noteq> Some True"
proof -
  have "window_of (synced c sq) S" by (rule window_of_synced [OF receiving_window [OF assms(1)]])
  then have "\<not> local_index (synced c sq) < rx_index c sq"
    using assms(2) by (auto simp: window_of_def)
  then show ?thesis
    using assms(2) checkReplay_window [OF receiving_window [OF assms(1)], of sq] by (auto simp: Let_def)
qed

theorem no_replay_witness:
  "rx_index one_rx 9 \<in> {5 * 65536 + 9} \<and> map_option fst (checkReplay one_rx 9) \<noteq> Some True"
proof -
  have "rx_index one_rx 9 \<in> {5 * 65536 + 9}"
    by (simp add: guessIndex_def one_rx_def fresh_fields unat_packet_index)
  then show ?thesis using no_replay [OF receiving_one] by blast
qed

text \<open>
  Late packets. A packet that the check accepts although its index is below the highest one (it
  was reordered on the way) makes \<^verbatim>\<open>update\<close> shift by the negative distance: the step has no defined
  result, so reordered packets are never recorded in the window.
\<close>
theorem late_packet_undefined:
  assumes "receiving c S" "checkReplay c sq = Some (True, c1)" "rx_index c sq < local_index c1"
  shows "update c1 sq = None"
proof -
  have c1: "c1 = (synced c sq)\<lparr>guessed_roc := guessed c sq\<rparr>"
    by (rule checkReplay_result [OF receiving_window [OF assms(1)] assms(2)])
  then have "rx_index c1 sq = rx_index c sq" "seqNumSet c1" by (simp_all add: guessIndex_eq)
  then have "int (rx_index c1 sq) - int (local_index c1) < 0 \<or> 64 \<le> int (rx_index c1 sq) - int (local_index c1)"
    using assms(3) by linarith
  then show ?thesis unfolding update_eq [OF \<open>seqNumSet c1\<close>] Let_def by (rule if_P)
qed

theorem late_packet_undefined_witness:
  "\<exists>c1. checkReplay one_rx 8 = Some (True, c1) \<and> rx_index one_rx 8 < local_index c1 \<and> update c1 8 = None"
proof -
  let ?c = "one_rx\<lparr>guessed_roc := 5\<rparr>"
  have i: "guessIndex one_rx 8 = (packet_index 5 8, ?c)"
    by (simp add: guessIndex_def one_rx_def fresh_fields)
  have "synced one_rx 8 = one_rx" "guessed one_rx 8 = 5"
    using i by (simp_all add: synced_def guessed_def one_rx_def)
  moreover have n: "rx_index one_rx 8 = 327688" "local_index one_rx = 327689"
    by (simp add: i unat_packet_index) (simp add: local_index_def unat_packet_index one_rx_def fresh_fields)
  ultimately have "checkReplay one_rx 8 = Some (True, ?c)"
    unfolding checkReplay_window [OF receiving_window [OF receiving_one]] by (simp add: Let_def)
  moreover have "rx_index one_rx 8 < local_index ?c"
    using n by (simp add: local_index_def)
  ultimately show ?thesis using late_packet_undefined [OF receiving_one] by blast
qed

text \<open>
  Long gaps. When 64 or more packets in a row are lost, \<^verbatim>\<open>update\<close> shifts the window of 64 bits by the whole distance: the step for the
  first packet after the gap, which the check accepts, has no defined result either.
\<close>
theorem long_gap_undefined:
  assumes "receiving c S" "checkReplay c sq = Some (True, c1)" "local_index c1 + 64 \<le> rx_index c sq"
  shows "update c1 sq = None"
proof -
  have c1: "c1 = (synced c sq)\<lparr>guessed_roc := guessed c sq\<rparr>"
    by (rule checkReplay_result [OF receiving_window [OF assms(1)] assms(2)])
  then have "rx_index c1 sq = rx_index c sq" "seqNumSet c1" by (simp_all add: guessIndex_eq)
  then have "int (rx_index c1 sq) - int (local_index c1) < 0 \<or> 64 \<le> int (rx_index c1 sq) - int (local_index c1)"
    using assms(3) by linarith
  then show ?thesis unfolding update_eq [OF \<open>seqNumSet c1\<close>] Let_def by (rule if_P)
qed

end
