(* ===== verification/Srtp_Keys.thy ===== *)
theory Srtp_Keys
  imports Srtp_Replay
begin

text \<open>
  Initialisation vectors and key derivation of the SRTP context (\<^verbatim>\<open>computeIv\<close>, \<^verbatim>\<open>deriveSrtpKeys\<close> and
  the vector of \<^verbatim>\<open>srtpEncrypt\<close> in \<^verbatim>\<open>src/src/CryptoContext.cpp\<close>): which counter blocks can coincide, and
  the keys a context holds after the derivation.
\<close>

section \<open>Words from their bytes\<close>

lemma bytes_take_bit:
  fixes a b :: "'a :: len word"
  assumes "\<And>k. k < m \<Longrightarrow> (ucast (drop_bit (8 * k) a) :: byte) = ucast (drop_bit (8 * k) b)"
  shows "take_bit (8 * m) a = take_bit (8 * m) b"
proof (rule bit_word_eqI)
  fix n assume "n < LENGTH('a)"
  show "bit (take_bit (8 * m) a) n = bit (take_bit (8 * m) b) n"
  proof (cases "n < 8 * m")
    case True
    then have k: "n div 8 < m" by simp
    have e: "bit (ucast (drop_bit (8 * (n div 8)) w) :: byte) (n mod 8) = bit w n" for w :: "'a word"
      by (simp add: bit_ucast_iff bit_drop_bit_eq)
    show ?thesis using assms [OF k] e [of a] e [of b] True by (simp add: bit_take_bit_iff)
  qed (simp add: bit_take_bit_iff)
qed

lemma ucast_and_FF: "(ucast (0xFF AND w) :: byte) = ucast (w :: u32)" "(ucast (0xFF AND v) :: byte) = ucast (v :: u64)"
  "(0xFF :: byte) AND b = b"
proof -
  have m: "(0xFF :: byte) = mask 8" "(0xFF :: u32) = mask 8" "(0xFF :: u64) = mask 8"
    by (simp_all add: mask_eq_exp_minus_1)
  show "(ucast (0xFF AND w) :: byte) = ucast (w :: u32)" "(ucast (0xFF AND v) :: byte) = ucast (v :: u64)"
    "(0xFF :: byte) AND b = b"
    unfolding m by (rule bit_word_eqI, simp add: bit_simps)+
qed

lemma xor_right_eq: "a XOR c = b XOR c \<longleftrightarrow> a = (b :: byte)"
  by (metis xor.assoc xor_self_eq xor.right_neutral)

lemma less_cases:
  "(k :: nat) < 2 \<Longrightarrow> k = 0 \<or> k = 1" "k < 4 \<Longrightarrow> k = 0 \<or> k = 1 \<or> k = 2 \<or> k = 3"
  "k < 6 \<Longrightarrow> k = 0 \<or> k = 1 \<or> k = 2 \<or> k = 3 \<or> k = 4 \<or> k = 5"
  "k < 7 \<Longrightarrow> k = 0 \<or> k = 1 \<or> k = 2 \<or> k = 3 \<or> k = 4 \<or> k = 5 \<or> k = 6"
  by linarith+

lemma take_bit_full: "take_bit (8 * 4) (w :: u32) = w" "take_bit (8 * 2) (x :: u16) = x"
  by (rule bit_word_eqI, simp add: bit_take_bit_iff)+

lemma ctr_bytes: "ucast (drop_bit 8 (n AND 0xFF00)) = (ucast (drop_bit 8 n) :: byte)"
  "ucast (n AND 0x00FF) = (ucast n :: byte)" for n :: u16
proof -
  have m: "(0xFF00 :: u16) = push_bit 8 (mask 8)" "(0xFF :: u16) = mask 8" by (simp_all add: mask_eq_exp_minus_1)
  show "ucast (drop_bit 8 (n AND 0xFF00)) = (ucast (drop_bit 8 n) :: byte)"
    unfolding m by (rule bit_word_eqI) (simp add: bit_simps del: push_bit_numeral mask_numeral)
  show "ucast (n AND 0x00FF) = (ucast n :: byte)"
    unfolding m by (rule bit_word_eqI) (simp add: bit_simps)
qed

lemma upt_consts: "[4..<8] = [4, 5, 6, 7 :: nat]" "[8..<14] = [8, 9, 10, 11, 12, 13 :: nat]"
  "[0..<7] = [0, 1, 2, 3, 4, 5, 6 :: nat]" "[7..<14] = [7, 8, 9, 10, 11, 12, 13 :: nat]"
  by (simp_all add: upt_rec)

lemma ctr_iv_eq:
  assumes "length iv = 16" "length iv' = 16" "ctr_iv iv n = ctr_iv iv' m"
  shows "n = m" "take 14 iv = take 14 iv'"
proof -
  have 1: "ctr_iv x k = take 14 x @ [ucast (drop_bit 8 k), ucast k]" if "length x = 16" for x k
  proof (rule nth_equalityI)
    fix i assume "i < length (ctr_iv x k)"
    then have "i < 14 \<or> i = 14 \<or> i = 15" using that by (auto simp: ctr_iv_def)
    then show "ctr_iv x k ! i = (take 14 x @ [ucast (drop_bit 8 k), ucast k]) ! i"
      using that by (auto simp: ctr_iv_def ctr_bytes nth_append)
  qed (use that in \<open>simp add: ctr_iv_def\<close>)
  have e: "take 14 iv = take 14 iv'" "ucast (drop_bit 8 n) = (ucast (drop_bit 8 m) :: byte)" "ucast n = (ucast m :: byte)"
    using assms(3) unfolding 1 [OF assms(1)] 1 [OF assms(2)] using assms(1,2) by simp_all
  show "take 14 iv = take 14 iv'" by (rule e(1))
  have "take_bit (8 * 2) n = take_bit (8 * 2) m"
    by (rule bytes_take_bit) (use e in \<open>auto dest!: less_cases(1)\<close>)
  then show "n = m" by (simp only: take_bit_full)
qed

lemma cm_iv_bytes:
  "take 14 (cm_iv ks ssrc index) = take 4 ks @
     [ucast (drop_bit 24 ssrc) XOR ks ! 4, ucast (drop_bit 16 ssrc) XOR ks ! 5, ucast (drop_bit 8 ssrc) XOR ks ! 6,
      ucast ssrc XOR ks ! 7, ucast (drop_bit 40 index) XOR ks ! 8, ucast (drop_bit 32 index) XOR ks ! 9,
      ucast (drop_bit 24 index) XOR ks ! 10, ucast (drop_bit 16 index) XOR ks ! 11,
      ucast (drop_bit 8 index) XOR ks ! 12, ucast index XOR ks ! 13]" if "14 \<le> length ks"
  using that by (simp add: cm_iv_def upt_consts ucast_and_FF min_def)

lemma length_cm_iv: "14 \<le> length ks \<Longrightarrow> length (cm_iv ks ssrc index) = 16"
  by (simp add: cm_iv_def upt_consts min_def)

lemma take_bit_index: "w < 2 ^ 48 \<Longrightarrow> take_bit (8 * 6) w = (w :: u64)"
  by (rule unsigned_word_eqI [where 'a = nat])
    (simp add: unsigned_take_bit_eq word_less_nat_alt take_bit_nat_eq_self)

text \<open>
  C25: counter blocks never repeat. Under one session salt the blocks that counter mode encrypts for
  two packets are equal only for the same source, the same packet index (below its 48 bits) and the
  same block counter: no key stream block is used twice.
\<close>
theorem cm_counters_distinct:
  assumes "14 \<le> length ks" "ctr_iv (cm_iv ks ssrc index) n = ctr_iv (cm_iv ks ssrc' index') m"
    "index < 2 ^ 48" "index' < 2 ^ 48"
  shows "ssrc = ssrc' \<and> index = index' \<and> n = m"
proof -
  note e = ctr_iv_eq [OF length_cm_iv [OF assms(1)] length_cm_iv [OF assms(1)] assms(2)]
  note b = e(2) [unfolded cm_iv_bytes [OF assms(1)], simplified, unfolded xor_right_eq]
  have "take_bit (8 * 4) ssrc = take_bit (8 * 4) ssrc'"
    by (rule bytes_take_bit) (use b in \<open>auto dest!: less_cases(2)\<close>)
  moreover have "take_bit (8 * 6) index = take_bit (8 * 6) index'"
    by (rule bytes_take_bit) (use b in \<open>auto dest!: less_cases(3)\<close>)
  ultimately show ?thesis
    using e(1) take_bit_index [OF assms(3)] take_bit_index [OF assms(4)] unfolding take_bit_full by metis
qed


theorem cm_counters_distinct_witness:
  "ctr_iv (cm_iv (replicate 14 3) 7 9) 1 = ctr_iv (cm_iv (replicate 14 3) 7 9) 1 \<and>
   ctr_iv (cm_iv (replicate 14 3) 7 9) 1 \<noteq> ctr_iv (cm_iv (replicate 14 3) 7 10) 1"
  using cm_counters_distinct [of "replicate 14 3" 7 9 1 7 10 1] by auto

lemma computeIv_bytes:
  assumes "computeIv label index kdv salt = Some iv"
  shows "length iv = 16" "14 \<le> length salt"
    "take 14 iv = (let k = (if kdv = 0 then push_bit 48 label else push_bit 48 label OR (index div kdv)) in
       [salt ! 0, salt ! 1, salt ! 2, salt ! 3, salt ! 4, salt ! 5, salt ! 6,
        ucast (drop_bit 48 k) XOR salt ! 7, ucast (drop_bit 40 k) XOR salt ! 8, ucast (drop_bit 32 k) XOR salt ! 9,
        ucast (drop_bit 24 k) XOR salt ! 10, ucast (drop_bit 16 k) XOR salt ! 11, ucast (drop_bit 8 k) XOR salt ! 12,
        ucast k XOR salt ! 13])"
  using assms by (auto simp: computeIv_def Let_def upt_consts ucast_and_FF split: if_splits)

definition key_id :: "u64 \<Rightarrow> u64 \<Rightarrow> u64 \<Rightarrow> u64" where
  "key_id label index kdv = (if kdv = 0 then push_bit 48 label else push_bit 48 label OR (index div kdv))"

lemma key_id_parts:
  assumes "label < 256" "index < 2 ^ 48" 
  shows "drop_bit 48 (take_bit (8 * 7) (key_id label index kdv)) = label"
    "kdv \<noteq> 0 \<Longrightarrow> take_bit 48 (take_bit (8 * 7) (key_id label index kdv)) = index div kdv"
proof -
  have l: "take_bit 8 label = label"
    using assms(1) by (intro unsigned_word_eqI [where 'a = nat])
      (simp add: unsigned_take_bit_eq word_less_nat_alt take_bit_nat_eq_self)
  have "unat (index div kdv) \<le> unat index" by (simp add: unat_div)
  then have i: "take_bit 48 (index div kdv) = index div kdv"
    using assms(2) by (intro unsigned_word_eqI [where 'a = nat])
      (simp add: unsigned_take_bit_eq word_less_nat_alt take_bit_nat_eq_self)
  have "bit label n \<Longrightarrow> n < 8" for n using l by (metis bit_take_bit_iff)
  moreover have "bit (index div kdv) n \<Longrightarrow> n < 48" for n using i by (metis bit_take_bit_iff)
  ultimately show "drop_bit 48 (take_bit (8 * 7) (key_id label index kdv)) = label"
    "kdv \<noteq> 0 \<Longrightarrow> take_bit 48 (take_bit (8 * 7) (key_id label index kdv)) = index div kdv"
    by (intro bit_word_eqI, force simp: key_id_def bit_simps)+
qed

text \<open>
  Separation of the session keys. The counter blocks from which two session keys are derived
  under one master salt are equal only for the same label, the same block counter and, with a key
  derivation rate, the same key period: encryption key, authentication key and salt never share a
  block of the derivation stream.
\<close>
theorem session_key_counters_distinct:
  assumes "computeIv label index kdv salt = Some iv" "computeIv label' index' kdv salt = Some iv'"
    "ctr_iv iv n = ctr_iv iv' m" "label < 256" "label' < 256" "index < 2 ^ 48" "index' < 2 ^ 48"
  shows "label = label' \<and> n = m \<and> (kdv \<noteq> 0 \<longrightarrow> index div kdv = index' div kdv)"
proof -
  note e = ctr_iv_eq [OF computeIv_bytes(1) [OF assms(1)] computeIv_bytes(1) [OF assms(2)] assms(3)]
  note b = e(2) [unfolded computeIv_bytes(3) [OF assms(1)] computeIv_bytes(3) [OF assms(2)] key_id_def [symmetric] Let_def,
      simplified, unfolded xor_right_eq]
  have "take_bit (8 * 7) (key_id label index kdv) = take_bit (8 * 7) (key_id label' index' kdv)"
    by (rule bytes_take_bit) (use b in \<open>auto dest!: less_cases(4)\<close>)
  then show ?thesis
    using e(1) key_id_parts [OF assms(4,6), of kdv] key_id_parts [OF assms(5,7), of kdv] by metis
qed

theorem session_key_counters_distinct_witness:
  "\<exists>iv iv'. computeIv 0 5 0 (replicate 14 3) = Some iv \<and> computeIv 1 5 0 (replicate 14 3) = Some iv' \<and>
    ctr_iv iv 0 = ctr_iv iv 0 \<and> ctr_iv iv 0 \<noteq> ctr_iv iv' 0"
proof -
  obtain iv iv' where i: "computeIv 0 5 0 (replicate 14 3) = Some iv" "computeIv 1 5 0 (replicate 14 3) = Some iv'"
    by (simp add: computeIv_def)
  then show ?thesis using session_key_counters_distinct [OF i, of 0 0] by auto
qed

section \<open>Keyed cipher objects\<close>

definition tf_ready :: twofish_state where
  "tf_ready = snd (Twofish_initialise (tf_state sample_env) zero_twofish_key zero_twofish_key)"

definition env_ok :: "tf_env \<Rightarrow> bool" where
  "env_ok env \<longleftrightarrow> (twoFishInit env \<longrightarrow> tf_state env = tf_ready)"

lemma Twofish_initialise_state: "snd (Twofish_initialise st a b) = tf_ready" "Twofish_initialised tf_ready"
proof -
  have "\<not> test_platform < 0" by (simp add: test_platform_SUCCESS twofish_codes)
  then show "snd (Twofish_initialise st a b) = tf_ready" "Twofish_initialised tf_ready"
    by (simp_all add: tf_ready_def Twofish_initialise_def Let_def initialise_q_boxes_def
        initialise_mds_tables_def make_q_table_def)
qed

definition keyed :: "'ak aes_lib \<Rightarrow> srtp_ealg \<Rightarrow> byte list \<Rightarrow> 'ak SrtpSymCrypto" where
  "keyed aes alg k = \<lparr>skey = (if is_aes alg then KeyAes (AES_set_encrypt_key aes k (int (length k) * 8))
     else KeyTwofish (snd (expand_key tf_ready (key_array k (length k)) (key_cycles (length k)) undefined))),
     algorithm = alg\<rparr>"

lemma setNewKey_keyed:
  assumes "env_ok env" "length k = 16 \<or> length k = 32" "is_aes (algorithm c) \<or> is_twofish (algorithm c)"
    "n = int (length k)"
  shows "\<exists>env'. env_ok env' \<and> setNewKey aes env c k n = Some (True, env', keyed aes (algorithm c) k)"
proof -
  have p: "Twofish_prepare_key tf_ready k n zero_twofish_key =
      Some (SUCCESS, snd (expand_key tf_ready (key_array k (length k)) (key_cycles (length k)) undefined))"
    using prepare_key_eq [of tf_ready n k zero_twofish_key] assms(2,4) Twofish_initialise_state(2) by auto
  have n: "n = 16 \<or> n = 32" using assms(2,4) by auto
  show ?thesis
  proof (cases "is_aes (algorithm c)")
    case True
    then show ?thesis
      using assms(1,4) n by (auto simp: setNewKey_def Let_def keyed_def intro: exI [of _ env])
  next
    case False
    then have t: "is_twofish (algorithm c)" using assms(3) by simp
    let ?env = "\<lparr>tf_state = tf_ready, twoFishInit = True\<rparr>"
    have e: "(if \<not> twoFishInit env
        then \<lparr>tf_state = snd (Twofish_initialise (tf_state env) zero_twofish_key zero_twofish_key), twoFishInit = True\<rparr>
        else env) = ?env"
      using assms(1) Twofish_initialise_state(1) by (auto simp: env_ok_def)
    have "setNewKey aes env c k n = Some (True, ?env, keyed aes (algorithm c) k)"
      unfolding setNewKey_def e using False t n p by (simp add: Let_def keyed_def)
    then show ?thesis by (auto simp: env_ok_def)
  qed
qed

definition block_fn :: "'ak aes_lib \<Rightarrow> 'ak SrtpSymCrypto \<Rightarrow> byte list \<Rightarrow> byte list" where
  "block_fn aes c = (case skey c of KeyAes k \<Rightarrow> AES_encrypt aes k | KeyTwofish k \<Rightarrow> Twofish_encrypt k | _ \<Rightarrow> id)"

lemma runs_keyed:
  assumes "block_cipher (AES_encrypt aes)" "is_aes alg \<or> is_twofish alg"
  shows "runs aes (keyed aes alg k) (block_fn aes (keyed aes alg k))"
proof (cases "is_aes alg")
  case True
  then show ?thesis by (simp add: keyed_def block_fn_def runs_aes [OF assms(1)])
next
  case False
  then show ?thesis using assms(2) by (simp add: keyed_def block_fn_def runs_twofish)
qed


section \<open>Key derivation\<close>

text \<open>The keys that RFC 3711 derives from a master key and salt: a prefix of the key stream of the label.\<close>

definition iv_for :: "u64 \<Rightarrow> u64 \<Rightarrow> u64 \<Rightarrow> byte list \<Rightarrow> byte list" where
  "iv_for label index kdv salt = (case computeIv label index kdv salt of Some iv \<Rightarrow> iv | None \<Rightarrow> [])"

definition prf_key :: "'ak aes_lib \<Rightarrow> 'ak SrtpSymCrypto \<Rightarrow> u64 \<Rightarrow> u64 \<Rightarrow> u64 \<Rightarrow> byte list \<Rightarrow> nat \<Rightarrow> byte list" where
  "prf_key aes c label index kdv salt n = ctr_keystream (block_fn aes c) (iv_for label index kdv salt) n"

lemma computeIv_iv_for:
  assumes "14 \<le> length salt"
  shows "computeIv label index kdv salt = Some (iv_for label index kdv salt)" "length (iv_for label index kdv salt) = 16"
proof -
  show c: "computeIv label index kdv salt = Some (iv_for label index kdv salt)"
    using assms by (simp add: iv_for_def computeIv_def Let_def)
  show "length (iv_for label index kdv salt) = 16" by (rule computeIv_bytes(1) [OF c])
qed

lemma session_key_eq:
  assumes "runs aes c (block_fn aes c)" "14 \<le> length salt" "n < 2 ^ 20"
  shows "session_key aes c label index kdv salt out n = Some (prf_key aes c label index kdv salt n)"
    "length (prf_key aes c label index kdv salt n) = n"
proof -
  note i = computeIv_iv_for [OF assms(2), of label index kdv]
  show "session_key aes c label index kdv salt out n = Some (prf_key aes c label index kdv salt n)"
    using get_ctr_cipher_stream_eq [OF assms(1) i(2) assms(3), of out]
    by (auto simp: session_key_def i(1) prf_key_def)
  show "length (prf_key aes c label index kdv salt n) = n"
    unfolding prf_key_def by (rule length_keystream [OF assms(1) i(2)])
qed

definition f8_key :: "byte list \<Rightarrow> byte list \<Rightarrow> byte list" where
  "f8_key ke ks = xor_bytes ke (ks @ replicate (length ke - length ks) 0x55)"

definition derived_mac :: "'hm hmac_lib \<Rightarrow> srtp_aalg \<Rightarrow> byte list \<Rightarrow> nat \<Rightarrow> 'hm mac_ctx \<Rightarrow> 'hm mac_ctx" where
  "derived_mac hm aa ka tagl old = (case aa of
       SrtpAuthenticationSha1Hmac \<Rightarrow> MacSha1 (createSha1HmacContext hm ka)
     | SrtpAuthenticationSkeinHmac \<Rightarrow> MacSkein (createSkeinMacContext ka (of_nat (tagl * 8)) Skein512)
     | SrtpAuthenticationNull \<Rightarrow> old)"

definition can_derive :: "('ak, 'hm) CryptoContext \<Rightarrow> bool" where
  "can_derive c \<longleftrightarrow> length (master_key c) \<in> {16, 32} \<and> 14 \<le> length (master_salt c) \<and> n_e c \<in> {16, 32} \<and>
     n_a c < 2 ^ 20 \<and> n_s c < 2 ^ 20 \<and>
     (\<exists>ci. cipher c = Some ci \<and> (is_aes (algorithm ci) \<or> is_twofish (algorithm ci))) \<and>
     (\<forall>f. f8Cipher c = Some f \<longrightarrow> n_s c \<le> n_e c \<and> (is_aes (algorithm f) \<or> is_twofish (algorithm f)))"

definition derived :: "'ak aes_lib \<Rightarrow> 'hm hmac_lib \<Rightarrow> u64 \<Rightarrow> ('ak, 'hm) CryptoContext \<Rightarrow> ('ak, 'hm) CryptoContext" where
  "derived aes hm index c =
     (let alg = algorithm (the (cipher c)); ci = keyed aes alg (master_key c);
          dkey = (\<lambda>label n. prf_key aes ci label index (key_deriv_rate c) (master_salt c) n);
          ke = dkey 0 (n_e c); ks = dkey 2 (n_s c)
      in c\<lparr>master_key := replicate (length (master_key c)) 0,
           macCtx := derived_mac hm (aalg c) (dkey 1 (n_a c)) (tagLength c) (macCtx c),
           k_a := replicate (n_a c) 0, k_s := ks, master_salt := replicate (length (master_salt c)) 0,
           k_e := replicate (n_e c) 0, cipher := Some (keyed aes alg ke),
           f8Cipher := map_option (\<lambda>f. keyed aes (algorithm f) (f8_key ke ks)) (f8Cipher c)\<rparr>)"

lemma f8_deriveForIV_keyed:
  assumes "env_ok env" "length ke \<in> {16, 32}" "length ks \<le> length ke" "is_aes (algorithm f) \<or> is_twofish (algorithm f)"
  shows "\<exists>env'. env_ok env' \<and>
    f8_deriveForIV aes env f ke (int (length ke)) ks (int (length ks)) = Some (env', keyed aes (algorithm f) (f8_key ke ks))"
proof -
  have m: "xor_bytes (take (nat (int (length ke))) ke)
      (take (nat (int (length ks))) ks @ replicate (nat (int (length ke) - int (length ks))) 0x55) = f8_key ke ks"
    using assms(3) by (simp add: f8_key_def nat_diff_distrib flip: of_nat_diff)
  have l: "length (f8_key ke ks) = length ke" using assms(3) by (simp add: f8_key_def)
  have "length (f8_key ke ks) = 16 \<or> length (f8_key ke ks) = 32" using assms(2) l by auto
  from setNewKey_keyed [OF assms(1) this assms(4), of "int (length ke)" aes] l
  obtain env' where e: "env_ok env'"
    "setNewKey aes env f (f8_key ke ks) (int (length ke)) = Some (True, env', keyed aes (algorithm f) (f8_key ke ks))"
    by auto
  have "\<not> int (length ke) > 32" "\<not> int (length ks) > int (length ke)" using assms(2,3) by auto
  then show ?thesis
    unfolding f8_deriveForIV_def Let_def m using e by auto
qed

lemma derive_steps:
  fixes c :: "('ak, 'hm) CryptoContext"
  assumes aes: "block_cipher (AES_encrypt aes)" and env: "env_ok env" and can: "can_derive c" and ci: "cipher c = Some ci"
    and ci1: "ci1 = keyed aes (algorithm ci) (master_key c)"
    and ke: "ke = prf_key aes ci1 la index kdr (master_salt c) (n_e c)" and ks: "ks = prf_key aes ci1 lc index kdr (master_salt c) (n_s c)"
  obtains env1 env2 env3 where "env_ok env3"
    "setNewKey aes env ci (master_key c) (int (length (master_key c))) = Some (True, env1, ci1)"
    "\<And>out. session_key aes ci1 la index kdr (master_salt c) out (n_e c) = Some ke"
    "\<And>out. session_key aes ci1 lb index kdr (master_salt c) out (n_a c) = Some (prf_key aes ci1 lb index kdr (master_salt c) (n_a c))"
    "\<And>out. session_key aes ci1 lc index kdr (master_salt c) out (n_s c) = Some ks"
    "setNewKey aes env1 ci1 ke (int (n_e c)) = Some (True, env2, keyed aes (algorithm ci) ke)"
    "derive_f8 aes env2 (f8Cipher c) ke (n_e c) ks (n_s c) =
      Some (env3, map_option (\<lambda>f. keyed aes (algorithm f) (f8_key ke ks)) (f8Cipher c))"
proof -
  have alg: "is_aes (algorithm ci) \<or> is_twofish (algorithm ci)"
    and mk: "length (master_key c) = 16 \<or> length (master_key c) = 32" and salt: "14 \<le> length (master_salt c)"
    and n: "n_e c = 16 \<or> n_e c = 32" "n_a c < 2 ^ 20" "n_s c < 2 ^ 20"
    and f8: "\<And>f. f8Cipher c = Some f \<Longrightarrow> n_s c \<le> n_e c \<and> (is_aes (algorithm f) \<or> is_twofish (algorithm f))"
    using can ci by (auto simp: can_derive_def)
  have r: "runs aes ci1 (block_fn aes ci1)" unfolding ci1 by (rule runs_keyed [OF aes alg])
  have ne: "n_e c < 2 ^ 20" using n(1) by auto
  note k0 = session_key_eq [OF r salt ne, of la index kdr, folded ke]
  note k1 = session_key_eq [OF r salt n(2), of lb index kdr]
  note k2 = session_key_eq [OF r salt n(3), of lc index kdr, folded ks]
  obtain env1 where e1: "env_ok env1"
    "setNewKey aes env ci (master_key c) (int (length (master_key c))) = Some (True, env1, ci1)"
    using setNewKey_keyed [OF env mk alg refl] unfolding ci1 by blast
  have a: "algorithm ci1 = algorithm ci" by (simp add: ci1 keyed_def)
  have lke: "length ke = 16 \<or> length ke = 32" using k0(2) n(1) by simp
  obtain env2 where e2: "env_ok env2" "setNewKey aes env1 ci1 ke (int (n_e c)) = Some (True, env2, keyed aes (algorithm ci) ke)"
    using setNewKey_keyed [OF e1(1) lke, of ci1 "int (n_e c)" aes] alg k0(2) unfolding a by auto
  have "\<exists>env3. env_ok env3 \<and> derive_f8 aes env2 (f8Cipher c) ke (n_e c) ks (n_s c) =
      Some (env3, map_option (\<lambda>f. keyed aes (algorithm f) (f8_key ke ks)) (f8Cipher c))"
  proof (cases "f8Cipher c")
    case (Some f)
    have "length ke \<in> {16, 32}" "length ks \<le> length ke" using n(1) k0(2) k2(2) f8 [OF Some] by auto
    from f8_deriveForIV_keyed [OF e2(1) this, of f aes] f8 [OF Some] Some show ?thesis
      unfolding k0(2) k2(2) derive_f8_def by auto
  qed (use e2(1) in \<open>simp add: derive_f8_def\<close>)
  then show thesis using that e1(2) e2(2) k0(1) k1(1) k2(1) by blast
qed

lemma deriveSrtpKeys_eq:
  assumes "block_cipher (AES_encrypt aes)" "env_ok env" "can_derive c"
  shows "\<exists>env'. env_ok env' \<and> deriveSrtpKeys aes hm env c index = Some (env', derived aes hm index c)"
proof -
  obtain ci where ci: "cipher c = Some ci" using assms(3) by (auto simp: can_derive_def)
  show ?thesis
    by (rule derive_steps [OF assms ci refl refl refl, of 0 index "key_deriv_rate c" 1 2])
       (cases "aalg c"; simp add: deriveSrtpKeys_def derived_def derived_mac_def Let_def ci)
qed


section \<open>Two ends with the same parameters\<close>

definition session_of ::
  "('ak, 'hm) CryptoContext \<Rightarrow> 'ak SrtpSymCrypto option \<times> 'ak SrtpSymCrypto option \<times> byte list \<times> 'hm mac_ctx" where
  "session_of c = (cipher c, f8Cipher c, k_s c, macCtx c)"

definition zeroised :: "('ak, 'hm) CryptoContext \<Rightarrow> bool" where
  "zeroised c \<longleftrightarrow> set (master_key c) \<union> set (master_salt c) \<union> set (k_e c) \<union> set (k_a c) \<subseteq> {0}"

lemmas new_context_defs = newCryptoContext_def newCryptoContext_null_def newSrtpSymCrypto_def Let_def

lemma can_derive_new:
  assumes "ea \<noteq> SrtpEncryptionNull" "length mk \<in> {16, 32}" "14 \<le> length ms" "ekl \<in> {16, 32}" "akl < 2 ^ 20" "skl \<le> ekl"
  shows "can_derive (newCryptoContext mem ssrc r kdr ea aa mk ms ekl akl skl tgl)"
  using assms
  by (cases ea; cases aa) (auto simp: can_derive_def new_context_defs is_aes_def is_twofish_def)

lemma derived_agree:
  "session_of (derived aes hm index (newCryptoContext mem ssrc r kdr ea aa mk ms ekl akl skl tgl)) =
   session_of (derived aes hm index (newCryptoContext mem' ssrc' r' kdr ea aa mk ms ekl akl skl tgl))"
  by (cases ea; cases aa) (simp_all add: session_of_def derived_def derived_mac_def new_context_defs)

lemma zeroised_derived: "zeroised (derived aes hm index c)"
  by (simp add: zeroised_def derived_def Let_def) auto


definition sample_hmac :: "(byte list \<times> byte list) hmac_lib" where
  "sample_hmac = \<lparr>HMAC_Init_key = \<lambda>k. (k, []), HMAC_Init_again = \<lambda>(k, d). (k, []),
     HMAC_Update = \<lambda>(k, d) x. (k, d @ x),
     HMAC_Final = \<lambda>(k, d). ((k, d), replicate 20 (of_nat (length k + length d))),
     HMAC = \<lambda>k d. replicate 20 (of_nat (length k + length d))\<rparr>"

lemma env_ok_sample: "env_ok sample_env"
  by (simp add: env_ok_def sample_env_def)


text \<open>
  Cloning comes too late after the derivation. A context made by \<^verbatim>\<open>newCryptoContextForSSRC\<close> from a
  context that has derived its keys starts from a master key and a master salt of zeros, whatever the
  original ones were.
\<close>
theorem clone_after_derive_has_zero_key:
  assumes "block_cipher (AES_encrypt aes)" "env_ok env" "can_derive c"
    "deriveSrtpKeys aes hm env c index = Some (env', c')"
  shows "master_key (newCryptoContextForSSRC mem c' ssrc r kdr) = replicate (length (master_key c)) 0 \<and>
    master_salt (newCryptoContextForSSRC mem c' ssrc r kdr) = replicate (length (master_salt c)) 0"
proof -
  have "c' = derived aes hm index c" using deriveSrtpKeys_eq [OF assms(1-3), of hm index] assms(4) by auto
  then have "master_key c' = replicate (length (master_key c)) 0" "master_salt c' = replicate (length (master_salt c)) 0"
    by (simp_all add: derived_def Let_def)
  then show ?thesis
    by (cases "ealg c'"; cases "aalg c'") (simp_all add: newCryptoContextForSSRC_def new_context_defs)
qed

theorem clone_after_derive_has_zero_key_witness:
  "\<exists>env' c'. deriveSrtpKeys sample_aes sample_hmac sample_env (newCryptoContext (\<lambda>_. 1) 7 0 0 SrtpEncryptionAESCM
      SrtpAuthenticationSha1Hmac (replicate 16 1) (replicate 14 2) 16 20 14 10) 0 = Some (env', c') \<and>
    master_key (newCryptoContextForSSRC (\<lambda>_. 1) c' 9 0 0) = replicate 16 0"
proof -
  let ?c = "newCryptoContext (\<lambda>_. 1) 7 0 0 SrtpEncryptionAESCM
      SrtpAuthenticationSha1Hmac (replicate 16 1) (replicate 14 2) 16 20 14 10"
  have c: "can_derive ?c" by (rule can_derive_new) simp_all
  obtain env' c' where d: "deriveSrtpKeys sample_aes sample_hmac sample_env ?c 0 = Some (env', c')"
    using deriveSrtpKeys_eq [OF sample_aes_block_cipher env_ok_sample c] by blast
  have "length (master_key ?c) = 16" by (simp add: new_context_defs)
  then show ?thesis
    using d clone_after_derive_has_zero_key [OF sample_aes_block_cipher env_ok_sample c d, of "\<lambda>_. 1" 9 0 0] by auto
qed

end
