(* ===== verification/Srtp_Packet.thy ===== *)
theory Srtp_Packet
  imports Srtp_Keys
begin

text \<open>
  Protecting and unprotecting RTP packets: \<^verbatim>\<open>OutgoingRTPPkt::protect\<close> and \<^verbatim>\<open>IncomingRTPPkt::unprotect\<close> of
  \<^verbatim>\<open>src/src/rtppkt.cpp\<close> over the SRTP context, and what a sender and a receiver with the same
  parameters achieve together.
\<close>

section \<open>Protecting and unprotecting packets\<close>

definition getMkiLength :: "('ak, 'hm) CryptoContext \<Rightarrow> u32" where
  "getMkiLength pcc = mkiLength pcc"

text \<open>The tag goes to the memory behind the packet proper.\<close>

definition protect ::
  "'ak aes_lib \<Rightarrow> 'hm hmac_lib \<Rightarrow> RTPPacket \<Rightarrow> u32 \<Rightarrow> ('ak, 'hm) CryptoContext
   \<Rightarrow> (RTPPacket \<times> ('ak, 'hm) CryptoContext) option" where
  "protect aes hm pkt ssrc pcc =
     do { let index = packet_index (roc pcc) (getSeqNum pkt);
          pkt \<leftarrow> srtpEncrypt aes pcc pkt index ssrc;
          let off = unat (srtpDataOffset pkt);
          if aalg pcc \<noteq> SrtpAuthenticationNull \<and> off + tagLength pcc > length (pbuffer pkt) then None
          else do {
            (pcc, tag) \<leftarrow> srtpAuthenticate hm pcc pkt (roc pcc) (drop off (pbuffer pkt));
            let pkt = pkt\<lparr>pbuffer := take off (pbuffer pkt) @ tag\<rparr>;
            Some (pkt, if getSeqNum pkt = 0xFFFF then pcc\<lparr>roc := roc pcc + 1\<rparr> else pcc) } }"

text \<open>Result 1: accepted; -1: the tag is wrong; -2: replayed. The comparison reads the tag in the buffer.\<close>

definition unprotect ::
  "'ak aes_lib \<Rightarrow> 'hm hmac_lib \<Rightarrow> (nat \<Rightarrow> byte) \<Rightarrow> IncomingRTPPkt \<Rightarrow> ('ak, 'hm) CryptoContext option
   \<Rightarrow> (int \<times> IncomingRTPPkt \<times> ('ak, 'hm) CryptoContext option) option" where
  "unprotect aes hm mem pkt pcco =
     (case pcco of
        None \<Rightarrow> Some (1, pkt, None)
      | Some pcc \<Rightarrow>
        let srtpLen = of_nat (tagLength pcc) + getMkiLength pcc;
            srtpDataIndex = ptotal pkt - srtpLen;
            pkt = pkt\<lparr>ptotal := ptotal pkt - srtpLen, payloadSize := payloadSize pkt - srtpLen\<rparr>;
            tagPos = unat (srtpDataIndex + getMkiLength pcc)
        in do {
          (ok, pcc) \<leftarrow> checkReplay pcc (cachedSeqNum pkt);
          if \<not> ok then Some (- 2, pkt, Some pcc)
          else do {
            let (guessedIndex, pcc) = guessIndex pcc (cachedSeqNum pkt);
            let guessedRoc = ucast (drop_bit 16 guessedIndex);
            (pcc, mac) \<leftarrow> srtpAuthenticate hm pcc pkt guessedRoc (map mem [0..<tagLength pcc]);
            if tagPos + tagLength pcc > length (pbuffer pkt) then None
            else if take (tagLength pcc) (drop tagPos (pbuffer pkt)) \<noteq> mac then Some (- 1, pkt, Some pcc)
            else do {
              pkt \<leftarrow> srtpEncrypt aes pcc pkt guessedIndex (cachedSSRC pkt);
              pcc \<leftarrow> update pcc (cachedSeqNum pkt);
              Some (1, pkt, Some pcc) } } })"

section \<open>Authentication\<close>

text \<open>
  What the OpenSSL manual promises of the HMAC functions: \<open>holds c k d\<close> says that the context \<open>c\<close> was
  set up with the key \<open>k\<close> and has taken the data \<open>d\<close> since it was started; the code is that of the one-shot
  function, and SHA-1 codes have twenty bytes.
\<close>

definition hmac_ok :: "'hm hmac_lib \<Rightarrow> ('hm \<Rightarrow> byte list \<Rightarrow> byte list \<Rightarrow> bool) \<Rightarrow> bool" where
  "hmac_ok hm holds \<longleftrightarrow>
     (\<forall>k. holds (HMAC_Init_key hm k) k []) \<and>
     (\<forall>c k d. holds c k d \<longrightarrow> holds (HMAC_Init_again hm c) k []) \<and>
     (\<forall>c k d x. holds c k d \<longrightarrow> holds (HMAC_Update hm c x) k (d @ x)) \<and>
     (\<forall>c k d. holds c k d \<longrightarrow> snd (HMAC_Final hm c) = HMAC hm k d \<and> (\<exists>d'. holds (fst (HMAC_Final hm c)) k d')) \<and>
     (\<forall>k d. length (HMAC hm k d) = 20)"

lemma holds_foldl: "hmac_ok hm holds \<Longrightarrow> holds c k d \<Longrightarrow> holds (foldl (HMAC_Update hm) c xs) k (d @ concat xs)"
proof (induction xs arbitrary: c d)
  case (Cons x xs)
  then have "holds (HMAC_Update hm c x) k (d @ x)" by (auto simp: hmac_ok_def)
  then show ?case using Cons.IH [OF Cons.prems(1)] by fastforce
qed simp

lemma hmacSha1Ctx_chunks_holds:
  assumes "hmac_ok hm holds" "holds c k d"
  shows "snd (hmacSha1Ctx_chunks hm c xs) = HMAC hm k (concat xs)"
    "\<exists>d'. holds (fst (hmacSha1Ctx_chunks hm c xs)) k d'"
proof -
  have "holds (HMAC_Init_again hm c) k []" using assms by (auto simp: hmac_ok_def)
  then have "holds (foldl (HMAC_Update hm) (HMAC_Init_again hm c) xs) k (concat xs)"
    using holds_foldl [OF assms(1)] by fastforce
  then show "snd (hmacSha1Ctx_chunks hm c xs) = HMAC hm k (concat xs)"
    "\<exists>d'. holds (fst (hmacSha1Ctx_chunks hm c xs)) k d'"
    using assms(1) unfolding hmac_ok_def hmacSha1Ctx_chunks_def by blast+
qed

definition mac_code :: "'hm hmac_lib \<Rightarrow> srtp_aalg \<Rightarrow> nat \<Rightarrow> byte list \<Rightarrow> byte list \<Rightarrow> byte list" where
  "mac_code hm aa tagl k d = (case aa of
       SrtpAuthenticationNull \<Rightarrow> []
     | SrtpAuthenticationSha1Hmac \<Rightarrow> HMAC hm k d
     | SrtpAuthenticationSkeinHmac \<Rightarrow> macSkein k d (of_nat (tagl * 8)) Skein512)"

definition mac_for ::
  "('hm \<Rightarrow> byte list \<Rightarrow> byte list \<Rightarrow> bool) \<Rightarrow> srtp_aalg \<Rightarrow> nat \<Rightarrow> byte list \<Rightarrow> 'hm mac_ctx \<Rightarrow> bool" where
  "mac_for holds aa tagl k m = (case aa of
       SrtpAuthenticationNull \<Rightarrow> tagl = 0
     | SrtpAuthenticationSha1Hmac \<Rightarrow> tagl \<le> 20 \<and> (\<exists>c d. m = MacSha1 c \<and> holds c k d)
     | SrtpAuthenticationSkeinHmac \<Rightarrow> 0 < tagl \<and> tagl \<le> 20 \<and>
         (\<exists>c. m = MacSkein c \<and> mac_ready (createSkeinMacContext k (of_nat (tagl * 8)) Skein512) c))"

lemma skein_tag_length:
  assumes "0 < tagl" "tagl \<le> 20"
  shows "(of_nat (tagl * 8) :: 32 word) \<noteq> 0" "length (macSkein k d (of_nat (tagl * 8)) sz) = tagl"
proof -
  have u: "sint (of_nat (tagl * 8) :: 32 word) = int (tagl * 8)"
  proof -
    have "sint (of_int (int (tagl * 8)) :: 32 word) = signed_take_bit 31 (int (tagl * 8))"
      by (simp only: signed_of_int) simp
    also have "\<dots> = int (tagl * 8)" using assms by (intro signed_take_bit_int_eq_self) auto
    finally show ?thesis by (simp del: of_nat_mult)
  qed
  then have p: "0 < sint (of_nat (tagl * 8) :: 32 word)" using assms by simp
  show "(of_nat (tagl * 8) :: 32 word) \<noteq> 0" using p by (metis less_irrefl signed_0)
  have "nat ((int (tagl * 8) + 7) div 8) = tagl" by simp
  then show "length (macSkein k d (of_nat (tagl * 8)) sz) = tagl"
    using macSkein_length [OF p] u by simp
qed

lemma length_mac_code:
  assumes "hmac_ok hm holds" "mac_for holds aa tagl k m"
  shows "length (take tagl (mac_code hm aa tagl k d)) = tagl" "length (mac_code hm aa tagl k d) \<le> 20" "tagl \<le> 20"
  using assms skein_tag_length(2) [of tagl k d Skein512]
  by (cases aa; auto simp: mac_for_def mac_code_def hmac_ok_def)+

lemma srtpAuthenticate_eq:
  assumes "hmac_ok hm holds" "mac_for holds (aalg ctx) (tagLength ctx) k (macCtx ctx)"
  obtains m where "srtpAuthenticate hm ctx rtp r tag =
      Some (ctx\<lparr>macCtx := m\<rparr>, memcpy_at tag 0 (take (tagLength ctx) (mac_code hm (aalg ctx) (tagLength ctx) k (getRawPacket rtp @ be32 r))))"
    "mac_for holds (aalg ctx) (tagLength ctx) k m"
proof (cases "aalg ctx")
  case SrtpAuthenticationNull
  then show ?thesis using that [of "macCtx ctx"] assms by (simp add: srtpAuthenticate_def mac_code_def mac_for_def)
next
  case SrtpAuthenticationSha1Hmac
  then obtain c d where c: "macCtx ctx = MacSha1 c" "holds c k d" "tagLength ctx \<le> 20"
    using assms(2) by (auto simp: mac_for_def)
  note h = hmacSha1Ctx_chunks_holds [OF assms(1) c(2), of "[getRawPacket rtp, be32 r]"]
  show ?thesis
    using that [of "MacSha1 (fst (hmacSha1Ctx_chunks hm c [getRawPacket rtp, be32 r]))"] h c assms(1) SrtpAuthenticationSha1Hmac
    by (simp add: srtpAuthenticate_def mac_for_def mac_code_def case_prod_unfold Let_def hmac_ok_def)
next
  case SrtpAuthenticationSkeinHmac
  let ?c0 = "createSkeinMacContext k (of_nat (tagLength ctx * 8)) Skein512"
  obtain c where c: "macCtx ctx = MacSkein c" "mac_ready ?c0 c" "0 < tagLength ctx" "tagLength ctx \<le> 20"
    using assms(2) SrtpAuthenticationSkeinHmac by (auto simp: mac_for_def)
  obtain c' mac where call: "macSkeinCtx_chunks c [getRawPacket rtp, be32 r] = (c', mac)" by fastforce
  note n = skein_tag_length [OF c(3,4)]
  note h = macSkeinCtx_chunks_ready [OF n(1) c(2) call]
  have "length mac = tagLength ctx" unfolding h(2) by (rule n(2))
  then show ?thesis
    using that [of "MacSkein c'"] h c call SrtpAuthenticationSkeinHmac
    by (simp add: srtpAuthenticate_def mac_for_def mac_code_def)
qed


section \<open>Encryption\<close>

definition usable :: "'ak aes_lib \<Rightarrow> ('ak, 'hm) CryptoContext \<Rightarrow> bool" where
  "usable aes c \<longleftrightarrow> (\<exists>ci. cipher c = Some ci \<and> runs aes ci (block_fn aes ci)) \<and>
     (ealg c = SrtpEncryptionAESCM \<or> ealg c = SrtpEncryptionTWOCM) \<and> 14 \<le> length (k_s c)"

definition cm_stream :: "'ak aes_lib \<Rightarrow> ('ak, 'hm) CryptoContext \<Rightarrow> u32 \<Rightarrow> u64 \<Rightarrow> nat \<Rightarrow> byte list" where
  "cm_stream aes c ssrc index n = ctr_keystream (block_fn aes (the (cipher c))) (cm_iv (k_s c) ssrc index) n"

lemma length_cm_stream: "usable aes c \<Longrightarrow> length (cm_stream aes c ssrc index n) = n"
  by (auto simp: usable_def cm_stream_def intro!: length_keystream length_cm_iv)

lemma srtpEncrypt_cm:
  assumes "usable aes c" "pbuffer p = H @ D @ R" "unat (hdrSize p) = length H" "unat (crypt_len p) = length D"
    "length D < 2 ^ 20"
  shows "srtpEncrypt aes c p index ssrc =
    Some (p\<lparr>pbuffer := H @ xor_bytes D (cm_stream aes c ssrc index (length D)) @ R\<rparr>)"
proof -
  obtain ci where ci: "cipher c = Some ci" "runs aes ci (block_fn aes ci)" and ks: "14 \<le> length (k_s c)"
    and alg: "ealg c = SrtpEncryptionAESCM \<or> ealg c = SrtpEncryptionTWOCM" "ealg c \<noteq> SrtpEncryptionNull"
    using assms(1) by (auto simp: usable_def)
  obtain iv' where "ctr_encrypt aes ci D (cm_iv (k_s c) ssrc index) =
      Some (xor_bytes D (cm_stream aes c ssrc index (length D)), iv')"
    using ctr_encrypt_to_eq [OF ci(2) length_cm_iv [OF ks] assms(5), of D]
    by (auto simp: ctr_encrypt_def cm_stream_def ci(1))
  moreover have "memcpy_at (H @ D @ R) (length H) (xor_bytes D (cm_stream aes c ssrc index (length D))) =
      H @ xor_bytes D (cm_stream aes c ssrc index (length D)) @ R"
    by (rule memcpy_at_mid) (simp_all add: length_cm_stream [OF assms(1)])
  ultimately show ?thesis
    using alg ks ci(1) by (simp add: srtpEncrypt_def Let_def assms(2-4))
qed

lemma usable_cong:
  "cipher c = cipher c' \<Longrightarrow> k_s c = k_s c' \<Longrightarrow> ealg c = ealg c' \<Longrightarrow> usable aes c = usable aes c'"
  "cipher c = cipher c' \<Longrightarrow> k_s c = k_s c' \<Longrightarrow> cm_stream aes c = cm_stream aes c'"
  by (simp_all add: usable_def cm_stream_def fun_eq_iff)

section \<open>One packet over the wire\<close>

text \<open>The bytes that go out: the packet and the SRTP data behind it.\<close>

definition getRawPacketSrtp :: "RTPPacket \<Rightarrow> byte list" where
  "getRawPacketSrtp p = take (unat (getRawPacketSizeSrtp p)) (pbuffer p)"

text \<open>The two ends agree: same keys, and the next index is ahead of the receiver by less than the window.\<close>

definition next_index :: "('ak, 'hm) CryptoContext \<Rightarrow> u16 \<Rightarrow> nat" where
  "next_index s sq = unat (packet_index (roc s) sq)"

definition in_sync ::
  "'ak aes_lib \<Rightarrow> ('hm \<Rightarrow> byte list \<Rightarrow> byte list \<Rightarrow> bool) \<Rightarrow> byte list \<Rightarrow>
   ('ak, 'hm) CryptoContext \<Rightarrow> ('ak, 'hm) CryptoContext \<Rightarrow> u16 \<Rightarrow> bool" where
  "in_sync aes holds k s r sq \<longleftrightarrow> usable aes s \<and>
     cipher r = cipher s \<and> k_s r = k_s s \<and> ealg r = ealg s \<and> aalg r = aalg s \<and> tagLength r = tagLength s \<and>
     mkiLength s = 0 \<and> mkiLength r = 0 \<and>
     mac_for holds (aalg s) (tagLength s) k (macCtx s) \<and> mac_for holds (aalg s) (tagLength s) k (macCtx r) \<and>
     (if seqNumSet r then local_index r < next_index s sq \<and> next_index s sq < local_index r + 64
      else roc r = roc s \<and> replay_window r = 0)"

lemma guessed_ahead:
  assumes "seqNumSet r" "local_index r < unat (packet_index g sq)" "unat (packet_index g sq) < local_index r + 64"
  shows "guessed r sq = g"
proof -
  let ?l = "unat (s_l r)" and ?q = "unat sq" and ?r = "unat (roc r)" and ?g = "unat g"
  have b: "?l < 65536" "?q < 65536" by (simp_all add: unat_u16_less)
  have h: "?r * 65536 + ?l < ?g * 65536 + ?q" "?g * 65536 + ?q < ?r * 65536 + ?l + 64"
    using assms(2,3) by (simp_all add: local_index_def unat_packet_index)
  consider "?g = ?r" "?l < ?q" "?q < ?l + 64" | "?g = Suc ?r" "?q + 65536 < ?l + 64"
    using h b by (cases "?g = ?r"; cases "?g = Suc ?r") auto
  then show ?thesis
  proof cases
    case 1
    then have "roc r = g" by (simp add: word_unat_eq_iff)
    moreover have "\<not> uint sq - uint (s_l r) > 32768" "\<not> uint (s_l r) - 32768 > uint sq"
      using 1 b unfolding uint_nat by linarith+
    ultimately show ?thesis using assms(1) by (simp add: guessed_def guessIndex_def Let_def)
  next
    case 2
    have "?g < 4294967296" by (rule unat_u32_less)
    then have "roc r + 1 = g" using 2(1) by (simp add: word_unat_eq_iff unat_word_ariths)
    moreover have "\<not> s_l r < 32768" using 2 by (simp add: word_less_nat_alt)
    moreover have "uint (s_l r) - 32768 > uint sq" using 2 unfolding uint_nat by linarith
    ultimately show ?thesis using assms(1) by (simp add: guessed_def guessIndex_def Let_def)
  qed
qed


lemma receive_index:
  assumes "secured r"
    "if seqNumSet r then local_index r < unat (packet_index g sq) \<and> unat (packet_index g sq) < local_index r + 64
     else roc r = g \<and> replay_window r = 0"
    and r1: "r1 = (synced r sq)\<lparr>guessed_roc := g\<rparr>"
  shows "checkReplay r sq = Some (True, r1)" "guessIndex r1 sq = (packet_index g sq, r1)"
    "\<exists>w. update (r1\<lparr>macCtx := m\<rparr>) sq = Some (r1\<lparr>macCtx := m, roc := g, s_l := sq, replay_window := w\<rparr>)"
proof -
  have g: "guessed r sq = g"
  proof (cases "seqNumSet r")
    case True
    then show ?thesis using guessed_ahead [of r g sq] assms(2) by simp
  next
    case False
    then show ?thesis using assms(2) by (simp add: guessed_def guessIndex_unset)
  qed
  have i: "rx_index r sq = unat (packet_index g sq)" by (simp add: guessIndex_eq g)
  define I where "I = unat (packet_index g sq)"
  define L where "L = local_index (synced r sq)"
  have d: "L \<le> I" "I < L + 64" "I = L \<Longrightarrow> replay_window r = 0"
    using assms(2) by (auto simp: L_def I_def synced_def local_index_def split: if_splits)
  show "checkReplay r sq = Some (True, r1)"
    using d unfolding checkReplay_eq [OF assms(1)] i g r1 I_def [symmetric] L_def [symmetric] Let_def
    by (cases "I = L") auto
  have s: "synced r1 sq = r1" "guessed r1 sq = g"
    by (simp_all add: r1 synced_def g) (metis g guessed_guessed_roc guessed_synced synced_def)
  then show "guessIndex r1 sq = (packet_index g sq, r1)"
    unfolding guessIndex_eq s by (simp add: r1)
  let ?r = "r1\<lparr>macCtx := m\<rparr>"
  have set: "seqNumSet ?r" by (simp add: r1)
  have "guessed ?r sq = guessed r1 sq" by (simp add: guessed_def guessIndex_def Let_def)
  then have gr: "guessed ?r sq = g" using s(2) by simp
  have ir: "rx_index ?r sq = I" unfolding I_def guessIndex_eq gr by simp
  have lr: "local_index ?r = L" by (simp add: L_def local_index_def r1)
  have "\<not> (int I - int L < 0 \<or> 64 \<le> int I - int L)" using d by linarith
  then show "\<exists>w. update ?r sq = Some (r1\<lparr>macCtx := m, roc := g, s_l := sq, replay_window := w\<rparr>)"
    unfolding update_eq [OF set] ir lr Let_def gr by (auto simp: r1 intro!: exI CryptoContext.equality)
qed

lemma rtp_wire_split:
  "rtp_wire marker pt sq ts ssrc csrcs hdrext (d @ t) 0 =
   (rtp_wire marker pt sq ts ssrc csrcs hdrext [] 0 @ d) @ t"
  by (simp add: rtp_wire_def pad_bytes_def)

lemma length_rtp_wire: "length (rtp_wire marker pt sq ts ssrc csrcs hdrext d 0) =
    12 + 4 * length csrcs + length hdrext + length d"
  by (simp add: rtp_wire_def pad_bytes_def)


lemma protect_wire:
  assumes hm: "hmac_ok hm holds" and us: "usable aes s" and mac: "mac_for holds (aalg s) (tagLength s) k (macCtx s)"
    and bnd: "12 + 4 * length csrcs + length hdrext + length data + 256 < 2 ^ 32" "length csrcs \<le> 15" "length data < 2 ^ 20"
    and p: "p = send_pkt marker pt sq ts ssrc (newOutgoingRTPPkt_ext mem csrcs hdrext data 0 (Some (int (tagLength s))))"
    and ct: "ct = xor_bytes data (cm_stream aes s ssrc (packet_index (roc s) sq) (length data))"
    and tag: "tag = take (tagLength s) (mac_code hm (aalg s) (tagLength s) k
      (rtp_wire marker pt sq ts ssrc csrcs hdrext ct 0 @ be32 (roc s)))"
  obtains p' m where "protect aes hm p ssrc s = Some (p', (s\<lparr>macCtx := m\<rparr>)\<lparr>roc := (if sq = 0xFFFF then roc s + 1 else roc s)\<rparr>)"
    "getRawPacketSrtp p' = rtp_wire marker pt sq ts ssrc csrcs hdrext (ct @ tag) 0"
    "mac_for holds (aalg s) (tagLength s) k m"
proof -
  let ?w = "\<lambda>d. rtp_wire marker pt sq ts ssrc csrcs hdrext d 0"
  let ?H = "?w []" and ?tl = "tagLength s"
  have pad: "(0 :: byte) = padding_len (of_nat (12 + (4 * length csrcs + length hdrext) + length data)) 0"
    by (simp add: padding_len_def)
  have sl: "int ?tl = (case Some (int ?tl) of None \<Rightarrow> 0 | Some n \<Rightarrow> n)" "0 \<le> int ?tl" by simp_all
  obtain T where T: "pbuffer p = ?w data @ T" "length T = nat (int ?tl)" "unat (ptotal p) = length (?w data)"
    "unat (payloadSize p) = length data" "unat (hdrSize p) = 12 + 4 * length csrcs + length hdrext"
    "srtpLength p = int ?tl" "srtpDataOffset p = (case Some (int ?tl) of None \<Rightarrow> 0 | Some n \<Rightarrow> ptotal p)"
    "cachedSeqNum p = sq" "cachedTimestamp p = ts"
    by (rule out_ext_buffer [OF bnd(1) sl(2,1) pad p])
  have w: "?w d = ?H @ d" for d using rtp_wire_split [of marker pt sq ts ssrc csrcs hdrext d "[]"] by simp
  have lct: "length ct = length data" by (simp add: ct length_cm_stream [OF us])
  have lH: "length ?H = 12 + 4 * length csrcs + length hdrext" by (simp add: length_rtp_wire)
  have tl20: "?tl \<le> 20" and ltag: "length tag = ?tl" using length_mac_code [OF hm mac] by (simp_all add: tag)
  have "hdr_padding (pbuffer p) = hdr_padding (?w data)"
    using T(1) by (simp add: hdr_padding_def nth_append length_rtp_wire)
  then have np: "\<not> isPadded p" using wire_hdr(2) [OF bnd(2) refl] by (simp add: isPadded_def)
  let ?p1 = "p\<lparr>pbuffer := ?w ct @ T\<rparr>"
  have buf: "pbuffer p = ?H @ data @ T" unfolding T(1) w [of data] by simp
  have enc: "srtpEncrypt aes s p (packet_index (roc s) sq) ssrc = Some ?p1"
    unfolding w [of ct] append_assoc unfolding ct
    by (rule srtpEncrypt_cm [OF us buf _ _ bnd(3)]) (use T(4,5) np lH in \<open>simp_all add: crypt_len_def\<close>)
  have lw: "length (?w data) = length (?w ct)" by (simp add: length_rtp_wire lct)
  have off: "unat (srtpDataOffset ?p1) = length (?w ct)" using T(3,7) lw by simp
  have raw: "getRawPacket ?p1 = ?w ct" using T(3) lw by (simp add: getRawPacket_def)
  obtain m where m: "srtpAuthenticate hm s ?p1 (roc s) T = Some (s\<lparr>macCtx := m\<rparr>, memcpy_at T 0 tag)"
    "mac_for holds (aalg s) ?tl k m"
    using srtpAuthenticate_eq [OF hm mac, of ?p1 "roc s" T] unfolding raw tag by metis
  have T': "memcpy_at T 0 tag = tag" using T(2) ltag by (simp add: memcpy_at_def)
  let ?p2 = "?p1\<lparr>pbuffer := ?w ct @ tag\<rparr>"
  have "protect aes hm p ssrc s = Some (?p2, (s\<lparr>macCtx := m\<rparr>)\<lparr>roc := (if sq = 0xFFFF then roc s + 1 else roc s)\<rparr>)"
    unfolding protect_def Let_def getSeqNum_def T(8) enc Option.bind.simps off
    using m(1) T(2,8) T' by simp
  moreover have "getRawPacketSrtp ?p2 = ?w (ct @ tag)"
  proof -
    have "unat (ptotal p + of_nat ?tl) = length (?w data) + ?tl"
      using T(3) bnd(1) tl20 by (simp add: unat_word_ariths unsigned_of_nat take_bit_nat_eq_self length_rtp_wire)
    then show ?thesis
      using lw ltag T(6) rtp_wire_split [of marker pt sq ts ssrc csrcs hdrext ct tag] w [of ct]
      by (simp add: getRawPacketSrtp_def getRawPacketSizeSrtp_def)
  qed
  ultimately show thesis using that m(2) by blast
qed


lemma unat_minus_u32: "unat (of_nat (a + b) - of_nat b :: u32) = a" if "a < 2 ^ 32"
  using that by (simp add: unat_of_nat32)

lemma roc_of_index: "ucast (drop_bit 16 (packet_index g sq)) = g"
  unfolding packet_index_def
  by (rule bit_word_eqI) (auto simp: bit_simps dest: bit_imp_le_length)

lemma unprotect_wire:
  assumes hm: "hmac_ok hm holds" and us: "usable aes r" and mac: "mac_for holds (aalg r) (tagLength r) k (macCtx r)"
    and mki: "mkiLength r = 0"
    and bnd: "12 + 4 * length csrcs + length hdrext + length ct + 256 < 2 ^ 32" "length csrcs \<le> 15" "length ct < 2 ^ 20" "pt < 128"
    and idx: "if seqNumSet r then local_index r < unat (packet_index g sq) \<and> unat (packet_index g sq) < local_index r + 64
      else roc r = g \<and> replay_window r = 0"
    and tag: "tag = take (tagLength r) (mac_code hm (aalg r) (tagLength r) k
      (rtp_wire marker pt sq ts ssrc csrcs hdrext ct 0 @ be32 g))"
    and ip: "ip = parsed_wire marker pt sq ts ssrc csrcs hdrext (ct @ tag) 0"
    and data: "data = xor_bytes ct (cm_stream aes r ssrc (packet_index g sq) (length ct))"
  obtains ip' m w where "unprotect aes hm mem ip (Some r) =
      Some (1, ip', Some (((synced r sq)\<lparr>guessed_roc := g\<rparr>)\<lparr>macCtx := m, roc := g, s_l := sq, replay_window := w\<rparr>))"
    "getPayload ip' = data" "pbuffer ip' = rtp_wire marker pt sq ts ssrc csrcs hdrext data 0 @ tag"
    "mac_for holds (aalg r) (tagLength r) k m"
proof -
  let ?w = "\<lambda>d. rtp_wire marker pt sq ts ssrc csrcs hdrext d 0"
  let ?H = "?w []" and ?tl = "tagLength r"
  define r1 where "r1 = (synced r sq)\<lparr>guessed_roc := g\<rparr>"
  have sec: "secured r" using us by (auto simp: secured_def usable_def)
  note ri = receive_index [OF sec idx r1_def]
  have eqs: "tagLength r1 = ?tl" "aalg r1 = aalg r" "macCtx r1 = macCtx r" "mkiLength r1 = 0"
    "cipher r1 = cipher r" "k_s r1 = k_s r" "ealg r1 = ealg r"
    using mki by (simp_all add: r1_def synced_def)
  have w: "?w d = ?H @ d" for d using rtp_wire_split [of marker pt sq ts ssrc csrcs hdrext d "[]"] by simp
  have lH: "length ?H = 12 + 4 * length csrcs + length hdrext" by (simp add: length_rtp_wire)
  have tl20: "?tl \<le> 20" and ltag: "length tag = ?tl" using length_mac_code [OF hm mac] by (simp_all add: tag)
  have bufeq: "pbuffer ip = ?w ct @ tag"
    using rtp_wire_split [of marker pt sq ts ssrc csrcs hdrext ct tag] w [of ct] by (simp add: ip parsed_wire_def)
  define p1 where "p1 = ip\<lparr>ptotal := ptotal ip - of_nat ?tl, payloadSize := payloadSize ip - of_nat ?tl\<rparr>"
  have n: "ptotal ip = of_nat (length (?w ct) + ?tl)" "payloadSize ip = of_nat (length ct + ?tl)"
    using ltag by (simp_all add: ip parsed_wire_def length_rtp_wire add.assoc del: of_nat_add)
  have pt1: "unat (ptotal p1) = length (?w ct)" "unat (payloadSize p1) = length ct"
    unfolding p1_def using unat_minus_u32 [of "length (?w ct)" ?tl] unat_minus_u32 [of "length ct" ?tl] bnd(1)
    by (simp_all add: n length_rtp_wire del: of_nat_add)
  have hs: "unat (hdrSize p1) = length ?H"
    using unat_of_nat32 [of "12 + 4 * length csrcs + length hdrext"] bnd(1)
    by (simp add: p1_def ip parsed_wire_def lH del: of_nat_add)
  have b1: "pbuffer p1 = ?w ct @ tag" "cachedSeqNum p1 = sq" "cachedSSRC p1 = ssrc"
    using bufeq by (simp_all add: p1_def) (simp_all add: ip parsed_wire_def)
  have raw: "getRawPacket p1 = ?w ct" using pt1(1) b1(1) by (simp add: getRawPacket_def)
  have "hdr_padding (pbuffer p1) = hdr_padding (?w ct)"
    using b1(1) by (simp add: hdr_padding_def nth_append length_rtp_wire)
  then have np: "\<not> isPadded p1" using wire_hdr(2) [OF bnd(2) refl] by (simp add: isPadded_def)
  have groc: "ucast (drop_bit 16 (packet_index g sq)) = g" by (rule roc_of_index)
  have mac1: "mac_for holds (aalg r1) (tagLength r1) k (macCtx r1)" using mac eqs by simp
  obtain m where m: "srtpAuthenticate hm r1 p1 g (map mem [0..<?tl]) = Some (r1\<lparr>macCtx := m\<rparr>, tag)"
    "mac_for holds (aalg r) ?tl k m"
  proof (rule srtpAuthenticate_eq [OF hm mac1, of p1 g "map mem [0..<?tl]"])
    fix m
    assume "srtpAuthenticate hm r1 p1 g (map mem [0..<?tl]) = Some (r1\<lparr>macCtx := m\<rparr>, memcpy_at (map mem [0..<?tl]) 0
        (take (tagLength r1) (mac_code hm (aalg r1) (tagLength r1) k (getRawPacket p1 @ be32 g))))"
      "mac_for holds (aalg r1) (tagLength r1) k m"
    then show thesis using that [of m] ltag unfolding raw eqs tag [symmetric] by (simp add: memcpy_at_def)
  qed
  let ?r2 = "r1\<lparr>macCtx := m\<rparr>"
  have us2: "usable aes ?r2" and cs2: "cm_stream aes ?r2 = cm_stream aes r"
    using us usable_cong [of ?r2 r] eqs by simp_all
  have buf: "pbuffer p1 = ?H @ ct @ tag" unfolding b1(1) w [of ct] by simp
  let ?p2 = "p1\<lparr>pbuffer := ?H @ data @ tag\<rparr>"
  have dec: "srtpEncrypt aes ?r2 p1 (packet_index g sq) ssrc = Some ?p2"
    unfolding data cs2 [symmetric]
    by (rule srtpEncrypt_cm [OF us2 buf hs _ bnd(3)]) (use pt1(2) np in \<open>simp add: crypt_len_def\<close>)
  obtain wd where up: "update ?r2 sq = Some (r1\<lparr>macCtx := m, roc := g, s_l := sq, replay_window := wd\<rparr>)"
    using ri(3) by blast
  have pos: "unat (ptotal ip - of_nat ?tl) = length (?w ct)" using pt1(1) by (simp add: p1_def)
  have "unprotect aes hm mem ip (Some r) = Some (1, ?p2, Some (r1\<lparr>macCtx := m, roc := g, s_l := sq, replay_window := wd\<rparr>))"
    unfolding unprotect_def option.case getMkiLength_def mki add_0_right p1_def [symmetric] Let_def b1(2) ri(1)
    using ri(2) m(1) dec up pos b1 ltag groc eqs by simp
  moreover have "length data = length ct" by (simp add: data length_cm_stream [OF us])
  then have "getPayload ?p2 = data" using hs pt1(2) by (simp add: getPayload_def)
  moreover have "pbuffer ?p2 = ?w data @ tag" unfolding w [of data] by simp
  ultimately show thesis using that m(2) unfolding r1_def by blast
qed


section \<open>A stream of packets\<close>

record rtp_msg =
  msg_marker :: bool
  msg_pt :: byte
  msg_ts :: u32
  msg_csrcs :: "u32 list"
  msg_hdrext :: "byte list"
  msg_data :: "byte list"

definition valid_msg :: "rtp_msg \<Rightarrow> bool" where
  "valid_msg x \<longleftrightarrow> length (msg_csrcs x) \<le> 15 \<and> valid_hdrext (msg_hdrext x) \<and> length (msg_data x) < 2 ^ 20 \<and>
     msg_pt x < 128 \<and> msg_pt x \<noteq> 72 \<and> msg_pt x \<noteq> 73"

text \<open>
  The sender builds, protects and sends the messages with consecutive sequence numbers; the receiver
  parses and unprotects every packet. The results and the received payloads are collected.
\<close>

fun srtp_session ::
  "'ak aes_lib \<Rightarrow> 'hm hmac_lib \<Rightarrow> (nat \<Rightarrow> byte) \<Rightarrow> u32 \<Rightarrow> ('ak, 'hm) CryptoContext \<Rightarrow> ('ak, 'hm) CryptoContext
   \<Rightarrow> u16 \<Rightarrow> rtp_msg list \<Rightarrow> (int \<times> byte list) list option" where
  "srtp_session aes hm mem ssrc s r sq [] = Some []"
| "srtp_session aes hm mem ssrc s r sq (x # xs) =
     do { let p = send_pkt (msg_marker x) (msg_pt x) sq (msg_ts x) ssrc
            (newOutgoingRTPPkt_ext mem (msg_csrcs x) (msg_hdrext x) (msg_data x) 0 (Some (int (tagLength s))));
          (p, s) \<leftarrow> protect aes hm p ssrc s;
          ip \<leftarrow> newIncomingRTPPkt (getRawPacketSrtp p);
          (code, ip, ro) \<leftarrow> unprotect aes hm mem ip (Some r);
          r \<leftarrow> ro;
          rest \<leftarrow> srtp_session aes hm mem ssrc s r (sq + 1) xs;
          Some ((code, getPayload ip) # rest) }"

lemma next_index_step:
  assumes "next_index s sq + 1 < 281474976710656"
    "s' = (s\<lparr>macCtx := m\<rparr>)\<lparr>roc := (if sq = 0xFFFF then roc s + 1 else roc s)\<rparr>"
  shows "next_index s' (sq + 1) = next_index s sq + 1"
proof (cases "sq = 0xFFFF")
  case True
  then have "unat (roc s + 1) = unat (roc s) + 1"
    using assms(1) unat_u32_less [of "roc s"] by (simp add: next_index_def unat_packet_index unat_word_ariths)
  then show ?thesis using True assms(2) by (simp add: next_index_def unat_packet_index)
next
  case False
  then have "unat sq \<noteq> unat (0xFFFF :: u16)" by (metis unsigned_word_eqI)
  then have "unat (sq + 1) = unat sq + 1" using unat_u16_less [of sq] by (simp add: unat_word_ariths)
  then show ?thesis using False assms(2) by (simp add: next_index_def unat_packet_index)
qed

lemma valid_hdrext_length: "valid_hdrext x \<Longrightarrow> length x \<le> 4 + 4 * 65535"
proof -
  assume "valid_hdrext x"
  then have "x = [] \<or> length x = 4 + 4 * unat (from_be16 (take 2 (drop 2 x)))" unfolding valid_hdrext_def by blast
  moreover have "unat (from_be16 (take 2 (drop 2 x))) < 65536" by (rule unat_u16_less)
  ultimately show ?thesis by (cases "x = []") (simp, linarith)
qed

lemma synced_fields [simp]:
  "cipher (synced r sq) = cipher r" "k_s (synced r sq) = k_s r" "ealg (synced r sq) = ealg r"
  "aalg (synced r sq) = aalg r" "tagLength (synced r sq) = tagLength r" "mkiLength (synced r sq) = mkiLength r"
  by (simp_all add: synced_def)

lemma srtp_packet_step:
  assumes hm: "hmac_ok hm holds" and sync: "in_sync aes holds k s r sq" and vm: "valid_msg x"
  obtains p s' ip ip' r' where
    "protect aes hm (send_pkt (msg_marker x) (msg_pt x) sq (msg_ts x) ssrc
      (newOutgoingRTPPkt_ext mem (msg_csrcs x) (msg_hdrext x) (msg_data x) 0 (Some (int (tagLength s))))) ssrc s = Some (p, s')"
    "newIncomingRTPPkt (getRawPacketSrtp p) = Some ip" "unprotect aes hm mem' ip (Some r) = Some (1, ip', Some r')" "getPayload ip' = msg_data x"
    "ssrcCtx s' = ssrcCtx s" "mkiLength s' = mkiLength s" "tagLength s' = tagLength s"
    "next_index s sq + 1 < 281474976710656 \<Longrightarrow> next_index s' (sq + 1) = next_index s sq + 1 \<and> in_sync aes holds k s' r' (sq + 1)"
proof -
  define ct where "ct = xor_bytes (msg_data x) (cm_stream aes s ssrc (packet_index (roc s) sq) (length (msg_data x)))"
  define tag where "tag = take (tagLength s) (mac_code hm (aalg s) (tagLength s) k
      (rtp_wire (msg_marker x) (msg_pt x) sq (msg_ts x) ssrc (msg_csrcs x) (msg_hdrext x) ct 0 @ be32 (roc s)))"
  have y: "usable aes s" "mac_for holds (aalg s) (tagLength s) k (macCtx s)"
    "mac_for holds (aalg s) (tagLength s) k (macCtx r)" "mkiLength r = 0" "mkiLength s = 0"
    and eqs: "cipher r = cipher s" "k_s r = k_s s" "ealg r = ealg s" "aalg r = aalg s" "tagLength r = tagLength s"
    and idx: "if seqNumSet r then local_index r < next_index s sq \<and> next_index s sq < local_index r + 64
      else roc r = roc s \<and> replay_window r = 0"
    using sync unfolding in_sync_def by blast+
  have v: "length (msg_csrcs x) \<le> 15" "valid_hdrext (msg_hdrext x)" "length (msg_data x) < 2 ^ 20"
    "msg_pt x < 128" "msg_pt x \<noteq> 72" "msg_pt x \<noteq> 73"
    using vm by (simp_all add: valid_msg_def)
  have lct: "length ct = length (msg_data x)" by (simp add: ct_def length_cm_stream [OF y(1)])
  have bnd: "12 + 4 * length (msg_csrcs x) + length (msg_hdrext x) + length (msg_data x) + 256 < 2 ^ 32"
    using v(1,3) valid_hdrext_length [OF v(2)] by simp
  obtain p' m where P: "protect aes hm (send_pkt (msg_marker x) (msg_pt x) sq (msg_ts x) ssrc
      (newOutgoingRTPPkt_ext mem (msg_csrcs x) (msg_hdrext x) (msg_data x) 0 (Some (int (tagLength s))))) ssrc s =
      Some (p', (s\<lparr>macCtx := m\<rparr>)\<lparr>roc := (if sq = 0xFFFF then roc s + 1 else roc s)\<rparr>)"
    "getRawPacketSrtp p' = rtp_wire (msg_marker x) (msg_pt x) sq (msg_ts x) ssrc (msg_csrcs x) (msg_hdrext x) (ct @ tag) 0"
    "mac_for holds (aalg s) (tagLength s) k m"
    by (rule protect_wire [OF hm y(1,2) bnd v(1,3) refl ct_def tag_def])
  have us: "usable aes r" and cs: "cm_stream aes r = cm_stream aes s"
    using y(1) usable_cong [of r s] eqs by simp_all
  have d: "msg_data x = xor_bytes ct (cm_stream aes r ssrc (packet_index (roc s) sq) (length ct))"
    unfolding cs lct by (simp add: ct_def xor_bytes_cancel length_cm_stream [OF y(1)])
  define ip where "ip = parsed_wire (msg_marker x) (msg_pt x) sq (msg_ts x) ssrc (msg_csrcs x) (msg_hdrext x) (ct @ tag) 0"
  have macr: "mac_for holds (aalg r) (tagLength r) k (macCtx r)" using y(3) eqs by simp
  obtain ip' m' w where U: "unprotect aes hm mem' ip (Some r) = Some (1, ip', Some (((synced r sq)\<lparr>guessed_roc := roc s\<rparr>)
      \<lparr>macCtx := m', roc := roc s, s_l := sq, replay_window := w\<rparr>))" "getPayload ip' = msg_data x"
    "mac_for holds (aalg r) (tagLength r) k m'"
    by (rule unprotect_wire [OF hm us macr y(4) bnd [folded lct] v(1) v(3) [folded lct] v(4)
          idx [unfolded next_index_def] tag_def [folded eqs(4,5)] ip_def d])
  let ?s = "(s\<lparr>macCtx := m\<rparr>)\<lparr>roc := (if sq = 0xFFFF then roc s + 1 else roc s)\<rparr>"
  let ?r = "((synced r sq)\<lparr>guessed_roc := roc s\<rparr>)\<lparr>macCtx := m', roc := roc s, s_l := sq, replay_window := w\<rparr>"
  have parse: "newIncomingRTPPkt (getRawPacketSrtp p') = Some ip"
    unfolding P(2) ip_def by (rule parse_wire [OF v(1,2,4-6)])
  have "next_index ?s (sq + 1) = next_index s sq + 1 \<and> in_sync aes holds k ?s ?r (sq + 1)" if n: "next_index s sq + 1 < 281474976710656"
  proof -
    note step = next_index_step [OF n refl]
    have l: "local_index ?r = next_index s sq" by (simp add: local_index_def next_index_def)
    have "in_sync aes holds k ?s ?r (sq + 1)"
      using y eqs P(3) U(3) usable_cong(1) [of ?s s aes] l step
      by (simp add: in_sync_def)
    then show ?thesis using step by simp
  qed
  then show thesis using that [OF P(1) parse U(1,2)] by simp
qed

lemma srtp_session_sync:
  assumes hm: "hmac_ok hm holds"
  shows "in_sync aes holds k s r sq \<Longrightarrow> list_all valid_msg xs \<Longrightarrow> next_index s sq + length xs \<le> 281474976710656 \<Longrightarrow>
    srtp_session aes hm mem ssrc s r sq xs = Some (map (\<lambda>x. (1, msg_data x)) xs)"
proof (induction xs arbitrary: s r sq)
  case (Cons x xs)
  have "valid_msg x" using Cons.prems(2) by simp
  from srtp_packet_step [OF hm Cons.prems(1) this, of ssrc mem mem] obtain p s' ip ip' r' where st:
    "protect aes hm (send_pkt (msg_marker x) (msg_pt x) sq (msg_ts x) ssrc
      (newOutgoingRTPPkt_ext mem (msg_csrcs x) (msg_hdrext x) (msg_data x) 0 (Some (int (tagLength s))))) ssrc s = Some (p, s')"
    "newIncomingRTPPkt (getRawPacketSrtp p) = Some ip" "unprotect aes hm mem ip (Some r) = Some (1, ip', Some r')" "getPayload ip' = msg_data x"
    "next_index s sq + 1 < 281474976710656 \<Longrightarrow> next_index s' (sq + 1) = next_index s sq + 1 \<and> in_sync aes holds k s' r' (sq + 1)"
    by metis
  have "srtp_session aes hm mem ssrc s' r' (sq + 1) xs = Some (map (\<lambda>x. (1, msg_data x)) xs)"
  proof (cases "xs = []")
    case False
    then have "0 < length xs" "length (x # xs) = length xs + 1" by simp_all
    then have "next_index s sq + 1 < 281474976710656" using Cons.prems(3) by linarith
    then show ?thesis using Cons.IH Cons.prems(2,3) st(5) by simp
  qed simp
  then show ?case using st(1-4) by simp
qed simp

section \<open>The composition\<close>

lemma derived_fields:
  assumes "ea = SrtpEncryptionAESCM \<or> ea = SrtpEncryptionTWOCM" "c = newCryptoContext mem ssrc r kdr ea aa mk ms ekl akl skl tgl"
  shows "roc (derived aes hm i c) = r" "\<not> seqNumSet (derived aes hm i c)" "replay_window (derived aes hm i c) = 0"
    "mkiLength (derived aes hm i c) = 0" "ealg (derived aes hm i c) = ea" "aalg (derived aes hm i c) = aa"
    "tagLength (derived aes hm i c) = (if aa = SrtpAuthenticationNull then 0 else tgl)"
  using assms by (cases aa; auto simp: derived_def new_context_defs)+

lemma derived_usable:
  assumes "block_cipher (AES_encrypt aes)" "ea = SrtpEncryptionAESCM \<or> ea = SrtpEncryptionTWOCM" "14 \<le> skl" "skl < 2 ^ 20" "14 \<le> length ms"
    "c = newCryptoContext mem ssrc r kdr ea aa mk ms ekl akl skl tgl"
  shows "usable aes (derived aes hm i c)"
proof -
  let ?ci = "keyed aes ea mk"
  have a: "is_aes ea \<or> is_twofish ea" using assms(2) by (auto simp: is_aes_def is_twofish_def)
  have ci: "cipher c = Some (newSrtpSymCrypto ea)" "n_s c = skl" "master_salt c = ms" "master_key c = mk"
    using assms(2,6) by (cases aa; auto simp: new_context_defs)+
  have "cipher (derived aes hm i c) = Some (keyed aes ea (prf_key aes ?ci 0 i (key_deriv_rate c) ms (n_e c)))"
    "k_s (derived aes hm i c) = prf_key aes ?ci 2 i (key_deriv_rate c) ms skl"
    by (simp_all add: derived_def Let_def ci newSrtpSymCrypto_def)
  moreover have "length (prf_key aes ?ci 2 i (key_deriv_rate c) ms skl) = skl"
    by (rule session_key_eq(2) [OF runs_keyed [OF assms(1) a] assms(5,4)])
  ultimately show ?thesis
    using assms(2,3) runs_keyed [OF assms(1) a] derived_fields(5) [OF assms(2,6)] by (simp add: usable_def)
qed

lemma derived_mac_for:
  assumes "hmac_ok hm holds" "ea = SrtpEncryptionAESCM \<or> ea = SrtpEncryptionTWOCM" "0 < tgl" "tgl \<le> 20"
    "c = newCryptoContext mem ssrc r kdr ea aa mk ms ekl akl skl tgl"
  shows "mac_for holds aa (tagLength (derived aes hm i c)) (prf_key aes (keyed aes ea mk) 1 i kdr ms akl) (macCtx (derived aes hm i c))"
proof -
  have c: "algorithm (the (cipher c)) = ea" "master_key c = mk" "master_salt c = ms" "key_deriv_rate c = kdr" "aalg c = aa"
    "tagLength c = (if aa = SrtpAuthenticationNull then 0 else tgl)" "n_a c = (if aa = SrtpAuthenticationNull then 0 else akl)"
    using assms(2,5) by (cases aa; auto simp: new_context_defs)+
  have "(of_nat (tgl * 8) :: 32 word) \<noteq> 0" by (rule skein_tag_length(1) [OF assms(3,4)])
  from mac_ready_create(1) [OF this refl] show ?thesis
    using assms(1,3,4) derived_fields(7) [OF assms(2,5), of aes hm i]
    by (cases aa) (auto simp: mac_for_def derived_def derived_mac_def Let_def c createSha1HmacContext_def hmac_ok_def)
qed

lemma derived_in_sync:
  assumes aes: "block_cipher (AES_encrypt aes)" and hm: "hmac_ok hm holds" and "env_ok e1" "env_ok e2"
    and ea: "ea = SrtpEncryptionAESCM \<or> ea = SrtpEncryptionTWOCM"
    and len: "length mk \<in> {16, 32}" "14 \<le> length ms" "ekl \<in> {16, 32}" "akl < 2 ^ 20" "14 \<le> skl" "skl \<le> ekl"
    and tgl: "0 < tgl" "tgl \<le> 20"
    and s0: "s0 = newCryptoContext mem1 ssrc1 r kdr ea aa mk ms ekl akl skl tgl"
    and r0: "r0 = newCryptoContext mem2 ssrc2 r kdr ea aa mk ms ekl akl skl tgl"
  obtains e1' s e2' rc k where "deriveSrtpKeys aes hm e1 s0 i = Some (e1', s)" "deriveSrtpKeys aes hm e2 r0 i = Some (e2', rc)"
    "\<And>sq. in_sync aes holds k s rc sq" "roc s = r" "ssrcCtx s = ssrc1" "ssrcCtx rc = ssrc2"
proof -
  let ?s = "derived aes hm i s0" and ?r = "derived aes hm i r0"
  let ?k = "prf_key aes (keyed aes ea mk) 1 i kdr ms akl"
  have ea': "ea \<noteq> SrtpEncryptionNull" using ea by auto
  note cd = can_derive_new [OF ea' len(1-4,6), of _ _ _ kdr aa tgl]
  obtain e1' where 1: "deriveSrtpKeys aes hm e1 s0 i = Some (e1', ?s)"
    using deriveSrtpKeys_eq [OF aes assms(3) cd] unfolding s0 by blast
  obtain e2' where 2: "deriveSrtpKeys aes hm e2 r0 i = Some (e2', ?r)"
    using deriveSrtpKeys_eq [OF aes assms(4) cd] unfolding r0 by blast
  have skl: "skl < 2 ^ 20" using len(3,6) by auto
  have so: "session_of ?r = session_of ?s" unfolding s0 r0 by (rule derived_agree)
  note fs = derived_fields [OF ea s0, of aes hm i] and fr = derived_fields [OF ea r0, of aes hm i]
  have sync: "in_sync aes holds ?k ?s ?r sq" for sq
    using derived_usable [OF aes ea len(5) skl len(2) s0, of hm i] so fs fr
      derived_mac_for [OF hm ea tgl s0, of aes i] derived_mac_for [OF hm ea tgl r0, of aes i]
    by (simp add: in_sync_def session_of_def)
  have "ssrcCtx ?s = ssrc1" "ssrcCtx ?r = ssrc2" by (cases ea; cases aa; simp add: s0 r0 derived_def newCryptoContext_def newCryptoContext_null_def Let_def)+
  then show thesis using that [OF 1 2 sync fs(1)] by blast
qed

text \<open>
  C8: secure transport end to end. Two contexts made from the same parameters for AES or Twofish in
  counter mode, with keys of 16 or 32 bytes, with no, an HMAC-SHA1 or a Skein tag and a tag length of
  1 to 20 bytes, derive their keys; then every sequence of valid messages without padding, sent with
  consecutive sequence numbers, starting anywhere and running over any number of wrap-arounds of the
  sequence number up to the end of the range of the 48-bit index, is received completely: every packet
  passes the replay check and the authentication and gives back its payload.
\<close>
theorem srtp_stream_round_trip:
  assumes aes: "block_cipher (AES_encrypt aes)" and hm: "hmac_ok hm holds" and "env_ok e1" "env_ok e2"
    and ea: "ea = SrtpEncryptionAESCM \<or> ea = SrtpEncryptionTWOCM"
    and len: "length mk \<in> {16, 32}" "14 \<le> length ms" "ekl \<in> {16, 32}" "akl < 2 ^ 20" "14 \<le> skl" "skl \<le> ekl"
    and tgl: "0 < tgl" "tgl \<le> 20"
    and s0: "s0 = newCryptoContext mem1 ssrc1 r kdr ea aa mk ms ekl akl skl tgl"
    and r0: "r0 = newCryptoContext mem2 ssrc2 r kdr ea aa mk ms ekl akl skl tgl"
    and msgs: "list_all valid_msg xs" "unat (packet_index r sq) + length xs \<le> 2 ^ 48"
  shows "\<exists>e1' s e2' rc. deriveSrtpKeys aes hm e1 s0 i = Some (e1', s) \<and> deriveSrtpKeys aes hm e2 r0 i = Some (e2', rc) \<and>
    srtp_session aes hm mem ssrc s rc sq xs = Some (map (\<lambda>x. (1, msg_data x)) xs)"
proof -
  obtain e1' s e2' rc k where d: "deriveSrtpKeys aes hm e1 s0 i = Some (e1', s)" "deriveSrtpKeys aes hm e2 r0 i = Some (e2', rc)"
    "\<And>sq. in_sync aes holds k s rc sq" "roc s = r"
    by (rule derived_in_sync [OF assms(1-15), where i = i]) blast
  then show ?thesis using srtp_session_sync [OF hm d(3) msgs(1)] msgs(2) by (auto simp: next_index_def)
qed

definition sample_holds :: "byte list \<times> byte list \<Rightarrow> byte list \<Rightarrow> byte list \<Rightarrow> bool" where
  "sample_holds c k d \<longleftrightarrow> c = (k, d)"

lemma hmac_ok_sample: "hmac_ok sample_hmac sample_holds"
  by (simp add: hmac_ok_def sample_hmac_def sample_holds_def)

definition sample_msg :: "byte list \<Rightarrow> rtp_msg" where
  "sample_msg d = \<lparr>msg_marker = False, msg_pt = 8, msg_ts = 160, msg_csrcs = [], msg_hdrext = [], msg_data = d\<rparr>"

theorem srtp_stream_round_trip_witness:
  "let s0 = newCryptoContext (\<lambda>_. 1) 7 4 0 SrtpEncryptionTWOCM SrtpAuthenticationSkeinHmac (replicate 16 1) (replicate 14 2) 16 20 14 8;
       r0 = newCryptoContext (\<lambda>_. 2) 7 4 0 SrtpEncryptionTWOCM SrtpAuthenticationSkeinHmac (replicate 16 1) (replicate 14 2) 16 20 14 8
   in \<exists>e1' s e2' rc. deriveSrtpKeys sample_aes sample_hmac sample_env s0 0 = Some (e1', s) \<and>
     deriveSrtpKeys sample_aes sample_hmac sample_env r0 0 = Some (e2', rc) \<and>
     srtp_session sample_aes sample_hmac (\<lambda>_. 0) 7 s rc 65534 [sample_msg [1, 2], sample_msg [3], sample_msg [4, 5, 6]] =
       Some [(1, [1, 2]), (1, [3]), (1, [4, 5, 6])]"
proof -
  have v: "list_all valid_msg [sample_msg [1, 2], sample_msg [3], sample_msg [4, 5, 6]]"
    by (simp add: valid_msg_def sample_msg_def valid_hdrext_def)
  have "unat (packet_index 4 65534) + length [sample_msg [1, 2], sample_msg [3], sample_msg [4, 5, 6]] \<le> 2 ^ 48"
    by (simp add: unat_packet_index)
  then have "\<exists>e1' s e2' rc. deriveSrtpKeys sample_aes sample_hmac sample_env (newCryptoContext (\<lambda>_. 1) 7 4 0
      SrtpEncryptionTWOCM SrtpAuthenticationSkeinHmac (replicate 16 1) (replicate 14 2) 16 20 14 8) 0 = Some (e1', s) \<and>
    deriveSrtpKeys sample_aes sample_hmac sample_env (newCryptoContext (\<lambda>_. 2) 7 4 0
      SrtpEncryptionTWOCM SrtpAuthenticationSkeinHmac (replicate 16 1) (replicate 14 2) 16 20 14 8) 0 = Some (e2', rc) \<and>
    srtp_session sample_aes sample_hmac (\<lambda>_. 0) 7 s rc 65534 [sample_msg [1, 2], sample_msg [3], sample_msg [4, 5, 6]] =
      Some (map (\<lambda>x. (1, msg_data x)) [sample_msg [1, 2], sample_msg [3], sample_msg [4, 5, 6]])"
    by (intro srtp_stream_round_trip [OF sample_aes_block_cipher hmac_ok_sample env_ok_sample env_ok_sample _ _ _ _ _ _ _ _ _ refl refl v])
      simp_all
  then show ?thesis by (simp add: Let_def sample_msg_def)
qed

lemma be32_inj: "be32 a = be32 b \<Longrightarrow> a = b"
  by (metis from_be32_be32)

text \<open>
  The F8 modes and the rollover counter. \<^verbatim>\<open>srtpEncrypt\<close> gives the same result for every packet
  index and source, while the vector differs for every two rollover counters: a receiver that has
  guessed another counter for the packet than the one its context holds (at a wrap-around of the
  sequence number) decrypts with the wrong vector.
\<close>
theorem f8_ignores_guessed_roc:
  assumes "ealg c = SrtpEncryptionAESF8 \<or> ealg c = SrtpEncryptionTWOF8" "12 \<le> length (getRawPacket p)"
  shows "srtpEncrypt aes c p index ssrc = srtpEncrypt aes c p index' ssrc' \<and>
    (f8_iv (getRawPacket p) a = f8_iv (getRawPacket p) b \<longleftrightarrow> a = b)"
proof -
  have "srtpEncrypt aes c p index ssrc = srtpEncrypt aes c p index' ssrc'"
    using assms(1) by (auto simp: srtpEncrypt_def Let_def)
  moreover have "drop 12 (f8_iv (getRawPacket p) x) = be32 x" for x
    using assms(2) by (simp add: f8_iv_def memcpy_at_def)
  ultimately show ?thesis using be32_inj by metis
qed

theorem f8_ignores_guessed_roc_witness:
  "let c = newCryptoContext (\<lambda>_. 1) 7 4 0 SrtpEncryptionTWOF8 SrtpAuthenticationNull [] [] 16 0 14 0 :: (byte list, byte list) CryptoContext;
       p = parsed_wire False 8 0 160 7 [] [] [1, 2] 0
   in srtpEncrypt sample_aes c p (packet_index 4 0) 7 = srtpEncrypt sample_aes c p (packet_index 5 0) 7 \<and>
     f8_iv (getRawPacket p) 4 \<noteq> f8_iv (getRawPacket p) 5"
proof -
  let ?c = "newCryptoContext (\<lambda>_. 1) 7 4 0 SrtpEncryptionTWOF8 SrtpAuthenticationNull [] [] 16 0 14 0 :: (byte list, byte list) CryptoContext"
  let ?p = "parsed_wire False 8 0 160 7 [] [] [1, 2] 0"
  have "ealg ?c = SrtpEncryptionAESF8 \<or> ealg ?c = SrtpEncryptionTWOF8" by (simp add: new_context_defs)
  moreover have "12 \<le> length (getRawPacket ?p)"
    by (simp add: getRawPacket_def parsed_wire_def length_rtp_wire)
  ultimately show ?thesis
    using f8_ignores_guessed_roc [of ?c ?p sample_aes "packet_index 4 0" 7 "packet_index 5 0" 7 4 5]
    by (simp add: Let_def)
qed


section \<open>Forged packets\<close>

lemma checkReplay_state:
  assumes "secured c" "checkReplay c sq = Some (b, c')"
  shows "c' = (synced c sq)\<lparr>guessed_roc := guessed c sq\<rparr>"
  using assms(2) unfolding checkReplay_eq [OF assms(1)] by (auto simp: Let_def split: if_splits)

lemma guessIndex_again:
  "guessIndex ((synced c sq)\<lparr>guessed_roc := guessed c sq\<rparr>) sq =
    (packet_index (guessed c sq) sq, (synced c sq)\<lparr>guessed_roc := guessed c sq\<rparr>)"
proof -
  have "synced ((synced c sq)\<lparr>guessed_roc := guessed c sq\<rparr>) sq = (synced c sq)\<lparr>guessed_roc := guessed c sq\<rparr>"
    by (simp add: synced_def)
  then show ?thesis by (simp add: guessIndex_eq [of "(synced c sq)\<lparr>guessed_roc := guessed c sq\<rparr>"])
qed

definition rx_tag_pos :: "IncomingRTPPkt \<Rightarrow> ('ak, 'hm) CryptoContext \<Rightarrow> nat" where
  "rx_tag_pos ip r = unat (ptotal ip - of_nat (tagLength r))"

definition rx_tag_ok ::
  "'hm hmac_lib \<Rightarrow> byte list \<Rightarrow> IncomingRTPPkt \<Rightarrow> ('ak, 'hm) CryptoContext \<Rightarrow> bool" where
  "rx_tag_ok hm k ip r \<longleftrightarrow>
     take (tagLength r) (drop (rx_tag_pos ip r) (pbuffer ip)) =
     take (tagLength r) (mac_code hm (aalg r) (tagLength r) k
       (take (rx_tag_pos ip r) (pbuffer ip) @ be32 (guessed r (cachedSeqNum ip))))"

lemma unprotect_forged:
  assumes hm: "hmac_ok hm holds" and mac: "mac_for holds (aalg r) (tagLength r) k (macCtx r)"
    and "secured r" "mkiLength r = 0" and forged: "\<not> rx_tag_ok hm k ip r"
    and cr0: "checkReplay r (cachedSeqNum ip) = Some (ok, r1)"
    and p1_def: "p1 = ip\<lparr>ptotal := ptotal ip - of_nat (tagLength r), payloadSize := payloadSize ip - of_nat (tagLength r)\<rparr>"
  shows "\<exists>m. unprotect aes hm mem ip (Some r) = (if \<not> ok then Some (- 2, p1, Some r1)
      else if rx_tag_pos ip r + tagLength r > length (pbuffer ip) then None
      else Some (- 1, p1, Some (r1\<lparr>macCtx := m\<rparr>)))"
    "roc r1 = roc r" "replay_window r1 = replay_window r"
proof -
  let ?sq = "cachedSeqNum ip" and ?tl = "tagLength r"
  have r1_def: "r1 = (synced r ?sq)\<lparr>guessed_roc := guessed r ?sq\<rparr>"
    by (rule checkReplay_state [OF assms(3) cr0])
  have eqs: "tagLength r1 = ?tl" "aalg r1 = aalg r" "macCtx r1 = macCtx r" "roc r1 = roc r" "replay_window r1 = replay_window r"
    by (simp_all add: r1_def synced_def)
  show "roc r1 = roc r" "replay_window r1 = replay_window r" by (rule eqs)+
  have p1: "pbuffer p1 = pbuffer ip" "cachedSeqNum p1 = ?sq" "unat (ptotal p1) = rx_tag_pos ip r"
    by (simp_all add: p1_def rx_tag_pos_def)
  have mac1: "mac_for holds (aalg r1) (tagLength r1) k (macCtx r1)" using mac eqs by simp
  let ?code = "take ?tl (mac_code hm (aalg r) ?tl k (take (rx_tag_pos ip r) (pbuffer ip) @ be32 (guessed r ?sq)))"
  obtain m where m: "srtpAuthenticate hm r1 p1 (guessed r ?sq) (map mem [0..<?tl]) = Some (r1\<lparr>macCtx := m\<rparr>, ?code)"
  proof (rule srtpAuthenticate_eq [OF hm mac1, of p1 "guessed r ?sq" "map mem [0..<?tl]"])
    fix m
    assume "srtpAuthenticate hm r1 p1 (guessed r ?sq) (map mem [0..<?tl]) = Some (r1\<lparr>macCtx := m\<rparr>, memcpy_at (map mem [0..<?tl]) 0
        (take (tagLength r1) (mac_code hm (aalg r1) (tagLength r1) k (getRawPacket p1 @ be32 (guessed r ?sq)))))"
    then show thesis
      using that [of m] length_mac_code(1) [OF hm mac, of "take (rx_tag_pos ip r) (pbuffer ip) @ be32 (guessed r ?sq)"]
      unfolding getRawPacket_def p1 eqs by (simp add: memcpy_at_def)
  qed
  have "unprotect aes hm mem ip (Some r) = (if \<not> ok then Some (- 2, p1, Some r1)
      else if rx_tag_pos ip r + ?tl > length (pbuffer ip) then None
      else Some (- 1, p1, Some (r1\<lparr>macCtx := m\<rparr>)))"
    unfolding unprotect_def option.case getMkiLength_def assms(4) add_0_right p1_def [symmetric] Let_def p1(2) cr0
    using guessIndex_again [of r ?sq] m roc_of_index forged
    by (simp add: r1_def [symmetric] eqs p1(1) rx_tag_ok_def rx_tag_pos_def [symmetric])
  then show "\<exists>m. unprotect aes hm mem ip (Some r) = (if \<not> ok then Some (- 2, p1, Some r1)
      else if rx_tag_pos ip r + ?tl > length (pbuffer ip) then None
      else Some (- 1, p1, Some (r1\<lparr>macCtx := m\<rparr>)))" by blast
qed

text \<open>
  C3: forged packets. A context whose authentication state belongs to a key \<open>k\<close> never accepts a packet
  whose tag is not the code of the packet and its estimated rollover counter under \<open>k\<close>: the result is
  the authentication or the replay error, the bytes of the packet stay as they were, and neither the
  rollover counter nor the replay window of the context changes.
\<close>
theorem unprotect_rejects_forgery:
  assumes hm: "hmac_ok hm holds" and mac: "mac_for holds (aalg r) (tagLength r) k (macCtx r)"
    and "secured r" "mkiLength r = 0" and forged: "\<not> rx_tag_ok hm k ip r"
    and u: "unprotect aes hm mem ip (Some r) = Some (code, ip', ro)"
  shows "code \<in> {- 1, - 2} \<and> pbuffer ip' = pbuffer ip \<and>
    (\<exists>r'. ro = Some r' \<and> roc r' = roc r \<and> replay_window r' = replay_window r)"
proof -
  obtain ok r1 where "checkReplay r (cachedSeqNum ip) = Some (ok, r1)"
    using u by (cases "checkReplay r (cachedSeqNum ip)") (auto simp: unprotect_def Let_def)
  note f = unprotect_forged [OF assms(1-5) this refl]
  obtain m where e: "Some (code, ip', ro) = (if \<not> ok then
        Some (- 2, ip\<lparr>ptotal := ptotal ip - of_nat (tagLength r), payloadSize := payloadSize ip - of_nat (tagLength r)\<rparr>, Some r1)
      else if rx_tag_pos ip r + tagLength r > length (pbuffer ip) then None
      else Some (- 1, ip\<lparr>ptotal := ptotal ip - of_nat (tagLength r), payloadSize := payloadSize ip - of_nat (tagLength r)\<rparr>,
        Some (r1\<lparr>macCtx := m\<rparr>)))"
    using f(1) [of aes mem] unfolding u by blast
  show ?thesis
  proof (cases ok)
    case True
    then have "code = - 1" "pbuffer ip' = pbuffer ip" "ro = Some (r1\<lparr>macCtx := m\<rparr>)"
      using e by (simp_all split: if_splits)
    then show ?thesis using f(2,3) by simp
  next
    case False
    then show ?thesis using e f(2,3) by simp
  qed
qed

definition forged_rx :: "(byte list, byte list \<times> byte list) CryptoContext" where
  "forged_rx = (newCryptoContext (\<lambda>_. 0) 7 5 0 SrtpEncryptionAESCM SrtpAuthenticationSha1Hmac
     (replicate 16 1) (replicate 14 2) 16 20 14 4)\<lparr>macCtx := MacSha1 ([1], [])\<rparr>"

lemma forged_rx_fields:
  "aalg forged_rx = SrtpAuthenticationSha1Hmac" "tagLength forged_rx = 4" "macCtx forged_rx = MacSha1 ([1], [])"
  "mkiLength forged_rx = 0" "\<not> seqNumSet forged_rx" "ealg forged_rx = SrtpEncryptionAESCM" "replay_window forged_rx = 0"
  "roc forged_rx = 5"
  by (simp_all add: forged_rx_def new_context_defs)

definition forged_pkt :: IncomingRTPPkt where
  "forged_pkt = parsed_wire False 8 9 160 7 [] [] [1, 2, 0, 0, 0, 0] 0"

theorem unprotect_rejects_forgery_witness:
  "\<exists>code ip' ro. unprotect sample_aes sample_hmac (\<lambda>_. 0) forged_pkt (Some forged_rx) = Some (code, ip', ro) \<and>
    code \<in> {- 1, - 2} \<and> pbuffer ip' = pbuffer forged_pkt"
proof -
  have mac: "mac_for sample_holds (aalg forged_rx) (tagLength forged_rx) [1] (macCtx forged_rx)"
    by (simp add: forged_rx_fields mac_for_def sample_holds_def)
  have sec: "secured forged_rx" by (simp add: secured_def forged_rx_fields)
  have g: "guessed forged_rx 9 = 5" "cachedSeqNum forged_pkt = 9" "rx_tag_pos forged_pkt forged_rx = 14"
    by (simp_all add: guessed_def guessIndex_def forged_rx_fields forged_pkt_def parsed_wire_def rx_tag_pos_def)
  have b: "pbuffer forged_pkt = [0x80, 8, 0, 9, 0, 0, 0, 160, 0, 0, 0, 7, 1, 2, 0, 0, 0, 0]"
    by (simp add: forged_pkt_def parsed_wire_def rtp_wire_def byte0_def byte1_def be16_def be32_def pad_bytes_def)
  have forged: "\<not> rx_tag_ok sample_hmac [1] forged_pkt forged_rx"
    unfolding rx_tag_ok_def g b forged_rx_fields
    by (simp add: mac_code_def sample_hmac_def) (auto dest!: arg_cong [of _ _ hd])
  have cr: "checkReplay forged_rx (cachedSeqNum forged_pkt) = Some (True, (synced forged_rx 9)\<lparr>guessed_roc := 5\<rparr>)"
    unfolding g(2) by (rule receive_index(1) [OF sec _ refl]) (simp add: forged_rx_fields)
  obtain code ip' ro where u: "unprotect sample_aes sample_hmac (\<lambda>_. 0) forged_pkt (Some forged_rx) = Some (code, ip', ro)"
    using unprotect_forged(1) [OF hmac_ok_sample mac sec forged_rx_fields(4) forged cr refl, of sample_aes "\<lambda>_. 0"]
    unfolding g(3) b by (auto simp: forged_rx_fields)
  then show ?thesis
    using unprotect_rejects_forgery [OF hmac_ok_sample mac sec forged_rx_fields(4) forged u] by blast
qed

end
