(* ===== verification/Crypto_Store.thy ===== *)
theory Crypto_Store
  imports Crypto_Context
begin

text \<open>
  The lists of crypto contexts that the packet queues keep, one context for a source identifier:
  \<^verbatim>\<open>setInQueueCryptoContext\<close>, \<^verbatim>\<open>getInQueueCryptoContext\<close> and \<^verbatim>\<open>removeInQueueCryptoContext\<close> of
  \<^verbatim>\<open>src/src/incqueue.cpp\<close> and their counterparts for the outgoing queue in \<^verbatim>\<open>src/src/outqueue.cpp\<close>. What a queue relies
  on is the locale \<open>ctx_store\<close>.
\<close>

section \<open>Operations\<close>

text \<open>Erasing the first element with the key, as the loops with \<^verbatim>\<open>erase\<close> do.\<close>

fun erase_ctx :: "('c \<Rightarrow> u32) \<Rightarrow> u32 \<Rightarrow> 'c list \<Rightarrow> 'c list" where
  "erase_ctx key k [] = []"
| "erase_ctx key k (x # xs) = (if key x = k then xs else x # erase_ctx key k xs)"

fun find_ctx :: "('c \<Rightarrow> u32) \<Rightarrow> u32 \<Rightarrow> 'c list \<Rightarrow> 'c option" where
  "find_ctx key k [] = None"
| "find_ctx key k (x # xs) = (if key x = k then Some x else find_ctx key k xs)"

definition setInQueueCryptoContext ::
  "('ak, 'hm) CryptoContext \<Rightarrow> ('ak, 'hm) CryptoContext list \<Rightarrow> ('ak, 'hm) CryptoContext list" where
  "setInQueueCryptoContext cc ccs = erase_ctx ssrcCtx (ssrcCtx cc) ccs @ [cc]"

definition removeInQueueCryptoContext ::
  "('ak, 'hm) CryptoContext option \<Rightarrow> ('ak, 'hm) CryptoContext list \<Rightarrow> ('ak, 'hm) CryptoContext list" where
  "removeInQueueCryptoContext cco ccs = (case cco of None \<Rightarrow> [] | Some cc \<Rightarrow> erase_ctx ssrcCtx (ssrcCtx cc) ccs)"

definition getInQueueCryptoContext ::
  "u32 \<Rightarrow> ('ak, 'hm) CryptoContext list \<Rightarrow> ('ak, 'hm) CryptoContext option" where
  "getInQueueCryptoContext ssrc ccs = find_ctx ssrcCtx ssrc ccs"

text \<open>The outgoing queue has the same three operations on a list of its own.\<close>

definition setOutQueueCryptoContext ::
  "('ak, 'hm) CryptoContext \<Rightarrow> ('ak, 'hm) CryptoContext list \<Rightarrow> ('ak, 'hm) CryptoContext list" where
  "setOutQueueCryptoContext cc ccs = erase_ctx ssrcCtx (ssrcCtx cc) ccs @ [cc]"

definition removeOutQueueCryptoContext ::
  "('ak, 'hm) CryptoContext option \<Rightarrow> ('ak, 'hm) CryptoContext list \<Rightarrow> ('ak, 'hm) CryptoContext list" where
  "removeOutQueueCryptoContext cco ccs = (case cco of None \<Rightarrow> [] | Some cc \<Rightarrow> erase_ctx ssrcCtx (ssrcCtx cc) ccs)"

definition getOutQueueCryptoContext ::
  "u32 \<Rightarrow> ('ak, 'hm) CryptoContext list \<Rightarrow> ('ak, 'hm) CryptoContext option" where
  "getOutQueueCryptoContext ssrc ccs = find_ctx ssrcCtx ssrc ccs"

text \<open>A caller of \<^verbatim>\<open>getInQueueCryptoContext\<close> changes the context in place.\<close>

fun write_ctx :: "('ak, 'hm) CryptoContext \<Rightarrow> ('ak, 'hm) CryptoContext list \<Rightarrow> ('ak, 'hm) CryptoContext list" where
  "write_ctx cc [] = []"
| "write_ctx cc (x # xs) = (if ssrcCtx x = ssrcCtx cc then cc # xs else x # write_ctx cc xs)"

section \<open>The contract\<close>

locale ctx_store =
  fixes ok :: "'s \<Rightarrow> bool" and key :: "'c \<Rightarrow> u32" and get :: "u32 \<Rightarrow> 's \<Rightarrow> 'c option"
    and put :: "'c \<Rightarrow> 's \<Rightarrow> 's" and del :: "'c option \<Rightarrow> 's \<Rightarrow> 's"
  assumes ok_put: "ok s \<Longrightarrow> ok (put c s)" and ok_del: "ok s \<Longrightarrow> ok (del co s)"
    and get_put: "ok s \<Longrightarrow> get k (put c s) = (if k = key c then Some c else get k s)"
    and get_del: "ok s \<Longrightarrow> get k (del co s) = (case co of None \<Rightarrow> None | Some c \<Rightarrow> if k = key c then None else get k s)"
begin

lemma ok_fold: "ok s \<Longrightarrow> ok (fold put cs s)"
  by (induction cs arbitrary: s) (simp_all add: ok_put)

lemma get_fold:
  "ok s \<Longrightarrow> get k (fold put cs s) =
     (case find (\<lambda>c. key c = k) (rev cs) of None \<Rightarrow> get k s | Some c \<Rightarrow> Some c)"
proof (induction cs rule: rev_induct)
  case (snoc c cs)
  then show ?case using get_put [OF ok_fold [OF snoc.prems]] by auto
qed simp

lemma get_after_removal:
  "ok s \<Longrightarrow> get k (del (Some c) (fold put cs s)) =
     (if k = key c then None else case find (\<lambda>c. key c = k) (rev cs) of None \<Rightarrow> get k s | Some c \<Rightarrow> Some c)"
  using get_del [OF ok_fold] get_fold by simp

end

definition store_ok :: "('ak, 'hm) CryptoContext list \<Rightarrow> bool" where
  "store_ok ccs \<longleftrightarrow> distinct (map ssrcCtx ccs)"

lemma erase_ctx_set: "set (erase_ctx key k xs) \<subseteq> set xs"
  by (induction xs) auto

lemma erase_ctx_distinct: "distinct (map key xs) \<Longrightarrow> distinct (map key (erase_ctx key k xs)) \<and> k \<notin> key ` set (erase_ctx key k xs)"
proof (induction xs)
  case (Cons x xs)
  then show ?case using erase_ctx_set [of key k xs] by auto
qed simp

lemma find_erase: "distinct (map key xs) \<Longrightarrow> find_ctx key j (erase_ctx key k xs) = (if j = k then None else find_ctx key j xs)"
proof (induction xs)
  case (Cons x xs)
  have "k \<notin> key ` set ys \<Longrightarrow> find_ctx key k ys = None" for k ys by (induction ys) auto
  then show ?case using Cons by auto
qed simp

lemma find_append: "find_ctx key k (xs @ ys) = (case find_ctx key k xs of None \<Rightarrow> find_ctx key k ys | Some x \<Rightarrow> Some x)"
  by (induction xs) auto

lemma find_write:
  "find_ctx ssrcCtx k (write_ctx cc xs) = (if k = ssrcCtx cc then map_option (\<lambda>_. cc) (find_ctx ssrcCtx k xs) else find_ctx ssrcCtx k xs)"
  by (induction xs) auto

lemma map_write: "map ssrcCtx (write_ctx cc xs) = map ssrcCtx xs"
  by (induction xs) auto

interpretation inctx: ctx_store store_ok ssrcCtx getInQueueCryptoContext setInQueueCryptoContext removeInQueueCryptoContext
proof
  fix s :: "('ak, 'hm) CryptoContext list" and c co k
  assume "store_ok s"
  then have d: "distinct (map ssrcCtx s)" by (simp add: store_ok_def)
  show "store_ok (setInQueueCryptoContext c s)"
    using erase_ctx_distinct [OF d, of "ssrcCtx c"] by (auto simp: store_ok_def setInQueueCryptoContext_def)
  show "store_ok (removeInQueueCryptoContext co s)"
    using erase_ctx_distinct [OF d] by (auto simp: store_ok_def removeInQueueCryptoContext_def split: option.split)
  show "getInQueueCryptoContext k (setInQueueCryptoContext c s) = (if k = ssrcCtx c then Some c else getInQueueCryptoContext k s)"
    using find_erase [OF d] by (auto simp: getInQueueCryptoContext_def setInQueueCryptoContext_def find_append split: option.split)
  show "getInQueueCryptoContext k (removeInQueueCryptoContext co s) =
      (case co of None \<Rightarrow> None | Some c \<Rightarrow> if k = ssrcCtx c then None else getInQueueCryptoContext k s)"
    using find_erase [OF d] by (auto simp: getInQueueCryptoContext_def removeInQueueCryptoContext_def split: option.split)
qed

lemma out_ops_eq:
  "setOutQueueCryptoContext = setInQueueCryptoContext" "removeOutQueueCryptoContext = removeInQueueCryptoContext"
  "getOutQueueCryptoContext = getInQueueCryptoContext"
  by (simp_all add: fun_eq_iff setOutQueueCryptoContext_def setInQueueCryptoContext_def removeOutQueueCryptoContext_def
      removeInQueueCryptoContext_def getOutQueueCryptoContext_def getInQueueCryptoContext_def)

interpretation outctx: ctx_store store_ok ssrcCtx getOutQueueCryptoContext setOutQueueCryptoContext removeOutQueueCryptoContext
  unfolding out_ops_eq by (rule inctx.ctx_store_axioms)

text \<open>
  After any sequence of registrations on an empty list, a lookup gives the context registered last for the identifier, and removing a
  context takes away the entry of its identifier and no other.
\<close>

theorem crypto_contexts_last_registered:
  "getInQueueCryptoContext k (fold setInQueueCryptoContext cs []) = find (\<lambda>c. ssrcCtx c = k) (rev cs) \<and>
   getInQueueCryptoContext k (removeInQueueCryptoContext (Some c) (fold setInQueueCryptoContext cs [])) =
     (if k = ssrcCtx c then None else find (\<lambda>c. ssrcCtx c = k) (rev cs))"
proof -
  have ok: "store_ok []" by (simp add: store_ok_def)
  have e: "getInQueueCryptoContext k [] = None" by (simp add: getInQueueCryptoContext_def)
  show ?thesis using inctx.get_fold [OF ok, of k cs] inctx.get_after_removal [OF ok, of k c cs] e
    by (auto split: option.splits)
qed

end
