(* ===== verification/Srtcp_Context.thy ===== *)
theory Srtcp_Context
  imports Srtp_Packet Crypto_Store
begin

text \<open>
  SRTCP: the contexts for control packets, \<^verbatim>\<open>src/src/CryptoContextCtrl.cpp\<close> with its header, and from \<^verbatim>\<open>src/src/control.cpp\<close> the
  functions \<^verbatim>\<open>protect\<close> and \<^verbatim>\<open>unprotect\<close> of a compound packet and the two lists of contexts. The conventions are those of the
  theory of the data contexts: byte arrays are lists, libraries are parameters, and what has no defined result (a
  shift by 64 or more, a read or write outside a buffer, a null pointer) is \<^term>\<open>None\<close>. The view \<open>ctl_view\<close> reads a control
  context as a data context and carries the facts about ciphers and authentication codes over.
\<close>

section \<open>The context\<close>

record ('ak, 'hm) CryptoContextCtrl =
  ctl_ssrcCtx :: u32
  ctl_mkiLength :: u32
  ctl_s_l :: u32
  ctl_replay_window :: u64
  ctl_master_key :: "byte list"
  ctl_master_salt :: "byte list"
  ctl_n_e :: nat
  ctl_k_e :: "byte list"
  ctl_n_a :: nat
  ctl_k_a :: "byte list"
  ctl_n_s :: nat
  ctl_k_s :: "byte list"
  ctl_ealg :: srtp_ealg
  ctl_aalg :: srtp_aalg
  ctl_ekeyl :: nat
  ctl_akeyl :: nat
  ctl_skeyl :: nat
  ctl_tagLength :: nat
  ctl_macCtx :: "'hm mac_ctx"
  ctl_cipher :: "'ak SrtpSymCrypto option"
  ctl_f8Cipher :: "'ak SrtpSymCrypto option"

text \<open>No constructor sets \<^verbatim>\<open>s_l\<close> (nor, in the first one, the tag length): what memory holds there is an argument.\<close>

definition newCryptoContextCtrl_null :: "u32 \<Rightarrow> nat \<Rightarrow> u32 \<Rightarrow> ('ak, 'hm) CryptoContextCtrl" where
  "newCryptoContextCtrl_null sl unset ssrc =
     \<lparr>ctl_ssrcCtx = ssrc, ctl_mkiLength = 0, ctl_s_l = sl, ctl_replay_window = 0, ctl_master_key = [], ctl_master_salt = [],
      ctl_n_e = 0, ctl_k_e = [], ctl_n_a = 0, ctl_k_a = [], ctl_n_s = 0, ctl_k_s = [], ctl_ealg = SrtpEncryptionNull,
      ctl_aalg = SrtpAuthenticationNull, ctl_ekeyl = 0, ctl_akeyl = 0, ctl_skeyl = 0, ctl_tagLength = unset,
      ctl_macCtx = MacUnset, ctl_cipher = None, ctl_f8Cipher = None\<rparr>"

definition newCryptoContextCtrl ::
  "(nat \<Rightarrow> byte) \<Rightarrow> u32 \<Rightarrow> u32 \<Rightarrow> srtp_ealg \<Rightarrow> srtp_aalg \<Rightarrow> byte list \<Rightarrow> byte list
   \<Rightarrow> nat \<Rightarrow> nat \<Rightarrow> nat \<Rightarrow> nat \<Rightarrow> ('ak, 'hm) CryptoContextCtrl" where
  "newCryptoContextCtrl mem sl ssrc ea aa mkey msalt ekl akl skl tagl =
     (let c = (newCryptoContextCtrl_null sl 0 ssrc)
            \<lparr>ctl_ealg := ea, ctl_aalg := aa, ctl_ekeyl := ekl, ctl_akeyl := akl, ctl_skeyl := skl,
             ctl_master_key := mkey, ctl_master_salt := msalt\<rparr>;
          keyed = (\<lambda>c. c\<lparr>ctl_n_e := ekl, ctl_k_e := map mem [0..<ekl], ctl_n_s := skl, ctl_k_s := map mem [0..<skl]\<rparr>);
          c = (case ea of
                 SrtpEncryptionNull \<Rightarrow> c\<lparr>ctl_n_e := 0, ctl_k_e := [], ctl_n_s := 0, ctl_k_s := []\<rparr>
               | SrtpEncryptionTWOF8 \<Rightarrow>
                   (keyed (c\<lparr>ctl_f8Cipher := Some (newSrtpSymCrypto SrtpEncryptionTWOF8)\<rparr>))
                     \<lparr>ctl_cipher := Some (newSrtpSymCrypto SrtpEncryptionTWOCM)\<rparr>
               | SrtpEncryptionTWOCM \<Rightarrow>
                   (keyed c)\<lparr>ctl_cipher := Some (newSrtpSymCrypto SrtpEncryptionTWOCM)\<rparr>
               | SrtpEncryptionAESF8 \<Rightarrow>
                   (keyed (c\<lparr>ctl_f8Cipher := Some (newSrtpSymCrypto SrtpEncryptionAESF8)\<rparr>))
                     \<lparr>ctl_cipher := Some (newSrtpSymCrypto SrtpEncryptionAESCM)\<rparr>
               | SrtpEncryptionAESCM \<Rightarrow>
                   (keyed c)\<lparr>ctl_cipher := Some (newSrtpSymCrypto SrtpEncryptionAESCM)\<rparr>)
      in case aa of
           SrtpAuthenticationNull \<Rightarrow> c\<lparr>ctl_n_a := 0, ctl_k_a := [], ctl_tagLength := 0\<rparr>
         | _ \<Rightarrow> c\<lparr>ctl_n_a := akl, ctl_k_a := map mem [0..<akl], ctl_tagLength := tagl\<rparr>)"

definition newCryptoContextCtrlForSSRC ::
  "(nat \<Rightarrow> byte) \<Rightarrow> u32 \<Rightarrow> ('ak, 'hm) CryptoContextCtrl \<Rightarrow> u32 \<Rightarrow> ('ak, 'hm) CryptoContextCtrl" where
  "newCryptoContextCtrlForSSRC mem sl c ssrc =
     newCryptoContextCtrl mem sl ssrc (ctl_ealg c) (ctl_aalg c) (ctl_master_key c) (ctl_master_salt c)
       (ctl_ekeyl c) (ctl_akeyl c) (ctl_skeyl c) (ctl_tagLength c)"

section \<open>Key derivation\<close>

definition computeIvCtrl :: "byte \<Rightarrow> byte list \<Rightarrow> byte list option" where
  "computeIvCtrl label salt =
     (if length salt < 14 then None
      else let iv = take 14 salt in Some (iv[7 := iv ! 7 XOR label] @ [0, 0]))"

definition session_key_ctrl ::
  "'ak aes_lib \<Rightarrow> 'ak SrtpSymCrypto \<Rightarrow> byte \<Rightarrow> byte list \<Rightarrow> byte list \<Rightarrow> nat \<Rightarrow> byte list option" where
  "session_key_ctrl aes c label salt out n =
     do { iv \<leftarrow> computeIvCtrl label salt;
          (k, _) \<leftarrow> get_ctr_cipher_stream aes c out n iv;
          Some k }"

definition deriveSrtcpKeys ::
  "'ak aes_lib \<Rightarrow> 'hm hmac_lib \<Rightarrow> tf_env \<Rightarrow> ('ak, 'hm) CryptoContextCtrl
   \<Rightarrow> (tf_env \<times> ('ak, 'hm) CryptoContextCtrl) option" where
  "deriveSrtcpKeys aes hm env ctx =
     do { ci \<leftarrow> ctl_cipher ctx;
          (_, env, ci) \<leftarrow> setNewKey aes env ci (ctl_master_key ctx) (int (length (ctl_master_key ctx)));
          let ctx = ctx\<lparr>ctl_master_key := replicate (length (ctl_master_key ctx)) 0\<rparr>;
          ke \<leftarrow> session_key_ctrl aes ci 3 (ctl_master_salt ctx) (ctl_k_e ctx) (ctl_n_e ctx);
          ka \<leftarrow> session_key_ctrl aes ci 4 (ctl_master_salt ctx) (ctl_k_a ctx) (ctl_n_a ctx);
          let ctx = (case ctl_aalg ctx of
                 SrtpAuthenticationSha1Hmac \<Rightarrow> ctx\<lparr>ctl_macCtx := MacSha1 (createSha1HmacContext hm ka)\<rparr>
               | SrtpAuthenticationSkeinHmac \<Rightarrow>
                   ctx\<lparr>ctl_macCtx := MacSkein (createSkeinMacContext ka (of_nat (ctl_tagLength ctx * 8)) Skein512)\<rparr>
               | SrtpAuthenticationNull \<Rightarrow> ctx);
          let ctx = ctx\<lparr>ctl_k_a := replicate (ctl_n_a ctx) 0\<rparr>;
          ks \<leftarrow> session_key_ctrl aes ci 5 (ctl_master_salt ctx) (ctl_k_s ctx) (ctl_n_s ctx);
          let ctx = ctx\<lparr>ctl_k_s := ks, ctl_master_salt := replicate (length (ctl_master_salt ctx)) 0\<rparr>;
          (_, env, ci) \<leftarrow> setNewKey aes env ci ke (int (ctl_n_e ctx));
          (env, f8) \<leftarrow> derive_f8 aes env (ctl_f8Cipher ctx) ke (ctl_n_e ctx) ks (ctl_n_s ctx);
          Some (env, ctx\<lparr>ctl_k_e := replicate (ctl_n_e ctx) 0, ctl_cipher := Some ci, ctl_f8Cipher := f8\<rparr>) }"

section \<open>Replay protection\<close>

text \<open>Both differences are taken of unsigned 32-bit numbers and are never negative.\<close>

definition checkReplayCtrl :: "('ak, 'hm) CryptoContextCtrl \<Rightarrow> u32 \<Rightarrow> bool option" where
  "checkReplayCtrl ctx index =
     (if ctl_aalg ctx = SrtpAuthenticationNull \<and> ctl_ealg ctx = SrtpEncryptionNull then Some True
      else
        let delta = uint (ctl_s_l ctx - index) in
        if delta > 0 then Some True
        else if - delta > REPLAY_WINDOW_SIZE then Some False
        else if - delta \<ge> 64 then None
        else Some (\<not> odd (drop_bit (nat (- delta)) (ctl_replay_window ctx))))"

definition updateCtrl :: "('ak, 'hm) CryptoContextCtrl \<Rightarrow> u32 \<Rightarrow> ('ak, 'hm) CryptoContextCtrl option" where
  "updateCtrl ctx index =
     (let delta = uint (index - ctl_s_l ctx) in
      do { w \<leftarrow> (if delta > 0 then
                  (if delta \<ge> 64 then None else Some (push_bit (nat delta) (ctl_replay_window ctx) OR 1))
                else if delta = 0 then Some (ctl_replay_window ctx OR 1)
                else None);
           Some (ctx\<lparr>ctl_replay_window := w, ctl_s_l := index\<rparr>) })"

section \<open>Encryption and authentication\<close>

definition srtcp_cm_iv :: "byte list \<Rightarrow> u32 \<Rightarrow> u64 \<Rightarrow> byte list" where
  "srtcp_cm_iv ks ssrc index =
     take 4 ks @
     map (\<lambda>i. ucast (drop_bit ((7 - i) * 8) ssrc AND 0xFF) XOR ks ! i) [4..<8] @
     [ks ! 8, ks ! 9] @
     map (\<lambda>i. ucast (drop_bit ((13 - i) * 8) index AND 0xFF) XOR ks ! i) [10..<14] @ [0, 0]"

definition srtcp_f8_iv :: "u64 \<Rightarrow> byte list \<Rightarrow> byte list" where
  "srtcp_f8_iv index rtp =
     (let index = index OR 0x80000000
      in [0, 0, 0, 0, ucast (drop_bit 24 index), ucast (drop_bit 16 index), ucast (drop_bit 8 index), ucast index] @ take 8 rtp)"

text \<open>The pointer \<^verbatim>\<open>rtp\<close> is the offset \<open>off\<close> of the buffer.\<close>

definition srtcpEncrypt ::
  "'ak aes_lib \<Rightarrow> ('ak, 'hm) CryptoContextCtrl \<Rightarrow> byte list \<Rightarrow> nat \<Rightarrow> nat \<Rightarrow> u64 \<Rightarrow> u32 \<Rightarrow> byte list option" where
  "srtcpEncrypt aes ctx buf off len index ssrc =
     (if ctl_ealg ctx = SrtpEncryptionNull then Some buf
      else
        let data = take len (drop off buf)
        in if off + len > length buf then None
           else if ctl_ealg ctx = SrtpEncryptionAESCM \<or> ctl_ealg ctx = SrtpEncryptionTWOCM then
             (if length (ctl_k_s ctx) < 14 then None
              else do { ci \<leftarrow> ctl_cipher ctx;
                        (out, _) \<leftarrow> ctr_encrypt aes ci data (srtcp_cm_iv (ctl_k_s ctx) ssrc index);
                        Some (memcpy_at buf off out) })
           else if off + 8 > length buf then None
           else do { ci \<leftarrow> ctl_cipher ctx;
                     f8 \<leftarrow> ctl_f8Cipher ctx;
                     out \<leftarrow> f8_encrypt aes ci data (srtcp_f8_iv index (drop off buf)) f8;
                     Some (memcpy_at buf off out) })"

definition srtcpAuthenticate ::
  "'hm hmac_lib \<Rightarrow> ('ak, 'hm) CryptoContextCtrl \<Rightarrow> byte list \<Rightarrow> u32 \<Rightarrow> byte list
   \<Rightarrow> (('ak, 'hm) CryptoContextCtrl \<times> byte list) option" where
  "srtcpAuthenticate hm ctx rtp index tag =
     (let chunks = [rtp, be32 index];
          finish = (\<lambda>mc temp. if ctl_tagLength ctx > 20 \<or> length temp > 20 then None
                     else Some (ctx\<lparr>ctl_macCtx := mc\<rparr>, memcpy_at tag 0 (take (ctl_tagLength ctx) temp)))
      in case ctl_aalg ctx of
           SrtpAuthenticationNull \<Rightarrow> Some (ctx, tag)
         | SrtpAuthenticationSha1Hmac \<Rightarrow>
             (case ctl_macCtx ctx of
                MacSha1 m \<Rightarrow> let (m, temp) = hmacSha1Ctx_chunks hm m chunks in finish (MacSha1 m) temp
              | _ \<Rightarrow> None)
         | SrtpAuthenticationSkeinHmac \<Rightarrow>
             (case ctl_macCtx ctx of
                MacSkein m \<Rightarrow> let (m, temp) = macSkeinCtx_chunks m chunks in finish (MacSkein m) temp
              | _ \<Rightarrow> None))"

section \<open>Protection of a compound packet\<close>

text \<open>
  The buffer \<open>pkt\<close> holds the packet in its first \<open>len\<close> bytes; the index and the tag are stored behind it. The results are the length
  to send, the buffer, the context and the next index.
\<close>

definition protectCtrl ::
  "'ak aes_lib \<Rightarrow> 'hm hmac_lib \<Rightarrow> u32 \<Rightarrow> byte list \<Rightarrow> nat \<Rightarrow> ('ak, 'hm) CryptoContextCtrl
   \<Rightarrow> (nat \<times> byte list \<times> ('ak, 'hm) CryptoContextCtrl \<times> u32) option" where
  "protectCtrl aes hm srtcpIndex pkt len pcc =
     (if length pkt < 8 \<or> len < 8 \<or> length pkt < len + 4 + ctl_tagLength pcc then None
      else do {
        let ssrc = from_be32 (take 4 (drop 4 pkt));
        pkt \<leftarrow> srtcpEncrypt aes pcc pkt 8 (len - 8) (ucast srtcpIndex) ssrc;
        let encIndex = srtcpIndex OR 0x80000000;
        let pkt = memcpy_at pkt len (be32 encIndex);
        (pcc, tag) \<leftarrow> srtcpAuthenticate hm pcc (take len pkt) encIndex (take (ctl_tagLength pcc) (drop (len + 4) pkt));
        let pkt = memcpy_at pkt (len + 4) tag;
        Some (len + ctl_tagLength pcc + 4, pkt, pcc, (srtcpIndex + 1) AND 0x7FFFFFFF) })"

text \<open>
  The result is the length of the packet or a negative code; \<open>mem\<close> is what the local array \<^verbatim>\<open>mac\<close> holds. A length that underflows makes
  the code read far beyond the buffer.
\<close>

definition unprotectCtrl ::
  "'ak aes_lib \<Rightarrow> 'hm hmac_lib \<Rightarrow> (nat \<Rightarrow> byte) \<Rightarrow> byte list \<Rightarrow> nat \<Rightarrow> ('ak, 'hm) CryptoContextCtrl option
   \<Rightarrow> (int \<times> byte list \<times> ('ak, 'hm) CryptoContextCtrl option) option" where
  "unprotectCtrl aes hm mem pkt len pcco =
     (case pcco of
        None \<Rightarrow> Some (1, pkt, None)
      | Some pcc \<Rightarrow>
        let payloadLen = of_nat len - (of_nat (ctl_tagLength pcc) + ctl_mkiLength pcc + 4) :: u32;
            n = unat payloadLen
        in if length pkt < n + 4 \<or> length pkt < 8 \<or> len < ctl_tagLength pcc \<or> length pkt < len then None
           else do {
             let ssrc = from_be32 (take 4 (drop 4 pkt));
             let encIndex = from_be32 (take 4 (drop n pkt));
             let remoteIndex = encIndex AND 0x7FFFFFFF;
             ok \<leftarrow> checkReplayCtrl pcc remoteIndex;
             if \<not> ok then Some (- 2, pkt, Some pcc)
             else do {
               (pcc, mac) \<leftarrow> srtcpAuthenticate hm pcc (take n pkt) encIndex (map mem [0..<20]);
               if take (ctl_tagLength pcc) (drop (len - ctl_tagLength pcc) pkt) \<noteq> take (ctl_tagLength pcc) mac
               then Some (- 1, pkt, Some pcc)
               else do {
                 pkt \<leftarrow> (if bit encIndex 31 then srtcpEncrypt aes pcc pkt 8 (unat (payloadLen - 8)) (ucast remoteIndex) ssrc
                        else Some pkt);
                 pcc \<leftarrow> updateCtrl pcc remoteIndex;
                 Some (sint payloadLen, pkt, Some pcc) } } })"

section \<open>The lists of contexts\<close>

definition setOutQueueCryptoContextCtrl ::
  "('ak, 'hm) CryptoContextCtrl \<Rightarrow> ('ak, 'hm) CryptoContextCtrl list \<Rightarrow> ('ak, 'hm) CryptoContextCtrl list" where
  "setOutQueueCryptoContextCtrl cc ccs = erase_ctx ctl_ssrcCtx (ctl_ssrcCtx cc) ccs @ [cc]"

definition removeOutQueueCryptoContextCtrl ::
  "('ak, 'hm) CryptoContextCtrl option \<Rightarrow> ('ak, 'hm) CryptoContextCtrl list \<Rightarrow> ('ak, 'hm) CryptoContextCtrl list" where
  "removeOutQueueCryptoContextCtrl cco ccs = (case cco of None \<Rightarrow> [] | Some cc \<Rightarrow> erase_ctx ctl_ssrcCtx (ctl_ssrcCtx cc) ccs)"

definition getOutQueueCryptoContextCtrl ::
  "u32 \<Rightarrow> ('ak, 'hm) CryptoContextCtrl list \<Rightarrow> ('ak, 'hm) CryptoContextCtrl option" where
  "getOutQueueCryptoContextCtrl ssrc ccs = find_ctx ctl_ssrcCtx ssrc ccs"

definition setInQueueCryptoContextCtrl ::
  "('ak, 'hm) CryptoContextCtrl \<Rightarrow> ('ak, 'hm) CryptoContextCtrl list \<Rightarrow> ('ak, 'hm) CryptoContextCtrl list" where
  "setInQueueCryptoContextCtrl cc ccs = erase_ctx ctl_ssrcCtx (ctl_ssrcCtx cc) ccs @ [cc]"

definition removeInQueueCryptoContextCtrl ::
  "('ak, 'hm) CryptoContextCtrl option \<Rightarrow> ('ak, 'hm) CryptoContextCtrl list \<Rightarrow> ('ak, 'hm) CryptoContextCtrl list" where
  "removeInQueueCryptoContextCtrl cco ccs = (case cco of None \<Rightarrow> [] | Some cc \<Rightarrow> erase_ctx ctl_ssrcCtx (ctl_ssrcCtx cc) ccs)"

definition getInQueueCryptoContextCtrl ::
  "u32 \<Rightarrow> ('ak, 'hm) CryptoContextCtrl list \<Rightarrow> ('ak, 'hm) CryptoContextCtrl option" where
  "getInQueueCryptoContextCtrl ssrc ccs = find_ctx ctl_ssrcCtx ssrc ccs"

section \<open>The view as a context of the data queues\<close>

text \<open>
  The class repeats the one for data packets with other labels and a shorter index; the view reads a context of this class as one of
  that, so that the facts about encryption and authentication carry over.
\<close>

definition ctl_view :: "('ak, 'hm) CryptoContextCtrl \<Rightarrow> ('ak, 'hm) CryptoContext" where
  "ctl_view c = \<lparr>ssrcCtx = ctl_ssrcCtx c, mkiLength = ctl_mkiLength c, roc = 0, guessed_roc = 0, s_l = 0, key_deriv_rate = 0,
     replay_window = ctl_replay_window c, master_key = ctl_master_key c, master_salt = ctl_master_salt c,
     n_e = ctl_n_e c, k_e = ctl_k_e c, n_a = ctl_n_a c, k_a = ctl_k_a c, n_s = ctl_n_s c, k_s = ctl_k_s c,
     ealg = ctl_ealg c, aalg = ctl_aalg c, ekeyl = ctl_ekeyl c, akeyl = ctl_akeyl c, skeyl = ctl_skeyl c,
     tagLength = ctl_tagLength c, seqNumSet = False, macCtx = ctl_macCtx c, cipher = ctl_cipher c, f8Cipher = ctl_f8Cipher c\<rparr>"

lemma ctl_view_fields [simp]:
  "ealg (ctl_view c) = ctl_ealg c" "aalg (ctl_view c) = ctl_aalg c" "tagLength (ctl_view c) = ctl_tagLength c"
  "macCtx (ctl_view c) = ctl_macCtx c" "cipher (ctl_view c) = ctl_cipher c" "k_s (ctl_view c) = ctl_k_s c"
  "f8Cipher (ctl_view c) = ctl_f8Cipher c" "n_e (ctl_view c) = ctl_n_e c" "n_a (ctl_view c) = ctl_n_a c" "n_s (ctl_view c) = ctl_n_s c"
  "master_key (ctl_view c) = ctl_master_key c" "master_salt (ctl_view c) = ctl_master_salt c"
  by (simp_all add: ctl_view_def)

definition raw_pkt :: "byte list \<Rightarrow> RTPPacket" where
  "raw_pkt b = \<lparr>pbuffer = b, ptotal = of_nat (length b), payloadSize = 0, hdrSize = 0, cachedSeqNum = 0, cachedTimestamp = 0,
     srtpDataOffset = 0, srtpLength = 0\<rparr>"

lemma getRawPacket_raw: "length b < 2 ^ 32 \<Longrightarrow> getRawPacket (raw_pkt b) = b"
  by (simp add: getRawPacket_def raw_pkt_def unat_of_nat32)

lemma srtcpAuthenticate_view:
  assumes "length rtp < 2 ^ 32"
  shows "srtcpAuthenticate hm c rtp index tag =
    map_option (\<lambda>(x, t). (c\<lparr>ctl_macCtx := macCtx x\<rparr>, t)) (srtpAuthenticate hm (ctl_view c) (raw_pkt rtp) index tag)"
  by (cases "ctl_aalg c"; cases "ctl_macCtx c")
     (auto simp: srtcpAuthenticate_def srtpAuthenticate_def getRawPacket_raw [OF assms] Let_def split: prod.split)

lemma srtcpAuthenticate_eq:
  assumes "hmac_ok hm holds" "mac_for holds (ctl_aalg c) (ctl_tagLength c) k (ctl_macCtx c)" "length rtp < 2 ^ 32"
  obtains m where "srtcpAuthenticate hm c rtp index tag = Some (c\<lparr>ctl_macCtx := m\<rparr>,
      memcpy_at tag 0 (take (ctl_tagLength c) (mac_code hm (ctl_aalg c) (ctl_tagLength c) k (rtp @ be32 index))))"
    "mac_for holds (ctl_aalg c) (ctl_tagLength c) k m"
proof -
  have "mac_for holds (aalg (ctl_view c)) (tagLength (ctl_view c)) k (macCtx (ctl_view c))" using assms(2) by simp
  from srtpAuthenticate_eq [OF assms(1) this, of "raw_pkt rtp" index tag]
  obtain m where "srtpAuthenticate hm (ctl_view c) (raw_pkt rtp) index tag = Some ((ctl_view c)\<lparr>macCtx := m\<rparr>,
      memcpy_at tag 0 (take (ctl_tagLength c) (mac_code hm (ctl_aalg c) (ctl_tagLength c) k (rtp @ be32 index))))"
    "mac_for holds (ctl_aalg c) (ctl_tagLength c) k m"
    unfolding getRawPacket_raw [OF assms(3)] ctl_view_fields by blast
  then show thesis using that [of m] by (simp add: srtcpAuthenticate_view [OF assms(3)])
qed

lemma srtcp_cm_iv_eq:
  fixes i :: u32
  assumes "14 \<le> length ks"
  shows "srtcp_cm_iv ks ssrc (ucast i) = cm_iv ks ssrc (ucast i)"
proof -
  have 1: "ucast (drop_bit n ssrc AND 0xFF) = (ucast (0xFF AND drop_bit n ssrc) :: byte)" for n by (simp add: and.commute)
  have 2: "(ucast (drop_bit n (ucast i :: u64) AND 0xFF) :: byte) = 0xFF AND ucast (drop_bit n (ucast i :: u64))" for n
    by (simp only: and.commute [of _ "0xFF"] ucast_and_FF)
  have 3: "(0xFF :: byte) AND ucast (drop_bit 40 (ucast i :: u64)) = 0" "(0xFF :: byte) AND ucast (drop_bit 32 (ucast i :: u64)) = 0"
    by (rule bit_word_eqI; auto simp: bit_simps dest: bit_imp_le_length)+
  have r: "[8..<14] = 8 # 9 # [10..<14]" by (simp add: upt_rec)
  show ?thesis unfolding srtcp_cm_iv_def cm_iv_def 1 2 r by (simp add: 3)
qed

lemma srtcpEncrypt_cm:
  fixes i :: u32
  assumes "usable aes (ctl_view c)" "length D < 2 ^ 20"
  shows "srtcpEncrypt aes c (H @ D @ R) (length H) (length D) (ucast i) ssrc =
    Some (H @ xor_bytes D (cm_stream aes (ctl_view c) ssrc (ucast i) (length D)) @ R)"
proof -
  obtain ci where ci: "ctl_cipher c = Some ci" "runs aes ci (block_fn aes ci)" and ks: "14 \<le> length (ctl_k_s c)"
    and alg: "ctl_ealg c = SrtpEncryptionAESCM \<or> ctl_ealg c = SrtpEncryptionTWOCM" "ctl_ealg c \<noteq> SrtpEncryptionNull"
    using assms(1) by (auto simp: usable_def)
  obtain iv' where "ctr_encrypt aes ci D (srtcp_cm_iv (ctl_k_s c) ssrc (ucast i)) =
      Some (xor_bytes D (cm_stream aes (ctl_view c) ssrc (ucast i) (length D)), iv')"
    using ctr_encrypt_to_eq [OF ci(2) length_cm_iv [OF ks] assms(2), of D]
    by (auto simp: ctr_encrypt_def cm_stream_def ci(1) srtcp_cm_iv_eq [OF ks])
  moreover have "memcpy_at (H @ D @ R) (length H) (xor_bytes D (cm_stream aes (ctl_view c) ssrc (ucast i) (length D))) =
      H @ xor_bytes D (cm_stream aes (ctl_view c) ssrc (ucast i) (length D)) @ R"
    by (rule memcpy_at_mid) (simp_all add: length_cm_stream [OF assms(1)])
  ultimately show ?thesis
    using alg ks ci(1) by (simp add: srtcpEncrypt_def Let_def)
qed

lemma computeIvCtrl_eq: "computeIvCtrl label salt = computeIv (ucast label) 0 0 salt"
proof (cases "length salt < 14")
  case False
  then have s: "take 14 salt = map (\<lambda>i. salt ! i) [0..<14]" by (simp add: list_eq_iff_nth_eq)
  have b: "(ucast (0xFF AND drop_bit n (push_bit 48 (ucast label :: u64))) :: byte) = (if n = 48 then label else 0)"
    if "n \<in> {0, 8, 16, 24, 32, 40, 48}" for n
    unfolding ucast_and_FF using that by (intro bit_word_eqI) (auto simp: bit_simps dest: bit_imp_le_length)
  have b0: "(ucast (0xFF AND push_bit 48 (ucast label :: u64)) :: byte) = 0" using b [of 0] by simp
  have r: "[7..<14] = [7, 8, 9, 10, 11, 12, 13 :: nat]" "[0..<14] = [0..<7] @ [7, 8, 9, 10, 11, 12, 13]" by (simp_all add: upt_rec)
  show ?thesis using False unfolding computeIvCtrl_def computeIv_def s r
    by (simp add: Let_def b b0 xor.commute list_update_append nth_append)
qed (simp add: computeIvCtrl_def computeIv_def)

lemma session_key_ctrl_eq: "session_key_ctrl aes c label salt out n = session_key aes c (ucast label) 0 0 salt out n"
  by (simp add: session_key_ctrl_def session_key_def computeIvCtrl_eq)

definition ctl_derived :: "'ak aes_lib \<Rightarrow> 'hm hmac_lib \<Rightarrow> ('ak, 'hm) CryptoContextCtrl \<Rightarrow> ('ak, 'hm) CryptoContextCtrl" where
  "ctl_derived aes hm c =
     (let alg = algorithm (the (ctl_cipher c)); ci = keyed aes alg (ctl_master_key c);
          dkey = (\<lambda>label n. prf_key aes ci label 0 0 (ctl_master_salt c) n);
          ke = dkey 3 (ctl_n_e c); ks = dkey 5 (ctl_n_s c)
      in c\<lparr>ctl_master_key := replicate (length (ctl_master_key c)) 0,
           ctl_macCtx := derived_mac hm (ctl_aalg c) (dkey 4 (ctl_n_a c)) (ctl_tagLength c) (ctl_macCtx c),
           ctl_k_a := replicate (ctl_n_a c) 0, ctl_k_s := ks, ctl_master_salt := replicate (length (ctl_master_salt c)) 0,
           ctl_k_e := replicate (ctl_n_e c) 0, ctl_cipher := Some (keyed aes alg ke),
           ctl_f8Cipher := map_option (\<lambda>f. keyed aes (algorithm f) (f8_key ke ks)) (ctl_f8Cipher c)\<rparr>)"

lemma deriveSrtcpKeys_eq:
  assumes "block_cipher (AES_encrypt aes)" "env_ok env" "can_derive (ctl_view c)"
  shows "\<exists>env'. env_ok env' \<and> deriveSrtcpKeys aes hm env c = Some (env', ctl_derived aes hm c)"
proof -
  obtain ci where ci: "ctl_cipher c = Some ci" using assms(3) by (auto simp: can_derive_def)
  then have ci': "cipher (ctl_view c) = Some ci" by simp
  show ?thesis
    by (rule derive_steps [OF assms ci' refl refl refl, of 3 0 0 4 5])
       (cases "ctl_aalg c"; simp add: deriveSrtcpKeys_def session_key_ctrl_eq ctl_derived_def derived_mac_def Let_def ci)
qed

lemmas new_ctl_defs = newCryptoContextCtrl_def newCryptoContextCtrl_null_def newSrtpSymCrypto_def Let_def

lemma can_derive_ctl:
  assumes "ea \<noteq> SrtpEncryptionNull" "length mk \<in> {16, 32}" "14 \<le> length ms" "ekl \<in> {16, 32}" "akl < 2 ^ 20" "skl \<le> ekl"
  shows "can_derive (ctl_view (newCryptoContextCtrl mem sl ssrc ea aa mk ms ekl akl skl tgl))"
  using assms
  by (cases ea; cases aa) (auto simp: can_derive_def new_ctl_defs is_aes_def is_twofish_def)

section \<open>One packet over the wire\<close>

lemma enc_index:
  fixes i :: u32
  assumes "i < 0x80000000"
  shows "(i OR 0x80000000) AND 0x7FFFFFFF = i" "bit (i OR 0x80000000) 31"
proof -
  have m: "(0x7FFFFFFF :: u32) = mask 31" "(0x80000000 :: u32) = push_bit 31 1" by (simp_all add: mask_eq_exp_minus_1)
  have "unat i < 2 ^ 31" using assms by (simp add: word_less_nat_alt)
  then have "take_bit 31 i = i" by (simp add: word_unat_eq_iff unsigned_take_bit_eq take_bit_nat_eq_self)
  moreover have "take_bit 31 (push_bit 31 1 :: u32) = 0" by (rule bit_word_eqI) (auto simp: bit_simps)
  ultimately show "(i OR 0x80000000) AND 0x7FFFFFFF = i" unfolding m by (simp add: take_bit_or flip: take_bit_eq_mask)
  show "bit (i OR 0x80000000) 31" unfolding m by (simp add: bit_simps)
qed

definition srtcp_body :: "'ak aes_lib \<Rightarrow> ('ak, 'hm) CryptoContextCtrl \<Rightarrow> u32 \<Rightarrow> byte list \<Rightarrow> byte list" where
  "srtcp_body aes c i x = take 8 x @ xor_bytes (drop 8 x) (cm_stream aes (ctl_view c) (from_be32 (take 4 (drop 4 x))) (ucast i) (length x - 8))"

definition srtcp_tag :: "'hm hmac_lib \<Rightarrow> ('ak, 'hm) CryptoContextCtrl \<Rightarrow> byte list \<Rightarrow> u32 \<Rightarrow> byte list \<Rightarrow> byte list" where
  "srtcp_tag hm c k i w = take (ctl_tagLength c) (mac_code hm (ctl_aalg c) (ctl_tagLength c) k (w @ be32 (i OR 0x80000000)))"

lemma length_srtcp_body: "usable aes (ctl_view c) \<Longrightarrow> 8 \<le> length x \<Longrightarrow> length (srtcp_body aes c i x) = length x"
  by (simp add: srtcp_body_def length_cm_stream)

lemma srtcp_body_twice:
  assumes "usable aes (ctl_view c)" "8 \<le> length x"
  shows "srtcp_body aes c i (srtcp_body aes c i x) = x"
proof -
  have h: "take 8 (srtcp_body aes c i x) = take 8 x" "take 4 (drop 4 (srtcp_body aes c i x)) = take 4 (drop 4 x)"
    using assms(2) by (simp_all add: srtcp_body_def take_drop)
  then show ?thesis
    using assms unfolding srtcp_body_def [of _ _ _ "srtcp_body aes c i x"] length_srtcp_body [OF assms]
    by (simp add: h) (simp add: srtcp_body_def xor_bytes_cancel length_cm_stream)
qed

lemma srtcpEncrypt_body:
  assumes "usable aes (ctl_view c)" "8 \<le> length x" "length x < 2 ^ 20"
  shows "srtcpEncrypt aes c (x @ R) 8 (length x - 8) (ucast (i :: u32)) (from_be32 (take 4 (drop 4 x))) = Some (srtcp_body aes c i x @ R)"
proof -
  have l: "length (take 8 x) = 8" "length (drop 8 x) = length x - 8" "length (drop 8 x) < 2 ^ 20" using assms by simp_all
  have e: "take 8 x @ drop 8 x @ R = x @ R" by (metis append_assoc append_take_drop_id)
  show ?thesis
    using srtcpEncrypt_cm [OF assms(1) l(3), of "take 8 x" R i "from_be32 (take 4 (drop 4 x))"] unfolding l(1,2) srtcp_body_def e by simp
qed

lemma protectCtrl_wire:
  assumes hm: "hmac_ok hm holds" and us: "usable aes (ctl_view s)" and mac: "mac_for holds (ctl_aalg s) (ctl_tagLength s) k (ctl_macCtx s)"
    and x: "8 \<le> length x" "length x < 2 ^ 20" and T: "length T = 4 + ctl_tagLength s" and w: "w = srtcp_body aes s i x"
  obtains m where "protectCtrl aes hm i (x @ T) (length x) s =
      Some (length x + ctl_tagLength s + 4, w @ be32 (i OR 0x80000000) @ srtcp_tag hm s k i w, s\<lparr>ctl_macCtx := m\<rparr>, (i + 1) AND 0x7FFFFFFF)"
    "mac_for holds (ctl_aalg s) (ctl_tagLength s) k m"
proof -
  have lw: "length w = length x" using length_srtcp_body [OF us x(1)] w by simp
  have hd4: "take 4 (drop 4 (x @ T)) = take 4 (drop 4 x)" using x(1) by simp
  have enc: "srtcpEncrypt aes s (x @ T) 8 (length x - 8) (ucast i) (from_be32 (take 4 (drop 4 (x @ T)))) = Some (w @ T)"
    unfolding hd4 w by (rule srtcpEncrypt_body [OF us x])
  obtain a t where at: "T = a @ t" "length a = 4" "length t = ctl_tagLength s"
    using T by (intro that [of "take 4 T" "drop 4 T"]) simp_all
  let ?e = "be32 (i OR 0x80000000)"
  have e4: "length ?e = 4" by (simp add: be32_def)
  have m1: "memcpy_at (w @ T) (length x) ?e = w @ ?e @ t" using at lw e4 by (simp add: memcpy_at_def)
  have l32: "length w < 2 ^ 32" using lw x(2) by simp
  obtain m where m: "srtcpAuthenticate hm s w (i OR 0x80000000) t = Some (s\<lparr>ctl_macCtx := m\<rparr>, memcpy_at t 0 (srtcp_tag hm s k i w))"
    "mac_for holds (ctl_aalg s) (ctl_tagLength s) k m"
    using srtcpAuthenticate_eq [OF hm mac l32, of "i OR 0x80000000" t] unfolding srtcp_tag_def by metis
  have lt: "length (srtcp_tag hm s k i w) = ctl_tagLength s" using length_mac_code(1) [OF hm mac] by (simp add: srtcp_tag_def)
  then have t': "memcpy_at t 0 (srtcp_tag hm s k i w) = srtcp_tag hm s k i w" using at(3) by (simp add: memcpy_at_def)
  have "protectCtrl aes hm i (x @ T) (length x) s =
      Some (length x + ctl_tagLength s + 4, memcpy_at (w @ ?e @ t) (length x + 4) (srtcp_tag hm s k i w), s\<lparr>ctl_macCtx := m\<rparr>, (i + 1) AND 0x7FFFFFFF)"
    unfolding protectCtrl_def enc Let_def Option.bind.simps m1
    using x(1) T lw e4 at(3) m(1) t' by simp
  moreover have "memcpy_at (w @ ?e @ t) (length x + 4) (srtcp_tag hm s k i w) = w @ ?e @ srtcp_tag hm s k i w"
    using lw e4 lt at(3) by (simp add: memcpy_at_def)
  ultimately show thesis using that m(2) by simp
qed


lemma updateCtrl_ahead:
  assumes "unat (i - ctl_s_l r) < 64"
  shows "\<exists>wd. updateCtrl r i = Some (r\<lparr>ctl_replay_window := wd, ctl_s_l := i\<rparr>) \<and> odd wd"
proof -
  define d where "d = uint (i - ctl_s_l r)"
  have d: "0 \<le> d" "d < 64" using assms unfolding d_def uint_nat by linarith+
  have o: "odd (x OR 1)" for x :: u64 by (simp add: even_or_iff)
  show ?thesis unfolding updateCtrl_def d_def [symmetric] using d o by (cases "d = 0") (simp_all add: Let_def, blast+)
qed

lemma checkReplayCtrl_eq:
  assumes "secured (ctl_view r)"
  shows "checkReplayCtrl r i = Some (i \<noteq> ctl_s_l r \<or> even (ctl_replay_window r))"
proof -
  have "uint (ctl_s_l r - i) = 0 \<longleftrightarrow> i = ctl_s_l r" by (simp add: uint_0_iff) auto
  moreover have "0 \<le> uint (ctl_s_l r - i)" by simp
  ultimately show ?thesis using assms
    by (auto simp: checkReplayCtrl_def Let_def secured_def REPLAY_WINDOW_SIZE_def order_le_less)
qed

lemma unprotectCtrl_wire:
  assumes hm: "hmac_ok hm holds" and us: "usable aes (ctl_view r)" and mac: "mac_for holds (ctl_aalg r) (ctl_tagLength r) k (ctl_macCtx r)"
    and mki: "ctl_mkiLength r = 0" and w: "8 \<le> length w" "length w < 2 ^ 20" and i: "i < 0x80000000"
    and sl: "unat (i - ctl_s_l r) < 64" "i = ctl_s_l r \<longrightarrow> even (ctl_replay_window r)"
    and buf: "buf = w @ be32 (i OR 0x80000000) @ srtcp_tag hm r k i w"
  obtains m wd where "unprotectCtrl aes hm mem buf (length buf) (Some r) =
      Some (int (length w), srtcp_body aes r i w @ be32 (i OR 0x80000000) @ srtcp_tag hm r k i w,
        Some (r\<lparr>ctl_macCtx := m, ctl_replay_window := wd, ctl_s_l := i\<rparr>))"
    "mac_for holds (ctl_aalg r) (ctl_tagLength r) k m" "odd wd"
proof -
  let ?e = "i OR 0x80000000" and ?tl = "ctl_tagLength r" and ?tag = "srtcp_tag hm r k i w"
  have e4: "length (be32 ?e) = 4" by (simp add: be32_def)
  have lt: "length ?tag = ?tl" "?tl \<le> 20" using length_mac_code(1,3) [OF hm mac] by (simp_all add: srtcp_tag_def)
  have lb: "length buf = length w + (?tl + 4)" using e4 lt by (simp add: buf)
  define pl where "pl = of_nat (length buf) - (of_nat ?tl + ctl_mkiLength r + 4 :: u32)"
  have pl: "pl = of_nat (length w)" by (simp add: pl_def lb mki)
  have n: "unat pl = length w" unfolding pl using w(2) by (simp add: unat_of_nat32)
  have n8: "unat (pl - 8) = length w - 8"
  proof -
    have "pl - 8 = of_nat (length w - 8)" using w(1) by (simp add: pl of_nat_diff)
    then show ?thesis using w(2) by (simp add: unat_of_nat32)
  qed
  have ss: "sint pl = int (length w)"
  proof -
    have "sint (of_int (int (length w)) :: u32) = signed_take_bit 31 (int (length w))" by (simp only: signed_of_int) simp
    also have "\<dots> = int (length w)" using w(2) by (intro signed_take_bit_int_eq_self) auto
    finally show ?thesis by (simp add: pl)
  qed
  have parts: "take (length w) buf = w" "take 4 (drop (length w) buf) = be32 ?e" "take ?tl (drop (length buf - ?tl) buf) = ?tag"
    "take 4 (drop 4 buf) = take 4 (drop 4 w)"
    using e4 lt w(1) lb by (simp_all add: buf)
  have cr: "checkReplayCtrl r i = Some True"
    using checkReplayCtrl_eq [of r i] us sl(2) by (auto simp: secured_def usable_def)
  have l32: "length w < 2 ^ 32" using w(2) by simp
  obtain m where m: "srtcpAuthenticate hm r w ?e (map mem [0..<20]) = Some (r\<lparr>ctl_macCtx := m\<rparr>, memcpy_at (map mem [0..<20]) 0 ?tag)"
    "mac_for holds (ctl_aalg r) ?tl k m"
    using srtcpAuthenticate_eq [OF hm mac l32, of ?e "map mem [0..<20]"] unfolding srtcp_tag_def by metis
  have t: "take ?tl (memcpy_at (map mem [0..<20]) 0 ?tag) = ?tag" using lt by (simp add: memcpy_at_def)
  let ?r = "r\<lparr>ctl_macCtx := m\<rparr>"
  have us': "usable aes (ctl_view ?r)" and cs: "cm_stream aes (ctl_view ?r) = cm_stream aes (ctl_view r)"
    using us usable_cong [of "ctl_view ?r" "ctl_view r"] by simp_all
  have dec: "srtcpEncrypt aes ?r buf 8 (length w - 8) (ucast i) (from_be32 (take 4 (drop 4 w))) =
      Some (srtcp_body aes r i w @ be32 ?e @ ?tag)"
    unfolding buf using srtcpEncrypt_body [OF us' w, of "be32 ?e @ ?tag" i] by (simp add: srtcp_body_def cs)
  obtain wd where up: "updateCtrl ?r i = Some (?r\<lparr>ctl_replay_window := wd, ctl_s_l := i\<rparr>)" "odd wd"
    using updateCtrl_ahead [of i ?r] sl(1) by auto
  have "unprotectCtrl aes hm mem buf (length buf) (Some r) = Some (int (length w), srtcp_body aes r i w @ be32 ?e @ ?tag,
      Some (r\<lparr>ctl_macCtx := m, ctl_replay_window := wd, ctl_s_l := i\<rparr>))"
    unfolding unprotectCtrl_def option.case Let_def pl_def [symmetric] n n8 parts from_be32_be32 enc_index(1) [OF i] cr
    using lb w(1) m(1) t dec up(1) enc_index(2) [OF i] ss parts(3) by simp
  then show thesis using that m(2) up(2) by blast
qed


section \<open>A stream of packets\<close>

text \<open>The sender protects the packets with consecutive indices; the receiver unprotects every one. The results and the packets are collected.\<close>

fun srtcp_session ::
  "'ak aes_lib \<Rightarrow> 'hm hmac_lib \<Rightarrow> (nat \<Rightarrow> byte) \<Rightarrow> ('ak, 'hm) CryptoContextCtrl \<Rightarrow> ('ak, 'hm) CryptoContextCtrl
   \<Rightarrow> u32 \<Rightarrow> byte list list \<Rightarrow> (int \<times> byte list) list option" where
  "srtcp_session aes hm mem s r i [] = Some []"
| "srtcp_session aes hm mem s r i (x # xs) =
     do { (n, buf, s, i) \<leftarrow> protectCtrl aes hm i (x @ map mem [0..<4 + ctl_tagLength s]) (length x) s;
          (code, buf, ro) \<leftarrow> unprotectCtrl aes hm mem (take n buf) n (Some r);
          r \<leftarrow> ro;
          rest \<leftarrow> srtcp_session aes hm mem s r i xs;
          Some ((code, take (nat code) buf) # rest) }"

definition ctl_in_sync ::
  "'ak aes_lib \<Rightarrow> ('hm \<Rightarrow> byte list \<Rightarrow> byte list \<Rightarrow> bool) \<Rightarrow> byte list \<Rightarrow>
   ('ak, 'hm) CryptoContextCtrl \<Rightarrow> ('ak, 'hm) CryptoContextCtrl \<Rightarrow> u32 \<Rightarrow> bool" where
  "ctl_in_sync aes holds k s r i \<longleftrightarrow> usable aes (ctl_view s) \<and>
     ctl_cipher r = ctl_cipher s \<and> ctl_k_s r = ctl_k_s s \<and> ctl_ealg r = ctl_ealg s \<and> ctl_aalg r = ctl_aalg s \<and>
     ctl_tagLength r = ctl_tagLength s \<and> ctl_mkiLength r = 0 \<and>
     mac_for holds (ctl_aalg s) (ctl_tagLength s) k (ctl_macCtx s) \<and> mac_for holds (ctl_aalg s) (ctl_tagLength s) k (ctl_macCtx r) \<and>
     unat (i - ctl_s_l r) < 64 \<and> (i = ctl_s_l r \<longrightarrow> even (ctl_replay_window r))"

lemma srtcp_session_sync:
  assumes hm: "hmac_ok hm holds"
  shows "ctl_in_sync aes holds k s r i \<Longrightarrow> list_all (\<lambda>x. 8 \<le> length x \<and> length x < 2 ^ 20) xs \<Longrightarrow> unat i + length xs \<le> 2 ^ 31 \<Longrightarrow>
    srtcp_session aes hm mem s r i xs = Some (map (\<lambda>x. (int (length x), x)) xs)"
proof (induction xs arbitrary: s r i)
  case (Cons x xs)
  have y: "usable aes (ctl_view s)" "mac_for holds (ctl_aalg s) (ctl_tagLength s) k (ctl_macCtx s)"
    "mac_for holds (ctl_aalg s) (ctl_tagLength s) k (ctl_macCtx r)" "ctl_mkiLength r = 0"
    and eqs: "ctl_cipher r = ctl_cipher s" "ctl_k_s r = ctl_k_s s" "ctl_ealg r = ctl_ealg s" "ctl_aalg r = ctl_aalg s"
      "ctl_tagLength r = ctl_tagLength s"
    and sl: "unat (i - ctl_s_l r) < 64" "i = ctl_s_l r \<longrightarrow> even (ctl_replay_window r)"
    using Cons.prems(1) unfolding ctl_in_sync_def by blast+
  have x: "8 \<le> length x" "length x < 2 ^ 20" using Cons.prems(2) by simp_all
  have i: "i < 0x80000000" using Cons.prems(3) by (simp add: word_less_nat_alt)
  define w where "w = srtcp_body aes s i x"
  have lw: "length w = length x" using length_srtcp_body [OF y(1) x(1)] by (simp add: w_def)
  have us: "usable aes (ctl_view r)" and cs: "cm_stream aes (ctl_view r) = cm_stream aes (ctl_view s)"
    using y(1) usable_cong [of "ctl_view r" "ctl_view s"] eqs by simp_all
  have tg: "srtcp_tag hm r = srtcp_tag hm s" "srtcp_body aes r = srtcp_body aes s" using eqs cs by (simp_all add: srtcp_tag_def srtcp_body_def fun_eq_iff)
  have inv: "srtcp_body aes r i w = x" unfolding tg w_def by (rule srtcp_body_twice [OF y(1) x(1)])
  let ?e = "be32 (i OR 0x80000000)" and ?i = "(i + 1) AND 0x7FFFFFFF"
  let ?b = "w @ ?e @ srtcp_tag hm s k i w"
  have T: "length (map mem [0..<4 + ctl_tagLength s]) = 4 + ctl_tagLength s" by simp
  obtain m where P: "protectCtrl aes hm i (x @ map mem [0..<4 + ctl_tagLength s]) (length x) s =
      Some (length x + ctl_tagLength s + 4, ?b, s\<lparr>ctl_macCtx := m\<rparr>, ?i)" "mac_for holds (ctl_aalg s) (ctl_tagLength s) k m"
    by (rule protectCtrl_wire [OF hm y(1,2) x T w_def])
  have macr: "mac_for holds (ctl_aalg r) (ctl_tagLength r) k (ctl_macCtx r)" using y(3) eqs by simp
  have w8: "8 \<le> length w" "length w < 2 ^ 20" using x lw by simp_all
  have bf: "?b = w @ be32 (i OR 0x80000000) @ srtcp_tag hm r k i w" by (simp add: tg)
  obtain m' wd where U: "unprotectCtrl aes hm mem ?b (length ?b) (Some r) =
      Some (int (length w), srtcp_body aes r i w @ ?e @ srtcp_tag hm r k i w, Some (r\<lparr>ctl_macCtx := m', ctl_replay_window := wd, ctl_s_l := i\<rparr>))"
    "mac_for holds (ctl_aalg r) (ctl_tagLength r) k m'"
    by (rule unprotectCtrl_wire [OF hm us macr y(4) w8 i sl bf])
  have lt: "length (srtcp_tag hm s k i w) = ctl_tagLength s" using length_mac_code(1) [OF hm y(2)] by (simp add: srtcp_tag_def)
  have lb: "length ?b = length x + ctl_tagLength s + 4" using lw lt by (simp add: be32_def)
  let ?s = "s\<lparr>ctl_macCtx := m\<rparr>" and ?r = "r\<lparr>ctl_macCtx := m', ctl_replay_window := wd, ctl_s_l := i\<rparr>"
  have "srtcp_session aes hm mem ?s ?r ?i xs = Some (map (\<lambda>x. (int (length x), x)) xs)"
  proof (cases "xs = []")
    case False
    then have "0 < length xs" "length (x # xs) = length xs + 1" by simp_all
    then have n: "unat i + 1 < 2 ^ 31" using Cons.prems(3) by linarith
    then have u: "unat (i + 1) = unat i + 1" by (simp add: unat_word_ariths)
    have "take_bit 31 (i + 1) = i + 1" using n u by (simp add: word_unat_eq_iff unsigned_take_bit_eq take_bit_nat_eq_self)
    moreover have "(0x7FFFFFFF :: u32) = mask 31" by (simp add: mask_eq_exp_minus_1)
    ultimately have i1: "?i = i + 1" by (metis take_bit_eq_mask)
    have "ctl_in_sync aes holds k ?s ?r ?i"
      unfolding i1 using y eqs P(2) U(2) usable_cong(1) [of "ctl_view ?s" "ctl_view s" aes] by (simp add: ctl_in_sync_def)
    then show ?thesis using Cons.IH Cons.prems(2,3) u i1 by simp
  qed simp
  then show ?case using P(1) U(1) [unfolded lb] lb lw inv by simp
qed simp

lemma ctl_derived_fields:
  assumes "c = newCryptoContextCtrl mem sl ssrc ea aa mk ms ekl akl skl tgl" "ea = SrtpEncryptionAESCM \<or> ea = SrtpEncryptionTWOCM"
  shows "ctl_s_l (ctl_derived aes hm c) = sl" "ctl_replay_window (ctl_derived aes hm c) = 0" "ctl_mkiLength (ctl_derived aes hm c) = 0"
    "ctl_ealg (ctl_derived aes hm c) = ea" "ctl_aalg (ctl_derived aes hm c) = aa"
    "ctl_tagLength (ctl_derived aes hm c) = (if aa = SrtpAuthenticationNull then 0 else tgl)"
    "ctl_cipher (ctl_derived aes hm c) = Some (keyed aes ea (prf_key aes (keyed aes ea mk) 3 0 0 ms ekl))"
    "ctl_k_s (ctl_derived aes hm c) = prf_key aes (keyed aes ea mk) 5 0 0 ms skl"
    "ctl_macCtx (ctl_derived aes hm c) = derived_mac hm aa (prf_key aes (keyed aes ea mk) 4 0 0 ms (if aa = SrtpAuthenticationNull then 0 else akl))
       (if aa = SrtpAuthenticationNull then 0 else tgl) MacUnset"
  using assms by (cases aa; auto simp: ctl_derived_def new_ctl_defs)+

lemma ctl_derived_usable:
  assumes "block_cipher (AES_encrypt aes)" "ea = SrtpEncryptionAESCM \<or> ea = SrtpEncryptionTWOCM" "14 \<le> skl" "skl < 2 ^ 20" "14 \<le> length ms"
    "c = newCryptoContextCtrl mem sl ssrc ea aa mk ms ekl akl skl tgl"
  shows "usable aes (ctl_view (ctl_derived aes hm c))"
proof -
  have a: "is_aes ea \<or> is_twofish ea" using assms(2) by (auto simp: is_aes_def is_twofish_def)
  note f = ctl_derived_fields [OF assms(6,2), of aes hm]
  have "length (prf_key aes (keyed aes ea mk) 5 0 0 ms skl) = skl" by (rule session_key_eq(2) [OF runs_keyed [OF assms(1) a] assms(5,4)])
  then show ?thesis using assms(2,3) runs_keyed [OF assms(1) a] f by (simp add: usable_def)
qed

lemma derived_mac_for_code:
  assumes "hmac_ok hm holds" "0 < tgl" "tgl \<le> 20"
  shows "mac_for holds aa (if aa = SrtpAuthenticationNull then 0 else tgl) k (derived_mac hm aa k (if aa = SrtpAuthenticationNull then 0 else tgl) old)"
proof -
  have "(of_nat (tgl * 8) :: 32 word) \<noteq> 0" by (rule skein_tag_length(1) [OF assms(2,3)])
  from mac_ready_create(1) [OF this refl] show ?thesis
    using assms by (cases aa) (auto simp: mac_for_def derived_mac_def createSha1HmacContext_def hmac_ok_def)
qed

text \<open>
  C11: secure transport of control packets. Two control contexts made from the same parameters for AES or Twofish in counter mode,
  with keys of 16 or 32 bytes, with no, an HMAC-SHA1 or a Skein tag and a tag length of 1 to 20 bytes, derive their keys; then every
  sequence of packets of 8 bytes to one megabyte protected with consecutive indices passes the replay check and the authentication and comes
  out with its length and its bytes, up to the end of the range of the 31-bit index, provided the number that the receiver starts
  from (which no constructor sets) is less than 64 below the first index.
\<close>

theorem srtcp_stream_round_trip:
  assumes aes: "block_cipher (AES_encrypt aes)" and hm: "hmac_ok hm holds" and "env_ok e1" "env_ok e2"
    and ea: "ea = SrtpEncryptionAESCM \<or> ea = SrtpEncryptionTWOCM"
    and len: "length mk \<in> {16, 32}" "14 \<le> length ms" "ekl \<in> {16, 32}" "akl < 2 ^ 20" "14 \<le> skl" "skl \<le> ekl"
    and tgl: "0 < tgl" "tgl \<le> 20"
    and s0: "s0 = newCryptoContextCtrl mem1 sl1 ssrc1 ea aa mk ms ekl akl skl tgl"
    and r0: "r0 = newCryptoContextCtrl mem2 sl2 ssrc2 ea aa mk ms ekl akl skl tgl"
    and sl: "unat (i - sl2) < 64"
    and msgs: "list_all (\<lambda>x. 8 \<le> length x \<and> length x < 2 ^ 20) xs" "unat i + length xs \<le> 2 ^ 31"
  shows "\<exists>e1' s e2' r. deriveSrtcpKeys aes hm e1 s0 = Some (e1', s) \<and> deriveSrtcpKeys aes hm e2 r0 = Some (e2', r) \<and>
    srtcp_session aes hm mem s r i xs = Some (map (\<lambda>x. (int (length x), x)) xs)"
proof -
  let ?s = "ctl_derived aes hm s0" and ?r = "ctl_derived aes hm r0"
  have ea': "ea \<noteq> SrtpEncryptionNull" using ea by auto
  note cd = can_derive_ctl [OF ea' len(1-4,6)]
  obtain e1' where 1: "deriveSrtcpKeys aes hm e1 s0 = Some (e1', ?s)"
    using deriveSrtcpKeys_eq [OF aes assms(3) cd] unfolding s0 by blast
  obtain e2' where 2: "deriveSrtcpKeys aes hm e2 r0 = Some (e2', ?r)"
    using deriveSrtcpKeys_eq [OF aes assms(4) cd] unfolding r0 by blast
  have skl: "skl < 2 ^ 20" using len(3,6) by auto
  note fs = ctl_derived_fields [OF s0 ea, of aes hm] and fr = ctl_derived_fields [OF r0 ea, of aes hm]
  have "ctl_in_sync aes holds (prf_key aes (keyed aes ea mk) 4 0 0 ms (if aa = SrtpAuthenticationNull then 0 else akl)) ?s ?r i"
    using ctl_derived_usable [OF aes ea len(5) skl len(2) s0, of hm] fs fr derived_mac_for_code [OF hm tgl] sl
    unfolding ctl_in_sync_def by simp
  then show ?thesis using srtcp_session_sync [OF hm _ msgs] 1 2 by blast
qed


theorem srtcp_stream_round_trip_witness:
  "let s0 = newCryptoContextCtrl (\<lambda>_. 1) 77 7 SrtpEncryptionTWOCM SrtpAuthenticationSkeinHmac (replicate 16 1) (replicate 14 2) 16 20 14 10;
       r0 = newCryptoContextCtrl (\<lambda>_. 2) 0 7 SrtpEncryptionTWOCM SrtpAuthenticationSkeinHmac (replicate 16 1) (replicate 14 2) 16 20 14 10
   in \<exists>e1' s e2' r. deriveSrtcpKeys sample_aes sample_hmac sample_env s0 = Some (e1', s) \<and>
     deriveSrtcpKeys sample_aes sample_hmac sample_env r0 = Some (e2', r) \<and>
     srtcp_session sample_aes sample_hmac (\<lambda>_. 0) s r 0 [replicate 8 5, replicate 28 6] = Some [(8, replicate 8 5), (28, replicate 28 6)]"
proof -
  let ?xs = "[replicate 8 5, replicate 28 6] :: byte list list"
  have "\<exists>e1' s e2' r. deriveSrtcpKeys sample_aes sample_hmac sample_env (newCryptoContextCtrl (\<lambda>_. 1) 77 7
      SrtpEncryptionTWOCM SrtpAuthenticationSkeinHmac (replicate 16 1) (replicate 14 2) 16 20 14 10) = Some (e1', s) \<and>
    deriveSrtcpKeys sample_aes sample_hmac sample_env (newCryptoContextCtrl (\<lambda>_. 2) 0 7
      SrtpEncryptionTWOCM SrtpAuthenticationSkeinHmac (replicate 16 1) (replicate 14 2) 16 20 14 10) = Some (e2', r) \<and>
    srtcp_session sample_aes sample_hmac (\<lambda>_. 0) s r 0 ?xs = Some (map (\<lambda>x. (int (length x), x)) ?xs)"
    by (rule srtcp_stream_round_trip [OF sample_aes_block_cipher hmac_ok_sample _ _ _ _ _ _ _ _ _ _ _ refl refl])
       (simp_all add: env_ok_def sample_env_def)
  then show ?thesis by (simp add: Let_def del: srtcp_session.simps)
qed

text \<open>
  What the replay protection of control packets does. A packet is refused only if its index equals that of the packet accepted last; every other index is
  accepted, however old it is and however often it was accepted before. The update afterwards has a defined result exactly when the index is
  less than 64 above the last one, so that an old packet that passes makes it shift by too much.
\<close>

theorem srtcp_replay_exact:
  assumes "ctl_aalg r \<noteq> SrtpAuthenticationNull \<or> ctl_ealg r \<noteq> SrtpEncryptionNull"
  shows "checkReplayCtrl r i = Some (i \<noteq> ctl_s_l r \<or> even (ctl_replay_window r)) \<and>
    (updateCtrl r i \<noteq> None \<longleftrightarrow> unat (i - ctl_s_l r) < 64) \<and>
    (\<forall>r'. updateCtrl r i = Some r' \<longrightarrow> ctl_s_l r' = i \<and> checkReplayCtrl r' i = Some False \<and>
       (\<forall>j. j \<noteq> i \<longrightarrow> checkReplayCtrl r' j = Some True))"
proof -
  have sec: "secured (ctl_view c)" if "ctl_aalg c = ctl_aalg r" "ctl_ealg c = ctl_ealg r" for c :: "('a, 'b) CryptoContextCtrl"
    using assms that by (auto simp: secured_def)
  have n: "updateCtrl r i = None" if "\<not> unat (i - ctl_s_l r) < 64"
  proof -
    have "64 \<le> uint (i - ctl_s_l r)" using that unfolding uint_nat by linarith
    then show ?thesis by (simp add: updateCtrl_def Let_def)
  qed
  show ?thesis
  proof (cases "unat (i - ctl_s_l r) < 64")
    case True
    obtain wd where u: "updateCtrl r i = Some (r\<lparr>ctl_replay_window := wd, ctl_s_l := i\<rparr>)" "odd wd" using updateCtrl_ahead [OF True] by blast
    have "secured (ctl_view (r\<lparr>ctl_replay_window := wd, ctl_s_l := i\<rparr>))" using assms by (auto simp: secured_def)
    from checkReplayCtrl_eq [OF this] checkReplayCtrl_eq [of r i] u True show ?thesis using assms by (auto simp: secured_def)
  next
    case False
    then show ?thesis using n checkReplayCtrl_eq [of r i] assms by (auto simp: secured_def)
  qed
qed

theorem srtcp_replay_exact_witness:
  "let r = newCryptoContextCtrl (\<lambda>_. 0) 3 7 SrtpEncryptionAESCM SrtpAuthenticationSha1Hmac (replicate 16 1) (replicate 14 2) 16 20 14 10
         :: (unit, unit) CryptoContextCtrl
   in (\<exists>r'. updateCtrl r 5 = Some r' \<and> checkReplayCtrl r' 5 = Some False \<and> checkReplayCtrl r' 3 = Some True) \<and> updateCtrl r 2 = None"
proof -
  let ?r = "newCryptoContextCtrl (\<lambda>_. 0) 3 7 SrtpEncryptionAESCM SrtpAuthenticationSha1Hmac (replicate 16 1) (replicate 14 2) 16 20 14 10
      :: (unit, unit) CryptoContextCtrl"
  have a: "ctl_aalg ?r \<noteq> SrtpAuthenticationNull \<or> ctl_ealg ?r \<noteq> SrtpEncryptionNull" "ctl_s_l ?r = 3" by (simp_all add: new_ctl_defs)
  have u: "unat (5 - 3 :: u32) < 64" "\<not> unat (2 - 3 :: u32) < 64" by (simp_all add: unsigned_minus_1_eq_mask mask_eq_exp_minus_1)
  from srtcp_replay_exact [OF a(1), of 5] obtain r' where r': "updateCtrl ?r 5 = Some r'" using u(1) unfolding a(2) by auto
  moreover have "(5 :: u32) \<noteq> 3" by simp
  ultimately have "checkReplayCtrl r' 5 = Some False" "checkReplayCtrl r' 3 = Some True" using srtcp_replay_exact [OF a(1), of 5] by auto
  moreover have "updateCtrl ?r 2 = None" using srtcp_replay_exact [OF a(1), of 2] u(2) unfolding a(2) by blast
  ultimately show ?thesis unfolding Let_def using r' by blast
qed

text \<open>
  The vector of F8 mode for control packets takes the first eight bytes of what is being encrypted: the sender those of the
  plain text, the receiver those of the cipher text, so that decryption uses another vector unless these bytes encrypt to themselves.
\<close>

lemma srtcp_f8_iv_eq_iff: "srtcp_f8_iv i d = srtcp_f8_iv i d' \<longleftrightarrow> take 8 d = take 8 d'"
  by (simp add: srtcp_f8_iv_def Let_def)

section \<open>The lists of contexts\<close>

definition ctl_store_ok :: "('ak, 'hm) CryptoContextCtrl list \<Rightarrow> bool" where
  "ctl_store_ok ccs \<longleftrightarrow> distinct (map ctl_ssrcCtx ccs)"

lemmas ctl_store_defs = ctl_store_ok_def setInQueueCryptoContextCtrl_def removeInQueueCryptoContextCtrl_def getInQueueCryptoContextCtrl_def

interpretation inctl: ctx_store ctl_store_ok ctl_ssrcCtx getInQueueCryptoContextCtrl setInQueueCryptoContextCtrl removeInQueueCryptoContextCtrl
proof
  fix s :: "('ak, 'hm) CryptoContextCtrl list" and c co k
  assume "ctl_store_ok s"
  then have d: "distinct (map ctl_ssrcCtx s)" by (simp add: ctl_store_ok_def)
  show "ctl_store_ok (setInQueueCryptoContextCtrl c s)"
    using erase_ctx_distinct [OF d, of "ctl_ssrcCtx c"] by (auto simp: ctl_store_defs)
  show "ctl_store_ok (removeInQueueCryptoContextCtrl co s)"
    using erase_ctx_distinct [OF d] by (auto simp: ctl_store_defs split: option.split)
  show "getInQueueCryptoContextCtrl k (setInQueueCryptoContextCtrl c s) = (if k = ctl_ssrcCtx c then Some c else getInQueueCryptoContextCtrl k s)"
    using find_erase [OF d] by (auto simp: ctl_store_defs find_append split: option.split)
  show "getInQueueCryptoContextCtrl k (removeInQueueCryptoContextCtrl co s) =
      (case co of None \<Rightarrow> None | Some c \<Rightarrow> if k = ctl_ssrcCtx c then None else getInQueueCryptoContextCtrl k s)"
    using find_erase [OF d] by (auto simp: ctl_store_defs split: option.split)
qed

lemma out_ctl_ops_eq:
  "setOutQueueCryptoContextCtrl = setInQueueCryptoContextCtrl" "removeOutQueueCryptoContextCtrl = removeInQueueCryptoContextCtrl"
  "getOutQueueCryptoContextCtrl = getInQueueCryptoContextCtrl"
  by (simp_all add: fun_eq_iff ctl_store_defs setOutQueueCryptoContextCtrl_def removeOutQueueCryptoContextCtrl_def getOutQueueCryptoContextCtrl_def)

interpretation outctl: ctx_store ctl_store_ok ctl_ssrcCtx getOutQueueCryptoContextCtrl setOutQueueCryptoContextCtrl removeOutQueueCryptoContextCtrl
  unfolding out_ctl_ops_eq by (rule inctl.ctx_store_axioms)

end
