(* ===== verification/Collision.thy ===== *)
theory Collision
  imports Reception
begin

text \<open>
  SSRC collisions and loops: the list of addresses that conflict with the local source
  (\<^verbatim>\<open>ConflictHandler\<close>) and the checks on arriving data and control packets, \<^verbatim>\<open>checkSSRCInIncomingRTPPkt\<close> of
  \<^verbatim>\<open>src/src/incqueue.cpp\<close> and \<^verbatim>\<open>checkSSRCInRTCPPkt\<close> of \<^verbatim>\<open>src/src/control.cpp\<close>. Network addresses are a type
  parameter. The list of conflicts only grows at its end and is a HOL list; the null pointer that the search for data
  conflicts runs into is the value \<^term>\<open>None\<close>. Of a new collision with the local source the
  checks report the flag with which the caller sends a BYE and looks for another identifier.
\<close>

section \<open>Conflicting addresses\<close>

record 'na ConflictingTransportAddress =
  confAddress :: 'na
  confDataPort :: u16
  confControlPort :: u16
  confLastTime :: timeval

text \<open>Neither the head nor any later element is tested for null before it is read.\<close>

fun searchDataConflict :: "'na \<Rightarrow> u16 \<Rightarrow> 'na ConflictingTransportAddress list \<Rightarrow> nat option option" where
  "searchDataConflict na dtp [] = None"
| "searchDataConflict na dtp (c # cs) =
     (if confAddress c \<noteq> na \<or> confDataPort c \<noteq> dtp
      then map_option (map_option Suc) (searchDataConflict na dtp cs) else Some (Some 0))"

fun searchControlConflict :: "'na \<Rightarrow> u16 \<Rightarrow> 'na ConflictingTransportAddress list \<Rightarrow> nat option" where
  "searchControlConflict na ctp [] = None"
| "searchControlConflict na ctp (c # cs) =
     (if confAddress c \<noteq> na \<or> confControlPort c \<noteq> ctp
      then map_option Suc (searchControlConflict na ctp cs) else Some 0)"

definition addConflict ::
  "timeval \<Rightarrow> 'na \<Rightarrow> u16 \<Rightarrow> u16 \<Rightarrow> 'na ConflictingTransportAddress list \<Rightarrow> 'na ConflictingTransportAddress list" where
  "addConflict now na dtp ctp cs =
     cs @ [\<lparr>confAddress = na, confDataPort = dtp, confControlPort = ctp, confLastTime = now\<rparr>]"

definition updateConflict ::
  "timeval \<Rightarrow> nat \<Rightarrow> 'na ConflictingTransportAddress list \<Rightarrow> 'na ConflictingTransportAddress list" where
  "updateConflict now i cs = cs[i := (cs ! i)\<lparr>confLastTime := now\<rparr>]"

section \<open>The checks\<close>

record 'na collision_result =
  accepted :: bool
  newCollision :: bool
  colLink :: "'na SourceData SyncSourceLink"
  colConflicts :: "'na ConflictingTransportAddress list"

definition upd_data :: "('na SourceData \<Rightarrow> 'na SourceData) \<Rightarrow> 'na SourceData SyncSourceLink \<Rightarrow> 'na SourceData SyncSourceLink" where
  "upd_data f l = l\<lparr>linkData := f (linkData l)\<rparr>"

definition checkSSRCInIncomingRTPPkt ::
  "timeval \<Rightarrow> byte \<Rightarrow> u32 \<Rightarrow> bool \<Rightarrow> 'na \<Rightarrow> u16 \<Rightarrow> 'na SourceData SyncSourceLink \<Rightarrow> 'na ConflictingTransportAddress list
   \<Rightarrow> 'na collision_result option" where
  "checkSSRCInIncomingRTPPkt now minValid localSSRC is_new na tp l cs =
     (let d = linkData l in
      if is_new \<and> srcID l \<noteq> localSSRC then Some \<lparr>accepted = True, newCollision = False, colLink = l, colConflicts = cs\<rparr>
      else if dataTransportPort d = tp \<and> networkAddress d = na
      then Some \<lparr>accepted = True, newCollision = False, colLink = l, colConflicts = cs\<rparr>
      else if srcID l \<noteq> localSSRC then
        (if (\<exists>c\<in>set_option (prevConflict d). fst c = na \<and> fst (snd c) = tp)
         then Some \<lparr>accepted = False, newCollision = False, colLink = l, colConflicts = cs\<rparr>
         else Some \<lparr>accepted = True, newCollision = False,
                colLink = upd_data (\<lambda>d. (setPrevConflict na tp 0 d)\<lparr>dataTransportPort := tp, networkAddress := na\<rparr>) l,
                colConflicts = cs\<rparr>)
      else do {
        conflicting \<leftarrow> searchDataConflict na tp cs;
        Some (case conflicting of
          Some i \<Rightarrow> \<lparr>accepted = False, newCollision = False, colLink = l, colConflicts = updateConflict now i cs\<rparr>
        | None \<Rightarrow> \<lparr>accepted = True, newCollision = True,
            colLink = upd_data (\<lambda>d. (initStats (d\<lparr>networkAddress := na, dataTransportPort := tp,
                        controlTransportPort := 0\<rparr>))\<lparr>probation := minValid\<rparr>) l,
            colConflicts = addConflict now (networkAddress d) (dataTransportPort d) (controlTransportPort d) cs\<rparr>) })"

definition checkSSRCInRTCPPkt ::
  "timeval \<Rightarrow> u32 \<Rightarrow> bool \<Rightarrow> 'na \<Rightarrow> u16 \<Rightarrow> 'na SourceData SyncSourceLink \<Rightarrow> 'na ConflictingTransportAddress list
   \<Rightarrow> 'na collision_result" where
  "checkSSRCInRTCPPkt now localSSRC is_new na tp l cs =
     (let d = linkData l in
      if is_new \<and> srcID l \<noteq> localSSRC then \<lparr>accepted = True, newCollision = False, colLink = l, colConflicts = cs\<rparr>
      else if controlTransportPort d = tp \<and> networkAddress d = na
      then \<lparr>accepted = True, newCollision = False, colLink = l, colConflicts = cs\<rparr>
      else if srcID l \<noteq> localSSRC then
        (if (\<exists>c\<in>set_option (prevConflict d). fst c = na \<and> snd (snd c) = tp)
         then \<lparr>accepted = False, newCollision = False, colLink = l, colConflicts = cs\<rparr>
         else \<lparr>accepted = True, newCollision = False,
                colLink = upd_data (\<lambda>d. (setPrevConflict na 0 tp d)\<lparr>controlTransportPort := tp, networkAddress := na\<rparr>) l,
                colConflicts = cs\<rparr>)
      else
        (case searchControlConflict na tp cs of
          Some i \<Rightarrow> \<lparr>accepted = False, newCollision = False, colLink = l, colConflicts = updateConflict now i cs\<rparr>
        | None \<Rightarrow> \<lparr>accepted = True, newCollision = True,
            colLink = upd_data (\<lambda>d. initStats (d\<lparr>networkAddress := na, controlTransportPort := 0\<rparr>)) l,
            colConflicts = addConflict now (networkAddress d) (dataTransportPort d) (controlTransportPort d) cs\<rparr>))"

text \<open>Twenty attempts at most; the identifier that was found is not stored anywhere.\<close>

function renew_loop :: "(nat \<Rightarrow> u32) \<Rightarrow> 'd Membership \<Rightarrow> nat \<Rightarrow> nat \<Rightarrow> (u32 \<times> nat) option" where
  "renew_loop random32 m k tries =
     (let newssrc = random32 k; tries = tries + 1 in
      if tries < 20 then
        (case isRegistered m newssrc of
           None \<Rightarrow> None
         | Some r \<Rightarrow> if r then renew_loop random32 m (k + 1) tries else Some (newssrc, tries))
      else Some (newssrc, tries))"
  by pat_completeness auto
termination by (relation "measure (\<lambda>(_, _, _, tries). 20 - tries)") auto

definition renewLocalSSRC :: "(nat \<Rightarrow> u32) \<Rightarrow> 'd Membership \<Rightarrow> (u32 \<times> nat) option" where
  "renewLocalSSRC random32 m = renew_loop random32 m 0 0"

section \<open>Properties\<close>

text \<open>A run of data packets of one known source, from the given addresses.\<close>

fun collision_run ::
  "timeval \<Rightarrow> byte \<Rightarrow> u32 \<Rightarrow> ('na \<times> u16) list \<Rightarrow> 'na SourceData SyncSourceLink \<Rightarrow> 'na ConflictingTransportAddress list
   \<Rightarrow> (bool list \<times> 'na SourceData SyncSourceLink) option" where
  "collision_run now mv lo [] l cs = Some ([], l)"
| "collision_run now mv lo ((na, tp) # xs) l cs =
     do { r \<leftarrow> checkSSRCInIncomingRTPPkt now mv lo False na tp l cs;
          (rs, l) \<leftarrow> collision_run now mv lo xs (colLink r) (colConflicts r);
          Some (accepted r # rs, l) }"

definition conflict_is_current :: "'na SourceData \<Rightarrow> bool" where
  "conflict_is_current d \<longleftrightarrow> (\<forall>c\<in>set_option (prevConflict d). c = (networkAddress d, dataTransportPort d, 0))"

lemma collision_step:
  assumes "srcID l \<noteq> lo" "conflict_is_current (linkData l)"
  shows "\<exists>l'. checkSSRCInIncomingRTPPkt now mv lo is_new na tp l cs =
      Some \<lparr>accepted = True, newCollision = False, colLink = l', colConflicts = cs\<rparr> \<and> srcID l' = srcID l \<and> conflict_is_current (linkData l') \<and>
      (\<not> is_new \<longrightarrow> networkAddress (linkData l') = na \<and> dataTransportPort (linkData l') = tp)"
  using assms by (auto simp: checkSSRCInIncomingRTPPkt_def Let_def conflict_is_current_def upd_data_def setPrevConflict_def)

text \<open>
  The record of the previous conflict always holds the address the source has just moved to, so that the comparison that is to
  stop two senders with one identifier from flip-flopping never succeeds: every data packet of such a source is accepted,
  whatever sequence of addresses the packets come from, and the source follows the address of the last one.
\<close>

theorem colliding_sources_flip_flop:
  assumes "srcID l \<noteq> lo" "conflict_is_current (linkData l)" "xs \<noteq> []"
  shows "\<exists>l'. collision_run now mv lo xs l cs = Some (replicate (length xs) True, l') \<and>
    (networkAddress (linkData l'), dataTransportPort (linkData l')) = last xs"
proof -
  have "\<exists>l'. collision_run now mv lo xs l cs = Some (replicate (length xs) True, l') \<and>
      (xs \<noteq> [] \<longrightarrow> (networkAddress (linkData l'), dataTransportPort (linkData l')) = last xs)"
    using assms(1,2)
  proof (induction xs arbitrary: l)
    case (Cons x xs)
    obtain na tp where x: "x = (na, tp)" by (cases x)
    obtain l1 where l1: "checkSSRCInIncomingRTPPkt now mv lo False na tp l cs =
        Some \<lparr>accepted = True, newCollision = False, colLink = l1, colConflicts = cs\<rparr>" "srcID l1 = srcID l" "conflict_is_current (linkData l1)"
        "networkAddress (linkData l1) = na \<and> dataTransportPort (linkData l1) = tp"
      using collision_step [OF Cons.prems, of now mv False na tp cs] by blast
    obtain l2 where "collision_run now mv lo xs l1 cs = Some (replicate (length xs) True, l2)"
        "xs \<noteq> [] \<longrightarrow> (networkAddress (linkData l2), dataTransportPort (linkData l2)) = last xs"
      using Cons.IH [of l1] Cons.prems l1(2,3) by auto
    then show ?case using x l1 by (cases xs) auto
  qed simp
  then show ?thesis using assms(3) by simp
qed

theorem colliding_sources_flip_flop_witness:
  "\<exists>l' :: bool SourceData SyncSourceLink.
     collision_run time0 0 1 [(True, 5000), (False, 6000), (True, 5000)]
       \<lparr>srcID = 7, srcSender = False, linkPrev = None, linkNext = None, nextCollis = None, linkData = blank_source False\<rparr> [] =
     Some ([True, True, True], l') \<and> networkAddress (linkData l')"
proof -
  let ?l = "\<lparr>srcID = 7, srcSender = False, linkPrev = None, linkNext = None, nextCollis = None, linkData = blank_source False\<rparr>"
  have "srcID ?l \<noteq> 1" "conflict_is_current (linkData ?l)" by (simp_all add: conflict_is_current_def blank_source_def)
  from colliding_sources_flip_flop [OF this, of "[(True, 5000), (False, 6000), (True, 5000)]" time0 0 "[]"]
  show ?thesis by (auto simp: numeral_3_eq_3 simp del: collision_run.simps)
qed

lemma searchDataConflict_none:
  "searchDataConflict na tp cs = None \<longleftrightarrow> (\<forall>c\<in>set cs. (confAddress c, confDataPort c) \<noteq> (na, tp))"
  by (induction cs) auto

text \<open>
  A data packet that carries the local identifier and comes from an address that is not recorded as conflicting makes the check read a
  null pointer: the branch that would record a new collision of the local source is never reached.
\<close>

theorem own_collision_reads_null:
  "checkSSRCInIncomingRTPPkt now mv localSSRC is_new na tp l cs = None \<longleftrightarrow>
     srcID l = localSSRC \<and> (dataTransportPort (linkData l), networkAddress (linkData l)) \<noteq> (tp, na) \<and>
     (\<forall>c\<in>set cs. (confAddress c, confDataPort c) \<noteq> (na, tp))"
  unfolding searchDataConflict_none [symmetric]
  by (cases "searchDataConflict na tp cs") (auto simp: checkSSRCInIncomingRTPPkt_def Let_def)

theorem own_collision_reads_null_witness:
  "checkSSRCInIncomingRTPPkt time0 0 7 False True 5000
     \<lparr>srcID = 7, srcSender = False, linkPrev = None, linkNext = None, nextCollis = None, linkData = blank_source False\<rparr> [] = None"
  using own_collision_reads_null [of time0 0 7 False True 5000
     "\<lparr>srcID = 7, srcSender = False, linkPrev = None, linkNext = None, nextCollis = None, linkData = blank_source False\<rparr>" "[]"]
  by (simp add: blank_source_def)

end
