(* ===== verification/Rtcp_Send.thy ===== *)
theory Rtcp_Send
  imports Rtcp_Packet Srtcp_Context Collision
begin

text \<open>
  Sending RTCP: the part of \<^verbatim>\<open>src/src/control.cpp\<close> that builds and protects the packets a session sends, with the items of
  \<^verbatim>\<open>SDESItemsHolder\<close> (\<^verbatim>\<open>src/src/source.cpp\<close>) they carry. The compound packet of \<^verbatim>\<open>dispatchControlPacket\<close> with its report blocks
  and source description, the packet of \<^verbatim>\<open>dispatchBYE\<close>, the choice of the SRTCP context, and the timers. A write outside a buffer is \<^term>\<open>None\<close>.
  Lengths are natural numbers: every length that is used is at most the size of a buffer and fits into the 16 bits of the code.
\<close>

section \<open>Source description items\<close>

text \<open>The items of \<^verbatim>\<open>SDESItemsHolder\<close> by number; entry 0 holds the prefix of PRIV.\<close>

definition SDESItemTypeEND :: nat where "SDESItemTypeEND = 0"
definition SDESItemTypeCNAME :: nat where "SDESItemTypeCNAME = 1"
definition SDESItemTypeNAME :: nat where "SDESItemTypeNAME = 2"
definition SDESItemTypePRIV :: nat where "SDESItemTypePRIV = 8"
definition SDESItemTypeH323CADDR :: nat where "SDESItemTypeH323CADDR = 9"

type_synonym sdes_items = "byte list list"

definition getItem :: "sdes_items \<Rightarrow> nat \<Rightarrow> byte list" where
  "getItem items type =
     (if SDESItemTypeEND < type \<and> type \<le> SDESItemTypeH323CADDR then items ! type else items ! SDESItemTypeCNAME)"

definition setItem :: "nat \<Rightarrow> byte list \<Rightarrow> sdes_items \<Rightarrow> sdes_items" where
  "setItem type val items = (if SDESItemTypeEND < type \<and> type \<le> SDESItemTypeH323CADDR then items[type := val] else items)"

definition setPRIVPrefix :: "byte list \<Rightarrow> sdes_items \<Rightarrow> sdes_items" where
  "setPRIVPrefix val items = items[SDESItemTypeEND := val]"

definition getPRIVPrefix :: "sdes_items \<Rightarrow> byte list" where
  "getPRIVPrefix items = items ! SDESItemTypeEND"

definition firstSchedulable :: nat where "firstSchedulable = SDESItemTypeNAME"
definition lastSchedulable :: nat where "lastSchedulable = SDESItemTypePRIV"

definition nextSDESType :: "nat \<Rightarrow> nat" where
  "nextSDESType t = (let t = t + 1 in if t > lastSchedulable then firstSchedulable else t)"

function schedule_loop :: "sdes_items \<Rightarrow> nat \<Rightarrow> nat \<Rightarrow> nat" where
  "schedule_loop items type i =
     (if getItem items type = [] \<and> i < lastSchedulable - firstSchedulable
      then schedule_loop items (nextSDESType type) (i + 1) else type)"
  by pat_completeness auto
termination by (relation "measure (\<lambda>(_, _, i). lastSchedulable - firstSchedulable - i)") auto

declare schedule_loop.simps [simp del]

text \<open>The item to send, or END, and the type to start from the next time.\<close>

definition scheduleSDESItem :: "sdes_items \<Rightarrow> nat \<Rightarrow> nat \<times> nat" where
  "scheduleSDESItem items next =
     (let type = schedule_loop items next 0
      in (if getItem items type = [] then SDESItemTypeEND else type, nextSDESType type))"

section \<open>Writing a compound packet\<close>

text \<open>
  The part of a send buffer that has been written is a list; \<open>emit\<close> appends to it, and writing beyond the capacity of the buffer is
  \<^term>\<open>None\<close>. Fields of a header that are filled in later keep the bytes \<open>old\<close> of the buffer until then.
\<close>

definition emit :: "nat \<Rightarrow> byte list \<Rightarrow> byte list \<Rightarrow> byte list option" where
  "emit cap out bs = (if length out + length bs \<le> cap then Some (out @ bs) else None)"

definition set_count_length :: "nat \<Rightarrow> byte \<Rightarrow> u16 \<Rightarrow> byte list \<Rightarrow> byte list" where
  "set_count_length pos count len out =
     out[pos := (out ! pos AND 0xE0) OR (count AND 0x1F), pos + 2 := ucast (drop_bit 8 len), pos + 3 := ucast len]"

definition new_header :: "(nat \<Rightarrow> byte) \<Rightarrow> nat \<Rightarrow> byte \<Rightarrow> byte list" where
  "new_header old pos type = [0x80 OR (old pos AND 0x1F), type, old (pos + 2), old (pos + 3)]"

definition strlen :: "byte list \<Rightarrow> nat" where
  "strlen s = length (takeWhile (\<lambda>c. c \<noteq> 0) s)"

section \<open>Report blocks\<close>

definition report_block :: "timeval \<Rightarrow> u32 \<Rightarrow> 'na SourceData \<Rightarrow> byte list" where
  "report_block now ssrc d =
     (let (lsr, dlsr) =
        (case senderInfo d of
           None \<Rightarrow> (0, 0)
         | Some si \<Rightarrow> (push_bit 16 (getNTPTimestampInt si AND 0xFFFF) + drop_bit 16 (getNTPTimestampFrac si AND 0xFFFF0000),
                      timevalIntervalTo65536 (timersub now (lastRTCPSRTime d))))
      in be32 ssrc @ receiver_info (fractionLost d) (cumulativePacketLost d) (extendedMaxSeqNum d) (of_int \<lfloor>jitter d\<rfloor>) lsr dlsr)"

text \<open>\<open>clock j\<close> is the time of the \<open>j\<close>-th reading. The difference \<^verbatim>\<open>available - sizeof(RRBlock)\<close> is unsigned and may wrap.\<close>

function report_loop ::
  "(nat \<Rightarrow> timeval) \<Rightarrow> nat \<Rightarrow> u16 \<Rightarrow> 'na SourceData Membership \<Rightarrow> addr option \<Rightarrow> byte list \<Rightarrow> nat
   \<Rightarrow> (nat \<times> byte list \<times> 'na SourceData Membership) option" where
  "report_loop clock cap available m i out j =
     (case i of
        None \<Rightarrow> Some (j, out, m)
      | Some a \<Rightarrow>
          if length out < unat (ucast available - 24 :: u64) \<and> j < 31 then
            (case linkHeap m a of
               None \<Rightarrow> None
             | Some l \<Rightarrow>
                 let d = computeStats (linkData l);
                     m = m\<lparr>linkHeap := (linkHeap m)(a \<mapsto> l\<lparr>linkData := d\<rparr>)\<rparr>
                 in (case emit cap out (report_block (clock j) (srcID l) d) of
                       None \<Rightarrow> None
                     | Some out \<Rightarrow> report_loop clock cap available m (linkNext l) out (j + 1)))
          else Some (j, out, m))"
  by pat_completeness auto
termination by (relation "measure (\<lambda>(_, _, _, _, _, _, j). 31 - j)") auto

declare report_loop.simps [simp del]

definition packReportBlocks ::
  "(nat \<Rightarrow> timeval) \<Rightarrow> nat \<Rightarrow> u16 \<Rightarrow> 'na SourceData Membership \<Rightarrow> byte list
   \<Rightarrow> (nat \<times> byte list \<times> 'na SourceData Membership) option" where
  "packReportBlocks clock cap available m out = report_loop clock cap available m (srcFirst m) out 0"

lemma set_count_length_length [simp]: "length (set_count_length pos c n out) = length out"
  by (simp add: set_count_length_def)

lemma emit_length: "emit cap out bs = Some out' \<Longrightarrow> length out' = length out + length bs \<and> length out' \<le> cap"
  by (auto simp: emit_def split: if_splits)

lemma report_loop_length:
  "report_loop clock cap available m i out j = Some (k, out', m') \<Longrightarrow> length out \<le> length out'"
proof (induction clock cap available m i out j rule: report_loop.induct)
  case (1 clock cap available m i out j)
  then show ?case
    by (fastforce simp: report_loop.simps [of clock cap available m i out j] Let_def split: option.splits if_splits dest: emit_length)
qed

section \<open>The compound packet\<close>

record rtcp_config =
  pathMTU :: nat
  lowerHeadersSize :: nat
  ctlLocalSSRC :: u32
  appItems :: sdes_items

text \<open>Packets of reports follow one another as long as they are full and there is room.\<close>

function rr_loop ::
  "(nat \<Rightarrow> byte) \<Rightarrow> (nat \<Rightarrow> timeval) \<Rightarrow> nat \<Rightarrow> u16 \<Rightarrow> u32 \<Rightarrow> 'na SourceData Membership \<Rightarrow> nat \<Rightarrow> byte list
   \<Rightarrow> (byte list \<times> 'na SourceData Membership) option" where
  "rr_loop old clock cap available ssrc m pos out =
     (case packReportBlocks clock cap available m out of
        None \<Rightarrow> None
      | Some (blocks, out1, m) \<Rightarrow>
          let out1 = set_count_length pos (of_nat blocks) (of_nat ((length out1 - pos) div 4 - 1)) out1
          in if blocks = 31 \<and> length out1 < unat (ucast available - 32 :: u64) then
               (case emit cap out1 (new_header old (length out1) tRR @ be32 ssrc) of
                  None \<Rightarrow> None
                | Some out2 \<Rightarrow>
                    if length out2 < unat available then rr_loop old clock cap available ssrc m (length out1) out2
                    else Some (out2, m))
             else Some (out1, m))"
  by pat_completeness auto
termination
  by (relation "measure (\<lambda>(_, _, cap, _, _, _, _, out). cap - length out)")
     (auto simp: packReportBlocks_def new_header_def dest!: report_loop_length emit_length)


declare rr_loop.simps [simp del]

text \<open>The chunk with the CNAME and one more item, padded to a multiple of four; the length is that of the buffer, as in the code.\<close>

definition packSDES ::
  "(nat \<Rightarrow> byte) \<Rightarrow> nat \<Rightarrow> u32 \<Rightarrow> sdes_items \<Rightarrow> nat \<Rightarrow> byte list \<Rightarrow> (byte list \<times> nat) option" where
  "packSDES old cap ssrc items next out =
     do { let pos = length out;
          let cname = getItem items SDESItemTypeCNAME;
          out \<leftarrow> emit cap out ([0x81, tSDES, old (pos + 2), old (pos + 3)] @ be32 ssrc @
                 [of_nat SDESItemTypeCNAME, of_nat (length cname)]);
          out \<leftarrow> emit cap out cname;
          let (nexttype, next) = scheduleSDESItem items next;
          out \<leftarrow> (if SDESItemTypeCNAME < nexttype \<and> nexttype \<le> SDESItemTypeH323CADDR then
                   let content = getItem items nexttype; n = strlen content mod 256
                   in emit cap out ([of_nat nexttype, of_nat n] @ take n content)
                 else Some out);
          out \<leftarrow> emit cap out [of_nat SDESItemTypeEND];
          let padding = length out mod 4;
          out \<leftarrow> (if padding \<noteq> 0 then emit cap out (replicate (4 - padding) (of_nat SDESItemTypeEND)) else Some out);
          let len = (of_nat ((length out - pos - 1) div 4) :: u16);
          Some (out[pos + 2 := ucast (drop_bit 8 len), pos + 3 := ucast len], next) }"

record send_info =
  sendPacketCount :: u32
  sendOctetCount :: u32
  rtpClockRate :: u32
  initialTime :: timeval
  initialTimestamp :: u32

definition tdiv :: "int \<Rightarrow> int \<Rightarrow> int" where
  "tdiv a b = (if a < 0 then - (- a div b) else a div b)"

definition sr_timestamp :: "send_info \<Rightarrow> timeval \<Rightarrow> u32" where
  "sr_timestamp si now =
     (let tstamp = of_int (tv_usec now - tv_usec (initialTime si)) :: u32;
          tstamp = tstamp * (rtpClockRate si div 1000);
          tstamp = of_int (tdiv (sint tstamp) 1000);
          tstamp = tstamp + of_int ((tv_sec now - tv_sec (initialTime si)) * uint (rtpClockRate si))
      in tstamp + initialTimestamp si)"

definition sr_sender_info :: "(real \<Rightarrow> real) \<Rightarrow> send_info \<Rightarrow> timeval \<Rightarrow> byte list" where
  "sr_sender_info rnd si now =
     sender_info (of_int (tv_sec now) + NTP_EPOCH_OFFSET)
       (of_int \<lfloor>rnd (rnd (of_int (tv_usec now) * (2 ^ 32 - 1)) / 1000000)\<rfloor>)
       (sr_timestamp si now) (sendPacketCount si) (sendOctetCount si)"

record 'na CtlState =
  ctlMembers :: "'na SourceData Membership"
  nextScheduledSDESItem :: nat
  lastSendPacketCount :: u32
  ctrlSendCount :: u32
  rtcpAvgSize :: u16
  rtcpInitial :: bool

definition updateAvgRTCPSize :: "nat \<Rightarrow> nat \<Rightarrow> u16 \<Rightarrow> u16" where
  "updateAvgRTCPSize lower len avg = of_nat (15 * unat avg div 16 + (len + lower) div 16)"

text \<open>The compound packet: the first report, the report blocks, and the source description.\<close>

definition first_report :: "(real \<Rightarrow> real) \<Rightarrow> (nat \<Rightarrow> byte) \<Rightarrow> u32 \<Rightarrow> send_info \<Rightarrow> timeval \<Rightarrow> u32 \<Rightarrow> byte list" where
  "first_report rnd old ssrc si now lastCount =
     (if lastCount \<noteq> sendPacketCount si then new_header old 0 tSR @ be32 ssrc @ sr_sender_info rnd si now
      else new_header old 0 tRR @ be32 ssrc)"

definition available_for :: "rtcp_config \<Rightarrow> nat \<Rightarrow> u16" where
  "available_for cfg len =
     of_int (int (pathMTU cfg) - int (lowerHeadersSize cfg) - int len -
       (4 + 2 + int (length (getItem (appItems cfg) SDESItemTypeCNAME))) - 100)"

definition build_compound ::
  "(real \<Rightarrow> real) \<Rightarrow> (nat \<Rightarrow> byte) \<Rightarrow> (nat \<Rightarrow> timeval) \<Rightarrow> nat \<Rightarrow> rtcp_config \<Rightarrow> send_info \<Rightarrow> timeval \<Rightarrow> 'na CtlState
   \<Rightarrow> (byte list \<times> 'na CtlState) option" where
  "build_compound rnd old clock cap cfg si now st =
     do { out \<leftarrow> emit cap [] (first_report rnd old (ctlLocalSSRC cfg) si now (lastSendPacketCount st));
          (out, m) \<leftarrow> rr_loop old clock cap (available_for cfg (length out)) (ctlLocalSSRC cfg) (ctlMembers st) 0 out;
          (out, next) \<leftarrow> packSDES old cap (ctlLocalSSRC cfg) (appItems cfg) (nextScheduledSDESItem st) out;
          Some (out, st\<lparr>ctlMembers := m, nextScheduledSDESItem := next, rtcpInitial := False,
            lastSendPacketCount := sendPacketCount si\<rparr>) }"

section \<open>Sending\<close>

text \<open>The contexts for outgoing control packets, and what the code takes from outside: libraries and the contents of fresh memory.\<close>

record ('ak, 'hm) CtlCrypto =
  outCryptoContexts :: "('ak, 'hm) CryptoContextCtrl list"
  srtcpIndex :: u32
  ctlTfEnv :: tf_env

record ('ak, 'hm) ctl_env =
  ceAes :: "'ak aes_lib"
  ceHmac :: "'hm hmac_lib"
  ceMem :: "nat \<Rightarrow> byte"
  ceSl :: u32

fun write_ctl :: "('ak, 'hm) CryptoContextCtrl \<Rightarrow> ('ak, 'hm) CryptoContextCtrl list \<Rightarrow> ('ak, 'hm) CryptoContextCtrl list" where
  "write_ctl cc [] = []"
| "write_ctl cc (x # xs) = (if ctl_ssrcCtx x = ctl_ssrcCtx cc then cc # xs else x # write_ctl cc xs)"

definition select_ctl_out ::
  "('ak, 'hm) ctl_env \<Rightarrow> u32 \<Rightarrow> ('ak, 'hm) CtlCrypto \<Rightarrow> (('ak, 'hm) CryptoContextCtrl option \<times> ('ak, 'hm) CtlCrypto) option" where
  "select_ctl_out E ssrc k =
     (case getOutQueueCryptoContextCtrl ssrc (outCryptoContexts k) of
        Some pcc \<Rightarrow> Some (Some pcc, k)
      | None \<Rightarrow>
          (case getOutQueueCryptoContextCtrl 0 (outCryptoContexts k) of
             None \<Rightarrow> Some (None, k)
           | Some pcc \<Rightarrow>
               do { let pcc = newCryptoContextCtrlForSSRC (ceMem E) (ceSl E) pcc ssrc;
                    (env, pcc) \<leftarrow> deriveSrtcpKeys (ceAes E) (ceHmac E) (ctlTfEnv k) pcc;
                    Some (Some pcc, k\<lparr>ctlTfEnv := env, outCryptoContexts := setOutQueueCryptoContextCtrl pcc (outCryptoContexts k)\<rparr>) }))"

text \<open>
  The bytes that go to every destination: the packet, protected in its buffer when there is a context for its source. To whom they are
  sent and what the sockets return is not modelled.
\<close>

definition sendControlToDestinations ::
  "('ak, 'hm) ctl_env \<Rightarrow> byte list \<Rightarrow> nat \<Rightarrow> ('ak, 'hm) CtlCrypto \<Rightarrow> (byte list \<times> ('ak, 'hm) CtlCrypto) option" where
  "sendControlToDestinations E buffer len k =
     (if length buffer < 8 then None
      else do {
        (pcco, k) \<leftarrow> select_ctl_out E (getSSRC buffer) k;
        case pcco of
          None \<Rightarrow> Some (take len buffer, k)
        | Some pcc \<Rightarrow>
            do { (len, buffer, pcc, idx) \<leftarrow> protectCtrl (ceAes E) (ceHmac E) (srtcpIndex k) buffer len pcc;
                 Some (take len buffer, k\<lparr>srtcpIndex := idx, outCryptoContexts := write_ctl pcc (outCryptoContexts k)\<rparr>) } })"

definition dispatchControlPacket ::
  "(real \<Rightarrow> real) \<Rightarrow> (nat \<Rightarrow> byte) \<Rightarrow> (nat \<Rightarrow> timeval) \<Rightarrow> ('ak, 'hm) ctl_env \<Rightarrow> rtcp_config \<Rightarrow> send_info \<Rightarrow> timeval
   \<Rightarrow> 'na CtlState \<times> ('ak, 'hm) CtlCrypto \<Rightarrow> (byte list \<times> 'na CtlState \<times> ('ak, 'hm) CtlCrypto) option" where
  "dispatchControlPacket rnd old clock E cfg si now sk =
     (case sk of (st, k) \<Rightarrow>
        do { (out, st) \<leftarrow> build_compound rnd old clock (pathMTU cfg) cfg si now st;
             (sent, k) \<leftarrow> sendControlToDestinations E (out @ map old [length out..<pathMTU cfg]) (length out) k;
             Some (sent, st\<lparr>ctrlSendCount := ctrlSendCount st + 1,
               rtcpAvgSize := updateAvgRTCPSize (lowerHeadersSize cfg) (length out) (rtcpAvgSize st)\<rparr>, k) })"

section \<open>Leaving\<close>

text \<open>
  The packet that \<^verbatim>\<open>dispatchBYE\<close> sends, in a buffer of 500 bytes on the stack: an empty receiver report and a BYE with the reason. The padding
  bit of the second header is never set; \<open>stack\<close> is what the buffer held.
\<close>

definition BYE_BUFFER_LENGTH :: nat where "BYE_BUFFER_LENGTH = 500"

definition build_bye :: "(nat \<Rightarrow> byte) \<Rightarrow> u32 \<Rightarrow> byte list \<Rightarrow> byte list option" where
  "build_bye stack ssrc reason =
     do { let len1 = 8;
          out \<leftarrow> emit BYE_BUFFER_LENGTH [] (rtcp_header 0 tRR (of_nat (len1 div 4 - 1)) @ be32 ssrc);
          let n = strlen reason mod 256;
          out \<leftarrow> emit BYE_BUFFER_LENGTH out ([(stack len1 AND 0x20) OR 0x81, tBYE, stack (len1 + 2), stack (len1 + 3)] @ be32 ssrc @ [of_nat n]);
          out \<leftarrow> emit BYE_BUFFER_LENGTH out (take n reason);
          let padlen = 4 - (length out - len1) mod 4;
          out \<leftarrow> emit BYE_BUFFER_LENGTH out (replicate padlen 0);
          let len = (of_nat ((length out - len1) div 4 - 1) :: u16);
          Some (out[len1 + 8 := of_nat n + of_nat padlen, len1 + 2 := ucast (drop_bit 8 len), len1 + 3 := ucast len]) }"

section \<open>Timing\<close>

record reconsInfo =
  rtcpTp :: timeval
  rtcpTc :: timeval
  rtcpTn :: timeval
  rtcpPMembers :: u32

definition timeradd :: "timeval \<Rightarrow> timeval \<Rightarrow> timeval" where
  "timeradd a b =
     (let s = tv_sec a + tv_sec b; u = tv_usec a + tv_usec b
      in if u \<ge> 1000000 then \<lparr>tv_sec = s + 1, tv_usec = u - 1000000\<rparr> else \<lparr>tv_sec = s, tv_usec = u\<rparr>)"

definition timer_ge :: "timeval \<Rightarrow> timeval \<Rightarrow> bool" where
  "timer_ge a b \<longleftrightarrow> (if tv_sec a = tv_sec b then tv_usec a \<ge> tv_usec b else tv_sec a \<ge> tv_sec b)"

definition scaled_interval :: "u32 \<Rightarrow> u32 \<Rightarrow> timeval \<Rightarrow> timeval \<Rightarrow> timeval" where
  "scaled_interval members pmembers a b =
     (let t = of_int ((tv_sec a - tv_sec b) * 1000000 + (tv_usec a - tv_usec b)) * members div pmembers :: u32
      in \<lparr>tv_sec = uint (t div 1000000), tv_usec = uint (t mod 1000000)\<rparr>)"

text \<open>A division by zero members before is not reached: fewer members than none is impossible.\<close>

definition reverseReconsideration :: "u32 \<Rightarrow> reconsInfo \<Rightarrow> reconsInfo" where
  "reverseReconsideration members r =
     (let r = (if members < rtcpPMembers r then
                 let r = r\<lparr>rtcpTn := timeradd (rtcpTc r) (scaled_interval members (rtcpPMembers r) (rtcpTn r) (rtcpTc r))\<rparr>
                 in r\<lparr>rtcpTp := timeradd (rtcpTc r) (scaled_interval members (rtcpPMembers r) (rtcpTc r) (rtcpTp r))\<rparr>
               else r)
      in r\<lparr>rtcpPMembers := members\<rparr>)"

record interval_params =
  controlBwFract :: real
  sessionBandwidth :: real
  sendControlBwFract :: real
  recvControlBwFract :: real
  rtcpMinInterval :: u32

text \<open>
  The interval, with the arithmetic in single precision and the conversions to it rounded by \<open>rnd\<close> and that in double precision by \<open>dbl\<close>; \<open>rand\<close> is the random fraction. A conversion that does not fit into
  32 bits is \<^term>\<open>None\<close>. The shorter initial minimum is computed and not used.
\<close>

definition to_microtimeout :: "real \<Rightarrow> u32 option" where
  "to_microtimeout x = (if 0 \<le> \<lfloor>x\<rfloor> \<and> \<lfloor>x\<rfloor> < 2 ^ 32 then Some (of_int \<lfloor>x\<rfloor>) else None)"

definition computeRTCPInterval ::
  "(real \<Rightarrow> real) \<Rightarrow> (real \<Rightarrow> real) \<Rightarrow> real \<Rightarrow> interval_params \<Rightarrow> bool \<Rightarrow> bool \<Rightarrow> u32 \<Rightarrow> u32 \<Rightarrow> u16 \<Rightarrow> timeval option" where
  "computeRTCPInterval rnd dbl rand P weSent initial members senders avgSize =
     (let bwfract = rnd (controlBwFract P * rnd (sessionBandwidth P));
          (bwfract, participants) =
            (if 0 < senders \<and> rnd (real (unat senders)) < rnd (rnd (real (unat members)) * sendControlBwFract P) then
               (if weSent then (rnd (bwfract * sendControlBwFract P), senders)
                else (rnd (bwfract * recvControlBwFract P), members - senders))
             else (bwfract, members));
          min_interval = (if initial then rtcpMinInterval P div 2 else rtcpMinInterval P)
      in do {
        interval \<leftarrow> (if bwfract \<noteq> 0 then
            do { i \<leftarrow> to_microtimeout (rnd (rnd (rnd (real (unat (participants * ucast avgSize))) / bwfract) * 1000000));
                 Some (if i < rtcpMinInterval P then rtcpMinInterval P else i) }
          else Some 100000000);
        interval \<leftarrow> to_microtimeout (dbl (real (unat interval) * dbl (0.5 + rand)));
        Some \<lparr>tv_sec = uint (interval div 1000000), tv_usec = uint (interval mod 1000000)\<rparr> })"

definition timerReconsideration :: "timeval \<Rightarrow> timeval \<Rightarrow> reconsInfo \<Rightarrow> bool \<times> reconsInfo" where
  "timerReconsideration T now r =
     (let r = r\<lparr>rtcpTn := timeradd (rtcpTp r) T, rtcpTc := now\<rparr>
      in if timer_ge (rtcpTc r) (rtcpTn r) then (True, r\<lparr>rtcpTp := rtcpTc r\<rparr>) else (False, r))"

section \<open>Fairness of the schedule\<close>

text \<open>The types in the cyclic order of the schedule, as offsets from \<open>firstSchedulable\<close>.\<close>

definition cyc :: "nat \<Rightarrow> nat \<Rightarrow> nat" where
  "cyc t k = 2 + (t - 2 + k) mod 7"

lemmas sdes_defs = firstSchedulable_def lastSchedulable_def SDESItemTypeNAME_def SDESItemTypePRIV_def

lemma cyc_range: "cyc t k \<in> {2..8}"
proof -
  have "(t - 2 + k) mod 7 < 7" by simp
  then show ?thesis unfolding cyc_def by (auto simp del: mod_less_divisor)
qed

lemma cyc_0: "t \<in> {2..8} \<Longrightarrow> cyc t 0 = t"
  by (auto simp: cyc_def)

lemma next_cyc: "nextSDESType (cyc t k) = cyc t (Suc k)"
proof -
  have "2 + m mod 7 + 1 = 9 \<and> Suc m mod 7 = 0 \<or> 2 + m mod 7 + 1 \<le> 8 \<and> Suc m mod 7 = m mod 7 + 1" for m :: nat
    by (cases "m mod 7 = 6") (auto simp: mod_Suc)
  from this [of "t - 2 + k"] show ?thesis by (auto simp: nextSDESType_def cyc_def sdes_defs Let_def)
qed

lemma cyc_cyc: "t \<in> {2..8} \<Longrightarrow> cyc (cyc t j) k = cyc t (j + k)"
  by (simp add: cyc_def mod_simps add.assoc)

lemma schedule_loop_cyc:
  assumes "k \<le> 6" "getItem items (cyc t k) \<noteq> []" "\<forall>j<k. getItem items (cyc t j) = []" "i \<le> k"
  shows "schedule_loop items (cyc t i) i = cyc t k"
  using assms(4)
proof (induction "k - i" arbitrary: i)
  case 0
  then show ?case using assms(2) by (simp add: schedule_loop.simps)
next
  case (Suc n)
  then have "i < k" "n = k - Suc i" by simp_all
  then show ?case using Suc.hyps(1) [of "Suc i"] assms(1,3)
    by (simp add: schedule_loop.simps [of items _ i] next_cyc sdes_defs)
qed

text \<open>The types that successive reports send.\<close>

fun scheduled :: "sdes_items \<Rightarrow> nat \<Rightarrow> nat \<Rightarrow> nat list" where
  "scheduled items next 0 = []"
| "scheduled items next (Suc n) = (let (t, next) = scheduleSDESItem items next in t # scheduled items next n)"

lemma schedule_reaches:
  assumes "d \<le> 6" "t \<in> {2..8}" "getItem items (cyc t d) \<noteq> []" "d < n"
  shows "cyc t d \<in> set (scheduled items t n)"
  using assms
proof (induction d arbitrary: t n rule: less_induct)
  case (less d)
  define k where "k = (LEAST k. getItem items (cyc t k) \<noteq> [])"
  have k: "getItem items (cyc t k) \<noteq> []" "k \<le> d" unfolding k_def using less.prems(3) by (metis (mono_tags) LeastI, metis (mono_tags) Least_le)
  have nk: "\<forall>j<k. getItem items (cyc t j) = []" unfolding k_def using not_less_Least by blast
  have sc: "scheduleSDESItem items t = (cyc t k, cyc t (Suc k))"
    using schedule_loop_cyc [of k items t 0] k less.prems(1,2) nk
    by (simp add: scheduleSDESItem_def Let_def next_cyc cyc_0)
  obtain n' where n: "n = Suc n'" using less.prems(4) by (cases n) auto
  show ?case
  proof (cases "k = d")
    case True
    then show ?thesis using sc n by simp
  next
    case False
    then have lt: "d - Suc k < d" "Suc k + (d - Suc k) = d" using k(2) by simp_all
    have "cyc (cyc t (Suc k)) (d - Suc k) = cyc t d" using cyc_cyc [OF less.prems(2)] lt(2) by simp
    moreover have "cyc (cyc t (Suc k)) (d - Suc k) \<in> set (scheduled items (cyc t (Suc k)) n')"
      using less.prems calculation lt n cyc_range by (intro less.IH) auto
    ultimately show ?thesis using sc n by simp
  qed
qed

lemma schedule_loop_range: "t \<in> {2..8} \<Longrightarrow> schedule_loop items t i \<in> {2..8}"
proof (induction items t i rule: schedule_loop.induct)
  case (1 items t i)
  have "nextSDESType t \<in> {2..8}" using 1(2) by (auto simp: nextSDESType_def sdes_defs Let_def)
  with 1 show ?case by (simp add: schedule_loop.simps [of items t i])
qed

lemma scheduled_range: "t \<in> {2..8} \<Longrightarrow> set (scheduled items t n) \<subseteq> {SDESItemTypeEND} \<union> {2..8}"
proof (induction n arbitrary: t)
  case (Suc n)
  have r: "schedule_loop items t 0 \<in> {2..8}" by (rule schedule_loop_range [OF Suc.prems])
  then have "nextSDESType (schedule_loop items t 0) \<in> {2..8}" by (auto simp: nextSDESType_def sdes_defs Let_def)
  from Suc.IH [OF this] r show ?case by (auto simp: scheduleSDESItem_def Let_def)
qed simp

lemma schedule_fair:
  assumes "next \<in> {2..8}" "t \<in> {2..8}" "items ! t \<noteq> []"
  shows "t \<in> set (scheduled items next 7)"
proof -
  define d where "d = (t + 7 - next) mod 7"
  have "cyc next d = t"
  proof -
    have "next - 2 + (t + 7 - next) = (t - 2) + 7" using assms(1,2) by auto
    then have "(next - 2 + d) mod 7 = (t - 2) mod 7" unfolding d_def by (metis mod_add_right_eq mod_add_self2)
    then show ?thesis using assms(2) by (auto simp: cyc_def)
  qed
  moreover have "d < 7" by (simp add: d_def)
  moreover have "getItem items t = items ! t" using assms(2) by (auto simp: getItem_def SDESItemTypeEND_def SDESItemTypeH323CADDR_def)
  ultimately show ?thesis using schedule_reaches [of d "next" items 7] assms(1,3) by simp
qed

text \<open>
  C38: the schedule of the source description is fair among the items from NAME to PRIV (types 2 to 8): every one of them that the application
  has set is chosen by one of any seven successive reports, wherever the schedule stands. No other item is ever chosen, so that
  H323CADDR (type 9), which the application can set as well, is never sent.
\<close>

theorem sdes_schedule_fair:
  assumes "next \<in> {2..8}"
  shows "(\<forall>t. SDESItemTypeNAME \<le> t \<and> t \<le> SDESItemTypePRIV \<and> items ! t \<noteq> [] \<longrightarrow> t \<in> set (scheduled items next 7)) \<and>
    SDESItemTypeH323CADDR \<notin> set (scheduled items next n)"
proof (intro conjI allI impI)
  show "t \<in> set (scheduled items next 7)" if "SDESItemTypeNAME \<le> t \<and> t \<le> SDESItemTypePRIV \<and> items ! t \<noteq> []" for t
    using that schedule_fair [OF assms] by (simp add: SDESItemTypeNAME_def SDESItemTypePRIV_def)
  show "SDESItemTypeH323CADDR \<notin> set (scheduled items next n)"
    using scheduled_range [OF assms, of items n] by (auto simp: SDESItemTypeH323CADDR_def SDESItemTypeEND_def)
qed

theorem sdes_schedule_fair_witness:
  "8 \<in> set (scheduled [[], [65], [], [66], [], [], [], [], [67], [68]] 4 7) \<and> 9 \<notin> set (scheduled [[], [65], [], [66], [], [], [], [], [67], [68]] 4 100)"
proof -
  have "4 \<in> {2..8 :: nat}" by simp
  from sdes_schedule_fair [OF this, of "[[], [65], [], [66], [], [], [], [], [67], [68]]" 100] show ?thesis
    by (simp add: SDESItemTypeNAME_def SDESItemTypePRIV_def SDESItemTypeH323CADDR_def del: scheduled.simps)
qed


section \<open>The compound packet is valid\<close>

lemma length_report_block: "length (report_block now ssrc d) = 24"
  by (simp add: report_block_def receiver_info_fields(6) split: prod.split)

lemma unat_minus_u64: "n \<le> unat (a :: u16) \<Longrightarrow> n < 2 ^ 16 \<Longrightarrow> unat (ucast a - of_nat n :: u64) = unat a - n"
proof -
  assume n: "n \<le> unat a" "n < 2 ^ 16"
  then have "unat (of_nat n :: u64) = n" by (simp add: unsigned_of_nat take_bit_nat_eq_self)
  moreover have "unat (ucast a :: u64) = unat a" using unat_u16_less [of a] by (simp add: unsigned_ucast_eq take_bit_nat_eq_self)
  ultimately show ?thesis using n by (simp add: unat_sub word_le_nat_alt)
qed

lemma report_loop_ok:
  assumes "lpath linkNext (linkHeap m) i as" "24 \<le> unat A" "unat A \<le> cap" "length out < unat A" "j \<le> 31"
  shows "\<exists>k bs m'. report_loop clock cap A m i out j = Some (k, out @ bs, m') \<and> j \<le> k \<and> k \<le> 31 \<and> length bs = 24 * (k - j) \<and>
    length out + length bs < unat A \<and> table_same m m'"
  using assms(1,4,5)
proof (induction as arbitrary: m i out j)
  case Nil
  then show ?case by (simp add: report_loop.simps)
next
  case (Cons a as)
  obtain l where l: "i = Some a" "linkHeap m a = Some l" "lpath linkNext (linkHeap m) (linkNext l) as" using Cons.prems(1) by auto
  have u: "unat (ucast A - 24 :: u64) = unat A - 24" using unat_minus_u64 [of 24 A] assms(2) by simp
  show ?case
  proof (cases "length out < unat A - 24 \<and> j < 31")
    case True
    define m1 where "m1 = m\<lparr>linkHeap := (linkHeap m)(a \<mapsto> l\<lparr>linkData := computeStats (linkData l)\<rparr>)\<rparr>"
    define b where "b = report_block (clock j) (srcID l) (computeStats (linkData l))"
    have b: "length b = 24" by (simp add: b_def length_report_block)
    have t1: "table_same m m1" unfolding m1_def by (rule table_same_upd [OF l(2)]) (simp add: table_view_def)
    have e: "emit cap out b = Some (out @ b)" using True b assms(3) unfolding emit_def by auto
    have r: "report_loop clock cap A m i out j = report_loop clock cap A m1 (linkNext l) (out @ b) (j + 1)"
      unfolding report_loop.simps [of clock cap A m i out j] using l(1,2) u True e by (simp add: Let_def m1_def b_def)
    have "lpath linkNext (linkHeap m1) (linkNext l) as" using l(3) table_same_path [OF t1] by blast
    then obtain k bs m' where k: "report_loop clock cap A m1 (linkNext l) (out @ b) (j + 1) = Some (k, (out @ b) @ bs, m')"
      "j + 1 \<le> k" "k \<le> 31" "length bs = 24 * (k - (j + 1))" "length (out @ b) + length bs < unat A" "table_same m1 m'"
      using Cons.IH [of m1 "linkNext l" "out @ b" "j + 1"] True b by (auto simp: less_diff_conv)
    have "length (b @ bs) = 24 * (k - j)" using k(2,4) b by simp
    then show ?thesis using r k table_same_trans [OF t1 k(6)] b
      by (intro exI [of _ k] exI [of _ "b @ bs"] exI [of _ m']) simp
  next
    case False
    then show ?thesis using l(1) u Cons.prems(2,3) by (intro exI [of _ j] exI [of _ "[]"] exI [of _ m]) (auto simp: report_loop.simps)
  qed
qed

definition good_packet :: "byte list \<Rightarrow> bool" where
  "good_packet p \<longleftrightarrow> rtcp_packet p \<and> fh_version p = CCRTP_VERSION \<and> \<not> fh_padding p"

lemma header_byte:
  fixes x :: byte
  shows "drop_bit 6 ((x AND 0xE0) OR (c AND 0x1F)) = drop_bit 6 x" "bit ((x AND 0xE0) OR (c AND 0x1F)) 5 = bit x 5"
    "drop_bit 6 (0x80 OR (c AND 0x1F) :: byte) = 2" "\<not> bit (0x80 OR (c AND 0x1F) :: byte) 5" "drop_bit 6 (0x81 :: byte) = 2" "\<not> bit (0x81 :: byte) 5"
  unfolding word_eq_bits by (simp_all add: all_less_8 bit_simps)

lemma getLength_hdr:
  assumes "length p = 4 * n" "0 < n" "n \<le> 65536" "take 2 (drop 2 p) = be16 (of_nat (n - 1))"
  shows "rtcp_packet p"
proof -
  obtain k where k: "n = Suc k" "k < 65536" using assms(2,3) by (cases n) auto
  then have "unat (of_nat (n - 1) :: u16) = n - 1" by (simp add: unsigned_of_nat take_bit_nat_eq_self)
  then show ?thesis using assms by (simp add: rtcp_packet_def getLength_def fh_length_def)
qed

lemma list_prefix4_cases:
  obtains "xs = []" | a where "xs = [a]" | a b where "xs = [a, b]" | a b c where "xs = [a, b, c]" | a b c d r where "xs = a # b # c # d # r"
  by (metis list.exhaust)

lemma set_count_length_good:
  assumes "8 \<le> length hp" "length hp = 4 * n" "n \<le> 65536" "fh_version hp = CCRTP_VERSION" "\<not> fh_padding hp"
  shows "\<exists>hp'. set_count_length (length D) c (of_nat ((length (D @ hp) - length D) div 4 - 1)) (D @ hp) = D @ hp' \<and> good_packet hp' \<and>
    fh_type hp' = fh_type hp \<and> length hp' = length hp"
proof -
  define w where "w = (of_nat (n - 1) :: u16)"
  obtain x0 x1 x2 x3 r where hp: "hp = x0 # x1 # x2 # x3 # r" using assms(1) by (cases hp rule: list_prefix4_cases) auto
  define hp' where "hp' = ((x0 AND 0xE0) OR (c AND 0x1F)) # x1 # ucast (drop_bit 8 w) # ucast w # r"
  have w: "of_nat ((length (D @ hp) - length D) div 4 - 1) = w" using assms(2) by (simp add: w_def)
  have "set_count_length (length D) c w (D @ hp) = D @ hp'"
    by (simp add: set_count_length_def hp hp'_def list_update_append nth_append)
  moreover have "length hp' = length hp" by (simp add: hp hp'_def)
  moreover have "rtcp_packet hp'"
    by (rule getLength_hdr [of _ n]) (use assms(1-3) calculation(2) in \<open>auto simp: hp'_def w_def be16_def\<close>)
  moreover have "fh_version hp' = fh_version hp" "fh_padding hp' = fh_padding hp" "fh_type hp' = fh_type hp"
    unfolding fh_version_def fh_padding_def fh_type_def hp hp'_def nth_Cons_0 by (rule header_byte(1), rule header_byte(2), simp)
  ultimately show ?thesis using assms(4,5) unfolding w by (intro exI [of _ hp']) (simp add: good_packet_def)
qed


definition report_start :: "byte list \<Rightarrow> bool" where
  "report_start hp \<longleftrightarrow> fh_version hp = CCRTP_VERSION \<and> \<not> fh_padding hp \<and> 8 \<le> length hp \<and> 4 dvd length hp"

lemma new_header_start:
  "fh_version (new_header old pos t @ r) = CCRTP_VERSION" "\<not> fh_padding (new_header old pos t @ r)" "fh_type (new_header old pos t @ r) = t"
  "length (new_header old pos t) = 4"
  using header_byte(3,4) by (simp_all add: new_header_def fh_version_def fh_padding_def fh_type_def CCRTP_VERSION_def)

lemma fh_append: "8 \<le> length p \<Longrightarrow> fh_version (p @ r) = fh_version p \<and> fh_padding (p @ r) = fh_padding p \<and> fh_type (p @ r) = fh_type p"
  by (cases p rule: list_prefix4_cases) (simp_all add: fh_version_def fh_padding_def fh_type_def)

lemma rr_loop_ok:
  fixes m :: "'na SourceData Membership"
  assumes A: "32 \<le> unat A" "unat A \<le> cap"
  shows "mem_ok m \<Longrightarrow> out = concat ds @ hp \<Longrightarrow> pos = length (concat ds) \<Longrightarrow> report_start hp \<Longrightarrow> length out < unat A \<Longrightarrow>
    list_all good_packet ds \<Longrightarrow>
    \<exists>p ps m'. rr_loop old clock cap A ssrc m pos out = Some (concat (ds @ p # ps), m') \<and> list_all good_packet (ds @ p # ps) \<and>
      fh_type p = fh_type hp \<and> length (concat (ds @ p # ps)) < unat A \<and> mem_ok m'"
proof (induction "unat A - length out" arbitrary: m out ds hp pos rule: less_induct)
  case less
  have h: "fh_version hp = CCRTP_VERSION" "\<not> fh_padding hp" "8 \<le> length hp" "4 dvd length hp" using less.prems(4) by (simp_all add: report_start_def)
  obtain cs gs where "mem_inv m cs gs" using less.prems(1) by (auto simp: mem_ok_def)
  note lp = mem_invD(7) [OF this]
  obtain k bs m1 where k: "packReportBlocks clock cap A m out = Some (k, out @ bs, m1)" "k \<le> 31" "length bs = 24 * k"
    "length out + length bs < unat A" "table_same m m1"
    using report_loop_ok [OF lp, of A cap out 0 clock] A less.prems(5) by (auto simp: packReportBlocks_def)
  have ok1: "mem_ok m1" by (rule mem_ok_table(1) [OF less.prems(1) k(5)])
  define hb where "hb = hp @ bs"
  have hb: "8 \<le> length hb" "fh_version hb = CCRTP_VERSION" "\<not> fh_padding hb" "fh_type hb = fh_type hp" "4 dvd length hb"
    using h k(3) fh_append [OF h(3), of bs] by (simp_all add: hb_def)
  then obtain n where n: "length hb = 4 * n" by blast
  have "length hb < 65536" using k(4) unat_u16_less [of A] less.prems(2) by (simp add: hb_def)
  then have n': "n \<le> 65536" using n by simp
  obtain p where p: "set_count_length pos (of_nat k) (of_nat ((length (out @ bs) - pos) div 4 - 1)) (out @ bs) = concat ds @ p"
    "good_packet p" "fh_type p = fh_type hp" "length p = length hb"
    using set_count_length_good [OF hb(1) n n' hb(2,3), of "concat ds" "of_nat k"] less.prems(2,3) hb(4) by (auto simp: hb_def)
  have len: "length (concat ds @ p) = length out + length bs" using p(4) less.prems(2) by (simp add: hb_def)
  have u: "unat (ucast A - 32 :: u64) = unat A - 32" using unat_minus_u64 [of 32 A] A(1) by simp
  have gp: "list_all good_packet (ds @ [p])" using less.prems(6) p(2) by simp
  note unf = rr_loop.simps [of old clock cap A ssrc m pos out]
  show ?case
  proof (cases "k = 31 \<and> length (concat ds @ p) < unat A - 32")
    case True
    let ?hp = "new_header old (length (concat ds @ p)) tRR @ be32 ssrc"
    have lh: "length ?hp = 8" by (simp add: new_header_start(4))
    have lt: "length (concat ds @ p) + 8 < unat A" using True by auto
    have e: "emit cap (concat ds @ p) ?hp = Some ((concat ds @ p) @ ?hp)" using lh lt A(2) unfolding emit_def by simp
    have r: "rr_loop old clock cap A ssrc m pos out = rr_loop old clock cap A ssrc m1 (length (concat ds @ p)) ((concat ds @ p) @ ?hp)"
      unfolding unf k(1) option.case prod.case p(1) Let_def using True u e lt lh by simp
    have st: "report_start ?hp" using lh by (simp add: report_start_def new_header_start)
    have "\<exists>p' ps m'. rr_loop old clock cap A ssrc m1 (length (concat ds @ p)) ((concat ds @ p) @ ?hp) = Some (concat ((ds @ [p]) @ p' # ps), m') \<and>
      list_all good_packet ((ds @ [p]) @ p' # ps) \<and> fh_type p' = fh_type ?hp \<and> length (concat ((ds @ [p]) @ p' # ps)) < unat A \<and> mem_ok m'"
    proof (rule less.hyps [OF _ ok1 _ _ st _ gp])
      show "unat A - length ((concat ds @ p) @ ?hp) < unat A - length out" using len lh lt less.prems(5) unfolding length_append [of _ ?hp] by linarith
    qed (use lt lh in simp_all)
    then show ?thesis unfolding r using p(3) by (metis append.assoc append_Cons append_Nil)
  next
    case False
    then have "rr_loop old clock cap A ssrc m pos out = Some (concat ds @ p, m1)"
      unfolding unf k(1) option.case prod.case p(1) Let_def using u by auto
    then show ?thesis using gp p(3) ok1 k(4) len by (intro exI [of _ p] exI [of _ "[]"] exI [of _ m1]) simp
  qed
qed

definition sdes_extra :: "sdes_items \<Rightarrow> nat \<Rightarrow> byte list" where
  "sdes_extra items t = (if SDESItemTypeCNAME < t \<and> t \<le> SDESItemTypeH323CADDR then
      let content = getItem items t; n = strlen content mod 256 in [of_nat t, of_nat n] @ take n content else [])"

text \<open>The bytes of the packet: the CNAME, at most one further item, the end and the padding.\<close>

lemma packSDES_bytes:
  assumes "4 dvd length out" "length out + 16 + length (getItem items SDESItemTypeCNAME) + il \<le> cap" "cap \<le> 65536"
    and il: "\<forall>t\<in>{2..9}. strlen (getItem items t) \<le> il"
  shows "\<exists>p w z. packSDES old cap ssrc items next out = Some (out @ p, snd (scheduleSDESItem items next)) \<and> good_packet p \<and>
    length p \<le> 16 + length (getItem items SDESItemTypeCNAME) + il \<and> length w = 2 \<and>
    p = [0x81, tSDES] @ w @ be32 ssrc @ [of_nat SDESItemTypeCNAME, of_nat (length (getItem items SDESItemTypeCNAME))] @
      getItem items SDESItemTypeCNAME @ sdes_extra items (fst (scheduleSDESItem items next)) @ [0] @ z"
proof -
  let ?cn = "getItem items SDESItemTypeCNAME" and ?pos = "length out"
  define a where "a = be32 ssrc @ [of_nat SDESItemTypeCNAME, of_nat (length ?cn)] @ ?cn"
  obtain t nx where sc: "scheduleSDESItem items next = (t, nx)" by fastforce
  define it where "it = sdes_extra items t"
  note it_def = it_def [unfolded sdes_extra_def]
  have lit: "length it \<le> 2 + il"
  proof (cases "SDESItemTypeCNAME < t \<and> t \<le> SDESItemTypeH323CADDR")
    case True
    then have "t \<in> {2..9}" by (simp add: SDESItemTypeCNAME_def SDESItemTypeH323CADDR_def)
    then have "strlen (getItem items t) mod 256 \<le> il" using il mod_less_eq_dividend order_trans by blast
    then show ?thesis using True by (simp add: it_def Let_def)
  qed (auto simp: it_def)
  define q where "q = (?pos + 10 + length ?cn + length it + 1) mod 4"
  define z where "z = (if q = 0 then [] else replicate (4 - q) (0 :: byte))"
  have lz: "length z \<le> 3" "(10 + length ?cn + length it + 1 + length z) mod 4 = 0"
  proof -
    show "length z \<le> 3" by (auto simp: z_def)
    obtain c where c: "?pos = 4 * c" using assms(1) by blast
    have "q < 4" by (simp add: q_def)
    have "q = (10 + length ?cn + length it + 1) mod 4" unfolding q_def c by presburger
    then show "(10 + length ?cn + length it + 1 + length z) mod 4 = 0" unfolding z_def using \<open>q < 4\<close> by (cases "q = 0") (simp_all, presburger+)
  qed
  let ?tot = "10 + length ?cn + length it + 1 + length z"
  define p0 where "p0 = [0x81, tSDES, old (?pos + 2), old (?pos + 3)] @ a @ it @ [0] @ z"
  have lp0: "length p0 = ?tot" by (simp add: p0_def a_def)
  define w where "w = (of_nat ((?tot - 1) div 4) :: u16)"
  define p where "p = [0x81, tSDES, ucast (drop_bit 8 w), ucast w] @ a @ it @ [0] @ z"
  have lp: "length p = ?tot" by (simp add: p_def a_def)
  have room: "?pos + ?tot \<le> cap" using assms(2) lit lz(1) by simp
  have item: "(if SDESItemTypeCNAME < t \<and> t \<le> SDESItemTypeH323CADDR then
      let content = getItem items t; n = strlen content mod 256 in emit cap x ([of_nat t, of_nat n] @ take n content) else Some x) = Some (x @ it)"
    if "length x + length it \<le> cap" for x using that by (auto simp: it_def emit_def Let_def)
  have pad: "(if length x mod 4 \<noteq> 0 then emit cap x (replicate (4 - length x mod 4) (of_nat SDESItemTypeEND)) else Some x) = Some (x @ z)"
    if "length x mod 4 = q" "length x + length z \<le> cap" for x
    using that by (cases "q = 0") (simp_all add: z_def emit_def SDESItemTypeEND_def)
  have upd: "(out @ p0)[?pos + 2 := ucast (drop_bit 8 w), ?pos + 3 := ucast w] = out @ p"
    by (simp add: p0_def p_def list_update_append)
  let ?o1 = "out @ [0x81, tSDES, old (?pos + 2), old (?pos + 3)] @ be32 ssrc @ [of_nat SDESItemTypeCNAME, of_nat (length ?cn)]"
  have e: "emit cap out ([0x81, tSDES, old (?pos + 2), old (?pos + 3)] @ be32 ssrc @ [of_nat SDESItemTypeCNAME, of_nat (length ?cn)]) = Some ?o1"
    "emit cap ?o1 ?cn = Some (?o1 @ ?cn)" "emit cap ((?o1 @ ?cn) @ it) [of_nat SDESItemTypeEND] = Some (((?o1 @ ?cn) @ it) @ [0])"
    using room by (simp_all add: emit_def SDESItemTypeEND_def)
  have q: "length (((?o1 @ ?cn) @ it) @ [0]) mod 4 = q" by (simp add: q_def ac_simps)
  have p0: "(((?o1 @ ?cn) @ it) @ [0]) @ z = out @ p0" by (simp add: p0_def a_def)
  have i1: "length (?o1 @ ?cn) + length it \<le> cap" and i2: "length (((?o1 @ ?cn) @ it) @ [0]) + length z \<le> cap" using room by simp_all
  have "packSDES old cap ssrc items next out = Some (out @ p, nx)"
    unfolding packSDES_def Let_def [of ?pos] Let_def [of ?cn] e(1) Option.bind.simps e(2) sc Let_def [of "(t, nx)"] prod.case item [OF i1] e(3)
      Let_def [of "length _ mod 4"] pad [OF q i2] p0
    using upd lp0 by (simp add: Let_def w_def)
  moreover have "good_packet p"
  proof -
    obtain n where n: "?tot = 4 * n" using lz(2) by blast
    then have "(?tot - 1) div 4 = n - 1" by presburger
    then have w: "w = of_nat (n - 1)" by (simp only: w_def)
    have "rtcp_packet p"
      by (rule getLength_hdr [of _ n]) (use lp n room assms(3) in \<open>auto simp: p_def w be16_def\<close>)
    then show ?thesis using header_byte(5,6) by (simp add: good_packet_def fh_version_def fh_padding_def p_def CCRTP_VERSION_def)
  qed
  moreover have "length p \<le> 16 + length ?cn + il" unfolding lp using lit lz(1) by simp
  moreover have "p = [0x81, tSDES] @ [ucast (drop_bit 8 w), ucast w] @ be32 ssrc @ [of_nat SDESItemTypeCNAME, of_nat (length ?cn)] @ ?cn @ sdes_extra items t @ [0] @ z"
    by (simp add: p_def a_def it_def sdes_extra_def)
  ultimately show ?thesis using sc by (intro exI [of _ p] exI [of _ "[ucast (drop_bit 8 w), ucast w]"] exI [of _ z]) simp
qed

lemma packSDES_ok:
  assumes "4 dvd length out" "length out + 16 + length (getItem items SDESItemTypeCNAME) + il \<le> cap" "cap \<le> 65536"
    and "\<forall>t\<in>{2..9}. strlen (getItem items t) \<le> il"
  shows "\<exists>p next'. packSDES old cap ssrc items next out = Some (out @ p, next') \<and> good_packet p \<and>
    length p \<le> 16 + length (getItem items SDESItemTypeCNAME) + il"
  using packSDES_bytes [OF assms] by blast


lemma unat_available_for:
  assumes "lowerHeadersSize cfg + n + length (getItem (appItems cfg) SDESItemTypeCNAME) + 106 \<le> pathMTU cfg" "pathMTU cfg \<le> 65535"
  shows "unat (available_for cfg n) = pathMTU cfg - lowerHeadersSize cfg - n - (6 + length (getItem (appItems cfg) SDESItemTypeCNAME)) - 100"
proof -
  define k where "k = pathMTU cfg - lowerHeadersSize cfg - n - (6 + length (getItem (appItems cfg) SDESItemTypeCNAME)) - 100"
  have "int k = int (pathMTU cfg) - int (lowerHeadersSize cfg) - int n - (4 + 2 + int (length (getItem (appItems cfg) SDESItemTypeCNAME))) - 100"
    using assms(1) by (auto simp: k_def)
  then have "available_for cfg n = of_nat k" unfolding available_for_def by (metis of_int_of_nat_eq)
  moreover have "k < 65536" using assms(2) by (simp add: k_def)
  ultimately have "unat (available_for cfg n) = k" by (simp add: unsigned_of_nat take_bit_nat_eq_self)
  then show ?thesis by (simp only: k_def)
qed

lemma build_compound_ok:
  fixes st :: "'na CtlState"
  assumes ok: "mem_ok (ctlMembers st)"
    and mtu: "lowerHeadersSize cfg + length (getItem (appItems cfg) SDESItemTypeCNAME) + 200 \<le> pathMTU cfg" "pathMTU cfg \<le> 65535"
    and items: "\<forall>t\<in>{2..9}. length (getItem (appItems cfg) t) \<le> 99"
  shows "\<exists>out st'. build_compound rnd old clock (pathMTU cfg) cfg si now st = Some (out, st') \<and>
    length out + lowerHeadersSize cfg \<le> pathMTU cfg \<and> checkCompoundRTCPHeader (out @ rest) (length out) = Some True \<and>
    mem_ok (ctlMembers st') \<and> 8 \<le> length out"
proof -
  let ?cl = "length (getItem (appItems cfg) SDESItemTypeCNAME)" and ?cap = "pathMTU cfg" and ?ssrc = "ctlLocalSSRC cfg"
  define hp where "hp = first_report rnd old ?ssrc si now (lastSendPacketCount st)"
  have l28: "length hp = 28 \<or> length hp = 8" by (simp add: hp_def first_report_def new_header_start(4) sr_sender_info_def sender_info_def)
  have hp: "report_start hp" "fh_type hp \<in> {tSR, tRR}"
    using l28 by (auto simp: hp_def report_start_def first_report_def new_header_start)
  define A where "A = available_for cfg (length hp)"
  have uA: "unat A = ?cap - lowerHeadersSize cfg - length hp - (6 + ?cl) - 100"
    unfolding A_def by (rule unat_available_for) (use mtu l28 in auto)
  have A: "32 \<le> unat A" "unat A \<le> ?cap" "length hp < unat A" unfolding uA using mtu(1) l28 by auto
  have e: "emit ?cap [] hp = Some hp" using A by (simp add: emit_def)
  obtain p ps m' where rr: "rr_loop old clock ?cap A ?ssrc (ctlMembers st) 0 hp = Some (concat (p # ps), m')" "list_all good_packet (p # ps)"
    "fh_type p = fh_type hp" "length (concat (p # ps)) < unat A" "mem_ok m'"
    using rr_loop_ok [OF A(1,2) ok _ _ hp(1) A(3), of "[]" 0 old clock ?ssrc] by auto
  let ?o = "concat (p # ps)"
  have "4 dvd length x" if "good_packet x" for x using that by (auto simp: good_packet_def rtcp_packet_def getLength_def)
  then have "list_all good_packet xs \<Longrightarrow> 4 dvd length (concat xs)" for xs by (induction xs) auto
  then have d4: "4 dvd length ?o" using rr(2) by blast
  have il: "\<forall>t\<in>{2..9}. strlen (getItem (appItems cfg) t) \<le> 99"
    using items length_takeWhile_le order_trans unfolding strlen_def by blast
  have room: "length ?o + 16 + ?cl + 99 \<le> ?cap" using rr(4) unfolding uA using mtu(1) l28 by auto
  obtain s next' where s: "packSDES old ?cap ?ssrc (appItems cfg) (nextScheduledSDESItem st) ?o = Some (?o @ s, next')" "good_packet s"
    "length s \<le> 16 + ?cl + 99"
    using packSDES_ok [OF d4 room _ il, of old ?ssrc "nextScheduledSDESItem st"] mtu(2) by auto
  let ?out = "?o @ s"
  obtain st' where b: "build_compound rnd old clock ?cap cfg si now st = Some (?out, st')" "ctlMembers st' = m'"
    using e rr(1) s(1) by (simp add: build_compound_def hp_def [symmetric] A_def [symmetric])
  have good: "list_all good_packet (p # ps @ [s])" using rr(2) s(2) by simp
  then have cp: "compound (p # ps @ [s])" unfolding compound_def list_all_iff good_packet_def by (auto dest: in_set_butlastD)
  have lp: "4 \<le> length p" using rr(2) getLength_ge [of p] by (simp add: good_packet_def rtcp_packet_def)
  have first: "fh_version (?out @ rest) = fh_version p" "fh_padding (?out @ rest) = fh_padding p" "fh_type (?out @ rest) = fh_type p"
    using lp by (cases p rule: list_prefix4_cases; simp add: fh_version_def fh_padding_def fh_type_def)+
  have "\<exists>ps. compound ps \<and> concat ps = take (length ?out) (?out @ rest)" using cp by (intro exI [of _ "p # ps @ [s]"]) simp
  then have "checkCompoundRTCPHeader (?out @ rest) (length ?out) = Some True"
    using checkCompoundRTCPHeader_iff [of "length ?out" "?out @ rest"] lp first rr(2,3) hp(2) by (simp add: good_packet_def)
  moreover have "length ?out + lowerHeadersSize cfg \<le> ?cap" using s(3) rr(4) unfolding uA using l28 mtu(1) by auto
  moreover have "4 \<le> length s" using s(2) getLength_ge [of s] by (simp add: good_packet_def rtcp_packet_def)
  then have "8 \<le> length ?out" using lp by simp
  ultimately show ?thesis using b rr(5) by blast
qed

text \<open>
  C12: the compound packet that a report consists of is well formed. On a well-formed table of any number of sources, if the sizes of the
  headers, a CNAME and one report leave room in the MTU and no source description item is longer than 99 bytes, the packet is built without
  writing outside the buffer, fits into the MTU together with the lower headers, and the receiving side accepts its header.
\<close>

theorem build_compound_valid:
  fixes st :: "'na CtlState"
  assumes ok: "mem_ok (ctlMembers st)"
    and mtu: "lowerHeadersSize cfg + length (getItem (appItems cfg) SDESItemTypeCNAME) + 200 \<le> pathMTU cfg" "pathMTU cfg \<le> 65535"
    and items: "\<forall>t\<in>{2..9}. length (getItem (appItems cfg) t) \<le> 99"
  shows "\<exists>out st'. build_compound rnd old clock (pathMTU cfg) cfg si now st = Some (out, st') \<and>
    length out + lowerHeadersSize cfg \<le> pathMTU cfg \<and> checkCompoundRTCPHeader (out @ rest) (length out) = Some True \<and>
    mem_ok (ctlMembers st')"
  using build_compound_ok [OF ok mtu items, of rnd old clock si now rest] by blast

definition sample_cfg :: rtcp_config where
  "sample_cfg = \<lparr>pathMTU = 1500, lowerHeadersSize = 28, ctlLocalSSRC = 7, appItems = [[], [97, 64, 98], [110], [], [], [], [], [], [], []]\<rparr>"

definition sample_send :: send_info where
  "sample_send = \<lparr>sendPacketCount = 3, sendOctetCount = 480, rtpClockRate = 8000, initialTime = time0, initialTimestamp = 0\<rparr>"

definition sample_ctl :: "unit CtlState" where
  "sample_ctl = \<lparr>ctlMembers = newMembershipBookkeeping 11, nextScheduledSDESItem = 2, lastSendPacketCount = 0, ctrlSendCount = 0,
     rtcpAvgSize = 28, rtcpInitial = True\<rparr>"

theorem build_compound_valid_witness:
  "\<exists>out st'. build_compound id (\<lambda>_. 0) (\<lambda>_. time0) 1500 sample_cfg sample_send time0 sample_ctl = Some (out, st') \<and>
     checkCompoundRTCPHeader out (length out) = Some True"
proof -
  have "list_all (\<lambda>x. length x \<le> 99) (appItems sample_cfg)" "length (appItems sample_cfg) = 10" by (simp_all add: sample_cfg_def)
  then have it: "length (getItem (appItems sample_cfg) t) \<le> 99" for t
    by (simp add: getItem_def SDESItemTypeEND_def SDESItemTypeH323CADDR_def SDESItemTypeCNAME_def list_all_length)
  have ok: "mem_ok (ctlMembers sample_ctl)" by (simp add: sample_ctl_def mem_ok_new)
  have m: "lowerHeadersSize sample_cfg = 28" "pathMTU sample_cfg = 1500" by (simp_all add: sample_cfg_def)
  have "28 + length (getItem (appItems sample_cfg) SDESItemTypeCNAME) + 200 \<le> 1500" using it [of SDESItemTypeCNAME] by simp
  from build_compound_valid [OF ok, of sample_cfg id "\<lambda>_. 0" "\<lambda>_. time0" sample_send time0 "[]", unfolded m, OF this] it
  show ?thesis by auto
qed


section \<open>Timing\<close>

lemma timeradd_ge:
  assumes "0 \<le> tv_sec b" "0 \<le> tv_usec b" "tv_usec b < 1000000"
  shows "timer_ge (timeradd a b) a"
  using assms by (auto simp: timer_ge_def timeradd_def Let_def)

text \<open>
  When members leave, the time of the last report is moved the wrong way. Reverse reconsideration, which is to scale the
  distance of the last report in the past, adds that distance to the current time: afterwards the last report lies in the present or the future.
\<close>

theorem reverse_reconsideration_future:
  assumes "members < rtcpPMembers r"
  shows "timer_ge (rtcpTp (reverseReconsideration members r)) (rtcpTc (reverseReconsideration members r)) \<and>
    rtcpTc (reverseReconsideration members r) = rtcpTc r \<and> rtcpPMembers (reverseReconsideration members r) = members"
proof -
  have "0 \<le> tv_sec (scaled_interval m p a b)" "0 \<le> tv_usec (scaled_interval m p a b)" "tv_usec (scaled_interval m p a b) < 1000000" for m p a b
  proof -
    have "uint (x mod 1000000) < 1000000" for x :: u32 by (simp add: uint_mod)
    then show "0 \<le> tv_sec (scaled_interval m p a b)" "0 \<le> tv_usec (scaled_interval m p a b)" "tv_usec (scaled_interval m p a b) < 1000000"
      by (simp_all add: scaled_interval_def Let_def)
  qed
  from timeradd_ge [OF this] show ?thesis using assms by (simp add: reverseReconsideration_def Let_def)
qed

theorem reverse_reconsideration_future_witness:
  "let r = \<lparr>rtcpTp = \<lparr>tv_sec = 90, tv_usec = 0\<rparr>, rtcpTc = \<lparr>tv_sec = 100, tv_usec = 0\<rparr>, rtcpTn = \<lparr>tv_sec = 105, tv_usec = 0\<rparr>, rtcpPMembers = 10\<rparr>
   in timer_ge (rtcpTp (reverseReconsideration 5 r)) \<lparr>tv_sec = 100, tv_usec = 0\<rparr>"
  using reverse_reconsideration_future [of 5 "\<lparr>rtcpTp = \<lparr>tv_sec = 90, tv_usec = 0\<rparr>, rtcpTc = \<lparr>tv_sec = 100, tv_usec = 0\<rparr>,
    rtcpTn = \<lparr>tv_sec = 105, tv_usec = 0\<rparr>, rtcpPMembers = 10\<rparr>"] by (auto simp: Let_def)

lemma interval_ignores_initial:
  "computeRTCPInterval rnd dbl rand P weSent initial members senders avgSize = computeRTCPInterval rnd dbl rand P weSent initial' members senders avgSize"
  by (simp add: computeRTCPInterval_def)

end
