(* ===== verification/Dll.thy ===== *)
theory Dll
  imports Main
begin

text \<open>
  Doubly linked lists in a heap, as the packet queues of the library use them: the successor and predecessor
  fields are functions on addresses, and \<open>dll N P pr as nx\<close> says that the nodes \<open>as\<close> are linked in both directions, with \<open>pr\<close> before the
  first and \<open>nx\<close> behind the last of them. The lemmas are the effect of linking in and unlinking one node.
\<close>

section \<open>Segments\<close>

definition hd_or :: "'p list \<Rightarrow> 'p option \<Rightarrow> 'p option" where
  "hd_or as nx = (if as = [] then nx else Some (hd as))"

definition last_or :: "'p list \<Rightarrow> 'p option \<Rightarrow> 'p option" where
  "last_or as pr = (if as = [] then pr else Some (last as))"

lemma hd_or_simps [simp]: "hd_or [] nx = nx" "hd_or (a # as) nx = Some a" "hd_or (xs @ ys) nx = hd_or xs (hd_or ys nx)"
  by (auto simp: hd_or_def)

lemma last_or_simps [simp]: "last_or [] pr = pr" "last_or (as @ [a]) pr = Some a" "last_or (a # as) pr = last_or as (Some a)"
  "last_or (xs @ ys) pr = last_or ys (last_or xs pr)"
  by (auto simp: last_or_def)

fun dll :: "('p \<Rightarrow> 'p option) \<Rightarrow> ('p \<Rightarrow> 'p option) \<Rightarrow> 'p option \<Rightarrow> 'p list \<Rightarrow> 'p option \<Rightarrow> bool" where
  "dll N P pr [] nx \<longleftrightarrow> True"
| "dll N P pr (a # as) nx \<longleftrightarrow> P a = pr \<and> N a = hd_or as nx \<and> dll N P (Some a) as nx"

lemma dll_append: "dll N P pr (xs @ ys) nx \<longleftrightarrow> dll N P pr xs (hd_or ys nx) \<and> dll N P (last_or xs pr) ys nx"
  by (induction xs arbitrary: pr) auto

lemma dll_cong:
  "(\<And>a. a \<in> set as \<Longrightarrow> N a = N' a \<and> P a = P' a) \<Longrightarrow> dll N P pr as nx = dll N' P' pr as nx"
  by (induction as arbitrary: pr) auto

lemma dll_ends:
  "dll N P pr as nx \<Longrightarrow> as \<noteq> [] \<Longrightarrow> P (hd as) = pr" "dll N P pr as nx \<Longrightarrow> as \<noteq> [] \<Longrightarrow> N (last as) = nx"
  by (induction as arbitrary: pr) (auto split: if_splits)

section \<open>Linking in and out\<close>

lemma dll_set_next:
  "dll N P pr xs nx \<Longrightarrow> distinct xs \<Longrightarrow> (\<And>b. b \<in> set xs \<Longrightarrow> P' b = P b) \<Longrightarrow>
   (\<And>b. b \<in> set xs \<Longrightarrow> N' b = (if b = last xs then nx' else N b)) \<Longrightarrow> dll N' P' pr xs nx'"
proof (induction xs arbitrary: pr)
  case (Cons x xs)
  show ?case
  proof (cases "xs = []")
    case False
    then have "x \<noteq> last xs" using Cons.prems(2) by auto
    moreover have "dll N' P' (Some x) xs nx'"
      by (rule Cons.IH) (use Cons.prems False in auto)
    ultimately show ?thesis using Cons.prems(1) Cons.prems(3,4) [of x] False by (auto simp: hd_or_def)
  qed (use Cons.prems in auto)
qed simp

lemma dll_set_prev:
  "dll N P pr ys nx \<Longrightarrow> distinct ys \<Longrightarrow> (\<And>b. b \<in> set ys \<Longrightarrow> N' b = N b) \<Longrightarrow>
   (\<And>b. b \<in> set ys \<Longrightarrow> P' b = (if b = hd ys then pr' else P b)) \<Longrightarrow> dll N' P' pr' ys nx"
proof (cases ys)
  case (Cons y zs)
  assume a: "dll N P pr ys nx" "distinct ys" "\<And>b. b \<in> set ys \<Longrightarrow> N' b = N b"
    "\<And>b. b \<in> set ys \<Longrightarrow> P' b = (if b = hd ys then pr' else P b)"
  have "dll N' P' (Some y) zs nx = dll N P (Some y) zs nx"
    by (rule dll_cong) (use a Cons in auto)
  then show ?thesis using a(1) a(3,4) [of y] Cons by simp
qed simp

lemma dll_insert:
  assumes "dll N P pr (xs @ ys) nx" "distinct (xs @ ys)" "a \<notin> set (xs @ ys)"
    and "N' a = hd_or ys nx" "P' a = last_or xs pr"
    and "\<And>b. b \<in> set (xs @ ys) \<Longrightarrow> N' b = (if xs \<noteq> [] \<and> b = last xs then Some a else N b)"
    and "\<And>b. b \<in> set (xs @ ys) \<Longrightarrow> P' b = (if ys \<noteq> [] \<and> b = hd ys then Some a else P b)"
  shows "dll N' P' pr (xs @ a # ys) nx"
proof -
  have d: "dll N P pr xs (hd_or ys nx)" "dll N P (last_or xs pr) ys nx" using assms(1) by (simp_all add: dll_append)
  have nh: "b \<noteq> hd ys" if "b \<in> set xs" "ys \<noteq> []" for b using assms(2) that by (metis disjoint_iff distinct_append hd_in_set)
  have nl: "b \<noteq> last xs" if "b \<in> set ys" "xs \<noteq> []" for b using assms(2) that by (metis disjoint_iff distinct_append last_in_set)
  have "dll N' P' pr xs (Some a)"
    by (rule dll_set_next [OF d(1)]) (use assms(2,6,7) nh in \<open>auto split: if_splits\<close>)
  moreover have "dll N' P' (Some a) ys nx"
    by (rule dll_set_prev [OF d(2)]) (use assms(2,6,7) nl in \<open>auto split: if_splits\<close>)
  ultimately show ?thesis using assms(4,5) by (simp add: dll_append)
qed

lemma dll_remove:
  assumes "dll N P pr (xs @ a # ys) nx" "distinct (xs @ a # ys)"
    and "\<And>b. b \<in> set (xs @ ys) \<Longrightarrow> N' b = (if xs \<noteq> [] \<and> b = last xs then hd_or ys nx else N b)"
    and "\<And>b. b \<in> set (xs @ ys) \<Longrightarrow> P' b = (if ys \<noteq> [] \<and> b = hd ys then last_or xs pr else P b)"
  shows "dll N' P' pr (xs @ ys) nx"
proof -
  have d: "dll N P pr xs (Some a)" "dll N P (Some a) ys nx" using assms(1) by (simp_all add: dll_append)
  have dis: "distinct (xs @ ys)" using assms(2) by auto
  have nh: "b \<noteq> hd ys" if "b \<in> set xs" "ys \<noteq> []" for b using dis that by (metis disjoint_iff distinct_append hd_in_set)
  have nl: "b \<noteq> last xs" if "b \<in> set ys" "xs \<noteq> []" for b using dis that by (metis disjoint_iff distinct_append last_in_set)
  have "dll N' P' pr xs (hd_or ys nx)"
    by (rule dll_set_next [OF d(1)]) (use assms(2-4) nh in \<open>auto split: if_splits\<close>)
  moreover have "dll N' P' (last_or xs pr) ys nx"
    by (rule dll_set_prev [OF d(2)]) (use assms(2-4) nl in \<open>auto split: if_splits\<close>)
  ultimately show ?thesis by (simp add: dll_append)
qed

end
