(* ===== verification/Packet_Queue.thy ===== *)
theory Packet_Queue
  imports Dll Reception
begin

text \<open>
  The queue of received packets, \<^verbatim>\<open>insertRecvPacket\<close>, \<^verbatim>\<open>getWaiting\<close>, \<^verbatim>\<open>getData\<close>, \<^verbatim>\<open>purgeIncomingQueue\<close> and the
  queries of \<^verbatim>\<open>src/src/incqueue.cpp\<close>. Every packet link is in two doubly linked lists, one of all the packets and one
  of the packets of its source, and the links live in a heap, so that what is freed and what still points
  there can be told. The invariant says that both kinds of list are well linked, that the list of a source is the part of the
  global list with its packets, and that it is ordered by sequence number. The locks are left out: the
  operations are atomic steps. The argument \<open>delayed\<close> is the virtual \<^verbatim>\<open>end2EndDelayed\<close>. A source that a query names is a
  link of this queue, the case in which \<^verbatim>\<open>isMine\<close> holds; \<^verbatim>\<open>onExpireRecv\<close>, the notification about a packet that is discarded, is a
  virtual function with an empty body and is left out.
\<close>

section \<open>State\<close>

record PktLink =
  lpacket :: IncomingRTPPkt
  psource :: addr
  pprev :: "addr option"
  pnext :: "addr option"
  psrcPrev :: "addr option"
  psrcNext :: "addr option"
  receptionTime :: timeval
  shiftedTimestamp :: u32

record 'na PktQueue =
  qmembers :: "'na SourceData Membership"
  pktHeap :: "addr \<rightharpoonup> PktLink"
  nextPkt :: addr
  recvFirst :: "addr option"
  recvLast :: "addr option"

definition pkt_at :: "'na PktQueue \<Rightarrow> addr option \<Rightarrow> PktLink option" where
  "pkt_at q p = do { a \<leftarrow> p; pktHeap q a }"

definition upd_pkt :: "addr option \<Rightarrow> (PktLink \<Rightarrow> PktLink) \<Rightarrow> 'na PktQueue \<Rightarrow> 'na PktQueue option" where
  "upd_pkt p f q = do { a \<leftarrow> p; l \<leftarrow> pktHeap q a; Some (q\<lparr>pktHeap := (pktHeap q)(a \<mapsto> f l)\<rparr>) }"

definition src_at :: "'na PktQueue \<Rightarrow> addr \<Rightarrow> 'na SourceData option" where
  "src_at q s = map_option linkData (linkHeap (qmembers q) s)"

definition upd_src :: "addr \<Rightarrow> ('na SourceData \<Rightarrow> 'na SourceData) \<Rightarrow> 'na PktQueue \<Rightarrow> 'na PktQueue option" where
  "upd_src s f q =
     do { m \<leftarrow> upd_link (Some s) (\<lambda>l. l\<lparr>linkData := f (linkData l)\<rparr>) (qmembers q); Some (q\<lparr>qmembers := m\<rparr>) }"

definition new_pkt :: "IncomingRTPPkt \<Rightarrow> addr \<Rightarrow> timeval \<Rightarrow> u32 \<Rightarrow> 'na PktQueue \<Rightarrow> addr \<times> 'na PktQueue" where
  "new_pkt pkt s t ts q =
     (nextPkt q, q\<lparr>pktHeap := (pktHeap q)(nextPkt q \<mapsto>
        \<lparr>lpacket = pkt, psource = s, pprev = None, pnext = None, psrcPrev = None, psrcNext = None,
         receptionTime = t, shiftedTimestamp = ts\<rparr>), nextPkt := nextPkt q + 1\<rparr>)"

definition free_pkt :: "addr \<Rightarrow> 'na PktQueue \<Rightarrow> 'na PktQueue" where
  "free_pkt a q = q\<lparr>pktHeap := (pktHeap q)(a := None)\<rparr>"

section \<open>Insertion\<close>

partial_function (option) find_place :: "(addr \<rightharpoonup> PktLink) \<Rightarrow> u16 \<Rightarrow> addr option \<Rightarrow> (bool \<times> addr option) option" where
  "find_place h sq plink =
     (case plink of
        None \<Rightarrow> Some (False, None)
      | Some b \<Rightarrow>
          (case h b of
             None \<Rightarrow> None
           | Some l \<Rightarrow>
               if sq < getSeqNum (lpacket l) then
                 (if sq = getSeqNum (lpacket l) then Some (True, Some b) else find_place h sq (psrcPrev l))
               else Some (False, Some b)))"

text \<open>Before the first packet of the source.\<close>

definition insert_front :: "addr \<Rightarrow> addr \<Rightarrow> 'na PktQueue \<Rightarrow> 'na PktQueue option" where
  "insert_front a s q =
     do { d \<leftarrow> src_at q s;
          let sf = pktFirst d;
          q \<leftarrow> upd_pkt sf (\<lambda>l. l\<lparr>psrcPrev := Some a\<rparr>) q;
          q \<leftarrow> upd_pkt (Some a) (\<lambda>l. l\<lparr>psrcNext := sf\<rparr>) q;
          f \<leftarrow> pkt_at q sf;
          let prevFirst = pprev f;
          q \<leftarrow> (if prevFirst \<noteq> None then
                  do { q \<leftarrow> upd_pkt prevFirst (\<lambda>l. l\<lparr>pnext := Some a\<rparr>) q;
                       upd_pkt (Some a) (\<lambda>l. l\<lparr>pprev := prevFirst\<rparr>) q }
                else Some q);
          q \<leftarrow> upd_pkt sf (\<lambda>l. l\<lparr>pprev := Some a\<rparr>) q;
          q \<leftarrow> upd_pkt (Some a) (\<lambda>l. l\<lparr>pnext := sf\<rparr>) q;
          upd_src s (\<lambda>d. d\<lparr>pktFirst := Some a\<rparr>) q }"

text \<open>Behind the packet at \<open>b\<close>, in the middle of the list of the source.\<close>

definition insert_middle :: "addr \<Rightarrow> addr \<Rightarrow> 'na PktQueue \<Rightarrow> 'na PktQueue option" where
  "insert_middle a b q =
     do { l \<leftarrow> pktHeap q b;
          let sn = psrcNext l;
          q \<leftarrow> upd_pkt sn (\<lambda>l. l\<lparr>psrcPrev := Some a\<rparr>) q;
          q \<leftarrow> upd_pkt (Some a) (\<lambda>l. l\<lparr>psrcNext := sn\<rparr>) q;
          n \<leftarrow> pkt_at q sn;
          q \<leftarrow> upd_pkt (pprev n) (\<lambda>l. l\<lparr>pnext := Some a\<rparr>) q;
          n \<leftarrow> pkt_at q sn;
          q \<leftarrow> upd_pkt (Some a) (\<lambda>l. l\<lparr>pprev := pprev n\<rparr>) q;
          q \<leftarrow> upd_pkt sn (\<lambda>l. l\<lparr>pprev := Some a\<rparr>) q;
          q \<leftarrow> upd_pkt (Some a) (\<lambda>l. l\<lparr>pnext := sn\<rparr>) q;
          q \<leftarrow> upd_pkt (Some b) (\<lambda>l. l\<lparr>psrcNext := Some a\<rparr>) q;
          upd_pkt (Some a) (\<lambda>l. l\<lparr>psrcPrev := Some b\<rparr>) q }"

definition insert_only :: "addr \<Rightarrow> addr \<Rightarrow> 'na PktQueue \<Rightarrow> 'na PktQueue option" where
  "insert_only a s q =
     do { q \<leftarrow> upd_src s (\<lambda>d. d\<lparr>pktLast := Some a, pktFirst := Some a\<rparr>) q;
          q \<leftarrow> (if recvLast q \<noteq> None then
                  do { q \<leftarrow> upd_pkt (recvLast q) (\<lambda>l. l\<lparr>pnext := Some a\<rparr>) q;
                       upd_pkt (Some a) (\<lambda>l. l\<lparr>pprev := recvLast q\<rparr>) q }
                else Some q);
          let q = q\<lparr>recvLast := Some a\<rparr>;
          Some (if recvFirst q = None then q\<lparr>recvFirst := Some a\<rparr> else q) }"

definition insert_last :: "addr \<Rightarrow> addr \<Rightarrow> addr option \<Rightarrow> 'na PktQueue \<Rightarrow> 'na PktQueue option" where
  "insert_last a s plink q =
     do { q \<leftarrow> upd_pkt plink (\<lambda>l. l\<lparr>psrcNext := Some a\<rparr>) q;
          q \<leftarrow> upd_pkt (Some a) (\<lambda>l. l\<lparr>psrcPrev := plink\<rparr>) q;
          q \<leftarrow> upd_src s (\<lambda>d. d\<lparr>pktLast := Some a\<rparr>) q;
          q \<leftarrow> upd_pkt (recvLast q) (\<lambda>l. l\<lparr>pnext := Some a\<rparr>) q;
          q \<leftarrow> upd_pkt (Some a) (\<lambda>l. l\<lparr>pprev := recvLast q\<rparr>) q;
          Some (q\<lparr>recvLast := Some a\<rparr>) }"

definition insertRecvPacket :: "addr \<Rightarrow> 'na PktQueue \<Rightarrow> (bool \<times> 'na PktQueue) option" where
  "insertRecvPacket a q =
     do { pl \<leftarrow> pktHeap q a;
          let s = psource pl;
          let sq = getSeqNum (lpacket pl);
          d \<leftarrow> src_at q s;
          let plink = pktLast d;
          (if plink = None then do { q \<leftarrow> insert_only a s q; Some (True, q) }
           else do {
             l \<leftarrow> pkt_at q plink;
             if sq < getSeqNum (lpacket l) then
               do { (dup, pos) \<leftarrow> find_place (pktHeap q) sq plink;
                    if dup then Some (False, free_pkt a q)
                    else case pos of
                      None \<Rightarrow> do { q \<leftarrow> insert_front a s q; Some (True, q) }
                    | Some b \<Rightarrow> do { q \<leftarrow> insert_middle a b q; Some (True, q) } }
             else if sq = getSeqNum (lpacket l) then Some (False, free_pkt a q)
             else do { q \<leftarrow> insert_last a s plink q; Some (True, q) } }) }"

section \<open>Extraction\<close>

definition isWaiting :: "addr option \<Rightarrow> 'na PktQueue \<Rightarrow> bool option" where
  "isWaiting src q =
     (case src of
        None \<Rightarrow> Some (recvFirst q \<noteq> None)
      | Some s \<Rightarrow> do { d \<leftarrow> src_at q s; Some (pktFirst d \<noteq> None) })"

definition getFirstTimestamp :: "addr option \<Rightarrow> 'na PktQueue \<Rightarrow> u32 option" where
  "getFirstTimestamp src q =
     do { p \<leftarrow> (case src of None \<Rightarrow> Some (recvFirst q) | Some s \<Rightarrow> map_option pktFirst (src_at q s));
          if p \<noteq> None then map_option shiftedTimestamp (pkt_at q p) else Some 0 }"

text \<open>How many packets from \<open>p\<close> on along the links \<open>nx\<close> are older than \<open>ts\<close>, or delayed.\<close>

partial_function (option) count_old ::
  "(PktLink \<Rightarrow> addr option) \<Rightarrow> (PktLink \<Rightarrow> bool) \<Rightarrow> (addr \<rightharpoonup> PktLink) \<Rightarrow> u32 \<Rightarrow> addr option \<Rightarrow> nat option" where
  "count_old nx delayed h ts p =
     (case p of
        None \<Rightarrow> Some 0
      | Some a \<Rightarrow>
          (case h a of
             None \<Rightarrow> None
           | Some l \<Rightarrow>
               if shiftedTimestamp l < ts \<or> delayed l
               then do { n \<leftarrow> count_old nx delayed h ts (nx l); Some (Suc n) } else Some 0))"

fun drop_src :: "addr \<Rightarrow> nat \<Rightarrow> bool \<Rightarrow> 'na PktQueue \<Rightarrow> (bool \<times> 'na PktQueue) option" where
  "drop_src s 0 nonempty q = Some (nonempty, q)"
| "drop_src s (Suc n) nonempty q =
     do { d \<leftarrow> src_at q s;
          a \<leftarrow> pktFirst d;
          l \<leftarrow> pktHeap q a;
          q \<leftarrow> upd_src s (\<lambda>d. d\<lparr>pktFirst := psrcNext l\<rparr>) q;
          q \<leftarrow> (if pprev l \<noteq> None then upd_pkt (pprev l) (\<lambda>m. m\<lparr>pnext := pnext l\<rparr>) q else Some q);
          q \<leftarrow> (if pnext l \<noteq> None then upd_pkt (pnext l) (\<lambda>m. m\<lparr>pprev := pprev l\<rparr>) q else Some q);
          drop_src s n (pprev l \<noteq> None \<or> pnext l \<noteq> None) (free_pkt a q) }"

definition getWaiting_src :: "(PktLink \<Rightarrow> bool) \<Rightarrow> u32 \<Rightarrow> addr \<Rightarrow> 'na PktQueue \<Rightarrow> (addr option \<times> 'na PktQueue) option" where
  "getWaiting_src delayed ts s q =
     do { d \<leftarrow> src_at q s;
          if pktFirst d = None then Some (None, q)
          else do {
            nold \<leftarrow> count_old psrcNext delayed (pktHeap q) ts (pktFirst d);
            (nonempty, q) \<leftarrow> drop_src s nold False q;
            d \<leftarrow> src_at q s;
            case pktFirst d of
              None \<Rightarrow>
                do { q \<leftarrow> upd_src s (\<lambda>d. d\<lparr>pktLast := None\<rparr>) q;
                     Some (None, if \<not> nonempty then q\<lparr>recvFirst := None, recvLast := None\<rparr> else q) }
            | Some r \<Rightarrow>
                do { l \<leftarrow> pktHeap q r;
                     if shiftedTimestamp l > ts then
                       do { q \<leftarrow> upd_pkt (Some r) (\<lambda>l. l\<lparr>psrcPrev := None\<rparr>) q; Some (None, q) }
                     else do {
                       q \<leftarrow> (if pprev l \<noteq> None then upd_pkt (pprev l) (\<lambda>m. m\<lparr>pnext := pnext l\<rparr>) q
                             else Some (q\<lparr>recvFirst := pnext l\<rparr>));
                       q \<leftarrow> (if pnext l \<noteq> None then upd_pkt (pnext l) (\<lambda>m. m\<lparr>pprev := pprev l\<rparr>) q
                             else Some (q\<lparr>recvLast := pprev l\<rparr>));
                       l \<leftarrow> pktHeap q r;
                       q \<leftarrow> upd_src s (\<lambda>d. d\<lparr>pktFirst := psrcNext l\<rparr>) q;
                       q \<leftarrow> (if psrcNext l \<noteq> None then upd_pkt (psrcNext l) (\<lambda>m. m\<lparr>pprev := None\<rparr>) q
                             else upd_src s (\<lambda>d. d\<lparr>pktLast := None\<rparr>) q);
                       Some (Some r, q) } } } }"

text \<open>Takes the first packet of a source, with the link \<open>l\<close>, out of the list of its source.\<close>

definition unlink_first :: "PktLink \<Rightarrow> 'na PktQueue \<Rightarrow> 'na PktQueue option" where
  "unlink_first l q =
     do { q \<leftarrow> upd_src (psource l) (\<lambda>d. d\<lparr>pktFirst := psrcNext l\<rparr>) q;
          (if psrcNext l \<noteq> None then upd_pkt (psrcNext l) (\<lambda>m. m\<lparr>psrcPrev := None\<rparr>) q
           else upd_src (psource l) (\<lambda>d. d\<lparr>pktLast := None\<rparr>) q) }"

fun drop_any :: "nat \<Rightarrow> 'na PktQueue \<Rightarrow> 'na PktQueue option" where
  "drop_any 0 q = Some q"
| "drop_any (Suc n) q =
     do { a \<leftarrow> recvFirst q;
          l \<leftarrow> pktHeap q a;
          let q = q\<lparr>recvFirst := pnext l\<rparr>;
          q \<leftarrow> unlink_first l q;
          drop_any n (free_pkt a q) }"

definition getWaiting_any :: "(PktLink \<Rightarrow> bool) \<Rightarrow> u32 \<Rightarrow> 'na PktQueue \<Rightarrow> (addr option \<times> 'na PktQueue) option" where
  "getWaiting_any delayed ts q =
     do { nold \<leftarrow> count_old pnext delayed (pktHeap q) ts (recvFirst q);
          q \<leftarrow> drop_any nold q;
          case recvFirst q of
            None \<Rightarrow> Some (None, q\<lparr>recvLast := None\<rparr>)
          | Some r \<Rightarrow>
              do { l \<leftarrow> pktHeap q r;
                   if shiftedTimestamp l > ts then
                     do { q \<leftarrow> upd_pkt (Some r) (\<lambda>l. l\<lparr>pprev := None\<rparr>) q; Some (None, q) }
                   else do {
                     let q = q\<lparr>recvFirst := pnext l\<rparr>;
                     q \<leftarrow> (if pnext l \<noteq> None then upd_pkt (pnext l) (\<lambda>m. m\<lparr>pprev := None\<rparr>) q
                           else Some (q\<lparr>recvLast := None\<rparr>));
                     l \<leftarrow> pktHeap q r;
                     q \<leftarrow> unlink_first l q;
                     Some (Some r, q) } } }"

definition getWaiting :: "(PktLink \<Rightarrow> bool) \<Rightarrow> u32 \<Rightarrow> addr option \<Rightarrow> 'na PktQueue \<Rightarrow> (addr option \<times> 'na PktQueue) option" where
  "getWaiting delayed ts src q = (case src of Some s \<Rightarrow> getWaiting_src delayed ts s q | None \<Rightarrow> getWaiting_any delayed ts q)"

text \<open>The application gets the packet and its source; the link is freed.\<close>

definition getData :: "(PktLink \<Rightarrow> bool) \<Rightarrow> u32 \<Rightarrow> addr option \<Rightarrow> 'na PktQueue \<Rightarrow> ((IncomingRTPPkt \<times> addr) option \<times> 'na PktQueue) option" where
  "getData delayed ts src q =
     do { (pl, q) \<leftarrow> getWaiting delayed ts src q;
          case pl of
            None \<Rightarrow> Some (None, q)
          | Some a \<Rightarrow> do { l \<leftarrow> pktHeap q a; Some (Some (lpacket l, psource l), free_pkt a q) } }"

partial_function (option) purgeIncomingQueue :: "'na PktQueue \<Rightarrow> 'na PktQueue option" where
  "purgeIncomingQueue q =
     (case recvFirst q of
        None \<Rightarrow> Some q
      | Some a \<Rightarrow>
          (case pktHeap q a of
             None \<Rightarrow> None
           | Some l \<Rightarrow>
               (case upd_src (psource l) (\<lambda>d. d\<lparr>pktFirst := None, pktLast := None\<rparr>) q of
                  None \<Rightarrow> None
                | Some q \<Rightarrow> purgeIncomingQueue ((free_pkt a q)\<lparr>recvFirst := pnext l\<rparr>))))"


section \<open>The invariant\<close>

definition fld :: "(PktLink \<Rightarrow> addr option) \<Rightarrow> 'na PktQueue \<Rightarrow> addr \<Rightarrow> addr option" where
  "fld f q a = Option.bind (pktHeap q a) f"

definition srcof :: "'na PktQueue \<Rightarrow> addr \<Rightarrow> addr" where
  "srcof q a = psource (the (pktHeap q a))"

definition seqof :: "'na PktQueue \<Rightarrow> addr \<Rightarrow> u16" where
  "seqof q a = getSeqNum (lpacket (the (pktHeap q a)))"

definition of_src :: "'na PktQueue \<Rightarrow> addr \<Rightarrow> addr list \<Rightarrow> addr list" where
  "of_src q s gs = filter (\<lambda>a. srcof q a = s) gs"

definition src_list :: "'na PktQueue \<Rightarrow> 'na SourceData \<Rightarrow> addr list \<Rightarrow> bool" where
  "src_list q d as \<longleftrightarrow> pktFirst d = hd_or as None \<and> pktLast d = last_or as None \<and>
     dll (fld psrcNext q) (fld psrcPrev q) None as None \<and> sorted (map (seqof q) as)"

definition q_inv :: "'na PktQueue \<Rightarrow> addr list \<Rightarrow> bool" where
  "q_inv q gs \<longleftrightarrow> distinct gs \<and> set gs \<subseteq> dom (pktHeap q) \<and>
     recvFirst q = hd_or gs None \<and> recvLast q = last_or gs None \<and> dll (fld pnext q) (fld pprev q) None gs None \<and>
     (\<forall>s d. src_at q s = Some d \<longrightarrow> src_list q d (of_src q s gs)) \<and>
     (\<forall>a\<in>set gs. src_at q (srcof q a) \<noteq> None)"

text \<open>What the insertion of \<open>a\<close> into the list of its source and into the global list leaves alone.\<close>

definition same_data :: "'na PktQueue \<Rightarrow> 'na PktQueue \<Rightarrow> bool" where
  "same_data q q' \<longleftrightarrow> (\<forall>c. map_option (\<lambda>l. (lpacket l, psource l, receptionTime l, shiftedTimestamp l)) (pktHeap q' c) =
       map_option (\<lambda>l. (lpacket l, psource l, receptionTime l, shiftedTimestamp l)) (pktHeap q c)) \<and> nextPkt q' = nextPkt q"

lemma upd_pkt_simp: "pktHeap q c = Some l \<Longrightarrow> upd_pkt (Some c) f q = Some (q\<lparr>pktHeap := (pktHeap q)(c \<mapsto> f l)\<rparr>)"
  by (simp add: upd_pkt_def)

lemmas heap_defs = Let_def upd_pkt_simp pkt_at_def same_data_def fld_def fun_eq_iff

definition upd_opt :: "(addr \<Rightarrow> addr option) \<Rightarrow> addr option \<Rightarrow> addr option \<Rightarrow> addr \<Rightarrow> addr option" where
  "upd_opt g p v = (case p of None \<Rightarrow> g | Some c \<Rightarrow> g(c := v))"

lemma upd_opt_simps [simp]: "upd_opt g None v = g" "upd_opt g (Some c) v = g(c := v)"
  by (simp_all add: upd_opt_def)

lemma insert_middle_effect:
  assumes "pktHeap q a = Some la" "pktHeap q b = Some lb" "pktHeap q n = Some mn" "pktHeap q p = Some lp"
    and "psrcNext lb = Some n" "pprev mn = Some p" "a \<notin> {b, n, p}" "n \<notin> {b, p}"
  shows "\<exists>q'. insert_middle a b q = Some q' \<and> same_data q q' \<and> qmembers q' = qmembers q \<and>
    recvFirst q' = recvFirst q \<and> recvLast q' = recvLast q \<and>
    fld pnext q' = (fld pnext q)(p \<mapsto> a, a \<mapsto> n) \<and> fld pprev q' = (fld pprev q)(n \<mapsto> a, a \<mapsto> p) \<and>
    fld psrcNext q' = (fld psrcNext q)(b \<mapsto> a, a \<mapsto> n) \<and> fld psrcPrev q' = (fld psrcPrev q)(n \<mapsto> a, a \<mapsto> b)"
  using assms by (cases "p = b") (auto simp: insert_middle_def heap_defs)

lemma upd_src_simp:
  "linkHeap (qmembers q) s = Some l \<Longrightarrow> upd_src s f q =
     Some (q\<lparr>qmembers := (qmembers q)\<lparr>linkHeap := (linkHeap (qmembers q))(s \<mapsto> l\<lparr>linkData := f (linkData l)\<rparr>)\<rparr>\<rparr>)"
  by (simp add: upd_src_def upd_link_def)

lemma insert_front_effect:
  assumes "pktHeap q a = Some la" "pktHeap q f = Some lf" "src_at q s = Some d" "pktFirst d = Some f" "a \<noteq> f"
    and "pprev la = None" "psrcPrev la = None" "\<And>p. pprev lf = Some p \<Longrightarrow> p \<in> dom (pktHeap q) \<and> p \<noteq> a \<and> p \<noteq> f"
  shows "\<exists>q'. insert_front a s q = Some q' \<and> same_data q q' \<and> src_at q' = (src_at q)(s \<mapsto> d\<lparr>pktFirst := Some a\<rparr>) \<and>
    recvFirst q' = recvFirst q \<and> recvLast q' = recvLast q \<and>
    fld pnext q' = (upd_opt (fld pnext q) (pprev lf) (Some a))(a \<mapsto> f) \<and>
    fld pprev q' = (fld pprev q)(f \<mapsto> a, a := pprev lf) \<and>
    fld psrcNext q' = (fld psrcNext q)(a \<mapsto> f) \<and> fld psrcPrev q' = (fld psrcPrev q)(f \<mapsto> a, a := None)"
proof -
  obtain ls where ls: "linkHeap (qmembers q) s = Some ls" "d = linkData ls" using assms(3) by (auto simp: src_at_def)
  show ?thesis
  proof (cases "pprev lf")
    case None
    then show ?thesis using assms ls
      by (auto simp: insert_front_def heap_defs upd_src_simp src_at_def)
  next
    case (Some p)
    then obtain lp where "pktHeap q p = Some lp" "p \<noteq> a" "p \<noteq> f" using assms(8) by blast
    then show ?thesis using assms Some ls
      by (auto simp: insert_front_def heap_defs upd_src_simp src_at_def)
  qed
qed

lemma insert_only_effect:
  assumes "pktHeap q a = Some la" "src_at q s = Some d" "pprev la = None" "pnext la = None" "psrcNext la = None" "psrcPrev la = None"
    and "\<And>p. recvLast q = Some p \<Longrightarrow> p \<in> dom (pktHeap q) \<and> p \<noteq> a"
  shows "\<exists>q'. insert_only a s q = Some q' \<and> same_data q q' \<and> src_at q' = (src_at q)(s \<mapsto> d\<lparr>pktLast := Some a, pktFirst := Some a\<rparr>) \<and>
    recvFirst q' = (if recvFirst q = None then Some a else recvFirst q) \<and> recvLast q' = Some a \<and>
    fld pnext q' = (upd_opt (fld pnext q) (recvLast q) (Some a))(a := None) \<and>
    fld pprev q' = (fld pprev q)(a := recvLast q) \<and>
    fld psrcNext q' = (fld psrcNext q)(a := None) \<and> fld psrcPrev q' = (fld psrcPrev q)(a := None)"
proof -
  obtain ls where ls: "linkHeap (qmembers q) s = Some ls" "d = linkData ls" using assms(2) by (auto simp: src_at_def)
  show ?thesis
  proof (cases "recvLast q")
    case None
    then show ?thesis using assms ls
      by (auto simp: insert_only_def heap_defs upd_src_simp src_at_def)
  next
    case (Some p)
    then obtain lp where "pktHeap q p = Some lp" "p \<noteq> a" using assms(7) by blast
    then show ?thesis using assms Some ls
      by (auto simp: insert_only_def heap_defs upd_src_simp src_at_def)
  qed
qed

lemma insert_last_effect:
  assumes "pktHeap q a = Some la" "src_at q s = Some d" "pnext la = None" "psrcNext la = None"
    and "pktHeap q b = Some lb" "a \<noteq> b" "recvLast q = Some p" "pktHeap q p = Some lp" "p \<noteq> a"
  shows "\<exists>q'. insert_last a s (Some b) q = Some q' \<and> same_data q q' \<and> src_at q' = (src_at q)(s \<mapsto> d\<lparr>pktLast := Some a\<rparr>) \<and>
    recvFirst q' = recvFirst q \<and> recvLast q' = Some a \<and>
    fld pnext q' = (fld pnext q)(p \<mapsto> a, a := None) \<and> fld pprev q' = (fld pprev q)(a \<mapsto> p) \<and>
    fld psrcNext q' = (fld psrcNext q)(b \<mapsto> a, a := None) \<and> fld psrcPrev q' = (fld psrcPrev q)(a \<mapsto> b)"
proof -
  obtain ls where ls: "linkHeap (qmembers q) s = Some ls" "d = linkData ls" using assms(2) by (auto simp: src_at_def)
  show ?thesis
    using assms ls by (cases "p = b") (auto simp: insert_last_def heap_defs upd_src_simp src_at_def)
qed

lemma q_invD:
  assumes "q_inv q gs"
  shows "distinct gs" "set gs \<subseteq> dom (pktHeap q)" "recvFirst q = hd_or gs None" "recvLast q = last_or gs None"
    "dll (fld pnext q) (fld pprev q) None gs None" "src_at q s = Some d \<Longrightarrow> src_list q d (of_src q s gs)"
    "c \<in> set gs \<Longrightarrow> src_at q (srcof q c) \<noteq> None"
  using assms by (auto simp: q_inv_def)

lemma same_dataD:
  assumes "same_data q q'"
  shows "dom (pktHeap q') = dom (pktHeap q)" "c \<in> dom (pktHeap q) \<Longrightarrow> srcof q' c = srcof q c"
    "c \<in> dom (pktHeap q) \<Longrightarrow> seqof q' c = seqof q c"
    "c \<in> dom (pktHeap q) \<Longrightarrow> shiftedTimestamp (the (pktHeap q' c)) = shiftedTimestamp (the (pktHeap q c))"
proof -
  have e: "map_option (\<lambda>l. (lpacket l, psource l, receptionTime l, shiftedTimestamp l)) (pktHeap q' c) =
       map_option (\<lambda>l. (lpacket l, psource l, receptionTime l, shiftedTimestamp l)) (pktHeap q c)" for c
    using assms by (simp add: same_data_def)
  have "pktHeap q' c = None \<longleftrightarrow> pktHeap q c = None" for c using e [of c] by (cases "pktHeap q' c"; cases "pktHeap q c") simp_all
  then show "dom (pktHeap q') = dom (pktHeap q)" by (simp add: dom_def)
  show "c \<in> dom (pktHeap q) \<Longrightarrow> srcof q' c = srcof q c" "c \<in> dom (pktHeap q) \<Longrightarrow> seqof q' c = seqof q c"
    "c \<in> dom (pktHeap q) \<Longrightarrow> shiftedTimestamp (the (pktHeap q' c)) = shiftedTimestamp (the (pktHeap q c))"
    using e [of c] by (auto simp: srcof_def seqof_def)
qed

lemma link_in:
  fixes q q' :: "'na PktQueue"
  assumes inv: "q_inv q (xs @ ys)" and a: "a \<notin> set (xs @ ys)" "a \<in> dom (pktHeap q)" "srcof q a = s" "src_at q s = Some d"
    and sd: "same_data q q'" and as: "of_src q s xs = asl" "of_src q s ys = asr"
    and N: "fld pnext q' = (upd_opt (fld pnext q) (last_or xs None) (Some a))(a := hd_or ys None)"
    and P: "fld pprev q' = (upd_opt (fld pprev q) (hd_or ys None) (Some a))(a := last_or xs None)"
    and SN: "fld psrcNext q' = (upd_opt (fld psrcNext q) (last_or asl None) (Some a))(a := hd_or asr None)"
    and SP: "fld psrcPrev q' = (upd_opt (fld psrcPrev q) (hd_or asr None) (Some a))(a := last_or asl None)"
    and r: "recvFirst q' = hd_or (xs @ [a]) None" "recvLast q' = last_or (a # ys) None"
    and src: "src_at q' = (src_at q)(s \<mapsto> d')" "pktFirst d' = hd_or (asl @ [a]) None" "pktLast d' = last_or (a # asr) None"
    and sq: "\<forall>x\<in>set asl. seqof q x \<le> seqof q a" "\<forall>y\<in>set asr. seqof q a \<le> seqof q y"
  shows "q_inv q' (xs @ a # ys)"
proof -
  note D = q_invD [OF inv] and S = same_dataD [OF sd]
  have sub: "set (xs @ a # ys) \<subseteq> dom (pktHeap q)" using D(2) a(2) by auto
  have of: "of_src q' t (xs @ a # ys) = of_src q t xs @ (if t = s then [a] else []) @ of_src q t ys" for t
  proof -
    have "of_src q' t zs = of_src q t zs" if "set zs \<subseteq> dom (pktHeap q)" for zs
      unfolding of_src_def using S(2) subsetD [OF that] by (intro filter_cong) simp_all
    from this [of xs] this [of ys] show ?thesis using sub a(3) S(2) [OF a(2)] by (auto simp: of_src_def)
  qed
  have 1: "dll (fld pnext q') (fld pprev q') None (xs @ a # ys) None"
    by (rule dll_insert [OF D(5,1) a(1)]) (use a(1) in \<open>auto simp: N P last_or_def hd_or_def\<close>)
  have sl: "src_list q' d' (asl @ a # asr)"
  proof -
    have L: "src_list q d (asl @ asr)" using D(6) [OF a(4)] as by (simp add: of_src_def)
    have m: "set (asl @ asr) \<subseteq> set (xs @ ys)" "distinct (asl @ asr)" using as D(1) by (auto simp: of_src_def)
    have "dll (fld psrcNext q') (fld psrcPrev q') None (asl @ a # asr) None"
      by (rule dll_insert [of "fld psrcNext q" "fld psrcPrev q"])
         (use L m a(1) in \<open>auto simp: src_list_def SN SP last_or_def hd_or_def\<close>)
    moreover have "set (asl @ a # asr) \<subseteq> dom (pktHeap q)" using sub m(1) by simp blast
    then have "map (seqof q') (asl @ a # asr) = map (seqof q) (asl @ a # asr)"
      by (intro map_cong refl S(3)) (rule subsetD)
    moreover have "sorted (map (seqof q) (asl @ a # asr))"
      using L sq by (auto simp: src_list_def sorted_append)
    ultimately show ?thesis using src(2,3) by (simp add: src_list_def cong: map_cong)
  qed
  have so: "src_list q' e (of_src q t xs @ of_src q t ys)" if t: "t \<noteq> s" "src_at q t = Some e" for t e
  proof -
    have L: "src_list q e (of_src q t xs @ of_src q t ys)" using D(6) [OF t(2)] by (simp add: of_src_def)
    have ne: "c \<noteq> a \<and> c \<notin> set asl \<and> c \<notin> set asr" if "c \<in> set (of_src q t xs @ of_src q t ys)" for c
      using that t(1) a(1,3) as by (auto simp: of_src_def)
    have "fld psrcNext q c = fld psrcNext q' c \<and> fld psrcPrev q c = fld psrcPrev q' c" if "c \<in> set (of_src q t xs @ of_src q t ys)" for c
    proof -
      have "asl \<noteq> [] \<Longrightarrow> c \<noteq> last asl" "asr \<noteq> [] \<Longrightarrow> c \<noteq> hd asr" using ne [OF that] last_in_set hd_in_set by blast+
      then show ?thesis using ne [OF that] by (simp add: SN SP last_or_def hd_or_def)
    qed
    then have dc: "dll (fld psrcNext q) (fld psrcPrev q) None (of_src q t xs @ of_src q t ys) None =
        dll (fld psrcNext q') (fld psrcPrev q') None (of_src q t xs @ of_src q t ys) None"
      by (rule dll_cong)
    have m: "map (seqof q') (of_src q t xs @ of_src q t ys) = map (seqof q) (of_src q t xs @ of_src q t ys)"
    proof (intro map_cong refl S(3))
      fix c assume "c \<in> set (of_src q t xs @ of_src q t ys)"
      then have "c \<in> set (xs @ ys)" by (auto simp: of_src_def)
      then show "c \<in> dom (pktHeap q)" using D(2) by blast
    qed
    show ?thesis using L unfolding src_list_def dc m .
  qed
  have "src_list q' e (of_src q' t (xs @ a # ys))" if "src_at q' t = Some e" for t e
    using that sl so [of t e] unfolding of src(1) by (auto simp: as split: if_splits)
  moreover have "src_at q' (srcof q' c) \<noteq> None" if "c \<in> set (xs @ a # ys)" for c
    using that S(2) [OF subsetD [OF sub that]] D(7) [of c] a(3) by (auto simp: src(1))
  moreover have "set (xs @ a # ys) \<subseteq> dom (pktHeap q')" using sub S(1) by simp
  ultimately show ?thesis
    using 1 r D(1) a(1) unfolding q_inv_def by simp
qed


lemma q_inv_free:
  fixes q :: "'na PktQueue"
  assumes inv: "q_inv q gs" and a: "a \<notin> set gs"
  shows "q_inv (free_pkt a q) gs"
proof -
  note D = q_invD [OF inv]
  have e: "fld f (free_pkt a q) c = fld f q c" "srcof (free_pkt a q) c = srcof q c" "seqof (free_pkt a q) c = seqof q c"
    if "c \<in> set gs" for c f
    using that a by (auto simp: fld_def srcof_def seqof_def free_pkt_def)
  have o: "of_src (free_pkt a q) s gs = of_src q s gs" for s unfolding of_src_def using e(2) by (intro filter_cong) simp_all
  have s: "src_at (free_pkt a q) = src_at q" by (simp add: src_at_def free_pkt_def fun_eq_iff)
  have "dll (fld pnext (free_pkt a q)) (fld pprev (free_pkt a q)) None gs None"
    using D(5) dll_cong [of gs "fld pnext (free_pkt a q)" "fld pnext q" "fld pprev (free_pkt a q)" "fld pprev q"] e(1) by simp
  moreover have "src_list (free_pkt a q) d (of_src q t gs)" if "src_at q t = Some d" for t d
  proof -
    have m: "set (of_src q t gs) \<subseteq> set gs" by (auto simp: of_src_def)
    have "map (seqof (free_pkt a q)) (of_src q t gs) = map (seqof q) (of_src q t gs)" using e(3) m by auto
    moreover have "dll (fld psrcNext (free_pkt a q)) (fld psrcPrev (free_pkt a q)) None (of_src q t gs) None =
        dll (fld psrcNext q) (fld psrcPrev q) None (of_src q t gs) None"
      by (rule dll_cong) (use e(1) m in auto)
    ultimately show ?thesis using D(6) [OF that] by (simp add: src_list_def cong: map_cong)
  qed
  moreover have "set gs \<subseteq> dom (pktHeap (free_pkt a q))" "recvFirst (free_pkt a q) = recvFirst q" "recvLast (free_pkt a q) = recvLast q"
    using D(2) a by (auto simp: free_pkt_def)
  ultimately show ?thesis using D e(2) by (simp add: q_inv_def o s)
qed

lemma find_place_split:
  assumes "dll (fld psrcNext q) (fld psrcPrev q) None (asl @ asr) nx" "set (asl @ asr) \<subseteq> dom (pktHeap q)"
    and "\<forall>x\<in>set asl. seqof q x \<le> sq" "\<forall>y\<in>set asr. sq < seqof q y"
  shows "find_place (pktHeap q) sq (last_or (asl @ asr) None) = Some (False, last_or asl None)"
  using assms(1,2,4)
proof (induction asr arbitrary: nx rule: rev_induct)
  case Nil
  show ?case
  proof (cases "asl = []")
    case False
    then have "last asl \<in> set (asl @ [])" by simp
    then obtain l where l: "pktHeap q (last asl) = Some l" using Nil(2) by blast
    have "\<not> sq < getSeqNum (lpacket l)" using bspec [OF assms(3) last_in_set [OF False]] l by (simp add: seqof_def)
    then show ?thesis using False l by (subst find_place.simps) (simp add: last_or_def)
  qed (subst find_place.simps, simp)
next
  case (snoc y ys)
  then obtain l where l: "pktHeap q y = Some l" by auto
  have "dll (fld psrcNext q) (fld psrcPrev q) None ((asl @ ys) @ [y]) nx" using snoc.prems(1) by simp
  then have d: "dll (fld psrcNext q) (fld psrcPrev q) None (asl @ ys) (Some y)" "psrcPrev l = last_or (asl @ ys) None"
    unfolding dll_append [of _ _ _ "asl @ ys"] using l by (simp_all add: fld_def)
  have "sq < getSeqNum (lpacket l)" using snoc.prems(3) l by (simp add: seqof_def)
  then have "find_place (pktHeap q) sq (Some y) = find_place (pktHeap q) sq (last_or (asl @ ys) None)"
    using l d(2) by (subst find_place.simps) auto
  then show ?case using snoc.IH [OF d(1)] snoc.prems(2,3) by simp
qed

text \<open>A place in the global list for a place in the list of the source.\<close>

lemma global_split:
  assumes "distinct gs" "of_src q s gs = asl @ n # asr"
  obtains xs ys where "gs = xs @ n # ys" "of_src q s xs = asl" "of_src q s (n # ys) = n # asr"
proof -
  have n: "n \<in> set gs" "srcof q n = s" using arg_cong [OF assms(2), of set] by (auto simp: of_src_def)
  obtain xs ys where g: "gs = xs @ n # ys" using n(1) split_list by metis
  then have nx: "n \<notin> set xs" "n \<notin> set ys" using assms(1) by auto
  have "of_src q s xs @ n # of_src q s ys = asl @ n # asr" using assms(2) n(2) by (simp add: g of_src_def)
  moreover have "n \<notin> set (of_src q s xs)" "n \<notin> set (of_src q s ys)" using nx by (auto simp: of_src_def)
  ultimately have "of_src q s xs = asl" "of_src q s ys = asr" by (simp_all add: append_Cons_eq_iff)
  then show thesis using that g n(2) by (simp add: of_src_def)
qed

lemma sorted_last: "sorted (map f as) \<Longrightarrow> x \<in> set as \<Longrightarrow> f x \<le> f (last as)" for f :: "'b \<Rightarrow> 'c :: linorder"
  by (induction as) auto

lemma sorted_split:
  fixes f :: "'b \<Rightarrow> 'c :: linorder"
  assumes "sorted (map f as)"
  obtains asl asr where "as = asl @ asr" "\<forall>x\<in>set asl. f x \<le> k" "\<forall>y\<in>set asr. k < f y"
proof (rule that [of "takeWhile (\<lambda>x. f x \<le> k) as" "dropWhile (\<lambda>x. f x \<le> k) as"])
  show "\<forall>y\<in>set (dropWhile (\<lambda>x. f x \<le> k) as). k < f y"
    using assms by (induction as) (auto intro: less_le_trans)
qed (auto dest: set_takeWhileD)


text \<open>The link just made for a packet: it is in no list yet.\<close>

definition fresh_link :: "'na PktQueue \<Rightarrow> addr list \<Rightarrow> addr \<Rightarrow> bool" where
  "fresh_link q gs a \<longleftrightarrow> a \<notin> set gs \<and> src_at q (srcof q a) \<noteq> None \<and>
     (\<exists>l. pktHeap q a = Some l \<and> pprev l = None \<and> pnext l = None \<and> psrcPrev l = None \<and> psrcNext l = None)"

lemma insert_only_ok:
  fixes q :: "'na PktQueue"
  assumes inv: "q_inv q gs" and f: "fresh_link q gs a" and e: "of_src q (srcof q a) gs = []"
  shows "\<exists>q'. insertRecvPacket a q = Some (True, q') \<and> q_inv q' (gs @ [a]) \<and> same_data q q'"
proof -
  note D = q_invD [OF inv]
  let ?s = "srcof q a"
  obtain l d where l: "pktHeap q a = Some l" "pprev l = None" "pnext l = None" "psrcPrev l = None" "psrcNext l = None"
    and a: "a \<notin> set gs" "src_at q ?s = Some d" using f by (auto simp: fresh_link_def)
  have last: "p \<in> dom (pktHeap q) \<and> p \<noteq> a" if "recvLast q = Some p" for p
  proof -
    have "p \<in> set gs" using that D(4) by (auto simp: last_or_def split: if_splits)
    then show ?thesis using D(2) a(1) by blast
  qed
  obtain q' where q': "insert_only a ?s q = Some q'" "same_data q q'"
    "src_at q' = (src_at q)(?s \<mapsto> d\<lparr>pktLast := Some a, pktFirst := Some a\<rparr>)"
    "recvFirst q' = (if recvFirst q = None then Some a else recvFirst q)" "recvLast q' = Some a"
    "fld pnext q' = (upd_opt (fld pnext q) (recvLast q) (Some a))(a := None)"
    "fld pprev q' = (fld pprev q)(a := recvLast q)"
    "fld psrcNext q' = (fld psrcNext q)(a := None)" "fld psrcPrev q' = (fld psrcPrev q)(a := None)"
    using insert_only_effect [OF l(1) a(2) l(2,3,5,4) last] by blast
  have "pktLast d = None" using D(6) [OF a(2)] e by (simp add: src_list_def)
  then have ins: "insertRecvPacket a q = Some (True, q')"
    using l(1) a(2) q'(1) by (simp add: insertRecvPacket_def Let_def srcof_def)
  have "q_inv q' (gs @ a # [])"
    by (rule link_in [where q = q and s = ?s and d = d and asl = "[]" and asr = "[]"])
       (use inv a l(1) q'(2-) D(3,4) e in \<open>auto simp: hd_or_def of_src_def\<close>)
  with q'(2) show ?thesis using ins by blast
qed

lemma insert_last_ok:
  fixes q :: "'na PktQueue"
  assumes inv: "q_inv q gs" and f: "fresh_link q gs a" and e: "of_src q (srcof q a) gs = as" "as \<noteq> []" "seqof q (last as) < seqof q a"
  shows "\<exists>q'. insertRecvPacket a q = Some (True, q') \<and> q_inv q' (gs @ [a]) \<and> same_data q q'"
proof -
  note D = q_invD [OF inv]
  let ?s = "srcof q a"
  obtain l d where l: "pktHeap q a = Some l" "pprev l = None" "pnext l = None" "psrcPrev l = None" "psrcNext l = None"
    and a: "a \<notin> set gs" "src_at q ?s = Some d" using f by (auto simp: fresh_link_def)
  have L: "src_list q d as" using D(6) [OF a(2)] e(1) by simp
  have b: "last as \<in> set gs" using last_in_set [OF e(2)] e(1) by (auto simp: of_src_def)
  then have g1: "gs \<noteq> []" by auto
  note g = g1 last_in_set [OF g1]
  obtain lb lp where lb: "pktHeap q (last as) = Some lb" "pktHeap q (last gs) = Some lp" using D(2) b g(2) by blast
  have r: "recvLast q = Some (last gs)" using D(4) g(1) by (simp add: last_or_def)
  have ne: "a \<noteq> last as" "last gs \<noteq> a" using b g(2) a(1) by auto
  obtain q' where q': "insert_last a ?s (Some (last as)) q = Some q'" "same_data q q'" "src_at q' = (src_at q)(?s \<mapsto> d\<lparr>pktLast := Some a\<rparr>)"
    "recvFirst q' = recvFirst q" "recvLast q' = Some a"
    "fld pnext q' = (fld pnext q)(last gs \<mapsto> a, a := None)" "fld pprev q' = (fld pprev q)(a \<mapsto> last gs)"
    "fld psrcNext q' = (fld psrcNext q)(last as \<mapsto> a, a := None)" "fld psrcPrev q' = (fld psrcPrev q)(a \<mapsto> last as)"
    using insert_last_effect [OF l(1) a(2) l(3,5) lb(1) ne(1) r lb(2) ne(2)] by blast
  have nlt: "\<not> getSeqNum (lpacket l) < getSeqNum (lpacket lb)" "getSeqNum (lpacket l) \<noteq> getSeqNum (lpacket lb)"
    using e(3) l(1) lb(1) by (auto simp: seqof_def)
  have "pktLast d = Some (last as)" using L e(2) by (simp add: src_list_def last_or_def)
  then have ins: "insertRecvPacket a q = Some (True, q')"
    using l(1) a(2) q'(1) lb(1) nlt by (simp add: insertRecvPacket_def Let_def srcof_def pkt_at_def)
  have "\<forall>x\<in>set as. seqof q x \<le> seqof q a"
    using sorted_last [of "seqof q" as] L e(3) by (force simp: src_list_def)
  note sq = this
  have "q_inv q' (gs @ a # [])"
    by (rule link_in [where q = q and s = ?s and d = d and asl = as and asr = "[]"])
       (use inv a l(1) q'(2-) D(3,4) e(1,2) g L sq in \<open>auto simp: hd_or_def last_or_def of_src_def src_list_def\<close>)
  with q'(2) show ?thesis using ins by blast
qed


lemma insert_dup_ok:
  fixes q :: "'na PktQueue"
  assumes inv: "q_inv q gs" and f: "fresh_link q gs a" and e: "of_src q (srcof q a) gs = as" "as \<noteq> []" "seqof q (last as) = seqof q a"
  shows "insertRecvPacket a q = Some (False, free_pkt a q)"
proof -
  note D = q_invD [OF inv]
  obtain l d where l: "pktHeap q a = Some l" and a: "src_at q (srcof q a) = Some d" using f by (auto simp: fresh_link_def)
  have "last as \<in> set gs" using last_in_set [OF e(2)] e(1) by (auto simp: of_src_def)
  then obtain lb where lb: "pktHeap q (last as) = Some lb" using D(2) by blast
  have "pktLast d = Some (last as)" using D(6) [OF a] e(1,2) by (simp add: src_list_def last_or_def)
  then show ?thesis
    using l a lb e(3) by (simp add: insertRecvPacket_def Let_def srcof_def seqof_def pkt_at_def)
qed

text \<open>Before the packet \<open>n\<close> of its source: the search along the source list ends behind \<open>asl\<close>.\<close>

lemma insert_late_place:
  fixes q :: "'na PktQueue"
  assumes inv: "q_inv q gs" and f: "fresh_link q gs a" and e: "of_src q (srcof q a) gs = asl @ n # asr"
    and sq: "\<forall>x\<in>set asl. seqof q x \<le> seqof q a" "\<forall>y\<in>set (n # asr). seqof q a < seqof q y"
  shows "insertRecvPacket a q =
    (case last_or asl None of None \<Rightarrow> do { q \<leftarrow> insert_front a (srcof q a) q; Some (True, q) }
     | Some b \<Rightarrow> do { q \<leftarrow> insert_middle a b q; Some (True, q) })"
proof -
  note D = q_invD [OF inv]
  let ?as = "asl @ n # asr"
  obtain l d where l: "pktHeap q a = Some l" and a: "src_at q (srcof q a) = Some d" using f by (auto simp: fresh_link_def)
  have L: "src_list q d ?as" using D(6) [OF a] e by simp
  have "set ?as \<subseteq> set gs" unfolding e [symmetric] by (auto simp: of_src_def)
  then have sub: "set ?as \<subseteq> dom (pktHeap q)" using D(2) by blast
  have m: "last ?as \<in> set ?as" "last ?as \<in> set (n # asr)" by auto
  obtain lb where lb: "pktHeap q (last ?as) = Some lb" using subsetD [OF sub m(1)] by blast
  have lt: "getSeqNum (lpacket l) < getSeqNum (lpacket lb)" using bspec [OF sq(2) m(2)] l lb by (simp add: seqof_def)
  have fp: "find_place (pktHeap q) (seqof q a) (last_or ?as None) = Some (False, last_or asl None)"
    by (rule find_place_split [OF _ sub sq, where nx = None]) (use L in \<open>simp add: src_list_def\<close>)
  have pl: "pktLast d = last_or ?as None" "last_or ?as None = Some (last ?as)" using L by (auto simp: src_list_def last_or_def)
  have "getSeqNum (lpacket l) = seqof q a" "psource l = srcof q a" using l by (simp_all add: seqof_def srcof_def)
  then show ?thesis
    using l a lb lt fp pl by (simp add: insertRecvPacket_def Let_def pkt_at_def del: last_or_simps split: option.split)
qed

lemma insert_middle_ok:
  fixes q :: "'na PktQueue"
  assumes inv: "q_inv q gs" and f: "fresh_link q gs a" and e: "of_src q (srcof q a) gs = asl @ n # asr" "asl \<noteq> []"
    and sq: "\<forall>x\<in>set asl. seqof q x \<le> seqof q a" "\<forall>y\<in>set (n # asr). seqof q a < seqof q y"
    and g: "gs = xs @ n # ys" "of_src q (srcof q a) xs = asl" "of_src q (srcof q a) (n # ys) = n # asr"
  shows "\<exists>q'. insertRecvPacket a q = Some (True, q') \<and> q_inv q' (xs @ a # n # ys) \<and> same_data q q'"
proof -
  note D = q_invD [OF inv]
  let ?s = "srcof q a" and ?b = "last asl" and ?p = "last xs"
  obtain l d where l: "pktHeap q a = Some l" "pprev l = None" "pnext l = None" "psrcPrev l = None" "psrcNext l = None"
    and a: "a \<notin> set gs" "src_at q ?s = Some d" using f by (auto simp: fresh_link_def)
  have L: "src_list q d (asl @ n # asr)" using D(6) [OF a(2)] e(1) by simp
  have xs: "xs \<noteq> []" using e(2) g(2) by (auto simp: of_src_def)
  have bx: "?b \<in> set xs" using last_in_set [OF e(2)] g(2) by (auto simp: of_src_def)
  have px: "?p \<in> set xs" by (rule last_in_set [OF xs])
  have sub: "set xs \<subseteq> dom (pktHeap q)" "n \<in> dom (pktHeap q)" using D(2) g(1) by auto
  obtain lb lp mn where h: "pktHeap q ?b = Some lb" "pktHeap q ?p = Some lp" "pktHeap q n = Some mn" using sub bx px by blast
  have "dll (fld psrcNext q) (fld psrcPrev q) None asl (Some n)" using L by (simp add: src_list_def dll_append)
  then have sn: "psrcNext lb = Some n" using dll_ends(2) [OF _ e(2)] h(1) by (fastforce simp: fld_def)
  have "dll (fld pnext q) (fld pprev q) (last_or xs None) (n # ys) None" using D(5) g(1) by (simp add: dll_append)
  then have pn: "pprev mn = Some ?p" using h(3) xs by (simp add: fld_def last_or_def)
  have ne: "a \<notin> {?b, n, ?p}" "n \<notin> {?b, ?p}" using a(1) g(1) bx px D(1) by auto
  obtain q' where q': "insert_middle a ?b q = Some q'" "same_data q q'" "qmembers q' = qmembers q"
    "recvFirst q' = recvFirst q" "recvLast q' = recvLast q"
    "fld pnext q' = (fld pnext q)(?p \<mapsto> a, a \<mapsto> n)" "fld pprev q' = (fld pprev q)(n \<mapsto> a, a \<mapsto> ?p)"
    "fld psrcNext q' = (fld psrcNext q)(?b \<mapsto> a, a \<mapsto> n)" "fld psrcPrev q' = (fld psrcPrev q)(n \<mapsto> a, a \<mapsto> ?b)"
    using insert_middle_effect [OF l(1) h(1,3,2) sn pn ne] by blast
  have ins: "insertRecvPacket a q = Some (True, q')"
    using insert_late_place [OF inv f e(1) sq] q'(1) e(2) by (simp add: last_or_def)
  have "src_at q' = (src_at q)(?s \<mapsto> d)" using q'(3) a(2) by (auto simp: src_at_def fun_eq_iff)
  note sc = this
  have "q_inv q' (xs @ a # n # ys)"
    by (rule link_in [where q = q and s = ?s and d = d and d' = d and asl = asl and asr = "n # asr"])
       (use inv a l(1) q'(2-) D(3,4) e(2) g xs L sq sc in \<open>auto simp: last_or_def hd_or_def src_list_def less_imp_le\<close>)
  with q'(2) show ?thesis using ins by blast
qed


lemma insert_front_ok:
  fixes q :: "'na PktQueue"
  assumes inv: "q_inv q gs" and f: "fresh_link q gs a" and e: "of_src q (srcof q a) gs = n # asr"
    and sq: "\<forall>y\<in>set (n # asr). seqof q a < seqof q y"
    and g: "gs = xs @ n # ys" "of_src q (srcof q a) xs = []" "of_src q (srcof q a) (n # ys) = n # asr"
  shows "\<exists>q'. insertRecvPacket a q = Some (True, q') \<and> same_data q q' \<and> recvFirst q' = recvFirst q \<and>
    dll (fld pnext q') (fld pprev q') None (xs @ a # n # ys) None \<and> (xs \<noteq> [] \<longrightarrow> q_inv q' (xs @ a # n # ys))"
proof -
  note D = q_invD [OF inv]
  let ?s = "srcof q a"
  obtain l d where l: "pktHeap q a = Some l" "pprev l = None" "pnext l = None" "psrcPrev l = None" "psrcNext l = None"
    and a: "a \<notin> set gs" "src_at q ?s = Some d" using f by (auto simp: fresh_link_def)
  have L: "src_list q d (n # asr)" using D(6) [OF a(2)] e by simp
  obtain mn where n: "pktHeap q n = Some mn" using D(2) g(1) by auto
  have "dll (fld pnext q) (fld pprev q) (last_or xs None) (n # ys) None" using D(5) g(1) by (simp add: dll_append)
  then have pn: "pprev mn = last_or xs None" using n by (simp add: fld_def)
  have p: "p \<in> dom (pktHeap q) \<and> p \<noteq> a \<and> p \<noteq> n" if "pprev mn = Some p" for p
  proof -
    have "p \<in> set xs" using that pn by (auto simp: last_or_def split: if_splits)
    then show ?thesis using D(1,2) g(1) a(1) by auto
  qed
  have fd: "pktFirst d = Some n" and an: "a \<noteq> n" using L a(1) g(1) by (auto simp: src_list_def)
  obtain q' where q': "insert_front a ?s q = Some q'" "same_data q q'" "src_at q' = (src_at q)(?s \<mapsto> d\<lparr>pktFirst := Some a\<rparr>)"
    "recvFirst q' = recvFirst q" "recvLast q' = recvLast q"
    "fld pnext q' = (upd_opt (fld pnext q) (pprev mn) (Some a))(a \<mapsto> n)" "fld pprev q' = (fld pprev q)(n \<mapsto> a, a := pprev mn)"
    "fld psrcNext q' = (fld psrcNext q)(a \<mapsto> n)" "fld psrcPrev q' = (fld psrcPrev q)(n \<mapsto> a, a := None)"
    using insert_front_effect [OF l(1) n a(2) fd an l(2,4) p] by blast
  have ins: "insertRecvPacket a q = Some (True, q')"
    using insert_late_place [OF inv f, of "[]" n asr] e sq q'(1) by simp
  have dl: "dll (fld pnext q') (fld pprev q') None (xs @ a # n # ys) None"
    by (rule dll_insert [OF D(5,1) [unfolded g(1)]]) (use a(1) g(1) in \<open>auto simp: q'(6,7) pn last_or_def\<close>)
  have "q_inv q' (xs @ a # n # ys)" if "xs \<noteq> []"
    by (rule link_in [where q = q and s = ?s and d = d and asl = "[]" and asr = "n # asr"])
       (use inv a l(1) q'(2-) D(3,4) e g that L sq pn in \<open>auto simp: hd_or_def src_list_def less_imp_le\<close>)
  with ins q'(2,4) dl show ?thesis by blast
qed

text \<open>Where a packet belongs in the list of the queue: behind the packets of its source with a sequence number up to its own, and
  directly before the first of the others, or at the end.\<close>

definition placed :: "'na PktQueue \<Rightarrow> addr \<Rightarrow> addr list \<Rightarrow> addr list \<Rightarrow> bool" where
  "placed q a gs gs' \<longleftrightarrow> (\<exists>xs ys. gs = xs @ ys \<and> gs' = xs @ a # ys \<and>
     (\<forall>x\<in>set (of_src q (srcof q a) xs). seqof q x \<le> seqof q a) \<and>
     (\<forall>y\<in>set (of_src q (srcof q a) ys). seqof q a < seqof q y) \<and> (ys \<noteq> [] \<longrightarrow> srcof q (hd ys) = srcof q a))"

definition is_dup :: "'na PktQueue \<Rightarrow> addr \<Rightarrow> addr list \<Rightarrow> bool" where
  "is_dup q a gs \<longleftrightarrow> (let as = of_src q (srcof q a) gs in as \<noteq> [] \<and> seqof q (last as) = seqof q a)"

definition new_head :: "'na PktQueue \<Rightarrow> addr \<Rightarrow> addr list \<Rightarrow> bool" where
  "new_head q a gs \<longleftrightarrow> gs \<noteq> [] \<and> srcof q (hd gs) = srcof q a \<and> seqof q a < seqof q (hd gs)"

lemma insert_ok:
  fixes q :: "'na PktQueue"
  assumes inv: "q_inv q gs" and f: "fresh_link q gs a" and nd: "\<not> is_dup q a gs" and nh: "\<not> new_head q a gs"
  shows "\<exists>q' gs'. insertRecvPacket a q = Some (True, q') \<and> q_inv q' gs' \<and> placed q a gs gs' \<and> same_data q q'"
proof -
  note D = q_invD [OF inv]
  let ?s = "srcof q a" and ?as = "of_src q (srcof q a) gs"
  obtain d where d: "src_at q ?s = Some d" using f by (auto simp: fresh_link_def)
  have so: "sorted (map (seqof q) ?as)" using D(6) [OF d] by (simp add: src_list_def)
  obtain asl asr where as: "?as = asl @ asr" "\<forall>x\<in>set asl. seqof q x \<le> seqof q a" "\<forall>y\<in>set asr. seqof q a < seqof q y"
    using sorted_split [OF so] by blast
  show ?thesis
  proof (cases asr)
    case Nil
    have "placed q a gs (gs @ [a])" unfolding placed_def using as Nil by (intro exI [of _ gs] exI [of _ "[]"]) (simp add: of_src_def)
    moreover have "\<exists>q'. insertRecvPacket a q = Some (True, q') \<and> q_inv q' (gs @ [a]) \<and> same_data q q'"
    proof (cases "?as = []")
      case True
      then show ?thesis by (rule insert_only_ok [OF inv f])
    next
      case False
      have "seqof q (last ?as) \<le> seqof q a" using as(1,2) Nil last_in_set [OF False] by auto
      moreover have "seqof q (last ?as) \<noteq> seqof q a" using nd False by (auto simp: is_dup_def Let_def)
      ultimately have "seqof q (last ?as) < seqof q a" by simp
      then show ?thesis by (rule insert_last_ok [OF inv f refl False])
    qed
    ultimately show ?thesis by blast
  next
    case (Cons n asr')
    obtain xs ys where g: "gs = xs @ n # ys" "of_src q ?s xs = asl" "of_src q ?s (n # ys) = n # asr'"
      using global_split [OF D(1) as(1) [unfolded Cons]] by blast
    have n: "srcof q n = ?s" using g(3) by (auto simp: of_src_def split: if_splits dest: filter_eq_ConsD)
    have "placed q a gs (xs @ a # n # ys)"
      unfolding placed_def using as g Cons n by (intro exI [of _ xs] exI [of _ "n # ys"]) auto
    moreover have "\<exists>q'. insertRecvPacket a q = Some (True, q') \<and> q_inv q' (xs @ a # n # ys) \<and> same_data q q'"
    proof (cases "asl = []")
      case True
      have "xs \<noteq> []" using nh g(1) n as(3) Cons by (auto simp: new_head_def)
      then show ?thesis
        using insert_front_ok [OF inv f _ _ g(1) _ g(3)] as(1,3) Cons True g(2) by auto
    next
      case False
      then show ?thesis using insert_middle_ok [OF inv f as(1) [unfolded Cons] False as(2) _ g] as(3) Cons by blast
    qed
    ultimately show ?thesis by blast
  qed
qed


section \<open>Queries for any source\<close>

definition q_core :: "'na PktQueue \<Rightarrow> addr list \<Rightarrow> bool" where
  "q_core q gs \<longleftrightarrow> distinct gs \<and> set gs \<subseteq> dom (pktHeap q) \<and>
     (\<forall>s d. src_at q s = Some d \<longrightarrow> src_list q d (of_src q s gs)) \<and> (\<forall>a\<in>set gs. src_at q (srcof q a) \<noteq> None)"

lemma q_inv_core:
  "q_inv q gs \<longleftrightarrow> q_core q gs \<and> recvFirst q = hd_or gs None \<and> recvLast q = last_or gs None \<and>
     dll (fld pnext q) (fld pprev q) None gs None"
  by (auto simp: q_inv_def q_core_def)

lemma q_core_cong:
  fixes q q' :: "'na PktQueue"
  assumes c: "q_core q gs" and sd: "\<And>c. c \<in> set gs \<Longrightarrow> map_option (\<lambda>l. (lpacket l, psource l, psrcPrev l, psrcNext l)) (pktHeap q' c) =
      map_option (\<lambda>l. (lpacket l, psource l, psrcPrev l, psrcNext l)) (pktHeap q c)" and s: "src_at q' = src_at q"
  shows "q_core q' gs"
proof -
  have e: "c \<in> dom (pktHeap q') \<and> fld psrcNext q' c = fld psrcNext q c \<and> fld psrcPrev q' c = fld psrcPrev q c \<and>
      srcof q' c = srcof q c \<and> seqof q' c = seqof q c" if cg: "c \<in> set gs" for c
  proof -
    obtain l where "pktHeap q c = Some l" using c cg unfolding q_core_def by blast
    then show ?thesis using sd [OF cg] by (auto simp: fld_def srcof_def seqof_def)
  qed
  have o: "of_src q' t gs = of_src q t gs" for t unfolding of_src_def using e by (intro filter_cong) simp_all
  have "src_list q' d (of_src q t gs) = src_list q d (of_src q t gs)" for t d
  proof -
    have m: "c \<in> set gs" if "c \<in> set (of_src q t gs)" for c using that by (simp add: of_src_def)
    have 1: "map (seqof q') (of_src q t gs) = map (seqof q) (of_src q t gs)" using e m by (intro map_cong) simp_all
    have 2: "dll (fld psrcNext q') (fld psrcPrev q') None (of_src q t gs) None = dll (fld psrcNext q) (fld psrcPrev q) None (of_src q t gs) None"
      using e m by (intro dll_cong) simp
    show ?thesis unfolding src_list_def 1 2 ..
  qed
  then show ?thesis using c e unfolding q_core_def o s by auto
qed

lemma unlink_first_core:
  fixes q :: "'na PktQueue"
  assumes c: "q_core q (a # gs)" and l: "pktHeap q a = Some l"
  shows "\<exists>q'. unlink_first l q = Some q' \<and> q_core q' gs \<and> same_data q q' \<and> fld pnext q' = fld pnext q \<and> fld pprev q' = fld pprev q \<and>
    recvFirst q' = recvFirst q \<and> recvLast q' = recvLast q"
proof -
  let ?s = "psource l" and ?as = "of_src q (psource l) gs"
  have s: "srcof q a = ?s" using l by (simp add: srcof_def)
  then obtain ls where ls: "linkHeap (qmembers q) ?s = Some ls" using c by (auto simp: q_core_def src_at_def)
  let ?d = "linkData ls"
  have d: "src_at q ?s = Some ?d" using ls by (simp add: src_at_def)
  have "src_list q ?d (of_src q ?s (a # gs))" using c d unfolding q_core_def by blast
  then have L: "src_list q ?d (a # ?as)" using s by (simp add: of_src_def)
  have nx: "psrcNext l = hd_or ?as None" using L l by (simp add: src_list_def fld_def)
  have dis: "distinct (a # gs)" "set (a # gs) \<subseteq> dom (pktHeap q)" using c by (simp_all add: q_core_def)
  have asub: "set ?as \<subseteq> set gs" by (auto simp: of_src_def)
  define d' where "d' = ?d\<lparr>pktFirst := psrcNext l, pktLast := last_or ?as None\<rparr>"
  have "\<exists>q'. unlink_first l q = Some q' \<and> same_data q q' \<and> fld pnext q' = fld pnext q \<and> fld pprev q' = fld pprev q \<and>
      recvFirst q' = recvFirst q \<and> recvLast q' = recvLast q \<and> fld psrcNext q' = fld psrcNext q \<and>
      fld psrcPrev q' = upd_opt (fld psrcPrev q) (hd_or ?as None) None \<and> src_at q' = (src_at q)(?s \<mapsto> d')"
  proof (cases ?as)
    case Nil
    then show ?thesis using ls nx
      by (auto simp: unlink_first_def upd_src_simp heap_defs src_at_def d'_def)
  next
    case (Cons m ms)
    then have "m \<in> dom (pktHeap q)" using asub dis(2) by auto
    then obtain lm where "pktHeap q m = Some lm" by blast
    moreover have "pktLast ?d = last_or ?as None" using L Cons by (simp add: src_list_def)
    ultimately show ?thesis using ls nx Cons
      by (auto simp: unlink_first_def upd_src_simp heap_defs src_at_def d'_def)
  qed
  then obtain q' where q': "unlink_first l q = Some q'" "same_data q q'" "fld pnext q' = fld pnext q" "fld pprev q' = fld pprev q"
      "recvFirst q' = recvFirst q" "recvLast q' = recvLast q" "fld psrcNext q' = fld psrcNext q"
      "fld psrcPrev q' = upd_opt (fld psrcPrev q) (hd_or ?as None) None" "src_at q' = (src_at q)(?s \<mapsto> d')" by blast
  note S = same_dataD [OF q'(2)]
  have e: "srcof q' c = srcof q c" "seqof q' c = seqof q c" if "c \<in> set gs" for c
  proof -
    have "c \<in> dom (pktHeap q)" by (rule subsetD [OF dis(2)]) (simp add: that)
    then show "srcof q' c = srcof q c" "seqof q' c = seqof q c" by (rule S(2,3))+
  qed
  have o: "of_src q' t gs = of_src q t gs" for t unfolding of_src_def using e by (intro filter_cong) simp_all
  have sl: "src_list q' b (of_src q t gs)" if "src_at q' t = Some b" for t b
  proof -
    have m: "map (seqof q') (of_src q t gs) = map (seqof q) (of_src q t gs)" using e by (intro map_cong) (auto simp: of_src_def)
    show ?thesis
    proof (cases "t = ?s")
      case True
      have "dll (fld psrcNext q') (fld psrcPrev q') None ?as None"
      proof (cases "?as = []")
        case False
        show ?thesis
          by (rule dll_set_prev [of "fld psrcNext q" "fld psrcPrev q" "Some a"])
             (use L dis False in \<open>auto simp: src_list_def q'(7,8) hd_or_def distinct_filter of_src_def\<close>)
      qed simp
      then show ?thesis using that True L unfolding src_list_def m by (auto simp: q'(9) d'_def nx)
    next
      case False
      then have b: "src_at q t = Some b" using that q'(9) by simp
      have "of_src q t (a # gs) = of_src q t gs" using False s by (simp add: of_src_def)
      then have "src_list q b (of_src q t gs)" using c b by (metis q_core_def)
      moreover have "dll (fld psrcNext q') (fld psrcPrev q') None (of_src q t gs) None = dll (fld psrcNext q) (fld psrcPrev q) None (of_src q t gs) None"
      proof (rule dll_cong)
        fix c assume "c \<in> set (of_src q t gs)"
        then have "c \<notin> set ?as" using False by (auto simp: of_src_def)
        then show "fld psrcNext q' c = fld psrcNext q c \<and> fld psrcPrev q' c = fld psrcPrev q c"
          by (auto simp: q'(7,8) hd_or_def)
      qed
      ultimately show ?thesis unfolding src_list_def m by simp
    qed
  qed
  have "q_core q' gs"
    unfolding q_core_def o using sl dis c S(1) e(1) q'(9) by (auto simp: q_core_def)
  then show ?thesis using q' by blast
qed


definition is_old :: "(PktLink \<Rightarrow> bool) \<Rightarrow> u32 \<Rightarrow> 'na PktQueue \<Rightarrow> addr \<Rightarrow> bool" where
  "is_old delayed ts q a \<longleftrightarrow> shiftedTimestamp (the (pktHeap q a)) < ts \<or> delayed (the (pktHeap q a))"

lemma count_old_dll:
  "dll (fld nx q) P pr gs None \<Longrightarrow> set gs \<subseteq> dom (pktHeap q) \<Longrightarrow>
   count_old nx delayed (pktHeap q) ts (hd_or gs None) = Some (length (takeWhile (is_old delayed ts q) gs))"
proof (induction gs arbitrary: pr)
  case Nil
  then show ?case by (subst count_old.simps) simp
next
  case (Cons a gs)
  then obtain l where l: "pktHeap q a = Some l" by auto
  then have "nx l = hd_or gs None" using Cons.prems(1) by (simp add: fld_def)
  moreover have "is_old delayed ts q a \<longleftrightarrow> shiftedTimestamp l < ts \<or> delayed l" by (simp add: is_old_def l)
  moreover have "count_old nx delayed (pktHeap q) ts (hd_or gs None) = Some (length (takeWhile (is_old delayed ts q) gs))"
    using Cons.IH [of "Some a"] Cons.prems by simp
  ultimately show ?case using l by (subst count_old.simps) simp
qed

text \<open>The queue while its first packets are being dropped: only the predecessor of the first packet and the tail of an
  empty queue are out of date.\<close>

definition q_tail :: "'na PktQueue \<Rightarrow> addr list \<Rightarrow> bool" where
  "q_tail q gs \<longleftrightarrow> q_core q gs \<and> recvFirst q = hd_or gs None \<and> (gs \<noteq> [] \<longrightarrow> recvLast q = last_or gs None) \<and>
     (\<exists>pr. dll (fld pnext q) (fld pprev q) pr gs None)"

lemma q_core_free:
  fixes q :: "'na PktQueue"
  assumes "q_core q gs" "a \<notin> set gs"
  shows "q_core (free_pkt a q) gs"
  by (rule q_core_cong [OF assms(1)]) (use assms(2) in \<open>auto simp: free_pkt_def src_at_def fun_eq_iff\<close>)

lemma drop_any_step:
  fixes q :: "'na PktQueue"
  assumes t: "q_tail q (a # gs)"
  shows "\<exists>q'. (\<forall>n. drop_any (Suc n) q = drop_any n q') \<and> q_tail q' gs \<and> pktHeap q' a = None \<and>
    (\<forall>c. c \<noteq> a \<longrightarrow> map_option (\<lambda>l. (lpacket l, psource l, receptionTime l, shiftedTimestamp l)) (pktHeap q' c) =
       map_option (\<lambda>l. (lpacket l, psource l, receptionTime l, shiftedTimestamp l)) (pktHeap q c))"
proof -
  obtain l where l: "pktHeap q a = Some l" using t unfolding q_tail_def q_core_def by auto
  obtain pr where d: "dll (fld pnext q) (fld pprev q) pr (a # gs) None" using t by (auto simp: q_tail_def)
  let ?q = "q\<lparr>recvFirst := pnext l\<rparr>"
  have c: "q_core ?q (a # gs)" by (rule q_core_cong [of q]) (use t in \<open>auto simp: q_tail_def src_at_def fun_eq_iff\<close>)
  have l': "pktHeap ?q a = Some l" using l by simp
  obtain q1 where q1: "unlink_first l ?q = Some q1" "q_core q1 gs" "same_data ?q q1" "fld pnext q1 = fld pnext ?q" "fld pprev q1 = fld pprev ?q"
    "recvFirst q1 = recvFirst ?q" "recvLast q1 = recvLast ?q"
    using unlink_first_core [OF c l'] by blast
  have a: "a \<notin> set gs" using t by (simp add: q_tail_def q_core_def)
  have f: "fld f (free_pkt a q1) b = fld f q1 b" if "b \<in> set gs" for f b using that a by (auto simp: fld_def free_pkt_def)
  have "dll (fld pnext q) (fld pprev q) (Some a) gs None" using d by simp
  moreover have "fld pnext (free_pkt a q1) b = fld pnext q b \<and> fld pprev (free_pkt a q1) b = fld pprev q b" if "b \<in> set gs" for b
    unfolding f [OF that] q1(4,5) by (simp add: fld_def)
  then have "dll (fld pnext (free_pkt a q1)) (fld pprev (free_pkt a q1)) (Some a) gs None = dll (fld pnext q) (fld pprev q) (Some a) gs None"
    by (rule dll_cong)
  ultimately have d1: "\<exists>pr. dll (fld pnext (free_pkt a q1)) (fld pprev (free_pkt a q1)) pr gs None" by blast
  have "pnext l = hd_or gs None" using d l by (simp add: fld_def)
  then have r: "recvFirst (free_pkt a q1) = hd_or gs None" "recvLast (free_pkt a q1) = recvLast q"
    using q1(6,7) by (simp_all add: free_pkt_def)
  have "gs \<noteq> [] \<Longrightarrow> recvLast q = last_or gs None" using t by (simp add: q_tail_def last_or_def)
  then have "q_tail (free_pkt a q1) gs"
    unfolding q_tail_def using r d1 q_core_free [OF q1(2) a] by simp
  moreover have "recvFirst q = Some a" using t by (simp add: q_tail_def)
  then have "drop_any (Suc n) q = drop_any n (free_pkt a q1)" for n using l q1(1) by simp
  moreover have "pktHeap (free_pkt a q1) a = None" by (simp add: free_pkt_def)
  ultimately show ?thesis using q1(3) by (intro exI [of _ "free_pkt a q1"]) (auto simp: same_data_def free_pkt_def)
qed

lemma drop_any_run:
  fixes q :: "'na PktQueue"
  assumes "q_tail q (xs @ gs)"
  shows "\<exists>q'. drop_any (length xs) q = Some q' \<and> q_tail q' gs \<and> (\<forall>x\<in>set xs. pktHeap q' x = None) \<and>
    (\<forall>c. c \<notin> set xs \<longrightarrow> map_option (\<lambda>l. (lpacket l, psource l, receptionTime l, shiftedTimestamp l)) (pktHeap q' c) =
       map_option (\<lambda>l. (lpacket l, psource l, receptionTime l, shiftedTimestamp l)) (pktHeap q c))"
  using assms
proof (induction xs arbitrary: q)
  case (Cons x xs)
  obtain q1 where q1: "\<And>n. drop_any (Suc n) q = drop_any n q1" "q_tail q1 (xs @ gs)" "pktHeap q1 x = None"
    "\<And>c. c \<noteq> x \<Longrightarrow> map_option (\<lambda>l. (lpacket l, psource l, receptionTime l, shiftedTimestamp l)) (pktHeap q1 c) =
       map_option (\<lambda>l. (lpacket l, psource l, receptionTime l, shiftedTimestamp l)) (pktHeap q c)"
    using drop_any_step [of q x "xs @ gs"] Cons.prems by auto
  obtain q2 where q2: "drop_any (length xs) q1 = Some q2" "q_tail q2 gs" "\<forall>x\<in>set xs. pktHeap q2 x = None"
    "\<And>c. c \<notin> set xs \<Longrightarrow> map_option (\<lambda>l. (lpacket l, psource l, receptionTime l, shiftedTimestamp l)) (pktHeap q2 c) =
       map_option (\<lambda>l. (lpacket l, psource l, receptionTime l, shiftedTimestamp l)) (pktHeap q1 c)"
    using Cons.IH [OF q1(2)] by blast
  have "pktHeap q2 x = None"
    using q2(3) q2(4) [of x] q1(3) by (cases "x \<in> set xs") auto
  then show ?case using q1 q2 by (intro exI [of _ q2]) (simp del: drop_any.simps)
qed auto


lemma q_tail_fix:
  fixes q :: "'na PktQueue"
  assumes t: "q_tail q (r # gs)" and l: "pktHeap q r = Some l"
  shows "\<exists>q'. upd_pkt (Some r) (\<lambda>l. l\<lparr>pprev := None\<rparr>) q = Some q' \<and> q_inv q' (r # gs) \<and> dom (pktHeap q') = dom (pktHeap q)"
proof -
  let ?q = "q\<lparr>pktHeap := (pktHeap q)(r \<mapsto> l\<lparr>pprev := None\<rparr>)\<rparr>"
  obtain pr where d: "dll (fld pnext q) (fld pprev q) pr (r # gs) None" "distinct (r # gs)" "recvFirst q = Some r" "recvLast q = last_or (r # gs) None"
    using t by (auto simp: q_tail_def q_core_def)
  have "q_core ?q (r # gs)" by (rule q_core_cong [of q]) (use t l in \<open>auto simp: q_tail_def src_at_def fun_eq_iff\<close>)
  moreover have "dll (fld pnext ?q) (fld pprev ?q) None (r # gs) None"
    by (rule dll_set_prev [OF d(1,2)]) (use l in \<open>auto simp: fld_def\<close>)
  ultimately have "q_inv ?q (r # gs)" unfolding q_inv_core using d(3,4) by simp
  then show ?thesis using l by (auto simp: upd_pkt_simp)
qed

lemma take_first:
  fixes q :: "'na PktQueue"
  assumes t: "q_tail q (r # gs)" and l: "pktHeap q r = Some l"
  shows "\<exists>q'. do { let q = q\<lparr>recvFirst := pnext l\<rparr>;
                 q \<leftarrow> (if pnext l \<noteq> None then upd_pkt (pnext l) (\<lambda>m. m\<lparr>pprev := None\<rparr>) q else Some (q\<lparr>recvLast := None\<rparr>));
                 l \<leftarrow> pktHeap q r; q \<leftarrow> unlink_first l q; Some (Some r, q) } = Some (Some r, q') \<and>
    q_inv q' gs \<and> dom (pktHeap q') = dom (pktHeap q) \<and> map_option lpacket (pktHeap q' r) = Some (lpacket l) \<and> map_option psource (pktHeap q' r) = Some (psource l)"
proof -
  obtain pr where d: "dll (fld pnext q) (fld pprev q) pr (r # gs) None" "distinct (r # gs)" "set (r # gs) \<subseteq> dom (pktHeap q)" "q_core q (r # gs)"
    using t by (auto simp: q_tail_def q_core_def)
  have nl: "pnext l = hd_or gs None" using d(1) l by (simp add: fld_def)
  define q1 where "q1 = (case gs of [] \<Rightarrow> q\<lparr>recvFirst := None, recvLast := None\<rparr>
     | n # _ \<Rightarrow> q\<lparr>recvFirst := Some n, pktHeap := (pktHeap q)(n \<mapsto> (the (pktHeap q n))\<lparr>pprev := None\<rparr>)\<rparr>)"
  have n: "n \<noteq> r \<and> (\<exists>m. pktHeap q n = Some m)" if "gs = n # ns" for n ns using d(2,3) that by auto
  have s1: "(if pnext l \<noteq> None then upd_pkt (pnext l) (\<lambda>m. m\<lparr>pprev := None\<rparr>) (q\<lparr>recvFirst := pnext l\<rparr>)
      else Some ((q\<lparr>recvFirst := pnext l\<rparr>)\<lparr>recvLast := None\<rparr>)) = Some q1"
    using nl n by (auto simp: q1_def upd_pkt_def split: list.splits)
  have h1: "pktHeap q1 r = Some l" using l n by (auto simp: q1_def split: list.split)
  have c1: "q_core q1 (r # gs)"
    by (rule q_core_cong [OF d(4)]) (use n in \<open>auto simp: q1_def src_at_def fun_eq_iff split: list.split\<close>)
  have dom1: "dom (pktHeap q1) = dom (pktHeap q)" using n by (auto simp: q1_def split: list.split)
  have "dll (fld pnext q) (fld pprev q) (Some r) gs None" using d(1) by simp
  then have d1: "dll (fld pnext q1) (fld pprev q1) None gs None"
    by (rule dll_set_prev) (use n d(2) in \<open>auto simp: q1_def fld_def split: list.splits\<close>)
  have r1: "recvFirst q1 = hd_or gs None" "recvLast q1 = last_or gs None"
    using t by (auto simp: q1_def q_tail_def last_or_def split: list.split)
  obtain q2 where q2: "unlink_first l q1 = Some q2" "q_core q2 gs" "same_data q1 q2" "fld pnext q2 = fld pnext q1" "fld pprev q2 = fld pprev q1"
    "recvFirst q2 = recvFirst q1" "recvLast q2 = recvLast q1"
    using unlink_first_core [OF c1 h1] by blast
  have "q_inv q2 gs" unfolding q_inv_core using q2 d1 r1 by simp
  moreover have "dom (pktHeap q2) = dom (pktHeap q)" using same_dataD(1) [OF q2(3)] dom1 by simp
  moreover have "map_option lpacket (pktHeap q2 r) = Some (lpacket l) \<and> map_option psource (pktHeap q2 r) = Some (psource l)"
  proof -
    have "map_option (\<lambda>l. (lpacket l, psource l, receptionTime l, shiftedTimestamp l)) (pktHeap q2 r) =
        Some (lpacket l, psource l, receptionTime l, shiftedTimestamp l)"
      using q2(3) h1 unfolding same_data_def by simp
    then show ?thesis by (cases "pktHeap q2 r") simp_all
  qed
  ultimately show ?thesis using s1 h1 q2(1) by (intro exI [of _ q2]) simp
qed

text \<open>What a query for any source does to the list of the queue: old packets are dropped from the front, and the first of the rest is
  taken out unless it is too new.\<close>

definition query :: "(PktLink \<Rightarrow> bool) \<Rightarrow> u32 \<Rightarrow> 'na PktQueue \<Rightarrow> addr list \<Rightarrow> addr option \<times> addr list" where
  "query delayed ts q gs =
     (case dropWhile (is_old delayed ts q) gs of
        [] \<Rightarrow> (None, [])
      | r # rs \<Rightarrow> if shiftedTimestamp (the (pktHeap q r)) > ts then (None, r # rs) else (Some r, rs))"

lemma getWaiting_any_ok:
  fixes q :: "'na PktQueue"
  assumes inv: "q_inv q gs"
  shows "\<exists>q'. getWaiting_any delayed ts q = Some (fst (query delayed ts q gs), q') \<and> q_inv q' (snd (query delayed ts q gs)) \<and>
    (\<forall>r. fst (query delayed ts q gs) = Some r \<longrightarrow>
       map_option lpacket (pktHeap q' r) = map_option lpacket (pktHeap q r) \<and> map_option psource (pktHeap q' r) = map_option psource (pktHeap q r)) \<and>
    (\<forall>x\<in>set (takeWhile (is_old delayed ts q) gs). pktHeap q' x = None)"
proof -
  note D = q_invD [OF inv]
  let ?xs = "takeWhile (is_old delayed ts q) gs" and ?ys = "dropWhile (is_old delayed ts q) gs"
  have co: "count_old pnext delayed (pktHeap q) ts (recvFirst q) = Some (length ?xs)"
    unfolding D(3) by (rule count_old_dll [OF D(5,2)])
  have "q_tail q (?xs @ ?ys)" using inv unfolding q_inv_core q_tail_def by auto
  then obtain q1 where q1: "drop_any (length ?xs) q = Some q1" "q_tail q1 ?ys" "\<forall>x\<in>set ?xs. pktHeap q1 x = None"
    "\<And>c. c \<notin> set ?xs \<Longrightarrow> map_option (\<lambda>l. (lpacket l, psource l, receptionTime l, shiftedTimestamp l)) (pktHeap q1 c) =
       map_option (\<lambda>l. (lpacket l, psource l, receptionTime l, shiftedTimestamp l)) (pktHeap q c)"
    using drop_any_run by blast
  show ?thesis
  proof (cases ?ys)
    case Nil
    have "q_inv (q1\<lparr>recvLast := None\<rparr>) []"
      using q1(2) Nil by (auto simp: q_tail_def q_inv_def q_core_def src_at_def src_list_def of_src_def)
    moreover have "recvFirst q1 = None" using q1(2) Nil by (simp add: q_tail_def)
    moreover have "query delayed ts q gs = (None, [])" unfolding query_def Nil by simp
    ultimately show ?thesis
      using co q1(1,3) by (intro exI [of _ "q1\<lparr>recvLast := None\<rparr>"]) (simp add: getWaiting_any_def)
  next
    case (Cons r rs)
    have rn: "r \<notin> set ?xs" "r \<in> set gs" using D(1) Cons takeWhile_dropWhile_id [of "is_old delayed ts q" gs]
      by (metis disjoint_iff distinct_append list.set_intros(1), metis in_set_conv_decomp)
    obtain l0 where l0: "pktHeap q r = Some l0" using rn(2) D(2) by blast
    obtain l where l: "pktHeap q1 r = Some l" "lpacket l = lpacket l0" "psource l = psource l0" "shiftedTimestamp l = shiftedTimestamp l0"
      using q1(4) [OF rn(1)] l0 by auto
    have r1: "recvFirst q1 = Some r" using q1(2) Cons by (simp add: q_tail_def)
    show ?thesis
    proof (cases "shiftedTimestamp l > ts")
      case True
      obtain q2 where q2: "upd_pkt (Some r) (\<lambda>l. l\<lparr>pprev := None\<rparr>) q1 = Some q2" "q_inv q2 (r # rs)" "dom (pktHeap q2) = dom (pktHeap q1)"
        using q_tail_fix [of q1 r rs l] q1(2) Cons l(1) by auto
      have "query delayed ts q gs = (None, r # rs)" using True Cons l0 l(4) by (simp add: query_def)
      moreover have "pktHeap q2 x = None" if "x \<in> set ?xs" for x using q1(3) that q2(3) by (metis domIff)
      moreover have "getWaiting_any delayed ts q = Some (None, q2)"
        using co q1(1) r1 l(1) True q2(1) by (simp add: getWaiting_any_def)
      ultimately show ?thesis using q2(2) by auto
    next
      case False
      obtain q2 where q2: "do { let q = q1\<lparr>recvFirst := pnext l\<rparr>;
                 q \<leftarrow> (if pnext l \<noteq> None then upd_pkt (pnext l) (\<lambda>m. m\<lparr>pprev := None\<rparr>) q else Some (q\<lparr>recvLast := None\<rparr>));
                 l \<leftarrow> pktHeap q r; q \<leftarrow> unlink_first l q; Some (Some r, q) } = Some (Some r, q2)"
        "q_inv q2 rs" "dom (pktHeap q2) = dom (pktHeap q1)" "map_option lpacket (pktHeap q2 r) = Some (lpacket l)"
        "map_option psource (pktHeap q2 r) = Some (psource l)"
        using take_first [OF q1(2) [unfolded Cons] l(1)] by blast
      have "query delayed ts q gs = (Some r, rs)" using False Cons l0 l(4) by (simp add: query_def)
      moreover have "pktHeap q2 x = None" if "x \<in> set ?xs" for x using q1(3) that q2(3) by (metis domIff)
      moreover have "getWaiting_any delayed ts q = Some (Some r, q2)"
        using co q1(1) r1 l(1) False q2(1) by (simp add: getWaiting_any_def)
      ultimately show ?thesis using q2(2,4,5) l l0 by auto
    qed
  qed
qed


section \<open>Properties\<close>

lemma new_pkt_fresh:
  fixes q :: "'na PktQueue"
  assumes "q_inv q gs" "\<forall>a\<in>dom (pktHeap q). a < nextPkt q" "src_at q s \<noteq> None"
  shows "q_inv (snd (new_pkt pkt s t ts q)) gs" "fresh_link (snd (new_pkt pkt s t ts q)) gs (nextPkt q)"
proof -
  have n: "nextPkt q \<notin> set gs" using assms(1,2) by (auto simp: q_inv_def)
  let ?q = "snd (new_pkt pkt s t ts q)"
  have e: "pktHeap ?q c = pktHeap q c" if "c \<in> set gs" for c using that n by (auto simp: new_pkt_def)
  have "q_core ?q gs"
    by (rule q_core_cong [of q]) (use assms(1) e in \<open>auto simp: q_inv_core src_at_def new_pkt_def fun_eq_iff\<close>)
  moreover have "dll (fld pnext ?q) (fld pprev ?q) None gs None = dll (fld pnext q) (fld pprev q) None gs None"
    by (rule dll_cong) (use e in \<open>auto simp: fld_def\<close>)
  ultimately show "q_inv ?q gs" using assms(1) unfolding q_inv_core by (simp add: new_pkt_def)
  show "fresh_link ?q gs (nextPkt q)" using n assms(3) by (auto simp: fresh_link_def new_pkt_def srcof_def src_at_def)
qed

text \<open>
  A packet that is older than the first packet of the whole queue, which comes from the same source, is linked in before it, but the
  queue still starts at the former first packet: following the links from its start never meets the new packet.
\<close>

theorem late_first_packet_unreachable:
  fixes q :: "'na PktQueue"
  assumes inv: "q_inv q gs" and f: "fresh_link q gs a" and h: "new_head q a gs"
  shows "\<exists>q'. insertRecvPacket a q = Some (True, q') \<and> recvFirst q' = Some (hd gs) \<and>
    dll (fld pnext q') (fld pprev q') (Some a) gs None \<and> a \<notin> set gs"
proof -
  note D = q_invD [OF inv]
  let ?s = "srcof q a"
  obtain n ys where g: "gs = n # ys" "srcof q n = ?s" "seqof q a < seqof q n" using h by (cases gs) (auto simp: new_head_def)
  obtain d where d: "src_at q ?s = Some d" using f by (auto simp: fresh_link_def)
  let ?asr = "of_src q ?s ys"
  have e: "of_src q ?s gs = n # ?asr" "of_src q ?s (n # ys) = n # ?asr" using g(1,2) by (simp_all add: of_src_def)
  have "sorted (map (seqof q) (n # ?asr))" using D(6) [OF d] unfolding e(1) by (simp add: src_list_def)
  then have sq: "\<forall>y\<in>set (n # ?asr). seqof q a < seqof q y" using g(3) by (auto intro: less_le_trans)
  obtain q' where "insertRecvPacket a q = Some (True, q')" "recvFirst q' = recvFirst q"
    "dll (fld pnext q') (fld pprev q') None ([] @ a # n # ys) None"
    using insert_front_ok [OF inv f e(1) sq, of "[]" ys] g(1) e(2) by (auto simp: of_src_def)
  then show ?thesis using D(3) g(1) f by (auto simp: fresh_link_def)
qed

text \<open>
  C6: inserting a fresh packet link, in every case. A packet with the number of the last packet of its source is freed and the
  queue stays as it is. A packet that would have to become the first of the whole queue (the first packet is of the same source
  and has a larger 16-bit number, as also happens when the numbers wrap around) is linked in before it but not made the
  first: the start of the queue and the links from there on still list the old packets only. In every other case the operation
  refines insertion into a list: the packet is put behind the packets of its source with numbers up to its own and directly
  before the next one, or at the end, in both lists, and the invariant holds again.
\<close>

theorem insertRecvPacket_refines:
  fixes q :: "'na PktQueue"
  assumes "q_inv q gs" "fresh_link q gs a"
  shows "if is_dup q a gs then insertRecvPacket a q = Some (False, free_pkt a q) \<and> q_inv (free_pkt a q) gs
    else if new_head q a gs then \<exists>q'. insertRecvPacket a q = Some (True, q') \<and> recvFirst q' = Some (hd gs) \<and>
      dll (fld pnext q') (fld pprev q') (Some a) gs None \<and> a \<notin> set gs
    else \<exists>q' gs'. insertRecvPacket a q = Some (True, q') \<and> q_inv q' gs' \<and> placed q a gs gs' \<and> same_data q q'"
proof (cases "is_dup q a gs")
  case True
  then have "insertRecvPacket a q = Some (False, free_pkt a q)"
    using insert_dup_ok [OF assms(1,2) refl] by (auto simp: is_dup_def Let_def)
  moreover have "a \<notin> set gs" using assms(2) by (simp add: fresh_link_def)
  ultimately show ?thesis using True q_inv_free [OF assms(1)] by simp
next
  case False
  then show ?thesis using insert_ok [OF assms(1,2)] late_first_packet_unreachable [OF assms] by simp
qed

definition sample_incoming :: "u16 \<Rightarrow> IncomingRTPPkt" where
  "sample_incoming sn = RTPPacket.extend (fst (sample_rtp sn)) \<lparr>headerValid = True, cachedSSRC = 7\<rparr>"

definition sample_queue0 :: "unit PktQueue" where
  "sample_queue0 = \<lparr>qmembers = \<lparr>linkHeap = [0 \<mapsto> sample_link], nextAddr = 1, sourceLinks = [Some 0], srcFirst = Some 0,
     srcLast = Some 0, membersCount = 1, activeSenders = 0\<rparr>, pktHeap = Map.empty, nextPkt = 0, recvFirst = None, recvLast = None\<rparr>"

definition sample_queue :: "u16 \<Rightarrow> unit PktQueue" where
  "sample_queue sn = snd (new_pkt (sample_incoming sn) 0 time0 0 sample_queue0)"

lemma src_at_sample0: "src_at sample_queue0 s = (if s = 0 then Some (linkData sample_link) else None)"
  by (simp add: src_at_def sample_queue0_def)

lemma sample_queue_ok: "q_inv (sample_queue sn) []" "fresh_link (sample_queue sn) [] 0"
proof -
  have i: "q_inv sample_queue0 []"
    unfolding q_inv_def
    by (auto simp: src_at_sample0 src_list_def of_src_def sample_link_def initStats_def blank_source_def)
       (auto simp: sample_queue0_def)
  have "\<forall>a\<in>dom (pktHeap sample_queue0). a < nextPkt sample_queue0" "src_at sample_queue0 0 \<noteq> None"
    by (simp_all add: src_at_sample0) (simp add: sample_queue0_def)
  from new_pkt_fresh [OF i this] show "q_inv (sample_queue sn) []" "fresh_link (sample_queue sn) [] 0"
    by (simp_all add: sample_queue_def sample_queue0_def)
qed

lemma seqof_sample: "seqof (sample_queue sn) 0 = sn" "srcof (sample_queue sn) 0 = 0" "nextPkt (sample_queue sn) = 1"
  by (simp_all add: sample_queue_def new_pkt_def sample_queue0_def seqof_def srcof_def sample_incoming_def sample_rtp_def
      getSeqNum_def RTPPacket.defs)

lemma sample_one:
  obtains q :: "unit PktQueue" where "q_inv q [0]" "nextPkt q = 1" "dom (pktHeap q) = {0}" "srcof q 0 = 0" "seqof q 0 = 5"
    "src_at q 0 \<noteq> None" "shiftedTimestamp (the (pktHeap q 0)) = 0"
proof -
  have "\<not> is_dup (sample_queue 5) 0 []" "\<not> new_head (sample_queue 5) 0 []"
    by (simp_all add: is_dup_def of_src_def new_head_def)
  then obtain q gs where q: "q_inv q gs" "placed (sample_queue 5) 0 [] gs" "same_data (sample_queue 5) q"
    using insert_ok [OF sample_queue_ok] by blast
  have gs: "gs = [0]" using q(2) by (auto simp: placed_def)
  have h: "pktHeap (sample_queue 5) = [0 \<mapsto> \<lparr>lpacket = sample_incoming 5, psource = 0, pprev = None, pnext = None, psrcPrev = None,
      psrcNext = None, receptionTime = time0, shiftedTimestamp = 0\<rparr>]"
    by (simp add: sample_queue_def new_pkt_def sample_queue0_def)
  note S = same_dataD [OF q(3)]
  have s: "srcof q 0 = 0" "seqof q 0 = 5" "shiftedTimestamp (the (pktHeap q 0)) = 0" "dom (pktHeap q) = {0}"
    using S(1) S(2-4) [of 0] seqof_sample h by simp_all
  moreover have "src_at q 0 \<noteq> None" using q_invD(7) [OF q(1), of 0] gs s(1) by simp
  moreover have "nextPkt q = 1" using q(3) seqof_sample(3) by (simp add: same_data_def)
  ultimately show thesis using that q(1) gs by blast
qed

text \<open>One packet in the queue, and another one just allocated.\<close>

lemma sample_two:
  obtains q :: "unit PktQueue" where "q_inv q [0]" "fresh_link q [0] 1" "srcof q 0 = 0" "srcof q 1 = 0" "seqof q 0 = 5" "seqof q 1 = sn"
    "shiftedTimestamp (the (pktHeap q 0)) = 0" "shiftedTimestamp (the (pktHeap q 1)) = ts" "{0, 1} \<subseteq> dom (pktHeap q)"
proof -
  obtain q :: "unit PktQueue" where q: "q_inv q [0]" "nextPkt q = 1" "dom (pktHeap q) = {0}" "srcof q 0 = 0" "seqof q 0 = 5"
    "src_at q 0 \<noteq> None" "shiftedTimestamp (the (pktHeap q 0)) = 0" by (rule sample_one)
  have lt: "\<forall>a\<in>dom (pktHeap q). a < nextPkt q" using q(2,3) by simp
  let ?q = "snd (new_pkt (sample_incoming sn) 0 time0 ts q)"
  have "srcof ?q 0 = 0" "seqof ?q 0 = 5" "srcof ?q 1 = 0" "seqof ?q 1 = sn"
    "shiftedTimestamp (the (pktHeap ?q 0)) = 0" "shiftedTimestamp (the (pktHeap ?q 1)) = ts" "{0, 1} \<subseteq> dom (pktHeap ?q)"
    using q(2-7) by (auto simp: seqof_def srcof_def new_pkt_def sample_incoming_def sample_rtp_def getSeqNum_def RTPPacket.defs)
  then show thesis using that [of ?q] new_pkt_fresh [OF q(1) lt q(6)] q(2) by simp
qed

theorem insertRecvPacket_refines_witness:
  "(\<exists>q' gs'. insertRecvPacket 0 (sample_queue 5) = Some (True, q') \<and> q_inv q' gs' \<and>
     placed (sample_queue 5) 0 [] gs' \<and> same_data (sample_queue 5) q') \<and>
   (\<exists>q :: unit PktQueue. new_head q 1 [0] \<and> (\<exists>q'. insertRecvPacket 1 q = Some (True, q') \<and> recvFirst q' = Some 0 \<and>
     dll (fld pnext q') (fld pprev q') (Some 1) [0] None)) \<and>
   (\<exists>q :: unit PktQueue. is_dup q 1 [0] \<and> insertRecvPacket 1 q = Some (False, free_pkt 1 q)) \<and>
   (\<exists>(q :: unit PktQueue) q' gs'. insertRecvPacket 1 q = Some (True, q') \<and> q_inv q' gs' \<and> placed q 1 [0] gs')"
proof (intro conjI)
  show "\<exists>q' gs'. insertRecvPacket 0 (sample_queue 5) = Some (True, q') \<and> q_inv q' gs' \<and>
     placed (sample_queue 5) 0 [] gs' \<and> same_data (sample_queue 5) q'"
    using insertRecvPacket_refines [OF sample_queue_ok, of 5] by (simp add: new_head_def is_dup_def of_src_def)
  obtain q :: "unit PktQueue" where q: "q_inv q [0]" "fresh_link q [0] 1" "srcof q 0 = 0" "srcof q 1 = 0" "seqof q 0 = 5" "seqof q 1 = 3"
    by (rule sample_two [of 3 0])
  have "new_head q 1 [0]" "\<not> is_dup q 1 [0]" using q(3-6) by (simp_all add: new_head_def is_dup_def of_src_def)
  then show "\<exists>q :: unit PktQueue. new_head q 1 [0] \<and> (\<exists>q'. insertRecvPacket 1 q = Some (True, q') \<and> recvFirst q' = Some 0 \<and>
     dll (fld pnext q') (fld pprev q') (Some 1) [0] None)"
    using insertRecvPacket_refines [OF q(1,2)] by auto
  obtain q :: "unit PktQueue" where q: "q_inv q [0]" "fresh_link q [0] 1" "srcof q 0 = 0" "srcof q 1 = 0" "seqof q 0 = 5" "seqof q 1 = 5"
    by (rule sample_two [of 5 0])
  have "is_dup q 1 [0]" using q(3-6) by (simp add: is_dup_def of_src_def)
  then show "\<exists>q :: unit PktQueue. is_dup q 1 [0] \<and> insertRecvPacket 1 q = Some (False, free_pkt 1 q)"
    using insertRecvPacket_refines [OF q(1,2)] by auto
  obtain q :: "unit PktQueue" where q: "q_inv q [0]" "fresh_link q [0] 1" "srcof q 0 = 0" "srcof q 1 = 0" "seqof q 0 = 5" "seqof q 1 = 7"
    by (rule sample_two [of 7 0])
  have "\<not> new_head q 1 [0]" "\<not> is_dup q 1 [0]" using q(3-6) by (simp_all add: new_head_def is_dup_def of_src_def)
  then show "\<exists>(q :: unit PktQueue) q' gs'. insertRecvPacket 1 q = Some (True, q') \<and> q_inv q' gs' \<and> placed q 1 [0] gs'"
    using insertRecvPacket_refines [OF q(1,2)] by auto
qed

text \<open>
  C9: a query that names no source refines the list operation: it drops the old packets from the front of the queue, returns the next
  packet with its source unless it is too new, keeps the invariant for the rest and frees every link that left the queue.
\<close>

theorem getData_any_refines:
  fixes q :: "'na PktQueue"
  assumes inv: "q_inv q gs"
  shows "\<exists>q'. getData delayed ts None q =
      Some (map_option (\<lambda>r. (lpacket (the (pktHeap q r)), srcof q r)) (fst (query delayed ts q gs)), q') \<and>
    q_inv q' (snd (query delayed ts q gs)) \<and> (\<forall>x\<in>set gs - set (snd (query delayed ts q gs)). pktHeap q' x = None)"
proof -
  let ?xs = "takeWhile (is_old delayed ts q) gs"
  obtain r rs where qr: "query delayed ts q gs = (r, rs)" by fastforce
  obtain q1 where q1: "getWaiting_any delayed ts q = Some (r, q1)" "q_inv q1 rs" "\<forall>x\<in>set ?xs. pktHeap q1 x = None"
    "\<And>c. r = Some c \<Longrightarrow> map_option lpacket (pktHeap q1 c) = map_option lpacket (pktHeap q c) \<and> map_option psource (pktHeap q1 c) = map_option psource (pktHeap q c)"
    using getWaiting_any_ok [OF inv, of delayed ts] unfolding qr by auto
  have gs: "gs = ?xs @ (case r of None \<Rightarrow> rs | Some c \<Rightarrow> c # rs)"
  proof -
    have "dropWhile (is_old delayed ts q) gs = (case r of None \<Rightarrow> rs | Some c \<Rightarrow> c # rs)"
      using qr unfolding query_def
      by (cases "dropWhile (is_old delayed ts q) gs") (auto split: if_splits simp del: dropWhile_eq_Nil_conv)
    then show ?thesis by (metis takeWhile_dropWhile_id)
  qed
  show ?thesis
  proof (cases r)
    case None
    then have "x \<in> set ?xs" if "x \<in> set gs - set rs" for x using that gs by (metis DiffE UnE option.simps(4) set_append)
    then show ?thesis using q1 qr None by (auto simp: getData_def getWaiting_def)
  next
    case (Some c)
    have c: "c \<in> set gs" "c \<notin> set rs"
      using gs Some q_invD(1) [OF inv] by (metis in_set_conv_decomp option.simps(5), metis distinct.simps(2) distinct_append option.simps(5))
    obtain l0 where l0: "pktHeap q c = Some l0" using c(1) q_invD(2) [OF inv] by blast
    obtain l where l: "pktHeap q1 c = Some l" "lpacket l = lpacket l0" "psource l = psource l0"
      using q1(4) [OF Some] l0 by auto
    have "x \<in> set ?xs \<or> x = c" if "x \<in> set gs - set rs" for x
      using that gs Some by (metis DiffE UnE option.simps(5) set_append set_ConsD)
    then have "pktHeap (free_pkt c q1) x = None" if "x \<in> set gs - set rs" for x using that q1(3) by (auto simp: free_pkt_def)
    then show ?thesis
      using q1(1) q_inv_free [OF q1(2) c(2)] qr Some l l0 by (auto simp: getData_def getWaiting_def srcof_def)
  qed
qed

theorem getData_any_refines_witness:
  "\<exists>(q :: unit PktQueue) q'. q_inv q [0] \<and>
     getData (\<lambda>_. False) 0 None q =
       Some (map_option (\<lambda>r. (lpacket (the (pktHeap q r)), srcof q r)) (fst (query (\<lambda>_. False) 0 q [0])), q') \<and>
     q_inv q' (snd (query (\<lambda>_. False) 0 q [0]))"
proof -
  obtain q :: "unit PktQueue" where "q_inv q [0]" by (rule sample_one)
  with getData_any_refines [OF this, of "\<lambda>_. False" 0] show ?thesis by blast
qed

text \<open>
  When a query for a source expires the first packet of the queue and only newer packets of the source are left, the start of the
  queue is not moved: the queue reports a waiting packet, and the next access reads the freed link.
\<close>

theorem expired_head_dangling:
  fixes q :: "'na PktQueue"
  assumes inv: "q_inv q (a # gs)" and o: "of_src q s (a # gs) = a # n # as"
    and old: "is_old delayed ts q a" "\<not> is_old delayed ts q n" "ts < shiftedTimestamp (the (pktHeap q n))"
  shows "\<exists>q'. getWaiting delayed ts (Some s) q = Some (None, q') \<and> recvFirst q' = Some a \<and> pktHeap q' a = None \<and>
    isWaiting None q' = Some True \<and> getFirstTimestamp None q' = None"
proof -
  note D = q_invD [OF inv]
  have m: "a \<in> set (of_src q s (a # gs))" "n \<in> set (of_src q s (a # gs))" "distinct (of_src q s (a # gs))"
    using D(1) by (simp_all only: o list.set_intros insert_iff simp_thms) (simp_all add: of_src_def distinct_filter flip: o)
  have "a \<noteq> n" using m(3) unfolding o by simp
  then have s: "srcof q a = s" "srcof q n = s" "n \<in> set gs" using m(1,2) by (auto simp: of_src_def split: if_splits)
  have gn: "gs \<noteq> []" "a \<notin> set gs" using s(3) D(1) by auto
  obtain ls where ls: "linkHeap (qmembers q) s = Some ls" using D(7) [of a] s(1) by (auto simp: src_at_def)
  let ?d = "linkData ls" and ?g = "hd gs"
  have sd: "src_at q s = Some ?d" using ls by (simp add: src_at_def)
  have L: "src_list q ?d (a # n # as)" using D(6) [OF sd] o by simp
  obtain l mn lg where h: "pktHeap q a = Some l" "pktHeap q n = Some mn" "pktHeap q ?g = Some lg"
    using D(2) s(3) hd_in_set [OF gn(1)] by auto blast
  have f: "pktFirst ?d = Some a" "psrcNext l = Some n" "pprev l = None" "pnext l = Some ?g" "recvFirst q = Some a"
    using L D(3,5) h gn(1) by (auto simp: src_list_def fld_def hd_or_def)
  have "set (of_src q s (a # gs)) \<subseteq> set (a # gs)" unfolding of_src_def by (rule filter_is_subset)
  then have sub: "set (a # n # as) \<subseteq> dom (pktHeap q)" using D(2) unfolding o by (rule subset_trans)
  have "count_old psrcNext delayed (pktHeap q) ts (hd_or (a # n # as) None) = Some (length (takeWhile (is_old delayed ts q) (a # n # as)))"
    by (rule count_old_dll [OF _ sub, of _ "fld psrcPrev q" None]) (use L in \<open>simp add: src_list_def\<close>)
  then have co: "count_old psrcNext delayed (pktHeap q) ts (Some a) = Some 1" using old by simp
  have ne: "a \<noteq> n" "a \<noteq> ?g" using gn s(3) hd_in_set [OF gn(1)] by auto
  show ?thesis
    using h f ls sd co ne old(3)
    by (cases "?g = n") (auto simp: getWaiting_def getWaiting_src_def upd_src_simp upd_pkt_simp free_pkt_def src_at_def
        isWaiting_def getFirstTimestamp_def pkt_at_def)
qed


text \<open>Two packets of one source in order, with timestamps 0 and 160.\<close>

lemma sample_expired:
  "\<exists>q :: unit PktQueue. q_inv q [0, 1] \<and> of_src q 0 [0, 1] = [0, 1] \<and> shiftedTimestamp (the (pktHeap q 0)) = 0 \<and>
     shiftedTimestamp (the (pktHeap q 1)) = 160"
proof -
  obtain q :: "unit PktQueue" where q: "q_inv q [0]" "fresh_link q [0] 1" "srcof q 0 = 0" "srcof q 1 = 0" "seqof q 0 = 5" "seqof q 1 = 6"
    "shiftedTimestamp (the (pktHeap q 0)) = 0" "shiftedTimestamp (the (pktHeap q 1)) = 160" "{0, 1} \<subseteq> dom (pktHeap q)"
    by (rule sample_two [of 6 160])
  have "\<not> is_dup q 1 [0]" "\<not> new_head q 1 [0]" using q(3-6) by (simp_all add: is_dup_def of_src_def new_head_def)
  then obtain q2 gs2 where q2: "q_inv q2 gs2" "placed q 1 [0] gs2" "same_data q q2" using insert_ok [OF q(1,2)] by blast
  obtain xs ys where p: "[0] = xs @ ys" "gs2 = xs @ 1 # ys" "\<forall>y\<in>set (of_src q 0 ys). 6 < seqof q y"
    using q2(2) q(4,6) by (auto simp: placed_def)
  then have "gs2 = [0, 1]" using q(3,5) by (cases xs) (auto simp: of_src_def)
  then show ?thesis
    using q2(1) same_dataD(2,4) [OF q2(3)] q(3,4,7-9) by (intro exI [of _ q2]) (auto simp: of_src_def)
qed

theorem expired_head_dangling_witness:
  "\<exists>(q :: unit PktQueue) q'. q_inv q [0, 1] \<and> getWaiting (\<lambda>_. False) 100 (Some 0) q = Some (None, q') \<and> recvFirst q' = Some 0 \<and>
     pktHeap q' 0 = None \<and> getFirstTimestamp None q' = None"
proof -
  obtain q :: "unit PktQueue" where q: "q_inv q [0, 1]" "of_src q 0 [0, 1] = [0, 1]" "shiftedTimestamp (the (pktHeap q 0)) = 0"
    "shiftedTimestamp (the (pktHeap q 1)) = 160" using sample_expired by blast
  have "is_old (\<lambda>_. False) 100 q 0" "\<not> is_old (\<lambda>_. False) 100 q 1" "100 < shiftedTimestamp (the (pktHeap q 1))"
    using q(3,4) by (simp_all add: is_old_def)
  from expired_head_dangling [OF q(1,2) this] q(1) show ?thesis by blast
qed

section \<open>Purging\<close>

lemma purge_run:
  fixes q :: "'na PktQueue"
  assumes "distinct gs" "set gs \<subseteq> dom (pktHeap q)" "recvFirst q = hd_or gs None" "dll (fld pnext q) P pr gs None"
    "\<forall>a\<in>set gs. srcof q a \<in> dom (linkHeap (qmembers q))"
  shows "\<exists>q'. purgeIncomingQueue q = Some q' \<and> recvFirst q' = None \<and> recvLast q' = recvLast q \<and>
    (\<forall>c. pktHeap q' c = (if c \<in> set gs then None else pktHeap q c))"
  using assms
proof (induction gs arbitrary: q pr)
  case Nil
  then show ?case by (subst purgeIncomingQueue.simps) simp
next
  case (Cons a gs)
  then obtain l where l: "pktHeap q a = Some l" by auto
  then obtain ls where ls: "linkHeap (qmembers q) (psource l) = Some ls" using Cons.prems(5) by (auto simp: srcof_def)
  define q1 where "q1 = q\<lparr>qmembers := (qmembers q)\<lparr>linkHeap := (linkHeap (qmembers q))(psource l \<mapsto>
      ls\<lparr>linkData := (linkData ls)\<lparr>pktFirst := None, pktLast := None\<rparr>\<rparr>)\<rparr>\<rparr>"
  define q2 where "q2 = (free_pkt a q1)\<lparr>recvFirst := pnext l\<rparr>"
  have u: "upd_src (psource l) (\<lambda>d. d\<lparr>pktFirst := None, pktLast := None\<rparr>) q = Some q1"
    using ls by (simp add: upd_src_simp q1_def)
  have e: "pktHeap q2 c = (if c = a then None else pktHeap q c)" "recvLast q2 = recvLast q"
    "dom (linkHeap (qmembers q2)) = dom (linkHeap (qmembers q))" for c
    using ls by (auto simp: q2_def q1_def free_pkt_def)
  have ne: "c \<noteq> a" if "c \<in> set gs" for c using that Cons.prems(1) by auto
  have "\<exists>q'. purgeIncomingQueue q2 = Some q' \<and> recvFirst q' = None \<and> recvLast q' = recvLast q2 \<and>
      (\<forall>c. pktHeap q' c = (if c \<in> set gs then None else pktHeap q2 c))"
  proof (rule Cons.IH)
    show "set gs \<subseteq> dom (pktHeap q2)" using Cons.prems(2) ne by (auto simp: e(1))
    show "recvFirst q2 = hd_or gs None" using Cons.prems(4) l by (simp add: q2_def fld_def)
    have "dll (fld pnext q2) P (Some a) gs None = dll (fld pnext q) P (Some a) gs None"
      by (rule dll_cong) (use ne in \<open>auto simp: fld_def e(1)\<close>)
    then show "dll (fld pnext q2) P (Some a) gs None" using Cons.prems(4) by simp
    show "\<forall>c\<in>set gs. srcof q2 c \<in> dom (linkHeap (qmembers q2))"
      using Cons.prems(5) ne unfolding e(3) by (simp add: srcof_def e(1))
  qed (use Cons.prems(1) in simp)
  moreover have "purgeIncomingQueue q = purgeIncomingQueue q2"
    using Cons.prems(3) l u by (subst purgeIncomingQueue.simps) (simp add: q2_def)
  ultimately show ?case using e by auto
qed

text \<open>
  Purging ends, frees every packet link of the queue exactly once and resets the lists of the sources; but the end of the queue still
  points to the last packet, which is freed.
\<close>

theorem purge_frees_but_keeps_last:
  fixes q :: "'na PktQueue"
  assumes "q_inv q gs"
  shows "\<exists>q'. purgeIncomingQueue q = Some q' \<and> recvFirst q' = None \<and> (\<forall>c\<in>set gs. pktHeap q' c = None) \<and>
    recvLast q' = last_or gs None"
proof -
  note D = q_invD [OF assms]
  have "\<forall>a\<in>set gs. srcof q a \<in> dom (linkHeap (qmembers q))" using D(7) by (auto simp: src_at_def)
  from purge_run [OF D(1,2,3,5) this] show ?thesis using D(4) by auto
qed

theorem purge_frees_but_keeps_last_witness:
  "\<exists>(q :: unit PktQueue) q'. q_inv q [0] \<and> purgeIncomingQueue q = Some q' \<and> recvFirst q' = None \<and> pktHeap q' 0 = None \<and>
     recvLast q' = Some 0"
proof -
  obtain q :: "unit PktQueue" where "q_inv q [0]" by (rule sample_one)
  with purge_frees_but_keeps_last [OF this] show ?thesis by auto
qed

end
