(* ===== verification/Incoming_Queue.thy ===== *)
theory Incoming_Queue
  imports Packet_Queue Crypto_Store Srtp_Packet Collision
begin

text \<open>
  The handler of arriving data packets, \<^verbatim>\<open>IncomingDataQueue::takeInDataPacket\<close> of \<^verbatim>\<open>src/src/incqueue.cpp\<close>: it puts together
  the packet parser, the SRTP contexts of the queue, the table of sources, the collision check, the reception statistics and
  the packet lists. The datagram and its origin are what \<^verbatim>\<open>recvData\<close> returned (\<^term>\<open>None\<close> is an error); the virtual
  functions are fields of the environment, and the calls that only notify the application are recorded as events. A datagram of
  no bytes is not modelled further than that its first byte is read beyond the buffer.

  The lemmas show that the checks of a source and the registration of a new one leave the packet lists alone, and that the
  lists leave the table alone, so that both invariants survive the whole handler.
\<close>

section \<open>State and environment\<close>

datatype in_event = NewSyncSource u32 | SSRCCollision

record ('na, 'ak, 'hm) InQueue =
  iqPackets :: "'na PktQueue"
  iqConflicts :: "'na ConflictingTransportAddress list"
  iqContexts :: "('ak, 'hm) CryptoContext list"
  iqEnv :: tf_env
  localSSRC :: u32
  iqParams :: reception_params
  maxRecvPacketSize :: nat
  iqEvents :: "in_event list"

text \<open>The libraries, the contents of fresh memory, the rounding of the jitter and the virtual functions.\<close>

record ('na, 'ak, 'hm) in_env =
  libAes :: "'ak aes_lib"
  libHmac :: "'hm hmac_lib"
  ctxMem :: "nat \<Rightarrow> byte"
  stackMem :: "nat \<Rightarrow> byte"
  roundFloat :: "real \<Rightarrow> real"
  newSource :: "bool \<times> 'na SourceData"
  onSRTPPacketError :: "IncomingRTPPkt \<Rightarrow> int \<Rightarrow> bool"
  onRTPPacketRecv :: "IncomingRTPPkt \<Rightarrow> bool"

section \<open>Taking in a data packet\<close>

definition select_context ::
  "('na, 'ak, 'hm) in_env \<Rightarrow> u32 \<Rightarrow> ('na, 'ak, 'hm) InQueue
   \<Rightarrow> (('ak, 'hm) CryptoContext option \<times> ('na, 'ak, 'hm) InQueue) option" where
  "select_context E ssrc st =
     (case getInQueueCryptoContext ssrc (iqContexts st) of
        Some pcc \<Rightarrow> Some (Some pcc, st)
      | None \<Rightarrow>
          (case getInQueueCryptoContext 0 (iqContexts st) of
             None \<Rightarrow> Some (None, st)
           | Some pcc \<Rightarrow>
               do { let pcc = newCryptoContextForSSRC (ctxMem E) pcc ssrc 0 0;
                    (env, pcc) \<leftarrow> deriveSrtpKeys (libAes E) (libHmac E) (iqEnv st) pcc 0;
                    Some (Some pcc, st\<lparr>iqEnv := env, iqContexts := setInQueueCryptoContext pcc (iqContexts st)\<rparr>) }))"

definition unprotect_in ::
  "('na, 'ak, 'hm) in_env \<Rightarrow> IncomingRTPPkt \<Rightarrow> ('ak, 'hm) CryptoContext option \<Rightarrow> ('na, 'ak, 'hm) InQueue
   \<Rightarrow> (bool \<times> IncomingRTPPkt \<times> ('na, 'ak, 'hm) InQueue) option" where
  "unprotect_in E pkt pcco st =
     (case pcco of
        None \<Rightarrow> Some (True, pkt, st)
      | Some pcc \<Rightarrow>
          do { (ret, pkt, pcco) \<leftarrow> unprotect (libAes E) (libHmac E) (stackMem E) pkt (Some pcc);
               let st = (case pcco of None \<Rightarrow> st | Some pcc \<Rightarrow> st\<lparr>iqContexts := write_ctx pcc (iqContexts st)\<rparr>);
               Some (0 \<le> ret \<or> onSRTPPacketError E pkt ret, pkt, st) })"

text \<open>The source of the packet: registered when it is new, and its transport address.\<close>

definition first_contact ::
  "reception_params \<Rightarrow> bool \<Rightarrow> 'na \<Rightarrow> u16 \<Rightarrow> timeval \<Rightarrow> 'na SourceData \<Rightarrow> bool \<times> 'na SourceData" where
  "first_contact P created na tp recvtime d =
     (if created then
        let d = initStats (d\<lparr>dataTransportPort := tp, networkAddress := na\<rparr>);
            d = d\<lparr>initialDataTime := recvtime, probation := minValidPacketSequence P\<rparr>
        in getHello d
      else (False, if dataTransportPort d = 0 then d\<lparr>dataTransportPort := tp\<rparr> else d))"

text \<open>Whether the packet is to be queued, and the address of its source.\<close>

definition admit_packet ::
  "('na, 'ak, 'hm) in_env \<Rightarrow> 'na \<Rightarrow> u16 \<Rightarrow> timeval \<Rightarrow> IncomingRTPPkt \<Rightarrow> ('na, 'ak, 'hm) InQueue
   \<Rightarrow> (bool \<times> addr \<times> ('na, 'ak, 'hm) InQueue) option" where
  "admit_packet E na tp recvtime pkt st =
     do { (a, created, m) \<leftarrow> getSourceBySSRC (newSource E) (qmembers (iqPackets st)) (cachedSSRC pkt);
          l \<leftarrow> linkHeap m a;
          let (hello, d) = first_contact (iqParams st) created na tp recvtime (linkData l);
          let l = l\<lparr>linkData := d\<rparr>;
          r \<leftarrow> checkSSRCInIncomingRTPPkt recvtime (minValidPacketSequence (iqParams st)) (localSSRC st) created na tp l (iqConflicts st);
          let (ok, l) = (if accepted r then recordReception (roundFloat E) (iqParams st) pkt recvtime (colLink r) else (False, colLink r));
          let m = m\<lparr>linkHeap := (linkHeap m)(a \<mapsto> l)\<rparr>;
          Some (ok, a, st\<lparr>iqPackets := (iqPackets st)\<lparr>qmembers := m\<rparr>, iqConflicts := colConflicts r,
            iqEvents := iqEvents st @ (if hello then [NewSyncSource (cachedSSRC pkt)] else []) @
              (if newCollision r then [SSRCCollision] else [])\<rparr>) }"

definition queue_packet ::
  "addr \<Rightarrow> timeval \<Rightarrow> IncomingRTPPkt \<Rightarrow> 'na PktQueue \<Rightarrow> 'na PktQueue option" where
  "queue_packet a recvtime pkt q =
     do { d \<leftarrow> src_at q a;
          let (p, q) = new_pkt pkt a recvtime (getTimestamp pkt - initialDataTimestamp d) q;
          (_, q) \<leftarrow> insertRecvPacket p q;
          Some q }"

definition clear_padding :: "byte list \<Rightarrow> byte list" where
  "clear_padding buffer = (if bit (buffer ! 0) 5 then buffer[0 := buffer ! 0 AND 0xDF] else buffer)"

definition takeInDataPacket ::
  "('na, 'ak, 'hm) in_env \<Rightarrow> timeval \<Rightarrow> (byte list \<times> 'na \<times> u16) option \<Rightarrow> ('na, 'ak, 'hm) InQueue
   \<Rightarrow> (nat \<times> ('na, 'ak, 'hm) InQueue) option" where
  "takeInDataPacket E recvtime recvd st =
     (case recvd of
        None \<Rightarrow> Some (0, st)
      | Some (buffer, na, tp) \<Rightarrow>
        if maxRecvPacketSize st < length buffer then Some (0, st)
        else if buffer = [] then None
        else do {
          let padSet = bit (buffer ! 0) 5;
          packet \<leftarrow> newIncomingRTPPkt (clear_padding buffer);
          if \<not> headerValid packet then Some (0, st)
          else do {
            (pcc, st) \<leftarrow> select_context E (cachedSSRC packet) st;
            (keep, packet, st) \<leftarrow> unprotect_in E packet pcc st;
            if \<not> keep then Some (0, st)
            else do {
              packet \<leftarrow> (if padSet then reComputePayLength True packet else Some packet);
              if \<not> onRTPPacketRecv E packet then Some (0, st)
              else do {
                (ok, a, st) \<leftarrow> admit_packet E na tp recvtime packet st;
                if ok then
                  do { q \<leftarrow> queue_packet a recvtime packet (iqPackets st);
                       Some (length buffer, st\<lparr>iqPackets := q\<rparr>) }
                else Some (length buffer, st) } } } })"

section \<open>Frames\<close>

text \<open>A change of the table of sources that leaves the packet lists alone.\<close>

definition lists_of :: "'na SourceData Membership \<Rightarrow> addr \<Rightarrow> addr option \<times> addr option" where
  "lists_of m s = (case linkHeap m s of None \<Rightarrow> (None, None) | Some l \<Rightarrow> (pktFirst (linkData l), pktLast (linkData l)))"

definition lists_kept :: "'na SourceData Membership \<Rightarrow> 'na SourceData Membership \<Rightarrow> bool" where
  "lists_kept m m' \<longleftrightarrow> dom (linkHeap m) \<subseteq> dom (linkHeap m') \<and> lists_of m' = lists_of m"

lemma lists_kept_trans: "lists_kept m m' \<Longrightarrow> lists_kept m' m'' \<Longrightarrow> lists_kept m m''"
  unfolding lists_kept_def by auto

lemma lists_kept_upd:
  assumes "linkHeap m a = Some l" "pktFirst (linkData l') = pktFirst (linkData l)" "pktLast (linkData l') = pktLast (linkData l)"
  shows "lists_kept m (m\<lparr>linkHeap := (linkHeap m)(a \<mapsto> l')\<rparr>)"
  using assms by (auto simp: lists_kept_def lists_of_def fun_eq_iff)

lemma lists_kept_inv:
  fixes q :: "'na PktQueue"
  assumes inv: "q_inv q gs" and k: "lists_kept (qmembers q) m'"
  shows "q_inv (q\<lparr>qmembers := m'\<rparr>) gs"
proof -
  note D = q_invD [OF inv]
  let ?q = "q\<lparr>qmembers := m'\<rparr>"
  have f: "fld f ?q = fld f q" "srcof ?q = srcof q" "seqof ?q = seqof q" "of_src ?q = of_src q" for f
    by (simp_all add: fld_def srcof_def seqof_def of_src_def fun_eq_iff)
  have dom: "srcof q a \<in> dom (linkHeap (qmembers q))" if "a \<in> set gs" for a using D(7) [OF that] by (auto simp: src_at_def)
  have sl: "src_list ?q d' (of_src q s gs)" if d': "src_at ?q s = Some d'" for s d'
  proof -
    have "lists_of m' s = (pktFirst d', pktLast d')" using d' by (auto simp: src_at_def lists_of_def)
    then have e: "lists_of (qmembers q) s = (pktFirst d', pktLast d')" using k by (simp add: lists_kept_def)
    show ?thesis
    proof (cases "linkHeap (qmembers q) s")
      case None
      then have "of_src q s gs = []" using dom unfolding of_src_def filter_empty_conv by blast
      then show ?thesis using e None by (simp add: src_list_def lists_of_def)
    next
      case (Some l)
      then have "src_list q (linkData l) (of_src q s gs)" using D(6) by (simp add: src_at_def)
      then show ?thesis using e Some by (simp add: src_list_def f lists_of_def)
    qed
  qed
  have "src_at ?q (srcof q a) \<noteq> None" if "a \<in> set gs" for a
    using dom [OF that] k by (auto simp: src_at_def lists_kept_def)
  then show ?thesis using D(1-5) sl unfolding q_inv_def f by simp
qed

definition link_id :: "'d SyncSourceLink \<Rightarrow> u32 \<times> 'd" where
  "link_id l = (srcID l, linkData l)"

lemma upd_link_lists:
  assumes "upd_link p f m = Some m'" "\<And>l. link_id (f l) = link_id l"
  shows "dom (linkHeap m') = dom (linkHeap m)" "map_option link_id (linkHeap m' b) = map_option link_id (linkHeap m b)" "nextAddr m' = nextAddr m"
  using assms by (auto simp: upd_link_def split: Option.bind_splits if_splits)

lemma put_link_data:
  "put_link p i a m = Some m' \<Longrightarrow> map_option link_id (linkHeap m' b) = map_option link_id (linkHeap m b)"
  by (auto simp: put_link_def upd_link_lists(2) link_id_def split: if_splits)

lemma append_source_data:
  "append_source a m = Some m' \<Longrightarrow> map_option link_id (linkHeap m' b) = map_option link_id (linkHeap m b)"
  by (auto simp: append_source_def increaseMembersCount_def upd_link_lists(2) link_id_def split: if_splits Option.bind_splits)

lemma getSource_data:
  fixes m :: "'d Membership"
  assumes g: "getSourceBySSRC d0 m ssrc = Some (a, created, m')" and fr: "nextAddr m \<notin> dom (linkHeap m)"
  shows "map_option link_id (linkHeap m' b) = (if created \<and> b = a then Some (ssrc, snd d0) else map_option link_id (linkHeap m b))"
    "created \<Longrightarrow> a \<notin> dom (linkHeap m)"
proof -
  obtain prev result found where s: "src_search (linkHeap m) ssrc None (sourceLinks m ! HASH m ssrc) = Some (prev, result, found)"
    using g by (auto simp: getSourceBySSRC_def Let_def split: Option.bind_splits)
  have "if found then \<not> created \<and> m' = m else created \<and> a = nextAddr m \<and>
      map_option link_id (linkHeap m' b) = (if b = a then Some (ssrc, snd d0) else map_option link_id (linkHeap m b))"
  proof (cases found)
    case False
    obtain m1 where nl: "new_link d0 ssrc result m = (nextAddr m, m1)" by (simp add: new_link_def)
    then obtain m2 where p: "put_link prev (HASH m ssrc) (nextAddr m) m1 = Some m2" "append_source (nextAddr m) m2 = Some m'" "a = nextAddr m" created
      using g s False by (auto simp: getSourceBySSRC_def Let_def split: Option.bind_splits)
    have "map_option link_id (linkHeap m1 b) = (if b = a then Some (ssrc, snd d0) else map_option link_id (linkHeap m b))"
      using nl p(3) by (auto simp: new_link_def link_id_def)
    then show ?thesis using put_link_data [OF p(1), of b] append_source_data [OF p(2), of b] p(3,4) False by simp
  qed (use g s in \<open>auto simp: getSourceBySSRC_def Let_def\<close>)
  then show "map_option link_id (linkHeap m' b) = (if created \<and> b = a then Some (ssrc, snd d0) else map_option link_id (linkHeap m b))"
    "created \<Longrightarrow> a \<notin> dom (linkHeap m)"
    using fr by (auto split: if_splits)
qed

lemma getSource_ok:
  fixes m :: "'na SourceData Membership"
  assumes ok: "mem_ok m" and d0: "pktFirst (snd d0) = None" "pktLast (snd d0) = None"
  shows "\<exists>a m' l. getSourceBySSRC d0 m ssrc = Some (a, ssrc \<notin> ids m, m') \<and> mem_ok m' \<and> ids m' = insert ssrc (ids m) \<and>
    lists_kept m m' \<and> linkHeap m' a = Some l \<and> srcID l = ssrc \<and> (ssrc \<notin> ids m \<longrightarrow> linkData l = snd d0 \<and> a \<notin> dom (linkHeap m)) \<and> (ssrc \<in> ids m \<longrightarrow> m' = m) \<and>
    (\<forall>b\<in>dom (linkHeap m). map_option srcID (linkHeap m' b) = map_option srcID (linkHeap m b))"
proof -
  obtain cs gs where inv: "mem_inv m cs gs" using ok by (auto simp: mem_ok_def)
  obtain a m' cs' gs' created where g: "getSourceBySSRC d0 m ssrc = Some (a, created, m')" "mem_inv m' cs' gs'"
    "created \<longleftrightarrow> ssrc \<notin> ids m" "map_option srcID (linkHeap m' a) = Some ssrc" "ids m' = insert ssrc (ids m)" "\<not> created \<longrightarrow> m' = m"
    using getSourceBySSRC_step [OF inv, of d0 ssrc] by blast
  have fr: "nextAddr m \<notin> dom (linkHeap m)" using mem_invD(6) [OF inv, of "nextAddr m"] by blast
  note G = getSource_data [OF g(1) fr]
  obtain l where l: "linkHeap m' a = Some l" "srcID l = ssrc" using g(4) by auto
  have "linkData l = snd d0 \<and> a \<notin> dom (linkHeap m)" if "ssrc \<notin> ids m" using that G(1) [of a] G(2) l(1) g(3) by (simp add: link_id_def)
  moreover have "lists_kept m m'"
    unfolding lists_kept_def
  proof
    show "dom (linkHeap m) \<subseteq> dom (linkHeap m')"
    proof
      fix b assume "b \<in> dom (linkHeap m)"
      then show "b \<in> dom (linkHeap m')" using G(1) [of b] by (cases "linkHeap m' b") (auto split: if_splits)
    qed
    show "lists_of m' = lists_of m"
    proof
      fix b show "lists_of m' b = lists_of m b"
        using G(1) [of b] G(2) d0 by (cases "linkHeap m' b"; cases "linkHeap m b") (auto simp: lists_of_def link_id_def split: if_splits)
    qed
  qed
  moreover have "map_option srcID (linkHeap m' b) = map_option srcID (linkHeap m b)" if "b \<in> dom (linkHeap m)" for b
    using that G(1) [of b] G(2) by (cases "linkHeap m' b"; cases "linkHeap m b") (auto simp: link_id_def split: if_splits)
  ultimately show ?thesis using g l by (auto simp: mem_ok_def)
qed


section \<open>The packet queue leaves the table alone\<close>

lemma upd_pkt_members: "upd_pkt p f q = Some q' \<Longrightarrow> qmembers q' = qmembers q"
  by (auto simp: upd_pkt_def split: Option.bind_splits)

lemma upd_src_table: "upd_src s f q = Some q' \<Longrightarrow> table_same (qmembers q) (qmembers q')"
  by (auto simp: upd_src_def upd_link_def table_same_def table_view_def split: Option.bind_splits)

lemma insert_table:
  "insert_front a s q = Some q' \<Longrightarrow> table_same (qmembers q) (qmembers q')"
  "insert_middle a b q = Some q' \<Longrightarrow> table_same (qmembers q) (qmembers q')"
  "insert_only a s q = Some q' \<Longrightarrow> table_same (qmembers q) (qmembers q')"
  "insert_last a s p q = Some q' \<Longrightarrow> table_same (qmembers q) (qmembers q')"
  by (auto simp: insert_front_def insert_middle_def insert_only_def insert_last_def Let_def upd_pkt_members
      split: Option.bind_splits if_splits dest!: upd_src_table dest: upd_pkt_members)

lemma insertRecvPacket_table:
  "insertRecvPacket a q = Some (r, q') \<Longrightarrow> table_same (qmembers q) (qmembers q')"
  by (auto simp: insertRecvPacket_def Let_def free_pkt_def split: Option.bind_splits if_splits option.splits dest: insert_table)

definition iq_ok :: "'na PktQueue \<Rightarrow> addr list \<Rightarrow> bool" where
  "iq_ok q gs \<longleftrightarrow> mem_ok (qmembers q) \<and> q_inv q gs \<and> (\<forall>a\<in>dom (pktHeap q). a < nextPkt q)"

lemma queue_packet_ok:
  fixes q :: "'na PktQueue"
  assumes ok: "iq_ok q gs" and s: "src_at q a \<noteq> None"
    and h: "\<not> (gs \<noteq> [] \<and> srcof q (hd gs) = a \<and> getSeqNum pkt < seqof q (hd gs))"
  shows "\<exists>q' gs'. queue_packet a t pkt q = Some q' \<and> iq_ok q' gs' \<and> ids (qmembers q') = ids (qmembers q) \<and>
    (of_src q a gs \<noteq> [] \<and> gs' = gs \<or> set gs' = insert (nextPkt q) (set gs) \<and> map_option lpacket (pktHeap q' (nextPkt q)) = Some pkt)"
proof -
  obtain d where d: "src_at q a = Some d" using s by blast
  define q1 where "q1 = snd (new_pkt pkt a t (getTimestamp pkt - initialDataTimestamp d) q)"
  let ?p = "nextPkt q"
  have i: "q_inv q gs" "\<forall>a\<in>dom (pktHeap q). a < nextPkt q" "mem_ok (qmembers q)" using ok by (simp_all add: iq_ok_def)
  have n: "q_inv q1 gs" "fresh_link q1 gs ?p" unfolding q1_def using new_pkt_fresh [OF i(1,2) s] by simp_all
  have q1: "qmembers q1 = qmembers q" "nextPkt q1 = Suc ?p" "pktHeap q1 c = (if c = ?p then pktHeap q1 ?p else pktHeap q c)"
    "map_option lpacket (pktHeap q1 ?p) = Some pkt" "srcof q1 ?p = a" "seqof q1 ?p = getSeqNum pkt" for c
    by (simp_all add: q1_def new_pkt_def srcof_def seqof_def)
  have lt: "c < Suc ?p" if "c \<in> dom (pktHeap q1)" for c
  proof (cases "c = ?p")
    case False
    then have "c \<in> dom (pktHeap q)" using that q1(3) [of c] by (simp add: domIff)
    then show ?thesis using i(2) by (simp add: less_SucI)
  qed simp
  have e: "queue_packet a t pkt q = do { (_, q) \<leftarrow> insertRecvPacket ?p q1; Some q }"
    using d by (simp add: queue_packet_def q1_def new_pkt_def)
  have nh: "\<not> new_head q1 ?p gs"
  proof
    assume "new_head q1 ?p gs"
    then have g: "gs \<noteq> []" "srcof q1 (hd gs) = a" "getSeqNum pkt < seqof q1 (hd gs)" using q1(5,6) by (auto simp: new_head_def)
    have "hd gs \<noteq> ?p" using hd_in_set [OF g(1)] n(2) by (auto simp: fresh_link_def)
    then show False using h g q1(3) [of "hd gs"] by (simp add: srcof_def seqof_def)
  qed
  show ?thesis
  proof (cases "is_dup q1 ?p gs")
    case True
    then have r: "insertRecvPacket ?p q1 = Some (False, free_pkt ?p q1)"
      using insert_dup_ok [OF n refl] by (auto simp: is_dup_def Let_def)
    have "?p \<notin> set gs" using n(2) by (simp add: fresh_link_def)
    then have "iq_ok (free_pkt ?p q1) gs"
      using q_inv_free [OF n(1)] i(3) q1(1,2) lt by (auto simp: iq_ok_def free_pkt_def)
    moreover have "of_src q a gs = of_src q1 (srcof q1 ?p) gs"
      unfolding q1(5) of_src_def
    proof (rule filter_cong [OF refl])
      fix c assume "c \<in> set gs"
      then have "c \<noteq> ?p" using \<open>?p \<notin> set gs\<close> by blast
      then have "pktHeap q1 c = pktHeap q c" using q1(3) [of c] by simp
      then show "(srcof q c = a) = (srcof q1 c = a)" by (simp add: srcof_def)
    qed
    ultimately show ?thesis using True r e q1(1) by (auto simp: free_pkt_def is_dup_def Let_def)
  next
    case False
    obtain q' gs' where r: "insertRecvPacket ?p q1 = Some (True, q')" "q_inv q' gs'" "placed q1 ?p gs gs'" "same_data q1 q'"
      using insert_ok [OF n False nh] by blast
    note M = mem_ok_table [OF i(3), of "qmembers q'"]
    have tb: "table_same (qmembers q) (qmembers q')" using insertRecvPacket_table [OF r(1)] q1(1) by simp
    have "nextPkt q' = Suc ?p" "dom (pktHeap q') = dom (pktHeap q1)" using r(4) same_dataD(1) [OF r(4)] q1(2) by (simp_all add: same_data_def)
    then have "iq_ok q' gs'" using r(2) M(1) [OF tb] lt by (simp add: iq_ok_def)
    moreover have "set gs' = insert ?p (set gs)" using r(3) by (auto simp: placed_def)
    moreover have "map_option lpacket (pktHeap q' ?p) = Some pkt"
    proof -
      have "map_option (\<lambda>l. (lpacket l, psource l, receptionTime l, shiftedTimestamp l)) (pktHeap q' ?p) =
        map_option (\<lambda>l. (lpacket l, psource l, receptionTime l, shiftedTimestamp l)) (pktHeap q1 ?p)" using r(4) by (simp add: same_data_def)
      then show ?thesis using q1(4) by (cases "pktHeap q' ?p"; cases "pktHeap q1 ?p") auto
    qed
    ultimately show ?thesis using r(1) e M(2) [OF tb] by auto
  qed
qed


lemma queue_packet_front:
  fixes q :: "'na PktQueue"
  assumes ok: "iq_ok q gs" and s: "src_at q a \<noteq> None"
    and h: "gs \<noteq> []" "srcof q (hd gs) = a" "getSeqNum pkt < seqof q (hd gs)"
  shows "\<exists>q'. queue_packet a t pkt q = Some q' \<and> mem_ok (qmembers q') \<and> recvFirst q' = Some (hd gs) \<and>
    dll (fld pnext q') (fld pprev q') (Some (nextPkt q)) gs None \<and> nextPkt q \<notin> set gs"
proof -
  obtain d where d: "src_at q a = Some d" using s by blast
  define q1 where "q1 = snd (new_pkt pkt a t (getTimestamp pkt - initialDataTimestamp d) q)"
  let ?p = "nextPkt q"
  have i: "q_inv q gs" "\<forall>a\<in>dom (pktHeap q). a < nextPkt q" "mem_ok (qmembers q)" using ok by (simp_all add: iq_ok_def)
  have n: "q_inv q1 gs" "fresh_link q1 gs ?p" unfolding q1_def using new_pkt_fresh [OF i(1,2) s] by simp_all
  have "hd gs \<noteq> ?p" using hd_in_set [OF h(1)] n(2) by (auto simp: fresh_link_def)
  then have "new_head q1 ?p gs" using h by (simp add: new_head_def q1_def new_pkt_def srcof_def seqof_def)
  from late_first_packet_unreachable [OF n this]
  obtain q' where r: "insertRecvPacket ?p q1 = Some (True, q')" "recvFirst q' = Some (hd gs)"
    "dll (fld pnext q') (fld pprev q') (Some ?p) gs None" "?p \<notin> set gs" by blast
  have "table_same (qmembers q) (qmembers q')" using insertRecvPacket_table [OF r(1)] by (simp add: q1_def new_pkt_def)
  then have "mem_ok (qmembers q')" by (rule mem_ok_table(1) [OF i(3)])
  moreover have "queue_packet a t pkt q = Some q'" using d r(1) by (simp add: queue_packet_def q1_def new_pkt_def)
  ultimately show ?thesis using r by blast
qed


section \<open>The checks on a source leave its lists alone\<close>

definition src_view :: "'na SourceData SyncSourceLink \<Rightarrow> (u32 \<times> addr option \<times> addr option \<times> addr option) \<times> addr option \<times> addr option" where
  "src_view l = (table_view l, pktFirst (linkData l), pktLast (linkData l))"

lemma first_contact_lists:
  "pktFirst (snd (first_contact P created na tp t d)) = pktFirst d" "pktLast (snd (first_contact P created na tp t d)) = pktLast d"
  by (simp_all add: first_contact_def getHello_def initStats_def Let_def)

lemma check_sequence_lists:
  "pktFirst (snd (check_sequence P sn d)) = pktFirst d" "pktLast (snd (check_sequence P sn d)) = pktLast d"
  by (simp_all add: check_sequence_def initSequence_def Let_def split: prod.split)

lemma recordReception_view: "src_view (snd (recordReception rnd P pkt t l)) = src_view l"
  using check_sequence_lists [of P "getSeqNum pkt" "linkData l"]
  by (auto simp: recordReception_def update_jitter_def src_view_def table_view_def Let_def split: prod.splits)

lemma check_view:
  "checkSSRCInIncomingRTPPkt now mv lo new na tp l cs = Some r \<Longrightarrow> src_view (colLink r) = src_view l"
  by (auto simp: checkSSRCInIncomingRTPPkt_def Let_def src_view_def table_view_def upd_data_def setPrevConflict_def initStats_def
      split: if_splits Option.bind_splits option.splits)

lemma admit_packet_ok:
  fixes st st' :: "('na, 'ak, 'hm) InQueue"
  assumes ok: "iq_ok (iqPackets st) gs" and d0: "pktFirst (snd (newSource E)) = None" "pktLast (snd (newSource E)) = None"
    and r: "admit_packet E na tp t pkt st = Some (acc, a, st')"
  shows "iq_ok (iqPackets st') gs" "map_option srcID (linkHeap (qmembers (iqPackets st')) a) = Some (cachedSSRC pkt)"
    "pktHeap (iqPackets st') = pktHeap (iqPackets st)" "nextPkt (iqPackets st') = nextPkt (iqPackets st)"
    "ids (qmembers (iqPackets st')) = insert (cachedSSRC pkt) (ids (qmembers (iqPackets st)))"
    "cachedSSRC pkt \<notin> ids (qmembers (iqPackets st)) \<Longrightarrow> a \<notin> dom (linkHeap (qmembers (iqPackets st)))"
    "b \<in> dom (linkHeap (qmembers (iqPackets st))) \<Longrightarrow>
       map_option srcID (linkHeap (qmembers (iqPackets st')) b) = map_option srcID (linkHeap (qmembers (iqPackets st)) b)"
proof -
  let ?q = "iqPackets st" and ?ssrc = "cachedSSRC pkt"
  let ?m = "qmembers (iqPackets st)"
  have i: "q_inv ?q gs" "\<forall>a\<in>dom (pktHeap ?q). a < nextPkt ?q" "mem_ok ?m" using ok by (simp_all add: iq_ok_def)
  obtain a0 m1 l where g: "getSourceBySSRC (newSource E) ?m ?ssrc = Some (a0, ?ssrc \<notin> ids ?m, m1)" "mem_ok m1"
    "ids m1 = insert ?ssrc (ids ?m)" "lists_kept ?m m1" "linkHeap m1 a0 = Some l" "srcID l = ?ssrc"
    "?ssrc \<notin> ids ?m \<longrightarrow> linkData l = snd (newSource E) \<and> a0 \<notin> dom (linkHeap ?m)" "?ssrc \<in> ids ?m \<longrightarrow> m1 = ?m"
    "\<forall>b\<in>dom (linkHeap ?m). map_option srcID (linkHeap m1 b) = map_option srcID (linkHeap ?m b)"
    using getSource_ok [OF i(3) d0] by blast
  define l1 where "l1 = l\<lparr>linkData := snd (first_contact (iqParams st) (?ssrc \<notin> ids ?m) na tp t (linkData l))\<rparr>"
  have v1: "src_view l1 = src_view l" by (simp add: l1_def src_view_def table_view_def first_contact_lists)
  obtain cr where c: "checkSSRCInIncomingRTPPkt t (minValidPacketSequence (iqParams st)) (localSSRC st) (?ssrc \<notin> ids ?m) na tp l1 (iqConflicts st) = Some cr"
    using r g by (auto simp: admit_packet_def Let_def l1_def split: Option.bind_splits prod.splits)
  define l2 where "l2 = snd (if accepted cr then recordReception (roundFloat E) (iqParams st) pkt t (colLink cr) else (False, colLink cr))"
  have v2: "src_view l2 = src_view l" using v1 check_view [OF c] recordReception_view [of "roundFloat E" "iqParams st" pkt t "colLink cr"] by (simp add: l2_def)
  define m2 where "m2 = m1\<lparr>linkHeap := (linkHeap m1)(a0 \<mapsto> l2)\<rparr>"
  have r': "a = a0" "iqPackets st' = ?q\<lparr>qmembers := m2\<rparr>"
    using r g c by (auto simp: admit_packet_def Let_def l1_def l2_def m2_def split: Option.bind_splits prod.splits)
  have t2: "table_same m1 m2" unfolding m2_def using v2 g(5) by (intro table_same_upd) (auto simp: src_view_def)
  have k2: "lists_kept m1 m2" unfolding m2_def using v2 g(5) by (intro lists_kept_upd) (auto simp: src_view_def)
  note M = mem_ok_table [OF g(2) t2]
  show "iq_ok (iqPackets st') gs"
    using lists_kept_inv [OF i(1) lists_kept_trans [OF g(4) k2]] M(1) i(2) by (simp add: iq_ok_def r')
  show "map_option srcID (linkHeap (qmembers (iqPackets st')) a) = Some ?ssrc"
    using v2 g(6) by (simp add: r' m2_def src_view_def table_view_def)
  show "pktHeap (iqPackets st') = pktHeap ?q" "nextPkt (iqPackets st') = nextPkt ?q" "ids (qmembers (iqPackets st')) = insert ?ssrc (ids ?m)"
    using M(2) g(3) by (simp_all add: r')
  show "a \<notin> dom (linkHeap ?m)" if "?ssrc \<notin> ids ?m" using that g(7) r'(1) by simp
  show "map_option srcID (linkHeap (qmembers (iqPackets st')) b) = map_option srcID (linkHeap ?m b)" if "b \<in> dom (linkHeap ?m)"
  proof -
    have "map_option table_view (linkHeap m2 b) = map_option table_view (linkHeap m1 b)" using t2 by (simp add: table_same_def)
    then have "map_option srcID (linkHeap m2 b) = map_option srcID (linkHeap m1 b)"
      by (cases "linkHeap m2 b"; cases "linkHeap m1 b") (auto simp: table_view_def)
    then show ?thesis using bspec [OF g(9) that] by (simp add: r')
  qed
qed


section \<open>The whole handler\<close>

lemma srtpEncrypt_cached:
  fixes p p' :: IncomingRTPPkt
  shows "srtpEncrypt aes c p i s = Some p' \<Longrightarrow> cachedSeqNum p' = cachedSeqNum p \<and> cachedSSRC p' = cachedSSRC p"
  by (auto simp: srtpEncrypt_def Let_def split: if_splits Option.bind_splits)

lemma unprotect_cached:
  "unprotect aes hm mem p co = Some (r, p', co') \<Longrightarrow> cachedSeqNum p' = cachedSeqNum p \<and> cachedSSRC p' = cachedSSRC p"
  by (auto simp: unprotect_def Let_def split: option.splits if_splits Option.bind_splits prod.splits dest!: srtpEncrypt_cached)

lemma unprotect_in_frame:
  "unprotect_in E p co st = Some (k, p', st') \<Longrightarrow>
     cachedSeqNum p' = cachedSeqNum p \<and> cachedSSRC p' = cachedSSRC p \<and> iqPackets st' = iqPackets st"
  by (auto simp: unprotect_in_def Let_def split: option.splits Option.bind_splits prod.splits dest: unprotect_cached)

lemma select_context_frame: "select_context E s st = Some (co, st') \<Longrightarrow> iqPackets st' = iqPackets st"
  by (auto simp: select_context_def Let_def split: option.splits Option.bind_splits prod.splits)

lemma reComputePayLength_cached:
  fixes p p' :: IncomingRTPPkt
  shows "(if b then reComputePayLength True p else Some p) = Some p' \<Longrightarrow> cachedSeqNum p' = cachedSeqNum p \<and> cachedSSRC p' = cachedSSRC p"
  by (auto simp: reComputePayLength_def Let_def split: if_splits)

lemma takeInDataPacket_cases:
  assumes "takeInDataPacket E t (Some (buffer, na, tp)) st = Some (n, st')"
  obtains (dropped) "iqPackets st' = iqPackets st"
  | (taken) ip pkt st1 acc a st2 where "newIncomingRTPPkt (clear_padding buffer) = Some ip"
      "cachedSeqNum pkt = cachedSeqNum ip" "cachedSSRC pkt = cachedSSRC ip" "iqPackets st1 = iqPackets st"
      "admit_packet E na tp t pkt st1 = Some (acc, a, st2)"
      "if acc then queue_packet a t pkt (iqPackets st2) = Some (iqPackets st') else iqPackets st' = iqPackets st2"
proof (cases "iqPackets st' = iqPackets st")
  case False
  then obtain ip co st0 p1 st1 k where 1: "newIncomingRTPPkt (clear_padding buffer) = Some ip" "select_context E (cachedSSRC ip) st = Some (co, st0)"
    "unprotect_in E ip co st0 = Some (k, p1, st1)"
    using assms by (auto simp: takeInDataPacket_def Let_def split: if_splits Option.bind_splits)
  note F = select_context_frame [OF 1(2)] unprotect_in_frame [OF 1(3)]
  have k using False assms 1 F by (auto simp: takeInDataPacket_def Let_def split: if_splits)
  then obtain p2 where 2: "(if bit (buffer ! 0) 5 then reComputePayLength True p1 else Some p1) = Some p2" "onRTPPacketRecv E p2"
    using False assms 1 F by (auto simp: takeInDataPacket_def Let_def split: if_splits Option.bind_splits)
  then obtain acc a st2 where 3: "admit_packet E na tp t p2 st1 = Some (acc, a, st2)"
    "if acc then queue_packet a t p2 (iqPackets st2) = Some (iqPackets st') else iqPackets st' = iqPackets st2"
    using False assms 1 F \<open>k\<close> by (auto simp: takeInDataPacket_def Let_def split: if_splits Option.bind_splits)
  show thesis using reComputePayLength_cached [OF 2(1)] F by (intro taken [OF 1(1) _ _ _ 3]) simp_all
qed (rule dropped)

definition before_head :: "'na PktQueue \<Rightarrow> addr list \<Rightarrow> IncomingRTPPkt \<Rightarrow> bool" where
  "before_head q gs pkt \<longleftrightarrow> gs \<noteq> [] \<and>
     map_option srcID (linkHeap (qmembers q) (srcof q (hd gs))) = Some (cachedSSRC pkt) \<and> getSeqNum pkt < seqof q (hd gs)"

text \<open>A packet before the first one is linked in where no walk over the queue finds it.\<close>

definition queued_before :: "'na PktQueue \<Rightarrow> 'na PktQueue \<Rightarrow> addr list \<Rightarrow> bool" where
  "queued_before q q' gs \<longleftrightarrow> mem_ok (qmembers q') \<and> recvFirst q' = Some (hd gs) \<and>
     dll (fld pnext q') (fld pprev q') (Some (nextPkt q)) gs None \<and> nextPkt q \<notin> set gs"

lemma queue_admitted:
  fixes st st' :: "('na, 'ak, 'hm) InQueue"
  assumes ok: "iq_ok (iqPackets st) gs" and d0: "pktFirst (snd (newSource E)) = None" "pktLast (snd (newSource E)) = None"
    and r: "admit_packet E na tp t pkt st = Some (acc, a, st')" and h: "\<not> before_head (iqPackets st) gs pkt"
  shows "\<exists>q' gs'. queue_packet a t pkt (iqPackets st') = Some q' \<and> iq_ok q' gs' \<and> ids (qmembers q') = ids (qmembers (iqPackets st')) \<and>
    (cachedSSRC pkt \<in> ids (qmembers (iqPackets st)) \<and> gs' = gs \<or>
     set gs' = insert (nextPkt (iqPackets st)) (set gs) \<and> map_option lpacket (pktHeap q' (nextPkt (iqPackets st))) = Some pkt)"
proof -
  let ?q = "iqPackets st" and ?q' = "iqPackets st'"
  note A = admit_packet_ok [OF ok d0 r]
  note D = q_invD [of ?q gs]
  have inv: "q_inv ?q gs" using ok by (simp add: iq_ok_def)
  have so: "srcof ?q' = srcof ?q" "seqof ?q' = seqof ?q" "of_src ?q' = of_src ?q"
    using A(3) by (simp_all add: srcof_def seqof_def of_src_def fun_eq_iff)
  have dom: "srcof ?q c \<in> dom (linkHeap (qmembers ?q))" if "c \<in> set gs" for c using D(7) [OF inv that] by (auto simp: src_at_def)
  have s: "src_at ?q' a \<noteq> None" using A(2) by (auto simp: src_at_def)
  have nh: "\<not> (gs \<noteq> [] \<and> srcof ?q' (hd gs) = a \<and> getSeqNum pkt < seqof ?q' (hd gs))"
  proof
    assume g: "gs \<noteq> [] \<and> srcof ?q' (hd gs) = a \<and> getSeqNum pkt < seqof ?q' (hd gs)"
    then have "map_option srcID (linkHeap (qmembers ?q) a) = Some (cachedSSRC pkt)"
      using A(7) [OF dom, of "hd gs"] A(2) so by simp
    then show False using g h so by (simp add: before_head_def)
  qed
  have ns: "cachedSSRC pkt \<in> ids (qmembers ?q)" if ne: "of_src ?q' a gs \<noteq> []"
  proof (rule ccontr)
    assume "cachedSSRC pkt \<notin> ids (qmembers ?q)"
    then have "a \<notin> dom (linkHeap (qmembers ?q))" by (rule A(6))
    then show False using ne dom unfolding so of_src_def filter_empty_conv by blast
  qed
  from queue_packet_ok [OF A(1) s nh, of t] show ?thesis using ns A(4) by auto
qed

lemma queue_admitted_head:
  fixes st st' :: "('na, 'ak, 'hm) InQueue"
  assumes ok: "iq_ok (iqPackets st) gs" and d0: "pktFirst (snd (newSource E)) = None" "pktLast (snd (newSource E)) = None"
    and r: "admit_packet E na tp t pkt st = Some (acc, a, st')" and h: "before_head (iqPackets st) gs pkt"
  shows "\<exists>q'. queue_packet a t pkt (iqPackets st') = Some q' \<and> queued_before (iqPackets st) q' gs"
proof -
  let ?q = "iqPackets st" and ?q' = "iqPackets st'"
  note A = admit_packet_ok [OF ok d0 r]
  have inv: "q_inv ?q gs" using ok by (simp add: iq_ok_def)
  have so: "srcof ?q' = srcof ?q" "seqof ?q' = seqof ?q" using A(3) by (simp_all add: srcof_def seqof_def fun_eq_iff)
  have g: "gs \<noteq> []" "getSeqNum pkt < seqof ?q' (hd gs)" using h so by (simp_all add: before_head_def)
  have "srcof ?q (hd gs) \<in> dom (linkHeap (qmembers ?q))"
    using q_invD(7) [OF inv, of "hd gs"] g(1) by (auto simp: src_at_def)
  from A(7) [OF this] have "map_option srcID (linkHeap (qmembers ?q') (srcof ?q (hd gs))) = Some (cachedSSRC pkt)"
    using h by (simp add: before_head_def)
  then have "srcof ?q' (hd gs) = a" using A(1,2) so by (intro mem_ok_inj) (auto simp: iq_ok_def)
  moreover have "src_at ?q' a \<noteq> None" using A(2) by (auto simp: src_at_def)
  ultimately show ?thesis using queue_packet_front [OF A(1) _ g(1) _ g(2), of a t] A(4) by (auto simp: queued_before_def)
qed


text \<open>Without contexts the handler always returns, if the header can be read and is not marked as padded.\<close>

lemma admit_packet_returns:
  fixes st :: "('na, 'ak, 'hm) InQueue"
  assumes ok: "mem_ok (qmembers (iqPackets st))" and d0: "pktFirst (snd (newSource E)) = None" "pktLast (snd (newSource E)) = None"
    and n: "cachedSSRC pkt \<noteq> localSSRC st"
  shows "\<exists>acc a st'. admit_packet E na tp t pkt st = Some (acc, a, st')"
proof -
  obtain a m l c where g: "getSourceBySSRC (newSource E) (qmembers (iqPackets st)) (cachedSSRC pkt) = Some (a, c, m)"
    "linkHeap m a = Some l" "srcID l = cachedSSRC pkt" using getSource_ok [OF ok d0, of "cachedSSRC pkt"] by blast
  have "\<exists>r. checkSSRCInIncomingRTPPkt t mv (localSSRC st) c na tp (l\<lparr>linkData := d\<rparr>) cs = Some r" for mv d cs
    using n g(3) by (auto simp: checkSSRCInIncomingRTPPkt_def Let_def)
  then obtain r where "checkSSRCInIncomingRTPPkt t (minValidPacketSequence (iqParams st)) (localSSRC st) c na tp
      (l\<lparr>linkData := snd (first_contact (iqParams st) c na tp t (linkData l))\<rparr>) (iqConflicts st) = Some r" by blast
  then show ?thesis using g(1,2) by (simp add: admit_packet_def Let_def split_beta)
qed

lemma takeInDataPacket_returns:
  fixes st :: "('na, 'ak, 'hm) InQueue"
  assumes ok: "iq_ok (iqPackets st) gs" and d0: "pktFirst (snd (newSource E)) = None" "pktLast (snd (newSource E)) = None"
    and b: "buffer \<noteq> []" "\<not> bit (buffer ! 0) 5" "newIncomingRTPPkt buffer = Some ip"
    and n: "cachedSSRC ip \<noteq> localSSRC st" "iqContexts st = []"
  shows "\<exists>n st'. takeInDataPacket E t (Some (buffer, na, tp)) st = Some (n, st')"
proof -
  have m: "mem_ok (qmembers (iqPackets st))" using ok by (simp add: iq_ok_def)
  obtain acc a st1 where A: "admit_packet E na tp t ip st = Some (acc, a, st1)"
    using admit_packet_returns [OF m d0 n(1)] by blast
  obtain q' where "queue_packet a t ip (iqPackets st1) = Some q'"
    using queue_admitted [OF ok d0 A] queue_admitted_head [OF ok d0 A] by blast
  then show ?thesis
    using A b n(2)
    by (simp add: takeInDataPacket_def clear_padding_def select_context_def getInQueueCryptoContext_def unprotect_in_def Let_def)
qed

text \<open>
  C5: the handler of data packets on a well-formed incoming queue. Whatever datagram arrives, with whatever contexts, hooks and
  parameters, when the handler returns the table of sources and the packet lists satisfy their invariants again and no packet
  that was queued is lost; the only exception is a packet of the source of the first queued packet with a smaller 16-bit number
  (also after a wrap-around of the numbers), which is linked in before the first packet without becoming the start of the queue, so
  that the walk over the queue still lists exactly the old packets. The handler does return for every datagram with a readable
  header and without the padding bit, from another source than the local one, when there are no SRTP contexts.
\<close>

theorem takeInDataPacket_keeps_queue:
  fixes st st' :: "('na, 'ak, 'hm) InQueue"
  assumes ok: "iq_ok (iqPackets st) gs" and d0: "pktFirst (snd (newSource E)) = None" "pktLast (snd (newSource E)) = None"
  shows "(takeInDataPacket E t (Some (buffer, na, tp)) st = Some (n, st') \<longrightarrow>
      (\<exists>gs'. iq_ok (iqPackets st') gs' \<and> set gs \<subseteq> set gs') \<or>
      (\<exists>ip. newIncomingRTPPkt (clear_padding buffer) = Some ip \<and> before_head (iqPackets st) gs ip \<and>
         queued_before (iqPackets st) (iqPackets st') gs)) \<and>
    (buffer \<noteq> [] \<and> \<not> bit (buffer ! 0) 5 \<and> newIncomingRTPPkt buffer = Some ip \<and> cachedSSRC ip \<noteq> localSSRC st \<and> iqContexts st = [] \<longrightarrow>
      (\<exists>n st'. takeInDataPacket E t (Some (buffer, na, tp)) st = Some (n, st')))"
proof (intro conjI impI)
  assume "takeInDataPacket E t (Some (buffer, na, tp)) st = Some (n, st')"
  then show "(\<exists>gs'. iq_ok (iqPackets st') gs' \<and> set gs \<subseteq> set gs') \<or>
      (\<exists>ip. newIncomingRTPPkt (clear_padding buffer) = Some ip \<and> before_head (iqPackets st) gs ip \<and>
         queued_before (iqPackets st) (iqPackets st') gs)"
  proof (cases rule: takeInDataPacket_cases)
    case dropped
    then show ?thesis using ok by auto
  next
    case (taken ip pkt st1 acc a st2)
    have ok1: "iq_ok (iqPackets st1) gs" using ok taken(4) by simp
    have h1: "before_head (iqPackets st) gs ip \<longleftrightarrow> before_head (iqPackets st1) gs pkt"
      using taken(2-4) by (simp add: before_head_def getSeqNum_def)
    show ?thesis
    proof (cases acc)
      case True
      then show ?thesis
        using queue_admitted [OF ok1 d0 taken(5)] queue_admitted_head [OF ok1 d0 taken(5)] taken(1,4,6) h1
        by (cases "before_head (iqPackets st) gs ip") auto
    next
      case False
      then show ?thesis using admit_packet_ok(1) [OF ok1 d0 taken(5)] taken(6) by auto
    qed
  qed
next
  assume "buffer \<noteq> [] \<and> \<not> bit (buffer ! 0) 5 \<and> newIncomingRTPPkt buffer = Some ip \<and> cachedSSRC ip \<noteq> localSSRC st \<and> iqContexts st = []"
  then show "\<exists>n st'. takeInDataPacket E t (Some (buffer, na, tp)) st = Some (n, st')"
    using takeInDataPacket_returns [OF ok d0] by blast
qed

lemma first_packet_recorded:
  assumes "minValidPacketSequence P = 0" "created"
  shows "fst (recordReception rnd P pkt t (l\<lparr>linkData := snd (first_contact P created na tp t d)\<rparr>))"
  using assms by (simp add: recordReception_def first_contact_def initStats_def getHello_def check_sequence_def isValid_def Let_def)

lemma admit_new_source:
  fixes st :: "('na, 'ak, 'hm) InQueue"
  assumes ok: "iq_ok (iqPackets st) gs" and d0: "pktFirst (snd (newSource E)) = None" "pktLast (snd (newSource E)) = None"
    and n: "cachedSSRC pkt \<notin> ids (qmembers (iqPackets st))" "cachedSSRC pkt \<noteq> localSSRC st" "minValidPacketSequence (iqParams st) = 0"
  shows "\<exists>a st'. admit_packet E na tp t pkt st = Some (True, a, st') \<and> iqEvents st' = iqEvents st @ [NewSyncSource (cachedSSRC pkt)]"
proof -
  have "mem_ok (qmembers (iqPackets st))" using ok by (simp add: iq_ok_def)
  from getSource_ok [OF this d0, of "cachedSSRC pkt"] n(1)
  obtain a m1 l where g: "getSourceBySSRC (newSource E) (qmembers (iqPackets st)) (cachedSSRC pkt) = Some (a, True, m1)"
    "linkHeap m1 a = Some l" "srcID l = cachedSSRC pkt" by auto
  obtain d where f: "first_contact (iqParams st) True na tp t (linkData l) = (True, d)"
    by (simp add: first_contact_def Let_def getHello_def initStats_def)
  obtain l2 where "recordReception (roundFloat E) (iqParams st) pkt t (l\<lparr>linkData := d\<rparr>) = (True, l2)"
    using first_packet_recorded [OF n(3) TrueI, where na = na and tp = tp and t = t and d = "linkData l" and l = l and pkt = pkt and rnd = "roundFloat E"] f
    by (metis prod.collapse snd_conv)
  then show ?thesis using g f n(2) by (simp add: admit_packet_def checkSSRCInIncomingRTPPkt_def Let_def)
qed

lemma sent_bytes:
  assumes "12 + 4 * length csrcs + length hdrext + length data + 256 < 2 ^ 32" "length csrcs \<le> 15"
    "valid_hdrext hdrext" "pt < 128" "pt \<noteq> 72" "pt \<noteq> 73"
    and p: "p = send_pkt marker pt sq ts ssrc (newOutgoingRTPPkt_ext mem csrcs hdrext data 0 None)"
  shows "getRawPacket p \<noteq> []" "\<not> bit (getRawPacket p ! 0) 5"
    "newIncomingRTPPkt (getRawPacket p) = Some (parsed_wire marker pt sq ts ssrc csrcs hdrext data 0)"
    "length (getRawPacket p) = 12 + 4 * length csrcs + length hdrext + length data"
proof -
  have sl: "(0 :: int) = (case None of None \<Rightarrow> 0 | Some n \<Rightarrow> n)" by simp
  have pad: "(0 :: byte) = padding_len (of_nat (12 + (4 * length csrcs + length hdrext) + length data)) 0" by (simp add: padding_len_def)
  obtain T where "pbuffer p = rtp_wire marker pt sq ts ssrc csrcs hdrext data 0 @ T"
    "unat (ptotal p) = length (rtp_wire marker pt sq ts ssrc csrcs hdrext data 0)"
    using out_ext_buffer [OF assms(1) order.refl sl pad p] by metis
  then have e: "getRawPacket p = rtp_wire marker pt sq ts ssrc csrcs hdrext data 0" by (simp add: getRawPacket_def)
  note h = wire_hdr [OF assms(2) e]
  show "getRawPacket p \<noteq> []" "length (getRawPacket p) = 12 + 4 * length csrcs + length hdrext + length data" using h(11) by auto
  show "\<not> bit (getRawPacket p ! 0) 5" using h(2) by (simp add: hdr_padding_def)
  show "newIncomingRTPPkt (getRawPacket p) = Some (parsed_wire marker pt sq ts ssrc csrcs hdrext data 0)"
    unfolding e by (rule parse_wire [OF assms(2-6)])
qed


lemma takeIn_new_source:
  fixes st :: "('na, 'ak, 'hm) InQueue"
  assumes b: "buffer \<noteq> []" "\<not> bit (buffer ! 0) 5" "newIncomingRTPPkt buffer = Some ip" "headerValid ip"
    and ok: "iq_ok (iqPackets st) gs" and d0: "pktFirst (snd (newSource E)) = None" "pktLast (snd (newSource E)) = None"
    and n: "cachedSSRC ip \<notin> ids (qmembers (iqPackets st))" "cachedSSRC ip \<noteq> localSSRC st" "minValidPacketSequence (iqParams st) = 0"
    and c: "iqContexts st = []" and hook: "\<And>x. onRTPPacketRecv E x" and sz: "length buffer \<le> maxRecvPacketSize st"
  shows "\<exists>st' gs' a. takeInDataPacket E t (Some (buffer, na, tp)) st = Some (length buffer, st') \<and>
    iq_ok (iqPackets st') gs' \<and> a \<notin> set gs \<and> set gs' = insert a (set gs) \<and> map_option lpacket (pktHeap (iqPackets st') a) = Some ip \<and>
    ids (qmembers (iqPackets st')) = insert (cachedSSRC ip) (ids (qmembers (iqPackets st))) \<and>
    iqEvents st' = iqEvents st @ [NewSyncSource (cachedSSRC ip)]"
proof -
  obtain a st1 where A: "admit_packet E na tp t ip st = Some (True, a, st1)" "iqEvents st1 = iqEvents st @ [NewSyncSource (cachedSSRC ip)]"
    using admit_new_source [OF ok d0 n, of na tp t] by blast
  have nh: "\<not> before_head (iqPackets st) gs ip" using n(1) by (auto simp: before_head_def ids_def)
  obtain q' gs' where Q: "queue_packet a t ip (iqPackets st1) = Some q'" "iq_ok q' gs'" "ids (qmembers q') = ids (qmembers (iqPackets st1))"
    "set gs' = insert (nextPkt (iqPackets st)) (set gs)" "map_option lpacket (pktHeap q' (nextPkt (iqPackets st))) = Some ip"
    using queue_admitted [OF ok d0 A(1) nh] n(1) by auto
  have "q_inv (iqPackets st) gs" using ok by (simp add: iq_ok_def)
  then have nf: "nextPkt (iqPackets st) \<notin> set gs" using q_invD(2) ok by (force simp: iq_ok_def)
  have "takeInDataPacket E t (Some (buffer, na, tp)) st = Some (length buffer, st1\<lparr>iqPackets := q'\<rparr>)"
    using b A(1) Q(1) c hook sz
    by (simp add: takeInDataPacket_def clear_padding_def select_context_def getInQueueCryptoContext_def unprotect_in_def Let_def not_less)
  then show ?thesis
    using Q A(2) admit_packet_ok(5) [OF ok d0 A(1)] nf
    by (intro exI [of _ "st1\<lparr>iqPackets := q'\<rparr>"] exI [of _ gs'] exI [of _ "nextPkt (iqPackets st)"]) simp
qed

text \<open>
  C20: the path from the sender to the queue. A packet that the sending side builds without padding, for a source that is not
  known yet and is not the local one, is taken in by a receiver without SRTP contexts: the source is registered and
  announced once, and the queue, otherwise unchanged, holds a packet with the fields and the payload that were sent (the
  contributing sources in network order, as they are in the packet).
\<close>

theorem new_source_is_delivered:
  fixes st :: "('na, 'ak, 'hm) InQueue"
  assumes "12 + 4 * length csrcs + length hdrext + length data + 256 < 2 ^ 32" "length csrcs \<le> 15"
    "valid_hdrext hdrext" "pt < 128" "pt \<noteq> 72" "pt \<noteq> 73"
    and p: "p = send_pkt marker pt sq ts ssrc (newOutgoingRTPPkt_ext mem csrcs hdrext data 0 None)"
    and ok: "iq_ok (iqPackets st) gs" and d0: "pktFirst (snd (newSource E)) = None" "pktLast (snd (newSource E)) = None"
    and n: "ssrc \<notin> ids (qmembers (iqPackets st))" "ssrc \<noteq> localSSRC st" "minValidPacketSequence (iqParams st) = 0"
    and c: "iqContexts st = []" and hook: "\<And>x. onRTPPacketRecv E x" and sz: "length (getRawPacket p) \<le> maxRecvPacketSize st"
  shows "\<exists>st' gs' a ip. takeInDataPacket E t (Some (getRawPacket p, na, tp)) st = Some (length (getRawPacket p), st') \<and>
    iq_ok (iqPackets st') gs' \<and> a \<notin> set gs \<and> set gs' = insert a (set gs) \<and> map_option lpacket (pktHeap (iqPackets st') a) = Some ip \<and>
    getPayload ip = data \<and> getSeqNum ip = sq \<and> getTimestamp ip = ts \<and> cachedSSRC ip = ssrc \<and> getCSRCs ip = map be32 csrcs \<and>
    getPayloadType ip = pt \<and> isMarked ip = marker \<and>
    ids (qmembers (iqPackets st')) = insert ssrc (ids (qmembers (iqPackets st))) \<and>
    iqEvents st' = iqEvents st @ [NewSyncSource ssrc]"
proof -
  note S = sent_bytes [OF assms(1-7)]
  let ?ip = "parsed_wire marker pt sq ts ssrc csrcs hdrext data 0"
  have w: "cachedSSRC ?ip = ssrc" "headerValid ?ip" "getSeqNum ?ip = sq" "getTimestamp ?ip = ts"
    by (simp_all add: parsed_wire_def getSeqNum_def getTimestamp_def)
  have n': "cachedSSRC ?ip \<notin> ids (qmembers (iqPackets st))" "cachedSSRC ?ip \<noteq> localSSRC st" using n(1,2) w(1) by simp_all
  from takeIn_new_source [OF S(1-3) w(2) ok d0 n' n(3) c hook sz, of t na tp] w parsed_fields(1-4) [OF assms(2,4,1) refl]
  show ?thesis by metis
qed

definition sample_in_env :: "(unit, byte list, byte list \<times> byte list) in_env" where
  "sample_in_env = \<lparr>libAes = sample_aes, libHmac = sample_hmac, ctxMem = \<lambda>_. 0, stackMem = \<lambda>_. 0, roundFloat = id,
     newSource = (False, blank_source ()), onSRTPPacketError = \<lambda>_ _. False, onRTPPacketRecv = \<lambda>_. True\<rparr>"

definition sample_in :: "(unit, byte list, byte list \<times> byte list) InQueue" where
  "sample_in = \<lparr>iqPackets = \<lparr>qmembers = newMembershipBookkeeping 11, pktHeap = Map.empty, nextPkt = 0, recvFirst = None, recvLast = None\<rparr>,
     iqConflicts = [], iqContexts = [], iqEnv = sample_env, localSSRC = 1, iqParams = sample_params, maxRecvPacketSize = 65534, iqEvents = []\<rparr>"

lemma sample_in_ok: "iq_ok (iqPackets sample_in) []"
  by (simp add: iq_ok_def sample_in_def mem_ok_new)
     (simp add: q_inv_def src_at_def newMembershipBookkeeping_def)

lemma sample_in_fields:
  "pktFirst (snd (newSource sample_in_env)) = None" "pktLast (snd (newSource sample_in_env)) = None"
  "x \<notin> ids (qmembers (iqPackets sample_in))" "localSSRC sample_in = 1" "minValidPacketSequence (iqParams sample_in) = 0"
  "iqContexts sample_in = []" "onRTPPacketRecv sample_in_env p" "maxRecvPacketSize sample_in = 65534"
  by (simp_all add: sample_in_env_def sample_in_def blank_source_def ids_new sample_params_def defaultMinValidPacketSequence_def)

theorem takeInDataPacket_keeps_queue_witness:
  "\<exists>st' gs'. takeInDataPacket sample_in_env time0 (Some ([0x80, 0, 0, 1, 0, 0, 0, 2, 0, 0, 0, 9], (), 5000)) sample_in = Some (12, st') \<and>
     iq_ok (iqPackets st') gs'"
proof -
  let ?b = "[0x80, 0, 0, 1, 0, 0, 0, 2, 0, 0, 0, 9] :: byte list"
  have "?b \<noteq> []" "\<not> bit (?b ! 0) 5" by simp_all
  moreover obtain ip where "newIncomingRTPPkt ?b = Some ip" "headerValid ip" "cachedSSRC ip = 9"
    using parse_wire [of "[]" "[]" 0 False 1 2 9 "[]" 0]
    by (simp add: rtp_wire_def byte0_def byte1_def be16_def be32_def pad_bytes_def valid_hdrext_def parsed_wire_def)
  ultimately obtain st' where r: "takeInDataPacket sample_in_env time0 (Some (?b, (), 5000)) sample_in = Some (length ?b, st')"
    using takeIn_new_source [OF _ _ _ _ sample_in_ok, of ?b ip sample_in_env time0 "()" 5000] sample_in_fields by auto
  have "\<not> before_head (iqPackets sample_in) [] x" for x by (simp add: before_head_def)
  then show ?thesis using takeInDataPacket_keeps_queue [OF sample_in_ok sample_in_fields(1,2), of time0 ?b "()" 5000 "length ?b" st'] r by auto
qed

theorem new_source_is_delivered_witness:
  "\<exists>st' gs' a ip. takeInDataPacket sample_in_env time0 (Some (getRawPacket (send_pkt True 8 65535 160 7
      (newOutgoingRTPPkt_ext (\<lambda>_. 0) [] [] [1, 2, 3] 0 None)), (), 5000)) sample_in = Some (15, st') \<and>
    iq_ok (iqPackets st') gs' \<and> set gs' = {a} \<and> map_option lpacket (pktHeap (iqPackets st') a) = Some ip \<and> getPayload ip = [1, 2, 3]"
proof -
  let ?p = "send_pkt True 8 65535 160 7 (newOutgoingRTPPkt_ext (\<lambda>_. 0) [] [] [1, 2, 3] 0 None)"
  have len: "length (getRawPacket ?p) = 15"
    by (subst sent_bytes(4) [OF _ _ _ _ _ _ refl]) (simp_all add: valid_hdrext_def)
  have n: "7 \<noteq> localSSRC sample_in" "length (getRawPacket ?p) \<le> maxRecvPacketSize sample_in" using len by (simp_all add: sample_in_fields)
  have "\<exists>st' gs' a ip. takeInDataPacket sample_in_env time0 (Some (getRawPacket ?p, (), 5000)) sample_in = Some (length (getRawPacket ?p), st') \<and>
    iq_ok (iqPackets st') gs' \<and> a \<notin> set [] \<and> set gs' = insert a (set []) \<and> map_option lpacket (pktHeap (iqPackets st') a) = Some ip \<and>
    getPayload ip = [1, 2, 3] \<and> getSeqNum ip = 65535 \<and> getTimestamp ip = 160 \<and> cachedSSRC ip = 7 \<and> getCSRCs ip = map be32 [] \<and>
    getPayloadType ip = 8 \<and> isMarked ip = True \<and>
    ids (qmembers (iqPackets st')) = insert 7 (ids (qmembers (iqPackets sample_in))) \<and>
    iqEvents st' = iqEvents sample_in @ [NewSyncSource 7]"
    by (rule new_source_is_delivered [OF _ _ _ _ _ _ refl sample_in_ok sample_in_fields(1-3) n(1) sample_in_fields(5-7) n(2)])
       (simp_all add: valid_hdrext_def)
  then show ?thesis unfolding len by (elim exE) (intro exI conjI, auto)
qed

end
