(* ===== verification/Rtcp_Receive.thy ===== *)
theory Rtcp_Receive
  imports Rtcp_Send Incoming_Queue
begin

text \<open>
  Reception of RTCP, \<open>QueueRTCPManager::takeInControlPacket\<close> of control.cpp and everything it calls: the selection of the SRTCP context, the check of
  the compound packet, sender and receiver reports, source descriptions and the participants they describe, APP and BYE packets, and the average size.

  The virtual hooks of the manager (a new source, a collision, a farewell, an APP packet, an extension) are recorded as events, in the order of the calls.
  An access outside the receive buffer or through a pointer that is not valid is \<^term>\<open>None\<close>, \<open>Undefined\<close> for the whole handler. Every loop of the handler
  but the one over BYE packets terminates by its measure; that one takes fuel, and \<open>Loops\<close> says that the fuel was not enough.
\<close>

section \<open>State\<close>

datatype source_state = stateUnknown | statePrevalid | stateActive | stateInactive | stateLeaving

datatype ctl_event =
    CtlNewSyncSource u32
  | CtlCollision
  | GotGoodbye u32 "byte list"
  | GotAPP u32 "byte list" nat
  | GotExtension "byte list"

record ('na, 'ak, 'hm) CtlIn =
  ciMembers :: "'na SourceData Membership"
  ciConflicts :: "'na ConflictingTransportAddress list"
  ciContexts :: "('ak, 'hm) CryptoContextCtrl list"
  ciEnv :: tf_env
  ciLocalSSRC :: u32
  ciMinValid :: byte
  ciAvgSize :: u16
  ciLowerHeaders :: nat
  ciRecons :: reconsInfo
  ciParticipants :: "sdes_items list"
  ciParticipant :: "addr \<rightharpoonup> nat"
  ciState :: "addr \<rightharpoonup> source_state"
  ciEvents :: "ctl_event list"

text \<open>The environment: the libraries, fresh memory, and the source object that a new link gets.\<close>

record ('na, 'ak, 'hm) ctl_in_env = "('ak, 'hm) ctl_env" +
  ciNewSource :: "bool \<times> 'na SourceData"

definition cstring :: "byte list \<Rightarrow> byte list" where
  "cstring bs = takeWhile (\<lambda>c. c \<noteq> 0) bs"

definition ci_event :: "ctl_event \<Rightarrow> ('na, 'ak, 'hm) CtlIn \<Rightarrow> ('na, 'ak, 'hm) CtlIn" where
  "ci_event e st = st\<lparr>ciEvents := ciEvents st @ [e]\<rparr>"

definition ci_link :: "addr \<Rightarrow> ('na SourceData SyncSourceLink \<Rightarrow> 'na SourceData SyncSourceLink) \<Rightarrow> ('na, 'ak, 'hm) CtlIn
   \<Rightarrow> ('na, 'ak, 'hm) CtlIn option" where
  "ci_link a f st =
     do { l \<leftarrow> linkHeap (ciMembers st) a;
          Some (st\<lparr>ciMembers := (ciMembers st)\<lparr>linkHeap := (linkHeap (ciMembers st))(a \<mapsto> f l)\<rparr>\<rparr>) }"

section \<open>Sources\<close>

definition ci_source :: "('na, 'ak, 'hm) ctl_in_env \<Rightarrow> u32 \<Rightarrow> ('na, 'ak, 'hm) CtlIn \<Rightarrow> (addr \<times> bool \<times> ('na, 'ak, 'hm) CtlIn) option" where
  "ci_source E ssrc st =
     do { (a, created, m) \<leftarrow> getSourceBySSRC (ciNewSource E) (ciMembers st) ssrc;
          Some (a, created, st\<lparr>ciMembers := m\<rparr>) }"

definition ci_check :: "timeval \<Rightarrow> bool \<Rightarrow> 'na \<Rightarrow> u16 \<Rightarrow> addr \<Rightarrow> ('na, 'ak, 'hm) CtlIn \<Rightarrow> (bool \<times> ('na, 'ak, 'hm) CtlIn) option" where
  "ci_check now created na tp a st =
     do { l \<leftarrow> linkHeap (ciMembers st) a;
          let r = checkSSRCInRTCPPkt now (ciLocalSSRC st) created na tp l (ciConflicts st);
          st \<leftarrow> ci_link a (\<lambda>_. colLink r) (st\<lparr>ciConflicts := colConflicts r\<rparr>);
          Some (accepted r, if newCollision r then ci_event CtlCollision st else st) }"

definition ci_hello :: "addr \<Rightarrow> ('na, 'ak, 'hm) CtlIn \<Rightarrow> ('na, 'ak, 'hm) CtlIn option" where
  "ci_hello a st =
     do { l \<leftarrow> linkHeap (ciMembers st) a;
          let (hello, d) = getHello (linkData l);
          st \<leftarrow> ci_link a (\<lambda>l. l\<lparr>linkData := d\<rparr>) st;
          Some (if hello then ci_event (CtlNewSyncSource (srcID l)) st else st) }"

text \<open>The source of the whole compound packet.\<close>

definition admit_control ::
  "('na, 'ak, 'hm) ctl_in_env \<Rightarrow> timeval \<Rightarrow> 'na \<Rightarrow> u16 \<Rightarrow> u32 \<Rightarrow> ('na, 'ak, 'hm) CtlIn \<Rightarrow> (addr \<times> bool \<times> ('na, 'ak, 'hm) CtlIn) option" where
  "admit_control E recvtime na tp ssrc st =
     do { (s, created, st) \<leftarrow> ci_source E ssrc st;
          st \<leftarrow> (if created then
                  do { st \<leftarrow> ci_link s (upd_data (\<lambda>d. (initStats (d\<lparr>controlTransportPort := tp, networkAddress := na\<rparr>))
                              \<lparr>probation := ciMinValid st\<rparr>)) st;
                       ci_hello s st }
                else ci_link s (upd_data (\<lambda>d. if controlTransportPort d = 0 then d\<lparr>controlTransportPort := tp\<rparr> else d)) st);
          st \<leftarrow> ci_link s (upd_data (\<lambda>d. d\<lparr>lastRTCPPacketTime := recvtime, lastRTCPSRTime := recvtime\<rparr>)) st;
          Some (s, created, st) }"

section \<open>Reports\<close>

definition onGotSR :: "addr \<Rightarrow> byte list \<Rightarrow> ('na, 'ak, 'hm) CtlIn \<Rightarrow> ('na, 'ak, 'hm) CtlIn option" where
  "onGotSR s pkt st =
     (if length pkt < 28 then None else ci_link s (upd_data (\<lambda>d. d\<lparr>senderInfo := Some (take 20 (drop 8 pkt))\<rparr>)) st)"

text \<open>The blocks are looked at when the sender of the report, not the source of the block, is the local one.\<close>

fun onGotRR :: "addr \<Rightarrow> byte list \<Rightarrow> nat \<Rightarrow> nat \<Rightarrow> ('na, 'ak, 'hm) CtlIn \<Rightarrow> ('na, 'ak, 'hm) CtlIn option" where
  "onGotRR s pkt i 0 st = Some st"
| "onGotRR s pkt i (Suc blocks) st =
     do { st \<leftarrow> (if ciLocalSSRC st = getSSRC pkt then
                  (if length pkt < 8 + 24 * i + 24 then None
                   else ci_link s (upd_data (\<lambda>d. d\<lparr>receiverInfo := Some (take 20 (drop (8 + 24 * i + 4) pkt))\<rparr>)) st)
                else Some st);
          onGotRR s pkt (i + 1) blocks st }"

text \<open>A packet at \<open>pointer\<close> whose header is in the buffer.\<close>

definition pkt_in :: "byte list \<Rightarrow> nat \<Rightarrow> byte list option" where
  "pkt_in buf pointer = (if length buf < pointer + 4 then None else Some (drop pointer buf))"

text \<open>The first packet: only a sender report is processed here and passed over.\<close>

definition first_control ::
  "timeval \<Rightarrow> bool \<Rightarrow> 'na \<Rightarrow> u16 \<Rightarrow> addr \<Rightarrow> byte list \<Rightarrow> ('na, 'ak, 'hm) CtlIn \<Rightarrow> (nat \<times> ('na, 'ak, 'hm) CtlIn) option" where
  "first_control recvtime created na tp s buf st =
     (if fh_type buf = tSR then
        do { (ok, st) \<leftarrow> ci_check recvtime created na tp s st;
             st \<leftarrow> (if ok then ci_link s (upd_data (\<lambda>d. d\<lparr>lastRTCPSRTime := recvtime\<rparr>)) st else Some st);
             st \<leftarrow> onGotSR s buf st;
             Some (getLength buf, st) }
      else Some (0, st))"

definition one_rr ::
  "('na, 'ak, 'hm) ctl_in_env \<Rightarrow> timeval \<Rightarrow> 'na \<Rightarrow> u16 \<Rightarrow> addr \<Rightarrow> byte list \<Rightarrow> ('na, 'ak, 'hm) CtlIn \<Rightarrow> ('na, 'ak, 'hm) CtlIn option" where
  "one_rr E recvtime na tp s pkt st =
     do { _ \<leftarrow> (if length pkt < 8 then None else Some ());
          (a, created, st) \<leftarrow> ci_source E (getSSRC pkt) st;
          (ok, st) \<leftarrow> ci_check recvtime created na tp a st;
          if ok then onGotRR s pkt 0 (unat (fh_block_count pkt)) st else Some st }"

function rr_packets ::
  "('na, 'ak, 'hm) ctl_in_env \<Rightarrow> timeval \<Rightarrow> 'na \<Rightarrow> u16 \<Rightarrow> addr \<Rightarrow> byte list \<Rightarrow> nat \<Rightarrow> nat \<Rightarrow> ('na, 'ak, 'hm) CtlIn
   \<Rightarrow> (nat \<times> ('na, 'ak, 'hm) CtlIn) option" where
  "rr_packets E recvtime na tp s buf len pointer st =
     (if pointer < len then
        (case pkt_in buf pointer of
           None \<Rightarrow> None
         | Some pkt \<Rightarrow>
             if fh_type pkt = tRR then
               (case one_rr E recvtime na tp s pkt st of
                  None \<Rightarrow> None
                | Some st \<Rightarrow> rr_packets E recvtime na tp s buf len (pointer + getLength pkt) st)
             else Some (pointer, st))
      else Some (pointer, st))"
  by pat_completeness auto
termination by (relation "measure (\<lambda>(_, _, _, _, _, _, len, pointer, _). len - pointer)") (auto simp: getLength_def)

declare rr_packets.simps [simp del]

section \<open>Source descriptions\<close>

definition new_participant :: sdes_items where
  "new_participant = setItem SDESItemTypeCNAME [45] (replicate 10 [])"

fun find_participant :: "byte list \<Rightarrow> nat \<Rightarrow> sdes_items list \<Rightarrow> nat option" where
  "find_participant cname i [] = None"
| "find_participant cname i (p # ps) = (if getItem p SDESItemTypeCNAME = cname then Some i else find_participant cname (i + 1) ps)"

text \<open>The participant of the source, looked up or created by its CNAME when there is none yet.\<close>

definition participant_for :: "addr \<Rightarrow> byte list \<Rightarrow> ('na, 'ak, 'hm) CtlIn \<Rightarrow> nat \<times> ('na, 'ak, 'hm) CtlIn" where
  "participant_for s cname st =
     (case find_participant cname 0 (ciParticipants st) of
        Some k \<Rightarrow> (k, st\<lparr>ciParticipant := (ciParticipant st)(s \<mapsto> k)\<rparr>)
      | None \<Rightarrow> (length (ciParticipants st),
                 st\<lparr>ciParticipants := ciParticipants st @ [new_participant],
                    ciParticipant := (ciParticipant st)(s \<mapsto> length (ciParticipants st))\<rparr>))"

definition setSDESItem :: "nat \<Rightarrow> nat \<Rightarrow> byte list \<Rightarrow> ('na, 'ak, 'hm) CtlIn \<Rightarrow> ('na, 'ak, 'hm) CtlIn" where
  "setSDESItem k type value st =
     st\<lparr>ciParticipants := (ciParticipants st)[k := setItem type (cstring value) (ciParticipants st ! k)]\<rparr>"

definition sdes_item ::
  "addr \<Rightarrow> nat \<Rightarrow> byte list \<Rightarrow> nat option \<Rightarrow> ('na, 'ak, 'hm) CtlIn \<Rightarrow> nat option \<times> ('na, 'ak, 'hm) CtlIn" where
  "sdes_item s type value part st =
     (let (part, st) = (if part = None \<and> type = SDESItemTypeCNAME then apfst Some (participant_for s value st) else (part, st));
          st = (case part of None \<Rightarrow> st | Some k \<Rightarrow> setSDESItem k type value st);
          st = (if type = SDESItemTypeCNAME then st\<lparr>ciState := (ciState st)(s \<mapsto> stateActive)\<rparr> else st)
      in (part, st))"

text \<open>
  The items of a chunk that starts at \<open>base\<close>. The case of PRIV items of the code is behind the test for every known type and is never taken;
  an unknown type is skipped byte by byte.
\<close>

function sdes_items_loop ::
  "addr \<Rightarrow> byte list \<Rightarrow> nat \<Rightarrow> nat \<Rightarrow> nat \<Rightarrow> nat option \<Rightarrow> bool \<Rightarrow> ('na, 'ak, 'hm) CtlIn \<Rightarrow> (bool \<times> ('na, 'ak, 'hm) CtlIn) option" where
  "sdes_items_loop s buf base len pointer part cname_found st =
     (if \<not> pointer < len then Some (cname_found, st)
      else if length buf < base + pointer + 1 then None
      else let type = unat (buf ! (base + pointer)); n = unat (buf ! (base + pointer + 1)) in
        if SDESItemTypeEND < type \<and> type \<le> SDESItemTypeH323CADDR then
          (if length buf < base + pointer + 2 then None
           else if (part \<noteq> None \<or> type = SDESItemTypeCNAME) \<and> length buf < base + pointer + 2 + n then None
           else let (part, st) = sdes_item s type (take n (drop (base + pointer + 2) buf)) part st
                in sdes_items_loop s buf base len (pointer + 2 + n) part (cname_found \<or> type = SDESItemTypeCNAME) st)
        else if type = SDESItemTypeEND then Some (cname_found, st)
        else sdes_items_loop s buf base len (pointer + 1) part cname_found st)"
  by pat_completeness auto
termination by (relation "measure (\<lambda>(_, _, _, len, pointer, _, _, _). len - pointer)") auto

declare sdes_items_loop.simps [simp del]

definition onGotSDESChunk :: "addr \<Rightarrow> byte list \<Rightarrow> nat \<Rightarrow> nat \<Rightarrow> ('na, 'ak, 'hm) CtlIn \<Rightarrow> (bool \<times> ('na, 'ak, 'hm) CtlIn) option" where
  "onGotSDESChunk s buf base len st = sdes_items_loop s buf base len 4 (ciParticipant st s) False st"

text \<open>Every chunk is taken to be as long as the whole packet, and its items go to the source of the compound packet.\<close>

function sdes_chunks ::
  "('na, 'ak, 'hm) ctl_in_env \<Rightarrow> addr \<Rightarrow> byte list \<Rightarrow> nat \<Rightarrow> nat \<Rightarrow> nat \<Rightarrow> nat \<Rightarrow> ('na, 'ak, 'hm) CtlIn \<Rightarrow> ('na, 'ak, 'hm) CtlIn option" where
  "sdes_chunks E s buf len count pointer i st =
     (let pointer = pointer + 4 in
      if length buf < pointer + 4 then None
      else
        (case do { (a, created, st) \<leftarrow> ci_source E (from_be32 (take 4 (drop pointer buf))) st;
                   (cn, st) \<leftarrow> onGotSDESChunk s buf pointer len st;
                   ci_hello a st } of
           None \<Rightarrow> None
         | Some st \<Rightarrow> if i + 1 < count then sdes_chunks E s buf len count (pointer + len) (i + 1) st else Some st))"
  by pat_completeness auto
termination by (relation "measure (\<lambda>(_, _, _, _, count, _, i, _). count - i)") auto

declare sdes_chunks.simps [simp del]

definition onGotSDES :: "('na, 'ak, 'hm) ctl_in_env \<Rightarrow> addr \<Rightarrow> byte list \<Rightarrow> nat \<Rightarrow> ('na, 'ak, 'hm) CtlIn \<Rightarrow> ('na, 'ak, 'hm) CtlIn option" where
  "onGotSDES E s buf pointer st =
     (let pkt = drop pointer buf in sdes_chunks E s buf (getLength pkt) (unat (fh_block_count pkt)) pointer 0 st)"

text \<open>
  The handler of APP packets gets the source of the compound packet, the packet after its fixed header, and the length of the packet
  with that header.
\<close>

definition one_sdes_app ::
  "('na, 'ak, 'hm) ctl_in_env \<Rightarrow> timeval \<Rightarrow> 'na \<Rightarrow> u16 \<Rightarrow> addr \<Rightarrow> byte list \<Rightarrow> nat \<Rightarrow> ('na, 'ak, 'hm) CtlIn \<Rightarrow> ('na, 'ak, 'hm) CtlIn option" where
  "one_sdes_app E recvtime na tp s buf pointer st =
     (let pkt = drop pointer buf in
      do { _ \<leftarrow> (if length pkt < 8 then None else Some ());
           (a, created, st) \<leftarrow> ci_source E (getSSRC pkt) st;
           (ok, st) \<leftarrow> ci_check recvtime created na tp a st;
           if \<not> ok then Some st
           else if fh_type pkt = tSDES then onGotSDES E s buf pointer st
           else do { l \<leftarrow> linkHeap (ciMembers st) s;
                     Some (ci_event (GotAPP (srcID l) (drop 4 (take (getLength pkt) pkt)) (getLength pkt)) st) } })"

function sdes_packets ::
  "('na, 'ak, 'hm) ctl_in_env \<Rightarrow> timeval \<Rightarrow> 'na \<Rightarrow> u16 \<Rightarrow> addr \<Rightarrow> byte list \<Rightarrow> nat \<Rightarrow> nat \<Rightarrow> ('na, 'ak, 'hm) CtlIn
   \<Rightarrow> (nat \<times> ('na, 'ak, 'hm) CtlIn) option" where
  "sdes_packets E recvtime na tp s buf len pointer st =
     (if pointer < len then
        (case pkt_in buf pointer of
           None \<Rightarrow> None
         | Some pkt \<Rightarrow>
             if fh_type pkt = tSDES \<or> fh_type pkt = tAPP then
               (case one_sdes_app E recvtime na tp s buf pointer st of
                  None \<Rightarrow> None
                | Some st \<Rightarrow> sdes_packets E recvtime na tp s buf len (pointer + getLength pkt) st)
             else Some (pointer, st))
      else Some (pointer, st))"
  by pat_completeness auto
termination by (relation "measure (\<lambda>(_, _, _, _, _, _, len, pointer, _). len - pointer)") (auto simp: getLength_def)

declare sdes_packets.simps [simp del]

section \<open>BYE\<close>

definition bye_reason :: "byte list \<Rightarrow> nat \<Rightarrow> byte list \<Rightarrow> byte list option" where
  "bye_reason buf pointer pkt =
     (let n = unat (fh_block_count pkt) in
      if 4 + n * 4 < getLength pkt then
        let endpointer = (pointer + 4 + n * 4) mod 65536 in
        if length buf \<le> endpointer then None
        else let len = unat (buf ! endpointer) in
          if length buf < endpointer + 1 + len then None else Some (cstring (take len (drop (endpointer + 1) buf)))
      else Some [])"

definition bye_once :: "('na, 'ak, 'hm) ctl_in_env \<Rightarrow> u32 \<Rightarrow> byte list \<Rightarrow> ('na, 'ak, 'hm) CtlIn \<Rightarrow> ('na, 'ak, 'hm) CtlIn option" where
  "bye_once E ssrc reason st =
     do { (a, created, st) \<leftarrow> ci_source E ssrc st;
          l \<leftarrow> linkHeap (ciMembers st) a;
          let (bye, d) = getGoodbye (linkData l);
          st \<leftarrow> ci_link a (\<lambda>l. l\<lparr>linkData := d\<rparr>) st;
          let st = (if bye then ci_event (GotGoodbye (srcID l) reason) st else st);
          (_, m) \<leftarrow> BYESource (ciMembers st) ssrc;
          Some (st\<lparr>ciMembers := m, ciState := (ciState st)(a \<mapsto> stateLeaving),
                   ciRecons := reverseReconsideration (membersCount m) (ciRecons st)\<rparr>) }"

fun bye_times :: "('na, 'ak, 'hm) ctl_in_env \<Rightarrow> u32 \<Rightarrow> byte list \<Rightarrow> nat \<Rightarrow> ('na, 'ak, 'hm) CtlIn \<Rightarrow> ('na, 'ak, 'hm) CtlIn option" where
  "bye_times E ssrc reason 0 st = Some st"
| "bye_times E ssrc reason (Suc n) st = do { st \<leftarrow> bye_once E ssrc reason st; bye_times E ssrc reason n st }"

text \<open>The new value of \<open>pointer\<close> and the state; every turn of the loop takes the identifier of the first source.\<close>

definition getBYE ::
  "('na, 'ak, 'hm) ctl_in_env \<Rightarrow> byte list \<Rightarrow> byte list \<Rightarrow> nat \<Rightarrow> ('na, 'ak, 'hm) CtlIn \<Rightarrow> (bool \<times> nat \<times> ('na, 'ak, 'hm) CtlIn) option" where
  "getBYE E buf pkt pointer st =
     (if fh_block_count pkt = 0 then Some (False, pointer, st)
      else do { reason \<leftarrow> bye_reason buf pointer pkt;
                st \<leftarrow> bye_times E (getSSRC pkt) reason (unat (fh_block_count pkt)) st;
                Some (True, pointer + getLength pkt, st) })"

text \<open>The loop over BYE packets may not end; \<open>Loops\<close> says that the given number of turns was not enough.\<close>

datatype 'a outcome = Returns 'a | Undefined | Loops

definition bye_turn ::
  "('na, 'ak, 'hm) ctl_in_env \<Rightarrow> timeval \<Rightarrow> 'na \<Rightarrow> u16 \<Rightarrow> byte list \<Rightarrow> byte list \<Rightarrow> nat \<Rightarrow> ('na, 'ak, 'hm) CtlIn
   \<Rightarrow> (nat \<times> ('na, 'ak, 'hm) CtlIn) option" where
  "bye_turn E recvtime na tp buf pkt pointer st =
     do { _ \<leftarrow> (if length pkt < 8 then None else Some ());
          (a, created, st) \<leftarrow> ci_source E (getSSRC pkt) st;
          (ok, st) \<leftarrow> ci_check recvtime created na tp a st;
          if ok then do { (_, pointer, st) \<leftarrow> getBYE E buf pkt pointer st; Some (pointer, st) } else Some (pointer, st) }"

text \<open>The packet \<open>pkt\<close> stays the same in every turn; only \<open>pointer\<close> moves.\<close>

fun bye_packets ::
  "nat \<Rightarrow> ('na, 'ak, 'hm) ctl_in_env \<Rightarrow> timeval \<Rightarrow> 'na \<Rightarrow> u16 \<Rightarrow> byte list \<Rightarrow> byte list \<Rightarrow> nat \<Rightarrow> nat \<Rightarrow> ('na, 'ak, 'hm) CtlIn
   \<Rightarrow> (nat \<times> ('na, 'ak, 'hm) CtlIn) outcome" where
  "bye_packets 0 E recvtime na tp buf pkt len pointer st =
     (if pointer < len \<and> fh_type pkt = tBYE then Loops else Returns (pointer, st))"
| "bye_packets (Suc fuel) E recvtime na tp buf pkt len pointer st =
     (if pointer < len \<and> fh_type pkt = tBYE then
        (case bye_turn E recvtime na tp buf pkt pointer st of
           None \<Rightarrow> Undefined
         | Some (pointer, st) \<Rightarrow> bye_packets fuel E recvtime na tp buf pkt len pointer st)
      else Returns (pointer, st))"

section \<open>The handler\<close>

definition select_ctl_in ::
  "('na, 'ak, 'hm) ctl_in_env \<Rightarrow> u32 \<Rightarrow> ('na, 'ak, 'hm) CtlIn \<Rightarrow> (('ak, 'hm) CryptoContextCtrl option \<times> ('na, 'ak, 'hm) CtlIn) option" where
  "select_ctl_in E ssrc st =
     (case getInQueueCryptoContextCtrl ssrc (ciContexts st) of
        Some pcc \<Rightarrow> Some (Some pcc, st)
      | None \<Rightarrow>
          (case getInQueueCryptoContextCtrl 0 (ciContexts st) of
             None \<Rightarrow> Some (None, st)
           | Some pcc \<Rightarrow>
               do { let pcc = newCryptoContextCtrlForSSRC (ceMem E) (ceSl E) pcc ssrc;
                    (env, pcc) \<leftarrow> deriveSrtcpKeys (ceAes E) (ceHmac E) (ciEnv st) pcc;
                    Some (Some pcc, st\<lparr>ciEnv := env, ciContexts := setInQueueCryptoContextCtrl pcc (ciContexts st)\<rparr>) }))"

text \<open>The result is the length after decryption, or \<^term>\<open>None\<close> inside when the packet is refused.\<close>

definition unprotect_control ::
  "('na, 'ak, 'hm) ctl_in_env \<Rightarrow> byte list \<Rightarrow> nat \<Rightarrow> ('na, 'ak, 'hm) CtlIn \<Rightarrow> (nat option \<times> byte list \<times> ('na, 'ak, 'hm) CtlIn) option" where
  "unprotect_control E buf len st =
     do { (pcco, st) \<leftarrow> select_ctl_in E (getSSRC buf) st;
          case pcco of
            None \<Rightarrow> Some (Some len, buf, st)
          | Some pcc \<Rightarrow>
              do { (ret, buf, pcco) \<leftarrow> unprotectCtrl (ceAes E) (ceHmac E) (ceMem E) buf len (Some pcc);
                   let st = (case pcco of None \<Rightarrow> st | Some pcc \<Rightarrow> st\<lparr>ciContexts := write_ctl pcc (ciContexts st)\<rparr>);
                   Some (if ret < 0 then None else Some (nat ret), buf, st) } }"

text \<open>Everything up to the BYE packets: the offset reached, the packet there, and the state.\<close>

definition control_reports ::
  "('na, 'ak, 'hm) ctl_in_env \<Rightarrow> timeval \<Rightarrow> 'na \<Rightarrow> u16 \<Rightarrow> byte list \<Rightarrow> nat \<Rightarrow> ('na, 'ak, 'hm) CtlIn \<Rightarrow> (nat \<times> ('na, 'ak, 'hm) CtlIn) option" where
  "control_reports E recvtime na tp buf len st =
     do { (s, created, st) \<leftarrow> admit_control E recvtime na tp (getSSRC buf) st;
          (pointer, st) \<leftarrow> first_control recvtime created na tp s buf st;
          (pointer, st) \<leftarrow> rr_packets E recvtime na tp s buf len pointer st;
          sdes_packets E recvtime na tp s buf len pointer st }"

definition control_end :: "byte list \<Rightarrow> nat \<Rightarrow> nat \<Rightarrow> ('na, 'ak, 'hm) CtlIn \<Rightarrow> ('na, 'ak, 'hm) CtlIn" where
  "control_end buf len pointer st =
     (let st = (if pointer \<noteq> len then ci_event (GotExtension (take (len - pointer) (drop pointer buf))) st else st)
      in st\<lparr>ciAvgSize := updateAvgRTCPSize (ciLowerHeaders st) len (ciAvgSize st)\<rparr>)"

text \<open>\<open>buf\<close> is the whole receive buffer, \<open>len\<close> the number of bytes that were received into it.\<close>

definition takeInControlPacket ::
  "nat \<Rightarrow> ('na, 'ak, 'hm) ctl_in_env \<Rightarrow> timeval \<Rightarrow> 'na \<Rightarrow> u16 \<Rightarrow> byte list \<Rightarrow> nat \<Rightarrow> ('na, 'ak, 'hm) CtlIn \<Rightarrow> ('na, 'ak, 'hm) CtlIn outcome" where
  "takeInControlPacket fuel E recvtime na tp buf len st =
     (if length buf < 8 then Undefined
      else case unprotect_control E buf len st of
        None \<Rightarrow> Undefined
      | Some (None, buf, st) \<Rightarrow> Returns st
      | Some (Some len, buf, st) \<Rightarrow>
        (case checkCompoundRTCPHeader buf len of
           None \<Rightarrow> Undefined
         | Some False \<Rightarrow> Returns st
         | Some True \<Rightarrow>
             (case control_reports E recvtime na tp buf len st of
                None \<Rightarrow> Undefined
              | Some (pointer, st) \<Rightarrow>
                  (case bye_packets fuel E recvtime na tp buf (drop pointer buf) len pointer st of
                     Undefined \<Rightarrow> Undefined
                   | Loops \<Rightarrow> Loops
                   | Returns (pointer, st) \<Rightarrow> Returns (control_end buf len pointer st)))))"


section \<open>BYE packets that are never passed\<close>

lemma ci_link_table:
  assumes "ci_link a f st = Some st'" "\<And>l. table_view (f l) = table_view l"
  shows "table_same (ciMembers st) (ciMembers st')"
  using assms by (auto simp: ci_link_def table_same_def split: Option.bind_splits)

lemma checkSSRCInRTCPPkt_view: "table_view (colLink (checkSSRCInRTCPPkt now lo new na tp l cs)) = table_view l"
  by (simp add: checkSSRCInRTCPPkt_def Let_def table_view_def upd_data_def split: option.split)

lemma ci_source_ok:
  fixes st :: "('na, 'ak, 'hm) CtlIn"
  assumes "mem_ok (ciMembers st)"
  shows "\<exists>a created st' l. ci_source E ssrc st = Some (a, created, st') \<and> mem_ok (ciMembers st') \<and> linkHeap (ciMembers st') a = Some l \<and>
    srcID l = ssrc"
proof -
  obtain cs gs where inv: "mem_inv (ciMembers st) cs gs" using assms by (auto simp: mem_ok_def)
  from getSourceBySSRC_step [OF inv, of "ciNewSource E" ssrc] obtain a m' cs' gs' created where
    g: "getSourceBySSRC (ciNewSource E) (ciMembers st) ssrc = Some (a, created, m')" "mem_inv m' cs' gs'" "map_option srcID (linkHeap m' a) = Some ssrc"
    by blast
  then have "mem_ok m'" by (auto simp: mem_ok_def)
  moreover obtain l where "linkHeap m' a = Some l" "srcID l = ssrc" using g(3) by auto
  ultimately show ?thesis using g(1) by (simp add: ci_source_def)
qed

lemma ci_check_ok:
  fixes st :: "('na, 'ak, 'hm) CtlIn"
  assumes "mem_ok (ciMembers st)" "linkHeap (ciMembers st) a = Some l"
  shows "\<exists>ok st'. ci_check now created na tp a st = Some (ok, st') \<and> mem_ok (ciMembers st')"
proof -
  define r where "r = checkSSRCInRTCPPkt now (ciLocalSSRC st) created na tp l (ciConflicts st)"
  let ?m = "(ciMembers st)\<lparr>linkHeap := (linkHeap (ciMembers st))(a \<mapsto> colLink r)\<rparr>"
  have "mem_ok ?m" by (rule mem_ok_table(1) [OF assms(1) table_same_upd [OF assms(2)]]) (simp add: r_def checkSSRCInRTCPPkt_view)
  then show ?thesis using assms(2) by (simp add: ci_check_def ci_link_def Let_def ci_event_def flip: r_def)
qed

lemma bye_turn_stuck:
  fixes st :: "('na, 'ak, 'hm) CtlIn"
  assumes "mem_ok (ciMembers st)" "8 \<le> length pkt" "fh_block_count pkt = 0"
  shows "\<exists>st'. bye_turn E recvtime na tp buf pkt pointer st = Some (pointer, st') \<and> mem_ok (ciMembers st')"
proof -
  obtain a created st1 l where 1: "ci_source E (getSSRC pkt) st = Some (a, created, st1)" "mem_ok (ciMembers st1)" "linkHeap (ciMembers st1) a = Some l"
    using ci_source_ok [OF assms(1)] by blast
  obtain ok st2 where 2: "ci_check recvtime created na tp a st1 = Some (ok, st2)" "mem_ok (ciMembers st2)"
    using ci_check_ok [OF 1(2,3)] by blast
  show ?thesis using 1(1) 2 assms(2,3) by (cases ok) (simp_all add: bye_turn_def getBYE_def)
qed

lemma bye_packets_stuck:
  fixes st :: "('na, 'ak, 'hm) CtlIn"
  assumes "8 \<le> length pkt" "fh_block_count pkt = 0" "fh_type pkt = tBYE" "pointer < len"
  shows "mem_ok (ciMembers st) \<Longrightarrow> bye_packets fuel E recvtime na tp buf pkt len pointer st = Loops"
proof (induction fuel arbitrary: st)
  case (Suc fuel)
  obtain st' where "bye_turn E recvtime na tp buf pkt pointer st = Some (pointer, st')" "mem_ok (ciMembers st')"
    using bye_turn_stuck [OF Suc.prems assms(1,2)] by blast
  then show ?case using Suc.IH assms(3,4) by simp
qed (use assms(3,4) in simp)

lemma ci_link_ok:
  fixes st :: "('na, 'ak, 'hm) CtlIn"
  assumes "mem_ok (ciMembers st)" "linkHeap (ciMembers st) a = Some l" "\<And>l. table_view (f l) = table_view l"
  shows "\<exists>st'. ci_link a f st = Some st' \<and> mem_ok (ciMembers st') \<and> linkHeap (ciMembers st') a = Some (f l) \<and>
    (\<forall>b. b \<noteq> a \<longrightarrow> linkHeap (ciMembers st') b = linkHeap (ciMembers st) b)"
  using mem_ok_table(1) [OF assms(1) table_same_upd [OF assms(2), of "f l"]] assms(2,3) by (simp add: ci_link_def)

lemma upd_data_view [simp]: "table_view (upd_data f l) = table_view l"
  by (simp add: table_view_def upd_data_def)

lemma ci_hello_ok:
  fixes st :: "('na, 'ak, 'hm) CtlIn"
  assumes "mem_ok (ciMembers st)" "linkHeap (ciMembers st) a = Some l"
  shows "\<exists>st' l'. ci_hello a st = Some st' \<and> mem_ok (ciMembers st') \<and> linkHeap (ciMembers st') a = Some l'"
proof -
  obtain he d where d: "getHello (linkData l) = (he, d)" by fastforce
  obtain st' where "ci_link a (\<lambda>l. l\<lparr>linkData := d\<rparr>) st = Some st'" "mem_ok (ciMembers st')" "linkHeap (ciMembers st') a = Some (l\<lparr>linkData := d\<rparr>)"
    using ci_link_ok [OF assms, of "\<lambda>l. l\<lparr>linkData := d\<rparr>"] by (auto simp: table_view_def)
  then show ?thesis using assms(2) d by (simp add: ci_hello_def ci_event_def)
qed

lemma admit_control_ok:
  fixes st :: "('na, 'ak, 'hm) CtlIn"
  assumes "mem_ok (ciMembers st)"
  shows "\<exists>s created st'. admit_control E t na tp ssrc st = Some (s, created, st') \<and> mem_ok (ciMembers st')"
proof -
  obtain s created st1 l where 1: "ci_source E ssrc st = Some (s, created, st1)" "mem_ok (ciMembers st1)" "linkHeap (ciMembers st1) s = Some l"
    using ci_source_ok [OF assms] by blast
  let ?f = "upd_data (\<lambda>d. (initStats (d\<lparr>controlTransportPort := tp, networkAddress := na\<rparr>))\<lparr>probation := ciMinValid st1\<rparr>)"
  let ?g = "upd_data (\<lambda>d. if controlTransportPort d = 0 then d\<lparr>controlTransportPort := tp\<rparr> else d)"
  let ?mid = "if created then do { st \<leftarrow> ci_link s ?f st1; ci_hello s st } else ci_link s ?g st1"
  have "\<exists>st2 l2. ?mid = Some st2 \<and> mem_ok (ciMembers st2) \<and> linkHeap (ciMembers st2) s = Some l2"
  proof (cases created)
    case True
    obtain st2 where 2: "ci_link s ?f st1 = Some st2" "mem_ok (ciMembers st2)" "linkHeap (ciMembers st2) s = Some (?f l)"
      using ci_link_ok [OF 1(2,3), of ?f] by auto
    from ci_hello_ok [OF 2(2,3)] show ?thesis using True 2(1) by auto
  next
    case False
    from ci_link_ok [OF 1(2,3), of ?g] show ?thesis using False by auto
  qed
  then obtain st2 l2 where 2: "?mid = Some st2" "mem_ok (ciMembers st2)" "linkHeap (ciMembers st2) s = Some l2" by blast
  from ci_link_ok [OF 2(2,3), of "upd_data (\<lambda>d. d\<lparr>lastRTCPPacketTime := t, lastRTCPSRTime := t\<rparr>)"]
  obtain st3 where "ci_link s (upd_data (\<lambda>d. d\<lparr>lastRTCPPacketTime := t, lastRTCPSRTime := t\<rparr>)) st2 = Some st3" "mem_ok (ciMembers st3)" by auto
  then show ?thesis using 1(1) 2(1) by (simp add: admit_control_def)
qed

lemma one_rr_empty:
  fixes st :: "('na, 'ak, 'hm) CtlIn"
  assumes "mem_ok (ciMembers st)" "8 \<le> length pkt" "fh_block_count pkt = 0"
  shows "\<exists>st'. one_rr E t na tp s pkt st = Some st' \<and> mem_ok (ciMembers st')"
proof -
  obtain a created st1 l where 1: "ci_source E (getSSRC pkt) st = Some (a, created, st1)" "mem_ok (ciMembers st1)" "linkHeap (ciMembers st1) a = Some l"
    using ci_source_ok [OF assms(1)] by blast
  obtain ok st2 where 2: "ci_check t created na tp a st1 = Some (ok, st2)" "mem_ok (ciMembers st2)"
    using ci_check_ok [OF 1(2,3)] by blast
  show ?thesis using 1(1) 2 assms(2,3) by (cases ok) (simp_all add: one_rr_def)
qed

definition bye_datagram :: "u32 \<Rightarrow> byte list" where
  "bye_datagram ssrc = rtcp_header 0 tRR 1 @ be32 ssrc @ rtcp_header 0 tBYE 0"

lemma bye_datagram_fields:
  assumes "4 \<le> length rest" "b = bye_datagram ssrc @ rest"
  shows "fh_type b = tRR" "fh_block_count b = 0" "getLength b = 8" "getSSRC b = ssrc" "12 + 4 \<le> length b"
    "fh_type (drop 8 b) = tBYE" "fh_block_count (drop 8 b) = 0" "getLength (drop 8 b) = 4" "checkCompoundRTCPHeader b 12 = Some True"
proof -
  show 1: "fh_type b = tRR" "fh_block_count b = 0" "getLength b = 8" "getSSRC b = ssrc" "12 + 4 \<le> length b"
    "fh_type (drop 8 b) = tBYE" "fh_block_count (drop 8 b) = 0" "getLength (drop 8 b) = 4"
    using assms(1) be32_from_be32 from_be32_be32 [of ssrc]
    by (simp_all add: assms(2) bye_datagram_def rtcp_header_def fh_type_def fh_block_count_def getLength_def fh_length_def be16_def from_be16_def
        getSSRC_def numeral_2_eq_2)
  let ?p = "rtcp_header 0 tRR 1 @ be32 ssrc" and ?q = "rtcp_header 0 tBYE 0"
  have "compound [?p, ?q]"
    by (simp add: compound_def rtcp_packet_def rtcp_header_def getLength_def fh_length_def be16_def from_be16_def fh_version_def CCRTP_VERSION_def)
  moreover have "concat [?p, ?q] = take 12 b" by (simp add: assms(2) bye_datagram_def rtcp_header_def)
  ultimately have "\<exists>ps. compound ps \<and> concat ps = take 12 b" by blast
  moreover have "fh_version b = CCRTP_VERSION" "\<not> fh_padding b"
    by (simp_all add: assms(2) bye_datagram_def rtcp_header_def fh_version_def fh_padding_def CCRTP_VERSION_def)
  ultimately show "checkCompoundRTCPHeader b 12 = Some True" using checkCompoundRTCPHeader_iff [of 12 b] 1 by simp
qed

text \<open>
  C40: a control packet can stop the receiver. A compound packet of twelve bytes, an empty receiver report followed by a BYE that names no source,
  passes all checks; the loop over BYE packets then never advances and the handler does not return, in any state and whatever the sender is.
\<close>

theorem empty_bye_never_returns:
  fixes st :: "('na, 'ak, 'hm) CtlIn"
  assumes ok: "mem_ok (ciMembers st)" and c: "ciContexts st = []" and r: "4 \<le> length rest"
  shows "takeInControlPacket fuel E t na tp (bye_datagram ssrc @ rest) 12 st = Loops"
proof -
  define b where "b = bye_datagram ssrc @ rest"
  note B = bye_datagram_fields [OF r b_def]
  obtain s created st1 where 1: "admit_control E t na tp ssrc st = Some (s, created, st1)" "mem_ok (ciMembers st1)"
    using admit_control_ok [OF ok] by blast
  have l8: "8 \<le> length b" "8 \<le> length (drop 8 b)" using B(5) by simp_all
  obtain st2 where 2: "one_rr E t na tp s b st1 = Some st2" "mem_ok (ciMembers st2)" using one_rr_empty [OF 1(2) l8(1) B(2)] by blast
  have ne: "tRR \<noteq> tSR" "tBYE \<noteq> tRR" "tBYE \<noteq> tSDES" "tBYE \<noteq> tAPP" by (simp_all add: tRR_def tSR_def tBYE_def tSDES_def tAPP_def)
  have rr: "rr_packets E t na tp s b 12 0 st1 = Some (8, st2)"
    using B 2(1) ne by (simp add: rr_packets.simps [of E t na tp s b 12 0] rr_packets.simps [of E t na tp s b 12 8] pkt_in_def)
  have sd: "sdes_packets E t na tp s b 12 8 st2 = Some (8, st2)"
    using B ne by (simp add: sdes_packets.simps [of E t na tp s b 12 8] pkt_in_def)
  have "control_reports E t na tp b 12 st = Some (8, st2)"
    using 1(1) rr sd B(1,4) ne by (simp add: control_reports_def first_control_def)
  moreover have "bye_packets fuel E t na tp b (drop 8 b) 12 8 st2 = Loops"
    by (rule bye_packets_stuck [OF l8(2) B(7,6) _ 2(2)]) simp
  moreover have "unprotect_control E b 12 st = Some (Some 12, b, st)"
    using c by (simp add: unprotect_control_def select_ctl_in_def getInQueueCryptoContextCtrl_def)
  ultimately show ?thesis using B(9) l8(1) unfolding b_def [symmetric] by (simp add: takeInControlPacket_def)
qed


theorem empty_bye_never_returns_witness:
  "\<forall>fuel. takeInControlPacket fuel
     (ctl_env.extend \<lparr>ceAes = sample_aes, ceHmac = sample_hmac, ceMem = \<lambda>_. 0, ceSl = 0\<rparr> \<lparr>ciNewSource = (False, blank_source ())\<rparr>)
     time0 () 5001 (bye_datagram 7 @ [0, 0, 0, 0]) 12
     \<lparr>ciMembers = newMembershipBookkeeping 11, ciConflicts = [], ciContexts = [], ciEnv = sample_env, ciLocalSSRC = 1, ciMinValid = 0,
      ciAvgSize = 28, ciLowerHeaders = 28, ciRecons = \<lparr>rtcpTp = time0, rtcpTc = time0, rtcpTn = time0, rtcpPMembers = 1\<rparr>,
      ciParticipants = [], ciParticipant = Map.empty, ciState = Map.empty, ciEvents = []\<rparr> = Loops"
  by (intro allI empty_bye_never_returns) (simp_all add: mem_ok_new)

section \<open>What a BYE counts\<close>

lemma registered_source:
  fixes m :: "'d Membership"
  assumes "mem_ok (m\<lparr>membersCount := k\<rparr>)" "ssrc \<in> ids m"
  shows "\<exists>a l. getSourceBySSRC d0 m ssrc = Some (a, False, m) \<and> linkHeap m a = Some l \<and> isRegistered m ssrc = Some True"
proof -
  let ?m = "m\<lparr>membersCount := k\<rparr>"
  obtain cs gs where inv: "mem_inv ?m cs gs" using assms(1) by (auto simp: mem_ok_def)
  have ids: "ids ?m = ids m" by (simp add: ids_def)
  obtain a created m' where g: "getSourceBySSRC d0 ?m ssrc = Some (a, created, m')" "created \<longleftrightarrow> ssrc \<notin> ids ?m" "map_option srcID (linkHeap m' a) = Some ssrc"
    "\<not> created \<longrightarrow> m' = ?m" using getSourceBySSRC_step [OF inv, of d0 ssrc] by blast
  have nc: "\<not> created" "m' = ?m" using g(2,4) assms(2) ids by simp_all
  obtain prev result found where s: "src_search (linkHeap m) ssrc None (sourceLinks m ! HASH m ssrc) = Some (prev, result, found)"
    using g(1) by (auto simp: getSourceBySSRC_def HASH_def Let_def split: Option.bind_splits)
  have H: "HASH ?m ssrc = HASH m ssrc" by (simp add: HASH_def)
  have f: "found" "result = Some a"
    using g(1) s nc by (auto simp: getSourceBySSRC_def H Let_def split: Option.bind_splits if_splits option.splits prod.splits)
  have "getSourceBySSRC d0 m ssrc = Some (a, False, m)" using s f by (simp add: getSourceBySSRC_def Let_def)
  moreover have "isRegistered m ssrc = isRegistered ?m ssrc" by (simp add: isRegistered_def H)
  moreover have "isRegistered ?m ssrc = Some (ssrc \<in> ids ?m)" by (rule isRegistered_ids [OF inv])
  moreover obtain l where "linkHeap m a = Some l" using g(3) nc(2) by auto
  ultimately show ?thesis using assms(2) ids by simp
qed

definition mem_ok_uncounted :: "'d Membership \<Rightarrow> bool" where
  "mem_ok_uncounted m \<longleftrightarrow> (\<exists>k. mem_ok (m\<lparr>membersCount := k\<rparr>))"

lemma bye_once_counts:
  fixes st :: "('na, 'ak, 'hm) CtlIn"
  assumes ok: "mem_ok_uncounted (ciMembers st)" and r: "ssrc \<in> ids (ciMembers st)"
  shows "\<exists>st'. bye_once E ssrc reason st = Some st' \<and> mem_ok_uncounted (ciMembers st') \<and> ids (ciMembers st') = ids (ciMembers st) \<and>
    membersCount (ciMembers st') = membersCount (ciMembers st) - 1"
proof -
  let ?m = "ciMembers st"
  obtain k where k: "mem_ok (?m\<lparr>membersCount := k\<rparr>)" using ok by (auto simp: mem_ok_uncounted_def)
  obtain a l where g: "getSourceBySSRC (ciNewSource E) ?m ssrc = Some (a, False, ?m)" "linkHeap ?m a = Some l"
    using registered_source [OF k r] by blast
  obtain bye d where d: "getGoodbye (linkData l) = (bye, d)" by fastforce
  define m1 where "m1 = ?m\<lparr>linkHeap := (linkHeap ?m)(a \<mapsto> l\<lparr>linkData := d\<rparr>)\<rparr>"
  have "table_same (?m\<lparr>membersCount := k\<rparr>) (m1\<lparr>membersCount := k\<rparr>)" using g(2) by (simp add: table_same_def m1_def table_view_def)
  note k1 = mem_ok_table [OF k this]
  have i1: "ids m1 = ids ?m" using k1(2) by (simp add: ids_def)
  obtain b l' where "isRegistered m1 ssrc = Some True" using registered_source [OF k1(1), of ssrc] i1 r by blast
  then have b: "BYESource m1 ssrc = Some (True, decreaseMembersCount m1)" by (simp add: BYESource_def)
  let ?m2 = "decreaseMembersCount m1"
  have m2: "mem_ok_uncounted ?m2" "ids ?m2 = ids ?m" "membersCount ?m2 = membersCount ?m - 1"
    using k1(1) i1 by (auto simp: mem_ok_uncounted_def decreaseMembersCount_def ids_def m1_def intro!: exI [of _ k])
  have "\<exists>st'. bye_once E ssrc reason st = Some st' \<and> ciMembers st' = ?m2"
    using g d b by (cases bye) (simp_all add: bye_once_def ci_source_def ci_link_def ci_event_def m1_def)
  then show ?thesis using m2 by metis
qed

lemma bye_times_counts:
  fixes st :: "('na, 'ak, 'hm) CtlIn"
  shows "mem_ok_uncounted (ciMembers st) \<Longrightarrow> ssrc \<in> ids (ciMembers st) \<Longrightarrow>
    \<exists>st'. bye_times E ssrc reason n st = Some st' \<and> ids (ciMembers st') = ids (ciMembers st) \<and>
      membersCount (ciMembers st') = membersCount (ciMembers st) - of_nat n"
proof (induction n arbitrary: st)
  case (Suc n)
  obtain st1 where 1: "bye_once E ssrc reason st = Some st1" "mem_ok_uncounted (ciMembers st1)" "ids (ciMembers st1) = ids (ciMembers st)"
    "membersCount (ciMembers st1) = membersCount (ciMembers st) - 1"
    using bye_once_counts [OF Suc.prems] by blast
  from Suc.IH [OF 1(2)] Suc.prems(2) 1(3) obtain st2 where "bye_times E ssrc reason n st1 = Some st2"
    "ids (ciMembers st2) = ids (ciMembers st)" "membersCount (ciMembers st2) = membersCount (ciMembers st1) - of_nat n" by auto
  then show ?case using 1(1,4) by (simp add: algebra_simps)
qed simp

text \<open>
  A BYE packet counts as many members out as it lists sources, but looks only at the first: whichever sources the others are, the first source
  leaves that many times while the table keeps every source, so that the number of members falls below the number of sources and wraps
  around at zero.
\<close>

theorem bye_counts_first_source:
  fixes st :: "('na, 'ak, 'hm) CtlIn"
  assumes "mem_ok (ciMembers st)" "getSSRC pkt \<in> ids (ciMembers st)" "fh_block_count pkt \<noteq> 0" "bye_reason buf pointer pkt = Some reason"
  shows "\<exists>st'. getBYE E buf pkt pointer st = Some (True, pointer + getLength pkt, st') \<and> ids (ciMembers st') = ids (ciMembers st) \<and>
    membersCount (ciMembers st') = membersCount (ciMembers st) - of_nat (unat (fh_block_count pkt))"
proof -
  have "mem_ok ((ciMembers st)\<lparr>membersCount := membersCount (ciMembers st)\<rparr>)" using assms(1) by simp
  then have "mem_ok_uncounted (ciMembers st)" unfolding mem_ok_uncounted_def by blast
  from bye_times_counts [OF this assms(2), of E reason "unat (fh_block_count pkt)"] show ?thesis
    using assms(3,4) by (auto simp: getBYE_def)
qed


definition sample_ci :: "unit SourceData Membership \<Rightarrow> (unit, byte list, byte list \<times> byte list) CtlIn" where
  "sample_ci m = \<lparr>ciMembers = m, ciConflicts = [], ciContexts = [], ciEnv = sample_env, ciLocalSSRC = 1, ciMinValid = 0,
      ciAvgSize = 28, ciLowerHeaders = 28, ciRecons = \<lparr>rtcpTp = time0, rtcpTc = time0, rtcpTn = time0, rtcpPMembers = 1\<rparr>,
      ciParticipants = [], ciParticipant = Map.empty, ciState = Map.empty, ciEvents = []\<rparr>"

definition sample_ctl_env :: "(unit, byte list, byte list \<times> byte list) ctl_in_env" where
  "sample_ctl_env = ctl_env.extend \<lparr>ceAes = sample_aes, ceHmac = sample_hmac, ceMem = \<lambda>_. 0, ceSl = 0\<rparr> \<lparr>ciNewSource = (False, blank_source ())\<rparr>"

theorem bye_counts_first_source_witness:
  "\<exists>m st'. ids m = {7} \<and> getBYE sample_ctl_env [] ([0x82, 203, 0, 2] @ be32 7 @ be32 8) 0 (sample_ci m) = Some (True, 12, st') \<and>
     membersCount (ciMembers st') = membersCount m - 2"
proof -
  let ?p = "[0x82, 203, 0, 2] @ be32 7 @ be32 8"
  have "mem_ok (newMembershipBookkeeping 11 :: unit SourceData Membership)" by (simp add: mem_ok_new)
  then obtain a m where m: "getSourceBySSRC (False, blank_source ()) (newMembershipBookkeeping 11) 7 = Some (a, True, m)" "mem_ok m" "ids m = {7}"
    using getSource_ok [of "newMembershipBookkeeping 11" "(False, blank_source ())" 7] by (auto simp: ids_new blank_source_def)
  have f: "getSSRC ?p = 7" "fh_block_count ?p = 2" "getLength ?p = 12"
    by (simp_all add: getSSRC_def fh_block_count_def getLength_def fh_length_def from_be16_def)
  have "bye_reason [] 0 ?p = Some []" unfolding bye_reason_def f Let_def by (simp del: append.simps)
  moreover have "mem_ok (ciMembers (sample_ci m))" "getSSRC ?p \<in> ids (ciMembers (sample_ci m))" "fh_block_count ?p \<noteq> 0"
    using m f by (simp_all add: sample_ci_def)
  ultimately obtain st' where "getBYE sample_ctl_env [] ?p 0 (sample_ci m) = Some (True, 0 + getLength ?p, st')"
    "membersCount (ciMembers st') = membersCount (ciMembers (sample_ci m)) - of_nat (unat (fh_block_count ?p))"
    using bye_counts_first_source by blast
  then show ?thesis using m(3) f by (intro exI [of _ m] exI [of _ st']) (simp add: sample_ci_def)
qed

section \<open>The farewell of one side at the other\<close>

lemma build_bye_bytes:
  assumes "0 \<notin> set reason" "length reason \<le> 251"
  shows "\<exists>k w. k \<in> {1..4} \<and> 4 dvd 9 + length reason + k \<and> w = of_nat ((9 + length reason + k) div 4 - 1) \<and>
    build_bye stack ssrc reason = Some (rtcp_header 0 tRR 1 @ be32 ssrc @ [(stack 8 AND 0x20) OR 0x81, tBYE] @ be16 w @ be32 ssrc @
      [of_nat (length reason + k)] @ reason @ replicate k 0)"
proof -
  let ?n = "length reason"
  define k where "k = 4 - (9 + ?n) mod 4"
  define w where "w = (of_nat ((9 + ?n + k) div 4 - 1) :: u16)"
  have k: "k \<in> {1..4}" "4 dvd 9 + ?n + k"
  proof -
    have "(9 + ?n) mod 4 < 4" by simp
    then show "k \<in> {1..4}" unfolding k_def by (auto simp del: mod_less_divisor)
    show "4 dvd 9 + ?n + k" unfolding k_def by presburger
  qed
  have tw: "takeWhile (\<lambda>c. c \<noteq> 0) reason = reason" using assms(1) by (metis (mono_tags, lifting) takeWhile_eq_all_conv)
  have n: "strlen reason mod 256 = ?n" using assms(2) by (simp add: strlen_def tw)
  let ?o = "rtcp_header 0 tRR 1 @ be32 ssrc"
  have lo: "length ?o = 8" by (simp add: rtcp_header_def)
  let ?o2 = "?o @ ([(stack 8 AND 0x20) OR 0x81, tBYE, stack (8 + 2), stack (8 + 3)] @ be32 ssrc @ [of_nat ?n])"
  let ?o4 = "(?o2 @ reason) @ replicate k 0"
  have l4: "length (?o2 @ reason) = 8 + (9 + ?n)" "length ?o4 = 8 + (9 + ?n + k)" using lo by simp_all
  have e: "emit BYE_BUFFER_LENGTH [] ?o = Some ?o"
    "emit BYE_BUFFER_LENGTH ?o ([(stack 8 AND 0x20) OR 0x81, tBYE, stack (8 + 2), stack (8 + 3)] @ be32 ssrc @ [of_nat ?n]) = Some ?o2"
    "emit BYE_BUFFER_LENGTH ?o2 (take ?n reason) = Some (?o2 @ reason)"
    "emit BYE_BUFFER_LENGTH (?o2 @ reason) (replicate k 0) = Some ?o4"
    using lo assms(2) k(1) by (simp_all add: emit_def BYE_BUFFER_LENGTH_def)
  have "build_bye stack ssrc reason = Some (?o4[8 + 8 := of_nat ?n + of_nat k, 8 + 2 := ucast (drop_bit 8 w), 8 + 3 := ucast w])"
  proof -
    have h1: "(of_nat (8 div 4 - 1) :: u16) = 1" by simp
    have pl: "4 - (8 + (9 + ?n) - 8) mod 4 = k" by (simp add: k_def)
    show ?thesis unfolding build_bye_def Let_def n h1 e(1) bind.bind_lunit e(2) e(3) l4(1) pl e(4) l4(2)
      by (simp only: diff_add_inverse w_def)
  qed
  moreover have "?o4[8 + 8 := of_nat ?n + of_nat k, 8 + 2 := ucast (drop_bit 8 w), 8 + 3 := ucast w] =
      ?o @ [(stack 8 AND 0x20) OR 0x81, tBYE] @ be16 w @ be32 ssrc @ [of_nat (?n + k)] @ reason @ replicate k 0"
    by (simp add: list_update_append rtcp_header_def be16_def be32_def)
  ultimately show ?thesis using k w_def by auto
qed

lemma bye_reason_reads:
  assumes "0 \<notin> set reason" "0 < k" "fh_block_count pkt = 1" "8 < getLength pkt" "length reason + k < 256"
    and "length buf = 17 + (length reason + k) + length rest" "buf ! 16 = of_nat (length reason + k)" "drop 17 buf = reason @ replicate k 0 @ rest"
  shows "bye_reason buf 8 pkt = Some reason"
proof -
  have u: "unat (of_nat (length reason + k) :: byte) = length reason + k"
    using assms(5) by (simp add: unsigned_of_nat take_bit_nat_eq_self del: of_nat_add)
  have "cstring (reason @ replicate k 0) = reason"
    using assms(1,2) unfolding cstring_def by (subst takeWhile_append2) (auto simp: takeWhile_eq_Nil_iff)
  then show ?thesis using assms u by (simp add: bye_reason_def Let_def)
qed

text \<open>
  The reason of a farewell arrives. The packet that a leaving session sends, for any reason of at most 251 bytes without a zero byte, is accepted by
  the header check of the receiver, and the reason, the source and the number of sources that the receiver reads from its BYE are those of the sender.
\<close>

theorem bye_round_trip:
  assumes "0 \<notin> set reason" "length reason \<le> 251"
  shows "\<exists>out. build_bye stack ssrc reason = Some out \<and> checkCompoundRTCPHeader (out @ rest) (length out) = Some True \<and>
    (let pkt = drop 8 (out @ rest) in fh_type pkt = tBYE \<and> fh_block_count pkt = 1 \<and> getSSRC pkt = ssrc \<and> 8 + getLength pkt = length out \<and>
       bye_reason (out @ rest) 8 pkt = Some reason)"
proof -
  obtain k w where kw: "k \<in> {1..4}" "4 dvd 9 + length reason + k" "w = of_nat ((9 + length reason + k) div 4 - 1)"
    "build_bye stack ssrc reason = Some (rtcp_header 0 tRR 1 @ be32 ssrc @ [(stack 8 AND 0x20) OR 0x81, tBYE] @ be16 w @ be32 ssrc @
      [of_nat (length reason + k)] @ reason @ replicate k 0)"
    using build_bye_bytes [OF assms] by blast
  define p where "p = [(stack 8 AND 0x20) OR 0x81, tBYE] @ be16 w @ be32 ssrc @ [of_nat (length reason + k)] @ reason @ replicate k 0"
  let ?a = "rtcp_header 0 tRR 1 @ be32 ssrc"
  define out where "out = ?a @ p"
  have la: "length ?a = 8" "rtcp_packet ?a" "fh_version ?a = CCRTP_VERSION"
    by (simp_all add: rtcp_header_def rtcp_packet_def getLength_def fh_length_def be16_def from_be16_def fh_version_def CCRTP_VERSION_def)
  have lp: "length p = 9 + length reason + k" by (simp add: p_def)
  obtain n where n: "9 + length reason + k = 4 * n" using kw(2) by blast
  then have nn: "0 < n" "n \<le> 65536" "n * 4 < 400" using kw(1) assms(2) by auto
  have w: "w = of_nat (n - 1)" using kw(3) n by simp
  have tk: "take 2 (drop 2 p) = be16 (of_nat (n - 1))" by (simp add: p_def w)
  have rp: "rtcp_packet p" by (rule getLength_hdr [OF _ nn(1,2) tk]) (use lp n in simp)
  have d: "drop 8 (out @ rest) = p @ rest" using la(1) by (simp add: out_def)
  have "compound [?a, p]" using la rp by (simp add: compound_def)
  moreover have "concat [?a, p] = take (length out) (out @ rest)" by (simp add: out_def)
  ultimately have "\<exists>ps. compound ps \<and> concat ps = take (length out) (out @ rest)" by blast
  moreover have "fh_version (out @ rest) = CCRTP_VERSION" "\<not> fh_padding (out @ rest)" "fh_type (out @ rest) = tRR"
    by (simp_all add: out_def rtcp_header_def fh_version_def fh_padding_def fh_type_def CCRTP_VERSION_def)
  ultimately have ck: "checkCompoundRTCPHeader (out @ rest) (length out) = Some True"
    using checkCompoundRTCPHeader_iff [of "length out" "out @ rest"] la(1) by (simp add: out_def)
  have bc: "fh_block_count (p @ rest) = 1"
  proof -
    have "((x AND 0x20) OR 0x81) AND 0x1F = (1 :: byte)" for x unfolding word_eq_bits by (simp add: all_less_8 bit_simps)
    then show ?thesis by (simp add: p_def fh_block_count_def)
  qed
  have gl: "getLength (p @ rest) = length p"
    using rp fh_take(2) [of "length p" "p @ rest"] lp by (simp add: rtcp_packet_def)
  have f: "fh_type (p @ rest) = tBYE" "getSSRC (p @ rest) = ssrc" by (simp_all add: p_def fh_type_def getSSRC_def be16_def)
  have br: "bye_reason (out @ rest) 8 (p @ rest) = Some reason"
    by (rule bye_reason_reads [OF assms(1) _ bc, where k = k and rest = rest]) (use kw(1) assms(2) gl lp la(1) in \<open>auto simp: out_def p_def nth_append be16_def be32_def\<close>)
  show ?thesis
    using kw(4) ck d bc gl f br la(1) unfolding p_def [symmetric] out_def [symmetric] append_assoc [symmetric] Let_def
    by (intro exI [of _ out]) (simp add: out_def p_def)
qed

theorem bye_round_trip_witness:
  "\<exists>out. build_bye (\<lambda>_. 0) 7 [98, 121, 101] = Some out \<and> checkCompoundRTCPHeader (out @ [1]) (length out) = Some True \<and>
    (let pkt = drop 8 (out @ [1]) in fh_type pkt = tBYE \<and> fh_block_count pkt = 1 \<and> getSSRC pkt = 7 \<and> 8 + getLength pkt = length out \<and>
       bye_reason (out @ [1]) 8 pkt = Some [98, 121, 101])"
  by (rule bye_round_trip) simp_all

section \<open>The description of one side at the other\<close>

text \<open>A receiver whose sources name participants that exist, each with a full array of items.\<close>

definition participants_ok :: "('na, 'ak, 'hm) CtlIn \<Rightarrow> bool" where
  "participants_ok st \<longleftrightarrow> (\<forall>a k. ciParticipant st a = Some k \<longrightarrow> k < length (ciParticipants st)) \<and>
     (\<forall>p\<in>set (ciParticipants st). length p = 10)"

lemma find_participant_less: "find_participant cname i ps = Some k \<Longrightarrow> k < i + length ps"
  by (induction cname i ps rule: find_participant.induct) (auto split: if_splits)

lemma cstring_id: "0 \<notin> set v \<Longrightarrow> cstring v = v"
  unfolding cstring_def by (metis (mono_tags, lifting) takeWhile_eq_all_conv)

lemma participant_for_ok:
  assumes "participants_ok st" "participant_for s cname st = (k, st')"
  shows "participants_ok st' \<and> ciParticipant st' s = Some k \<and> k < length (ciParticipants st')"
  using assms find_participant_less [of cname 0 "ciParticipants st"]
  by (auto simp: participant_for_def participants_ok_def new_participant_def setItem_def less_Suc_eq split: option.splits if_splits)

lemma setSDESItem_ok:
  assumes "participants_ok st" "k < length (ciParticipants st)" "t \<in> {1..9}" "0 \<notin> set v"
  shows "participants_ok (setSDESItem k t v st)" "getItem (ciParticipants (setSDESItem k t v st) ! k) t = v"
    "t' \<in> {1..9} \<Longrightarrow> t' \<noteq> t \<Longrightarrow> getItem (ciParticipants (setSDESItem k t v st) ! k) t' = getItem (ciParticipants st ! k) t'"
    "ciParticipant (setSDESItem k t v st) = ciParticipant st" "ciState (setSDESItem k t v st) = ciState st"
    "length (ciParticipants (setSDESItem k t v st)) = length (ciParticipants st)"
  using assms nth_mem [OF assms(2)]
  by (auto simp: setSDESItem_def participants_ok_def setItem_def getItem_def SDESItemTypeEND_def SDESItemTypeH323CADDR_def SDESItemTypeCNAME_def
      cstring_id dest!: set_update_subset_insert [THEN subsetD])

lemma sdes_item_ok:
  assumes "participants_ok st" "t \<in> {1..9}" "0 \<notin> set v" "sdes_item s t v part st = (part', st')"
    and "part = ciParticipant st s" "t = SDESItemTypeCNAME \<or> part \<noteq> None"
  shows "\<exists>k. part' = Some k \<and> participants_ok st' \<and> ciParticipant st' s = Some k \<and> getItem (ciParticipants st' ! k) t = v \<and>
    (t = SDESItemTypeCNAME \<longrightarrow> ciState st' s = Some stateActive) \<and> (t \<noteq> SDESItemTypeCNAME \<longrightarrow> ciState st' = ciState st) \<and>
    (t \<noteq> SDESItemTypeCNAME \<longrightarrow> part' = part \<and> getItem (ciParticipants st' ! k) SDESItemTypeCNAME = getItem (ciParticipants st ! k) SDESItemTypeCNAME)"
proof -
  obtain k st1 where 1: "(if part = None \<and> t = SDESItemTypeCNAME then apfst Some (participant_for s v st) else (part, st)) = (Some k, st1)"
    using assms(6) by (cases part; cases "participant_for s v st") auto
  have ok1: "participants_ok st1" "ciParticipant st1 s = Some k" "k < length (ciParticipants st1)"
  proof -
    consider "part = Some k" "st1 = st" | "participant_for s v st = (k, st1)"
      using 1 by (cases "participant_for s v st") (auto split: if_splits)
    then have "participants_ok st1 \<and> ciParticipant st1 s = Some k \<and> k < length (ciParticipants st1)"
    proof cases
      case 1 then show ?thesis using assms(1,5) by (auto simp: participants_ok_def)
    next
      case 2 then show ?thesis using participant_for_ok [OF assms(1)] by blast
    qed
    then show "participants_ok st1" "ciParticipant st1 s = Some k" "k < length (ciParticipants st1)" by auto
  qed
  note si = setSDESItem_ok [OF ok1(1,3) assms(2,3)]
  let ?st2 = "setSDESItem k t v st1"
  have r: "part' = Some k" "st' = (if t = SDESItemTypeCNAME then ?st2\<lparr>ciState := (ciState ?st2)(s \<mapsto> stateActive)\<rparr> else ?st2)"
    using assms(4) unfolding sdes_item_def 1 by (auto simp: Let_def)
  have o: "t \<noteq> SDESItemTypeCNAME \<Longrightarrow> part = Some k \<and> st1 = st" using 1 by auto
  show ?thesis
    using si(1,2,4,5) si(3) [of SDESItemTypeCNAME] o ok1(2) unfolding r
    by (auto simp: participants_ok_def SDESItemTypeCNAME_def)
qed

lemma sdes_loop_item:
  assumes "base + pointer = length pre" "pointer < len" "SDESItemTypeEND < t" "t \<le> SDESItemTypeH323CADDR" "length v < 256"
    and "sdes_item s t v part st = (part', st')"
  shows "sdes_items_loop s (pre @ [of_nat t, of_nat (length v)] @ v @ rest) base len pointer part cn st =
    sdes_items_loop s (pre @ [of_nat t, of_nat (length v)] @ v @ rest) base len (pointer + 2 + length v) part' (cn \<or> t = SDESItemTypeCNAME) st'"
proof -
  let ?b = "pre @ [of_nat t, of_nat (length v)] @ v @ rest"
  have u: "unat (of_nat t :: byte) = t" "unat (of_nat (length v) :: byte) = length v"
    using assms(4,5) by (simp_all add: unsigned_of_nat take_bit_nat_eq_self SDESItemTypeH323CADDR_def)
  have b: "?b ! (base + pointer) = of_nat t" "?b ! (base + pointer + 1) = of_nat (length v)" "drop (base + pointer + 2) ?b = v @ rest"
    "base + pointer + 2 + length v \<le> length ?b" "base + pointer + 1 \<le> length ?b" "base + pointer + 2 \<le> length ?b"
    unfolding assms(1) by (simp_all add: nth_append)
  show ?thesis
    by (subst sdes_items_loop.simps) (use b u assms(2,3,4,6) in \<open>simp add: Let_def not_less\<close>)
qed

lemma sdes_loop_end:
  assumes "base + pointer = length pre" "pointer < len"
  shows "sdes_items_loop s (pre @ [0] @ rest) base len pointer part cn st = Some (cn, st)"
  by (subst sdes_items_loop.simps) (use assms in \<open>simp add: nth_append SDESItemTypeEND_def Let_def\<close>)

lemma sdes_loop_rest:
  fixes st :: "('na, 'ak, 'hm) CtlIn"
  assumes ok: "participants_ok st" "ciParticipant st s = Some k" "getItem (ciParticipants st ! k) SDESItemTypeCNAME = cname" "ciState st s = Some stateActive"
    and i: "\<And>t. length (getItem items t) < 256" "\<And>t. 0 \<notin> set (getItem items t)"
    and t: "SDESItemTypeEND < t \<longrightarrow> SDESItemTypeCNAME < t" "t \<le> SDESItemTypeH323CADDR"
    and pos: "base + pointer = length pre" "pointer + length (sdes_extra items t) < len"
  shows "\<exists>st'. sdes_items_loop s (pre @ sdes_extra items t @ [0] @ rest) base len pointer (Some k) True st = Some (True, st') \<and>
    ciState st' s = Some stateActive \<and> ciParticipant st' s = Some k \<and> participants_ok st' \<and>
    getItem (ciParticipants st' ! k) SDESItemTypeCNAME = cname \<and> (SDESItemTypeEND < t \<longrightarrow> getItem (ciParticipants st' ! k) t = getItem items t)"
proof (cases "SDESItemTypeCNAME < t")
  case True
  let ?v = "getItem items t"
  have "strlen ?v = length ?v" using cstring_id [OF i(2) [of t]] by (simp add: strlen_def cstring_def [symmetric])
  then have ex: "sdes_extra items t = [of_nat t, of_nat (length ?v)] @ ?v" using True t(2) i(1) by (simp add: sdes_extra_def Let_def)
  obtain part2 st2 where s2: "sdes_item s t ?v (Some k) st = (part2, st2)" by fastforce
  have r: "t \<in> {1..9}" "SDESItemTypeEND < t" "t \<noteq> SDESItemTypeCNAME"
    using True t(2) by (auto simp: SDESItemTypeCNAME_def SDESItemTypeEND_def SDESItemTypeH323CADDR_def)
  have k2: "part2 = Some k" "participants_ok st2" "ciParticipant st2 s = Some k" "getItem (ciParticipants st2 ! k) t = ?v" "ciState st2 = ciState st"
    "getItem (ciParticipants st2 ! k) SDESItemTypeCNAME = cname"
    using sdes_item_ok [OF ok(1) r(1) i(2) s2] ok(2,3) r(3) by auto
  have "sdes_items_loop s (pre @ [of_nat t, of_nat (length ?v)] @ ?v @ [0] @ rest) base len pointer (Some k) True st =
      sdes_items_loop s (pre @ [of_nat t, of_nat (length ?v)] @ ?v @ [0] @ rest) base len (pointer + 2 + length ?v) (Some k) True st2"
    using sdes_loop_item [OF pos(1) _ r(2) t(2) i(1) s2, of len "[0] @ rest" True] pos(2) k2(1) r(3) by simp
  also have "\<dots> = Some (True, st2)"
    using sdes_loop_end [of base "pointer + 2 + length ?v" "pre @ [of_nat t, of_nat (length ?v)] @ ?v" len s rest] pos by (simp add: ex)
  finally show ?thesis using k2 ok(4) r(2) by (auto simp: ex)
next
  case False
  then show ?thesis using sdes_loop_end [OF pos(1), of len s rest "Some k" True st] pos(2) ok t(1) by (auto simp: sdes_extra_def)
qed

text \<open>
  C18: a source description arrives. Whatever is scheduled, if the CNAME and the items are C strings of at most 255 bytes, the packet that the sender
  packs after any part of the compound packet makes every receiver take the source for active and give it a participant with the CNAME of the sender,
  and with the value of the scheduled item when there is one.
\<close>

theorem sdes_round_trip:
  fixes st :: "('na, 'ak, 'hm) CtlIn"
  assumes "4 dvd length out" "length out + 526 \<le> cap" "cap \<le> 65536" "participants_ok st"
    and nx: "next \<in> {2..8}" and items: "\<forall>t\<in>{1..9}. length (getItem items t) < 256 \<and> 0 \<notin> set (getItem items t)"
  shows "\<exists>p next' st' k. packSDES old cap ssrc items next out = Some (out @ p, next') \<and>
    onGotSDESChunk s (pre @ p @ rest) (length pre + 4) (getLength p) st = Some (True, st') \<and>
    ciState st' s = Some stateActive \<and> ciParticipant st' s = Some k \<and> k < length (ciParticipants st') \<and>
    getItem (ciParticipants st' ! k) SDESItemTypeCNAME = getItem items SDESItemTypeCNAME \<and>
    (let t = fst (scheduleSDESItem items next) in SDESItemTypeEND < t \<longrightarrow> getItem (ciParticipants st' ! k) t = getItem items t)"
proof -
  let ?cn = "getItem items SDESItemTypeCNAME"
  define t where "t = fst (scheduleSDESItem items next)"
  have i: "length (getItem items t) < 256" "0 \<notin> set (getItem items t)" for t
    using items by (auto simp: getItem_def SDESItemTypeEND_def SDESItemTypeH323CADDR_def SDESItemTypeCNAME_def Ball_def split: if_splits)
  have tw: "strlen (getItem items t) = length (getItem items t)" for t using cstring_id [OF i(2) [of t]] by (simp add: strlen_def cstring_def [symmetric])
  obtain p w z where p: "packSDES old cap ssrc items next out = Some (out @ p, snd (scheduleSDESItem items next))" "good_packet p" "length w = 2"
    "p = [0x81, tSDES] @ w @ be32 ssrc @ [of_nat SDESItemTypeCNAME, of_nat (length ?cn)] @ ?cn @ sdes_extra items t @ [0] @ z"
  proof -
    have a: "length out + 16 + length ?cn + 255 \<le> cap" using assms(2) i(1) [of SDESItemTypeCNAME] by linarith
    have b: "\<forall>t\<in>{2..9}. strlen (getItem items t) \<le> 255" using i(1) by (simp add: tw less_Suc_eq_le [symmetric])
    from packSDES_bytes [OF assms(1) a assms(3) b, of old ssrc "next"] show ?thesis using that unfolding t_def by blast
  qed
  have gl: "getLength p = length p" using p(2) by (simp add: good_packet_def rtcp_packet_def)
  let ?pre = "pre @ [0x81, tSDES] @ w @ be32 ssrc"
  let ?pre2 = "?pre @ [of_nat SDESItemTypeCNAME, of_nat (length ?cn)] @ ?cn"
  let ?base = "length pre + 4"
  obtain part1 st1 where s1: "sdes_item s SDESItemTypeCNAME ?cn (ciParticipant st s) st = (part1, st1)" by fastforce
  obtain k where k: "part1 = Some k" "participants_ok st1" "ciParticipant st1 s = Some k" "getItem (ciParticipants st1 ! k) SDESItemTypeCNAME = ?cn"
    "ciState st1 s = Some stateActive" using sdes_item_ok [OF assms(4) _ i(2) s1] by (auto simp: SDESItemTypeCNAME_def)
  let ?b = "?pre @ [of_nat SDESItemTypeCNAME, of_nat (length ?cn)] @ ?cn @ (sdes_extra items t @ [0] @ z @ rest)"
  have b: "pre @ p @ rest = ?b" by (simp add: p(4))
  have 1: "onGotSDESChunk s ?b ?base (length p) st = sdes_items_loop s ?b ?base (length p) (4 + 2 + length ?cn) (Some k) True st1"
    unfolding onGotSDESChunk_def
    by (subst sdes_loop_item [OF _ _ _ _ i(1) s1]) (use p(3,4) k(1) in \<open>auto simp: SDESItemTypeCNAME_def SDESItemTypeEND_def SDESItemTypeH323CADDR_def\<close>)
  have t: "SDESItemTypeEND < t \<longrightarrow> SDESItemTypeCNAME < t" "t \<le> SDESItemTypeH323CADDR"
    using schedule_loop_range [OF nx, of items 0]
    by (auto simp: t_def scheduleSDESItem_def Let_def SDESItemTypeCNAME_def SDESItemTypeEND_def SDESItemTypeH323CADDR_def split: if_splits)
  have "\<exists>st'. sdes_items_loop s (?pre2 @ sdes_extra items t @ [0] @ z @ rest) ?base (length p) (4 + 2 + length ?cn) (Some k) True st1 = Some (True, st') \<and>
    ciState st' s = Some stateActive \<and> ciParticipant st' s = Some k \<and> participants_ok st' \<and>
    getItem (ciParticipants st' ! k) SDESItemTypeCNAME = ?cn \<and> (SDESItemTypeEND < t \<longrightarrow> getItem (ciParticipants st' ! k) t = getItem items t)"
    by (rule sdes_loop_rest [OF k(2,3,4,5) i t]) (use p(3,4) in auto)
  then show ?thesis using 1 b p(1) gl unfolding t_def Let_def append_assoc by (force simp: participants_ok_def)
qed

theorem sdes_round_trip_witness:
  "let items = replicate 10 [97]; st = sample_ci (newMembershipBookkeeping 11) in
   \<exists>p next' st' k. packSDES (\<lambda>_. 0) 1000 7 items 4 [] = Some ([] @ p, next') \<and>
    onGotSDESChunk 3 ([1, 2] @ p @ []) (length [1, 2 :: byte] + 4) (getLength p) st = Some (True, st') \<and>
    ciState st' 3 = Some stateActive \<and> ciParticipant st' 3 = Some k \<and> k < length (ciParticipants st') \<and>
    getItem (ciParticipants st' ! k) SDESItemTypeCNAME = getItem items SDESItemTypeCNAME \<and>
    (let t = fst (scheduleSDESItem items 4) in SDESItemTypeEND < t \<longrightarrow> getItem (ciParticipants st' ! k) t = getItem items t)"
  unfolding Let_def [of "replicate 10 [97]"] Let_def [of "sample_ci _"]
  by (rule sdes_round_trip) (auto simp: participants_ok_def sample_ci_def getItem_def sdes_defs SDESItemTypeCNAME_def SDESItemTypeEND_def SDESItemTypeH323CADDR_def)

end
