(* ===== verification/Outgoing_Queue.thy ===== *)
theory Outgoing_Queue
  imports Dll Crypto_Store Rtcp_Send
begin

text \<open>
  The outgoing data queue, \<^verbatim>\<open>OutgoingDataQueue\<close> and \<^verbatim>\<open>DestinationListHandler\<close> of \<^verbatim>\<open>src/src/outqueue.cpp\<close> and \<^verbatim>\<open>src/src/ccrtp/oqueue.h\<close>: the list of
  destinations, segmentation and protection of data, the doubly linked list of unsent packets in a heap, scheduling with expiry, and sending.

  The virtual functions of the network (\<^verbatim>\<open>setDataPeer\<close>, \<^verbatim>\<open>setControlPeer\<close>, \<^verbatim>\<open>sendData\<close>) and \<^verbatim>\<open>onExpireSend\<close> leave a record in the state; locks are left out, and so are
  the second list of destinations for IPv6, which repeats the first one. Results are \<^term>\<open>None\<close> for a bad access, a division by zero, and a loop that never ends.
  An unsigned long has 64 bits.
\<close>

section \<open>State\<close>

record OutLink =
  opacket :: RTPPacket
  oprev :: "addr option"
  onext :: "addr option"

record OutList =
  outHeap :: "addr \<rightharpoonup> OutLink"
  nextOut :: addr
  sendFirst :: "addr option"
  sendLast :: "addr option"

record 'na TransportAddress =
  destAddress :: 'na
  destDataPort :: u16
  destControlPort :: u16

record ('na, 'ak, 'hm) OutQueue =
  oqList :: OutList
  oqContexts :: "('ak, 'hm) CryptoContext list"
  oqEnv :: tf_env
  oqLocalSSRC :: u32
  oqInitialTimestamp :: u32
  oqSchedulingTimeout :: u32
  oqExpireTimeout :: u32
  oqMaxSegment :: nat
  oqPayloadType :: byte
  oqClockRate :: u32
  oqPacketCount :: u32
  oqOctetCount :: u32
  oqSeq :: u16
  oqSources :: "u32 list"
  oqCC :: u16
  oqPadding :: byte
  oqMarked :: bool
  oqOverflow :: timeval
  oqDestinations :: "'na TransportAddress list"
  oqDataPeer :: "('na \<times> u16) option"
  oqControlPeer :: "('na \<times> u16) option"
  oqSent :: "(('na \<times> u16) \<times> byte list) list"
  oqExpired :: "RTPPacket list"

definition defaultMaxSendSegmentSize :: nat where "defaultMaxSendSegmentSize = 65536"
definition defaultSchedulingTimeout :: u32 where "defaultSchedulingTimeout = 8000"
definition defaultExpireTimeout :: u32 where "defaultExpireTimeout = 40000"

text \<open>The random numbers, the local source, the time of construction, the payload format and fresh memory are arguments.\<close>

definition newOutgoingDataQueue ::
  "u32 \<Rightarrow> u16 \<Rightarrow> u32 \<Rightarrow> timeval \<Rightarrow> byte \<Rightarrow> u32 \<Rightarrow> (nat \<Rightarrow> u32) \<Rightarrow> tf_env \<Rightarrow> ('na, 'ak, 'hm) OutQueue" where
  "newOutgoingDataQueue r32 r16 ssrc start pt rate mem env =
     \<lparr>oqList = \<lparr>outHeap = Map.empty, nextOut = 0, sendFirst = None, sendLast = None\<rparr>, oqContexts = [], oqEnv = env,
      oqLocalSSRC = ssrc, oqInitialTimestamp = r32, oqSchedulingTimeout = defaultSchedulingTimeout, oqExpireTimeout = defaultExpireTimeout,
      oqMaxSegment = defaultMaxSendSegmentSize, oqPayloadType = pt, oqClockRate = rate, oqPacketCount = 0, oqOctetCount = 0, oqSeq = r16,
      oqSources = (map mem [0..<16])[0 := ssrc], oqCC = 0, oqPadding = 0, oqMarked = False, oqOverflow = start,
      oqDestinations = [], oqDataPeer = None, oqControlPeer = None, oqSent = [], oqExpired = []\<rparr>"

section \<open>Destinations\<close>

definition isSingleDestination :: "('na, 'ak, 'hm) OutQueue \<Rightarrow> bool" where
  "isSingleDestination st \<longleftrightarrow> length (oqDestinations st) = 1"

definition addDestinationToList :: "'na \<Rightarrow> u16 \<Rightarrow> u16 \<Rightarrow> 'na TransportAddress list \<Rightarrow> bool \<times> 'na TransportAddress list" where
  "addDestinationToList ia data control dests =
     (True, dests @ [\<lparr>destAddress = ia, destDataPort = data, destControlPort = control\<rparr>])"

fun removeDestinationFromList :: "'na \<Rightarrow> u16 \<Rightarrow> u16 \<Rightarrow> 'na TransportAddress list \<Rightarrow> bool \<times> 'na TransportAddress list" where
  "removeDestinationFromList ia data control [] = (False, [])"
| "removeDestinationFromList ia data control (d # ds) =
     (if ia = destAddress d \<and> data = destDataPort d \<and> control = destControlPort d then (True, ds)
      else let (r, ds) = removeDestinationFromList ia data control ds in (r, d # ds))"

definition control_port :: "u16 \<Rightarrow> u16 \<Rightarrow> u16" where
  "control_port dataPort controlPort = (if controlPort = 0 then dataPort + 1 else controlPort)"

definition addDestination :: "'na \<Rightarrow> u16 \<Rightarrow> u16 \<Rightarrow> ('na, 'ak, 'hm) OutQueue \<Rightarrow> bool \<times> ('na, 'ak, 'hm) OutQueue" where
  "addDestination ia dataPort controlPort st =
     (let controlPort = control_port dataPort controlPort;
          (result, dests) = addDestinationToList ia dataPort controlPort (oqDestinations st);
          st = st\<lparr>oqDestinations := dests\<rparr>
      in (result, if result \<and> isSingleDestination st
                  then st\<lparr>oqDataPeer := Some (ia, dataPort), oqControlPeer := Some (ia, controlPort)\<rparr> else st))"

definition forgetDestination :: "'na \<Rightarrow> u16 \<Rightarrow> u16 \<Rightarrow> ('na, 'ak, 'hm) OutQueue \<Rightarrow> bool \<times> ('na, 'ak, 'hm) OutQueue" where
  "forgetDestination ia dataPort controlPort st =
     (let (result, dests) = removeDestinationFromList ia dataPort (control_port dataPort controlPort) (oqDestinations st)
      in (result, st\<lparr>oqDestinations := dests\<rparr>))"

section \<open>The list of unsent packets\<close>

definition upd_out :: "addr option \<Rightarrow> (OutLink \<Rightarrow> OutLink) \<Rightarrow> OutList \<Rightarrow> OutList option" where
  "upd_out p f q = do { a \<leftarrow> p; l \<leftarrow> outHeap q a; Some (q\<lparr>outHeap := (outHeap q)(a \<mapsto> f l)\<rparr>) }"

definition link_packet :: "RTPPacket \<Rightarrow> OutList \<Rightarrow> OutList option" where
  "link_packet pkt q =
     do { let a = nextOut q;
          let q = q\<lparr>outHeap := (outHeap q)(a \<mapsto> \<lparr>opacket = pkt, oprev = sendLast q, onext = None\<rparr>), nextOut := a + 1\<rparr>;
          q \<leftarrow> (if sendLast q \<noteq> None then upd_out (sendLast q) (\<lambda>l. l\<lparr>onext := Some a\<rparr>) q else Some (q\<lparr>sendFirst := Some a\<rparr>));
          Some (q\<lparr>sendLast := Some a\<rparr>) }"

definition unlink_packet :: "OutList \<Rightarrow> (RTPPacket \<times> OutList) option" where
  "unlink_packet q =
     do { a \<leftarrow> sendFirst q;
          l \<leftarrow> outHeap q a;
          let q = q\<lparr>sendFirst := onext l, outHeap := (outHeap q)(a := None)\<rparr>;
          q \<leftarrow> (if sendFirst q \<noteq> None then upd_out (sendFirst q) (\<lambda>l. l\<lparr>oprev := None\<rparr>) q else Some (q\<lparr>sendLast := None\<rparr>));
          Some (opacket l, q) }"

definition isSending :: "OutList \<Rightarrow> bool" where
  "isSending q \<longleftrightarrow> sendFirst q \<noteq> None"

partial_function (option) purge_out :: "OutList \<Rightarrow> OutList option" where
  "purge_out q =
     (case sendFirst q of
        None \<Rightarrow> Some (q\<lparr>sendLast := None\<rparr>)
      | Some a \<Rightarrow> (case outHeap q a of None \<Rightarrow> None | Some l \<Rightarrow> purge_out (q\<lparr>sendFirst := onext l, outHeap := (outHeap q)(a := None)\<rparr>)))"

definition purgeOutgoingQueue :: "('na, 'ak, 'hm) OutQueue \<Rightarrow> ('na, 'ak, 'hm) OutQueue option" where
  "purgeOutgoingQueue st = map_option (\<lambda>q. st\<lparr>oqList := q\<rparr>) (purge_out (oqList st))"

section \<open>Making packets\<close>

definition select_out ::
  "('ak, 'hm) ctl_env \<Rightarrow> ('na, 'ak, 'hm) OutQueue \<Rightarrow> (('ak, 'hm) CryptoContext option \<times> ('na, 'ak, 'hm) OutQueue) option" where
  "select_out E st =
     (case getOutQueueCryptoContext (oqLocalSSRC st) (oqContexts st) of
        Some pcc \<Rightarrow> Some (Some pcc, st)
      | None \<Rightarrow>
          (case getOutQueueCryptoContext 0 (oqContexts st) of
             None \<Rightarrow> Some (None, st)
           | Some pcc \<Rightarrow>
               do { let pcc = newCryptoContextForSSRC (ceMem E) pcc (oqLocalSSRC st) 0 0;
                    (env, pcc) \<leftarrow> deriveSrtpKeys (ceAes E) (ceHmac E) (oqEnv st) pcc 0;
                    Some (Some pcc, st\<lparr>oqEnv := env, oqContexts := setOutQueueCryptoContext pcc (oqContexts st)\<rparr>) }))"

text \<open>
  The packet for one segment, numbered, stamped, marked when it is the first one and a mark is pending, and protected when there is a
  context. A count of contributing sources other than zero would always send fifteen of them; nothing in the library changes the count.
\<close>

definition srtp_room :: "('ak, 'hm) CryptoContext option \<Rightarrow> int option" where
  "srtp_room pcco = map_option (\<lambda>pcc. int (tagLength pcc) + uint (getMkiLength pcc)) pcco"

definition next_packet ::
  "('ak, 'hm) ctl_env \<Rightarrow> u32 \<Rightarrow> bool \<Rightarrow> byte list \<Rightarrow> ('ak, 'hm) CryptoContext option \<Rightarrow> ('na, 'ak, 'hm) OutQueue
   \<Rightarrow> (RTPPacket \<times> ('na, 'ak, 'hm) OutQueue) option" where
  "next_packet E stamp first seg pcco st =
     do { let packet = (if oqCC st \<noteq> 0 then newOutgoingRTPPkt_csrc (ceMem E) (take 15 (oqSources st)) seg (oqPadding st) (srtp_room pcco)
                        else newOutgoingRTPPkt (ceMem E) seg (oqPadding st) (srtp_room pcco));
          let mark = (first \<and> oqMarked st);
          let packet = send_pkt mark (oqPayloadType st) (oqSeq st) (stamp + oqInitialTimestamp st) (oqLocalSSRC st) packet;
          let st = st\<lparr>oqSeq := oqSeq st + 1, oqMarked := (if mark then False else oqMarked st)\<rparr>;
          case pcco of
            None \<Rightarrow> Some (packet, st)
          | Some pcc \<Rightarrow>
              do { (packet, pcc) \<leftarrow> protect (ceAes E) (ceHmac E) packet (oqLocalSSRC st) pcc;
                   Some (packet, st\<lparr>oqContexts := write_ctx pcc (oqContexts st)\<rparr>) } }"

definition put_segment ::
  "('ak, 'hm) ctl_env \<Rightarrow> u32 \<Rightarrow> bool \<Rightarrow> byte list \<Rightarrow> ('na, 'ak, 'hm) OutQueue \<Rightarrow> ('na, 'ak, 'hm) OutQueue option" where
  "put_segment E stamp first seg st =
     do { (pcco, st) \<leftarrow> select_out E st;
          (packet, st) \<leftarrow> next_packet E stamp first seg pcco st;
          q \<leftarrow> link_packet packet (oqList st);
          Some (st\<lparr>oqList := q\<rparr>) }"

text \<open>A segment size of zero would make packets for ever.\<close>

definition segment_step :: "nat \<Rightarrow> nat \<Rightarrow> nat" where
  "segment_step maxseg remainder = (if remainder > maxseg then maxseg else remainder)"

function put_loop ::
  "('ak, 'hm) ctl_env \<Rightarrow> u32 \<Rightarrow> byte list \<Rightarrow> nat \<Rightarrow> ('na, 'ak, 'hm) OutQueue \<Rightarrow> ('na, 'ak, 'hm) OutQueue option" where
  "put_loop E stamp data offset st =
     (if \<not> offset < length data then Some st
      else if oqMaxSegment st = 0 then None
      else let step = segment_step (oqMaxSegment st) (length data - offset) in
        (case put_segment E stamp (offset = 0) (take step (drop offset data)) st of
           None \<Rightarrow> None
         | Some st \<Rightarrow> put_loop E stamp data (offset + step) st))"
  by pat_completeness auto
termination by (relation "measure (\<lambda>(_, _, data, offset, _). length data - offset)") (auto simp: segment_step_def)

declare put_loop.simps [simp del]

definition putData ::
  "('ak, 'hm) ctl_env \<Rightarrow> u32 \<Rightarrow> byte list option \<Rightarrow> ('na, 'ak, 'hm) OutQueue \<Rightarrow> ('na, 'ak, 'hm) OutQueue option" where
  "putData E stamp data st = (case data of None \<Rightarrow> Some st | Some d \<Rightarrow> if d = [] then Some st else put_loop E stamp d 0 st)"

section \<open>Sending\<close>

definition dispatchImmediate :: "RTPPacket \<Rightarrow> ('na, 'ak, 'hm) OutQueue \<Rightarrow> ('na, 'ak, 'hm) OutQueue" where
  "dispatchImmediate packet st =
     (let bytes = getRawPacketSrtp packet; peer = (\<lambda>d. (destAddress d, destDataPort d)) in
      if isSingleDestination st then
        let tmp = hd (oqDestinations st)
        in st\<lparr>oqDataPeer := Some (peer tmp), oqSent := oqSent st @ [(peer tmp, bytes)]\<rparr>
      else st\<lparr>oqDataPeer := (if oqDestinations st = [] then oqDataPeer st else Some (peer (last (oqDestinations st)))),
              oqSent := oqSent st @ map (\<lambda>d. (peer d, bytes)) (oqDestinations st)\<rparr>)"

definition send_segment ::
  "('ak, 'hm) ctl_env \<Rightarrow> u32 \<Rightarrow> bool \<Rightarrow> byte list \<Rightarrow> ('na, 'ak, 'hm) OutQueue \<Rightarrow> ('na, 'ak, 'hm) OutQueue option" where
  "send_segment E stamp first seg st =
     do { (packet, st) \<leftarrow> next_packet E stamp first seg (getOutQueueCryptoContext (oqLocalSSRC st) (oqContexts st)) st;
          Some (dispatchImmediate packet st) }"

function send_loop ::
  "('ak, 'hm) ctl_env \<Rightarrow> u32 \<Rightarrow> byte list \<Rightarrow> nat \<Rightarrow> ('na, 'ak, 'hm) OutQueue \<Rightarrow> ('na, 'ak, 'hm) OutQueue option" where
  "send_loop E stamp data offset st =
     (if \<not> offset < length data then Some st
      else if oqMaxSegment st = 0 then None
      else let step = segment_step (oqMaxSegment st) (length data - offset) in
        (case send_segment E stamp (offset = 0) (take step (drop offset data)) st of
           None \<Rightarrow> None
         | Some st \<Rightarrow> send_loop E stamp data (offset + step) st))"
  by pat_completeness auto
termination by (relation "measure (\<lambda>(_, _, data, offset, _). length data - offset)") (auto simp: segment_step_def)

declare send_loop.simps [simp del]

definition sendImmediate ::
  "('ak, 'hm) ctl_env \<Rightarrow> u32 \<Rightarrow> byte list option \<Rightarrow> ('na, 'ak, 'hm) OutQueue \<Rightarrow> ('na, 'ak, 'hm) OutQueue option" where
  "sendImmediate E stamp data st = (case data of None \<Rightarrow> Some st | Some d \<Rightarrow> if d = [] then Some st else send_loop E stamp d 0 st)"

definition dispatchDataPacket :: "('na, 'ak, 'hm) OutQueue \<Rightarrow> (u32 \<times> ('na, 'ak, 'hm) OutQueue) option" where
  "dispatchDataPacket st =
     (case sendFirst (oqList st) of
        None \<Rightarrow> Some (0, st)
      | Some a \<Rightarrow>
          do { l \<leftarrow> outHeap (oqList st) a;
               let packet = opacket l;
               let rtn = payloadSize packet;
               let st = dispatchImmediate packet st;
               (_, q) \<leftarrow> unlink_packet (oqList st);
               Some (rtn, st\<lparr>oqList := q, oqPacketCount := oqPacketCount st + 1, oqOctetCount := oqOctetCount st + payloadSize packet\<rparr>) })"

section \<open>Scheduling\<close>

text \<open>When a packet is due; a clock rate below 1000 makes the code divide by zero.\<close>

definition send_time :: "('na, 'ak, 'hm) OutQueue \<Rightarrow> RTPPacket \<Rightarrow> timeval option" where
  "send_time st packet =
     (let stamp = getTimestamp packet - oqInitialTimestamp st; rate = oqClockRate st in
      if rate < 1000 then None
      else Some (timeradd \<lparr>tv_sec = uint (stamp div rate), tv_usec = 1000 * uint (stamp mod rate) div (uint rate div 1000)\<rparr> (oqOverflow st)))"

definition overflow_interval :: "u32 \<Rightarrow> timeval" where
  "overflow_interval rate = \<lparr>tv_sec = 0xFFFFFFFF div uint rate, tv_usec = 0xFFFFFFFF mod uint rate * 1000000 div uint rate\<rparr>"

lemma timeradd_sec: "tv_sec a + tv_sec b \<le> tv_sec (timeradd a b)"
  by (simp add: timeradd_def Let_def)

text \<open>The loop that makes up for wrap-arounds of the timestamp; it is entered with a rate that is not zero.\<close>

function catch_up :: "timeval \<Rightarrow> u32 \<Rightarrow> timeval \<Rightarrow> timeval \<Rightarrow> timeval \<times> timeval" where
  "catch_up now rate send acc =
     (let send' = timeradd send (overflow_interval rate); acc' = timeradd acc (overflow_interval rate) in
      if rate \<noteq> 0 \<and> tv_sec now - tv_sec send' > 5000 then catch_up now rate send' acc' else (send', acc'))"
  by pat_completeness auto
termination
proof (relation "measure (\<lambda>(now, rate, send, acc). nat (tv_sec now - tv_sec send))")
  fix now rate send acc send' acc'
  assume s: "send' = timeradd send (overflow_interval rate)" "rate \<noteq> 0 \<and> tv_sec now - tv_sec send' > 5000"
  have r: "0 < uint rate" using s(2) by (metis less_le uint_0_iff unsigned_greater_eq)
  have "uint rate \<le> 0xFFFFFFFF" using unsigned_less [of rate, where 'a = int] by simp
  then have "1 \<le> 0xFFFFFFFF div uint rate" using r by (metis div_self less_le zdiv_mono1)
  then have "tv_sec send + 1 \<le> tv_sec send'" using timeradd_sec [of send "overflow_interval rate"] s(1) by (simp add: overflow_interval_def)
  then show "((now, rate, send', acc'), now, rate, send, acc) \<in> measure (\<lambda>(now, rate, send, acc). nat (tv_sec now - tv_sec send))"
    using s(2) by simp
qed simp

declare catch_up.simps [simp del]

text \<open>
  What to do about the first packet at the time \<open>now\<close>: how long to wait, or \<^term>\<open>None\<close> inside when it has expired; and the accumulated
  overflow time. The difference is computed as an unsigned long and cut to 32 bits; its negation is undefined for the smallest number.
\<close>

definition time_left :: "timeval \<Rightarrow> timeval \<Rightarrow> u32" where
  "time_left now send = of_int ((tv_sec send - tv_sec now) * 1000000 + tv_usec send - tv_usec now)"

definition due :: "u32 \<Rightarrow> timeval \<Rightarrow> timeval \<Rightarrow> u32 option option" where
  "due expire now send =
     (if tv_sec send - tv_sec now > 3600 then Some (Some 3600000000)
      else let diff = sint (time_left now send) in
        if diff \<ge> 0 then Some (Some (of_int diff))
        else if diff = - (2 ^ 31) then None
        else if (of_int (- diff) :: u32) \<le> expire then Some (Some 0)
        else Some None)"

definition schedule_first :: "timeval \<Rightarrow> ('na, 'ak, 'hm) OutQueue \<Rightarrow> RTPPacket \<Rightarrow> (u32 option \<times> ('na, 'ak, 'hm) OutQueue) option" where
  "schedule_first now st packet =
     do { send \<leftarrow> send_time st packet;
          let rate = oqClockRate st;
          let (send, acc) = (if tv_sec now - tv_sec send > 5000 then catch_up now rate send (oqOverflow st) else (send, oqOverflow st));
          let st = st\<lparr>oqOverflow := acc\<rparr>;
          let send = (if tv_sec send - tv_sec now > 20000 then timersub send (overflow_interval rate) else send);
          r \<leftarrow> due (oqExpireTimeout st) now send;
          Some (r, st) }"

text \<open>The clock is read once in every turn.\<close>

partial_function (option) getSchedulingTimeout ::
  "(nat \<Rightarrow> timeval) \<Rightarrow> nat \<Rightarrow> ('na, 'ak, 'hm) OutQueue \<Rightarrow> (u32 \<times> ('na, 'ak, 'hm) OutQueue) option" where
  "getSchedulingTimeout clock i st =
     (case sendFirst (oqList st) of
        None \<Rightarrow> Some (oqSchedulingTimeout st, st)
      | Some a \<Rightarrow>
          (case outHeap (oqList st) a of
             None \<Rightarrow> None
           | Some l \<Rightarrow>
               (case schedule_first (clock i) st (opacket l) of
                  None \<Rightarrow> None
                | Some (Some t, st) \<Rightarrow> Some (t, st)
                | Some (None, st) \<Rightarrow>
                    (case unlink_packet (oqList st) of
                       None \<Rightarrow> None
                     | Some (packet, q) \<Rightarrow> getSchedulingTimeout clock (i + 1) (st\<lparr>oqList := q, oqExpired := oqExpired st @ [packet]\<rparr>)))))"

section \<open>Changing an unsent packet\<close>

partial_function (option) find_partial :: "(addr \<rightharpoonup> OutLink) \<Rightarrow> u32 \<Rightarrow> addr option \<Rightarrow> addr option option" where
  "find_partial hp stamp p =
     (case p of
        None \<Rightarrow> Some None
      | Some a \<Rightarrow>
          (case hp a of
             None \<Rightarrow> None
           | Some l \<Rightarrow>
               if getTimestamp (opacket l) > stamp then Some None
               else if getTimestamp (opacket l) \<ge> stamp then Some (Some a)
               else find_partial hp stamp (onext l)))"

definition setPartial :: "u32 \<Rightarrow> byte list \<Rightarrow> nat \<Rightarrow> nat \<Rightarrow> OutList \<Rightarrow> (nat \<times> OutList) option" where
  "setPartial stamp data offset count q =
     do { p \<leftarrow> find_partial (outHeap q) stamp (sendFirst q);
          case p of
            None \<Rightarrow> Some (0, q)
          | Some a \<Rightarrow>
              do { l \<leftarrow> outHeap q a;
                   let n = unat (payloadSize (opacket l));
                   if offset \<ge> n then Some (0, q)
                   else do {
                     let m = min count (n - offset);
                     if length data < m then None
                     else do {
                       q \<leftarrow> upd_out (Some a) (\<lambda>l. l\<lparr>opacket := (opacket l)\<lparr>pbuffer :=
                              memcpy_at (pbuffer (opacket l)) (unat (hdrSize (opacket l)) + offset) (take m data)\<rparr>\<rparr>) q;
                       Some (m, q) } } } }"

section \<open>A first-in first-out queue\<close>

text \<open>What the sending side relies on: packets leave in the order in which they were put in, and nothing is lost.\<close>

locale packet_fifo =
  fixes holds :: "'q \<Rightarrow> 'p list \<Rightarrow> bool" and put :: "'p \<Rightarrow> 'q \<Rightarrow> 'q option" and get :: "'q \<Rightarrow> ('p \<times> 'q) option"
  assumes put_holds: "holds q ps \<Longrightarrow> \<exists>q'. put p q = Some q' \<and> holds q' (ps @ [p])"
    and get_holds: "holds q (p # ps) \<Longrightarrow> \<exists>q'. get q = Some (p, q') \<and> holds q' ps"
    and get_empty: "holds q [] \<Longrightarrow> get q = None"
begin

lemma holds_unique: "holds q ps \<Longrightarrow> holds q ps' \<Longrightarrow> ps = ps'"
proof (induction ps arbitrary: q ps')
  case Nil
  then show ?case using get_empty get_holds by (cases ps') fastforce+
next
  case (Cons p ps)
  obtain q' where q': "get q = Some (p, q')" "holds q' ps" using get_holds [OF Cons.prems(1)] by blast
  then obtain p2 ps2 where ps': "ps' = p2 # ps2" using get_empty Cons.prems(2) by (cases ps') auto
  then have "p2 = p" "holds q' ps2" using get_holds [of q p2 ps2] Cons.prems(2) q'(1) by auto
  then show ?case using Cons.IH [OF q'(2)] ps' by simp
qed

fun put_all :: "'p list \<Rightarrow> 'q \<Rightarrow> 'q option" where
  "put_all [] q = Some q"
| "put_all (p # ps) q = do { q \<leftarrow> put p q; put_all ps q }"

fun get_many :: "nat \<Rightarrow> 'q \<Rightarrow> ('p list \<times> 'q) option" where
  "get_many 0 q = Some ([], q)"
| "get_many (Suc n) q = do { (p, q) \<leftarrow> get q; (ps, q) \<leftarrow> get_many n q; Some (p # ps, q) }"

lemma put_all_holds: "holds q qs \<Longrightarrow> \<exists>q'. put_all ps q = Some q' \<and> holds q' (qs @ ps)"
proof (induction ps arbitrary: q qs)
  case (Cons p ps)
  obtain q1 where "put p q = Some q1" "holds q1 (qs @ [p])" using put_holds [OF Cons.prems] by blast
  with Cons.IH [OF this(2)] show ?case by simp
qed simp

lemma get_many_holds: "holds q (ps @ qs) \<Longrightarrow> \<exists>q'. get_many (length ps) q = Some (ps, q') \<and> holds q' qs"
proof (induction ps arbitrary: q)
  case (Cons p ps)
  then obtain q1 where "get q = Some (p, q1)" "holds q1 (ps @ qs)" using get_holds [of q p "ps @ qs"] by auto
  with Cons.IH [OF this(2)] show ?case by auto
qed simp

lemma fifo: "holds q [] \<Longrightarrow> \<exists>q1 q2. put_all ps q = Some q1 \<and> get_many (length ps) q1 = Some (ps, q2) \<and> holds q2 []"
  using put_all_holds [of q "[]" ps] get_many_holds [of _ ps "[]"] by fastforce

end

definition out_nxt :: "OutList \<Rightarrow> addr \<Rightarrow> addr option" where
  "out_nxt q a = (case outHeap q a of None \<Rightarrow> None | Some l \<Rightarrow> onext l)"

definition out_prv :: "OutList \<Rightarrow> addr \<Rightarrow> addr option" where
  "out_prv q a = (case outHeap q a of None \<Rightarrow> None | Some l \<Rightarrow> oprev l)"

text \<open>The links in both directions, the two ends, and no link outside the queue.\<close>

definition out_ok :: "OutList \<Rightarrow> addr list \<Rightarrow> bool" where
  "out_ok q as \<longleftrightarrow> distinct as \<and> dom (outHeap q) = set as \<and> (\<forall>a\<in>set as. a < nextOut q) \<and>
     dll (out_nxt q) (out_prv q) None as None \<and> sendFirst q = hd_or as None \<and> sendLast q = last_or as None"

definition out_holds :: "OutList \<Rightarrow> RTPPacket list \<Rightarrow> bool" where
  "out_holds q ps \<longleftrightarrow> (\<exists>as. out_ok q as \<and> map (\<lambda>a. map_option opacket (outHeap q a)) as = map Some ps)"

lemma link_packet_ok:
  assumes ok: "out_ok q as"
  shows "\<exists>q'. link_packet p q = Some q' \<and> out_ok q' (as @ [nextOut q]) \<and> map_option opacket (outHeap q' (nextOut q)) = Some p \<and>
    (\<forall>a\<in>set as. map_option opacket (outHeap q' a) = map_option opacket (outHeap q a))"
proof -
  let ?n = "nextOut q"
  have n: "?n \<notin> set as" using ok by (auto simp: out_ok_def)
  show ?thesis
  proof (cases "as = []")
    case True
    then show ?thesis using ok by (auto simp: out_ok_def link_packet_def out_nxt_def out_prv_def Let_def)
  next
    case False
    then have l: "sendLast q = Some (last as)" "last as \<in> set as" using ok by (auto simp: out_ok_def last_or_def)
    then obtain k where k: "outHeap q (last as) = Some k" using ok by (auto simp: out_ok_def)
    have nl: "?n \<noteq> last as" using n l(2) by auto
    let ?q = "q\<lparr>outHeap := (outHeap q)(?n \<mapsto> \<lparr>opacket = p, oprev = Some (last as), onext = None\<rparr>, last as \<mapsto> k\<lparr>onext := Some ?n\<rparr>),
        nextOut := ?n + 1, sendLast := Some ?n\<rparr>"
    have e: "link_packet p q = Some ?q" using l k nl by (simp add: link_packet_def upd_out_def Let_def)
    have "dll (out_nxt ?q) (out_prv ?q) None (as @ [?n]) None"
      by (rule dll_insert [of "out_nxt q" "out_prv q" None as "[]" None])
        (use ok n False nl k in \<open>auto simp: out_ok_def out_nxt_def out_prv_def last_or_def\<close>)
    moreover have "dom (outHeap ?q) = set (as @ [?n])" using ok l(2) by (auto simp: out_ok_def)
    ultimately have "out_ok ?q (as @ [?n])" using ok n False by (auto simp: out_ok_def hd_or_def)
    then show ?thesis using e k nl n by auto
  qed
qed

lemma unlink_packet_ok:
  assumes ok: "out_ok q (a # as)"
  shows "\<exists>q' p. unlink_packet q = Some (p, q') \<and> out_ok q' as \<and> map_option opacket (outHeap q a) = Some p \<and>
    (\<forall>b\<in>set as. map_option opacket (outHeap q' b) = map_option opacket (outHeap q b))"
proof -
  have ex: "b \<in> set (a # as) \<Longrightarrow> \<exists>k. outHeap q b = Some k" for b using ok unfolding out_ok_def by blast
  obtain l where l: "outHeap q a = Some l" using ex [of a] by auto
  have f: "sendFirst q = Some a" "onext l = hd_or as None" using ok l by (auto simp: out_ok_def out_nxt_def)
  show ?thesis
  proof (cases as)
    case Nil
    then have "dom ((outHeap q)(a := None)) = {}" using ok by (simp add: out_ok_def)
    then have "(outHeap q)(a := None) = Map.empty" by (simp only: dom_eq_empty_conv)
    then show ?thesis using ok l f Nil by (auto simp: out_ok_def unlink_packet_def)
  next
    case (Cons b bs)
    then obtain k where k: "outHeap q b = Some k" using ex [of b] by auto
    have ab: "a \<noteq> b" using ok Cons by (auto simp: out_ok_def)
    let ?q = "q\<lparr>sendFirst := Some b, outHeap := ((outHeap q)(a := None))(b \<mapsto> k\<lparr>oprev := None\<rparr>)\<rparr>"
    have e: "unlink_packet q = Some (opacket l, ?q)" using l f k ab Cons by (simp add: unlink_packet_def upd_out_def Let_def)
    have "dll (out_nxt ?q) (out_prv ?q) None ([] @ as) None"
      by (rule dll_remove [of "out_nxt q" "out_prv q" None "[]" a as None])
        (use ok Cons k ab in \<open>auto simp: out_ok_def out_nxt_def out_prv_def\<close>)
    then have "out_ok ?q as" using ok Cons by (auto simp: out_ok_def)
    moreover have "a \<notin> set as" using ok by (simp add: out_ok_def)
    ultimately show ?thesis using e l k ab Cons by auto
  qed
qed

lemma unlink_empty: "out_ok q [] \<Longrightarrow> unlink_packet q = None"
  by (simp add: out_ok_def unlink_packet_def)

interpretation outq: packet_fifo out_holds link_packet unlink_packet
proof unfold_locales
  fix q ps p
  assume "out_holds q ps"
  then obtain as where as: "out_ok q as" "map (\<lambda>a. map_option opacket (outHeap q a)) as = map Some ps" by (auto simp: out_holds_def)
  from link_packet_ok [OF as(1), of p] obtain q' where "link_packet p q = Some q'" "out_ok q' (as @ [nextOut q])"
    "map_option opacket (outHeap q' (nextOut q)) = Some p" "\<forall>a\<in>set as. map_option opacket (outHeap q' a) = map_option opacket (outHeap q a)"
    by blast
  moreover from this have "map (\<lambda>a. map_option opacket (outHeap q' a)) (as @ [nextOut q]) = map Some (ps @ [p])"
    using as(2) by (simp cong: map_cong)
  ultimately show "\<exists>q'. link_packet p q = Some q' \<and> out_holds q' (ps @ [p])" unfolding out_holds_def by blast
next
  fix q p ps
  assume "out_holds q (p # ps)"
  then obtain a as where as: "out_ok q (a # as)" "map_option opacket (outHeap q a) = Some p"
    "map (\<lambda>a. map_option opacket (outHeap q a)) as = map Some ps" unfolding out_holds_def by (auto simp: map_eq_Cons_conv)
  from unlink_packet_ok [OF as(1)] obtain q' where "unlink_packet q = Some (p, q')" "out_ok q' as"
    "\<forall>b\<in>set as. map_option opacket (outHeap q' b) = map_option opacket (outHeap q b)" using as(2) by auto
  moreover from this have "map (\<lambda>a. map_option opacket (outHeap q' a)) as = map Some ps" using as(3) by (metis (no_types, lifting) map_cong)
  ultimately show "\<exists>q'. unlink_packet q = Some (p, q') \<and> out_holds q' ps" unfolding out_holds_def by blast
next
  fix q
  assume "out_holds q []"
  then show "unlink_packet q = None" using unlink_empty by (auto simp: out_holds_def)
qed

lemma out_holds_first: "out_holds q (p # ps) \<Longrightarrow> \<exists>a l. sendFirst q = Some a \<and> outHeap q a = Some l \<and> opacket l = p"
  by (force simp: out_holds_def out_ok_def map_eq_Cons_conv)

lemma out_holds_empty: "out_holds q [] \<longleftrightarrow> out_ok q []"
  by (auto simp: out_holds_def)

lemma isSending_holds: "out_holds q ps \<Longrightarrow> isSending q \<longleftrightarrow> ps \<noteq> []"
  by (cases ps) (auto simp: isSending_def out_holds_empty out_ok_def dest: out_holds_first)

section \<open>Segmentation\<close>

function segments :: "nat \<Rightarrow> byte list \<Rightarrow> byte list list" where
  "segments n d = (if n = 0 \<or> d = [] then [] else take n d # segments n (drop n d))"
  by pat_completeness auto
termination by (relation "measure (\<lambda>(_, d). length d)") auto

declare segments.simps [simp del]

lemma segments_Nil [simp]: "segments n [] = []"
  by (simp add: segments.simps)

lemma concat_segments: "0 < n \<Longrightarrow> concat (segments n d) = d"
proof (induction n d rule: segments.induct)
  case (1 n d)
  then show ?case by (cases "d = []") (simp_all add: segments.simps [of n d])
qed

lemma segments_sizes: "x \<in> set (segments n d) \<Longrightarrow> 0 < length x \<and> length x \<le> n"
proof (induction n d rule: segments.induct)
  case (1 n d)
  then show ?case by (cases "n = 0 \<or> d = []") (auto simp: segments.simps [of n d])
qed

lemma length_segments: "length (segments n d) \<le> length d"
proof (induction n d rule: segments.induct)
  case (1 n d)
  then show ?case by (cases "n = 0"; cases d) (auto simp: segments.simps [of n "_ # _"] segments.simps [of 0])
qed

text \<open>The packets that a sequence of segments becomes, and what making them leaves of the state.\<close>

fun make_packets ::
  "('ak, 'hm) ctl_env \<Rightarrow> u32 \<Rightarrow> bool \<Rightarrow> byte list list \<Rightarrow> ('na, 'ak, 'hm) OutQueue \<Rightarrow> (RTPPacket list \<times> ('na, 'ak, 'hm) OutQueue) option" where
  "make_packets E stamp first [] st = Some ([], st)"
| "make_packets E stamp first (seg # segs) st =
     do { (pcco, st) \<leftarrow> select_out E st;
          (p, st) \<leftarrow> next_packet E stamp first seg pcco st;
          (ps, st) \<leftarrow> make_packets E stamp False segs st;
          Some (p # ps, st) }"

lemma select_out_list: "select_out E (st\<lparr>oqList := q\<rparr>) = map_option (apsnd (oqList_update (\<lambda>_. q))) (select_out E st)"
  by (auto simp: select_out_def Let_def split: option.split Option.bind_split)

lemma next_packet_list:
  "next_packet E stamp first seg pcco (st\<lparr>oqList := q\<rparr>) = map_option (apsnd (oqList_update (\<lambda>_. q))) (next_packet E stamp first seg pcco st)"
  by (auto simp: next_packet_def Let_def split: option.split Option.bind_split)

lemma make_packets_list:
  "make_packets E stamp first segs (st\<lparr>oqList := q\<rparr>) = map_option (apsnd (oqList_update (\<lambda>_. q))) (make_packets E stamp first segs st)"
proof (induction segs arbitrary: first st)
  case (Cons seg segs)
  show ?case by (simp add: select_out_list next_packet_list Cons.IH split: Option.bind_split)
qed simp

lemma select_out_frame:
  assumes "select_out E st = Some (pcco, st')"
  shows "st' = st\<lparr>oqEnv := oqEnv st', oqContexts := oqContexts st'\<rparr>"
  using assms by (auto simp: select_out_def Let_def split: option.splits Option.bind_splits)

lemma next_packet_frame:
  assumes "next_packet E stamp first seg pcco st = Some (p, st')"
  shows "st' = st\<lparr>oqSeq := oqSeq st + 1, oqMarked := oqMarked st \<and> \<not> first, oqContexts := oqContexts st'\<rparr>"
  using assms by (auto simp: next_packet_def Let_def split: option.splits Option.bind_splits)

lemma make_packets_frame:
  "make_packets E stamp first segs st = Some (ps, st') \<Longrightarrow>
   \<exists>m. st' = st\<lparr>oqSeq := oqSeq st + of_nat (length segs), oqMarked := m, oqEnv := oqEnv st', oqContexts := oqContexts st'\<rparr> \<and> length ps = length segs"
proof (induction segs arbitrary: first st ps)
  case (Cons seg segs)
  from Cons.prems obtain pcco st1 p st2 ps2 where a: "select_out E st = Some (pcco, st1)" "next_packet E stamp first seg pcco st1 = Some (p, st2)"
    "make_packets E stamp False segs st2 = Some (ps2, st')" "ps = p # ps2" by (auto split: Option.bind_splits)
  from Cons.IH [OF a(3)] obtain m where m: "st' = st2\<lparr>oqSeq := oqSeq st2 + of_nat (length segs), oqMarked := m, oqEnv := oqEnv st', oqContexts := oqContexts st'\<rparr>"
    "length ps2 = length segs" by blast
  note f = select_out_frame [OF a(1)] next_packet_frame [OF a(2)]
  have "st' = st\<lparr>oqSeq := oqSeq st + of_nat (length (seg # segs)), oqMarked := m, oqEnv := oqEnv st', oqContexts := oqContexts st'\<rparr>"
    by (subst m(1), subst (1 2) f(2), subst (1 2) f(1)) (simp add: algebra_simps)
  then show ?case using m(2) a(4) by auto
qed (auto intro!: exI [of _ "oqMarked st'"])

lemma put_loop_refines:
  fixes st :: "('na, 'ak, 'hm) OutQueue"
  shows "0 < oqMaxSegment st \<Longrightarrow> out_holds (oqList st) qs \<Longrightarrow>
    (case make_packets E stamp (offset = 0) (segments (oqMaxSegment st) (drop offset data)) st of
       None \<Rightarrow> put_loop E stamp data offset st = None
     | Some (ps, st') \<Rightarrow> \<exists>q. put_loop E stamp data offset st = Some (st'\<lparr>oqList := q\<rparr>) \<and> out_holds q (qs @ ps))"
proof (induction "length data - offset" arbitrary: offset st qs rule: less_induct)
  case less
  let ?M = "oqMaxSegment st" and ?d = "drop offset data"
  show ?case
  proof (cases "offset < length data")
    case False
    then show ?thesis using less.prems(2) by (subst put_loop.simps) (auto intro!: exI [of _ "oqList st"])
  next
    case True
    define step where "step = segment_step ?M (length data - offset)"
    have s: "0 < step" "take step ?d = take ?M ?d" "drop (offset + step) data = drop ?M ?d"
      using True less.prems(1) by (auto simp: step_def segment_step_def drop_drop [symmetric] add.commute [of offset] simp del: drop_drop)
    have segs: "segments ?M ?d = take ?M ?d # segments ?M (drop ?M ?d)" using True less.prems(1) by (simp add: segments.simps [of ?M ?d])
    have pl: "put_loop E stamp data offset st = (case put_segment E stamp (offset = 0) (take ?M ?d) st of
        None \<Rightarrow> None | Some st \<Rightarrow> put_loop E stamp data (offset + step) st)"
      using True less.prems(1) s(2) by (subst put_loop.simps) (simp add: step_def [symmetric] Let_def)
    show ?thesis
    proof (cases "select_out E st")
      case None
      then show ?thesis by (simp add: segs pl put_segment_def)
    next
      case (Some r)
      then obtain pcco st1 where r: "select_out E st = Some (pcco, st1)" by (cases r) auto
      show ?thesis
      proof (cases "next_packet E stamp (offset = 0) (take ?M ?d) pcco st1")
        case None
        then show ?thesis by (simp add: segs pl put_segment_def r)
      next
        case (Some x)
        then obtain p st2 where x: "next_packet E stamp (offset = 0) (take ?M ?d) pcco st1 = Some (p, st2)" by (cases x) auto
        have l2: "oqList st2 = oqList st" "oqMaxSegment st2 = ?M"
          by (subst next_packet_frame [OF x], simp, subst select_out_frame [OF r], simp)+
        obtain q1 where q1: "link_packet p (oqList st) = Some q1" "out_holds q1 (qs @ [p])" using outq.put_holds [OF less.prems(2)] by blast
        let ?st3 = "st2\<lparr>oqList := q1\<rparr>"
        have ps: "put_segment E stamp (offset = 0) (take ?M ?d) st = Some ?st3" using r x q1(1) l2(1) by (simp add: put_segment_def)
        have IH: "case make_packets E stamp (offset + step = 0) (segments ?M (drop (offset + step) data)) ?st3 of
            None \<Rightarrow> put_loop E stamp data (offset + step) ?st3 = None
          | Some (ps, st') \<Rightarrow> \<exists>q. put_loop E stamp data (offset + step) ?st3 = Some (st'\<lparr>oqList := q\<rparr>) \<and> out_holds q ((qs @ [p]) @ ps)"
          using less.hyps [of "offset + step" ?st3 "qs @ [p]"] True s(1) less.prems(1) q1(2) l2(2) by simp
        then show ?thesis
          using s(1,3) r x ps unfolding segs pl make_packets_list
          by (cases "make_packets E stamp False (segments ?M (drop ?M ?d)) st2") auto
      qed
    qed
  qed
qed

section \<open>Purging and dispatching\<close>

lemma purge_out_frees:
  "set as = dom (outHeap q) \<Longrightarrow> distinct as \<Longrightarrow> dll (out_nxt q) P pr as None \<Longrightarrow> sendFirst q = hd_or as None \<Longrightarrow>
   \<exists>q'. purge_out q = Some q' \<and> out_ok q' []"
proof (induction as arbitrary: q pr P)
  case Nil
  then have "outHeap q = Map.empty" using dom_eq_empty_conv [of "outHeap q"] by simp
  then show ?case using Nil by (subst purge_out.simps) (simp add: out_ok_def)
next
  case (Cons a as)
  obtain l where l: "outHeap q a = Some l" using Cons.prems(1) by auto
  let ?q = "q\<lparr>sendFirst := onext l, outHeap := (outHeap q)(a := None)\<rparr>"
  have n: "onext l = hd_or as None" using Cons.prems(3) l by (simp add: out_nxt_def)
  have "dll (out_nxt ?q) P (Some a) as None = dll (out_nxt q) P (Some a) as None"
    by (rule dll_cong) (use Cons.prems(2) in \<open>auto simp: out_nxt_def\<close>)
  then have d: "dll (out_nxt ?q) P (Some a) as None" using Cons.prems(3) by simp
  have "set as = dom (outHeap ?q)" using Cons.prems(1,2) by auto
  from Cons.IH [OF this _ d] show ?case using Cons.prems(2,4) l n by (subst purge_out.simps) simp
qed

lemma purgeOutgoingQueue_empties:
  assumes "out_holds (oqList st) ps"
  shows "\<exists>q. purgeOutgoingQueue st = Some (st\<lparr>oqList := q\<rparr>) \<and> out_holds q [] \<and> outHeap q = Map.empty"
proof -
  obtain as where "out_ok (oqList st) as" using assms by (auto simp: out_holds_def)
  then have "\<exists>q'. purge_out (oqList st) = Some q' \<and> out_ok q' []"
    by (intro purge_out_frees [of as _ "out_prv (oqList st)" None]) (simp_all add: out_ok_def)
  then show ?thesis by (auto simp: purgeOutgoingQueue_def out_holds_empty out_ok_def)
qed

text \<open>What goes to the network for one packet: the same bytes for every destination.\<close>

definition to_all :: "'na TransportAddress list \<Rightarrow> byte list \<Rightarrow> (('na \<times> u16) \<times> byte list) list" where
  "to_all ds w = map (\<lambda>d. ((destAddress d, destDataPort d), w)) ds"

lemma dispatchImmediate_sends:
  "\<exists>peer. dispatchImmediate p st = st\<lparr>oqDataPeer := peer, oqSent := oqSent st @ to_all (oqDestinations st) (getRawPacketSrtp p)\<rparr>"
proof (cases "isSingleDestination st")
  case True
  then obtain d where "oqDestinations st = [d]" by (auto simp: isSingleDestination_def length_Suc_conv)
  then show ?thesis using True by (auto simp: dispatchImmediate_def to_all_def Let_def)
next
  case False
  then show ?thesis
    by (intro exI [of _ "if oqDestinations st = [] then oqDataPeer st
        else Some (destAddress (last (oqDestinations st)), destDataPort (last (oqDestinations st)))"])
      (simp add: dispatchImmediate_def to_all_def Let_def)
qed

fun dispatch_times :: "nat \<Rightarrow> ('na, 'ak, 'hm) OutQueue \<Rightarrow> ('na, 'ak, 'hm) OutQueue option" where
  "dispatch_times 0 st = Some st"
| "dispatch_times (Suc n) st = do { (_, st) \<leftarrow> dispatchDataPacket st; dispatch_times n st }"

lemma dispatch_one:
  fixes st :: "('na, 'ak, 'hm) OutQueue"
  assumes "out_holds (oqList st) (p # ps)"
  shows "\<exists>peer q. dispatchDataPacket st = Some (payloadSize p, st\<lparr>oqDataPeer := peer, oqSent := oqSent st @ to_all (oqDestinations st) (getRawPacketSrtp p),
      oqList := q, oqPacketCount := oqPacketCount st + 1, oqOctetCount := oqOctetCount st + payloadSize p\<rparr>) \<and> out_holds q ps"
proof -
  obtain a l where a: "sendFirst (oqList st) = Some a" "outHeap (oqList st) a = Some l" "opacket l = p" using out_holds_first [OF assms] by blast
  obtain q where q: "unlink_packet (oqList st) = Some (p, q)" "out_holds q ps" using outq.get_holds [OF assms] by blast
  obtain peer where d: "dispatchImmediate p st = st\<lparr>oqDataPeer := peer, oqSent := oqSent st @ to_all (oqDestinations st) (getRawPacketSrtp p)\<rparr>"
    using dispatchImmediate_sends by blast
  show ?thesis using a q by (intro exI [of _ peer] exI [of _ q]) (simp add: dispatchDataPacket_def d Let_def)
qed

lemma dispatch_times_sends:
  fixes st :: "('na, 'ak, 'hm) OutQueue"
  shows "out_holds (oqList st) (ps @ qs) \<Longrightarrow> \<exists>st'. dispatch_times (length ps) st = Some st' \<and> out_holds (oqList st') qs \<and>
    oqSent st' = oqSent st @ concat (map (\<lambda>p. to_all (oqDestinations st) (getRawPacketSrtp p)) ps) \<and>
    oqPacketCount st' = oqPacketCount st + of_nat (length ps) \<and> oqOctetCount st' = oqOctetCount st + sum_list (map payloadSize ps)"
proof (induction ps arbitrary: st)
  case (Cons p ps)
  obtain peer q where d: "dispatchDataPacket st = Some (payloadSize p, st\<lparr>oqDataPeer := peer, oqSent := oqSent st @ to_all (oqDestinations st) (getRawPacketSrtp p),
      oqList := q, oqPacketCount := oqPacketCount st + 1, oqOctetCount := oqOctetCount st + payloadSize p\<rparr>)" "out_holds q (ps @ qs)"
    using dispatch_one [of st p "ps @ qs"] Cons.prems by auto
  let ?st = "st\<lparr>oqDataPeer := peer, oqSent := oqSent st @ to_all (oqDestinations st) (getRawPacketSrtp p),
      oqList := q, oqPacketCount := oqPacketCount st + 1, oqOctetCount := oqOctetCount st + payloadSize p\<rparr>"
  have "out_holds (oqList ?st) (ps @ qs)" using d(2) by simp
  from Cons.IH [OF this] d(1) show ?case by (auto simp: algebra_simps)
qed simp

section \<open>Scheduling\<close>

definition usecs :: "timeval \<Rightarrow> int" where
  "usecs t = tv_sec t * 1000000 + tv_usec t"

text \<open>Two times that are at most 2000 seconds apart.\<close>

definition near :: "timeval \<Rightarrow> timeval \<Rightarrow> bool" where
  "near now t \<longleftrightarrow> \<bar>tv_sec t - tv_sec now\<bar> \<le> 2000 \<and> \<bar>tv_usec t - tv_usec now\<bar> < 1000000"

lemma sint_small: "- (2 ^ 31) \<le> x \<Longrightarrow> x < 2 ^ 31 \<Longrightarrow> sint (of_int x :: u32) = x"
  by (simp add: signed_of_int signed_take_bit_int_eq_self_iff)

lemma uint_small: "0 \<le> x \<Longrightarrow> x < 2 ^ 32 \<Longrightarrow> uint (of_int x :: u32) = x"
  by (simp add: unsigned_of_int take_bit_int_eq_self)

lemma time_left_exact: "\<bar>usecs send - usecs now\<bar> < 2 ^ 31 \<Longrightarrow> sint (time_left now send) = usecs send - usecs now"
proof -
  assume "\<bar>usecs send - usecs now\<bar> < 2 ^ 31"
  moreover have "time_left now send = of_int (usecs send - usecs now)" by (simp add: time_left_def usecs_def algebra_simps)
  ultimately show ?thesis using sint_small [of "usecs send - usecs now"] by (simp add: abs_less_iff)
qed

definition late :: "u32 \<Rightarrow> timeval \<Rightarrow> timeval \<Rightarrow> bool" where
  "late expire now send \<longleftrightarrow> usecs send + uint expire < usecs now"

lemma due_near:
  assumes "near now send"
  shows "due expire now send = Some (if usecs send \<ge> usecs now then Some (of_int (usecs send - usecs now))
    else if late expire now send then None else Some 0)"
proof -
  have b: "\<bar>usecs send - usecs now\<bar> < 2 ^ 31"
    using assms unfolding near_def usecs_def by (simp add: abs_le_iff abs_less_iff algebra_simps)
  note e = time_left_exact [OF b]
  have "(of_int (usecs now - usecs send) :: u32) \<le> expire \<longleftrightarrow> usecs now - usecs send \<le> uint expire" if "usecs send < usecs now"
  proof -
    have "uint (of_int (usecs now - usecs send) :: u32) = usecs now - usecs send"
      by (intro uint_small) (use b that in auto)
    then show ?thesis by (simp only: word_le_def)
  qed
  then show ?thesis using assms b unfolding due_def Let_def e by (auto simp: near_def late_def)
qed

lemma schedule_first_near:
  assumes "send_time st p = Some t" "near now t"
  shows "schedule_first now st p = Some (if usecs t \<ge> usecs now then Some (of_int (usecs t - usecs now))
    else if late (oqExpireTimeout st) now t then None else Some 0, st)"
proof -
  have "\<not> tv_sec now - tv_sec t > 5000" "\<not> tv_sec t - tv_sec now > 20000" using assms(2) by (auto simp: near_def)
  then show ?thesis using assms(1) by (simp only: schedule_first_def Let_def Option.bind.simps if_False prod.case due_near [OF assms(2)]) simp
qed

lemma getSchedulingTimeout_first:
  assumes "out_holds (oqList st) (p # ps)" "schedule_first (clock i) st p = Some (r, st1)" "oqList st1 = oqList st"
  shows "getSchedulingTimeout clock i st = (case r of Some t \<Rightarrow> Some (t, st1)
    | None \<Rightarrow> (case unlink_packet (oqList st) of None \<Rightarrow> None
        | Some (packet, q) \<Rightarrow> getSchedulingTimeout clock (i + 1) (st1\<lparr>oqList := q, oqExpired := oqExpired st1 @ [packet]\<rparr>)))"
proof -
  obtain a l where a: "sendFirst (oqList st) = Some a" "outHeap (oqList st) a = Some l" "opacket l = p" using out_holds_first [OF assms(1)] by blast
  then show ?thesis using assms(2,3) by (subst getSchedulingTimeout.simps) (simp split: option.split)
qed

lemma getSchedulingTimeout_empty: "out_holds (oqList st) [] \<Longrightarrow> getSchedulingTimeout clock i st = Some (oqSchedulingTimeout st, st)"
  by (subst getSchedulingTimeout.simps) (simp add: out_holds_empty out_ok_def)

lemma send_time_cong:
  "oqInitialTimestamp st' = oqInitialTimestamp st \<Longrightarrow> oqClockRate st' = oqClockRate st \<Longrightarrow> oqOverflow st' = oqOverflow st \<Longrightarrow>
   send_time st' p = send_time st p"
  by (simp add: send_time_def Let_def)

text \<open>
  C26: the sending schedule. When every queued packet is due within 2000 seconds of every reading of the clock, a call returns after finitely many turns:
  it has removed, in order, exactly the packets that were late by more than the expiry time, each at its reading of the clock,
  and the result is the time until the first packet that is left, zero when that is overdue, and the default time when none is left.
\<close>

theorem scheduling_drops_late:
  fixes st :: "('na, 'ak, 'hm) OutQueue"
  assumes "out_holds (oqList st) ps" "\<forall>p\<in>set ps. \<exists>t. send_time st p = Some t \<and> (\<forall>i. near (clock i) t)"
  shows "\<exists>k q t. getSchedulingTimeout clock i st = Some (t, st\<lparr>oqList := q, oqExpired := oqExpired st @ take k ps\<rparr>) \<and> out_holds q (drop k ps) \<and>
    k \<le> length ps \<and> (\<forall>j<k. late (oqExpireTimeout st) (clock (i + j)) (the (send_time st (ps ! j)))) \<and>
    (if k < length ps then \<not> late (oqExpireTimeout st) (clock (i + k)) (the (send_time st (ps ! k))) \<and>
       t = of_int (max 0 (usecs (the (send_time st (ps ! k))) - usecs (clock (i + k))))
     else t = oqSchedulingTimeout st)"
  using assms
proof (induction ps arbitrary: st i)
  case Nil
  then show ?case using getSchedulingTimeout_empty [of st clock i] by (intro exI [of _ 0] exI [of _ "oqList st"] exI [of _ "oqSchedulingTimeout st"]) simp
next
  case (Cons p ps)
  obtain t where t: "send_time st p = Some t" "near (clock i) t" using Cons.prems(2) by auto
  note sf = schedule_first_near [OF t] and g = getSchedulingTimeout_first [of st p ps clock i, OF Cons.prems(1) schedule_first_near [OF t] refl]
  show ?case
  proof (cases "late (oqExpireTimeout st) (clock i) t")
    case False
    let ?r = "of_int (max 0 (usecs t - usecs (clock i))) :: u32"
    have "getSchedulingTimeout clock i st = Some (?r, st)" unfolding g using False by (simp add: max_def)
    then show ?thesis using False t(1) Cons.prems(1) by (intro exI [of _ 0] exI [of _ "oqList st"] exI [of _ ?r]) simp
  next
    case True
    then have lt: "\<not> usecs (clock i) \<le> usecs t" unfolding late_def using uint_ge_0 [of "oqExpireTimeout st"] by linarith
    obtain q where q: "unlink_packet (oqList st) = Some (p, q)" "out_holds q ps" using outq.get_holds [OF Cons.prems(1)] by blast
    let ?st = "st\<lparr>oqList := q, oqExpired := oqExpired st @ [p]\<rparr>"
    have g1: "getSchedulingTimeout clock i st = getSchedulingTimeout clock (i + 1) ?st" unfolding g using True lt q(1) by simp
    have st: "send_time ?st = send_time st" by (intro ext send_time_cong) simp_all
    have "out_holds (oqList ?st) ps" "\<forall>p\<in>set ps. \<exists>t. send_time ?st p = Some t \<and> (\<forall>i. near (clock i) t)"
      using q(2) Cons.prems(2) unfolding st by auto
    from Cons.IH [OF this, of "i + 1"] obtain k q' t' where
      k: "getSchedulingTimeout clock (i + 1) ?st = Some (t', ?st\<lparr>oqList := q', oqExpired := oqExpired ?st @ take k ps\<rparr>)" "out_holds q' (drop k ps)"
      "k \<le> length ps" "\<forall>j<k. late (oqExpireTimeout ?st) (clock (i + 1 + j)) (the (send_time st (ps ! j)))"
      "if k < length ps then \<not> late (oqExpireTimeout ?st) (clock (i + 1 + k)) (the (send_time st (ps ! k))) \<and>
       t' = of_int (max 0 (usecs (the (send_time st (ps ! k))) - usecs (clock (i + 1 + k)))) else t' = oqSchedulingTimeout ?st"
      unfolding st by blast
    then show ?thesis using g1 True t(1)
      by (intro exI [of _ "Suc k"] exI [of _ q'] exI [of _ t']) (auto simp: less_Suc_eq_0_disj)
  qed
qed

text \<open>
  A packet that is due far ahead is thrown away. The time left is cut to 32 bits of microseconds: a packet that is due between 2149 and 3600 seconds
  from now, and should be waited for, counts as expired when it is alone in the queue, and the caller is told to wait the default time.
\<close>

theorem far_packet_expired:
  fixes st :: "('na, 'ak, 'hm) OutQueue"
  assumes "out_holds (oqList st) [p]" "send_time st p = Some t" "2149 \<le> tv_sec t - tv_sec (clock i)" "tv_sec t - tv_sec (clock i) \<le> 3600"
    "\<bar>tv_usec t - tv_usec (clock i)\<bar> < 1000000" "oqExpireTimeout st \<le> 690000000"
  shows "\<exists>q. getSchedulingTimeout clock i st = Some (oqSchedulingTimeout st, st\<lparr>oqList := q, oqExpired := oqExpired st @ [p]\<rparr>) \<and> out_holds q []"
proof -
  let ?now = "clock i"
  define d where "d = usecs t - usecs ?now"
  have d: "2148000000 < d" "d < 3601000000" using assms(3-5) unfolding d_def usecs_def by (auto simp: abs_less_iff algebra_simps)
  have "(d - 2 ^ 32) mod 2 ^ 32 = d mod 2 ^ 32" by simp
  then have "(of_int (d - 2 ^ 32) :: u32) = of_int d" by (simp add: word_of_int_eq_iff take_bit_eq_mod)
  moreover have "time_left ?now t = of_int d" by (simp add: time_left_def d_def usecs_def algebra_simps)
  ultimately have "time_left ?now t = of_int (d - 2 ^ 32)" by simp
  then have s: "sint (time_left ?now t) = d - 2 ^ 32" using sint_small [of "d - 2 ^ 32"] d by simp
  have u: "uint (of_int (2 ^ 32 - d) :: u32) = 2 ^ 32 - d" by (intro uint_small) (use d in auto)
  have "uint (oqExpireTimeout st) \<le> 690000000" using assms(6) by (simp add: word_le_def)
  then have e: "\<not> (of_int (2 ^ 32 - d) :: u32) \<le> oqExpireTimeout st" using d unfolding word_le_def u by simp
  have "due (oqExpireTimeout st) ?now t = Some None" using assms(4) s d e by (simp add: due_def Let_def)
  moreover have "\<not> tv_sec ?now - tv_sec t > 5000" "\<not> tv_sec t - tv_sec ?now > 20000" using assms(3,4) by auto
  ultimately have sf: "schedule_first ?now st p = Some (None, st)" using assms(2) by (simp add: schedule_first_def Let_def)
  obtain q where q: "unlink_packet (oqList st) = Some (p, q)" "out_holds q []" using outq.get_holds [OF assms(1)] by blast
  show ?thesis using getSchedulingTimeout_first [of st p "[]" clock i, OF assms(1) sf refl] q getSchedulingTimeout_empty [of "st\<lparr>oqList := q, oqExpired := oqExpired st @ [p]\<rparr>"]
    by auto
qed

definition sample_pkt :: "u32 \<Rightarrow> RTPPacket" where
  "sample_pkt ts = \<lparr>pbuffer = [], ptotal = 0, payloadSize = 0, hdrSize = 0, cachedSeqNum = 0, cachedTimestamp = ts, srtpDataOffset = 0, srtpLength = 0\<rparr>"

definition sample_oq :: "OutList \<Rightarrow> (unit, byte list, byte list \<times> byte list) OutQueue" where
  "sample_oq q = (newOutgoingDataQueue 0 65534 7 \<lparr>tv_sec = 0, tv_usec = 0\<rparr> 8 8000 (\<lambda>_. 0) sample_env)\<lparr>oqList := q\<rparr>"

lemma out_holds_new: "out_holds \<lparr>outHeap = Map.empty, nextOut = 0, sendFirst = None, sendLast = None\<rparr> []"
  by (simp add: out_holds_empty out_ok_def)

lemma ex_out_holds: "\<exists>q. out_holds q ps"
  using outq.put_all_holds [OF out_holds_new, of ps] by auto

lemma send_time_sample: "send_time (sample_oq q) (sample_pkt ts) = Some \<lparr>tv_sec = uint (ts div 8000), tv_usec = 1000 * uint (ts mod 8000) div 8\<rparr>"
  if "1000 * uint (ts mod 8000) div 8 < 1000000"
  using that by (simp add: send_time_def sample_oq_def newOutgoingDataQueue_def sample_pkt_def getTimestamp_def timeradd_def Let_def)

theorem scheduling_drops_late_witness:
  "\<exists>q. out_holds q [sample_pkt 160, sample_pkt 80000] \<and> (let st = sample_oq q; ps = [sample_pkt 160, sample_pkt 80000]; clock = \<lambda>_. \<lparr>tv_sec = 0, tv_usec = 500000\<rparr> in
    \<exists>k q t. getSchedulingTimeout clock 0 st = Some (t, st\<lparr>oqList := q, oqExpired := oqExpired st @ take k ps\<rparr>) \<and> out_holds q (drop k ps) \<and>
    k \<le> length ps \<and> (\<forall>j<k. late (oqExpireTimeout st) (clock (0 + j)) (the (send_time st (ps ! j)))) \<and>
    (if k < length ps then \<not> late (oqExpireTimeout st) (clock (0 + k)) (the (send_time st (ps ! k))) \<and>
       t = of_int (max 0 (usecs (the (send_time st (ps ! k))) - usecs (clock (0 + k))))
     else t = oqSchedulingTimeout st))"
proof -
  obtain q where q: "out_holds q [sample_pkt 160, sample_pkt 80000]" using ex_out_holds by blast
  then have h: "out_holds (oqList (sample_oq q)) [sample_pkt 160, sample_pkt 80000]" by (simp add: sample_oq_def)
  show ?thesis unfolding Let_def
    by (rule exI [of _ q], rule conjI [OF q], rule scheduling_drops_late [OF h]) (auto simp: send_time_sample near_def)
qed

theorem far_packet_expired_witness:
  "\<exists>q. out_holds q [sample_pkt 24000000] \<and> (let st = sample_oq q in
    \<exists>q'. getSchedulingTimeout (\<lambda>_. \<lparr>tv_sec = 0, tv_usec = 0\<rparr>) 0 st =
      Some (oqSchedulingTimeout st, st\<lparr>oqList := q', oqExpired := oqExpired st @ [sample_pkt 24000000]\<rparr>) \<and> out_holds q' [])"
proof -
  obtain q where q: "out_holds q [sample_pkt 24000000]" using ex_out_holds by blast
  then have h: "out_holds (oqList (sample_oq q)) [sample_pkt 24000000]" by (simp add: sample_oq_def)
  have "send_time (sample_oq q) (sample_pkt 24000000) = Some \<lparr>tv_sec = 3000, tv_usec = 0\<rparr>" by (simp add: send_time_sample)
  from far_packet_expired [OF h this, of "\<lambda>_. \<lparr>tv_sec = 0, tv_usec = 0\<rparr>" 0] show ?thesis
    using q by (intro exI [of _ q]) (simp add: sample_oq_def newOutgoingDataQueue_def defaultExpireTimeout_def)
qed

section \<open>One protected packet\<close>

lemma newOutgoing_ext:
  assumes "12 + length data + 256 < 2 ^ 32" "0 \<le> sl" "sl = (case srtp of None \<Rightarrow> 0 | Some n \<Rightarrow> n)"
  shows "newOutgoingRTPPkt mem data pl srtp = newOutgoingRTPPkt_ext mem [] [] data pl srtp"
proof -
  define pad where "pad = padding_len (of_nat (12 + 0 + length data)) pl"
  define q where "q = newRTPPacket_out mem (12 + 0) (length data) pl srtp"
  have b: "12 + 0 + length data + 256 < 2 ^ 32" using assms(1) by simp
  obtain h4 h5 h6 h7 h8 h9 h10 h11 B T where q: 
    "pbuffer q = [byte0 (pad \<noteq> 0) False 0, 0, 0, 0, h4, h5, h6, h7, h8, h9, h10, h11] @ B @ pad_bytes pad @ T" "length B = 0 + length data"
    by (rule out_buffer [OF b assms(2,3) pad_def q_def])
  have "set_cc 0 (pbuffer q) = pbuffer q" "set_extension False (pbuffer q) = pbuffer q"
    using out_bytes(2) [of "pad \<noteq> 0" 0] out_bytes(3) [of "pad \<noteq> 0" 0 False] by (simp_all add: q(1) set_cc_def set_extension_def set_bits_def)
  moreover have "setbuffer [] n p = p" for n and p :: RTPPacket by (simp add: setbuffer_def memcpy_at_def)
  ultimately show ?thesis by (simp add: newOutgoingRTPPkt_def newOutgoingRTPPkt_ext_def setCSRCArray_def Let_def q_def)
qed


section \<open>From the application to the other side\<close>

lemma find_ctx_key: "find_ctx key k xs = Some c \<Longrightarrow> key c = k"
  by (induction key k xs rule: find_ctx.induct) (auto split: if_splits)

lemma find_write_ctx: "find_ctx ssrcCtx k xs = Some c \<Longrightarrow> ssrcCtx c' = k \<Longrightarrow> find_ctx ssrcCtx k (write_ctx c' xs) = Some c'"
  by (induction xs) (auto split: if_splits)

text \<open>A receiver that parses and unprotects one datagram after the other.\<close>

fun srtp_receive ::
  "'ak aes_lib \<Rightarrow> 'hm hmac_lib \<Rightarrow> (nat \<Rightarrow> byte) \<Rightarrow> ('ak, 'hm) CryptoContext \<Rightarrow> byte list list \<Rightarrow> (int \<times> byte list) list option" where
  "srtp_receive aes hm mem r [] = Some []"
| "srtp_receive aes hm mem r (w # ws) =
     do { ip \<leftarrow> newIncomingRTPPkt w;
          (code, ip, ro) \<leftarrow> unprotect aes hm mem ip (Some r);
          r \<leftarrow> ro;
          rest \<leftarrow> srtp_receive aes hm mem r ws;
          Some ((code, getPayload ip) # rest) }"

definition sendable :: "('na, 'ak, 'hm) OutQueue \<Rightarrow> bool" where
  "sendable st \<longleftrightarrow> oqCC st = 0 \<and> oqPayloadType st < 128 \<and> oqPayloadType st \<noteq> 72 \<and> oqPayloadType st \<noteq> 73"

lemma make_packets_secure:
  fixes st :: "('na, 'ak, 'hm) OutQueue"
  assumes hm: "hmac_ok (ceHmac E) holds"
  shows "in_sync (ceAes E) holds k s r (oqSeq st) \<Longrightarrow> getOutQueueCryptoContext (oqLocalSSRC st) (oqContexts st) = Some s \<Longrightarrow>
    sendable st \<Longrightarrow> oqPadding st = 0 \<Longrightarrow> \<forall>x\<in>set segs. length x < 2 ^ 20 \<Longrightarrow> next_index s (oqSeq st) + length segs \<le> 281474976710656 \<Longrightarrow>
    \<exists>ps st'. make_packets E stamp first segs st = Some (ps, st') \<and>
      srtp_receive (ceAes E) (ceHmac E) mem r (map getRawPacketSrtp ps) = Some (map (\<lambda>d. (1, d)) segs)"
proof (induction segs arbitrary: st s r first)
  case (Cons seg segs)
  let ?x = "\<lparr>msg_marker = first \<and> oqMarked st, msg_pt = oqPayloadType st, msg_ts = stamp + oqInitialTimestamp st, msg_csrcs = [],
    msg_hdrext = [], msg_data = seg\<rparr>"
  have vx: "valid_msg ?x" using Cons.prems(3,5) by (simp add: valid_msg_def sendable_def valid_hdrext_def)
  have mki: "mkiLength s = 0" using Cons.prems(1) by (simp add: in_sync_def)
  have key: "ssrcCtx s = oqLocalSSRC st" using find_ctx_key Cons.prems(2) by (simp add: getOutQueueCryptoContext_def)
  from srtp_packet_step [OF hm Cons.prems(1) vx, of "oqLocalSSRC st" "ceMem E" mem] obtain p s' ip ip' r' where pk:
    "protect (ceAes E) (ceHmac E) (send_pkt (msg_marker ?x) (msg_pt ?x) (oqSeq st) (msg_ts ?x) (oqLocalSSRC st)
      (newOutgoingRTPPkt_ext (ceMem E) (msg_csrcs ?x) (msg_hdrext ?x) (msg_data ?x) 0 (Some (int (tagLength s))))) (oqLocalSSRC st) s = Some (p, s')"
    "newIncomingRTPPkt (getRawPacketSrtp p) = Some ip" "unprotect (ceAes E) (ceHmac E) mem ip (Some r) = Some (1, ip', Some r')"
    "getPayload ip' = seg" "ssrcCtx s' = ssrcCtx s"
    "next_index s (oqSeq st) + 1 < 281474976710656 \<Longrightarrow>
      next_index s' (oqSeq st + 1) = next_index s (oqSeq st) + 1 \<and> in_sync (ceAes E) holds k s' r' (oqSeq st + 1)"
    by (metis rtp_msg.select_convs(6))
  let ?st = "st\<lparr>oqSeq := oqSeq st + 1, oqMarked := oqMarked st \<and> \<not> first, oqContexts := write_ctx s' (oqContexts st)\<rparr>"
  have sel: "select_out E st = Some (Some s, st)" using Cons.prems(2) by (simp add: select_out_def)
  have "newOutgoingRTPPkt (ceMem E) seg 0 (Some (int (tagLength s))) = newOutgoingRTPPkt_ext (ceMem E) [] [] seg 0 (Some (int (tagLength s)))"
    by (rule newOutgoing_ext) (use Cons.prems(5) in auto)
  then have np: "next_packet E stamp first seg (Some s) st = Some (p, ?st)"
    using pk(1) Cons.prems(3,4) mki
    by (cases first; cases "oqMarked st") (simp_all add: next_packet_def Let_def sendable_def srtp_room_def getMkiLength_def)
  have "\<exists>ps st'. make_packets E stamp False segs ?st = Some (ps, st') \<and>
      srtp_receive (ceAes E) (ceHmac E) mem r' (map getRawPacketSrtp ps) = Some (map (\<lambda>d. (1, d)) segs)"
  proof (cases "segs = []")
    case False
    then have "0 < length segs" "length (seg # segs) = length segs + 1" by simp_all
    then have n: "next_index s (oqSeq st) + 1 < 281474976710656" using Cons.prems(6) by linarith
    have g: "getOutQueueCryptoContext (oqLocalSSRC ?st) (oqContexts ?st) = Some s'"
      using find_write_ctx [of "oqLocalSSRC st" "oqContexts st" s s'] Cons.prems(2) pk(5) key by (simp add: getOutQueueCryptoContext_def)
    show ?thesis
      by (rule Cons.IH [of s' r' ?st]) (use pk(6) [OF n] g Cons.prems(3-6) in \<open>auto simp: sendable_def\<close>)
  qed simp
  then show ?case using sel np pk(2-4) by auto
qed simp

text \<open>What the other side sees of an unprotected sequence of segments.\<close>

fun plain_wires :: "('na, 'ak, 'hm) OutQueue \<Rightarrow> u32 \<Rightarrow> bool \<Rightarrow> u16 \<Rightarrow> byte list list \<Rightarrow> IncomingRTPPkt list" where
  "plain_wires st stamp mark sq [] = []"
| "plain_wires st stamp mark sq (seg # segs) =
     parsed_wire mark (oqPayloadType st) sq (stamp + oqInitialTimestamp st) (oqLocalSSRC st) [] [] seg
       (padding_len (of_nat (12 + length seg)) (oqPadding st)) # plain_wires st stamp False (sq + 1) segs"

lemma plain_wires_cong:
  "oqPayloadType st' = oqPayloadType st \<Longrightarrow> oqInitialTimestamp st' = oqInitialTimestamp st \<Longrightarrow> oqLocalSSRC st' = oqLocalSSRC st \<Longrightarrow>
   oqPadding st' = oqPadding st \<Longrightarrow> plain_wires st' stamp mark sq segs = plain_wires st stamp mark sq segs"
  by (induction segs arbitrary: mark sq) auto

lemma make_packets_plain:
  fixes st :: "('na, 'ak, 'hm) OutQueue"
  shows "getOutQueueCryptoContext (oqLocalSSRC st) (oqContexts st) = None \<Longrightarrow> getOutQueueCryptoContext 0 (oqContexts st) = None \<Longrightarrow>
    sendable st \<Longrightarrow> \<forall>x\<in>set segs. length x < 2 ^ 20 \<Longrightarrow>
    \<exists>ps st'. make_packets E stamp first segs st = Some (ps, st') \<and>
      map (\<lambda>p. newIncomingRTPPkt (getRawPacketSrtp p)) ps = map Some (plain_wires st stamp (first \<and> oqMarked st) (oqSeq st) segs) \<and>
      map getRawPacketSrtp ps = map pbuffer (plain_wires st stamp (first \<and> oqMarked st) (oqSeq st) segs)"
proof (induction segs arbitrary: st first)
  case (Cons seg segs)
  let ?st = "st\<lparr>oqSeq := oqSeq st + 1, oqMarked := oqMarked st \<and> \<not> first\<rparr>"
  let ?pad = "padding_len (of_nat (12 + length seg)) (oqPadding st)"
  define p where "p = send_pkt (first \<and> oqMarked st) (oqPayloadType st) (oqSeq st) (stamp + oqInitialTimestamp st) (oqLocalSSRC st)
    (newOutgoingRTPPkt_ext (ceMem E) [] [] seg (oqPadding st) None)"
  have l: "length seg < 2 ^ 20" using Cons.prems(4) by simp
  have "newOutgoingRTPPkt (ceMem E) seg (oqPadding st) None = newOutgoingRTPPkt_ext (ceMem E) [] [] seg (oqPadding st) None"
    by (rule newOutgoing_ext) (use l in auto)
  then have np: "next_packet E stamp first seg None st = Some (p, ?st)"
    using Cons.prems(3) by (cases first; cases "oqMarked st") (simp_all add: next_packet_def Let_def sendable_def srtp_room_def p_def)
  have sel: "select_out E st = Some (None, st)" using Cons.prems(1,2) by (simp add: select_out_def)
  obtain T where T: "pbuffer p = rtp_wire (first \<and> oqMarked st) (oqPayloadType st) (oqSeq st) (stamp + oqInitialTimestamp st) (oqLocalSSRC st) [] [] seg ?pad @ T"
    "unat (ptotal p) = length (rtp_wire (first \<and> oqMarked st) (oqPayloadType st) (oqSeq st) (stamp + oqInitialTimestamp st) (oqLocalSSRC st) [] [] seg ?pad)"
    "srtpLength p = 0"
    by (rule out_ext_buffer [of "[]" "[]" seg 0 None ?pad "oqPadding st" p]) (use l p_def in auto)
  then have w: "getRawPacketSrtp p = rtp_wire (first \<and> oqMarked st) (oqPayloadType st) (oqSeq st) (stamp + oqInitialTimestamp st) (oqLocalSSRC st) [] [] seg ?pad"
    by (simp add: getRawPacketSrtp_def getRawPacketSizeSrtp_def)
  have pw: "newIncomingRTPPkt (getRawPacketSrtp p) = Some (parsed_wire (first \<and> oqMarked st) (oqPayloadType st) (oqSeq st)
      (stamp + oqInitialTimestamp st) (oqLocalSSRC st) [] [] seg ?pad)"
    unfolding w using Cons.prems(3) by (intro parse_wire) (auto simp: sendable_def valid_hdrext_def)
  have "\<exists>ps st'. make_packets E stamp False segs ?st = Some (ps, st') \<and>
      map (\<lambda>p. newIncomingRTPPkt (getRawPacketSrtp p)) ps = map Some (plain_wires ?st stamp (False \<and> oqMarked ?st) (oqSeq ?st) segs) \<and>
      map getRawPacketSrtp ps = map pbuffer (plain_wires ?st stamp (False \<and> oqMarked ?st) (oqSeq ?st) segs)"
    by (rule Cons.IH) (use Cons.prems in \<open>auto simp: sendable_def\<close>)
  moreover have "plain_wires ?st stamp (False \<and> oqMarked ?st) (oqSeq ?st) segs = plain_wires st stamp False (oqSeq st + 1) segs"
    by (simp, rule plain_wires_cong) simp_all
  ultimately show ?case using sel np pw w by (auto simp: parsed_wire_def)
qed simp

lemma plain_wires_fields:
  assumes "sendable st"
  shows "\<forall>x\<in>set segs. length x < 2 ^ 20 \<Longrightarrow> map getPayload (plain_wires st stamp mark sq segs) = segs \<and>
    map getSeqNum (plain_wires st stamp mark sq segs) = map (\<lambda>j. sq + of_nat j) [0..<length segs] \<and>
    map isMarked (plain_wires st stamp mark sq segs) = (if segs = [] then [] else mark # replicate (length segs - 1) False) \<and>
    (\<forall>ip\<in>set (plain_wires st stamp mark sq segs). headerValid ip \<and> cachedSSRC ip = oqLocalSSRC st \<and>
      getTimestamp ip = stamp + oqInitialTimestamp st \<and> getPayloadType ip = oqPayloadType st)"
proof (induction segs arbitrary: mark sq)
  case (Cons seg segs)
  have pt: "oqPayloadType st < 128" using assms by (simp add: sendable_def)
  have b: "12 + 4 * length ([] :: u32 list) + length ([] :: byte list) + length seg + 256 < 2 ^ 32" using Cons.prems by auto
  note f = parsed_fields [OF _ pt b refl]
  have IH: "map getPayload (plain_wires st stamp False (sq + 1) segs) = segs \<and>
    map getSeqNum (plain_wires st stamp False (sq + 1) segs) = map (\<lambda>j. sq + 1 + of_nat j) [0..<length segs] \<and>
    map isMarked (plain_wires st stamp False (sq + 1) segs) = (if segs = [] then [] else False # replicate (length segs - 1) False) \<and>
    (\<forall>ip\<in>set (plain_wires st stamp False (sq + 1) segs). headerValid ip \<and> cachedSSRC ip = oqLocalSSRC st \<and>
      getTimestamp ip = stamp + oqInitialTimestamp st \<and> getPayloadType ip = oqPayloadType st)"
    by (rule Cons.IH) (use Cons.prems in simp)
  have s: "map (\<lambda>j. sq + of_nat j) [0..<length (seg # segs)] = sq # map (\<lambda>j. sq + 1 + of_nat j) [0..<length segs]"
    by (simp add: map_upt_Suc algebra_simps del: upt_Suc)
  have h: "getSeqNum (parsed_wire m t x y z [] [] d c) = x" "headerValid (parsed_wire m t x y z [] [] d c)"
    "cachedSSRC (parsed_wire m t x y z [] [] d c) = z" "getTimestamp (parsed_wire m t x y z [] [] d c) = y" for m t x y z d c
    by (simp_all add: parsed_wire_def getSeqNum_def getTimestamp_def)
  have r: "(if segs = [] then [] else False # replicate (length segs - 1) False) = replicate (length segs) False" by (cases segs) simp_all
  show ?case unfolding s plain_wires.simps list.map f [simplified] h using IH r by (auto simp: f h)
qed simp

lemma putData_dispatch:
  fixes st :: "('na, 'ak, 'hm) OutQueue"
  assumes "out_holds (oqList st) []" "0 < oqMaxSegment st" "data \<noteq> []"
    "make_packets E stamp True (segments (oqMaxSegment st) data) st = Some (ps, st')"
  shows "\<exists>st1 st2. putData E stamp (Some data) st = Some st1 \<and> dispatch_times (length ps) st1 = Some st2 \<and> \<not> isSending (oqList st2) \<and>
    oqSent st2 = oqSent st @ concat (map (to_all (oqDestinations st)) (map getRawPacketSrtp ps)) \<and>
    oqPacketCount st2 = oqPacketCount st + of_nat (length ps)"
proof -
  obtain q where q: "put_loop E stamp data 0 st = Some (st'\<lparr>oqList := q\<rparr>)" "out_holds q ps"
    using put_loop_refines [OF assms(2,1), where E = E and stamp = stamp and offset = 0 and data = data] assms(4) by auto
  obtain m where m: "st' = st\<lparr>oqSeq := oqSeq st + of_nat (length (segments (oqMaxSegment st) data)), oqMarked := m, oqEnv := oqEnv st', oqContexts := oqContexts st'\<rparr>"
    using make_packets_frame [OF assms(4)] by blast
  have fr: "oqSent st' = oqSent st" "oqDestinations st' = oqDestinations st" "oqPacketCount st' = oqPacketCount st" by (subst m, simp)+
  have "out_holds (oqList (st'\<lparr>oqList := q\<rparr>)) (ps @ [])" using q(2) by simp
  from dispatch_times_sends [OF this] obtain st2 where "dispatch_times (length ps) (st'\<lparr>oqList := q\<rparr>) = Some st2" "out_holds (oqList st2) []"
    "oqSent st2 = oqSent st @ concat (map (\<lambda>p. to_all (oqDestinations st) (getRawPacketSrtp p)) ps)"
    "oqPacketCount st2 = oqPacketCount st + of_nat (length ps)" using fr by auto
  then show ?thesis using q(1) assms(3) isSending_holds [of "oqList st2" "[]"]
    by (intro exI [of _ "st'\<lparr>oqList := q\<rparr>"] exI [of _ st2]) (simp add: putData_def comp_def)
qed

text \<open>
  C7: plain data arrives. With an empty queue and no crypto context, whatever is put into the queue is cut into packets and sent, in order, to every
  destination; the datagrams parse on the other side as packets with valid headers, consecutive sequence numbers from the next one, the timestamp, source and payload type
  of the sender, the marker on the first one only if a mark was pending, and payloads of at most the segment size that make up the data.
\<close>

theorem plain_data_delivery:
  fixes st :: "('na, 'ak, 'hm) OutQueue"
  assumes "out_holds (oqList st) []" "sendable st" "0 < oqMaxSegment st" "oqMaxSegment st < 2 ^ 20" "data \<noteq> []"
    "getOutQueueCryptoContext (oqLocalSSRC st) (oqContexts st) = None" "getOutQueueCryptoContext 0 (oqContexts st) = None"
  shows "\<exists>st1 st2 ws ips. putData E stamp (Some data) st = Some st1 \<and> dispatch_times (length ws) st1 = Some st2 \<and> \<not> isSending (oqList st2) \<and>
    oqSent st2 = oqSent st @ concat (map (to_all (oqDestinations st)) ws) \<and> map newIncomingRTPPkt ws = map Some ips \<and>
    concat (map getPayload ips) = data \<and> map getSeqNum ips = map (\<lambda>j. oqSeq st + of_nat j) [0..<length ips] \<and>
    map isMarked ips = oqMarked st # replicate (length ips - 1) False \<and>
    (\<forall>ip\<in>set ips. headerValid ip \<and> cachedSSRC ip = oqLocalSSRC st \<and> getTimestamp ip = stamp + oqInitialTimestamp st \<and>
      getPayloadType ip = oqPayloadType st \<and> length (getPayload ip) \<le> oqMaxSegment st)"
proof -
  let ?segs = "segments (oqMaxSegment st) data"
  let ?ips = "plain_wires st stamp (True \<and> oqMarked st) (oqSeq st) ?segs"
  have sz: "\<forall>x\<in>set ?segs. length x < 2 ^ 20" using segments_sizes assms(4) by fastforce
  obtain ps st' where ps: "make_packets E stamp True ?segs st = Some (ps, st')"
    "map (\<lambda>p. newIncomingRTPPkt (getRawPacketSrtp p)) ps = map Some ?ips" using make_packets_plain [OF assms(6,7,2) sz] by blast
  note f = plain_wires_fields [OF assms(2) sz, of stamp "True \<and> oqMarked st" "oqSeq st"]
  have ne: "?segs \<noteq> []" using concat_segments [OF assms(3), of data] assms(5) by auto
  have mp: "map getPayload ?ips = ?segs" using f by blast
  then have li: "length ?ips = length ?segs" using length_map [of getPayload ?ips] by simp
  have pl: "length (getPayload ip) \<le> oqMaxSegment st" if "ip \<in> set ?ips" for ip
  proof -
    have "getPayload ip \<in> set (map getPayload ?ips)" using that by simp
    then show ?thesis using segments_sizes [of "getPayload ip"] unfolding mp by blast
  qed
  from putData_dispatch [OF assms(1,3,5) ps(1)] obtain st1 st2 where "putData E stamp (Some data) st = Some st1"
    "dispatch_times (length ps) st1 = Some st2" "\<not> isSending (oqList st2)"
    "oqSent st2 = oqSent st @ concat (map (to_all (oqDestinations st)) (map getRawPacketSrtp ps))" by blast
  moreover have "map newIncomingRTPPkt (map getRawPacketSrtp ps) = map Some ?ips" unfolding map_map comp_def by (rule ps(2))
  moreover have "concat (map getPayload ?ips) = data" unfolding mp by (rule concat_segments [OF assms(3)])
  moreover have "map getSeqNum ?ips = map (\<lambda>j. oqSeq st + of_nat j) [0..<length ?ips]" unfolding li using f by blast
  moreover have "map isMarked ?ips = oqMarked st # replicate (length ?ips - 1) False" unfolding li using f ne by simp
  moreover have "\<forall>ip\<in>set ?ips. headerValid ip \<and> cachedSSRC ip = oqLocalSSRC st \<and> getTimestamp ip = stamp + oqInitialTimestamp st \<and>
      getPayloadType ip = oqPayloadType st \<and> length (getPayload ip) \<le> oqMaxSegment st" using f pl by blast
  ultimately show ?thesis using length_map [of getRawPacketSrtp ps]
    by (intro exI [of _ st1] exI [of _ st2] exI [of _ "map getRawPacketSrtp ps"] exI [of _ ?ips] conjI) simp_all
qed

definition sample_send_env :: "(byte list, byte list \<times> byte list) ctl_env" where
  "sample_send_env = \<lparr>ceAes = sample_aes, ceHmac = sample_hmac, ceMem = \<lambda>_. 0, ceSl = 0\<rparr>"

definition sample_sender :: "(byte list, byte list \<times> byte list) CryptoContext list \<Rightarrow> (unit, byte list, byte list \<times> byte list) OutQueue" where
  "sample_sender ccs = (sample_oq \<lparr>outHeap = Map.empty, nextOut = 0, sendFirst = None, sendLast = None\<rparr>)
     \<lparr>oqMaxSegment := 2, oqContexts := ccs, oqDestinations := [\<lparr>destAddress = (), destDataPort = 5004, destControlPort = 5005\<rparr>]\<rparr>"

lemma sample_sender_ok:
  "out_holds (oqList (sample_sender ccs)) []" "sendable (sample_sender ccs)" "oqMaxSegment (sample_sender ccs) = 2" "oqContexts (sample_sender ccs) = ccs"
  "oqLocalSSRC (sample_sender ccs) = 7" "oqPadding (sample_sender ccs) = 0" "oqSeq (sample_sender ccs) = 65534"
  using out_holds_new by (simp_all add: sample_sender_def sample_oq_def newOutgoingDataQueue_def sendable_def)

theorem plain_data_delivery_witness:
  "let st = sample_sender [] in
   \<exists>st1 st2 ws ips. putData sample_send_env 160 (Some [1, 2, 3, 4, 5]) st = Some st1 \<and> dispatch_times (length ws) st1 = Some st2 \<and> \<not> isSending (oqList st2) \<and>
    oqSent st2 = oqSent st @ concat (map (to_all (oqDestinations st)) ws) \<and> map newIncomingRTPPkt ws = map Some ips \<and>
    concat (map getPayload ips) = [1, 2, 3, 4, 5] \<and> map getSeqNum ips = map (\<lambda>j. oqSeq st + of_nat j) [0..<length ips] \<and>
    map isMarked ips = oqMarked st # replicate (length ips - 1) False \<and>
    (\<forall>ip\<in>set ips. headerValid ip \<and> cachedSSRC ip = oqLocalSSRC st \<and> getTimestamp ip = 160 + oqInitialTimestamp st \<and>
      getPayloadType ip = oqPayloadType st \<and> length (getPayload ip) \<le> oqMaxSegment st)"
  unfolding Let_def by (rule plain_data_delivery) (simp_all add: sample_sender_ok getOutQueueCryptoContext_def)

text \<open>
  C2: protected data arrives. Two sides make contexts from the same parameters for AES or Twofish in counter mode, with keys of 16 or 32 bytes and a tag length of 1 to 20 bytes, and derive their
  keys; the sender registers its one for its source. Then whatever is put into the empty queue of a sender without padding, for every size of segment below one megabyte, time
  stamp and pending mark, and across wrap-arounds of the sequence number up to the end of the range of the 48-bit index, is sent to every destination,
  and the receiver that unprotects the datagrams in order accepts each of them and gets payloads that make up the data.
\<close>

theorem protected_data_delivery:
  fixes st :: "('na, 'ak, 'hm) OutQueue"
  assumes "block_cipher (AES_encrypt (ceAes E))" "hmac_ok (ceHmac E) holds" "env_ok e1" "env_ok e2"
    and "ea = SrtpEncryptionAESCM \<or> ea = SrtpEncryptionTWOCM"
    and "length mk \<in> {16, 32}" "14 \<le> length ms" "ekl \<in> {16, 32}" "akl < 2 ^ 20" "14 \<le> skl" "skl \<le> ekl" "0 < tgl" "tgl \<le> 20"
    and "s0 = newCryptoContext mem1 (oqLocalSSRC st) r kdr ea aa mk ms ekl akl skl tgl"
    and "r0 = newCryptoContext mem2 ssrc2 r kdr ea aa mk ms ekl akl skl tgl"
    and derive: "deriveSrtpKeys (ceAes E) (ceHmac E) e1 s0 i = Some (e1', s)" "deriveSrtpKeys (ceAes E) (ceHmac E) e2 r0 i = Some (e2', rc)"
    and st: "out_holds (oqList st) []" "oqContexts st = setOutQueueCryptoContext s ccs" "sendable st" "oqPadding st = 0"
      "0 < oqMaxSegment st" "oqMaxSegment st < 2 ^ 20" "data \<noteq> []" "getOutQueueCryptoContext (oqLocalSSRC st) ccs = None"
    and len: "unat (packet_index r (oqSeq st)) + length data \<le> 2 ^ 48"
  shows "\<exists>st1 st2 ws ds. putData E stamp (Some data) st = Some st1 \<and> dispatch_times (length ws) st1 = Some st2 \<and> \<not> isSending (oqList st2) \<and>
    oqSent st2 = oqSent st @ concat (map (to_all (oqDestinations st)) ws) \<and>
    srtp_receive (ceAes E) (ceHmac E) mem rc ws = Some (map (\<lambda>d. (1, d)) ds) \<and> concat ds = data \<and> (\<forall>d\<in>set ds. length d \<le> oqMaxSegment st)"
proof -
  let ?segs = "segments (oqMaxSegment st) data"
  obtain k where k: "in_sync (ceAes E) holds k s rc (oqSeq st)" "roc s = r" "ssrcCtx s = oqLocalSSRC st"
    using derived_in_sync [OF assms(1-15), where i = i] derive by (metis option.inject prod.inject)
  have find: "find_ctx ssrcCtx x xs = None \<Longrightarrow> erase_ctx ssrcCtx x xs = xs \<and> find_ctx ssrcCtx x (xs @ [c]) = (if ssrcCtx c = x then Some c else None)"
    for x xs and c :: "('ak, 'hm) CryptoContext" by (induction xs) (auto split: if_splits)
  have g: "getOutQueueCryptoContext (oqLocalSSRC st) (oqContexts st) = Some s"
    using find [of "oqLocalSSRC st" ccs s] st(2,8) k(3) by (simp add: getOutQueueCryptoContext_def setOutQueueCryptoContext_def)
  have sz: "\<forall>x\<in>set ?segs. length x < 2 ^ 20" using segments_sizes st(6) by fastforce
  have nx: "next_index s (oqSeq st) + length ?segs \<le> 281474976710656"
    using length_segments [of "oqMaxSegment st" data] len k(2) by (simp add: next_index_def)
  obtain ps st' where ps: "make_packets E stamp True ?segs st = Some (ps, st')"
    "srtp_receive (ceAes E) (ceHmac E) mem rc (map getRawPacketSrtp ps) = Some (map (\<lambda>d. (1, d)) ?segs)"
    using make_packets_secure [OF assms(2) k(1) g st(3,4) sz nx] by blast
  from putData_dispatch [OF st(1,5,7) ps(1)] obtain st1 st2 where "putData E stamp (Some data) st = Some st1"
    "dispatch_times (length ps) st1 = Some st2" "\<not> isSending (oqList st2)"
    "oqSent st2 = oqSent st @ concat (map (to_all (oqDestinations st)) (map getRawPacketSrtp ps))" by blast
  then show ?thesis using ps(2) concat_segments [OF st(5), of data] segments_sizes
    by (intro exI [of _ st1] exI [of _ st2] exI [of _ "map getRawPacketSrtp ps"] exI [of _ ?segs]) auto
qed

theorem protected_data_delivery_witness:
  "\<exists>s rc st1 st2 ws ds. putData sample_send_env 160 (Some [1, 2, 3, 4, 5]) (sample_sender (setOutQueueCryptoContext s [])) = Some st1 \<and>
    dispatch_times (length ws) st1 = Some st2 \<and> \<not> isSending (oqList st2) \<and>
    srtp_receive sample_aes sample_hmac (\<lambda>_. 0) rc ws = Some (map (\<lambda>d. (1, d)) ds) \<and> concat ds = [1, 2, 3, 4, 5]"
proof -
  let ?s0 = "newCryptoContext (\<lambda>_. 1) 7 4 0 SrtpEncryptionTWOCM SrtpAuthenticationSkeinHmac (replicate 16 1) (replicate 14 2) 16 20 14 8"
  let ?r0 = "newCryptoContext (\<lambda>_. 2) 9 4 0 SrtpEncryptionTWOCM SrtpAuthenticationSkeinHmac (replicate 16 1) (replicate 14 2) 16 20 14 8"
  have pre: "SrtpEncryptionTWOCM = SrtpEncryptionAESCM \<or> SrtpEncryptionTWOCM = SrtpEncryptionTWOCM" "length (replicate 16 (1 :: byte)) \<in> {16, 32}"
    "14 \<le> length (replicate 14 (2 :: byte))" "16 \<in> {16, 32 :: nat}" "20 < (2 :: nat) ^ 20" "14 \<le> (14 :: nat)" "14 \<le> (16 :: nat)" "0 < (8 :: nat)" "8 \<le> (20 :: nat)"
    by simp_all
  obtain e1' s e2' rc where d: "deriveSrtpKeys sample_aes sample_hmac sample_env ?s0 0 = Some (e1', s)"
    "deriveSrtpKeys sample_aes sample_hmac sample_env ?r0 0 = Some (e2', rc)"
    by (rule derived_in_sync [OF sample_aes_block_cipher hmac_ok_sample env_ok_sample env_ok_sample pre refl refl, where i = 0]) blast
  let ?st = "sample_sender (setOutQueueCryptoContext s [])"
  have "\<exists>st1 st2 ws ds. putData sample_send_env 160 (Some [1, 2, 3, 4, 5]) ?st = Some st1 \<and> dispatch_times (length ws) st1 = Some st2 \<and>
    \<not> isSending (oqList st2) \<and> oqSent st2 = oqSent ?st @ concat (map (to_all (oqDestinations ?st)) ws) \<and>
    srtp_receive (ceAes sample_send_env) (ceHmac sample_send_env) (\<lambda>_. 0) rc ws = Some (map (\<lambda>d. (1, d)) ds) \<and> concat ds = [1, 2, 3, 4, 5] \<and>
    (\<forall>d\<in>set ds. length d \<le> oqMaxSegment ?st)"
    by (rule protected_data_delivery [where ?e1.0 = sample_env and ?mem1.0 = "\<lambda>_. 1" and ?mem2.0 = "\<lambda>_. 2" and ?ssrc2.0 = 9 and ?e2.0 = sample_env and holds = sample_holds and s = s and ccs = "[]" and i = 0
          and ea = SrtpEncryptionTWOCM and aa = SrtpAuthenticationSkeinHmac and mk = "replicate 16 1" and ms = "replicate 14 2" and ekl = 16
          and akl = 20 and skl = 14 and tgl = 8 and kdr = 0 and r = 4 and ?s0.0 = ?s0 and ?r0.0 = ?r0])
      (use d in \<open>simp_all add: sample_sender_ok sample_send_env_def sample_aes_block_cipher hmac_ok_sample env_ok_sample getOutQueueCryptoContext_def unat_packet_index\<close>)
  moreover have "ceAes sample_send_env = sample_aes" "ceHmac sample_send_env = sample_hmac" by (simp_all add: sample_send_env_def)
  ultimately show ?thesis by metis
qed

section \<open>Destinations\<close>

lemma forget_added:
  assumes "\<forall>d\<in>set (oqDestinations st). \<not> (destAddress d = ia \<and> destDataPort d = dp \<and> destControlPort d = control_port dp cp)"
    "addDestination ia dp cp st = (ok, st1)"
  shows "ok \<and> fst (forgetDestination ia dp cp st1) \<and> oqDestinations (snd (forgetDestination ia dp cp st1)) = oqDestinations st"
proof -
  have "removeDestinationFromList ia dp c (ds @ [\<lparr>destAddress = ia, destDataPort = dp, destControlPort = c\<rparr>]) = (True, ds)"
    if "\<forall>d\<in>set ds. \<not> (destAddress d = ia \<and> destDataPort d = dp \<and> destControlPort d = c)" for c and ds :: "'a TransportAddress list"
    using that by (induction ds) auto
  then show ?thesis using assms by (auto simp: addDestination_def addDestinationToList_def forgetDestination_def Let_def split: if_splits)
qed

end
