(* ===== verification/Data_Queue.thy ===== *)
theory Data_Queue
  imports Md5_Digest Rtcp_Receive Outgoing_Queue
begin

text \<open>
  The data queue of a session, \<^verbatim>\<open>RTPQueueBase\<close> and \<^verbatim>\<open>RTPDataQueue\<close> of \<^verbatim>\<open>src/src/queue.cpp\<close>, \<^verbatim>\<open>src/src/ccrtp/queuebase.h\<close> and
  \<^verbatim>\<open>src/src/ccrtp/ioqueue.h\<close>, with the random numbers of the library. It joins the incoming and the outgoing queue. What the system gives
  (the bytes of \<^verbatim>\<open>/dev/urandom\<close>, the time, addresses of objects, padding of structures) is an argument; memory is little endian, pointers and the members of a
  \<^verbatim>\<open>timeval\<close> have 64 bits.
\<close>

section \<open>Random numbers\<close>

definition random_message :: "timeval \<Rightarrow> u64 \<Rightarrow> byte list \<Rightarrow> (nat \<Rightarrow> byte) \<Rightarrow> byte list" where
  "random_message now address cname pad =
     (le64 (of_int (tv_sec now)) @ le64 (of_int (tv_usec now)))[0 := of_int (tv_sec now * tv_usec now)] @ le64 address @ take 10 (cname @ [0]) @ map pad [0..<6]"

text \<open>Ten bytes are copied from the CNAME; when it is shorter than nine characters the copy reads beyond it.\<close>

definition MD5BasedRandom32 :: "(nat \<Rightarrow> byte) \<Rightarrow> timeval \<Rightarrow> u64 \<Rightarrow> byte list \<Rightarrow> (nat \<Rightarrow> byte) \<Rightarrow> u32 option" where
  "MD5BasedRandom32 mem now address cname pad =
     (if length (cname @ [0]) < 10 then None
      else let md5 = putDigest (random_message now address cname pad) (newMD5Digest mem);
               digest = fst (getDigest md5)
           in Some (fold (\<lambda>i result. result XOR from_le32 (drop (4 * i) digest)) [0..<4] 0))"

definition random32 :: "u32 option \<Rightarrow> u32 option \<Rightarrow> u32 option" where
  "random32 urandom fallback = (case urandom of Some number \<Rightarrow> Some number | None \<Rightarrow> fallback)"

definition random16 :: "u32 \<Rightarrow> u16" where
  "random16 r32 = ucast (r32 AND drop_bit 16 r32)"

section \<open>The queue\<close>

record RTPQueueBase =
  rqLocalSSRC :: u32
  rqLocalSSRCNetwork :: "byte list"
  rqClockRate :: u32
  rqPayloadType :: byte
  rqInitialTime :: timeval

definition setLocalSSRC :: "u32 \<Rightarrow> RTPQueueBase \<Rightarrow> RTPQueueBase" where
  "setLocalSSRC ssrc q = q\<lparr>rqLocalSSRC := ssrc, rqLocalSSRCNetwork := be32 ssrc\<rparr>"

definition setPayloadFormat :: "PayloadFormat \<Rightarrow> RTPQueueBase \<Rightarrow> RTPQueueBase" where
  "setPayloadFormat pf q = q\<lparr>rqPayloadType := payloadType pf, rqClockRate := RTPClockRate pf\<rparr>"

definition sptPCMU :: byte where "sptPCMU = 0"

text \<open>\<open>q\<close> is the memory of the new object; \<open>ssrc\<close> is \<^term>\<open>None\<close> for a null pointer.\<close>

definition newRTPQueueBase :: "u32 \<Rightarrow> timeval \<Rightarrow> u32 option \<Rightarrow> RTPQueueBase \<Rightarrow> RTPQueueBase" where
  "newRTPQueueBase r32 now ssrc q =
     (setPayloadFormat (newStaticPayloadFormat sptPCMU) (setLocalSSRC (case ssrc of None \<Rightarrow> r32 | Some s \<Rightarrow> s) q))\<lparr>rqInitialTime := now\<rparr>"

definition getCurrentTimestamp :: "RTPQueueBase \<Rightarrow> timeval \<Rightarrow> u32" where
  "getCurrentTimestamp q now =
     (let result = of_int (tv_usec now - tv_usec (rqInitialTime q)) :: u32;
          result = result * (rqClockRate q div 1000);
          result = of_int (tdiv (sint result) 1000)
      in result + of_int ((tv_sec now - tv_sec (rqInitialTime q)) * uint (rqClockRate q)))"

datatype Tos = tosBestEffort | tosEnhanced

record ('na, 'ak, 'hm) RTPDataQueue =
  dqIn :: "('na, 'ak, 'hm) InQueue"
  dqOut :: "('na, 'ak, 'hm) OutQueue"
  dataServiceActive :: bool
  typeOfService :: Tos
  sessionBw :: u32

definition defaultSessionBw :: u32 where "defaultSessionBw = 64000"

definition initQueue :: "('na, 'ak, 'hm) RTPDataQueue \<Rightarrow> ('na, 'ak, 'hm) RTPDataQueue" where
  "initQueue q = q\<lparr>dataServiceActive := False, typeOfService := tosBestEffort, sessionBw := defaultSessionBw\<rparr>"

definition enableStack :: "('na, 'ak, 'hm) RTPDataQueue \<Rightarrow> ('na, 'ak, 'hm) RTPDataQueue" where
  "enableStack q = q\<lparr>dataServiceActive := True\<rparr>"

definition disableStack :: "('na, 'ak, 'hm) RTPDataQueue \<Rightarrow> ('na, 'ak, 'hm) RTPDataQueue" where
  "disableStack q = q\<lparr>dataServiceActive := False\<rparr>"

definition endQueue :: "('na, 'ak, 'hm) RTPDataQueue \<Rightarrow> ('na, 'ak, 'hm) RTPDataQueue option" where
  "endQueue q =
     do { let q = q\<lparr>dataServiceActive := False\<rparr>;
          out \<leftarrow> purgeOutgoingQueue (dqOut q);
          pkts \<leftarrow> purgeIncomingQueue (iqPackets (dqIn q));
          Some (q\<lparr>dqOut := out\<lparr>oqContexts := removeOutQueueCryptoContext None (oqContexts out)\<rparr>,
                  dqIn := (dqIn q)\<lparr>iqPackets := pkts, iqContexts := removeInQueueCryptoContext None (iqContexts (dqIn q))\<rparr>\<rparr>) }"

section \<open>Random numbers\<close>

lemma length_random_message: "9 \<le> length cname \<Longrightarrow> length (random_message now address cname pad) = 40"
  by (simp add: random_message_def le64_def le32_def)

text \<open>
  The random number that replaces the one of the system is the exclusive or of the four words of the MD5 digest (RFC 1321) of the message made of the time, an
  address and the CNAME; with a CNAME of less than nine characters the message is read from beyond the string.
\<close>

theorem MD5BasedRandom32_value:
  "MD5BasedRandom32 mem now address cname pad =
     (if length cname < 9 then None
      else let d = md5_rfc1321 (random_message now address cname pad)
           in Some (from_le32 d XOR from_le32 (drop 4 d) XOR from_le32 (drop 8 d) XOR from_le32 (drop 12 d)))"
proof (cases "length cname < 9")
  case False
  let ?m = "random_message now address cname pad"
  have l: "8 * length (concat (map put_bytes [Inl ?m])) < 2 ^ 32" using length_random_message [of cname] False by simp
  have "md5_holds True [] (newMD5Digest mem)" by (rule newMD5Digest_holds)
  then have "md5_holds True ?m (putDigest ?m (newMD5Digest mem))" using putDigest_holds by fastforce
  from md5_commit_ok(1) [OF this] l have "fst (getDigest (putDigest ?m (newMD5Digest mem))) = md5_rfc1321 ?m" by (simp add: getDigest_def Let_def)
  then show ?thesis using False by (simp add: MD5BasedRandom32_def Let_def upt_rec xor.assoc)
qed (simp add: MD5BasedRandom32_def)

text \<open>A bit of the 16 bit number is set for a quarter of the 32 bit numbers, not for half of them.\<close>

lemma card_bit_half:
  fixes P :: "u32 set"
  assumes "j < 32" "\<And>r. r \<in> P \<longleftrightarrow> flip_bit j r \<in> P"
  shows "2 * card {r \<in> P. bit r j} = card P"
proof -
  have inv: "flip_bit j (flip_bit j r) = r" for r :: u32 by (rule bit_word_eqI) (auto simp: bit_flip_bit_iff)
  have fl: "bit (flip_bit j r) j \<longleftrightarrow> \<not> bit r j" for r :: u32 using assms(1) by (simp add: bit_flip_bit_iff)
  have "bij_betw (flip_bit j) {r \<in> P. bit r j} {r \<in> P. \<not> bit r j}"
    by (rule bij_betw_byWitness [where f' = "flip_bit j"]) (use inv fl assms(2) in auto)
  then have "card {r \<in> P. bit r j} = card {r \<in> P. \<not> bit r j}" by (rule bij_betw_same_card)
  moreover have "card P = card {r \<in> P. bit r j} + card {r \<in> P. \<not> bit r j}"
    by (subst card_Un_disjoint [symmetric]) (auto intro: arg_cong [of _ _ card])
  ultimately show ?thesis by simp
qed

theorem random16_bit_quarter:
  assumes "i < 16"
  shows "card {r. bit (random16 r) i} = 2 ^ 30"
proof -
  have "{r. bit (random16 r) i} = {r \<in> {r :: u32. bit r i}. bit r (i + 16)}"
    using assms by (auto simp: random16_def bit_unsigned_iff bit_and_iff bit_drop_bit_eq ac_simps)
  moreover have "2 * card {r \<in> {r :: u32. bit r i}. bit r (i + 16)} = card {r :: u32. bit r i}"
    by (rule card_bit_half) (use assms in \<open>auto simp: bit_flip_bit_iff\<close>)
  moreover have "2 * card {r \<in> UNIV. bit (r :: u32) i} = card (UNIV :: u32 set)"
    by (rule card_bit_half) (use assms in auto)
  ultimately show ?thesis by (simp add: card_word)
qed

section \<open>The clock of the queue\<close>

lemma sr_timestamp_current:
  "sr_timestamp si now = getCurrentTimestamp \<lparr>rqLocalSSRC = s, rqLocalSSRCNetwork = n, rqClockRate = rtpClockRate si, rqPayloadType = p, rqInitialTime = initialTime si\<rparr> now
     + initialTimestamp si"
  by (simp add: sr_timestamp_def getCurrentTimestamp_def Let_def)

lemma tdiv_bound: "\<bar>1000 * tdiv a 1000 - a\<bar> < 1000"
  unfolding tdiv_def by (auto simp: minus_mult_div_eq_mod abs_if)

text \<open>The count of clock units since the start that the timestamp stands for.\<close>

definition clock_units :: "RTPQueueBase \<Rightarrow> timeval \<Rightarrow> int" where
  "clock_units q now = (tv_sec now - tv_sec (rqInitialTime q)) * uint (rqClockRate q) + tdiv ((tv_usec now - tv_usec (rqInitialTime q)) * (uint (rqClockRate q) div 1000)) 1000"

text \<open>
  The timestamp follows the clock. For a clock rate below 2147000 Hz the timestamp is a number of clock units, modulo the width of the field, that differs from the
  time since the start of the queue at the given rate by less than one unit and what the rate exceeds the next lower multiple of 1000 by; it is exact up to rounding
  for a rate in whole kilohertz.
\<close>

theorem current_timestamp_tracks:
  assumes "uint (rqClockRate q) < 2147000" "0 \<le> tv_usec now" "tv_usec now < 1000000" "0 \<le> tv_usec (rqInitialTime q)" "tv_usec (rqInitialTime q) < 1000000"
  shows "getCurrentTimestamp q now = of_int (clock_units q now) \<and>
    \<bar>1000000 * clock_units q now -
      ((tv_sec now - tv_sec (rqInitialTime q)) * 1000000 + (tv_usec now - tv_usec (rqInitialTime q))) * uint (rqClockRate q)\<bar>
    < 1000000 * (1 + uint (rqClockRate q) mod 1000)"
proof -
  define u where "u = tv_usec now - tv_usec (rqInitialTime q)"
  define s where "s = tv_sec now - tv_sec (rqInitialTime q)"
  define r where "r = uint (rqClockRate q)"
  have u: "\<bar>u\<bar> < 1000000" using assms(2-5) by (auto simp: u_def)
  have r: "0 \<le> r" "r < 2147000" using assms(1) by (simp_all add: r_def)
  have q: "0 \<le> r div 1000" "r div 1000 \<le> 2146" using r by auto
  have "\<bar>u * (r div 1000)\<bar> \<le> 1000000 * 2146" unfolding abs_mult using u q by (intro mult_mono) auto
  then have b: "- (2 ^ 31) \<le> u * (r div 1000)" "u * (r div 1000) < 2 ^ 31" by auto
  have "(of_int u :: u32) * (rqClockRate q div 1000) = of_int (u * (r div 1000))"
    by (simp add: r_def word_div_def) 
  then have g: "getCurrentTimestamp q now = of_int (s * r + tdiv (u * (r div 1000)) 1000)"
    unfolding getCurrentTimestamp_def Let_def u_def [symmetric] s_def [symmetric] r_def [symmetric] using sint_small [OF b] by (simp add: ac_simps)
  define t where "t = tdiv (u * (r div 1000)) 1000"
  have "\<bar>1000 * t - u * (r div 1000)\<bar> < 1000" unfolding t_def by (rule tdiv_bound)
  then have 1: "\<bar>1000000 * t - u * (1000 * (r div 1000))\<bar> < 1000000" by (simp add: abs_if split: if_splits)
  have "\<bar>u * (r mod 1000)\<bar> \<le> 1000000 * (r mod 1000)" unfolding abs_mult using u by (intro mult_mono) auto
  moreover have "u * r = u * (1000 * (r div 1000)) + u * (r mod 1000)" by (simp flip: distrib_left)
  moreover have "\<bar>x - (a + b)\<bar> < 1000000 * (1 + m)" if "\<bar>x - a\<bar> < 1000000" "\<bar>b\<bar> \<le> 1000000 * m" for x a b m :: int
    using that by (auto simp: abs_if split: if_splits)
  ultimately have "\<bar>1000000 * t - u * r\<bar> < 1000000 * (1 + r mod 1000)" using 1 by metis
  then have "\<bar>1000000 * (s * r + t) - (s * 1000000 + u) * r\<bar> < 1000000 * (1 + r mod 1000)" by (simp add: algebra_simps)
  then show ?thesis using g unfolding clock_units_def u_def [symmetric] s_def [symmetric] r_def [symmetric] t_def by simp
qed

theorem current_timestamp_tracks_witness:
  "let q = newRTPQueueBase 5 \<lparr>tv_sec = 100, tv_usec = 600000\<rparr> (Some 7) \<lparr>rqLocalSSRC = 0, rqLocalSSRCNetwork = [], rqClockRate = 0, rqPayloadType = 3, rqInitialTime = time0\<rparr>;
       now = \<lparr>tv_sec = 102, tv_usec = 100000\<rparr>
   in getCurrentTimestamp q now = 12000 \<and> getCurrentTimestamp q now = of_int (clock_units q now) \<and>
     \<bar>1000000 * clock_units q now - ((102 - 100) * 1000000 + (100000 - 600000)) * 8000\<bar> < 1000000 * (1 + 8000 mod 1000)"
proof -
  define q where "q = newRTPQueueBase 5 \<lparr>tv_sec = 100, tv_usec = 600000\<rparr> (Some 7)
    \<lparr>rqLocalSSRC = 0, rqLocalSSRCNetwork = [], rqClockRate = 0, rqPayloadType = 3, rqInitialTime = time0\<rparr>"
  have q: "rqClockRate q = 8000" "rqInitialTime q = \<lparr>tv_sec = 100, tv_usec = 600000\<rparr>" by (simp_all add: q_def newRTPQueueBase_def setPayloadFormat_def newStaticPayloadFormat_def sptPCMU_def staticAudioTypesRates_def setLocalSSRC_def)
  from current_timestamp_tracks [of q "\<lparr>tv_sec = 102, tv_usec = 100000\<rparr>"] q
  show ?thesis unfolding q_def [symmetric] by (simp add: clock_units_def tdiv_def)
qed

section \<open>Ending\<close>

text \<open>
  C37: ending a queue releases what it holds. Every packet that waits to be sent or to be read is freed, nothing waits any more in either
  direction, no crypto context is left and the queue is not active. The pointer to the last received packet is not reset: it keeps
  the address of the freed link of the last packet.
\<close>

theorem endQueue_releases:
  fixes q :: "('na, 'ak, 'hm) RTPDataQueue"
  assumes "out_holds (oqList (dqOut q)) ps" "q_inv (iqPackets (dqIn q)) gs"
  shows "\<exists>q'. endQueue q = Some q' \<and> \<not> dataServiceActive q' \<and> \<not> isSending (oqList (dqOut q')) \<and> outHeap (oqList (dqOut q')) = Map.empty \<and>
    isWaiting None (iqPackets (dqIn q')) = Some False \<and> (\<forall>a. a \<in> set gs \<longrightarrow> pktHeap (iqPackets (dqIn q')) a = None) \<and>
    recvLast (iqPackets (dqIn q')) = last_or gs None \<and> oqContexts (dqOut q') = [] \<and> iqContexts (dqIn q') = []"
proof -
  obtain o' where o: "purgeOutgoingQueue (dqOut q) = Some ((dqOut q)\<lparr>oqList := o'\<rparr>)" "out_holds o' []" "outHeap o' = Map.empty"
    using purgeOutgoingQueue_empties [OF assms(1)] by blast
  obtain i' where i: "purgeIncomingQueue (iqPackets (dqIn q)) = Some i'" "recvFirst i' = None" "\<forall>a\<in>set gs. pktHeap i' a = None" "recvLast i' = last_or gs None"
    using purge_frees_but_keeps_last [OF assms(2)] by blast
  show ?thesis using o i isSending_holds [OF o(2)]
    by (simp add: endQueue_def removeOutQueueCryptoContext_def removeInQueueCryptoContext_def isWaiting_def)
qed

definition sample_queue :: "(unit, byte list, byte list \<times> byte list) RTPDataQueue" where
  "sample_queue = enableStack (initQueue \<lparr>dqIn = sample_in, dqOut = sample_sender [], dataServiceActive = False, typeOfService = tosEnhanced, sessionBw = 0\<rparr>)"

definition sample_context :: "(byte list, byte list \<times> byte list) CryptoContext" where
  "sample_context = newCryptoContext (\<lambda>_. 0) 7 5 0 SrtpEncryptionAESCM SrtpAuthenticationSha1Hmac (replicate 16 1) (replicate 14 2) 16 20 14 10"

definition sample_busy :: "OutList \<Rightarrow> unit PktQueue \<Rightarrow> (unit, byte list, byte list \<times> byte list) RTPDataQueue" where
  "sample_busy ol pq = enableStack (initQueue \<lparr>dqIn = sample_in\<lparr>iqPackets := pq, iqContexts := [sample_context]\<rparr>,
     dqOut = (sample_sender [sample_context])\<lparr>oqList := ol\<rparr>, dataServiceActive = False, typeOfService = tosEnhanced, sessionBw = 0\<rparr>)"

text \<open>A queue with two packets to send, a packet to read and a context in each direction.\<close>

theorem endQueue_releases_witness:
  "\<exists>q :: (unit, byte list, byte list \<times> byte list) RTPDataQueue. dataServiceActive q \<and> isSending (oqList (dqOut q)) \<and> isWaiting None (iqPackets (dqIn q)) = Some True \<and> pktHeap (iqPackets (dqIn q)) 0 \<noteq> None \<and>
    oqContexts (dqOut q) \<noteq> [] \<and> iqContexts (dqIn q) \<noteq> [] \<and>
    (\<exists>q'. endQueue q = Some q' \<and> \<not> dataServiceActive q' \<and> \<not> isSending (oqList (dqOut q')) \<and>
      outHeap (oqList (dqOut q')) = Map.empty \<and> isWaiting None (iqPackets (dqIn q')) = Some False \<and>
      pktHeap (iqPackets (dqIn q')) 0 = None \<and> recvLast (iqPackets (dqIn q')) = Some 0 \<and> oqContexts (dqOut q') = [] \<and> iqContexts (dqIn q') = [])"
proof -
  obtain ol where ol: "out_holds ol [sample_pkt 160, sample_pkt 320]" using ex_out_holds by blast
  obtain pq :: "unit PktQueue" where pq: "q_inv pq [0]" "dom (pktHeap pq) = {0}" by (rule sample_one)
  let ?q = "sample_busy ol pq"
  have f: "oqList (dqOut ?q) = ol" "iqPackets (dqIn ?q) = pq" "dataServiceActive ?q" "oqContexts (dqOut ?q) = [sample_context]" "iqContexts (dqIn ?q) = [sample_context]"
    by (simp_all add: sample_busy_def enableStack_def initQueue_def sample_sender_def)
  have h: "out_holds (oqList (dqOut ?q)) [sample_pkt 160, sample_pkt 320]" "q_inv (iqPackets (dqIn ?q)) [0]" using ol pq(1) f by simp_all
  have "isSending ol" using isSending_holds [OF ol] by simp
  moreover have "isWaiting None pq = Some True" using q_invD(3) [OF pq(1)] by (simp add: isWaiting_def)
  moreover have "pktHeap pq 0 \<noteq> None" using pq(2) by auto
  ultimately show ?thesis using endQueue_releases [OF h] f by (intro exI [of _ ?q]) simp
qed

end
