(* ===== verification/Rtcp_Service.thy ===== *)
theory Rtcp_Service
  imports Data_Queue
begin


text \<open>
  The RTCP service of a session, \<^verbatim>\<open>QueueRTCPManager\<close> of \<^verbatim>\<open>src/src/control.cpp\<close> as a whole: its constructor and end, the periodic
  \<^verbatim>\<open>controlReceptionService\<close> and \<^verbatim>\<open>controlTransmissionService\<close>, leaving with the back-off of \<^verbatim>\<open>dispatchBYE\<close> and \<^verbatim>\<open>getOnlyBye\<close>, and the filter
  \<^verbatim>\<open>end2EndDelayed\<close>. The state joins those of the sending and the receiving part. What the system gives in a call, the readings of the
  clock, random numbers, the datagrams that are pending, is an argument in the order of the calls; a blocking wait is the time that has passed at the next reading.
\<close>

section \<open>State\<close>

record ('na, 'ak, 'hm) QueueRTCPManager =
  rmIn :: "('na, 'ak, 'hm) CtlIn"
  rmCrypto :: "('ak, 'hm) CtlCrypto"
  rmConfig :: rtcp_config
  rmInterval :: interval_params
  controlServiceActive :: bool
  rmCtrlSendCount :: u32
  rmNextSDES :: nat
  rmLastSendPacketCount :: u32
  rtcpWeSent :: bool
  rmInitial :: bool
  rtcpLastCheck :: timeval
  rtcpCheckInterval :: timeval
  rtcpNextCheck :: timeval
  leavingDelay :: u32
  end2EndDelay :: u32
  rmSent :: "byte list list"

definition defaultEnd2EndDelay :: u32 where "defaultEnd2EndDelay = 0"

text \<open>What a call of the service meets: two readings of the clock, random fractions, the state of the sending queue.\<close>

record ('na, 'ak, 'hm) service_env = "('na, 'ak, 'hm) ctl_in_env" +
  seFloat :: "real \<Rightarrow> real"
  seDouble :: "real \<Rightarrow> real"
  seBuffer :: "nat \<Rightarrow> byte"
  seClock :: "nat \<Rightarrow> timeval"
  seSend :: send_info

text \<open>
  The constructor, given the state of the receiving part that its base classes have built. The version and the source that it writes into the send buffer are written again for
  every packet.
\<close>

definition newQueueRTCPManager ::
  "(real \<Rightarrow> real) \<Rightarrow> timeval \<Rightarrow> ('na, 'ak, 'hm) CtlIn \<Rightarrow> tf_env \<Rightarrow> real \<Rightarrow> rtcp_config \<Rightarrow> ('na, 'ak, 'hm) QueueRTCPManager" where
  "newQueueRTCPManager rnd now inq env bw cfg =
     \<lparr>rmIn = inq\<lparr>ciRecons := \<lparr>rtcpTp = time0, rtcpTc = time0, rtcpTn = time0, rtcpPMembers = 1\<rparr>, ciAvgSize := 28\<rparr>,
      rmCrypto = \<lparr>outCryptoContexts = [], srtcpIndex = 0, ctlTfEnv = env\<rparr>, rmConfig = cfg,
      rmInterval = \<lparr>controlBwFract = rnd 0.05, sessionBandwidth = bw, sendControlBwFract = 0.25, recvControlBwFract = 1 - 0.25, rtcpMinInterval = 5000000\<rparr>,
      controlServiceActive = True, rmCtrlSendCount = 0, rmNextSDES = SDESItemTypeNAME, rmLastSendPacketCount = 0, rtcpWeSent = False, rmInitial = True,
      rtcpLastCheck = timersub now \<lparr>tv_sec = 0, tv_usec = 250000\<rparr>, rtcpCheckInterval = \<lparr>tv_sec = 0, tv_usec = 250000\<rparr>, rtcpNextCheck = now,
      leavingDelay = 1000000, end2EndDelay = defaultEnd2EndDelay, rmSent = []\<rparr>"

definition endQueueRTCPManager :: "('na, 'ak, 'hm) QueueRTCPManager \<Rightarrow> ('na, 'ak, 'hm) QueueRTCPManager" where
  "endQueueRTCPManager m =
     m\<lparr>controlServiceActive := False, rmInterval := (rmInterval m)\<lparr>controlBwFract := 0, sendControlBwFract := 0\<rparr>,
       rmCrypto := (rmCrypto m)\<lparr>outCryptoContexts := removeOutQueueCryptoContextCtrl None (outCryptoContexts (rmCrypto m))\<rparr>,
       rmIn := (rmIn m)\<lparr>ciContexts := removeInQueueCryptoContextCtrl None (ciContexts (rmIn m))\<rparr>\<rparr>"

section \<open>Reception\<close>

text \<open>The datagrams that are taken in: time of arrival, origin, the receive buffer and the length.\<close>

fun take_pending ::
  "nat \<Rightarrow> ('na, 'ak, 'hm) service_env \<Rightarrow> (timeval \<times> 'na \<times> u16 \<times> byte list \<times> nat) list \<Rightarrow> ('na, 'ak, 'hm) CtlIn \<Rightarrow> ('na, 'ak, 'hm) CtlIn outcome" where
  "take_pending fuel E [] st = Returns st"
| "take_pending fuel E ((recvtime, na, tp, buf, len) # ds) st =
     (case takeInControlPacket fuel (ctl_in_env.truncate E) recvtime na tp buf len st of
        Returns st \<Rightarrow> take_pending fuel E ds st
      | Undefined \<Rightarrow> Undefined
      | Loops \<Rightarrow> Loops)"

partial_function (option) next_check :: "timeval \<Rightarrow> timeval \<Rightarrow> timeval \<Rightarrow> timeval \<Rightarrow> (timeval \<times> timeval) option" where
  "next_check tc interval lastCheck nextCheck =
     (let tmp = nextCheck; nextCheck = timeradd lastCheck interval; lastCheck = tmp
      in if timer_ge tc nextCheck then next_check tc interval lastCheck nextCheck else Some (lastCheck, nextCheck))"

definition controlReceptionService ::
  "nat \<Rightarrow> ('na, 'ak, 'hm) service_env \<Rightarrow> timeval \<Rightarrow> (timeval \<times> 'na \<times> u16 \<times> byte list \<times> nat) list \<Rightarrow> ('na, 'ak, 'hm) QueueRTCPManager
   \<Rightarrow> ('na, 'ak, 'hm) QueueRTCPManager outcome" where
  "controlReceptionService fuel E now pending m =
     (if \<not> controlServiceActive m then Returns m
      else let m = m\<lparr>rmIn := (rmIn m)\<lparr>ciRecons := (ciRecons (rmIn m))\<lparr>rtcpTc := now\<rparr>\<rparr>\<rparr> in
        if timer_ge now (rtcpNextCheck m) then
          (case take_pending fuel E pending (rmIn m) of
             Returns st \<Rightarrow>
               (case next_check (rtcpTc (ciRecons st)) (rtcpCheckInterval m) (rtcpLastCheck m) (rtcpNextCheck m) of
                  Some (l, n) \<Rightarrow> Returns (m\<lparr>rmIn := st, rtcpLastCheck := l, rtcpNextCheck := n\<rparr>)
                | None \<Rightarrow> Loops)
           | Undefined \<Rightarrow> Undefined
           | Loops \<Rightarrow> Loops)
        else Returns m)"

section \<open>Transmission\<close>

definition rm_interval :: "('na, 'ak, 'hm) service_env \<Rightarrow> real \<Rightarrow> ('na, 'ak, 'hm) QueueRTCPManager \<Rightarrow> timeval option" where
  "rm_interval E rand m =
     computeRTCPInterval (seFloat E) (seDouble E) rand (rmInterval m) (rtcpWeSent m) (rmInitial m)
       (membersCount (ciMembers (rmIn m))) (activeSenders (ciMembers (rmIn m))) (ciAvgSize (rmIn m))"

definition rm_set_recons :: "reconsInfo \<Rightarrow> ('na, 'ak, 'hm) QueueRTCPManager \<Rightarrow> ('na, 'ak, 'hm) QueueRTCPManager" where
  "rm_set_recons r m = m\<lparr>rmIn := (rmIn m)\<lparr>ciRecons := r\<rparr>\<rparr>"

definition rm_recons :: "('na, 'ak, 'hm) QueueRTCPManager \<Rightarrow> reconsInfo" where
  "rm_recons m = ciRecons (rmIn m)"

definition rm_timerReconsideration ::
  "('na, 'ak, 'hm) service_env \<Rightarrow> real \<Rightarrow> timeval \<Rightarrow> ('na, 'ak, 'hm) QueueRTCPManager \<Rightarrow> (bool \<times> ('na, 'ak, 'hm) QueueRTCPManager) option" where
  "rm_timerReconsideration E rand now m =
     do { T \<leftarrow> rm_interval E rand m;
          let (result, r) = timerReconsideration T now (rm_recons m);
          Some (result, rm_set_recons r m) }"

text \<open>\<^verbatim>\<open>dispatchControlPacket\<close> on the joined state: the table of sources, the average size and the tables of the cipher are shared with the receiving part.\<close>

definition rm_dispatch :: "('na, 'ak, 'hm) service_env \<Rightarrow> timeval \<Rightarrow> ('na, 'ak, 'hm) QueueRTCPManager \<Rightarrow> ('na, 'ak, 'hm) QueueRTCPManager option" where
  "rm_dispatch E now m =
     do { let st = \<lparr>ctlMembers = ciMembers (rmIn m), nextScheduledSDESItem = rmNextSDES m, lastSendPacketCount = rmLastSendPacketCount m,
            ctrlSendCount = rmCtrlSendCount m, rtcpAvgSize = ciAvgSize (rmIn m), rtcpInitial = rmInitial m\<rparr>;
          (sent, st, k) \<leftarrow> dispatchControlPacket (seDouble E) (seBuffer E) (seClock E) (ctl_env.truncate E) (rmConfig m) (seSend E) now
            (st, (rmCrypto m)\<lparr>ctlTfEnv := ciEnv (rmIn m)\<rparr>);
          Some (m\<lparr>rmIn := (rmIn m)\<lparr>ciMembers := ctlMembers st, ciAvgSize := rtcpAvgSize st, ciEnv := ctlTfEnv k\<rparr>, rmCrypto := k,
            rmNextSDES := nextScheduledSDESItem st, rmLastSendPacketCount := lastSendPacketCount st, rmCtrlSendCount := ctrlSendCount st,
            rmInitial := rtcpInitial st, rmSent := rmSent m @ [sent]\<rparr>) }"

text \<open>The clock is read at the beginning, in \<^verbatim>\<open>timerReconsideration\<close> and in \<^verbatim>\<open>dispatchControlPacket\<close>; \<^verbatim>\<open>expireSSRCs\<close> does nothing.\<close>

definition controlTransmissionService ::
  "('na, 'ak, 'hm) service_env \<Rightarrow> timeval \<Rightarrow> timeval \<Rightarrow> timeval \<Rightarrow> real \<Rightarrow> real \<Rightarrow> ('na, 'ak, 'hm) QueueRTCPManager
   \<Rightarrow> ('na, 'ak, 'hm) QueueRTCPManager option" where
  "controlTransmissionService E now1 now2 now3 rand1 rand2 m =
     (if \<not> controlServiceActive m then Some m
      else let m = rm_set_recons ((rm_recons m)\<lparr>rtcpTc := now1\<rparr>) m in
        if timer_ge (rtcpTc (rm_recons m)) (rtcpTn (rm_recons m)) then
          do { (send, m) \<leftarrow> rm_timerReconsideration E rand1 now2 m;
               if send then
                 do { let m = m\<lparr>rtcpLastCheck := rtcpTc (rm_recons m)\<rparr>;
                      m \<leftarrow> rm_dispatch E now3 m;
                      let m = (if rmInitial m then m\<lparr>rmInitial := False\<rparr> else m);
                      let m = rm_set_recons ((rm_recons m)\<lparr>rtcpTp := rtcpTc (rm_recons m)\<rparr>) m;
                      T \<leftarrow> rm_interval E rand2 m;
                      Some (rm_set_recons ((rm_recons m)\<lparr>rtcpTn := timeradd (rtcpTc (rm_recons m)) T,
                        rtcpPMembers := membersCount (ciMembers (rmIn m))\<rparr>) m) }
               else Some m }
        else Some m)"

section \<open>Leaving\<close>

definition only_bye_once :: "('na, 'ak, 'hm) ctl_in_env \<Rightarrow> u32 \<Rightarrow> ('na, 'ak, 'hm) CtlIn \<Rightarrow> ('na, 'ak, 'hm) CtlIn option" where
  "only_bye_once E ssrc st =
     do { (a, created, st) \<leftarrow> ci_source E ssrc st;
          l \<leftarrow> linkHeap (ciMembers st) a;
          let (bye, d) = getGoodbye (linkData l);
          st \<leftarrow> ci_link a (\<lambda>l. l\<lparr>linkData := d\<rparr>) st;
          let st = (if bye then ci_event (GotGoodbye (srcID l) []) st else st);
          (_, m) \<leftarrow> BYESource (ciMembers st) ssrc;
          Some (st\<lparr>ciMembers := m\<rparr>) }"

function only_bye_scan :: "('na, 'ak, 'hm) ctl_in_env \<Rightarrow> byte list \<Rightarrow> nat \<Rightarrow> nat \<Rightarrow> ('na, 'ak, 'hm) CtlIn \<Rightarrow> ('na, 'ak, 'hm) CtlIn option" where
  "only_bye_scan E buf len pointer st =
     (if pointer < len then
        (case pkt_in buf pointer of
           None \<Rightarrow> None
         | Some pkt \<Rightarrow>
             (case (if fh_type pkt = tBYE then if length pkt < 8 then None else only_bye_once E (getSSRC pkt) st else Some st) of
                None \<Rightarrow> None
              | Some st \<Rightarrow> only_bye_scan E buf len (pointer + getLength pkt) st))
      else Some st)"
  by pat_completeness auto
termination by (relation "measure (\<lambda>(_, _, len, pointer, _). len - pointer)") (auto simp: getLength_def)

declare only_bye_scan.simps [simp del]

text \<open>
  The datagrams that arrive before the time is up, each with its length, until \<^verbatim>\<open>recvControl\<close> gives none; there are none when nothing is pending. The packets are not
  unprotected.
\<close>

fun getOnlyBye :: "('na, 'ak, 'hm) ctl_in_env \<Rightarrow> (byte list \<times> nat) list \<Rightarrow> ('na, 'ak, 'hm) CtlIn \<Rightarrow> ('na, 'ak, 'hm) CtlIn option" where
  "getOnlyBye E [] st = Some st"
| "getOnlyBye E ((buf, len) # ds) st =
     (case checkCompoundRTCPHeader buf len of
        None \<Rightarrow> None
      | Some False \<Rightarrow> Some st
      | Some True \<Rightarrow> (case only_bye_scan E buf len 0 st of None \<Rightarrow> None | Some st \<Rightarrow> getOnlyBye E ds st))"

text \<open>A turn of the back-off: the datagrams, the random fraction and the two readings of the clock; \<open>Loops\<close> when there are no more turns.\<close>

type_synonym bye_wait = "(byte list \<times> nat) list \<times> real \<times> timeval \<times> timeval"

fun bye_backoff :: "('na, 'ak, 'hm) service_env \<Rightarrow> bye_wait list \<Rightarrow> ('na, 'ak, 'hm) QueueRTCPManager \<Rightarrow> ('na, 'ak, 'hm) QueueRTCPManager outcome" where
  "bye_backoff E [] m = (if timer_ge (rtcpTc (rm_recons m)) (rtcpTn (rm_recons m)) then Returns m else Loops)"
| "bye_backoff E ((ds, rand, now2, now3) # ts) m =
     (if timer_ge (rtcpTc (rm_recons m)) (rtcpTn (rm_recons m)) then Returns m
      else case getOnlyBye (ctl_in_env.truncate E) ds (rmIn m) of
        None \<Rightarrow> Undefined
      | Some st \<Rightarrow>
          (case rm_timerReconsideration E rand now2 (m\<lparr>rmIn := st\<rparr>) of
             None \<Rightarrow> Undefined
           | Some (True, m) \<Rightarrow> Returns m
           | Some (False, m) \<Rightarrow> bye_backoff E ts (rm_set_recons ((rm_recons m)\<lparr>rtcpTc := now3\<rparr>) m)))"

definition start_backoff :: "('na, 'ak, 'hm) service_env \<Rightarrow> timeval \<Rightarrow> timeval \<Rightarrow> real \<Rightarrow> byte list \<Rightarrow> ('na, 'ak, 'hm) QueueRTCPManager
   \<Rightarrow> ('na, 'ak, 'hm) QueueRTCPManager option" where
  "start_backoff E now0 now1 rand reason m =
     do { let n = strlen reason;
          let m = m\<lparr>rmIn := (rmIn m)\<lparr>ciRecons := (ciRecons (rmIn m))\<lparr>rtcpTc := now0, rtcpTp := now0, rtcpPMembers := 1\<rparr>,
              ciMembers := (ciMembers (rmIn m))\<lparr>membersCount := 1\<rparr>, ciAvgSize := of_nat (4 + 4 + n + (4 - n mod 4))\<rparr>,
            rmInitial := True, rtcpWeSent := False\<rparr>;
          let m = rm_set_recons ((rm_recons m)\<lparr>rtcpTc := now1\<rparr>) m;
          T \<leftarrow> rm_interval E rand m;
          Some (rm_set_recons ((rm_recons m)\<lparr>rtcpTn := timeradd (rtcpTp (rm_recons m)) T\<rparr>) m) }"

definition send_bye :: "('na, 'ak, 'hm) service_env \<Rightarrow> byte list \<Rightarrow> ('na, 'ak, 'hm) QueueRTCPManager \<Rightarrow> ('na, 'ak, 'hm) QueueRTCPManager option" where
  "send_bye E reason m =
     do { out \<leftarrow> build_bye (seBuffer E) (ctlLocalSSRC (rmConfig m)) reason;
          (sent, k) \<leftarrow> sendControlToDestinations (ctl_env.truncate E) (out @ map (seBuffer E) [length out..<BYE_BUFFER_LENGTH]) (length out)
            ((rmCrypto m)\<lparr>ctlTfEnv := ciEnv (rmIn m)\<rparr>);
          Some (m\<lparr>rmCrypto := k, rmIn := (rmIn m)\<lparr>ciEnv := ctlTfEnv k\<rparr>, rmSent := rmSent m @ [sent]\<rparr>) }"

definition dispatchBYE :: "('na, 'ak, 'hm) service_env \<Rightarrow> timeval \<Rightarrow> timeval \<Rightarrow> real \<Rightarrow> bye_wait list \<Rightarrow> byte list \<Rightarrow> ('na, 'ak, 'hm) QueueRTCPManager
   \<Rightarrow> ('na, 'ak, 'hm) QueueRTCPManager outcome" where
  "dispatchBYE E now0 now1 rand turns reason m =
     (if sendPacketCount (seSend E) = 0 \<and> rmCtrlSendCount m = 0 then Returns m
      else case (if 50 < membersCount (ciMembers (rmIn m)) then
                   (case start_backoff E now0 now1 rand reason m of None \<Rightarrow> Undefined | Some m \<Rightarrow> bye_backoff E turns m)
                 else Returns m) of
        Undefined \<Rightarrow> Undefined
      | Loops \<Rightarrow> Loops
      | Returns m \<Rightarrow> (case send_bye E reason m of None \<Rightarrow> Undefined | Some m \<Rightarrow> Returns m))"

section \<open>The delay of a packet\<close>

text \<open>
  \<open>si\<close> is the sender information of the source of the packet, if there was a report; a clock rate below 1000 divides by zero, which is \<^term>\<open>None\<close>.
\<close>

definition end2EndDelayed :: "(real \<Rightarrow> real) \<Rightarrow> u32 \<Rightarrow> u32 \<Rightarrow> timeval \<Rightarrow> byte list option \<Rightarrow> u32 \<Rightarrow> bool option" where
  "end2EndDelayed rnd delay rate now si timestamp =
     (if delay = 0 then Some False
      else case si of
        None \<Rightarrow> Some False
      | Some rsi \<Rightarrow>
          let tsInc = timestamp - getRTPTimestamp rsi in
          if rate div 1000 = 0 then None
          else let inc = tsInc * 1000 div (rate div 1000);
                   tNTP = NTP2Timeval rnd (getNTPTimestampInt rsi) (getNTPTimestampFrac rsi);
                   packetTime = timeradd tNTP (microtimeout2Timeval inc);
                   diff = timersub now packetTime
               in Some (delay < timeval2microtimeout diff))"

section \<open>Times\<close>

definition tv_ok :: "timeval \<Rightarrow> bool" where
  "tv_ok t \<longleftrightarrow> 0 \<le> tv_usec t \<and> tv_usec t < 1000000"

lemma usecs_timeradd: "usecs (timeradd a b) = usecs a + usecs b"
  by (simp add: usecs_def timeradd_def Let_def)

lemma tv_ok_timeradd [simp]: "tv_ok a \<Longrightarrow> tv_ok b \<Longrightarrow> tv_ok (timeradd a b)"
  by (auto simp: tv_ok_def timeradd_def Let_def)

lemma timer_ge_usecs: "tv_ok a \<Longrightarrow> tv_ok b \<Longrightarrow> timer_ge a b \<longleftrightarrow> usecs b \<le> usecs a"
  by (auto simp: tv_ok_def timer_ge_def usecs_def)

section \<open>The reception service keeps its pace\<close>

lemma next_check_found:
  assumes "tv_ok tc" "tv_ok i" "tv_ok l" "tv_ok n" "0 < usecs i" "usecs n \<le> usecs tc" "usecs l \<le> usecs tc"
  shows "\<exists>l' n'. next_check tc i l n = Some (l', n') \<and> tv_ok l' \<and> tv_ok n' \<and> usecs l' \<le> usecs tc \<and> usecs tc < usecs n' \<and> usecs n' \<le> usecs tc + usecs i"
  using assms
proof (induction "nat (2 * usecs tc - usecs l - usecs n)" arbitrary: l n rule: less_induct)
  case less
  let ?n = "timeradd l i"
  have n: "tv_ok ?n" "usecs ?n = usecs l + usecs i" using less.prems by (simp_all add: usecs_timeradd)
  show ?case
  proof (cases "timer_ge tc ?n")
    case True
    then have le: "usecs ?n \<le> usecs tc" using n less.prems by (simp add: timer_ge_usecs)
    have "next_check tc i l n = next_check tc i n ?n" using True by (subst next_check.simps) (simp add: Let_def)
    moreover have "\<exists>l' n'. next_check tc i n ?n = Some (l', n') \<and> tv_ok l' \<and> tv_ok n' \<and> usecs l' \<le> usecs tc \<and> usecs tc < usecs n' \<and> usecs n' \<le> usecs tc + usecs i"
      by (rule less.hyps) (use less.prems n le in auto)
    ultimately show ?thesis by simp
  next
    case False
    then have "next_check tc i l n = Some (n, ?n)" by (subst next_check.simps) (simp add: Let_def)
    then show ?thesis using False n less.prems by (simp add: timer_ge_usecs)
  qed
qed

text \<open>What the checks for incoming packets rely on: the last check is past, the next one at most an interval away.\<close>

definition checks_ok :: "timeval \<Rightarrow> ('na, 'ak, 'hm) QueueRTCPManager \<Rightarrow> bool" where
  "checks_ok t m \<longleftrightarrow> tv_ok (rtcpCheckInterval m) \<and> 0 < usecs (rtcpCheckInterval m) \<and> tv_ok (rtcpLastCheck m) \<and> tv_ok (rtcpNextCheck m) \<and>
     usecs (rtcpLastCheck m) \<le> usecs t \<and> usecs (rtcpNextCheck m) \<le> usecs t + usecs (rtcpCheckInterval m)"

lemma checks_ok_later: "checks_ok t m \<Longrightarrow> usecs t \<le> usecs t' \<Longrightarrow> checks_ok t' m"
  by (auto simp: checks_ok_def)

lemma newQueueRTCPManager_checks:
  assumes "tv_ok now"
  shows "checks_ok now (newQueueRTCPManager rnd now inq env bw cfg)"
  using assms by (auto simp: checks_ok_def newQueueRTCPManager_def tv_ok_def usecs_def timersub_def Let_def)

text \<open>The time of the call, which the handler of a packet leaves alone.\<close>

named_theorems keeps_tc

abbreviation recons_tc :: "('na, 'ak, 'hm) CtlIn \<Rightarrow> timeval" where "recons_tc st \<equiv> rtcpTc (ciRecons st)"

lemma ci_event_tc [simp]: "recons_tc (ci_event e st) = recons_tc st"
  by (simp add: ci_event_def)

lemma ci_link_tc [keeps_tc]: "ci_link a f st = Some st' \<Longrightarrow> recons_tc st' = recons_tc st"
  by (auto simp: ci_link_def split: Option.bind_splits)

lemma ci_source_tc [keeps_tc]: "ci_source E ssrc st = Some (a, created, st') \<Longrightarrow> recons_tc st' = recons_tc st"
  by (auto simp: ci_source_def split: Option.bind_splits)

lemma ci_check_tc [keeps_tc]: "ci_check now created na tp a st = Some (ok, st') \<Longrightarrow> recons_tc st' = recons_tc st"
  by (auto simp: ci_check_def Let_def split: Option.bind_splits if_splits dest!: keeps_tc)

lemma ci_hello_tc [keeps_tc]: "ci_hello a st = Some st' \<Longrightarrow> recons_tc st' = recons_tc st"
  by (auto simp: ci_hello_def Let_def split: Option.bind_splits if_splits prod.splits dest!: keeps_tc)

lemma admit_control_tc [keeps_tc]: "admit_control E t na tp ssrc st = Some (s, created, st') \<Longrightarrow> recons_tc st' = recons_tc st"
  by (auto simp: admit_control_def split: Option.bind_splits if_splits dest!: keeps_tc)

lemma onGotSR_tc [keeps_tc]: "onGotSR a p st = Some st' \<Longrightarrow> recons_tc st' = recons_tc st"
  by (auto simp: onGotSR_def split: Option.bind_splits if_splits dest!: keeps_tc)

lemma onGotRR_tc [keeps_tc]: "onGotRR a p n k st = Some st' \<Longrightarrow> recons_tc st' = recons_tc st"
  by (induction a p n k st rule: onGotRR.induct) (auto split: Option.bind_splits if_splits dest!: keeps_tc)

lemma first_control_tc [keeps_tc]: "first_control t created na tp s buf st = Some (p, st') \<Longrightarrow> recons_tc st' = recons_tc st"
  by (auto simp: first_control_def Let_def split: Option.bind_splits if_splits dest!: keeps_tc)

lemma one_rr_tc [keeps_tc]: "one_rr E t na tp s pkt st = Some st' \<Longrightarrow> recons_tc st' = recons_tc st"
  by (auto simp: one_rr_def Let_def split: Option.bind_splits if_splits dest!: keeps_tc)

lemma rr_packets_tc [keeps_tc]: "rr_packets E t na tp s buf len p st = Some (p', st') \<Longrightarrow> recons_tc st' = recons_tc st"
proof (induction E t na tp s buf len p st rule: rr_packets.induct)
  case (1 E t na tp s buf len p st)
  from 1(2) show ?case
    by (subst (asm) rr_packets.simps) (use 1(1) in \<open>fastforce split: if_splits option.splits dest!: keeps_tc\<close>)
qed

lemma sdes_item_tc [simp]: "recons_tc (snd (sdes_item s type v part st)) = recons_tc st"
  by (auto simp: sdes_item_def participant_for_def setSDESItem_def Let_def split: option.splits prod.splits)

lemma sdes_items_loop_tc [keeps_tc]: "sdes_items_loop s buf base len p part cn st = Some (cn', st') \<Longrightarrow> recons_tc st' = recons_tc st"
proof (induction s buf base len p part cn st rule: sdes_items_loop.induct)
  case (1 s buf base len p part cn st)
  let ?t = "unat (buf ! (base + p))" and ?n = "unat (buf ! (base + p + 1))"
  obtain part2 st2 where i: "sdes_item s ?t (take ?n (drop (base + p + 2) buf)) part st = (part2, st2)" by fastforce
  then have "recons_tc st2 = recons_tc st" using sdes_item_tc by (metis snd_conv)
  with 1(3) show ?case
    by (subst (asm) sdes_items_loop.simps) (use 1(1) [OF _ _ refl refl _ _ _ i [symmetric] refl] 1(2) [OF _ _ refl refl] i in \<open>auto simp: Let_def split: if_splits\<close>)
qed

lemma onGotSDESChunk_tc [keeps_tc]: "onGotSDESChunk s buf base len st = Some (cn, st') \<Longrightarrow> recons_tc st' = recons_tc st"
  by (auto simp: onGotSDESChunk_def dest!: keeps_tc)

lemma sdes_chunks_tc [keeps_tc]: "sdes_chunks E s buf len count p i st = Some st' \<Longrightarrow> recons_tc st' = recons_tc st"
proof (induction E s buf len count p i st rule: sdes_chunks.induct)
  case (1 E s buf len count p i st)
  from 1(2) show ?case
    by (subst (asm) sdes_chunks.simps) (use 1(1) in \<open>fastforce simp: Let_def split: if_splits Option.bind_splits option.splits dest!: keeps_tc\<close>)
qed

lemma one_sdes_app_tc [keeps_tc]: "one_sdes_app E t na tp s buf p st = Some st' \<Longrightarrow> recons_tc st' = recons_tc st"
  by (auto simp: one_sdes_app_def onGotSDES_def Let_def split: Option.bind_splits if_splits dest!: keeps_tc)

lemma sdes_packets_tc [keeps_tc]: "sdes_packets E t na tp s buf len p st = Some (p', st') \<Longrightarrow> recons_tc st' = recons_tc st"
proof (induction E t na tp s buf len p st rule: sdes_packets.induct)
  case (1 E t na tp s buf len p st)
  from 1(2) show ?case
    by (subst (asm) sdes_packets.simps) (use 1(1) in \<open>fastforce split: if_splits option.splits dest!: keeps_tc\<close>)
qed

lemma reverseReconsideration_tc [simp]: "rtcpTc (reverseReconsideration n r) = rtcpTc r"
  by (simp add: reverseReconsideration_def Let_def)

lemma bye_once_tc [keeps_tc]: "bye_once E ssrc reason st = Some st' \<Longrightarrow> recons_tc st' = recons_tc st"
  by (auto simp: bye_once_def Let_def split: Option.bind_splits if_splits prod.splits dest!: keeps_tc)

lemma bye_times_tc [keeps_tc]: "bye_times E ssrc reason n st = Some st' \<Longrightarrow> recons_tc st' = recons_tc st"
  by (induction n arbitrary: st) (auto split: Option.bind_splits dest!: keeps_tc)

lemma bye_turn_tc [keeps_tc]: "bye_turn E t na tp buf pkt p st = Some (p', st') \<Longrightarrow> recons_tc st' = recons_tc st"
  by (auto simp: bye_turn_def getBYE_def split: Option.bind_splits if_splits dest!: keeps_tc)

lemma bye_packets_tc: "bye_packets fuel E t na tp buf pkt len p st = Returns (p', st') \<Longrightarrow> recons_tc st' = recons_tc st"
  by (induction fuel arbitrary: p st) (fastforce split: if_splits option.splits dest!: keeps_tc)+

lemma unprotect_control_tc [keeps_tc]: "unprotect_control E buf len st = Some (r, buf', st') \<Longrightarrow> recons_tc st' = recons_tc st"
  by (auto simp: unprotect_control_def select_ctl_in_def Let_def split: Option.bind_splits option.splits prod.splits)

lemma takeInControlPacket_tc: "takeInControlPacket fuel E t na tp buf len st = Returns st' \<Longrightarrow> recons_tc st' = recons_tc st"
  by (auto simp: takeInControlPacket_def control_reports_def control_end_def Let_def
    split: if_splits option.splits prod.splits outcome.splits bool.splits Option.bind_splits dest!: keeps_tc bye_packets_tc)

lemma take_pending_tc: "take_pending fuel E ds st = Returns st' \<Longrightarrow> recons_tc st' = recons_tc st"
  by (induction fuel E ds st rule: take_pending.induct) (auto split: outcome.splits dest!: takeInControlPacket_tc)

text \<open>
  C35: the service for incoming RTCP packets keeps its pace. When it is called at a time at which the next check is due, every pending packet is taken in, and the next
  check is after the present time and at most one interval away, however late the call is; a call before that time leaves the packets alone. The loop that looks for the next
  check ends.
\<close>

theorem reception_service_paced:
  fixes m :: "('na, 'ak, 'hm) QueueRTCPManager"
  assumes "controlServiceActive m" "tv_ok now" "checks_ok now m"
    and "usecs (rtcpNextCheck m) \<le> usecs now \<Longrightarrow> take_pending fuel E pending ((rmIn m)\<lparr>ciRecons := (ciRecons (rmIn m))\<lparr>rtcpTc := now\<rparr>\<rparr>) = Returns st"
  shows "\<exists>m'. controlReceptionService fuel E now pending m = Returns m' \<and> checks_ok now m' \<and> usecs now < usecs (rtcpNextCheck m') \<and>
    rmIn m' = (if usecs (rtcpNextCheck m) \<le> usecs now then st else (rmIn m)\<lparr>ciRecons := (ciRecons (rmIn m))\<lparr>rtcpTc := now\<rparr>\<rparr>)"
proof (cases "usecs (rtcpNextCheck m) \<le> usecs now")
  case True
  let ?st = "(rmIn m)\<lparr>ciRecons := (ciRecons (rmIn m))\<lparr>rtcpTc := now\<rparr>\<rparr>"
  have t: "take_pending fuel E pending ?st = Returns st" by (rule assms(4) [OF True])
  then have "recons_tc st = now" using take_pending_tc by fastforce
  moreover obtain l n where "next_check now (rtcpCheckInterval m) (rtcpLastCheck m) (rtcpNextCheck m) = Some (l, n)"
    "tv_ok l" "tv_ok n" "usecs l \<le> usecs now" "usecs now < usecs n" "usecs n \<le> usecs now + usecs (rtcpCheckInterval m)"
    using next_check_found [of now "rtcpCheckInterval m" "rtcpLastCheck m" "rtcpNextCheck m"] assms(2,3) True by (auto simp: checks_ok_def)
  ultimately show ?thesis using True assms(1-3) t
    by (simp add: controlReceptionService_def Let_def timer_ge_usecs checks_ok_def)
next
  case False
  then show ?thesis using assms(1-3) by (simp add: controlReceptionService_def Let_def timer_ge_usecs checks_ok_def)
qed

section \<open>Packets are sent at intervals\<close>

text \<open>What the arithmetic in double precision promises: it is monotone and exact on halves of 32 bit numbers.\<close>

definition halves_exact :: "(real \<Rightarrow> real) \<Rightarrow> bool" where
  "halves_exact dbl \<longleftrightarrow> mono dbl \<and> (\<forall>n :: nat. n < 2 ^ 32 \<longrightarrow> dbl (real n / 2) = real n / 2)"

lemma usecs_interval:
  "usecs \<lparr>tv_sec = uint (i div 1000000 :: u32), tv_usec = uint (i mod 1000000)\<rparr> = uint i"
  "tv_ok \<lparr>tv_sec = uint (i div 1000000 :: u32), tv_usec = uint (i mod 1000000)\<rparr>"
  by (simp_all add: usecs_def tv_ok_def uint_div_distrib uint_mod_distrib)

lemma to_microtimeout_ge: "to_microtimeout x = Some i \<Longrightarrow> real k \<le> x \<Longrightarrow> int k \<le> uint i"
  by (auto simp: to_microtimeout_def le_floor_iff uint_word_of_int_eq take_bit_int_eq_self split: if_splits)

definition min_half :: "interval_params \<Rightarrow> int" where
  "min_half P = min (uint (rtcpMinInterval P)) 100000000 div 2"

lemma interval_at_least:
  assumes "computeRTCPInterval rnd dbl rand P weSent initial members senders avgSize = Some T" "halves_exact dbl" "0 \<le> rand"
  shows "tv_ok T \<and> min_half P \<le> usecs T"
proof -
  obtain b p where bp: "(if 0 < senders \<and> rnd (real (unat senders)) < rnd (rnd (real (unat members)) * sendControlBwFract P) then
      if weSent then (rnd (rnd (controlBwFract P * rnd (sessionBandwidth P)) * sendControlBwFract P), senders)
      else (rnd (rnd (controlBwFract P * rnd (sessionBandwidth P)) * recvControlBwFract P), members - senders)
    else (rnd (controlBwFract P * rnd (sessionBandwidth P)), members)) = (b, p)" by fastforce
  obtain i0 i where i: "to_microtimeout (dbl (real (unat i0) * dbl (0.5 + rand))) = Some i" "T = \<lparr>tv_sec = uint (i div 1000000), tv_usec = uint (i mod 1000000)\<rparr>"
    and i0: "(if b \<noteq> 0 then do { i \<leftarrow> to_microtimeout (rnd (rnd (rnd (real (unat (p * ucast avgSize))) / b) * 1000000));
        Some (if i < rtcpMinInterval P then rtcpMinInterval P else i) } else Some 100000000) = Some i0"
    using assms(1) unfolding computeRTCPInterval_def Let_def bp prod.case bind_eq_Some_conv by blast
  have i3: "min (rtcpMinInterval P) 100000000 \<le> i0" using i0 by (auto simp: min_le_iff_disj not_less split: if_splits Option.bind_splits)
  have "dbl (real 1 / 2) = real 1 / 2" using assms(2) unfolding halves_exact_def by (elim conjE allE [of _ 1]) simp
  then have "dbl 0.5 = 0.5" by simp
  then have "0.5 \<le> dbl (0.5 + rand)" using assms(2,3) unfolding halves_exact_def mono_def by (metis add_increasing2 order_refl)
  then have "real (unat i0) / 2 \<le> real (unat i0) * dbl (0.5 + rand)" using mult_left_mono [OF _ of_nat_0_le_iff [of "unat i0"], of "0.5" "dbl (0.5 + rand)"] by simp
  then have "dbl (real (unat i0) / 2) \<le> dbl (real (unat i0) * dbl (0.5 + rand))" using assms(2) by (auto simp: halves_exact_def mono_def)
  moreover have "dbl (real (unat i0) / 2) = real (unat i0) / 2" using assms(2) unsigned_less [of i0, where 'a = nat] by (auto simp: halves_exact_def)
  ultimately have "real (unat i0 div 2) \<le> dbl (real (unat i0) * dbl (0.5 + rand))" by linarith
  from to_microtimeout_ge [OF i(1) this] have "int (unat i0 div 2) \<le> usecs T" unfolding i(2) usecs_interval .
  moreover have "min (uint (rtcpMinInterval P)) 100000000 \<le> uint i0" using i3 by (auto simp: min_def word_le_def split: if_splits)
  then have "min_half P \<le> int (unat i0 div 2)" unfolding min_half_def by (simp add: zdiv_int zdiv_mono1)
  ultimately show ?thesis using usecs_interval(2) i(2) by auto
qed

lemma rm_interval_at_least:
  "rm_interval E rand m = Some T \<Longrightarrow> halves_exact (seDouble E) \<Longrightarrow> 0 \<le> rand \<Longrightarrow> tv_ok T \<and> min_half (rmInterval m) \<le> usecs T"
  unfolding rm_interval_def by (rule interval_at_least)

lemma rm_set_recons_simps [simp]:
  "rm_recons (rm_set_recons r m) = r" "rmSent (rm_set_recons r m) = rmSent m" "rmInterval (rm_set_recons r m) = rmInterval m"
  "rm_recons (m\<lparr>rtcpLastCheck := t\<rparr>) = rm_recons m" "rm_recons (if b then m\<lparr>rmInitial := False\<rparr> else m) = rm_recons m"
  "rtcpLastCheck (rm_set_recons r m) = rtcpLastCheck m" "rtcpNextCheck (rm_set_recons r m) = rtcpNextCheck m" "rtcpCheckInterval (rm_set_recons r m) = rtcpCheckInterval m"
  by (simp_all add: rm_set_recons_def rm_recons_def)

lemma rm_dispatch_keeps:
  assumes "rm_dispatch E now m = Some m'"
  shows "\<exists>p. rmSent m' = rmSent m @ [p]" "rm_recons m' = rm_recons m" "rmInterval m' = rmInterval m" "rtcpLastCheck m' = rtcpLastCheck m"
    "rtcpNextCheck m' = rtcpNextCheck m" "rtcpCheckInterval m' = rtcpCheckInterval m"
  using assms by (auto simp: rm_dispatch_def rm_recons_def Let_def split: Option.bind_splits)

text \<open>
  C16: RTCP packets are spaced. A call of the transmission service either sends nothing and leaves the time of the last packet, or it sends exactly one packet, at least half the
  minimum interval after the last one, and schedules the next one for at least that much later.
\<close>

theorem transmission_spaced:
  fixes m :: "('na, 'ak, 'hm) QueueRTCPManager"
  assumes s: "controlTransmissionService E now1 now2 now3 rand1 rand2 m = Some m'"
    and d: "halves_exact (seDouble E)" "0 \<le> rand1" "0 \<le> rand2" and ok: "tv_ok now2" "tv_ok (rtcpTp (rm_recons m))"
  shows "rmSent m' = rmSent m \<and> rtcpTp (rm_recons m') = rtcpTp (rm_recons m) \<or>
    (\<exists>p. rmSent m' = rmSent m @ [p] \<and> usecs (rtcpTp (rm_recons m)) + min_half (rmInterval m) \<le> usecs now2 \<and> rtcpTp (rm_recons m') = now2 \<and>
       usecs now2 + min_half (rmInterval m) \<le> usecs (rtcpTn (rm_recons m')) \<and> rtcpLastCheck m' = now2)"
proof (cases "controlServiceActive m \<and> timer_ge now1 (rtcpTn (rm_recons m))")
  case False
  then show ?thesis using s by (auto simp: controlTransmissionService_def Let_def split: if_splits)
next
  case True
  let ?m1 = "rm_set_recons ((rm_recons m)\<lparr>rtcpTc := now1\<rparr>) m"
  obtain send m2 where r: "rm_timerReconsideration E rand1 now2 ?m1 = Some (send, m2)"
    using s True by (auto simp: controlTransmissionService_def Let_def split: Option.bind_splits)
  then obtain T r2 where T: "rm_interval E rand1 ?m1 = Some T" "timerReconsideration T now2 ((rm_recons m)\<lparr>rtcpTc := now1\<rparr>) = (send, r2)"
    "m2 = rm_set_recons r2 ?m1"
    by (auto simp: rm_timerReconsideration_def Let_def split: Option.bind_splits prod.splits)
  have T_ok: "tv_ok T" "min_half (rmInterval m) \<le> usecs T" using rm_interval_at_least [OF T(1) d(1,2)] by simp_all
  have m2: "rmSent m2 = rmSent m" "rmInterval m2 = rmInterval m" "rm_recons m2 = r2" by (simp_all add: T(3))
  show ?thesis
  proof (cases send)
    case False
    then have "m' = m2" using s True r by (simp add: controlTransmissionService_def Let_def)
    moreover have "rtcpTp (rm_recons m2) = rtcpTp (rm_recons m)" using T(2) False by (auto simp: m2(3) timerReconsideration_def Let_def split: if_splits)
    ultimately show ?thesis using m2 by simp
  next
    case True': True
    then have tp: "rtcpTc (rm_recons m2) = now2" "usecs (rtcpTp (rm_recons m)) + usecs T \<le> usecs now2"
      using T(2) ok T_ok by (auto simp: m2(3) timerReconsideration_def Let_def timer_ge_usecs usecs_timeradd split: if_splits)
    obtain m3 where m3: "rm_dispatch E now3 (m2\<lparr>rtcpLastCheck := now2\<rparr>) = Some m3"
      using s True True' r tp(1) by (auto simp: controlTransmissionService_def Let_def split: Option.bind_splits)
    note k = rm_dispatch_keeps [OF m3]
    let ?m4 = "rm_set_recons ((rm_recons m2)\<lparr>rtcpTp := now2\<rparr>) (if rmInitial m3 then m3\<lparr>rmInitial := False\<rparr> else m3)"
    obtain T2 where T2: "rm_interval E rand2 ?m4 = Some T2"
      "m' = rm_set_recons ((rm_recons m2)\<lparr>rtcpTp := now2, rtcpTn := timeradd now2 T2, rtcpPMembers := membersCount (ciMembers (rmIn ?m4))\<rparr>) ?m4"
      using s True True' r tp(1) m3 k(2) by (auto simp: controlTransmissionService_def Let_def split: Option.bind_splits)
    have "min_half (rmInterval m) \<le> usecs T2" using rm_interval_at_least [OF T2(1) d(1,3)] k(3) m2 by (simp split: if_splits)
    moreover obtain p where "rmSent m3 = rmSent m @ [p]" using k(1) m2(1) by auto
    ultimately show ?thesis using T2(2) tp T_ok k(4) by (auto simp: usecs_timeradd)
  qed
qed

lemma report_loop_counts:
  "report_loop clock cap av m i out j = Some (j', out', m') \<Longrightarrow> membersCount m' = membersCount m \<and> activeSenders m' = activeSenders m"
proof (induction clock cap av m i out j rule: report_loop.induct)
  case (1 clock cap av m i out j)
  from 1(2) show ?case
    by (subst (asm) report_loop.simps) (use 1(1) in \<open>fastforce simp: Let_def split: option.splits if_splits\<close>)
qed

lemma rr_loop_counts:
  "rr_loop old clock cap av ssrc m pos out = Some (out', m') \<Longrightarrow> membersCount m' = membersCount m \<and> activeSenders m' = activeSenders m"
proof (induction old clock cap av ssrc m pos out rule: rr_loop.induct)
  case (1 old clock cap av ssrc m pos out)
  from 1(2) show ?case
    by (subst (asm) rr_loop.simps)
      (use 1(1) in \<open>fastforce simp: Let_def packReportBlocks_def split: option.splits if_splits prod.splits dest!: report_loop_counts\<close>)
qed

lemma build_compound_counts:
  assumes "build_compound rnd old clock cap cfg si now st = Some (out, st')"
  shows "membersCount (ctlMembers st') = membersCount (ctlMembers st) \<and> activeSenders (ctlMembers st') = activeSenders (ctlMembers st) \<and> rtcpInitial st' = False \<and> ctrlSendCount st' = ctrlSendCount st"
  using assms by (auto simp: build_compound_def split: Option.bind_splits dest!: rr_loop_counts)

lemma rm_interval_recons [simp]: "rm_interval E rand (rm_set_recons r m) = rm_interval E rand m"
  by (simp add: rm_interval_def rm_set_recons_def)

text \<open>The report goes out in the clear and is accepted by the header check.\<close>

lemma rm_dispatch_sends:
  fixes m :: "('na, 'ak, 'hm) QueueRTCPManager"
  assumes "mem_ok (ciMembers (rmIn m))" "outCryptoContexts (rmCrypto m) = []"
    and "lowerHeadersSize (rmConfig m) + length (getItem (appItems (rmConfig m)) SDESItemTypeCNAME) + 200 \<le> pathMTU (rmConfig m)" "pathMTU (rmConfig m) \<le> 65535"
    and "\<forall>t\<in>{2..9}. length (getItem (appItems (rmConfig m)) t) \<le> 99"
  shows "\<exists>m' p. rm_dispatch E now m = Some m' \<and> rmSent m' = rmSent m @ [p] \<and> checkCompoundRTCPHeader (p @ rest) (length p) = Some True \<and>
    length p + lowerHeadersSize (rmConfig m) \<le> pathMTU (rmConfig m) \<and> mem_ok (ciMembers (rmIn m')) \<and> rmInitial m' = False \<and> rmCtrlSendCount m' = rmCtrlSendCount m + 1 \<and>
    membersCount (ciMembers (rmIn m')) = membersCount (ciMembers (rmIn m)) \<and> activeSenders (ciMembers (rmIn m')) = activeSenders (ciMembers (rmIn m)) \<and>
    rtcpWeSent m' = rtcpWeSent m"
proof -
  let ?st = "\<lparr>ctlMembers = ciMembers (rmIn m), nextScheduledSDESItem = rmNextSDES m, lastSendPacketCount = rmLastSendPacketCount m,
    ctrlSendCount = rmCtrlSendCount m, rtcpAvgSize = ciAvgSize (rmIn m), rtcpInitial = rmInitial m\<rparr>"
  obtain out st' where b: "build_compound (seDouble E) (seBuffer E) (seClock E) (pathMTU (rmConfig m)) (rmConfig m) (seSend E) now ?st = Some (out, st')"
    "length out + lowerHeadersSize (rmConfig m) \<le> pathMTU (rmConfig m)" "checkCompoundRTCPHeader (out @ rest) (length out) = Some True" "mem_ok (ctlMembers st')"
    "8 \<le> length out"
    using build_compound_ok [of ?st "rmConfig m"] assms by fastforce
  note c = build_compound_counts [OF b(1)]
  let ?k = "(rmCrypto m)\<lparr>ctlTfEnv := ciEnv (rmIn m)\<rparr>"
  have "select_ctl_out (ctl_env.truncate E) ssrc ?k = Some (None, ?k)" for ssrc
    using assms(2) by (simp add: select_ctl_out_def getOutQueueCryptoContextCtrl_def)
  then have "sendControlToDestinations (ctl_env.truncate E) (out @ map (seBuffer E) [length out..<pathMTU (rmConfig m)]) (length out) ?k = Some (out, ?k)"
    using b(5) by (simp add: sendControlToDestinations_def)
  then show ?thesis using b c by (simp add: rm_dispatch_def dispatchControlPacket_def)
qed

lemma service_sends_report:
  fixes m :: "('na, 'ak, 'hm) QueueRTCPManager"
  assumes due: "controlServiceActive m" "timer_ge now1 (rtcpTn (rm_recons m))" "rm_interval E rand1 m = Some T" "timer_ge now2 (timeradd (rtcpTp (rm_recons m)) T)"
    and ok: "mem_ok (ciMembers (rmIn m))" "outCryptoContexts (rmCrypto m) = []"
    and room: "lowerHeadersSize (rmConfig m) + length (getItem (appItems (rmConfig m)) SDESItemTypeCNAME) + 200 \<le> pathMTU (rmConfig m)" "pathMTU (rmConfig m) \<le> 65535"
      "\<forall>t\<in>{2..9}. length (getItem (appItems (rmConfig m)) t) \<le> 99"
    and iv: "\<And>avg. computeRTCPInterval (seFloat E) (seDouble E) rand2 (rmInterval m) (rtcpWeSent m) False (membersCount (ciMembers (rmIn m)))
      (activeSenders (ciMembers (rmIn m))) avg \<noteq> None"
  shows "\<exists>m' p T'. controlTransmissionService E now1 now2 now3 rand1 rand2 m = Some m' \<and> rmSent m' = rmSent m @ [p] \<and>
    checkCompoundRTCPHeader (p @ rest) (length p) = Some True \<and> length p + lowerHeadersSize (rmConfig m) \<le> pathMTU (rmConfig m) \<and>
    rm_recons m' = \<lparr>rtcpTp = now2, rtcpTc = now2, rtcpTn = timeradd now2 T', rtcpPMembers = membersCount (ciMembers (rmIn m'))\<rparr> \<and>
    mem_ok (ciMembers (rmIn m')) \<and> \<not> rmInitial m' \<and> rmCtrlSendCount m' = rmCtrlSendCount m + 1"
proof -
  define r where "r = (rm_recons m)\<lparr>rtcpTn := timeradd (rtcpTp (rm_recons m)) T, rtcpTc := now2, rtcpTp := now2\<rparr>"
  let ?m2 = "(rm_set_recons r (rm_set_recons ((rm_recons m)\<lparr>rtcpTc := now1\<rparr>) m))\<lparr>rtcpLastCheck := now2\<rparr>"
  have tr: "rm_timerReconsideration E rand1 now2 (rm_set_recons ((rm_recons m)\<lparr>rtcpTc := now1\<rparr>) m) =
      Some (True, rm_set_recons r (rm_set_recons ((rm_recons m)\<lparr>rtcpTc := now1\<rparr>) m))"
    using due(3,4) by (simp add: rm_timerReconsideration_def timerReconsideration_def Let_def r_def)
  have s: "rmConfig ?m2 = rmConfig m" "rmCrypto ?m2 = rmCrypto m" "ciMembers (rmIn ?m2) = ciMembers (rmIn m)" "rmSent ?m2 = rmSent m"
    "rtcpWeSent ?m2 = rtcpWeSent m" "rmCtrlSendCount ?m2 = rmCtrlSendCount m" by (simp_all add: rm_set_recons_def)
  obtain m3 p where m3: "rm_dispatch E now3 ?m2 = Some m3" "rmSent m3 = rmSent m @ [p]" "checkCompoundRTCPHeader (p @ rest) (length p) = Some True"
    "length p + lowerHeadersSize (rmConfig m) \<le> pathMTU (rmConfig m)" "mem_ok (ciMembers (rmIn m3))" "\<not> rmInitial m3" "rmCtrlSendCount m3 = rmCtrlSendCount m + 1"
    "membersCount (ciMembers (rmIn m3)) = membersCount (ciMembers (rmIn m))" "activeSenders (ciMembers (rmIn m3)) = activeSenders (ciMembers (rmIn m))"
    "rtcpWeSent m3 = rtcpWeSent m"
    using rm_dispatch_sends [of ?m2 E now3 rest] ok room unfolding s by fastforce
  note k = rm_dispatch_keeps [OF m3(1)]
  obtain T' where T': "rm_interval E rand2 m3 = Some T'" using iv m3(6,8-10) k(3) by (fastforce simp: rm_interval_def)
  have rc: "rtcpTc r = now2" by (simp add: r_def)
  have rec: "rm_recons m3 = r" using k(2) by simp
  define m4 where "m4 = rm_set_recons (r\<lparr>rtcpTp := now2, rtcpTn := timeradd now2 T', rtcpPMembers := membersCount (ciMembers (rmIn m3))\<rparr>)
    (rm_set_recons (r\<lparr>rtcpTp := now2\<rparr>) m3)"
  have "controlTransmissionService E now1 now2 now3 rand1 rand2 m = Some m4"
    unfolding m4_def using due(1,2) tr m3(1,6) rec rc T' by (simp add: controlTransmissionService_def Let_def) (simp add: rm_set_recons_def)
  moreover have "rm_recons m4 = \<lparr>rtcpTp = now2, rtcpTc = now2, rtcpTn = timeradd now2 T', rtcpPMembers = membersCount (ciMembers (rmIn m4))\<rparr>"
    "rmSent m4 = rmSent m3" "ciMembers (rmIn m4) = ciMembers (rmIn m3)" "rmInitial m4 = rmInitial m3" "rmCtrlSendCount m4 = rmCtrlSendCount m3"
    by (simp_all add: m4_def rm_set_recons_def rm_recons_def r_def)
  ultimately show ?thesis using m3(2-7) by auto
qed

text \<open>
  C15: reports are sent when they are due. When the time for the next report has come and is confirmed by the reconsideration of the timer, the service sends one report, which
  fits into the MTU and which the header check of every receiver accepts, and schedules the next one.
\<close>

theorem transmission_sends_report:
  fixes m :: "('na, 'ak, 'hm) QueueRTCPManager"
  assumes due: "controlServiceActive m" "timer_ge now1 (rtcpTn (rm_recons m))" "rm_interval E rand1 m = Some T" "timer_ge now2 (timeradd (rtcpTp (rm_recons m)) T)"
    and ok: "mem_ok (ciMembers (rmIn m))" "outCryptoContexts (rmCrypto m) = []"
    and room: "lowerHeadersSize (rmConfig m) + length (getItem (appItems (rmConfig m)) SDESItemTypeCNAME) + 200 \<le> pathMTU (rmConfig m)" "pathMTU (rmConfig m) \<le> 65535"
      "\<forall>t\<in>{2..9}. length (getItem (appItems (rmConfig m)) t) \<le> 99"
    and iv: "\<And>avg. computeRTCPInterval (seFloat E) (seDouble E) rand2 (rmInterval m) (rtcpWeSent m) False (membersCount (ciMembers (rmIn m)))
      (activeSenders (ciMembers (rmIn m))) avg \<noteq> None"
  shows "\<exists>m' p T'. controlTransmissionService E now1 now2 now3 rand1 rand2 m = Some m' \<and> rmSent m' = rmSent m @ [p] \<and>
    checkCompoundRTCPHeader (p @ rest) (length p) = Some True \<and> length p + lowerHeadersSize (rmConfig m) \<le> pathMTU (rmConfig m) \<and>
    rm_recons m' = \<lparr>rtcpTp = now2, rtcpTc = now2, rtcpTn = timeradd now2 T', rtcpPMembers = membersCount (ciMembers (rmIn m'))\<rparr> \<and>
    mem_ok (ciMembers (rmIn m')) \<and> \<not> rmInitial m' \<and> rmCtrlSendCount m' = rmCtrlSendCount m + 1"
  by (rule service_sends_report [OF due ok room iv])

section \<open>A session that leaves holds back\<close>

lemma only_bye_once_bye:
  "bye_once E ssrc [] st = do { st' \<leftarrow> only_bye_once E ssrc st; a \<leftarrow> map_option fst (ci_source E ssrc st);
     Some (st'\<lparr>ciState := (ciState st')(a \<mapsto> stateLeaving), ciRecons := reverseReconsideration (membersCount (ciMembers st')) (ciRecons st')\<rparr>) }"
  by (auto simp: bye_once_def only_bye_once_def ci_event_def Let_def split: Option.bind_splits prod.splits if_splits)

lemma only_bye_once_counts:
  fixes st :: "('na, 'ak, 'hm) CtlIn"
  assumes "mem_ok_uncounted (ciMembers st)" "ssrc \<in> ids (ciMembers st)"
  shows "\<exists>st'. only_bye_once E ssrc st = Some st' \<and> membersCount (ciMembers st') = membersCount (ciMembers st) - 1"
  using bye_once_counts [OF assms, of E "[]"] unfolding only_bye_once_bye by (auto split: Option.bind_splits)

lemma only_bye_once_recons: "only_bye_once E ssrc st = Some st' \<Longrightarrow> ciRecons st' = ciRecons st"
  by (auto simp: only_bye_once_def ci_source_def ci_link_def ci_event_def Let_def split: Option.bind_splits prod.splits if_splits)

lemma only_bye_scan_recons: "only_bye_scan E buf len p st = Some st' \<Longrightarrow> ciRecons st' = ciRecons st"
proof (induction E buf len p st rule: only_bye_scan.induct)
  case (1 E buf len p st)
  have "only_bye_once E ssrc st = Some st1 \<Longrightarrow> ciRecons st1 = ciRecons st" for ssrc st1 by (rule only_bye_once_recons)
  with 1(2) show ?case
    by (subst (asm) only_bye_scan.simps) (auto split: if_splits option.splits dest!: 1(1))
qed

lemma getOnlyBye_recons: "getOnlyBye E ds st = Some st' \<Longrightarrow> ciRecons st' = ciRecons st"
  by (induction E ds st rule: getOnlyBye.induct) (auto split: option.splits bool.splits dest!: only_bye_scan_recons)

lemma bye_backoff_waits:
  assumes "bye_backoff E turns m = Returns m'" "halves_exact (seDouble E)" "\<forall>t\<in>set turns. case t of (ds, rand, now2, now3) \<Rightarrow> 0 \<le> rand \<and> tv_ok now2 \<and> tv_ok now3"
    "rtcpTp (rm_recons m) = t0" "tv_ok t0" "tv_ok (rtcpTc (rm_recons m))" "tv_ok (rtcpTn (rm_recons m))" "usecs t0 + min_half (rmInterval m) \<le> usecs (rtcpTn (rm_recons m))"
  shows "usecs t0 + min_half (rmInterval m) \<le> usecs (rtcpTc (rm_recons m')) \<and> rmSent m' = rmSent m \<and> rmConfig m' = rmConfig m \<and> rmCrypto m' = rmCrypto m"
  using assms
proof (induction turns arbitrary: m)
  case Nil
  then show ?case by (auto simp: timer_ge_usecs split: if_splits)
next
  case (Cons t ts m)
  obtain ds rand now2 now3 where t: "t = (ds, rand, now2, now3)" by (cases t) auto
  note prems = Cons.prems [unfolded t]
  show ?case
  proof (cases "timer_ge (rtcpTc (rm_recons m)) (rtcpTn (rm_recons m))")
    case True
    then show ?thesis using prems by (auto simp: timer_ge_usecs)
  next
    case False
    then obtain st b m2 where st: "getOnlyBye (ctl_in_env.truncate E) ds (rmIn m) = Some st" "rm_timerReconsideration E rand now2 (m\<lparr>rmIn := st\<rparr>) = Some (b, m2)"
      using prems(1) by (auto split: option.splits)
    have r: "rm_recons (m\<lparr>rmIn := st\<rparr>) = rm_recons m" using getOnlyBye_recons [OF st(1)] by (simp add: rm_recons_def)
    obtain T r2 where T: "rm_interval E rand (m\<lparr>rmIn := st\<rparr>) = Some T" "timerReconsideration T now2 (rm_recons m) = (b, r2)" "m2 = rm_set_recons r2 (m\<lparr>rmIn := st\<rparr>)"
      using st(2) by (auto simp: rm_timerReconsideration_def r Let_def split: Option.bind_splits prod.splits)
    have T_ok: "tv_ok T" "min_half (rmInterval m) \<le> usecs T" using rm_interval_at_least [OF T(1) prems(2)] prems(3) by auto
    have m2: "rm_recons m2 = r2" "rmInterval m2 = rmInterval m" "rmSent m2 = rmSent m" "rmConfig m2 = rmConfig m" "rmCrypto m2 = rmCrypto m"
      by (simp_all add: T(3)) (simp_all add: rm_set_recons_def)
    show ?thesis
    proof (cases b)
      case True
      then have "m' = m2" using prems(1) st \<open>\<not> timer_ge _ _\<close> by simp
      moreover have "usecs t0 + usecs T \<le> usecs now2" "rtcpTc r2 = now2" using T(2) True prems(3-5) T_ok
        by (auto simp: timerReconsideration_def Let_def timer_ge_usecs usecs_timeradd split: if_splits)
      ultimately show ?thesis using m2 T_ok by auto
    next
      case b: False
      let ?m = "rm_set_recons (r2\<lparr>rtcpTc := now3\<rparr>) m2"
      have "usecs t0 + min_half (rmInterval ?m) \<le> usecs (rtcpTc (rm_recons m')) \<and> rmSent m' = rmSent ?m \<and> rmConfig m' = rmConfig ?m \<and> rmCrypto m' = rmCrypto ?m"
      proof (rule Cons.IH)
        have "r2 = (rm_recons m)\<lparr>rtcpTn := timeradd t0 T, rtcpTc := now2\<rparr>" using T(2) b prems(4) by (auto simp: timerReconsideration_def Let_def split: if_splits)
        then show "rtcpTp (rm_recons ?m) = t0" "tv_ok (rtcpTc (rm_recons ?m))" "tv_ok (rtcpTn (rm_recons ?m))"
          "usecs t0 + min_half (rmInterval ?m) \<le> usecs (rtcpTn (rm_recons ?m))"
          using prems(3,4,5) m2(2) T_ok by (auto simp: usecs_timeradd)
      qed (use prems st b False m2(1) in auto)
      then show ?thesis using m2 by (simp add: rm_set_recons_def)
    qed
  qed
qed

text \<open>
  C34: a large session is left slowly. When more than 50 members are known, a session that has sent anything sends its one farewell packet no earlier than half the minimum
  interval after it began to leave, however the clock is reconsidered and whichever farewells of others arrive meanwhile.
\<close>

theorem bye_backs_off:
  fixes m :: "('na, 'ak, 'hm) QueueRTCPManager"
  assumes "dispatchBYE E now0 now1 rand turns reason m = Returns m'" "50 < membersCount (ciMembers (rmIn m))" "rmCtrlSendCount m \<noteq> 0"
    and "halves_exact (seDouble E)" "0 \<le> rand" "tv_ok now0" "tv_ok now1"
    and "\<forall>t\<in>set turns. case t of (ds, rand, now2, now3) \<Rightarrow> 0 \<le> rand \<and> tv_ok now2 \<and> tv_ok now3"
  shows "\<exists>p. rmSent m' = rmSent m @ [p] \<and> usecs now0 + min_half (rmInterval m) \<le> usecs (rtcpTc (rm_recons m'))"
proof -
  obtain m1 m2 where m1: "start_backoff E now0 now1 rand reason m = Some m1" "bye_backoff E turns m1 = Returns m2" "send_bye E reason m2 = Some m'"
    using assms(1-3) by (auto simp: dispatchBYE_def split: option.splits outcome.splits)
  obtain T where T: "rm_interval E rand m1 = Some T" "rm_recons m1 = \<lparr>rtcpTp = now0, rtcpTc = now1, rtcpTn = timeradd now0 T, rtcpPMembers = 1\<rparr>"
    "rmInterval m1 = rmInterval m" "rmSent m1 = rmSent m"
    using m1(1) by (auto simp: start_backoff_def Let_def split: Option.bind_splits) (simp add: rm_set_recons_def rm_recons_def)
  have i: "tv_ok T" "min_half (rmInterval m) \<le> usecs T" using rm_interval_at_least [OF T(1) assms(4,5)] T(3) by simp_all
  have "usecs now0 + min_half (rmInterval m1) \<le> usecs (rtcpTc (rm_recons m2)) \<and> rmSent m2 = rmSent m1 \<and> rmConfig m2 = rmConfig m1 \<and> rmCrypto m2 = rmCrypto m1"
    by (rule bye_backoff_waits [OF m1(2) assms(4,8)]) (use T i assms(6,7) in \<open>simp_all add: usecs_timeradd\<close>)
  moreover have "\<exists>p. rmSent m' = rmSent m2 @ [p]" "rm_recons m' = rm_recons m2"
    using m1(3) by (auto simp: send_bye_def rm_recons_def split: Option.bind_splits)
  ultimately show ?thesis using T(3,4) by auto
qed

section \<open>A sample session\<close>

definition sample_service :: "(unit, byte list, byte list \<times> byte list) service_env" where
  "sample_service = ctl_in_env.extend sample_ctl_env \<lparr>seFloat = id, seDouble = id, seBuffer = \<lambda>_. 0, seClock = \<lambda>_. time0, seSend = sample_send\<rparr>"

definition sec_time :: "int \<Rightarrow> timeval" where "sec_time s = \<lparr>tv_sec = s, tv_usec = 0\<rparr>"

definition sample_manager :: "u32 \<Rightarrow> (unit, byte list, byte list \<times> byte list) QueueRTCPManager" where
  "sample_manager n = newQueueRTCPManager id (sec_time 1000) (sample_ci ((newMembershipBookkeeping 11)\<lparr>membersCount := n\<rparr>)) sample_env 64000 sample_cfg"

lemma sample_service_simps [simp]:
  "seFloat sample_service = id" "seDouble sample_service = id" "seBuffer sample_service = (\<lambda>_. 0)" "seSend sample_service = sample_send"
  by (simp_all add: sample_service_def ctl_in_env.defs sample_ctl_env_def)

lemma sec_time_simps [simp]: "tv_ok (sec_time s)" "usecs (sec_time s) = s * 1000000" "timer_ge (sec_time s) (sec_time t) \<longleftrightarrow> t \<le> s" "tv_sec (sec_time s) = s" "tv_usec (sec_time s) = 0"
  by (auto simp: sec_time_def tv_ok_def usecs_def timer_ge_def)

lemma halves_exact_id: "halves_exact id"
  by (simp add: halves_exact_def mono_def)

lemma sample_manager_simps:
  "controlServiceActive (sample_manager n)" "rtcpNextCheck (sample_manager n) = sec_time 1000"
  "rm_recons (sample_manager n) = \<lparr>rtcpTp = time0, rtcpTc = time0, rtcpTn = time0, rtcpPMembers = 1\<rparr>" "rmSent (sample_manager n) = []"
  "min_half (rmInterval (sample_manager n)) = 2500000" "rmConfig (sample_manager n) = sample_cfg" "outCryptoContexts (rmCrypto (sample_manager n)) = []"
  "ciMembers (rmIn (sample_manager n)) = (newMembershipBookkeeping 11)\<lparr>membersCount := n\<rparr>" "rtcpWeSent (sample_manager n) = False" "rmCtrlSendCount (sample_manager n) = 0"
  by (simp_all add: sample_manager_def newQueueRTCPManager_def rm_recons_def min_half_def sample_ci_def)

lemma sample_manager_checks: "checks_ok (sec_time 1000) (sample_manager n)"
  unfolding sample_manager_def by (rule newQueueRTCPManager_checks) simp

text \<open>With few members the minimum of five seconds applies, and a random fraction of zero halves it.\<close>

lemma sample_interval:
  fixes n :: u32
  assumes "unat (n * ucast avg) \<le> 15000"
  shows "computeRTCPInterval id id 0 (rmInterval (sample_manager k)) False b n 0 avg = Some \<lparr>tv_sec = 2, tv_usec = 500000\<rparr>"
proof -
  define x where "x = unat (n * ucast avg)"
  have x: "to_microtimeout (real x / 3200 * 1000000) = Some (of_int \<lfloor>real x / 3200 * 1000000\<rfloor>)" "(of_int \<lfloor>real x / 3200 * 1000000\<rfloor> :: u32) < 5000000"
  proof -
    have "0 \<le> real x / 3200 * 1000000" "real x / 3200 * 1000000 < 5000000" using assms by (simp_all add: x_def [symmetric])
    then have "0 \<le> \<lfloor>real x / 3200 * 1000000\<rfloor>" "\<lfloor>real x / 3200 * 1000000\<rfloor> < 5000000" by (simp, linarith)
    then show "to_microtimeout (real x / 3200 * 1000000) = Some (of_int \<lfloor>real x / 3200 * 1000000\<rfloor>)" "(of_int \<lfloor>real x / 3200 * 1000000\<rfloor> :: u32) < 5000000"
      by (simp_all add: to_microtimeout_def word_less_def uint_word_of_int_eq take_bit_int_eq_self)
  qed
  have "to_microtimeout (5000000 * (1 / 2)) = Some 2500000" by (simp add: to_microtimeout_def)
  then show ?thesis using x
    by (simp add: computeRTCPInterval_def sample_manager_def newQueueRTCPManager_def x_def [symmetric])
qed

theorem reception_service_paced_witness:
  "\<exists>m'. controlReceptionService 5 sample_service (sec_time 1010) [] (sample_manager 0) = Returns m' \<and> checks_ok (sec_time 1010) m' \<and> 1010 * 1000000 < usecs (rtcpNextCheck m')"
proof -
  have "checks_ok (sec_time 1010) (sample_manager 0)" by (rule checks_ok_later [OF sample_manager_checks]) simp
  from reception_service_paced [OF sample_manager_simps(1) _ this, of 5 sample_service "[]"] show ?thesis by auto
qed

lemma sample_items: "length (getItem (appItems sample_cfg) t) \<le> 99"
proof -
  have "list_all (\<lambda>x. length x \<le> 99) (appItems sample_cfg)" "length (appItems sample_cfg) = 10" by (simp_all add: sample_cfg_def)
  then show ?thesis by (simp add: getItem_def SDESItemTypeEND_def SDESItemTypeH323CADDR_def SDESItemTypeCNAME_def list_all_length)
qed

lemma sample_due:
  "controlServiceActive (sample_manager 0)" "timer_ge (sec_time 1000) (rtcpTn (rm_recons (sample_manager 0)))"
  "rm_interval sample_service 0 (sample_manager 0) = Some \<lparr>tv_sec = 2, tv_usec = 500000\<rparr>"
  "timer_ge (sec_time 1000) (timeradd (rtcpTp (rm_recons (sample_manager 0))) \<lparr>tv_sec = 2, tv_usec = 500000\<rparr>)"
  "mem_ok (ciMembers (rmIn (sample_manager 0)))" "outCryptoContexts (rmCrypto (sample_manager 0)) = []"
  "lowerHeadersSize (rmConfig (sample_manager 0)) + length (getItem (appItems (rmConfig (sample_manager 0))) SDESItemTypeCNAME) + 200 \<le> pathMTU (rmConfig (sample_manager 0))"
  "pathMTU (rmConfig (sample_manager 0)) \<le> 65535" "\<forall>t\<in>{2..9}. length (getItem (appItems (rmConfig (sample_manager 0))) t) \<le> 99"
  "computeRTCPInterval (seFloat sample_service) (seDouble sample_service) 0 (rmInterval (sample_manager 0)) (rtcpWeSent (sample_manager 0)) False
      (membersCount (ciMembers (rmIn (sample_manager 0)))) (activeSenders (ciMembers (rmIn (sample_manager 0)))) avg \<noteq> None"
proof -
  have "(newMembershipBookkeeping 11 :: unit SourceData Membership)\<lparr>membersCount := 0\<rparr> = newMembershipBookkeeping 11" by (simp add: newMembershipBookkeeping_def)
  then show "mem_ok (ciMembers (rmIn (sample_manager 0)))" by (simp add: sample_manager_simps mem_ok_new)
  show "computeRTCPInterval (seFloat sample_service) (seDouble sample_service) 0 (rmInterval (sample_manager 0)) (rtcpWeSent (sample_manager 0)) False
      (membersCount (ciMembers (rmIn (sample_manager 0)))) (activeSenders (ciMembers (rmIn (sample_manager 0)))) avg \<noteq> None"
    using sample_interval [of 0 avg] by (simp add: sample_manager_simps newMembershipBookkeeping_def)
  show "rm_interval sample_service 0 (sample_manager 0) = Some \<lparr>tv_sec = 2, tv_usec = 500000\<rparr>"
    unfolding rm_interval_def using sample_interval [of 0] by (simp add: sample_manager_simps newMembershipBookkeeping_def)
  show "lowerHeadersSize (rmConfig (sample_manager 0)) + length (getItem (appItems (rmConfig (sample_manager 0))) SDESItemTypeCNAME) + 200 \<le> pathMTU (rmConfig (sample_manager 0))"
    using sample_items [of SDESItemTypeCNAME] by (simp add: sample_manager_simps) (simp add: sample_cfg_def)
qed (simp_all add: sample_manager_simps sample_items timer_ge_def timeradd_def time0_def, simp add: sample_cfg_def)

theorem transmission_spaced_witness:
  "\<exists>m' p. controlTransmissionService sample_service (sec_time 1000) (sec_time 1000) (sec_time 1000) 0 0 (sample_manager 0) = Some m' \<and> rmSent m' = [p] \<and>
     0 + 2500000 \<le> usecs (sec_time 1000) \<and> rtcpTp (rm_recons m') = sec_time 1000 \<and> usecs (sec_time 1000) + 2500000 \<le> usecs (rtcpTn (rm_recons m'))"
proof -
  obtain m' p where m': "controlTransmissionService sample_service (sec_time 1000) (sec_time 1000) (sec_time 1000) 0 0 (sample_manager 0) = Some m'" "rmSent m' = [p]"
    using service_sends_report [OF sample_due, of "sec_time 1000" "[]"] by (auto simp: sample_manager_simps)
  from transmission_spaced [OF m'(1)] m' show ?thesis by (auto simp: halves_exact_id sample_manager_simps time0_def usecs_def tv_ok_def)
qed

theorem transmission_sends_report_witness:
  "\<exists>m' p T'. controlTransmissionService sample_service (sec_time 1000) (sec_time 1000) (sec_time 1000) 0 0 (sample_manager 0) = Some m' \<and> rmSent m' = [] @ [p] \<and>
     checkCompoundRTCPHeader (p @ [1]) (length p) = Some True \<and>
     rm_recons m' = \<lparr>rtcpTp = sec_time 1000, rtcpTc = sec_time 1000, rtcpTn = timeradd (sec_time 1000) T', rtcpPMembers = membersCount (ciMembers (rmIn m'))\<rparr>"
  using transmission_sends_report [OF sample_due, of "sec_time 1000" "[1]"] by (auto simp: sample_manager_simps)

theorem bye_backs_off_witness:
  "\<exists>m' p. dispatchBYE sample_service (sec_time 1000) (sec_time 1001) 0 [([], 0, sec_time 1003, sec_time 1003)] [98, 121, 101] ((sample_manager 60)\<lparr>rmCtrlSendCount := 1\<rparr>) = Returns m' \<and>
     rmSent m' = [] @ [p] \<and> usecs (sec_time 1000) + 2500000 \<le> usecs (rtcpTc (rm_recons m'))"
proof -
  let ?m = "(sample_manager 60)\<lparr>rmCtrlSendCount := 1\<rparr>"
  obtain m' where "dispatchBYE sample_service (sec_time 1000) (sec_time 1001) 0 [([], 0, sec_time 1003, sec_time 1003)] [98, 121, 101] ?m = Returns m'"
  proof -
    have send: "\<exists>m'. send_bye sample_service [98, 121, 101] m = Some m'" if "outCryptoContexts (rmCrypto m) = []" for m :: "(unit, byte list, byte list \<times> byte list) QueueRTCPManager"
      using that build_bye_bytes [of "[98, 121, 101]" "\<lambda>_. 0" "ctlLocalSSRC (rmConfig m)"]
      by (auto simp: send_bye_def sendControlToDestinations_def select_ctl_out_def getOutQueueCryptoContextCtrl_def rtcp_header_def)
    have i: "computeRTCPInterval id id 0 (rmInterval (sample_manager 60)) False True 1 0 12 = Some \<lparr>tv_sec = 2, tv_usec = 500000\<rparr>"
      by (rule sample_interval) simp
    let ?r = "\<lparr>rtcpTp = sec_time 1000, rtcpTc = sec_time 1001, rtcpTn = timeradd (sec_time 1000) \<lparr>tv_sec = 2, tv_usec = 500000\<rparr>, rtcpPMembers = 1\<rparr>"
    obtain m1 where m1: "start_backoff sample_service (sec_time 1000) (sec_time 1001) 0 [98, 121, 101] ?m = Some m1" "rm_recons m1 = ?r"
      "rm_interval sample_service 0 m1 = Some \<lparr>tv_sec = 2, tv_usec = 500000\<rparr>" "outCryptoContexts (rmCrypto m1) = []"
      using i sample_manager_simps(3) [of 60]
      by (simp add: start_backoff_def rm_interval_def strlen_def sample_manager_simps newMembershipBookkeeping_def) (simp add: rm_set_recons_def rm_recons_def sample_manager_simps)
    have g: "\<not> timer_ge (sec_time 1001) (timeradd (sec_time 1000) \<lparr>tv_sec = 2, tv_usec = 500000\<rparr>)"
      "timer_ge (sec_time 1003) (timeradd (sec_time 1000) \<lparr>tv_sec = 2, tv_usec = 500000\<rparr>)" by (simp_all add: timer_ge_def timeradd_def)
    obtain m2 where "bye_backoff sample_service [([], 0, sec_time 1003, sec_time 1003)] m1 = Returns m2" "outCryptoContexts (rmCrypto m2) = []"
      using m1(2-4) g by (simp add: rm_timerReconsideration_def timerReconsideration_def Let_def) (simp add: rm_set_recons_def)
    moreover obtain m' where "send_bye sample_service [98, 121, 101] m2 = Some m'" using send [OF \<open>outCryptoContexts (rmCrypto m2) = []\<close>] by blast
    ultimately show ?thesis using m1(1) that by (simp add: dispatchBYE_def sample_manager_simps del: bye_backoff.simps)
  qed
  from bye_backs_off [OF this] this show ?thesis by (simp add: halves_exact_id sample_manager_simps)
qed

end
