(* ===== verification/Session.thy ===== *)
theory Session
  imports Rtcp_Service
begin

text \<open>
  Sessions and their thread: the ports of a session and the loop of \<^verbatim>\<open>SingleThreadRTPSession\<close> of \<^verbatim>\<open>src/src/ccrtp/rtp.h\<close>.
  A turn of the loop is one function; the sockets, the clock and the random numbers are its input. The
  sending, receiving and control parts of a session share one table of sources, one list of conflicts and the tables of the cipher.
\<close>

section \<open>Ports\<close>

definition odd_port :: "u16 \<Rightarrow> u16" where
  "odd_port port = (if port AND 1 \<noteq> 0 then port else port - 1)"

definition even_port :: "u16 \<Rightarrow> u16" where
  "even_port port = (if port AND 1 \<noteq> 0 then port - 1 else port)"

text \<open>The data and the control port that \<^verbatim>\<open>build\<close> opens.\<close>

definition base_ports :: "u16 \<Rightarrow> u16 \<Rightarrow> u16 \<times> u16" where
  "base_ports dataPort controlPort =
     (if controlPort = 0 then (even_port dataPort, even_port dataPort + 1) else (dataPort, controlPort))"

section \<open>A session\<close>

record ('na, 'ak, 'hm) Session =
  ssData :: "('na, 'ak, 'hm) RTPDataQueue"
  ssControl :: "('na, 'ak, 'hm) QueueRTCPManager"
  ssTimeout :: u32

text \<open>What a turn meets: readings of the clock for the schedule, the pending control packets, the data packet that arrives while it waits, and random fractions.\<close>

record 'na turn_input =
  tiSchedule :: "nat \<Rightarrow> timeval"
  tiControlNow :: timeval
  tiPending :: "(timeval \<times> 'na \<times> u16 \<times> byte list \<times> nat) list"
  tiSendNow1 :: timeval
  tiSendNow2 :: timeval
  tiSendNow3 :: timeval
  tiRand1 :: real
  tiRand2 :: real
  tiData :: "(timeval \<times> (byte list \<times> 'na \<times> u16) option) option"

definition to_control :: "('na, 'ak, 'hm) Session \<Rightarrow> ('na, 'ak, 'hm) QueueRTCPManager" where
  "to_control s = (ssControl s)\<lparr>rmIn := (rmIn (ssControl s))\<lparr>ciMembers := qmembers (iqPackets (dqIn (ssData s))), ciConflicts := iqConflicts (dqIn (ssData s)),
     ciEnv := iqEnv (dqIn (ssData s))\<rparr>\<rparr>"

definition from_control :: "('na, 'ak, 'hm) QueueRTCPManager \<Rightarrow> ('na, 'ak, 'hm) Session \<Rightarrow> ('na, 'ak, 'hm) Session" where
  "from_control m s =
     (let iq = dqIn (ssData s);
          iq = iq\<lparr>iqPackets := (iqPackets iq)\<lparr>qmembers := ciMembers (rmIn m)\<rparr>, iqConflicts := ciConflicts (rmIn m), iqEnv := ciEnv (rmIn m)\<rparr>
      in s\<lparr>ssControl := m, ssData := (ssData s)\<lparr>dqIn := iq, dqOut := (dqOut (ssData s))\<lparr>oqEnv := ciEnv (rmIn m)\<rparr>\<rparr>\<rparr>)"

definition session_control ::
  "nat \<Rightarrow> ('na, 'ak, 'hm) service_env \<Rightarrow> 'na turn_input \<Rightarrow> ('na, 'ak, 'hm) Session \<Rightarrow> ('na, 'ak, 'hm) Session outcome" where
  "session_control fuel E ti s =
     (case controlReceptionService fuel E (tiControlNow ti) (tiPending ti) (to_control s) of
        Undefined \<Rightarrow> Undefined
      | Loops \<Rightarrow> Loops
      | Returns m \<Rightarrow>
          (case controlTransmissionService E (tiSendNow1 ti) (tiSendNow2 ti) (tiSendNow3 ti) (tiRand1 ti) (tiRand2 ti) m of
             None \<Rightarrow> Undefined
           | Some m \<Rightarrow> Returns (from_control m s)))"

definition session_dispatch :: "('na, 'ak, 'hm) Session \<Rightarrow> ('na, 'ak, 'hm) Session option" where
  "session_dispatch s = map_option (\<lambda>(n, out). s\<lparr>ssData := (ssData s)\<lparr>dqOut := out\<rparr>\<rparr>) (dispatchDataPacket (dqOut (ssData s)))"

definition session_take_in ::
  "('na, 'ak, 'hm) in_env \<Rightarrow> timeval \<Rightarrow> (byte list \<times> 'na \<times> u16) option \<Rightarrow> ('na, 'ak, 'hm) Session \<Rightarrow> ('na, 'ak, 'hm) Session option" where
  "session_take_in R t d s = map_option (\<lambda>(n, iq). s\<lparr>ssData := (ssData s)\<lparr>dqIn := iq, dqOut := (dqOut (ssData s))\<lparr>oqEnv := iqEnv iq\<rparr>\<rparr>\<rparr>)
     (takeInDataPacket R t d (dqIn (ssData s)))"

definition session_wait :: "('na, 'ak, 'hm) Session \<Rightarrow> u32" where
  "session_wait s = (let maxWait = timeval2microtimeout (rtcpCheckInterval (ssControl s)) in if maxWait < ssTimeout s then maxWait else ssTimeout s)"

text \<open>The application puts data into the sending queue; the tables of the cipher are shared with the receiving one.\<close>

definition session_put :: "('ak, 'hm) ctl_env \<Rightarrow> u32 \<Rightarrow> byte list option \<Rightarrow> ('na, 'ak, 'hm) Session \<Rightarrow> ('na, 'ak, 'hm) Session option" where
  "session_put E stamp data s =
     map_option (\<lambda>out. s\<lparr>ssData := (ssData s)\<lparr>dqOut := out, dqIn := (dqIn (ssData s))\<lparr>iqEnv := oqEnv out\<rparr>\<rparr>\<rparr>) (putData E stamp data (dqOut (ssData s)))"

text \<open>One turn of \<^verbatim>\<open>run\<close>, with \<^verbatim>\<open>timeout\<close> as a part of the state; \<^verbatim>\<open>timerTick\<close> does nothing.\<close>

definition session_turn ::
  "nat \<Rightarrow> ('na, 'ak, 'hm) service_env \<Rightarrow> ('na, 'ak, 'hm) in_env \<Rightarrow> 'na turn_input \<Rightarrow> ('na, 'ak, 'hm) Session \<Rightarrow> ('na, 'ak, 'hm) Session outcome" where
  "session_turn fuel E R ti s =
     (case (if ssTimeout s < 1000 then
              map_option (\<lambda>(t, out). s\<lparr>ssTimeout := t, ssData := (ssData s)\<lparr>dqOut := out\<rparr>\<rparr>) (getSchedulingTimeout (tiSchedule ti) 0 (dqOut (ssData s)))
            else Some s) of
        None \<Rightarrow> Undefined
      | Some s \<Rightarrow>
          (case session_control fuel E ti s of
             Undefined \<Rightarrow> Undefined
           | Loops \<Rightarrow> Loops
           | Returns s \<Rightarrow>
               let s = s\<lparr>ssTimeout := session_wait s\<rparr> in
               (case (if ssTimeout s < 1000 then session_dispatch s
                      else map_option (\<lambda>s. s\<lparr>ssTimeout := 0\<rparr>)
                        (case tiData ti of
                           None \<Rightarrow> Some s
                         | Some (t, d) \<Rightarrow> if dataServiceActive (ssData s) then session_take_in R t d s else Some s)) of
                  None \<Rightarrow> Undefined
                | Some s \<Rightarrow> Returns s)))"

text \<open>The loop over the inputs, until the queue is not active; the last of them are for the farewell.\<close>

fun session_run ::
  "nat \<Rightarrow> ('na, 'ak, 'hm) service_env \<Rightarrow> ('na, 'ak, 'hm) in_env \<Rightarrow> 'na turn_input list \<Rightarrow> (timeval \<times> timeval \<times> real \<times> bye_wait list)
   \<Rightarrow> ('na, 'ak, 'hm) Session \<Rightarrow> ('na, 'ak, 'hm) Session outcome" where
  "session_run fuel E R tis (now0, now1, rand, turns) s =
     (if \<not> dataServiceActive (ssData s) then
        (case dispatchBYE E now0 now1 rand turns (map (of_nat \<circ> of_char) ''GNU ccRTP stack finishing.'') (to_control s) of
           Returns m \<Rightarrow> Returns (from_control m s)
         | Undefined \<Rightarrow> Undefined
         | Loops \<Rightarrow> Loops)
      else case tis of
        [] \<Rightarrow> Loops
      | ti # tis \<Rightarrow>
          (case session_turn fuel E R ti s of
             Returns s \<Rightarrow> session_run fuel E R tis (now0, now1, rand, turns) s
           | Undefined \<Rightarrow> Undefined
           | Loops \<Rightarrow> Loops))"

section \<open>Turns of a session\<close>

text \<open>No control packet is looked for and none is due in this turn.\<close>

definition quiet :: "'na turn_input \<Rightarrow> ('na, 'ak, 'hm) Session \<Rightarrow> bool" where
  "quiet ti s \<longleftrightarrow> \<not> timer_ge (tiControlNow ti) (rtcpNextCheck (ssControl s)) \<and> \<not> timer_ge (tiSendNow1 ti) (rtcpTn (rm_recons (ssControl s)))"

lemma quiet_control:
  assumes "quiet ti s"
  shows "\<exists>m e. session_control fuel E ti s = Returns (s\<lparr>ssControl := m, ssData := (ssData s)\<lparr>dqOut := (dqOut (ssData s))\<lparr>oqEnv := e\<rparr>\<rparr>\<rparr>) \<and>
    rtcpCheckInterval m = rtcpCheckInterval (ssControl s)"
proof -
  let ?m = "rm_set_recons ((rm_recons (to_control s))\<lparr>rtcpTc := tiControlNow ti\<rparr>) (to_control s)"
  let ?m2 = "rm_set_recons ((rm_recons ?m)\<lparr>rtcpTc := tiSendNow1 ti\<rparr>) ?m"
  have t: "rtcpNextCheck (to_control s) = rtcpNextCheck (ssControl s)" "rtcpTn (rm_recons (to_control s)) = rtcpTn (rm_recons (ssControl s))"
    by (simp_all add: to_control_def rm_recons_def)
  have m: "controlReceptionService fuel E (tiControlNow ti) (tiPending ti) (to_control s) = Returns (if controlServiceActive (to_control s) then ?m else to_control s)"
    using assms t by (simp add: quiet_def controlReceptionService_def Let_def rm_set_recons_def rm_recons_def)
  have f: ?thesis if "session_control fuel E ti s = Returns (from_control n s)" "ciMembers (rmIn n) = qmembers (iqPackets (dqIn (ssData s)))"
      "ciConflicts (rmIn n) = iqConflicts (dqIn (ssData s))" "ciEnv (rmIn n) = iqEnv (dqIn (ssData s))" "rtcpCheckInterval n = rtcpCheckInterval (ssControl s)" for n
  proof -
    have "from_control n s = s\<lparr>ssControl := n, ssData := (ssData s)\<lparr>dqOut := (dqOut (ssData s))\<lparr>oqEnv := ciEnv (rmIn n)\<rparr>\<rparr>\<rparr>"
      using that(2-4) by (simp add: from_control_def Let_def)
    then show ?thesis using that(1,5) by metis
  qed
  show ?thesis
  proof (cases "controlServiceActive (to_control s)")
    case True
    then have a: "controlServiceActive ?m" by (simp add: rm_set_recons_def)
    have "controlTransmissionService E (tiSendNow1 ti) (tiSendNow2 ti) (tiSendNow3 ti) (tiRand1 ti) (tiRand2 ti) ?m = Some ?m2"
      using assms t(2) a by (simp add: quiet_def controlTransmissionService_def Let_def)
    then have "session_control fuel E ti s = Returns (from_control ?m2 s)" using m True by (simp add: session_control_def)
    then show ?thesis by (rule f) (simp_all add: rm_set_recons_def to_control_def)
  next
    case False
    then have "controlTransmissionService E (tiSendNow1 ti) (tiSendNow2 ti) (tiSendNow3 ti) (tiRand1 ti) (tiRand2 ti) (to_control s) = Some (to_control s)"
      by (simp add: controlTransmissionService_def)
    then have "session_control fuel E ti s = Returns (from_control (to_control s) s)" using m False by (simp add: session_control_def)
    then show ?thesis by (rule f) (simp_all add: to_control_def)
  qed
qed

lemma session_turn_timeout: "session_turn fuel E R ti s = Returns s' \<Longrightarrow> ssTimeout s' < 1000"
  by (auto simp: session_turn_def session_dispatch_def Let_def split: option.splits outcome.splits if_splits)

text \<open>
  A packet that is due is sent in the next turn. When the first packet of the sending queue is due within a millisecond and has not expired, and no control packets are
  due, a turn of the loop of the session sends it to every destination, keeps the other packets, and leaves the receiving queue as it is.
\<close>

lemma due_packet_sent:
  fixes s :: "('na, 'ak, 'hm) Session"
  defines "out \<equiv> dqOut (ssData s)"
  assumes "ssTimeout s < 1000" "quiet ti s" "out_holds (oqList out) (p # ps)"
    and "send_time out p = Some t" "near (tiSchedule ti 0) t" "\<not> late (oqExpireTimeout out) (tiSchedule ti 0) t" "usecs t < usecs (tiSchedule ti 0) + 1000"
  shows "\<exists>s'. session_turn fuel E R ti s = Returns s' \<and> out_holds (oqList (dqOut (ssData s'))) ps \<and>
    oqSent (dqOut (ssData s')) = oqSent out @ to_all (oqDestinations out) (getRawPacketSrtp p) \<and> oqPacketCount (dqOut (ssData s')) = oqPacketCount out + 1 \<and>
    oqExpired (dqOut (ssData s')) = oqExpired out \<and> dqIn (ssData s') = dqIn (ssData s) \<and> ssTimeout s' < 1000"
proof -
  obtain w where w: "schedule_first (tiSchedule ti 0) out p = Some (Some w, out)" "w < 1000"
  proof (cases "usecs t \<ge> usecs (tiSchedule ti 0)")
    case True
    have "(of_int d :: u32) < 1000" if "0 \<le> d" "d < 1000" for d using that by (simp add: word_less_def uint_word_of_int_eq take_bit_int_eq_self)
    note this [of "usecs t - usecs (tiSchedule ti 0)"]
    then have "(of_int (usecs t - usecs (tiSchedule ti 0)) :: u32) < 1000" using assms(8) True by (simp del: of_int_diff)
    then show ?thesis using that True schedule_first_near [OF assms(5,6)] by simp
  next
    case False
    then show ?thesis using that [of 0] assms(7) schedule_first_near [OF assms(5,6)] by simp
  qed
  have g: "getSchedulingTimeout (tiSchedule ti) 0 (dqOut (ssData s)) = Some (w, dqOut (ssData s))"
    using getSchedulingTimeout_first [where clock = "tiSchedule ti" and i = 0, OF assms(4) w(1) refl] by (simp add: out_def)
  let ?s = "s\<lparr>ssTimeout := w\<rparr>"
  have "quiet ti ?s" using assms(3) by (simp add: quiet_def)
  then obtain m e where c: "session_control fuel E ti ?s = Returns (?s\<lparr>ssControl := m, ssData := (ssData s)\<lparr>dqOut := out\<lparr>oqEnv := e\<rparr>\<rparr>\<rparr>)"
    using quiet_control [of ti ?s fuel E] by (auto simp: out_def)
  let ?s2 = "?s\<lparr>ssControl := m, ssData := (ssData s)\<lparr>dqOut := out\<lparr>oqEnv := e\<rparr>\<rparr>\<rparr>"
  let ?s3 = "?s2\<lparr>ssTimeout := session_wait ?s2\<rparr>"
  have w2: "session_wait ?s2 < 1000" using w(2) by (auto simp: session_wait_def Let_def)
  have "out_holds (oqList (out\<lparr>oqEnv := e\<rparr>)) (p # ps)" using assms(4) by simp
  from dispatch_one [OF this] obtain out' where d: "dispatchDataPacket (out\<lparr>oqEnv := e\<rparr>) = Some (payloadSize p, out')" "out_holds (oqList out') ps"
    "oqSent out' = oqSent out @ to_all (oqDestinations out) (getRawPacketSrtp p)" "oqPacketCount out' = oqPacketCount out + 1" "oqExpired out' = oqExpired out" by auto
  then have "session_dispatch ?s3 = Some (?s3\<lparr>ssData := (ssData s)\<lparr>dqOut := out'\<rparr>\<rparr>)" by (simp add: session_dispatch_def)
  moreover have "s\<lparr>ssTimeout := w, ssData := (ssData s)\<lparr>dqOut := dqOut (ssData s)\<rparr>\<rparr> = ?s" by simp
  ultimately have "session_turn fuel E R ti s = Returns (?s3\<lparr>ssData := (ssData s)\<lparr>dqOut := out'\<rparr>\<rparr>)"
    unfolding session_turn_def using assms(2) g c w2 by simp
  then show ?thesis using d w2 by simp
qed

text \<open>
  A session with nothing to send receives: it waits for data, and the datagram that arrives meanwhile is taken into the receiving queue; nothing is sent.
\<close>

lemma idle_session_receives:
  fixes s :: "('na, 'ak, 'hm) Session"
  assumes "ssTimeout s < 1000" "quiet ti s" "out_holds (oqList (dqOut (ssData s))) []" "dataServiceActive (ssData s)"
    and "1000 \<le> oqSchedulingTimeout (dqOut (ssData s))" "1000 \<le> timeval2microtimeout (rtcpCheckInterval (ssControl s))"
    and "tiData ti = Some (t, d)" "takeInDataPacket R t d (dqIn (ssData s)) = Some (n, iq)"
  shows "\<exists>s'. session_turn fuel E R ti s = Returns s' \<and> dqIn (ssData s') = iq \<and> oqSent (dqOut (ssData s')) = oqSent (dqOut (ssData s)) \<and> ssTimeout s' = 0"
proof -
  let ?w = "oqSchedulingTimeout (dqOut (ssData s))"
  let ?s = "s\<lparr>ssTimeout := ?w\<rparr>"
  have g: "getSchedulingTimeout (tiSchedule ti) 0 (dqOut (ssData s)) = Some (?w, dqOut (ssData s))" by (rule getSchedulingTimeout_empty [OF assms(3)])
  have "quiet ti ?s" using assms(2) by (simp add: quiet_def)
  then obtain m e where c: "session_control fuel E ti ?s = Returns (?s\<lparr>ssControl := m, ssData := (ssData s)\<lparr>dqOut := (dqOut (ssData s))\<lparr>oqEnv := e\<rparr>\<rparr>\<rparr>)"
    "rtcpCheckInterval m = rtcpCheckInterval (ssControl s)"
    using quiet_control [of ti ?s fuel E] by auto
  let ?s2 = "?s\<lparr>ssControl := m, ssData := (ssData s)\<lparr>dqOut := (dqOut (ssData s))\<lparr>oqEnv := e\<rparr>\<rparr>\<rparr>"
  let ?s3 = "?s2\<lparr>ssTimeout := session_wait ?s2\<rparr>"
  have w2: "\<not> session_wait ?s2 < 1000" using assms(5,6) c(2) by (auto simp: session_wait_def Let_def)
  have "session_take_in R t d ?s3 = Some (?s3\<lparr>ssData := (ssData s)\<lparr>dqOut := (dqOut (ssData s))\<lparr>oqEnv := iqEnv iq\<rparr>, dqIn := iq\<rparr>\<rparr>)"
    using assms(8) by (simp add: session_take_in_def)
  moreover have "s\<lparr>ssTimeout := ?w, ssData := (ssData s)\<lparr>dqOut := dqOut (ssData s)\<rparr>\<rparr> = ?s" by simp
  ultimately have "session_turn fuel E R ti s = Returns (?s3\<lparr>ssData := (ssData s)\<lparr>dqOut := (dqOut (ssData s))\<lparr>oqEnv := iqEnv iq\<rparr>, dqIn := iq\<rparr>, ssTimeout := 0\<rparr>)"
    unfolding session_turn_def using assms(1,4,7) g c w2 by simp
  then show ?thesis by simp
qed


section \<open>A sample session\<close>

definition sample_session :: "(unit, byte list, byte list \<times> byte list) OutQueue \<Rightarrow> (unit, byte list, byte list \<times> byte list) Session" where
  "sample_session out = \<lparr>ssData = sample_queue\<lparr>dqOut := out\<rparr>, ssControl = sample_manager 1, ssTimeout = 0\<rparr>"

text \<open>A turn at the given time, before the first check for control packets.\<close>

definition sample_turn :: "timeval \<Rightarrow> (timeval \<times> (byte list \<times> unit \<times> u16) option) option \<Rightarrow> unit turn_input" where
  "sample_turn t d = \<lparr>tiSchedule = \<lambda>_. t, tiControlNow = sec_time 999, tiPending = [], tiSendNow1 = sec_time (- 1), tiSendNow2 = t, tiSendNow3 = t, tiRand1 = 0, tiRand2 = 0, tiData = d\<rparr>"

lemma sample_turn_quiet: "quiet (sample_turn t d) (sample_session out)"
  by (simp add: quiet_def sample_turn_def sample_session_def sample_manager_simps) (simp add: timer_ge_def sec_time_def time0_def)

end
