(* ===== verification/Session_Pool.thy ===== *)
theory Session_Pool
  imports Session
begin

text \<open>
  Pools of sessions: \<^verbatim>\<open>src/src/pool.cpp\<close> and \<^verbatim>\<open>src/src/ccrtp/pool.h\<close>. The elements of the list of a pool live at addresses, and so do the session objects.
  The thread of a pool is a machine with one step for each stretch of code that holds the lock, so that the application may add and remove sessions between any two steps. The
  result \<open>Undefined\<close> of a step is a use of freed memory or an undefined operation of a session.
\<close>

section \<open>Elements\<close>

record 'id SessionListElement =
  sleElem :: "'id option"
  sleCleared :: bool

definition newSessionListElement :: "'id \<Rightarrow> 'id SessionListElement" where
  "newSessionListElement e = \<lparr>sleElem = Some e, sleCleared = False\<rparr>"

record ('id, 'na, 'ak, 'hm) RTPSessionPool =
  plObjects :: "'id \<rightharpoonup> ('na, 'ak, 'hm) Session"
  plElements :: "nat \<rightharpoonup> 'id SessionListElement"
  sessionList :: "nat list"
  poolTimeout :: timeval
  recvSocketSet :: "int list"
  highestSocket :: int
  poolActive :: "bool option"

text \<open>The constructor leaves \<^verbatim>\<open>poolActive\<close> without a value.\<close>

definition newRTPSessionPool :: "('id \<rightharpoonup> ('na, 'ak, 'hm) Session) \<Rightarrow> ('id, 'na, 'ak, 'hm) RTPSessionPool" where
  "newRTPSessionPool objs = \<lparr>plObjects = objs, plElements = Map.empty, sessionList = [], poolTimeout = \<lparr>tv_sec = 0, tv_usec = 3000\<rparr>, recvSocketSet = [],
     highestSocket = 0, poolActive = None\<rparr>"

text \<open>The result is \<open>Some None\<close> for the end of the list, and \<open>None\<close> when an element on the way has been freed.\<close>

fun pool_find :: "(nat \<rightharpoonup> 'id SessionListElement) \<Rightarrow> 'id \<Rightarrow> nat list \<Rightarrow> nat option option" where
  "pool_find es s [] = Some None"
| "pool_find es s (a # as) = (case es a of None \<Rightarrow> None | Some e \<Rightarrow> if sleElem e = Some s then Some (Some a) else pool_find es s as)"

text \<open>The address is that of the new element.\<close>

definition addSession :: "nat \<Rightarrow> 'id \<Rightarrow> ('id, 'na, 'ak, 'hm) RTPSessionPool \<Rightarrow> (bool \<times> ('id, 'na, 'ak, 'hm) RTPSessionPool) option" where
  "addSession a s p =
     (case pool_find (plElements p) s (sessionList p) of
        None \<Rightarrow> None
      | Some None \<Rightarrow> Some (True, p\<lparr>plElements := (plElements p)(a \<mapsto> newSessionListElement s), sessionList := sessionList p @ [a]\<rparr>)
      | Some (Some _) \<Rightarrow> Some (False, p))"

text \<open>Clearing an element deletes the session.\<close>

definition clear_element :: "nat \<Rightarrow> ('id, 'na, 'ak, 'hm) RTPSessionPool \<Rightarrow> ('id, 'na, 'ak, 'hm) RTPSessionPool option" where
  "clear_element a p =
     (case plElements p a of
        None \<Rightarrow> None
      | Some e \<Rightarrow>
          let p' = p\<lparr>plElements := (plElements p)(a \<mapsto> \<lparr>sleElem = None, sleCleared = True\<rparr>)\<rparr> in
          (case sleElem e of
             None \<Rightarrow> Some p'
           | Some s \<Rightarrow> if plObjects p s = None then None else Some (p'\<lparr>plObjects := (plObjects p)(s := None)\<rparr>)))"

definition removeSession :: "'id \<Rightarrow> ('id, 'na, 'ak, 'hm) RTPSessionPool \<Rightarrow> (bool \<times> ('id, 'na, 'ak, 'hm) RTPSessionPool) option" where
  "removeSession s p =
     (case pool_find (plElements p) s (sessionList p) of
        None \<Rightarrow> None
      | Some (Some i) \<Rightarrow> map_option (\<lambda>p. (True, p)) (clear_element i p)
      | Some None \<Rightarrow> Some (False, p))"

definition getPoolLength :: "('id, 'na, 'ak, 'hm) RTPSessionPool \<Rightarrow> nat" where
  "getPoolLength p = length (sessionList p)"

definition setPoolTimeout :: "timeval \<Rightarrow> ('id, 'na, 'ak, 'hm) RTPSessionPool \<Rightarrow> ('id, 'na, 'ak, 'hm) RTPSessionPool" where
  "setPoolTimeout t p = p\<lparr>poolTimeout := t\<rparr>"

section \<open>The thread\<close>

text \<open>What a step meets: the input of each session, the data packet that waits at its socket, and the result of \<^verbatim>\<open>select\<close>.\<close>

record ('id, 'na) pool_input =
  piTurn :: "'id \<Rightarrow> 'na turn_input"
  piData :: "'id \<Rightarrow> timeval \<times> (byte list \<times> 'na \<times> u16) option"
  piSelect :: "int \<Rightarrow> int list \<Rightarrow> timeval \<Rightarrow> int \<times> int list"

text \<open>The session of an element, if the element has not been cleared.\<close>

definition with_session ::
  "('id, 'na, 'ak, 'hm) RTPSessionPool \<Rightarrow> nat \<Rightarrow> 'b \<Rightarrow> ('id \<Rightarrow> ('na, 'ak, 'hm) Session \<Rightarrow> 'b outcome) \<Rightarrow> 'b outcome" where
  "with_session p a skip f =
     (case plElements p a of
        None \<Rightarrow> Undefined
      | Some e \<Rightarrow>
          if sleCleared e then Returns skip
          else (case sleElem e of None \<Rightarrow> Undefined | Some i \<Rightarrow> (case plObjects p i of None \<Rightarrow> Undefined | Some s \<Rightarrow> f i s)))"

definition pool_control ::
  "nat \<Rightarrow> ('na, 'ak, 'hm) service_env \<Rightarrow> ('id, 'na) pool_input \<Rightarrow> nat \<Rightarrow> ('id, 'na, 'ak, 'hm) RTPSessionPool \<Rightarrow> ('id, 'na, 'ak, 'hm) RTPSessionPool outcome" where
  "pool_control fuel E I a p =
     with_session p a p (\<lambda>i s.
       (case session_control fuel E (piTurn I i) s of
          Returns s \<Rightarrow> Returns (p\<lparr>plObjects := (plObjects p)(i \<mapsto> s)\<rparr>)
        | Undefined \<Rightarrow> Undefined
        | Loops \<Rightarrow> Loops))"

definition FD_SETSIZE :: int where "FD_SETSIZE = 1024"

definition fd_ok :: "int \<Rightarrow> bool" where "fd_ok s \<longleftrightarrow> 0 \<le> s \<and> s < FD_SETSIZE"

definition raise_highest :: "int \<Rightarrow> int \<Rightarrow> int" where
  "raise_highest s highest = (if s > highest + 1 then s + 1 else highest)"

fun watch_sockets :: "('id \<Rightarrow> int) \<Rightarrow> ('id, 'na, 'ak, 'hm) RTPSessionPool \<Rightarrow> nat list \<Rightarrow> int list \<times> int \<Rightarrow> (int list \<times> int) outcome" where
  "watch_sockets sock p [] acc = Returns acc"
| "watch_sockets sock p (a # as) (fds, highest) =
     (case with_session p a (fds, highest) (\<lambda>i s. if fd_ok (sock i) then Returns (sock i # fds, raise_highest (sock i) highest) else Undefined) of
        Returns acc \<Rightarrow> watch_sockets sock p as acc
      | Undefined \<Rightarrow> Undefined
      | Loops \<Rightarrow> Loops)"

text \<open>The second half of a round for one session: data, then one packet of the schedule.\<close>

definition pool_schedule :: "'na turn_input \<Rightarrow> u32 \<Rightarrow> ('na, 'ak, 'hm) Session \<Rightarrow> (u32 \<times> ('na, 'ak, 'hm) Session) option" where
  "pool_schedule ti packetTimeout s =
     do { (t, s) \<leftarrow> (if packetTimeout < 1000
                     then map_option (\<lambda>(t, out). (t, s\<lparr>ssData := (ssData s)\<lparr>dqOut := out\<rparr>\<rparr>)) (getSchedulingTimeout (tiSchedule ti) 0 (dqOut (ssData s)))
                     else Some (packetTimeout, s));
          let maxWait = timeval2microtimeout (rtcpCheckInterval (ssControl s));
          let t = (if maxWait < t then maxWait else t);
          if t < 1000 then map_option (\<lambda>s. (t, s)) (session_dispatch s) else Some (0, s) }"

definition pool_serve ::
  "('na, 'ak, 'hm) in_env \<Rightarrow> 'na turn_input \<Rightarrow> timeval \<times> (byte list \<times> 'na \<times> u16) option \<Rightarrow> bool \<Rightarrow> int \<Rightarrow> u32 \<Rightarrow> ('na, 'ak, 'hm) Session
   \<Rightarrow> (int \<times> u32 \<times> ('na, 'ak, 'hm) Session) option" where
  "pool_serve R ti d isset n packetTimeout s =
     do { s \<leftarrow> (if isset \<and> n > 0 then session_take_in R (fst d) (snd d) s else Some s);
          (t, s) \<leftarrow> pool_schedule ti packetTimeout s;
          Some (if isset then n - 1 else n, t, s) }"

fun purge_elements :: "nat list \<Rightarrow> (nat \<rightharpoonup> 'id SessionListElement) \<Rightarrow> (nat list \<times> (nat \<rightharpoonup> 'id SessionListElement)) option" where
  "purge_elements [] es = Some ([], es)"
| "purge_elements (a # as) es =
     (case es a of
        None \<Rightarrow> None
      | Some e \<Rightarrow> if sleCleared e then purge_elements as (es(a := None)) else map_option (\<lambda>(as, es). (a # as, es)) (purge_elements as es))"

text \<open>Where the thread is; the lists are the copy of the list of the pool that the round works on, or what is left of it.\<close>

datatype pool_at = PoolIdle | PoolTop | PoolControl "nat list" "nat list" | PoolWatch "nat list" | PoolSelect "nat list" | PoolServe "nat list" int | PoolPurge | PoolDone

record pool_thread =
  ptAt :: pool_at
  packetTimeout :: u32

definition pool_turn ::
  "nat \<Rightarrow> ('na, 'ak, 'hm) service_env \<Rightarrow> ('na, 'ak, 'hm) in_env \<Rightarrow> ('id \<Rightarrow> int) \<Rightarrow> ('id, 'na) pool_input \<Rightarrow> pool_thread \<times> ('id, 'na, 'ak, 'hm) RTPSessionPool
   \<Rightarrow> (pool_thread \<times> ('id, 'na, 'ak, 'hm) RTPSessionPool) outcome" where
  "pool_turn fuel E R sock I = (\<lambda>(th, p).
     (case ptAt th of
        PoolIdle \<Rightarrow> Returns (th, p)
      | PoolTop \<Rightarrow>
          (case poolActive p of
             None \<Rightarrow> Undefined
           | Some active \<Rightarrow> Returns (th\<lparr>ptAt := if active then PoolControl (sessionList p) (sessionList p) else PoolDone\<rparr>, p))
      | PoolControl sessions [] \<Rightarrow> Returns (th\<lparr>ptAt := PoolWatch sessions\<rparr>, p)
      | PoolControl sessions (a # as) \<Rightarrow>
          (case pool_control fuel E I a p of Returns p \<Rightarrow> Returns (th\<lparr>ptAt := PoolControl sessions as\<rparr>, p) | Undefined \<Rightarrow> Undefined | Loops \<Rightarrow> Loops)
      | PoolWatch sessions \<Rightarrow>
          (case watch_sockets sock p sessions ([], 0) of
             Returns (fds, highest) \<Rightarrow> Returns (th\<lparr>ptAt := PoolSelect sessions\<rparr>, p\<lparr>recvSocketSet := fds, highestSocket := highest\<rparr>)
           | Undefined \<Rightarrow> Undefined
           | Loops \<Rightarrow> Loops)
      | PoolSelect sessions \<Rightarrow>
          (case piSelect I (highestSocket p) (recvSocketSet p) (poolTimeout p) of
             (n, fds) \<Rightarrow> Returns (th\<lparr>ptAt := PoolServe sessions n\<rparr>, p\<lparr>recvSocketSet := fds\<rparr>))
      | PoolServe [] n \<Rightarrow> Returns (th\<lparr>ptAt := PoolPurge\<rparr>, p)
      | PoolServe (a # as) n \<Rightarrow>
          with_session p a (th\<lparr>ptAt := PoolServe as n\<rparr>, p) (\<lambda>i s.
            if \<not> fd_ok (sock i) then Undefined
            else case pool_serve R (piTurn I i) (piData I i) (sock i \<in> set (recvSocketSet p)) n (packetTimeout th) s of
                None \<Rightarrow> Undefined
              | Some (n, t, s) \<Rightarrow> Returns (th\<lparr>ptAt := PoolServe as n, packetTimeout := t\<rparr>, p\<lparr>plObjects := (plObjects p)(i \<mapsto> s)\<rparr>))
      | PoolPurge \<Rightarrow>
          (case purge_elements (sessionList p) (plElements p) of
             None \<Rightarrow> Undefined
           | Some (as, es) \<Rightarrow> Returns (th\<lparr>ptAt := PoolTop\<rparr>, p\<lparr>sessionList := as, plElements := es\<rparr>))
      | PoolDone \<Rightarrow> Returns (th, p)))"

text \<open>Starting the pool starts its thread.\<close>

definition startRunning :: "pool_thread \<times> ('id, 'na, 'ak, 'hm) RTPSessionPool \<Rightarrow> pool_thread \<times> ('id, 'na, 'ak, 'hm) RTPSessionPool" where
  "startRunning = (\<lambda>(th, p). (th\<lparr>ptAt := PoolTop, packetTimeout := 0\<rparr>, p\<lparr>poolActive := Some True\<rparr>))"

section \<open>Interleavings with the application\<close>

text \<open>
  A step of the thread, or one of the application: it starts the pool, adds or removes a session, changes the time to wait, creates a session object or works on one.
\<close>

inductive pool_step ::
  "nat \<Rightarrow> ('na, 'ak, 'hm) service_env \<Rightarrow> ('na, 'ak, 'hm) in_env \<Rightarrow> ('id \<Rightarrow> int) \<Rightarrow> pool_thread \<times> ('id, 'na, 'ak, 'hm) RTPSessionPool
   \<Rightarrow> pool_thread \<times> ('id, 'na, 'ak, 'hm) RTPSessionPool \<Rightarrow> bool"
  for fuel :: nat and E :: "('na, 'ak, 'hm) service_env" and R :: "('na, 'ak, 'hm) in_env" and sock :: "'id \<Rightarrow> int" where
  step_thread: "pool_turn fuel E R sock I (th, p) = Returns st \<Longrightarrow> pool_step fuel E R sock (th, p) st"
| step_start: "ptAt th = PoolIdle \<Longrightarrow> pool_step fuel E R sock (th, p) (startRunning (th, p))"
| step_add: "plElements p a = None \<Longrightarrow> plObjects p s \<noteq> None \<Longrightarrow> addSession a s p = Some (b, p') \<Longrightarrow> pool_step fuel E R sock (th, p) (th, p')"
| step_remove: "removeSession s p = Some (b, p') \<Longrightarrow> pool_step fuel E R sock (th, p) (th, p')"
| step_timeout: "pool_step fuel E R sock (th, p) (th, setPoolTimeout t p)"
| step_object: "pool_step fuel E R sock (th, p) (th, p\<lparr>plObjects := (plObjects p)(i \<mapsto> s)\<rparr>)"

inductive_cases pool_stepE: "pool_step fuel E R sock (th, p) st"

text \<open>The addresses that the thread still has to visit in this round.\<close>

fun round_addresses :: "pool_at \<Rightarrow> nat list" where
  "round_addresses (PoolControl sessions as) = sessions @ as"
| "round_addresses (PoolWatch sessions) = sessions"
| "round_addresses (PoolSelect sessions) = sessions"
| "round_addresses (PoolServe as n) = as"
| "round_addresses _ = []"

definition element_ok :: "('id \<rightharpoonup> ('na, 'ak, 'hm) Session) \<Rightarrow> 'id SessionListElement \<Rightarrow> bool" where
  "element_ok objs e \<longleftrightarrow> (case sleElem e of None \<Rightarrow> sleCleared e | Some s \<Rightarrow> \<not> sleCleared e \<and> objs s \<noteq> None)"

definition pool_ok :: "('id, 'na, 'ak, 'hm) RTPSessionPool \<Rightarrow> bool" where
  "pool_ok p \<longleftrightarrow> distinct (sessionList p) \<and> set (sessionList p) = dom (plElements p) \<and> (\<forall>a e. plElements p a = Some e \<longrightarrow> element_ok (plObjects p) e) \<and>
     (\<forall>a b e e' s. plElements p a = Some e \<longrightarrow> plElements p b = Some e' \<longrightarrow> sleElem e = Some s \<longrightarrow> sleElem e' = Some s \<longrightarrow> a = b)"

definition thread_ok :: "pool_thread \<Rightarrow> ('id, 'na, 'ak, 'hm) RTPSessionPool \<Rightarrow> bool" where
  "thread_ok th p \<longleftrightarrow> set (round_addresses (ptAt th)) \<subseteq> set (sessionList p) \<and> (ptAt th \<noteq> PoolIdle \<longrightarrow> poolActive p = Some True)"

text \<open>The sessions of a pool, in the order in which they were added.\<close>

definition pool_members :: "('id, 'na, 'ak, 'hm) RTPSessionPool \<Rightarrow> 'id list" where
  "pool_members p = List.map_filter (\<lambda>a. Option.bind (plElements p a) sleElem) (sessionList p)"

lemma set_map_filter: "set (List.map_filter f xs) = {y. \<exists>x\<in>set xs. f x = Some y}"
  by (induction xs) (auto simp: map_filter_simps split: option.splits)

lemma set_pool_members: "pool_ok p \<Longrightarrow> set (pool_members p) = {s. \<exists>a e. plElements p a = Some e \<and> sleElem e = Some s}"
  by (force simp: pool_members_def set_map_filter pool_ok_def dom_def Option.bind_eq_Some_conv)

lemma pool_okI:
  assumes "distinct (sessionList p)" "set (sessionList p) = dom (plElements p)" "\<And>a e. plElements p a = Some e \<Longrightarrow> element_ok (plObjects p) e"
    "\<And>a b e e' s. plElements p a = Some e \<Longrightarrow> plElements p b = Some e' \<Longrightarrow> sleElem e = Some s \<Longrightarrow> sleElem e' = Some s \<Longrightarrow> a = b"
  shows "pool_ok p"
  unfolding pool_ok_def using assms by blast

lemma pool_okD: "pool_ok p \<Longrightarrow> distinct (sessionList p)" "pool_ok p \<Longrightarrow> set (sessionList p) = dom (plElements p)"
  "pool_ok p \<Longrightarrow> plElements p a = Some e \<Longrightarrow> element_ok (plObjects p) e"
  by (simp_all add: pool_ok_def)

lemma pool_member_unique: "pool_ok p \<Longrightarrow> plElements p a = Some e \<Longrightarrow> plElements p b = Some e' \<Longrightarrow> sleElem e = Some s \<Longrightarrow> sleElem e' = Some s \<Longrightarrow> a = b"
  unfolding pool_ok_def by blast

lemma pool_find_result:
  assumes "set as \<subseteq> dom es"
  shows "\<exists>r. pool_find es s as = Some r \<and> (case r of None \<Rightarrow> \<forall>a\<in>set as. Option.bind (es a) sleElem \<noteq> Some s | Some a \<Rightarrow> a \<in> set as \<and> Option.bind (es a) sleElem = Some s)"
  using assms by (induction as) (auto split: option.splits)

lemma pool_find_ok:
  assumes "pool_ok p"
  shows "(pool_find (plElements p) s (sessionList p) = Some None \<and> s \<notin> set (pool_members p)) \<or>
    (\<exists>a e. pool_find (plElements p) s (sessionList p) = Some (Some a) \<and> plElements p a = Some e \<and> sleElem e = Some s \<and> a \<in> set (sessionList p) \<and> s \<in> set (pool_members p))"
proof -
  have d: "set (sessionList p) = dom (plElements p)" using assms by (simp add: pool_ok_def)
  obtain r where "pool_find (plElements p) s (sessionList p) = Some r"
    "case r of None \<Rightarrow> \<forall>a\<in>set (sessionList p). Option.bind (plElements p a) sleElem \<noteq> Some s | Some a \<Rightarrow> a \<in> set (sessionList p) \<and> Option.bind (plElements p a) sleElem = Some s"
    using pool_find_result [of "sessionList p" "plElements p" s] d by auto
  then show ?thesis unfolding set_pool_members [OF assms] using d by (cases r) (force simp: dom_def Option.bind_eq_Some_conv)+
qed

lemma pool_members_distinct: "pool_ok p \<Longrightarrow> distinct (pool_members p)"
proof -
  assume ok: "pool_ok p"
  have "distinct (List.map_filter (\<lambda>a. Option.bind (plElements p a) sleElem) as)" if "distinct as" for as
    using that
  proof (induction as)
    case (Cons a as)
    have False if "plElements p a = Some e" "sleElem e = Some s" "plElements p b = Some e'" "sleElem e' = Some s" "b \<in> set as" for e s b e'
      using pool_member_unique [OF ok that(1,3,2,4)] that(5) Cons.prems by simp
    then show ?case using Cons by (force simp: map_filter_simps set_map_filter Option.bind_eq_Some_conv split: option.splits)
  qed (simp add: map_filter_simps)
  then show ?thesis using ok by (simp add: pool_members_def pool_ok_def)
qed

section \<open>Operations on the list\<close>

lemma addSession_ok:
  assumes ok: "pool_ok p" and fresh: "plElements p a = None" "plObjects p s \<noteq> None"
  shows "\<exists>p'. addSession a s p = Some (s \<notin> set (pool_members p), p') \<and> pool_ok p' \<and>
    pool_members p' = (if s \<in> set (pool_members p) then pool_members p else pool_members p @ [s]) \<and>
    set (sessionList p) \<subseteq> set (sessionList p') \<and> poolActive p' = poolActive p \<and> plObjects p' = plObjects p"
proof (cases "s \<in> set (pool_members p)")
  case True
  then show ?thesis using pool_find_ok [OF ok, of s] ok by (auto simp: addSession_def)
next
  case False
  let ?es = "(plElements p)(a \<mapsto> newSessionListElement s)"
  let ?p = "p\<lparr>plElements := ?es, sessionList := sessionList p @ [a]\<rparr>"
  have a: "a \<notin> set (sessionList p)" using ok fresh(1) by (auto simp: pool_ok_def)
  have n: "sleElem e \<noteq> Some s" if "plElements p b = Some e" for b e using False that set_pool_members [OF ok] by auto
  have "List.map_filter (\<lambda>a. Option.bind (?es a) sleElem) (sessionList p) = pool_members p"
    unfolding pool_members_def map_filter_def using a by (auto intro!: map_cong filter_cong)
  then have m: "pool_members ?p = pool_members p @ [s]" by (simp add: pool_members_def map_filter_def) (simp add: map_filter_simps newSessionListElement_def)
  have uniq: "b = b'" if "?es b = Some e" "?es b' = Some e'" "sleElem e = Some x" "sleElem e' = Some x" for b b' e e' x
    using that n pool_member_unique [OF ok, of b e b' e' x] by (auto simp: newSessionListElement_def split: if_splits)
  have el: "element_ok (plObjects p) e" if "?es b = Some e" for b e
    using that pool_okD(3) [OF ok, of b e] fresh(2) by (auto simp: element_ok_def newSessionListElement_def split: if_splits)
  have "pool_ok ?p"
  proof (rule pool_okI)
    show "distinct (sessionList ?p)" using pool_okD(1) [OF ok] a by simp
    show "set (sessionList ?p) = dom (plElements ?p)" using pool_okD(2) [OF ok] by auto
    show "element_ok (plObjects ?p) e" if "plElements ?p b = Some e" for b e using el [of b e] that by (simp del: fun_upd_apply)
    show "b = b'" if "plElements ?p b = Some e" "plElements ?p b' = Some e'" "sleElem e = Some x" "sleElem e' = Some x" for b b' e e' x
      using uniq [of b e b' e' x] that by (simp del: fun_upd_apply)
  qed
  then show ?thesis using False m pool_find_ok [OF ok, of s] by (intro exI [of _ ?p]) (simp add: addSession_def subset_insertI)
qed

lemma removeSession_ok:
  assumes ok: "pool_ok p"
  shows "\<exists>p'. removeSession s p = Some (s \<in> set (pool_members p), p') \<and> pool_ok p' \<and> pool_members p' = filter (\<lambda>x. x \<noteq> s) (pool_members p) \<and>
    sessionList p' = sessionList p \<and> poolActive p' = poolActive p \<and> plObjects p' = (if s \<in> set (pool_members p) then (plObjects p)(s := None) else plObjects p)"
proof (cases "s \<in> set (pool_members p)")
  case False
  then have "filter (\<lambda>x. x \<noteq> s) (pool_members p) = pool_members p" by (intro filter_True) auto
  then show ?thesis using pool_find_ok [OF ok, of s] ok False by (auto simp: removeSession_def)
next
  case True
  then obtain a e where a: "pool_find (plElements p) s (sessionList p) = Some (Some a)" "plElements p a = Some e" "sleElem e = Some s" "a \<in> set (sessionList p)"
    using pool_find_ok [OF ok, of s] by auto
  let ?es = "(plElements p)(a \<mapsto> \<lparr>sleElem = None, sleCleared = True\<rparr>)"
  let ?p = "p\<lparr>plElements := ?es, plObjects := (plObjects p)(s := None)\<rparr>"
  have n: "sleElem e' \<noteq> Some s" if "plElements p b = Some e'" "b \<noteq> a" for b e' using pool_member_unique [OF ok a(2) that(1) a(3)] that(2) by auto
  note l = pool_okD(3) [OF ok]
  have "plObjects p s \<noteq> None" using l [OF a(2)] a(3) by (simp add: element_ok_def)
  then have r: "removeSession s p = Some (True, ?p)" using a by (simp add: removeSession_def clear_element_def Let_def)
  have "List.map_filter (\<lambda>a. Option.bind (?es a) sleElem) as = filter (\<lambda>x. x \<noteq> s) (List.map_filter (\<lambda>a. Option.bind (plElements p a) sleElem) as)" for as
    using n a(2,3) by (induction as) (auto simp: map_filter_simps split: option.splits Option.bind_splits)
  then have m: "pool_members ?p = filter (\<lambda>x. x \<noteq> s) (pool_members p)" by (simp add: pool_members_def)
  have uniq: "b = b'" if "?es b = Some e" "?es b' = Some e'" "sleElem e = Some x" "sleElem e' = Some x" for b b' e e' x
    using that pool_member_unique [OF ok, of b e b' e' x] by (auto split: if_splits)
  have el: "element_ok ((plObjects p)(s := None)) e'" if "?es b = Some e'" for b e'
    using that l [of b e'] n [of b e'] by (auto simp: element_ok_def split: if_splits option.splits)
  have "pool_ok ?p"
  proof (rule pool_okI)
    show "distinct (sessionList ?p)" using pool_okD(1) [OF ok] by simp
    show "set (sessionList ?p) = dom (plElements ?p)" using pool_okD(2) [OF ok] a(4) by auto
    show "element_ok (plObjects ?p) e" if "plElements ?p b = Some e" for b e using el [of b e] that by (simp del: fun_upd_apply)
    show "b = b'" if "plElements ?p b = Some e" "plElements ?p b' = Some e'" "sleElem e = Some x" "sleElem e' = Some x" for b b' e e' x
      using uniq [of b e b' e' x] that by (simp del: fun_upd_apply)
  qed
  then show ?thesis using r m True by auto
qed

lemma purge_elements_result:
  assumes "distinct as" "set as \<subseteq> dom es"
  shows "\<exists>es'. purge_elements as es = Some (filter (\<lambda>a. \<not> sleCleared (the (es a))) as, es') \<and> (\<forall>b. es' b = (if b \<in> set as \<and> sleCleared (the (es b)) then None else es b))"
  using assms
proof (induction as arbitrary: es)
  case (Cons a as)
  then obtain e where e: "es a = Some e" by auto
  have f: "filter (\<lambda>b. \<not> sleCleared (the ((es(a := None)) b))) as = filter (\<lambda>b. \<not> sleCleared (the (es b))) as" using Cons.prems(1) by (intro filter_cong) auto
  have "set as \<subseteq> dom (es(a := None))" "set as \<subseteq> dom es" using Cons.prems by auto
  then obtain es1 es2 where "purge_elements as es = Some (filter (\<lambda>a. \<not> sleCleared (the (es a))) as, es1)"
    "\<And>b. es1 b = (if b \<in> set as \<and> sleCleared (the (es b)) then None else es b)"
    "purge_elements as (es(a := None)) = Some (filter (\<lambda>a. \<not> sleCleared (the (es a))) as, es2)"
    "\<And>b. es2 b = (if b \<in> set as \<and> sleCleared (the ((es(a := None)) b)) then None else (es(a := None)) b)"
    using Cons.IH [of es] Cons.IH [of "es(a := None)", unfolded f] Cons.prems(1) by (simp del: fun_upd_apply) blast
  then show ?case using e Cons.prems(1) by (cases "sleCleared e") auto
qed simp

lemma purge_ok:
  assumes ok: "pool_ok p"
  shows "\<exists>as es. purge_elements (sessionList p) (plElements p) = Some (as, es) \<and> pool_ok (p\<lparr>sessionList := as, plElements := es\<rparr>) \<and>
    pool_members (p\<lparr>sessionList := as, plElements := es\<rparr>) = pool_members p \<and> length as = length (pool_members p)"
proof -
  have d: "distinct (sessionList p)" "set (sessionList p) = dom (plElements p)" using ok by (simp_all add: pool_ok_def)
  have l: "sleCleared e \<longleftrightarrow> sleElem e = None" if "plElements p b = Some e" for b e
    using pool_okD(3) [OF ok that] by (auto simp: element_ok_def split: option.splits)
  let ?as = "filter (\<lambda>a. \<not> sleCleared (the (plElements p a))) (sessionList p)"
  obtain es where es: "purge_elements (sessionList p) (plElements p) = Some (?as, es)"
    "\<And>b. es b = (if b \<in> set (sessionList p) \<and> sleCleared (the (plElements p b)) then None else plElements p b)"
    using purge_elements_result [OF d(1)] d(2) by blast
  have s: "es b = Some e \<longleftrightarrow> plElements p b = Some e \<and> \<not> sleCleared e" for b e using es(2) [of b] d(2) by auto
  let ?p = "p\<lparr>sessionList := ?as, plElements := es\<rparr>"
  have "set as \<subseteq> dom (plElements p) \<Longrightarrow>
    List.map_filter (\<lambda>a. Option.bind (es a) sleElem) (filter (\<lambda>a. \<not> sleCleared (the (plElements p a))) as) = List.map_filter (\<lambda>a. Option.bind (plElements p a) sleElem) as \<and>
    length (filter (\<lambda>a. \<not> sleCleared (the (plElements p a))) as) = length (List.map_filter (\<lambda>a. Option.bind (plElements p a) sleElem) as)" for as
  proof (induction as)
    case (Cons a as)
    then obtain e where e: "plElements p a = Some e" by auto
    then show ?case using Cons l [OF e] s [of a e] by (auto simp: map_filter_simps split: option.splits)
  qed (simp add: map_filter_simps)
  from this [of "sessionList p"] have m: "pool_members ?p = pool_members p" "length ?as = length (pool_members p)" using d(2) by (simp_all add: pool_members_def)
  have "dom es = set ?as"
  proof (rule set_eqI)
    show "b \<in> dom es \<longleftrightarrow> b \<in> set ?as" for b using s [of b] d(2) by (auto simp: dom_def)
  qed
  then have "pool_ok ?p" using d(1) s pool_okD(3) [OF ok] pool_member_unique [OF ok] by (intro pool_okI) (simp_all, blast)
  then show ?thesis using es(1) m by blast
qed

lemma element_ok_object: "element_ok objs e \<Longrightarrow> element_ok (objs(i \<mapsto> s)) e"
  by (auto simp: element_ok_def split: option.splits)

lemma pool_ok_objects: "pool_ok p \<Longrightarrow> pool_ok (p\<lparr>plObjects := (plObjects p)(i \<mapsto> s)\<rparr>)"
  by (simp add: pool_ok_def element_ok_object)

lemma pool_ok_other: "pool_ok (p\<lparr>recvSocketSet := fds\<rparr>) = pool_ok p" "pool_ok (p\<lparr>highestSocket := hs\<rparr>) = pool_ok p" "pool_ok (p\<lparr>poolActive := b\<rparr>) = pool_ok p"
  "pool_ok (p\<lparr>poolTimeout := t\<rparr>) = pool_ok p"
  by (simp_all add: pool_ok_def)

section \<open>The thread never uses what has been freed\<close>

lemma with_session_cases:
  assumes "pool_ok p" "a \<in> set (sessionList p)"
  obtains "with_session p a skip f = Returns skip"
    | i s where "i \<in> set (pool_members p)" "plObjects p i = Some s" "with_session p a skip f = f i s"
proof -
  obtain e where e: "plElements p a = Some e" using pool_okD(2) [OF assms(1)] assms(2) by auto
  note ok = pool_okD(3) [OF assms(1) e, unfolded element_ok_def]
  show thesis
  proof (cases "sleElem e")
    case None
    then show thesis using that(1) e ok by (simp add: with_session_def)
  next
    case (Some i)
    then obtain s where "plObjects p i = Some s" "i \<in> set (pool_members p)" using e ok set_pool_members [OF assms(1)] by auto
    then show thesis using that(2) e ok Some by (simp add: with_session_def)
  qed
qed

lemma with_session_undefined:
  assumes "pool_ok p" "a \<in> set (sessionList p)" "with_session p a skip f = Undefined"
  shows "\<exists>i s. i \<in> set (pool_members p) \<and> plObjects p i = Some s \<and> f i s = Undefined"
  by (rule with_session_cases [OF assms(1,2), of skip f]) (use assms(3) in auto)

lemma watch_sockets_ok:
  assumes "pool_ok p" "\<And>i. fd_ok (sock i)"
  shows "set as \<subseteq> set (sessionList p) \<Longrightarrow> \<exists>acc'. watch_sockets sock p as acc = Returns acc'"
proof (induction as arbitrary: acc)
  case (Cons a as)
  obtain fds highest where acc: "acc = (fds, highest)" by fastforce
  have a: "a \<in> set (sessionList p)" using Cons.prems by simp
  show ?case by (rule with_session_cases [OF assms(1) a, where skip = acc and f = "\<lambda>i s. if fd_ok (sock i) then Returns (sock i # fds, raise_highest (sock i) highest) else Undefined"])
    (use Cons assms(2) acc in auto)
qed simp

text \<open>The invariant of the whole machine.\<close>

definition machine_ok :: "pool_thread \<times> ('id, 'na, 'ak, 'hm) RTPSessionPool \<Rightarrow> bool" where
  "machine_ok = (\<lambda>(th, p). pool_ok p \<and> thread_ok th p)"

lemma pool_turn_ok:
  assumes ok: "machine_ok (th, p)" and turn: "pool_turn fuel E R sock I (th, p) = Returns st"
  shows "machine_ok st"
proof -
  have p: "pool_ok p" "set (round_addresses (ptAt th)) \<subseteq> set (sessionList p)" "ptAt th \<noteq> PoolIdle \<longrightarrow> poolActive p = Some True"
    using ok by (simp_all add: machine_ok_def thread_ok_def)
  show ?thesis
  proof (cases "ptAt th")
    case (PoolControl sessions as)
    then show ?thesis using turn p pool_ok_objects [OF p(1)]
      by (cases as) (auto simp: pool_turn_def machine_ok_def thread_ok_def pool_control_def with_session_def split: outcome.splits option.splits if_splits)
  next
    case (PoolServe as n)
    then show ?thesis using turn p pool_ok_objects [OF p(1)]
      by (cases as) (auto simp: pool_turn_def machine_ok_def thread_ok_def with_session_def split: option.splits if_splits)
  next
    case PoolPurge
    then show ?thesis using turn p purge_ok [OF p(1)] by (auto simp: pool_turn_def machine_ok_def thread_ok_def)
  qed (use turn p in \<open>auto simp: pool_turn_def machine_ok_def thread_ok_def pool_ok_other split: outcome.splits option.splits prod.splits if_splits\<close>)
qed

lemma pool_step_ok:
  assumes "pool_step fuel E R sock x y" "machine_ok x"
  shows "machine_ok y"
  using assms
proof (induction rule: pool_step.induct)
  case (step_thread I th p st)
  then show ?case using pool_turn_ok by blast
next
  case (step_add p a s b p' th)
  then show ?case using addSession_ok [of p a s] by (auto simp: machine_ok_def thread_ok_def)
next
  case (step_remove s p b p' th)
  then show ?case using removeSession_ok [of p s] by (auto simp: machine_ok_def thread_ok_def)
qed (auto simp: machine_ok_def thread_ok_def startRunning_def setPoolTimeout_def pool_ok_other pool_ok_objects)

text \<open>A new pool, before its thread is started.\<close>

definition new_machine :: "('id \<rightharpoonup> ('na, 'ak, 'hm) Session) \<Rightarrow> pool_thread \<times> ('id, 'na, 'ak, 'hm) RTPSessionPool" where
  "new_machine objs = (\<lparr>ptAt = PoolIdle, packetTimeout = 0\<rparr>, newRTPSessionPool objs)"

lemma new_machine_ok: "machine_ok (new_machine objs)"
  by (simp add: new_machine_def machine_ok_def thread_ok_def newRTPSessionPool_def pool_ok_def)

lemma reachable_ok: "(pool_step fuel E R sock)\<^sup>*\<^sup>* (new_machine objs) st \<Longrightarrow> machine_ok st"
  by (induction rule: rtranclp_induct) (simp_all add: new_machine_ok pool_step_ok)

lemma pool_turn_undefined:
  assumes "(pool_step fuel E R sock)\<^sup>*\<^sup>* (new_machine objs) (th, p)" "\<And>i. fd_ok (sock i)" "pool_turn fuel E R sock I (th, p) = Undefined"
  shows "\<exists>i s. i \<in> set (pool_members p) \<and> plObjects p i = Some s \<and>
    (session_control fuel E (piTurn I i) s = Undefined \<or> (\<exists>isset n. pool_serve R (piTurn I i) (piData I i) isset n (packetTimeout th) s = None))"
proof -
  have ok: "pool_ok p" "set (round_addresses (ptAt th)) \<subseteq> set (sessionList p)" "ptAt th \<noteq> PoolIdle \<longrightarrow> poolActive p = Some True"
    using reachable_ok [OF assms(1)] by (simp_all add: machine_ok_def thread_ok_def)
  show ?thesis
  proof (cases "ptAt th")
    case (PoolControl sessions as)
    then obtain a as' where a: "as = a # as'" "pool_control fuel E I a p = Undefined" using assms(3) by (cases as) (auto simp: pool_turn_def split: outcome.splits)
    have "a \<in> set (sessionList p)" using ok(2) PoolControl a(1) by simp
    from with_session_undefined [OF ok(1) this a(2) [unfolded pool_control_def]] show ?thesis by (force split: outcome.splits)
  next
    case (PoolWatch sessions)
    then show ?thesis using assms(3) watch_sockets_ok [where sock = sock and as = sessions and acc = "([], 0)", OF ok(1) assms(2)] ok(2)
      by (auto simp: pool_turn_def split: outcome.splits)
  next
    case (PoolServe as n)
    then obtain a as' where a: "as = a # as'" "a \<in> set (sessionList p)" using assms(3) ok(2) by (cases as) (auto simp: pool_turn_def)
    have "with_session p a (th\<lparr>ptAt := PoolServe as' n\<rparr>, p) (\<lambda>i s.
        if \<not> fd_ok (sock i) then Undefined
        else case pool_serve R (piTurn I i) (piData I i) (sock i \<in> set (recvSocketSet p)) n (packetTimeout th) s of
            None \<Rightarrow> Undefined
          | Some (n, t, s) \<Rightarrow> Returns (th\<lparr>ptAt := PoolServe as' n, packetTimeout := t\<rparr>, p\<lparr>plObjects := (plObjects p)(i \<mapsto> s)\<rparr>)) = Undefined"
      using assms(3) PoolServe a(1) by (simp add: pool_turn_def)
    from with_session_undefined [OF ok(1) a(2) this] show ?thesis using assms(2) by (force split: option.splits)
  next
    case PoolPurge
    then show ?thesis using assms(3) purge_ok [OF ok(1)] by (auto simp: pool_turn_def)
  qed (use assms(3) ok in \<open>auto simp: pool_turn_def split: option.splits prod.splits\<close>)
qed

text \<open>
  C14: the thread of a pool never uses what has been freed. However its steps are interleaved with calls that add and remove sessions, a step is defined whenever
  the operations on the sessions that exist and are in the pool are: no element is used after it was purged, no session after it was deleted, and the flag that stops the
  loop is not read before it was set.
\<close>

theorem pool_thread_safe:
  assumes "(pool_step fuel E R sock)\<^sup>*\<^sup>* (new_machine objs) (th, p)" "\<And>i. fd_ok (sock i)"
    and "\<And>i s isset n. i \<in> set (pool_members p) \<Longrightarrow> plObjects p i = Some s \<Longrightarrow>
      session_control fuel E (piTurn I i) s \<noteq> Undefined \<and> pool_serve R (piTurn I i) (piData I i) isset n (packetTimeout th) s \<noteq> None"
  shows "pool_turn fuel E R sock I (th, p) \<noteq> Undefined"
  using pool_turn_undefined [OF assms(1,2)] assms(3) by blast

text \<open>A session that is removed while the thread is about to serve it.\<close>

definition sample_pool_session :: "(unit, byte list, byte list \<times> byte list) Session" where
  "sample_pool_session = sample_session (sample_sender [])"

definition sample_pool_input :: "(nat, unit) pool_input" where
  "sample_pool_input = \<lparr>piTurn = \<lambda>_. sample_turn (sec_time 1) None, piData = \<lambda>_. (sec_time 1, None), piSelect = \<lambda>_ _ _. (0, [])\<rparr>"

theorem pool_thread_safe_witness:
  "\<exists>p. (pool_step 10 sample_service sample_in_env (\<lambda>_. 3))\<^sup>*\<^sup>* (new_machine [0 \<mapsto> sample_pool_session])
      (\<lparr>ptAt = PoolControl [7] [7], packetTimeout = 0\<rparr>, p) \<and> plObjects p (0 :: nat) = None \<and>
    pool_turn 10 sample_service sample_in_env (\<lambda>_. 3) sample_pool_input (\<lparr>ptAt = PoolControl [7] [7], packetTimeout = 0\<rparr>, p) \<noteq> Undefined"
proof -
  let ?step = "pool_step 10 sample_service sample_in_env (\<lambda>_ :: nat. 3)" and ?th = "\<lparr>ptAt = PoolControl [7] [7], packetTimeout = 0\<rparr>"
  define p0 where "p0 = newRTPSessionPool [0 :: nat \<mapsto> sample_pool_session]"
  define p1 where "p1 = p0\<lparr>plElements := [7 \<mapsto> newSessionListElement 0], sessionList := [7]\<rparr>"
  define p2 where "p2 = p1\<lparr>poolActive := Some True\<rparr>"
  define p3 where "p3 = p2\<lparr>plElements := [7 \<mapsto> \<lparr>sleElem = None, sleCleared = True\<rparr>], plObjects := Map.empty\<rparr>"
  note defs = p0_def p1_def p2_def p3_def newRTPSessionPool_def
  let ?idle = "\<lparr>ptAt = PoolIdle, packetTimeout = 0\<rparr>"
  have 1: "?step (?idle, p0) (?idle, p1)"
    by (rule step_add [where a = 7 and s = 0 and b = True]) (simp_all add: defs addSession_def)
  have 2: "?step (?idle, p1) (\<lparr>ptAt = PoolTop, packetTimeout = 0\<rparr>, p2)"
    using step_start [of ?idle 10 sample_service sample_in_env "\<lambda>_ :: nat. 3" p1] by (simp add: startRunning_def p2_def)
  have 3: "?step (\<lparr>ptAt = PoolTop, packetTimeout = 0\<rparr>, p2) (?th, p2)"
    by (rule step_thread [where I = sample_pool_input]) (simp add: pool_turn_def defs)
  have 4: "?step (?th, p2) (?th, p3)"
    by (rule step_remove [where s = 0 and b = True]) (simp add: removeSession_def clear_element_def newSessionListElement_def defs)
  have r: "?step\<^sup>*\<^sup>* (new_machine [0 \<mapsto> sample_pool_session]) (?th, p3)"
    using 1 2 3 4 unfolding new_machine_def p0_def [symmetric] by (meson converse_rtranclp_into_rtranclp rtranclp.rtrancl_refl)
  have "pool_members p3 = []" by (simp add: pool_members_def defs map_filter_simps)
  then have "pool_turn 10 sample_service sample_in_env (\<lambda>_. 3) sample_pool_input (?th, p3) \<noteq> Undefined"
    by (intro pool_thread_safe [OF r]) (simp_all add: fd_ok_def FD_SETSIZE_def)
  moreover have "plObjects p3 0 = None" by (simp add: defs)
  ultimately show ?thesis using r by blast
qed

section \<open>The sockets of a round\<close>

section \<open>The sockets of a round\<close>

text \<open>What the loop over the sockets computes for the first argument of \<^verbatim>\<open>select\<close>.\<close>

lemma raise_highest_bound:
  fixes ss :: "int list" and hs :: int
  shows "(\<forall>s\<in>set ss. s \<le> fold raise_highest ss hs + 1) \<and> hs \<le> fold raise_highest ss hs"
proof (induction ss arbitrary: hs)
  case (Cons s ss)
  show ?case using Cons.IH [of "raise_highest s hs"] by (auto simp: raise_highest_def split: if_splits)
qed simp

lemma raise_highest_spaced:
  "sorted_wrt (\<lambda>s t. s + 2 < t) ss \<Longrightarrow> \<forall>s\<in>set ss. hs + 1 < s \<Longrightarrow> ss \<noteq> [] \<Longrightarrow> fold raise_highest ss hs = last ss + 1 \<and> (\<forall>s\<in>set ss. s \<le> last ss)"
proof (induction ss arbitrary: hs)
  case (Cons s ss)
  have r: "raise_highest s hs = s + 1" using Cons.prems(2) by (simp add: raise_highest_def)
  show ?case
  proof (cases "ss = []")
    case False
    then have "fold raise_highest ss (s + 1) = last ss + 1 \<and> (\<forall>t\<in>set ss. t \<le> last ss)" using Cons.prems(1) by (intro Cons.IH) auto
    moreover have "s + 2 < last ss" using Cons.prems(1) False by simp
    ultimately show ?thesis using r False by auto
  qed (use r in simp)
qed simp

lemma watch_sockets_members:
  assumes "pool_ok p" "\<And>i. fd_ok (sock i)"
  shows "set as \<subseteq> set (sessionList p) \<Longrightarrow> watch_sockets sock p as (fds, hs) =
    (let ss = map sock (List.map_filter (\<lambda>a. Option.bind (plElements p a) sleElem) as) in Returns (rev ss @ fds, fold raise_highest ss hs))"
proof (induction as arbitrary: fds hs)
  case (Cons a as)
  then obtain e where e: "plElements p a = Some e" using pool_okD(2) [OF assms(1)] by auto
  show ?case
  proof (cases "sleElem e")
    case None
    then show ?thesis using Cons e pool_okD(3) [OF assms(1) e] by (simp add: with_session_def element_ok_def map_filter_simps Let_def)
  next
    case (Some i)
    then show ?thesis using Cons e pool_okD(3) [OF assms(1) e] assms(2) by (auto simp: with_session_def element_ok_def map_filter_simps Let_def)
  qed
qed (simp add: map_filter_simps)

text \<open>
  Which sockets a pool watches. Every session of the pool has its socket in the set, and the number given to \<^verbatim>\<open>select\<close> covers all of them when each socket of the list lies
  more than two above the one before; in any case a socket that is not covered is that number or one above it.
\<close>

theorem pool_watches:
  fixes p :: "('id, 'na, 'ak, 'hm) RTPSessionPool"
  assumes "pool_ok p" "\<And>i. fd_ok (sock i)" "ss = map sock (pool_members p)"
  shows "\<exists>hs. watch_sockets sock p (sessionList p) ([], 0) = Returns (rev ss, hs) \<and> (\<forall>s\<in>set ss. s < hs \<or> s = hs \<or> s = hs + 1) \<and>
    (sorted_wrt (\<lambda>s t. s + 2 < t) ss \<and> (\<forall>s\<in>set ss. 1 < s) \<longrightarrow> (\<forall>s\<in>set ss. s < hs))"
proof -
  have w: "watch_sockets sock p (sessionList p) ([], 0) = Returns (rev ss, fold raise_highest ss 0)"
    using watch_sockets_members [where sock = sock and fds = "[]" and hs = 0 and as = "sessionList p", OF assms(1,2)] assms(3) by (simp add: pool_members_def Let_def)
  moreover have "s < hs \<or> s = hs \<or> s = hs + 1" if "s \<le> hs + 1" for s hs :: int using that by linarith
  moreover have "s < fold raise_highest ss 0" if "sorted_wrt (\<lambda>s t. s + 2 < t) ss" "\<forall>s\<in>set ss. 1 < s" "s \<in> set ss" for s
  proof -
    have "fold raise_highest ss 0 = last ss + 1 \<and> (\<forall>s\<in>set ss. s \<le> last ss)" by (rule raise_highest_spaced) (use that in auto)
    then show ?thesis using that(3) by auto
  qed
  ultimately show ?thesis using raise_highest_bound [of ss 0] by blast
qed

lemma pool_serve_unset: "pool_serve R ti d False n t s = Some (n', t', s') \<Longrightarrow> dqIn (ssData s') = dqIn (ssData s)"
  by (auto simp: pool_serve_def pool_schedule_def session_dispatch_def Let_def split: Option.bind_splits if_splits option.splits)


definition sample_pool :: "(nat, unit, byte list, byte list \<times> byte list) RTPSessionPool" where
  "sample_pool = (newRTPSessionPool [0 \<mapsto> sample_pool_session, 1 \<mapsto> sample_pool_session])
     \<lparr>plElements := [7 \<mapsto> newSessionListElement 0, 8 \<mapsto> newSessionListElement 1], sessionList := [7, 8]\<rparr>"

lemma sample_pool_ok: "pool_ok sample_pool" "pool_members sample_pool = [0, 1]"
proof -
  show "pool_ok sample_pool"
    by (rule pool_okI) (auto simp: sample_pool_def newSessionListElement_def newRTPSessionPool_def element_ok_def split: if_splits)
  show "pool_members sample_pool = [0, 1]" by (simp add: pool_members_def sample_pool_def newSessionListElement_def map_filter_simps)
qed

text \<open>Sockets 3 and 7 are watched, and of 3 and 5 only 3 is.\<close>

theorem pool_watches_witness:
  "\<exists>hs. watch_sockets (\<lambda>i. if i = 0 then 3 else 7) sample_pool (sessionList sample_pool) ([], 0) = Returns ([7, 3], hs) \<and> 3 < hs \<and> 7 < hs"
proof -
  have "pool_members sample_pool = [0, 1]" by (rule sample_pool_ok)
  then have "\<exists>hs. watch_sockets (\<lambda>i. if i = 0 then 3 else 7) sample_pool (sessionList sample_pool) ([], 0) = Returns (rev [3, 7 :: int], hs) \<and>
    (\<forall>s\<in>set [3, 7 :: int]. s < hs \<or> s = hs \<or> s = hs + 1) \<and>
    (sorted_wrt (\<lambda>s t. s + 2 < t) [3, 7 :: int] \<and> (\<forall>s\<in>set [3, 7 :: int]. 1 < s) \<longrightarrow> (\<forall>s\<in>set [3, 7 :: int]. s < hs))"
    by (intro pool_watches [OF sample_pool_ok(1)]) (simp_all add: fd_ok_def FD_SETSIZE_def)
  then show ?thesis by auto
qed

definition sample_select :: "(nat, unit) pool_input" where
  "sample_select = sample_pool_input\<lparr>piSelect := \<lambda>nfds fds t. (0, filter (\<lambda>s. s < nfds) fds)\<rparr>"


section \<open>A pool is a list of sessions\<close>

text \<open>The calls: creating a session object, adding a session, removing one (which deletes the object), and a purge by the thread.\<close>

datatype ('id, 'v) pool_op = NewOp 'id 'v | AddOp 'id | RemoveOp 'id | PurgeOp

text \<open>
  The same calls on a plain list of sessions, beside the set of the session objects that exist. An object that is removed from the list
  is gone; it has to be created again before it can be added again.
\<close>

fun list_op :: "('id, 'v) pool_op \<Rightarrow> 'id list \<times> 'id set \<Rightarrow> bool \<times> 'id list \<times> 'id set" where
  "list_op (NewOp s v) (xs, os) = (True, xs, insert s os)"
| "list_op (AddOp s) (xs, os) = (if s \<in> set xs then (False, xs, os) else (True, xs @ [s], os))"
| "list_op (RemoveOp s) (xs, os) = (if s \<in> set xs then (True, filter (\<lambda>x. x \<noteq> s) xs, os - {s}) else (False, xs, os))"
| "list_op PurgeOp (xs, os) = (True, xs, os)"

fun list_ops :: "('id, 'v) pool_op list \<Rightarrow> 'id list \<times> 'id set \<Rightarrow> bool list \<times> 'id list \<times> 'id set" where
  "list_ops [] v = ([], v)"
| "list_ops (c # cs) v = (let (b, v) = list_op c v; (bs, v) = list_ops cs v in (b # bs, v))"

text \<open>The application may only add a session that exists at that moment.\<close>

fun allowed :: "('id, 'v) pool_op \<Rightarrow> 'id list \<times> 'id set \<Rightarrow> bool" where
  "allowed (AddOp s) (xs, os) = (s \<in> os)"
| "allowed _ _ = True"

fun legal :: "('id, 'v) pool_op list \<Rightarrow> 'id list \<times> 'id set \<Rightarrow> bool" where
  "legal [] v = True"
| "legal (c # cs) v = (allowed c v \<and> legal cs (snd (list_op c v)))"

fun run_ops :: "(('id, 'v) pool_op \<Rightarrow> 'p \<Rightarrow> (bool \<times> 'p) option) \<Rightarrow> ('id, 'v) pool_op list \<Rightarrow> 'p \<Rightarrow> (bool list \<times> 'p) option" where
  "run_ops step [] p = Some ([], p)"
| "run_ops step (c # cs) p = do { (b, p) \<leftarrow> step c p; (bs, p) \<leftarrow> run_ops step cs p; Some (b # bs, p) }"

text \<open>What one call promises: its result, and its effect on the list and on the objects.\<close>

locale session_list =
  fixes ok :: "'p \<Rightarrow> bool" and view :: "'p \<Rightarrow> 'id list \<times> 'id set" and step :: "('id, 'v) pool_op \<Rightarrow> 'p \<Rightarrow> (bool \<times> 'p) option"
  assumes step_law: "ok p \<Longrightarrow> allowed c (view p) \<Longrightarrow> \<exists>b p'. step c p = Some (b, p') \<and> ok p' \<and> (b, view p') = list_op c (view p)"
begin

lemma run_ops_view:
  "ok p \<Longrightarrow> legal cs (view p) \<Longrightarrow> \<exists>bs p'. run_ops step cs p = Some (bs, p') \<and> ok p' \<and> (bs, view p') = list_ops cs (view p)"
proof (induction cs arbitrary: p)
  case (Cons c cs)
  from step_law [OF Cons.prems(1), of c] Cons.prems(2)
  obtain b p1 where p1: "step c p = Some (b, p1)" "ok p1" "(b, view p1) = list_op c (view p)" by auto
  have "legal cs (view p1)" using Cons.prems(2) p1(3) by (metis legal.simps(2) snd_conv)
  from Cons.IH [OF p1(2) this] p1(1) p1(3) [symmetric] show ?case by (auto split: prod.splits)
qed simp

end

definition new_address :: "('id, 'na, 'ak, 'hm) RTPSessionPool \<Rightarrow> nat" where
  "new_address p = fold (\<lambda>a b. max (Suc a) b) (sessionList p) 0"

lemma new_address_fresh: "pool_ok p \<Longrightarrow> plElements p (new_address p) = None"
proof -
  assume ok: "pool_ok p"
  have "(\<forall>a\<in>set as. a < fold (\<lambda>a b. max (Suc a) b) as n) \<and> n \<le> fold (\<lambda>a b. max (Suc a) b) as n" for as n
  proof (induction as arbitrary: n)
    case (Cons a as)
    show ?case using Cons.IH [of "max (Suc a) n"] by auto
  qed simp
  then have "new_address p \<notin> set (sessionList p)" unfolding new_address_def by blast
  then show ?thesis using pool_okD(2) [OF ok] by auto
qed

text \<open>The calls on the pool; the address of a new element is chosen by the allocator.\<close>

fun pool_call ::
  "('id, ('na, 'ak, 'hm) Session) pool_op \<Rightarrow> ('id, 'na, 'ak, 'hm) RTPSessionPool \<Rightarrow> (bool \<times> ('id, 'na, 'ak, 'hm) RTPSessionPool) option" where
  "pool_call (NewOp s v) p = Some (True, p\<lparr>plObjects := (plObjects p)(s \<mapsto> v)\<rparr>)"
| "pool_call (AddOp s) p = addSession (new_address p) s p"
| "pool_call (RemoveOp s) p = removeSession s p"
| "pool_call PurgeOp p = map_option (\<lambda>(as, es). (True, p\<lparr>sessionList := as, plElements := es\<rparr>)) (purge_elements (sessionList p) (plElements p))"

definition pool_view :: "('id, 'na, 'ak, 'hm) RTPSessionPool \<Rightarrow> 'id list \<times> 'id set" where
  "pool_view p = (pool_members p, dom (plObjects p))"

interpretation pool_list: session_list pool_ok pool_view pool_call
proof unfold_locales
  fix p :: "('id, 'na, 'ak, 'hm) RTPSessionPool" and c :: "('id, ('na, 'ak, 'hm) Session) pool_op"
  assume ok: "pool_ok p" and c: "allowed c (pool_view p)"
  show "\<exists>b p'. pool_call c p = Some (b, p') \<and> pool_ok p' \<and> (b, pool_view p') = list_op c (pool_view p)"
  proof (cases c)
    case (NewOp s v)
    then show ?thesis using pool_ok_objects [OF ok] by (auto simp: pool_view_def pool_members_def)
  next
    case (AddOp s)
    then have "plObjects p s \<noteq> None" using c by (auto simp: pool_view_def)
    then show ?thesis using AddOp addSession_ok [OF ok new_address_fresh [OF ok], of s] by (auto simp: pool_view_def)
  next
    case (RemoveOp s)
    have "filter (\<lambda>x. x \<noteq> s) (pool_members p) = pool_members p" if "s \<notin> set (pool_members p)" using that by (intro filter_True) auto
    then show ?thesis using RemoveOp removeSession_ok [OF ok, of s] by (cases "s \<in> set (pool_members p)") (auto simp: pool_view_def)
  next
    case PurgeOp
    then show ?thesis using purge_ok [OF ok] by (auto simp: pool_view_def)
  qed
qed

text \<open>
  C19: a pool behaves as a list of sessions without duplicates. Any sequence of calls that create session objects, add sessions, remove
  sessions and purge the list, in which a session exists at the moment it is added (it may be removed again, and created and added
  anew), runs without undefined behaviour and has the results and the effect of the same calls on a plain list: adding reports whether the session is
  new in the list, removing whether it was there, and removing a session of the list deletes its object. The pool is well formed again after it;
  the length that it reports is the number of sessions once the thread has purged it, and until then counts the removed ones too.
\<close>

theorem pool_refines_list:
  fixes p :: "('id, 'na, 'ak, 'hm) RTPSessionPool"
  assumes "pool_ok p" "legal cs (pool_view p)"
  shows "\<exists>bs p' p''. run_ops pool_call cs p = Some (bs, p') \<and> pool_ok p' \<and> (bs, pool_view p') = list_ops cs (pool_view p) \<and>
    distinct (pool_members p') \<and> length (pool_members p') \<le> getPoolLength p' \<and> pool_call PurgeOp p' = Some (True, p'') \<and>
    pool_ok p'' \<and> pool_view p'' = pool_view p' \<and> getPoolLength p'' = length (pool_members p')"
proof -
  obtain bs p' where p': "run_ops pool_call cs p = Some (bs, p')" "pool_ok p'" "(bs, pool_view p') = list_ops cs (pool_view p)"
    using pool_list.run_ops_view [OF assms] by blast
  obtain as es where "purge_elements (sessionList p') (plElements p') = Some (as, es)" "pool_members (p'\<lparr>sessionList := as, plElements := es\<rparr>) = pool_members p'"
    "length as = length (pool_members p')" "pool_ok (p'\<lparr>sessionList := as, plElements := es\<rparr>)" using purge_ok [OF p'(2)] by blast
  moreover have "length (pool_members p') \<le> getPoolLength p'" by (simp add: pool_members_def getPoolLength_def map_filter_def)
  ultimately show ?thesis using p' pool_members_distinct [OF p'(2)] by (auto simp: pool_view_def getPoolLength_def)
qed

text \<open>Session 1 is a member already, is removed, created and added again, and then session 0 is removed.\<close>

theorem pool_refines_list_witness:
  "\<exists>p' p''. run_ops pool_call [AddOp 1, RemoveOp 1, RemoveOp 1, NewOp 1 sample_pool_session, AddOp 1, RemoveOp 0] sample_pool =
      Some ([False, True, False, True, True, True], p') \<and> pool_view p' = ([1], {1}) \<and>
    1 \<le> getPoolLength p' \<and> pool_call PurgeOp p' = Some (True, p'') \<and> pool_view p'' = ([1], {1}) \<and> getPoolLength p'' = 1"
proof -
  let ?cs = "[AddOp 1, RemoveOp 1, RemoveOp 1, NewOp 1 sample_pool_session, AddOp 1, RemoveOp 0] :: (nat, _) pool_op list"
  have v: "pool_view sample_pool = ([0, 1], {0, 1})" by (auto simp: pool_view_def sample_pool_ok(2)) (auto simp: sample_pool_def newRTPSessionPool_def split: if_splits)
  have "legal ?cs (pool_view sample_pool)" unfolding v by simp
  moreover have "list_ops ?cs (pool_view sample_pool) = ([False, True, False, True, True, True], [1], {1})" unfolding v by auto
  ultimately obtain p' p'' where "run_ops pool_call ?cs sample_pool = Some ([False, True, False, True, True, True], p')" "pool_view p' = ([1], {1})"
    "length (pool_members p') \<le> getPoolLength p'" "pool_call PurgeOp p' = Some (True, p'')" "pool_view p'' = pool_view p'" "getPoolLength p'' = length (pool_members p')"
    using pool_refines_list [OF sample_pool_ok(1), of ?cs] by (metis Pair_inject)
  moreover from this have "length (pool_members p') = 1" by (simp add: pool_view_def)
  ultimately show ?thesis by (intro exI [of _ p'] exI [of _ p'']) (simp del: run_ops.simps)
qed

end
