(* ===== verification/Participants.thy ===== *)
theory Participants
  imports Rtcp_Receive
begin

text \<open>
  The participants of an application: \<^verbatim>\<open>RTPApplication\<close> of \<^verbatim>\<open>src/src/ccrtp/sources.h\<close> and \<^verbatim>\<open>src/src/source.cpp\<close>. Links and participants live at addresses; the theory of
  received control packets works on the list that the links represent, and the theorems here show that the links represent it. The constructor of a link leaves its pointer to the previous
  link without a value, which is \<open>None\<close> in the outer option. A result \<open>None\<close> is undefined behaviour.
\<close>

record ParticipantLink =
  linkParticipant :: nat
  linkNext :: "nat option"
  linkPrev :: "nat option option"

record RTPApplication =
  applicationItems :: sdes_items
  appLinks :: "nat \<rightharpoonup> ParticipantLink"
  appParts :: "nat \<rightharpoonup> sdes_items"
  firstPart :: "nat option"
  lastPart :: "nat option"

section \<open>The canonical name\<close>

text \<open>The environment variables, the name of the user that the system knows, and the name of the host.\<close>

record cname_env =
  envLogname :: "byte list option"
  envUser :: "byte list option"
  systemUser :: "byte list"
  hostName :: "byte list option"

definition findusername :: "cname_env \<Rightarrow> byte list" where
  "findusername V =
     (let user = envLogname V;
          user = (if user = None \<or> user = Some [] then envUser V else user);
          username = (if user = None \<or> user = Some [] then systemUser V else []);
          username = (case user of Some u \<Rightarrow> u | None \<Rightarrow> [])
      in username)"

definition findCNAME :: "cname_env \<Rightarrow> sdes_items \<Rightarrow> sdes_items" where
  "findCNAME V items =
     (let username = findusername V; hname = (case hostName V of Some p \<Rightarrow> p | None \<Rightarrow> [])
      in setItem SDESItemTypeCNAME (username @ [64] @ hname) items)"

definition newRTPApplication :: "cname_env \<Rightarrow> byte list \<Rightarrow> RTPApplication" where
  "newRTPApplication V cname =
     (let items = replicate 10 []
      in \<lparr>applicationItems = (if length cname > 0 then setItem SDESItemTypeCNAME cname items else findCNAME V items), appLinks = Map.empty, appParts = Map.empty,
          firstPart = None, lastPart = None\<rparr>)"

definition newParticipant :: "byte list \<Rightarrow> sdes_items" where
  "newParticipant cname = setItem SDESItemTypeCNAME cname (replicate 10 [])"

section \<open>The list\<close>

partial_function (option) find_link :: "RTPApplication \<Rightarrow> byte list \<Rightarrow> nat option \<Rightarrow> nat option option" where
  "find_link app cname pl =
     (case pl of
        None \<Rightarrow> Some None
      | Some a \<Rightarrow>
          Option.bind (appLinks app a) (\<lambda>l.
            Option.bind (appParts app (linkParticipant l)) (\<lambda>items.
              if getItem items SDESItemTypeCNAME \<noteq> cname then find_link app cname (linkNext l) else Some (Some (linkParticipant l)))))"

definition getParticipant :: "byte list \<Rightarrow> RTPApplication \<Rightarrow> nat option option" where
  "getParticipant cname app = find_link app cname (firstPart app)"

definition setNext :: "nat \<Rightarrow> nat option \<Rightarrow> RTPApplication \<Rightarrow> RTPApplication option" where
  "setNext a l app = map_option (\<lambda>p. app\<lparr>appLinks := (appLinks app)(a \<mapsto> p\<lparr>linkNext := l\<rparr>)\<rparr>) (appLinks app a)"

definition setPrev :: "nat \<Rightarrow> nat option \<Rightarrow> RTPApplication \<Rightarrow> RTPApplication option" where
  "setPrev a l app = map_option (\<lambda>p. app\<lparr>appLinks := (appLinks app)(a \<mapsto> p\<lparr>linkPrev := Some l\<rparr>)\<rparr>) (appLinks app a)"

text \<open>The first address is that of the new link, the second that of the participant.\<close>

definition addParticipant :: "nat \<Rightarrow> nat \<Rightarrow> RTPApplication \<Rightarrow> RTPApplication option" where
  "addParticipant pl part app =
     do { let app = app\<lparr>appLinks := (appLinks app)(pl \<mapsto> \<lparr>linkParticipant = part, linkNext = None, linkPrev = None\<rparr>)\<rparr>;
          app \<leftarrow> (case firstPart app of
                    None \<Rightarrow> Some (app\<lparr>firstPart := Some pl, lastPart := Some pl\<rparr>)
                  | Some _ \<Rightarrow> Option.bind (lastPart app) (\<lambda>a. setNext a (Some pl) app));
          Some (app\<lparr>lastPart := Some pl\<rparr>) }"

text \<open>Deleting a link deletes its participant.\<close>

definition delete_link :: "nat \<Rightarrow> RTPApplication \<Rightarrow> RTPApplication option" where
  "delete_link a app =
     do { l \<leftarrow> appLinks app a;
          _ \<leftarrow> appParts app (linkParticipant l);
          Some (app\<lparr>appLinks := (appLinks app)(a := None), appParts := (appParts app)(linkParticipant l := None)\<rparr>) }"

definition removeParticipant :: "nat option \<Rightarrow> RTPApplication \<Rightarrow> RTPApplication option" where
  "removeParticipant pl app =
     (case pl of
        None \<Rightarrow> Some app
      | Some a \<Rightarrow>
          do { l \<leftarrow> appLinks app a;
               prev \<leftarrow> linkPrev l;
               app \<leftarrow> (case prev of None \<Rightarrow> Some app | Some b \<Rightarrow> setNext b (linkNext l) app);
               app \<leftarrow> (case linkNext l of None \<Rightarrow> Some app | Some n \<Rightarrow> setPrev n prev app);
               delete_link a app })"

partial_function (option) delete_links :: "RTPApplication \<Rightarrow> RTPApplication option" where
  "delete_links app =
     (case firstPart app of
        None \<Rightarrow> Some app
      | Some p \<Rightarrow>
          Option.bind (appLinks app p) (\<lambda>l.
            Option.bind (delete_link p (app\<lparr>firstPart := linkNext l\<rparr>)) delete_links))"

definition endRTPApplication :: "RTPApplication \<Rightarrow> RTPApplication option" where
  "endRTPApplication app = map_option (\<lambda>app. app\<lparr>lastPart := None\<rparr>) (delete_links app)"

section \<open>The links represent a list\<close>

fun link_chain :: "(nat \<rightharpoonup> ParticipantLink) \<Rightarrow> nat option \<Rightarrow> nat list \<Rightarrow> nat list \<Rightarrow> bool" where
  "link_chain links p [] [] \<longleftrightarrow> p = None"
| "link_chain links p (a # as) (x # xs) \<longleftrightarrow> p = Some a \<and> (\<exists>l. links a = Some l \<and> linkParticipant l = x \<and> linkPrev l = None \<and> link_chain links (linkNext l) as xs)"
| "link_chain links p _ _ \<longleftrightarrow> False"

text \<open>The links at \<open>as\<close> hold the participants at \<open>xs\<close>, and there are no others.\<close>

definition app_holds :: "RTPApplication \<Rightarrow> nat list \<Rightarrow> nat list \<Rightarrow> bool" where
  "app_holds app as xs \<longleftrightarrow> link_chain (appLinks app) (firstPart app) as xs \<and> distinct as \<and> distinct xs \<and> dom (appLinks app) = set as \<and> dom (appParts app) = set xs \<and>
     (as \<noteq> [] \<longrightarrow> lastPart app = Some (last as))"

lemma link_chain_cong: "link_chain links p as xs \<Longrightarrow> \<forall>a\<in>set as. links' a = links a \<Longrightarrow> link_chain links' p as xs"
  by (induction links p as xs rule: link_chain.induct) auto

lemma link_chain_append:
  "link_chain links p as xs \<Longrightarrow> as \<noteq> [] \<Longrightarrow> distinct as \<Longrightarrow> pl \<notin> set as \<Longrightarrow> links (last as) = Some l \<Longrightarrow>
   link_chain (links(pl \<mapsto> \<lparr>linkParticipant = x, linkNext = None, linkPrev = None\<rparr>, last as \<mapsto> l\<lparr>linkNext := Some pl\<rparr>)) p (as @ [pl]) (xs @ [x])"
proof (induction links p as xs rule: link_chain.induct)
  case (2 links p a as x' xs)
  then show ?case
  proof (cases as)
    case Nil
    then show ?thesis using 2 by (cases xs) auto
  next
    case (Cons b bs)
    then have "last as \<noteq> a" "last as \<in> set as" using 2(4) by auto
    then show ?thesis using 2 Cons by auto
  qed
qed auto

lemma addParticipant_holds:
  assumes h: "app_holds app as xs" and fresh: "pl \<notin> set as" "x \<notin> set xs"
  shows "\<exists>app'. addParticipant pl x (app\<lparr>appParts := (appParts app)(x \<mapsto> items)\<rparr>) = Some app' \<and> app_holds app' (as @ [pl]) (xs @ [x]) \<and>
    appParts app' = (appParts app)(x \<mapsto> items)"
proof (cases as rule: rev_cases)
  case Nil
  then have "xs = []" using h by (cases xs) (auto simp: app_holds_def)
  then show ?thesis using h Nil by (auto simp: app_holds_def addParticipant_def)
next
  case (snoc bs b)
  then have "b \<in> dom (appLinks app)" using h by (simp add: app_holds_def)
  then obtain l where l: "appLinks app b = Some l" by blast
  have l: "appLinks app b = Some l" "lastPart app = Some b" using l h snoc by (simp_all add: app_holds_def)
  have f: "firstPart app \<noteq> None" using h snoc by (cases bs; cases xs) (auto simp: app_holds_def)
  have c: "link_chain (appLinks app) (firstPart app) as xs" "distinct as" using h by (simp_all add: app_holds_def)
  have "b \<noteq> pl" using fresh(1) snoc by auto
  have "link_chain ((appLinks app)(pl \<mapsto> \<lparr>linkParticipant = x, linkNext = None, linkPrev = None\<rparr>, b \<mapsto> l\<lparr>linkNext := Some pl\<rparr>)) (firstPart app) (as @ [pl]) (xs @ [x])"
    using link_chain_append [OF c(1) _ c(2) fresh(1), of l x] l(1) snoc by simp
  then show ?thesis using h fresh l f snoc \<open>b \<noteq> pl\<close> by (auto simp: app_holds_def addParticipant_def setNext_def)
qed

text \<open>The application adds participants as it learns of them.\<close>

fun add_participants :: "(nat \<times> nat \<times> sdes_items) list \<Rightarrow> RTPApplication \<Rightarrow> RTPApplication option" where
  "add_participants [] app = Some app"
| "add_participants ((pl, x, items) # ps) app = Option.bind (addParticipant pl x (app\<lparr>appParts := (appParts app)(x \<mapsto> items)\<rparr>)) (add_participants ps)"

lemma add_participants_holds:
  "app_holds app as xs \<Longrightarrow> distinct (as @ map fst ps) \<Longrightarrow> distinct (xs @ map (fst \<circ> snd) ps) \<Longrightarrow>
   \<exists>app'. add_participants ps app = Some app' \<and> app_holds app' (as @ map fst ps) (xs @ map (fst \<circ> snd) ps) \<and>
     map (the \<circ> appParts app') (xs @ map (fst \<circ> snd) ps) = map (the \<circ> appParts app) xs @ map (snd \<circ> snd) ps"
proof (induction ps arbitrary: app as xs)
  case (Cons q ps)
  obtain pl x items where q: "q = (pl, x, items)" by (cases q)
  from addParticipant_holds [OF Cons.prems(1), of pl x items] Cons.prems q obtain app1 where
    a: "addParticipant pl x (app\<lparr>appParts := (appParts app)(x \<mapsto> items)\<rparr>) = Some app1" "app_holds app1 (as @ [pl]) (xs @ [x])" "appParts app1 = (appParts app)(x \<mapsto> items)" by auto
  have m: "map (the \<circ> appParts app1) (xs @ [x]) = map (the \<circ> appParts app) xs @ [items]" using a(3) Cons.prems(3) q by auto
  show ?case using Cons.IH [OF a(2)] Cons.prems q a(1) m by auto
qed auto

lemma new_application_holds: "app_holds (newRTPApplication V cname) [] []"
  by (simp add: app_holds_def newRTPApplication_def Let_def)

lemma find_participant_index:
  "find_participant cname (i + k) ps = map_option (\<lambda>j. j + k) (find_participant cname i ps)"
  by (induction cname i ps rule: find_participant.induct) auto

lemma find_link_chain:
  "link_chain (appLinks app) p as xs \<Longrightarrow> set xs \<subseteq> dom (appParts app) \<Longrightarrow>
   find_link app cname p = Some (map_option (\<lambda>k. xs ! k) (find_participant cname 0 (map (the \<circ> appParts app) xs)))"
proof (induction "appLinks app" p as xs rule: link_chain.induct)
  case (1 p)
  then show ?case by (subst find_link.simps) simp
next
  case (2 p a as x xs)
  then obtain l items where l: "appLinks app a = Some l" "linkParticipant l = x" "link_chain (appLinks app) (linkNext l) as xs" "appParts app x = Some items" by auto
  have "find_link app cname (linkNext l) = Some (map_option (\<lambda>k. xs ! k) (find_participant cname 0 (map (the \<circ> appParts app) xs)))" using 2(1) [OF l(3)] 2(3) by simp
  then show ?case using 2(2) l find_participant_index [of cname 0 1 "map (the \<circ> appParts app) xs"]
    by (subst find_link.simps) (simp add: option.map_comp comp_def)
qed auto

text \<open>
  C36: participants are found by name. An application to which participants have been added in any number returns, for a name, the oldest participant that has it, and
  none if there is none: the links in memory behave as the list of participants in the order of their arrival.
\<close>

theorem participants_found:
  assumes "distinct (map fst ps)" "distinct (map (fst \<circ> snd) ps)"
  shows "\<exists>app. add_participants ps (newRTPApplication V name) = Some app \<and>
    getParticipant cname app = Some (map_option (\<lambda>k. fst (snd (ps ! k))) (find_participant cname 0 (map (snd \<circ> snd) ps)))"
proof -
  obtain app where app: "add_participants ps (newRTPApplication V name) = Some app" "app_holds app (map fst ps) (map (fst \<circ> snd) ps)"
    "map (the \<circ> appParts app) (map (fst \<circ> snd) ps) = map (snd \<circ> snd) ps"
    using add_participants_holds [OF new_application_holds, of ps V name] assms by auto
  have "find_participant cname 0 (map (snd \<circ> snd) ps) = Some k \<Longrightarrow> k < length ps" for k
    using find_participant_less [of cname 0 "map (snd \<circ> snd) ps" k] by simp
  moreover have "getParticipant cname app = Some (map_option (\<lambda>k. map (fst \<circ> snd) ps ! k) (find_participant cname 0 (map (snd \<circ> snd) ps)))"
    using find_link_chain [of app "firstPart app" "map fst ps" "map (fst \<circ> snd) ps" cname, unfolded app(3)] app(2) by (simp add: app_holds_def getParticipant_def)
  ultimately show ?thesis using app(1) by (cases "find_participant cname 0 (map (snd \<circ> snd) ps)") auto
qed

definition sample_cname_env :: cname_env where
  "sample_cname_env = \<lparr>envLogname = None, envUser = Some [117], systemUser = [115], hostName = Some [104]\<rparr>"

theorem participants_found_witness:
  "\<exists>app. add_participants [(10, 1, newParticipant [97]), (11, 2, newParticipant [98]), (12, 3, newParticipant [98])] (newRTPApplication sample_cname_env [99]) = Some app \<and>
    getParticipant [98] app = Some (Some 2)"
  using participants_found [of "[(10, 1, newParticipant [97]), (11, 2, newParticipant [98]), (12, 3, newParticipant [98])]" sample_cname_env "[99]" "[98]"]
  by (simp add: newParticipant_def setItem_def getItem_def SDESItemTypeCNAME_def SDESItemTypeEND_def SDESItemTypeH323CADDR_def numeral_2_eq_2)

lemma delete_links_all:
  "app_holds app as xs \<Longrightarrow> \<exists>app'. delete_links app = Some app' \<and> appLinks app' = Map.empty \<and> appParts app' = Map.empty \<and> firstPart app' = None"
proof (induction as arbitrary: app xs)
  case Nil
  then have "xs = []" by (cases xs) (auto simp: app_holds_def)
  then show ?case using Nil by (subst delete_links.simps) (simp add: app_holds_def)
next
  case (Cons a as)
  then obtain x xs' where x: "xs = x # xs'" by (cases xs) (auto simp: app_holds_def)
  obtain l where l: "firstPart app = Some a" "appLinks app a = Some l" "linkParticipant l = x" "link_chain (appLinks app) (linkNext l) as xs'"
    using Cons.prems x by (auto simp: app_holds_def)
  have d: "a \<notin> set as" "x \<notin> set xs'" "x \<in> dom (appParts app)" using Cons.prems x by (auto simp: app_holds_def)
  let ?app = "app\<lparr>firstPart := linkNext l, appLinks := (appLinks app)(a := None), appParts := (appParts app)(x := None)\<rparr>"
  have "app_holds ?app as xs'" using Cons.prems x d link_chain_cong [OF l(4), of "(appLinks app)(a := None)"] by (auto simp: app_holds_def)
  from Cons.IH [OF this] show ?case using l d(3) by (subst delete_links.simps) (auto simp: delete_link_def)
qed

text \<open>
  An application releases its participants. Its destructor deletes every link and every participant exactly once and reaches the end of the list.
\<close>

theorem application_released:
  assumes "distinct (map fst ps)" "distinct (map (fst \<circ> snd) ps)" "add_participants ps (newRTPApplication V name) = Some app"
  shows "\<exists>app'. endRTPApplication app = Some app' \<and> appLinks app' = Map.empty \<and> appParts app' = Map.empty \<and> firstPart app' = None \<and> lastPart app' = None"
proof -
  have "app_holds app (map fst ps) (map (fst \<circ> snd) ps)" using add_participants_holds [OF new_application_holds, of ps V name] assms by auto
  from delete_links_all [OF this] show ?thesis by (auto simp: endRTPApplication_def)
qed

theorem application_released_witness:
  "\<exists>app app'. add_participants [(10, 1, newParticipant [97]), (11, 2, newParticipant [98])] (newRTPApplication sample_cname_env [99]) = Some app \<and> appLinks app \<noteq> Map.empty \<and>
    endRTPApplication app = Some app' \<and> appLinks app' = Map.empty \<and> appParts app' = Map.empty"
proof -
  let ?ps = "[(10, 1, newParticipant [97]), (11, 2, newParticipant [98])] :: (nat \<times> nat \<times> sdes_items) list"
  obtain app where app: "add_participants ?ps (newRTPApplication sample_cname_env [99]) = Some app" "app_holds app [10, 11] [1, 2]"
    using add_participants_holds [OF new_application_holds, of ?ps sample_cname_env "[99]"] by auto
  have "distinct (map fst ?ps)" "distinct (map (fst \<circ> snd) ?ps)" by simp_all
  from application_released [OF this app(1)] app show ?thesis by (auto simp: app_holds_def)
qed

text \<open>No participant can be removed: the pointer to the previous link of every link has never been set.\<close>

lemma removeParticipant_undefined: "app_holds app as xs \<Longrightarrow> a \<in> set as \<Longrightarrow> removeParticipant (Some a) app = None"
proof -
  assume h: "app_holds app as xs" and a: "a \<in> set as"
  have "link_chain links p as xs \<Longrightarrow> a \<in> set as \<Longrightarrow> \<exists>l. links a = Some l \<and> linkPrev l = None" for links p
    by (induction links p as xs rule: link_chain.induct) auto
  then show ?thesis using h a by (fastforce simp: app_holds_def removeParticipant_def)
qed

text \<open>The name that the system knows is never used.\<close>

lemma findusername_ignores_system: "findusername (V\<lparr>systemUser := u\<rparr>) = findusername V"
  by (simp add: findusername_def Let_def)

text \<open>
  The canonical name. A name given to the constructor is the name of the application; otherwise it is user and host around an at sign, the user being the first
  of the two environment variables that is set and not empty, and empty if neither is, whatever the system itself calls the user.
\<close>

theorem application_cname:
  "getItem (applicationItems (newRTPApplication V cname)) SDESItemTypeCNAME =
     (if cname \<noteq> [] then cname
      else (if envLogname V \<noteq> None \<and> envLogname V \<noteq> Some [] then the (envLogname V) else case envUser V of Some u \<Rightarrow> u | None \<Rightarrow> []) @ [64] @
        (case hostName V of Some p \<Rightarrow> p | None \<Rightarrow> []))"
  by (auto simp: newRTPApplication_def findCNAME_def findusername_def Let_def setItem_def getItem_def SDESItemTypeCNAME_def SDESItemTypeEND_def SDESItemTypeH323CADDR_def
      split: option.splits)

end
