(* ===== verification/Gcrypt_Crypto.thy ===== *)
theory Gcrypt_Crypto
  imports Sym_Crypto
begin

text \<open>
  The cipher object of the build with libgcrypt: class \<^verbatim>\<open>SrtpSymCrypto\<close> of \<^verbatim>\<open>src/src/ccrtp/crypto/gcrypt/gcryptSrtpSymCrypto.cpp\<close>. The functions of libgcrypt are the
  parameter \<open>L\<close>; the object and the Twofish tables are those of the theory of the OpenSSL build. Without a key \<^verbatim>\<open>encrypt\<close> writes nothing here, so that the content of the
  buffer \<^verbatim>\<open>temp\<close> is an argument.
\<close>

datatype gcry_algo = GCRY_CIPHER_AES | GCRY_CIPHER_AES256

record 'gk gcry_lib =
  gcry_cipher_open :: "gcry_algo \<Rightarrow> 'gk"
  gcry_cipher_setkey :: "'gk \<Rightarrow> byte list \<Rightarrow> int \<Rightarrow> 'gk"
  gcry_cipher_encrypt :: "'gk \<Rightarrow> byte list \<Rightarrow> byte list"

definition gcry_setNewKey ::
  "'gk gcry_lib \<Rightarrow> tf_env \<Rightarrow> 'gk SrtpSymCrypto \<Rightarrow> byte list \<Rightarrow> int \<Rightarrow> (bool \<times> tf_env \<times> 'gk SrtpSymCrypto) option" where
  "gcry_setNewKey L env c k keyLength =
     (if is_aes (algorithm c) then
        let c = c\<lparr>skey := KeyNull\<rparr> in
        if keyLength = 16 then Some (True, env, c\<lparr>skey := KeyAes (gcry_cipher_setkey L (gcry_cipher_open L GCRY_CIPHER_AES) k keyLength)\<rparr>)
        else if keyLength = 32 then Some (True, env, c\<lparr>skey := KeyAes (gcry_cipher_setkey L (gcry_cipher_open L GCRY_CIPHER_AES256) k keyLength)\<rparr>)
        else Some (False, env, c)
      else if is_twofish (algorithm c) then
        let env = (if \<not> twoFishInit env
                   then \<lparr>tf_state = snd (Twofish_initialise (tf_state env) zero_twofish_key zero_twofish_key), twoFishInit = True\<rparr>
                   else env)
        in do { (_, xk) \<leftarrow> Twofish_prepare_key (tf_state env) k keyLength zero_twofish_key;
                Some (True, env, c\<lparr>skey := KeyTwofish xk\<rparr>) }
      else Some (False, env, c))"

definition newGcryptSymCrypto ::
  "'gk gcry_lib \<Rightarrow> tf_env \<Rightarrow> srtp_ealg \<Rightarrow> byte list \<Rightarrow> int \<Rightarrow> (tf_env \<times> 'gk SrtpSymCrypto) option" where
  "newGcryptSymCrypto L env algo k keyLength = map_option snd (gcry_setNewKey L env \<lparr>skey = KeyNull, algorithm = algo\<rparr> k keyLength)"

definition gcry_encrypt :: "'gk gcry_lib \<Rightarrow> 'gk SrtpSymCrypto \<Rightarrow> byte list \<Rightarrow> byte list \<Rightarrow> byte list option" where
  "gcry_encrypt L c input output =
     (case skey c of
        KeyNull \<Rightarrow> Some output
      | KeyFreed \<Rightarrow> None
      | KeyAes handle \<Rightarrow> if is_aes (algorithm c) then Some (gcry_cipher_encrypt L handle input) else if is_twofish (algorithm c) then None else Some output
      | KeyTwofish k \<Rightarrow> if is_aes (algorithm c) then None else if is_twofish (algorithm c) then Some (Twofish_encrypt k input) else Some output)"

section \<open>Counter mode\<close>

fun gcry_stream_blocks ::
  "'gk gcry_lib \<Rightarrow> 'gk SrtpSymCrypto \<Rightarrow> nat \<Rightarrow> u16 \<Rightarrow> byte list \<Rightarrow> byte list \<Rightarrow> (byte list \<times> byte list \<times> u16) option" where
  "gcry_stream_blocks L c 0 ctr output iv = Some ([], iv, ctr)"
| "gcry_stream_blocks L c (Suc l) ctr output iv =
     do { let iv = ctr_iv iv ctr;
          blk \<leftarrow> gcry_encrypt L c iv (take 16 output);
          (out, iv, ctr) \<leftarrow> gcry_stream_blocks L c l (ctr + 1) (drop 16 output) iv;
          Some (blk @ out, iv, ctr) }"

definition gcry_get_ctr_cipher_stream ::
  "'gk gcry_lib \<Rightarrow> byte list \<Rightarrow> 'gk SrtpSymCrypto \<Rightarrow> byte list \<Rightarrow> nat \<Rightarrow> byte list \<Rightarrow> (byte list \<times> byte list) option" where
  "gcry_get_ctr_cipher_stream L temp c output len iv =
     (if len div 16 > 65535 then None
      else do { (out, iv, ctr) \<leftarrow> gcry_stream_blocks L c (len div 16) 0 output iv;
                if len mod 16 > 0 then
                  do { let iv = ctr_iv iv ctr;
                       temp \<leftarrow> gcry_encrypt L c iv temp;
                       Some (out @ take (len mod 16) temp, iv) }
                else Some (out, iv) })"

fun gcry_xor_blocks ::
  "'gk gcry_lib \<Rightarrow> byte list \<Rightarrow> 'gk SrtpSymCrypto \<Rightarrow> nat \<Rightarrow> u16 \<Rightarrow> byte list \<Rightarrow> byte list \<Rightarrow> (byte list \<times> byte list \<times> u16 \<times> byte list) option" where
  "gcry_xor_blocks L temp c 0 ctr input iv = Some ([], iv, ctr, temp)"
| "gcry_xor_blocks L temp c (Suc l) ctr input iv =
     do { let iv = ctr_iv iv ctr;
          temp \<leftarrow> gcry_encrypt L c iv temp;
          (out, iv, ctr, temp') \<leftarrow> gcry_xor_blocks L temp c l (ctr + 1) (drop 16 input) iv;
          Some (xor_bytes temp (take 16 input) @ out, iv, ctr, temp') }"

definition gcry_ctr_encrypt_to ::
  "'gk gcry_lib \<Rightarrow> byte list \<Rightarrow> 'gk SrtpSymCrypto \<Rightarrow> byte list \<Rightarrow> byte list \<Rightarrow> byte list \<Rightarrow> (byte list \<times> byte list) option" where
  "gcry_ctr_encrypt_to L temp c input output iv =
     (if skey c = KeyNull then Some (output, iv)
      else if length input div 16 > 65535 then None
      else do { (out, iv, ctr, temp) \<leftarrow> gcry_xor_blocks L temp c (length input div 16) 0 input iv;
                let l = length input mod 16;
                if l > 0 then
                  do { let iv = ctr_iv iv ctr;
                       temp \<leftarrow> gcry_encrypt L c iv temp;
                       Some (out @ xor_bytes temp (drop (16 * (length input div 16)) input), iv) }
                else Some (out, iv) })"

definition gcry_ctr_encrypt :: "'gk gcry_lib \<Rightarrow> byte list \<Rightarrow> 'gk SrtpSymCrypto \<Rightarrow> byte list \<Rightarrow> byte list \<Rightarrow> (byte list \<times> byte list) option" where
  "gcry_ctr_encrypt L temp c data iv = gcry_ctr_encrypt_to L temp c data data iv"

section \<open>F8 mode\<close>

definition gcry_f8_deriveForIV ::
  "'gk gcry_lib \<Rightarrow> tf_env \<Rightarrow> 'gk SrtpSymCrypto \<Rightarrow> byte list \<Rightarrow> int \<Rightarrow> byte list \<Rightarrow> int \<Rightarrow> (tf_env \<times> 'gk SrtpSymCrypto) option" where
  "gcry_f8_deriveForIV L env f8Cipher key keyLen salt saltLen =
     (if keyLen > 32 then Some (env, f8Cipher)
      else if saltLen > keyLen then Some (env, f8Cipher)
      else
        let saltMask = take (nat saltLen) salt @ replicate (nat (keyLen - saltLen)) 0x55;
            maskedKey = xor_bytes (take (nat keyLen) key) saltMask
        in map_option snd (gcry_setNewKey L env f8Cipher maskedKey keyLen))"

definition gcry_processBlock :: "'gk gcry_lib \<Rightarrow> 'gk SrtpSymCrypto \<Rightarrow> f8_ctx \<Rightarrow> byte list \<Rightarrow> (byte list \<times> f8_ctx) option" where
  "gcry_processBlock L c f8ctx inp =
     (let S = xor_bytes (f8_S f8ctx) (ivAccent f8ctx);
          S = memcpy_at S 12 (xor_bytes (take 4 (drop 12 S)) (be32 (f8_J f8ctx)));
          f8ctx = f8ctx\<lparr>f8_J := f8_J f8ctx + 1\<rparr>
      in do { S \<leftarrow> gcry_encrypt L c S S;
              Some (xor_bytes inp S, f8ctx\<lparr>f8_S := S\<rparr>) })"

function gcry_f8_loop :: "'gk gcry_lib \<Rightarrow> 'gk SrtpSymCrypto \<Rightarrow> f8_ctx \<Rightarrow> byte list \<Rightarrow> byte list option" where
  "gcry_f8_loop L c f8ctx inp =
     (if length inp \<ge> 16 then
        do { (out, f8ctx) \<leftarrow> gcry_processBlock L c f8ctx (take 16 inp);
             rest \<leftarrow> gcry_f8_loop L c f8ctx (drop 16 inp);
             Some (out @ rest) }
      else if length inp > 0 then map_option fst (gcry_processBlock L c f8ctx inp)
      else Some [])"
  by pat_completeness auto
termination by (relation "measure (\<lambda>(L, c, f8ctx, inp). length inp)") auto

declare gcry_f8_loop.simps [simp del]

text \<open>The buffer \<open>iva\<close> of the derived vector has its former content when the second cipher has no key.\<close>

definition gcry_f8_encrypt_to ::
  "'gk gcry_lib \<Rightarrow> byte list \<Rightarrow> 'gk SrtpSymCrypto \<Rightarrow> byte list \<Rightarrow> byte list \<Rightarrow> byte list \<Rightarrow> 'gk SrtpSymCrypto \<Rightarrow> byte list option" where
  "gcry_f8_encrypt_to L iva c inp out iv f8Cipher =
     (if skey c = KeyNull then Some out
      else do { iv' \<leftarrow> gcry_encrypt L f8Cipher iv iva;
                gcry_f8_loop L c \<lparr>f8_S = replicate 16 0, ivAccent = iv', f8_J = 0\<rparr> inp })"

definition gcry_f8_encrypt :: "'gk gcry_lib \<Rightarrow> byte list \<Rightarrow> 'gk SrtpSymCrypto \<Rightarrow> byte list \<Rightarrow> byte list \<Rightarrow> 'gk SrtpSymCrypto \<Rightarrow> byte list option" where
  "gcry_f8_encrypt L iva c data iv f8Cipher = gcry_f8_encrypt_to L iva c data data iv f8Cipher"

section \<open>The two builds agree\<close>

definition gcry_runs :: "'gk gcry_lib \<Rightarrow> 'gk SrtpSymCrypto \<Rightarrow> (byte list \<Rightarrow> byte list) \<Rightarrow> bool" where
  "gcry_runs L c E \<longleftrightarrow> (\<forall>i out. length i = 16 \<longrightarrow> gcry_encrypt L c i out = Some (E i)) \<and> skey c \<noteq> KeyNull"

lemma stream_blocks_agree:
  assumes "runs aes c E" "gcry_runs L g E"
  shows "length iv = 16 \<Longrightarrow> gcry_stream_blocks L g l ctr buf iv = ctr_stream_blocks aes c l ctr buf iv"
proof (induction l arbitrary: ctr buf iv)
  case (Suc l)
  then show ?case using assms by (simp add: runs_def gcry_runs_def Let_def)
qed simp

lemma stream_agrees:
  assumes "runs aes c E" "gcry_runs L g E" "length iv = 16"
  shows "gcry_get_ctr_cipher_stream L temp g buf len iv = get_ctr_cipher_stream aes c buf len iv"
proof -
  have l: "length iv' = 16" if "ctr_stream_blocks aes c l ctr buf iv = Some (out, iv', ctr')" "length iv = 16" for l ctr buf iv out iv' ctr'
    using that
  proof (induction l arbitrary: ctr buf iv out)
    case (Suc l)
    then show ?case by (fastforce simp: Let_def split: Option.bind_splits)
  qed simp
  have "gcry_stream_blocks L g (len div 16) 0 buf iv = ctr_stream_blocks aes c (len div 16) 0 buf iv" by (rule stream_blocks_agree [OF assms])
  then show ?thesis using assms l [of "len div 16" 0 buf iv]
    by (cases "ctr_stream_blocks aes c (len div 16) 0 buf iv")
      (auto simp: gcry_get_ctr_cipher_stream_def get_ctr_cipher_stream_def runs_def gcry_runs_def Let_def)
qed

lemma xor_blocks_agree:
  assumes "runs aes c E" "gcry_runs L g E"
  shows "length iv = 16 \<Longrightarrow> map_option (\<lambda>(out, iv, ctr, temp). (out, iv, ctr)) (gcry_xor_blocks L temp g l ctr input iv) = ctr_xor_blocks aes c l ctr input iv"
proof (induction l arbitrary: ctr input iv temp)
  case (Suc l)
  have "gcry_encrypt L g (ctr_iv iv ctr) temp = Some (E (ctr_iv iv ctr))" "encrypt aes c (ctr_iv iv ctr) (replicate 16 0) = Some (E (ctr_iv iv ctr))"
    using assms Suc.prems by (simp_all add: runs_def gcry_runs_def)
  then show ?case using Suc.IH [of "ctr_iv iv ctr" "E (ctr_iv iv ctr)" "ctr + 1" "drop 16 input", symmetric] Suc.prems
    by (cases "gcry_xor_blocks L (E (ctr_iv iv ctr)) g l (ctr + 1) (drop 16 input) (ctr_iv iv ctr)") (auto simp: Let_def)
qed simp

lemma ctr_agrees:
  assumes "runs aes c E" "gcry_runs L g E" "length iv = 16"
  shows "gcry_ctr_encrypt L temp g data iv = ctr_encrypt aes c data iv"
proof -
  have l: "length iv' = 16" if "ctr_xor_blocks aes c l ctr input iv = Some (out, iv', ctr')" "length iv = 16" for l ctr input iv out iv' ctr'
    using that
  proof (induction l arbitrary: ctr input iv out)
    case (Suc l)
    then show ?case by (fastforce simp: Let_def split: Option.bind_splits)
  qed simp
  note a = xor_blocks_agree [OF assms(1,2,3), where temp = temp and l = "length data div 16" and ctr = 0 and input = data]
  have k: "skey g \<noteq> KeyNull" "skey c \<noteq> KeyNull" using assms by (simp_all add: runs_def gcry_runs_def)
  show ?thesis
  proof (cases "gcry_xor_blocks L temp g (length data div 16) 0 data iv")
    case None
    then show ?thesis using a k by (simp add: gcry_ctr_encrypt_def gcry_ctr_encrypt_to_def ctr_encrypt_def ctr_encrypt_to_def)
  next
    case (Some r)
    obtain out iv' ctr t where r: "r = (out, iv', ctr, t)" by (cases r)
    then have b: "ctr_xor_blocks aes c (length data div 16) 0 data iv = Some (out, iv', ctr)" using a Some by simp
    then have "length (ctr_iv iv' ctr) = 16" using l assms(3) by simp
    then have "gcry_encrypt L g (ctr_iv iv' ctr) t = encrypt aes c (ctr_iv iv' ctr) (replicate 16 0)" using assms(1,2) by (simp add: runs_def gcry_runs_def)
    then show ?thesis using Some b r k by (simp add: gcry_ctr_encrypt_def gcry_ctr_encrypt_to_def ctr_encrypt_def ctr_encrypt_to_def Let_def)
  qed
qed

lemma processBlock_agrees:
  assumes "runs aes c E" "gcry_runs L g E" "length (f8_S x) = 16" "length (ivAccent x) = 16"
  shows "gcry_processBlock L g x inp = processBlock aes c x inp"
proof -
  let ?S = "xor_bytes (f8_S x) (ivAccent x)"
  have "length (memcpy_at ?S 12 (xor_bytes (take 4 (drop 12 ?S)) (be32 (f8_J x)))) = 16" using assms(3,4) by simp
  then show ?thesis using assms(1,2) by (simp add: gcry_processBlock_def processBlock_def runs_def gcry_runs_def Let_def)
qed

lemma f8_loop_agrees:
  assumes r: "runs aes c E" "gcry_runs L g E"
  shows "length (f8_S x) = 16 \<Longrightarrow> length (ivAccent x) = 16 \<Longrightarrow> gcry_f8_loop L g x inp = f8_loop aes c x inp"
proof (induction "length inp" arbitrary: inp x rule: less_induct)
  case less
  note p = processBlock_agrees [OF r less.prems]
  have k: "length (f8_S y) = 16 \<and> length (ivAccent y) = 16" if "processBlock aes c x b = Some (out, y)" for b out y
  proof -
    let ?S = "xor_bytes (f8_S x) (ivAccent x)"
    have "length (memcpy_at ?S 12 (xor_bytes (take 4 (drop 12 ?S)) (be32 (f8_J x)))) = 16" using less.prems by simp
    then show ?thesis using that r(1) less.prems by (auto simp: processBlock_def runs_def Let_def split: Option.bind_splits)
  qed
  show ?case
  proof (cases "length inp \<ge> 16")
    case True
    show ?thesis
    proof (cases "processBlock aes c x (take 16 inp)")
      case None
      then show ?thesis using True p by (subst gcry_f8_loop.simps, subst f8_loop.simps) simp
    next
      case (Some q)
      obtain out y where q: "q = (out, y)" by fastforce
      have "gcry_f8_loop L g y (drop 16 inp) = f8_loop aes c y (drop 16 inp)" by (rule less.hyps) (use True k Some q in auto)
      then show ?thesis using True p Some q by (subst gcry_f8_loop.simps, subst f8_loop.simps) simp
    qed
  next
    case False
    then show ?thesis using p by (subst gcry_f8_loop.simps, subst f8_loop.simps) simp
  qed
qed

lemma f8_agrees:
  assumes "runs aes c E" "gcry_runs L g E" "runs aes c2 E2" "gcry_runs L g2 E2" "length iv = 16"
  shows "gcry_f8_encrypt L iva g data iv g2 = f8_encrypt aes c data iv c2"
proof -
  have e: "gcry_encrypt L g2 iv iva = Some (E2 iv)" "encrypt aes c2 iv (replicate 16 0) = Some (E2 iv)" "length (E2 iv) = 16" "skey c \<noteq> KeyNull" "skey g \<noteq> KeyNull"
    using assms by (simp_all add: runs_def gcry_runs_def)
  then show ?thesis using f8_loop_agrees [OF assms(1,2), of "\<lparr>f8_S = replicate 16 0, ivAccent = E2 iv, f8_J = 0\<rparr>" data]
    by (simp add: gcry_f8_encrypt_def gcry_f8_encrypt_to_def f8_encrypt_def f8_encrypt_to_def)
qed

text \<open>What is used of the two libraries: on blocks of sixteen bytes and keys of 16 or 32 bytes they compute the same function.\<close>

definition same_aes :: "'gk gcry_lib \<Rightarrow> 'ak aes_lib \<Rightarrow> bool" where
  "same_aes L aes \<longleftrightarrow> (\<forall>k b. length b = 16 \<longrightarrow>
     gcry_cipher_encrypt L (gcry_cipher_setkey L (gcry_cipher_open L GCRY_CIPHER_AES) k 16) b = AES_encrypt aes (AES_set_encrypt_key aes k 128) b \<and>
     gcry_cipher_encrypt L (gcry_cipher_setkey L (gcry_cipher_open L GCRY_CIPHER_AES256) k 32) b = AES_encrypt aes (AES_set_encrypt_key aes k 256) b)"

lemma keys_agree:
  assumes "block_cipher (AES_encrypt aes)" "same_aes L aes" "setNewKey aes env (newSrtpSymCrypto algo) k n = Some (True, env', c)"
  shows "\<exists>g E. gcry_setNewKey L env (newSrtpSymCrypto algo) k n = Some (True, env', g) \<and> runs aes c E \<and> gcry_runs L g E"
proof -
  from assms(3) consider "is_aes algo" "n = 16" "env' = env" "c = \<lparr>skey = KeyAes (AES_set_encrypt_key aes k 128), algorithm = algo\<rparr>"
    | "is_aes algo" "n = 32" "env' = env" "c = \<lparr>skey = KeyAes (AES_set_encrypt_key aes k 256), algorithm = algo\<rparr>"
    | xk where "is_twofish algo" "\<not> is_aes algo" "c = \<lparr>skey = KeyTwofish xk, algorithm = algo\<rparr>" "gcry_setNewKey L env (newSrtpSymCrypto algo) k n = Some (True, env', \<lparr>skey = KeyTwofish xk, algorithm = algo\<rparr>)"
    by (auto simp: setNewKey_def gcry_setNewKey_def newSrtpSymCrypto_def Let_def split: if_splits Option.bind_splits)
  then show ?thesis
  proof cases
    case 1
    let ?g = "\<lparr>skey = KeyAes (gcry_cipher_setkey L (gcry_cipher_open L GCRY_CIPHER_AES) k 16), algorithm = algo\<rparr>"
    have "runs aes c (AES_encrypt aes (AES_set_encrypt_key aes k 128))" using 1 runs_aes [OF assms(1)] by simp
    moreover have "gcry_runs L ?g (AES_encrypt aes (AES_set_encrypt_key aes k 128))" using 1(1) assms(2) by (simp add: gcry_runs_def gcry_encrypt_def same_aes_def)
    moreover have "gcry_setNewKey L env (newSrtpSymCrypto algo) k n = Some (True, env', ?g)" using 1 by (simp add: gcry_setNewKey_def newSrtpSymCrypto_def)
    ultimately show ?thesis by blast
  next
    case 2
    let ?g = "\<lparr>skey = KeyAes (gcry_cipher_setkey L (gcry_cipher_open L GCRY_CIPHER_AES256) k 32), algorithm = algo\<rparr>"
    have "runs aes c (AES_encrypt aes (AES_set_encrypt_key aes k 256))" using 2 runs_aes [OF assms(1)] by simp
    moreover have "gcry_runs L ?g (AES_encrypt aes (AES_set_encrypt_key aes k 256))" using 2(1) assms(2) by (simp add: gcry_runs_def gcry_encrypt_def same_aes_def)
    moreover have "gcry_setNewKey L env (newSrtpSymCrypto algo) k n = Some (True, env', ?g)" using 2 by (simp add: gcry_setNewKey_def newSrtpSymCrypto_def)
    ultimately show ?thesis by blast
  next
    case 3
    then have "runs aes c (Twofish_encrypt xk)" "gcry_runs L \<lparr>skey = KeyTwofish xk, algorithm = algo\<rparr> (Twofish_encrypt xk)"
      using runs_twofish [of c xk aes] by (simp_all add: gcry_runs_def gcry_encrypt_def)
    then show ?thesis using 3(4) by blast
  qed
qed

text \<open>
  C23: the two builds of the cipher agree. When both libraries implement AES, a key that the OpenSSL object accepts is accepted by the libgcrypt object, and then the key stream, counter mode
  and F8 mode give the same bytes for all data and vectors, for AES and for Twofish.
\<close>

theorem backends_agree:
  assumes "block_cipher (AES_encrypt aes)" "same_aes L aes"
    and "setNewKey aes env (newSrtpSymCrypto algo) k n = Some (True, env', c)" "setNewKey aes env2 (newSrtpSymCrypto algo) k2 n2 = Some (True, env2', c2)"
  shows "\<exists>g g2. gcry_setNewKey L env (newSrtpSymCrypto algo) k n = Some (True, env', g) \<and> gcry_setNewKey L env2 (newSrtpSymCrypto algo) k2 n2 = Some (True, env2', g2) \<and>
    (\<forall>iv buf data. length iv = 16 \<longrightarrow>
      gcry_get_ctr_cipher_stream L temp g buf (length buf) iv = get_ctr_cipher_stream aes c buf (length buf) iv \<and>
      gcry_ctr_encrypt L temp g data iv = ctr_encrypt aes c data iv \<and>
      gcry_f8_encrypt L temp g data iv g2 = f8_encrypt aes c data iv c2)"
proof -
  obtain g E where g: "gcry_setNewKey L env (newSrtpSymCrypto algo) k n = Some (True, env', g)" "runs aes c E" "gcry_runs L g E"
    using keys_agree [OF assms(1-3)] by blast
  obtain g2 E2 where g2: "gcry_setNewKey L env2 (newSrtpSymCrypto algo) k2 n2 = Some (True, env2', g2)" "runs aes c2 E2" "gcry_runs L g2 E2"
    using keys_agree [OF assms(1,2,4)] by blast
  show ?thesis using g(1) g2(1) stream_agrees [OF g(2,3)] ctr_agrees [OF g(2,3)] f8_agrees [OF g(2,3) g2(2,3)] by blast
qed

definition sample_gcry :: "byte list gcry_lib" where
  "sample_gcry = \<lparr>gcry_cipher_open = \<lambda>_. [], gcry_cipher_setkey = \<lambda>_ k _. k, gcry_cipher_encrypt = \<lambda>k b. xor_bytes b (take 16 (k @ replicate 16 0))\<rparr>"

theorem backends_agree_witness:
  "\<exists>c g. setNewKey sample_aes sample_env (newSrtpSymCrypto SrtpEncryptionAESCM) (replicate 16 7) 16 = Some (True, sample_env, c) \<and>
    gcry_setNewKey sample_gcry sample_env (newSrtpSymCrypto SrtpEncryptionAESCM) (replicate 16 7) 16 = Some (True, sample_env, g) \<and>
    gcry_ctr_encrypt sample_gcry (replicate 16 1) g [1, 2, 3] (replicate 16 0) = ctr_encrypt sample_aes c [1, 2, 3] (replicate 16 0)"
proof -
  let ?c = "\<lparr>skey = KeyAes (replicate 16 7), algorithm = SrtpEncryptionAESCM\<rparr> :: byte list SrtpSymCrypto"
  have k: "setNewKey sample_aes sample_env (newSrtpSymCrypto SrtpEncryptionAESCM) (replicate 16 7) 16 = Some (True, sample_env, ?c)"
    by (simp add: setNewKey_def newSrtpSymCrypto_def is_aes_def sample_aes_def)
  have "same_aes sample_gcry sample_aes" by (simp add: same_aes_def sample_gcry_def sample_aes_def)
  from backends_agree [OF sample_aes_block_cipher this k k, of "replicate 16 1"] show ?thesis using k by (metis length_replicate)
qed

text \<open>
  A Twofish key of a length that the cipher does not support is accepted by this build, and the packets are then encrypted with an expanded key of zeroes.
\<close>

lemma twofish_bad_length_accepted:
  assumes "is_twofish (algorithm c)" "\<not> is_aes (algorithm c)" "twoFishInit env" "Twofish_initialised (tf_state env)" "32 < n" "n \<le> int (length k)"
  shows "gcry_setNewKey L env c k n = Some (True, env, c\<lparr>skey := KeyTwofish zero_twofish_key\<rparr>)"
  using Twofish_prepare_key_result [OF assms(4,6)] assms(1-3,5) by (simp add: gcry_setNewKey_def)

end
