(* ===== verification/Spec2Isabelle.thy ===== *)
theory Spec2Isabelle
  imports Session_Pool Participants Gcrypt_Crypto
begin

text \<open>
  GNU ccRTP is a C++ library for the Real-time Transport Protocol with its control protocol RTCP and the secure
  profile SRTP. A session sends data that an application puts into an outgoing queue, takes in datagrams from the network, keeps a table of the
  sources it hears, orders what arrives for the application, exchanges RTCP reports, and protects both kinds of packets with one crypto context for
  each source. The development follows this structure, from the ciphers up to the session.

  \<^bold>\<open>Conventions.\<close> A C integer of width \<open>w\<close> is a \<open>w word\<close>, so its arithmetic wraps as in the code; where the code computes in \<^verbatim>\<open>int\<close> or \<^verbatim>\<open>size_t\<close> on values
  whose range is known the model uses integers or naturals and says so in the theory. Memory is a list of bytes. A result \<^term>\<open>None\<close> is what has no
  defined behaviour in C (an access outside a buffer, a null or freed pointer, a shift by the width, a division by zero) or, where a theory says so, a loop that
  does not end. Error codes of the code are values of the model. Linked structures whose pointers matter (the table of sources, the packet
  queues) live in explicit heaps, maps from addresses, with a relation to the list or map they represent.

  \<^bold>\<open>Parameters.\<close> Code that is not part of the repository is an argument of the definitions that use it: the AES and HMAC functions of
  OpenSSL and libgcrypt, the rounding of single precision numbers, the clock, random numbers, the content of fresh memory, the network. The
  theorems that need something of them say it as a hypothesis and have a witness with a concrete instance. The virtual functions that a subclass may override are fields of an
  environment; those that only notify are recorded as events in the order of the calls.

  \<^bold>\<open>The parts\<close> (file names are under \<^verbatim>\<open>src/src\<close>).

  \<^item> \<open>Ccrtp_Prelude\<close>: machine types, network byte order, bounded copies, linear maps on bytes. Shared by all.

  \<^item> \<open>Twofish\<close>, \<open>Twofish_Keys\<close>, \<open>Twofish_Selftest\<close>: \<^verbatim>\<open>ccrtp/crypto/twofish.c\<close>. Every block is a permutation for every key, the optimised tables are
  the matrices of the specification, short keys are padded keys, and the self-test succeeds.

  \<^item> \<open>Skein_Block\<close>, \<open>Skein\<close>, \<open>Skein_Api\<close>: \<^verbatim>\<open>ccrtp/crypto/skein_block.c\<close>, \<^verbatim>\<open>skein.c\<close>, \<^verbatim>\<open>skeinApi.c\<close>, \<^verbatim>\<open>macSkein.cpp\<close>. The three block functions are instances of one
  reference cipher, hashing in pieces is hashing at once, and a context can be used again after a reset.

  \<^item> \<open>Sym_Crypto\<close>: \<^verbatim>\<open>ccrtp/crypto/openssl/SrtpSymCrypto.cpp\<close>, the cipher object with counter mode and f8 mode. \<open>Gcrypt_Crypto\<close>: the same class in
  \<^verbatim>\<open>ccrtp/crypto/gcrypt/gcryptSrtpSymCrypto.cpp\<close>, which gives the same bytes for every key that the first one accepts.

  \<^item> \<open>Rtp_Packet\<close>: \<^verbatim>\<open>ccrtp/rtppkt.h\<close>, \<^verbatim>\<open>rtppkt.cpp\<close>, the memory image of RTP packets; what is built is what is parsed.

  \<^item> \<open>Crypto_Context\<close>, \<open>Srtp_Replay\<close>, \<open>Srtp_Keys\<close>, \<open>Srtp_Packet\<close>: \<^verbatim>\<open>CryptoContext.cpp\<close> and the SRTP methods of \<^verbatim>\<open>rtppkt.cpp\<close>. Index guessing, the
  replay window, the derived keys, rejection of forgeries and replays, and, in counter mode, a stream of packets that comes back in order with rollover of the sequence number.

  \<^item> \<open>Crypto_Store\<close>: the lists of contexts that the queues keep, with the locale \<open>ctx_store\<close>.

  \<^item> \<open>Members\<close>: \<^verbatim>\<open>members.cpp\<close>, the hash table of sources chained in order of arrival, with the locale \<open>ssrc_registry\<close>.

  \<^item> \<open>Reception\<close>: the statistics of a source, \<^verbatim>\<open>recordReception\<close>, \<^verbatim>\<open>initStats\<close>, \<^verbatim>\<open>computeStats\<close>, compared with an unbounded stream.

  \<^item> \<open>Dll\<close>, \<open>Packet_Queue\<close>: the doubly linked lists of received packets of \<^verbatim>\<open>incqueue.cpp\<close> and the queries of the application on them. Insertion is characterised in
  all cases, also for a packet before the first one, which the code links in and no query finds.

  \<^item> \<open>Collision\<close>: \<^verbatim>\<open>ConflictHandler\<close> and the checks for collisions and loops on data and control packets.

  \<^item> \<open>Incoming_Queue\<close>: \<^verbatim>\<open>takeInDataPacket\<close> as a whole: it keeps the table of sources and the lists, and delivers what a new source sends.

  \<^item> \<open>Srtcp_Context\<close>: \<^verbatim>\<open>CryptoContextCtrl.cpp\<close> and the protection of compound packets in \<^verbatim>\<open>control.cpp\<close>.

  \<^item> \<open>Rtcp_Packet\<close>, \<open>Rtcp_Send\<close>, \<open>Rtcp_Receive\<close>: \<^verbatim>\<open>rtcppkt.cpp\<close>, \<^verbatim>\<open>ccrtp/rtcppkt.h\<close>, \<^verbatim>\<open>source.cpp\<close> and \<^verbatim>\<open>control.cpp\<close>: the layout of the packets, the compound packets a
  session sends, and \<^verbatim>\<open>takeInControlPacket\<close>. What is packed fits into the buffer and is read back by the handler.

  \<^item> \<open>Outgoing_Queue\<close>: \<^verbatim>\<open>outqueue.cpp\<close>, \<^verbatim>\<open>ccrtp/oqueue.h\<close>: destinations, segmentation, the list of unsent packets, scheduling and sending, with the locale
  \<open>packet_fifo\<close>.

  \<^item> \<open>Md5_Digest\<close>, \<open>Data_Queue\<close>: \<^verbatim>\<open>queue.cpp\<close>, \<^verbatim>\<open>ccrtp/queuebase.h\<close>, \<^verbatim>\<open>ccrtp/ioqueue.h\<close>: the MD5 digest on 64-bit words with its stream buffer, which is that of RFC 1321 for
  messages below 512 MB, the random numbers, and the data queue around the two packet queues with its timestamp and its end.

  \<^item> \<open>Rtcp_Service\<close>: the manager object of \<^verbatim>\<open>control.cpp\<close> with the services the thread of a session calls. The next check and the next report are at the right times, a report that is due
  is sent, and large sessions are left after a back-off.

  \<^item> \<open>Session\<close>: the ports of a session and the loop of \<^verbatim>\<open>SingleThreadRTPSession\<close> in \<^verbatim>\<open>ccrtp/rtp.h\<close>, one function for a turn. A packet that is due is sent in the next turn, and an idle
  session takes in what arrives.

  \<^item> \<open>Session_Pool\<close>: \<^verbatim>\<open>pool.cpp\<close>, \<^verbatim>\<open>ccrtp/pool.h\<close>: the list of sessions of a pool, which with the locale \<open>session_list\<close> refines a plain list under creating, adding and removing sessions, and the thread of a pool as a machine whose steps are the locked parts
  of its loop. No interleaving with the application uses freed memory; the range of sockets for \<^verbatim>\<open>select\<close> may be too small.

  \<^item> \<open>Participants\<close>: \<^verbatim>\<open>RTPApplication\<close> of \<^verbatim>\<open>source.cpp\<close>: the linked list of participants behaves as the list that \<open>Rtcp_Receive\<close> works on.

  \<^item> This theory composes two sessions: what the application of one puts in, the application of the other gets, through the turns of their threads.

  \<^bold>\<open>Loops and fuel.\<close> Loops are recursive functions with a termination proof, or \<open>partial_function (option)\<close> where the code can run forever; then the
  theorems show that a result exists. The only fuel is that of the loop over BYE packets in \<open>Rtcp_Receive\<close>, which the code really leaves unbounded: an empty
  BYE packet is shown to exhaust every amount of fuel, and the round trip of a BYE needs two steps. The functions that call it hand the fuel on. The loops that wait for time or
  for datagrams (the back-off of \<open>dispatchBYE\<close>, \<open>session_run\<close>) run over the list of what they meet and give \<open>Loops\<close> when it is used up.

  \<^bold>\<open>Not modelled.\<close> Sockets and the operating system: \<^verbatim>\<open>socket.cpp\<close>, \<^verbatim>\<open>duplex.cpp\<close>, \<^verbatim>\<open>data.cpp\<close>, \<^verbatim>\<open>ccrtp/channel.h\<close> and multicast membership in \<^verbatim>\<open>ccrtp/rtp.h\<close> only call GNU Common C++; what a session
  receives is an argument of the model and what it sends is recorded. The HMAC and start-up files for libgcrypt only call that library, and
  the IPv6 copies of destination lists and sessions repeat the IPv4 ones. The locks of the queues are left out: their operations are the atomic steps; the lock of a pool
  gives the steps of \<open>Session_Pool\<close>. The demonstration programs only use the library.
\<close>

section \<open>From one application to the other\<close>

text \<open>When a timestamp of the application is due.\<close>

definition stamp_time :: "u32 \<Rightarrow> ('na, 'ak, 'hm) OutQueue \<Rightarrow> timeval option" where
  "stamp_time stamp st =
     (let rate = oqClockRate st in
      if rate < 1000 then None
      else Some (timeradd \<lparr>tv_sec = uint (stamp div rate), tv_usec = 1000 * uint (stamp mod rate) div (uint rate div 1000)\<rparr> (oqOverflow st)))"

lemma next_packet_timestamp: "next_packet E stamp first seg None st = Some (p, st') \<Longrightarrow> getTimestamp p = stamp + oqInitialTimestamp st"
  by (auto simp: next_packet_def Let_def send_pkt_def getTimestamp_def setTimestamp_def setSeqNum_def setPayloadType_def setMarker_def setSSRC_def)

text \<open>Data of one segment becomes one waiting packet.\<close>

lemma one_packet_put:
  fixes st :: "('na, 'ak, 'hm) OutQueue" and stamp :: u32 and data :: "byte list"
  defines "ip \<equiv> parsed_wire (oqMarked st) (oqPayloadType st) (oqSeq st) (stamp + oqInitialTimestamp st) (oqLocalSSRC st) [] [] data 0"
  assumes s: "out_holds (oqList st) []" "sendable st" "oqPadding st = 0" "getOutQueueCryptoContext (oqLocalSSRC st) (oqContexts st) = None"
      "getOutQueueCryptoContext 0 (oqContexts st) = None" "data \<noteq> []" "length data \<le> oqMaxSegment st" "oqMaxSegment st < 2 ^ 20"
  obtains p st1 m where "putData E stamp (Some data) st = Some st1" "out_holds (oqList st1) [p]" "getTimestamp p = stamp + oqInitialTimestamp st"
    "newIncomingRTPPkt (getRawPacketSrtp p) = Some ip" "getRawPacketSrtp p = pbuffer ip"
    "st1 = st\<lparr>oqSeq := oqSeq st + 1, oqMarked := m, oqEnv := oqEnv st1, oqContexts := oqContexts st1, oqList := oqList st1\<rparr>"
proof -
  have M: "0 < oqMaxSegment st" using s(6,7) by (cases data) auto
  have sg: "segments (oqMaxSegment st) data = [data]" using s(6,7) M by (simp add: segments.simps [of "oqMaxSegment st" data])
  have pw: "plain_wires st stamp (oqMarked st) (oqSeq st) [data] = [ip]" using s(3) by (simp add: padding_len_def ip_def)
  obtain p st' where p: "make_packets E stamp True (segments (oqMaxSegment st) data) st = Some ([p], st')"
    "newIncomingRTPPkt (getRawPacketSrtp p) = Some ip" "getRawPacketSrtp p = pbuffer ip"
    using make_packets_plain [OF s(4,5,2), of "[data]" E stamp True] s(7,8) unfolding simp_thms pw sg by auto
  have "select_out E st = Some (None, st)" using s(4,5) by (simp add: select_out_def)
  then have ts: "getTimestamp p = stamp + oqInitialTimestamp st" using p(1) unfolding sg by (auto split: Option.bind_splits intro: next_packet_timestamp)
  obtain q where q: "put_loop E stamp data 0 st = Some (st'\<lparr>oqList := q\<rparr>)" "out_holds q [p]"
    using put_loop_refines [OF M s(1), where E = E and stamp = stamp and offset = 0 and data = data] p(1) by auto
  obtain m where "st' = st\<lparr>oqSeq := oqSeq st + 1, oqMarked := m, oqEnv := oqEnv st', oqContexts := oqContexts st'\<rparr>"
    using make_packets_frame [OF p(1)] unfolding sg by auto
  then have "st'\<lparr>oqList := q\<rparr> = st\<lparr>oqSeq := oqSeq st + 1, oqMarked := m, oqEnv := oqEnv (st'\<lparr>oqList := q\<rparr>), oqContexts := oqContexts (st'\<lparr>oqList := q\<rparr>), oqList := oqList (st'\<lparr>oqList := q\<rparr>)\<rparr>"
    by (cases st', cases st) simp
  then show ?thesis using that q s(6) ts p(2,3) by (simp add: putData_def)
qed

lemma only_packet_is_read:
  fixes q :: "'na PktQueue"
  assumes inv: "q_inv q [a]" and l: "pktHeap q a = Some l"
  shows "getFirstTimestamp None q = Some (shiftedTimestamp l)"
    "\<exists>q'. getData (\<lambda>_. False) (shiftedTimestamp l) None q = Some (Some (lpacket l, psource l), q') \<and> q_inv q' [] \<and> isWaiting None q' = Some False"
proof -
  have f: "recvFirst q = Some a" using inv by (simp add: q_inv_def)
  then show "getFirstTimestamp None q = Some (shiftedTimestamp l)" using l by (simp add: getFirstTimestamp_def pkt_at_def)
  have qr: "query (\<lambda>_. False) (shiftedTimestamp l) q [a] = (Some a, [])" using l by (simp add: query_def is_old_def)
  obtain q1 where q1: "getWaiting_any (\<lambda>_. False) (shiftedTimestamp l) q = Some (Some a, q1)" "q_inv q1 []"
    "map_option lpacket (pktHeap q1 a) = map_option lpacket (pktHeap q a)" "map_option psource (pktHeap q1 a) = map_option psource (pktHeap q a)"
    using getWaiting_any_ok [OF inv, of "\<lambda>_. False" "shiftedTimestamp l"] unfolding qr by auto
  have i: "q_inv (free_pkt a q1) []" by (rule q_inv_free [OF q1(2)]) simp
  then have "isWaiting None (free_pkt a q1) = Some False" by (simp add: isWaiting_def q_inv_def)
  then show "\<exists>q'. getData (\<lambda>_. False) (shiftedTimestamp l) None q = Some (Some (lpacket l, psource l), q') \<and> q_inv q' [] \<and> isWaiting None q' = Some False"
    using q1 l i by (auto simp: getData_def getWaiting_def)
qed

text \<open>A datagram of a new source is read as the only packet.\<close>

lemma datagram_read:
  fixes rv :: "('na, 'ak, 'hm) InQueue" and data :: "byte list" and mk :: bool and pt :: byte and sq :: u16 and ts :: u32 and ssrc :: u32
  defines "ip \<equiv> parsed_wire mk pt sq ts ssrc [] [] data 0"
  assumes r: "iq_ok (iqPackets rv) []" "pktFirst (snd (newSource R)) = None" "pktLast (snd (newSource R)) = None"
      "ssrc \<notin> ids (qmembers (iqPackets rv))" "ssrc \<noteq> localSSRC rv" "minValidPacketSequence (iqParams rv) = 0"
      "iqContexts rv = []" "\<And>x. onRTPPacketRecv R x" "12 + length data \<le> maxRecvPacketSize rv"
    and w: "newIncomingRTPPkt (pbuffer ip) = Some ip" "length data < 2 ^ 20" "pt < 128"
  shows "\<exists>rv' ts a q. takeInDataPacket R t (Some (pbuffer ip, na, tp)) rv = Some (length (pbuffer ip), rv') \<and> iqEvents rv' = iqEvents rv @ [NewSyncSource ssrc] \<and>
    getFirstTimestamp None (iqPackets rv') = Some ts \<and> getData (\<lambda>_. False) ts None (iqPackets rv') = Some (Some (ip, a), q) \<and>
    isWaiting None q = Some False" "getPayload ip = data" "cachedSSRC ip = ssrc" "getSeqNum ip = sq"
proof -
  have b: "pbuffer ip = rtp_wire mk pt sq ts ssrc [] [] data 0" by (simp add: ip_def parsed_wire_def)
  have b: "pbuffer ip \<noteq> []" "\<not> bit (pbuffer ip ! 0) 5" "length (pbuffer ip) = 12 + length data" unfolding b
    by (simp_all add: rtp_wire_def pad_bytes_def byte0_def)
  show f: "cachedSSRC ip = ssrc" "getSeqNum ip = sq" by (simp_all add: ip_def parsed_wire_def getSeqNum_def)
  have v: "headerValid ip" by (simp add: ip_def parsed_wire_def)
  show "getPayload ip = data" by (rule parsed_fields(4) [OF _ _ _ meta_eq_to_obj_eq [OF ip_def]]) (use w in auto)
  obtain rv' gs' a where T: "takeInDataPacket R t (Some (pbuffer ip, na, tp)) rv = Some (length (pbuffer ip), rv')" "iq_ok (iqPackets rv') gs'" "set gs' = {a}"
    "map_option lpacket (pktHeap (iqPackets rv') a) = Some ip" "iqEvents rv' = iqEvents rv @ [NewSyncSource ssrc]"
    using takeIn_new_source [OF b(1,2) w(1) v r(1-3) _ _ r(6-8), of t na tp] r(4,5,9) b(3) f(1) by auto
  have inv: "q_inv (iqPackets rv') gs'" using T(2) by (simp add: iq_ok_def)
  then have "distinct gs'" by (simp add: q_inv_def)
  then have "length gs' = 1" using T(3) distinct_card by fastforce
  then have "gs' = [a]" using T(3) by (cases gs') auto
  obtain l where l: "pktHeap (iqPackets rv') a = Some l" "lpacket l = ip" using T(4) by auto
  note only_packet_is_read [OF inv [unfolded \<open>gs' = [a]\<close>] l(1)]
  then show "\<exists>rv' ts a q. takeInDataPacket R t (Some (pbuffer ip, na, tp)) rv = Some (length (pbuffer ip), rv') \<and> iqEvents rv' = iqEvents rv @ [NewSyncSource ssrc] \<and>
    getFirstTimestamp None (iqPackets rv') = Some ts \<and> getData (\<lambda>_. False) ts None (iqPackets rv') = Some (Some (ip, a), q) \<and>
    isWaiting None q = Some False" using T(1,5) l(2) by metis
qed

text \<open>
  C1: from one application to the other, through the turns of the threads of two sessions. The application of the first session puts data that fits into one packet into
  its empty queue, for a time that is due within a millisecond and has not expired; the next turn of that session sends one datagram to its one
  destination, and its queue is empty again. A turn of the second session, which has nothing to send and does not know the source, in which
  this datagram arrives, takes it in and announces the source; its application is told the timestamp of the packet, gets the data for that timestamp, and the queue is empty.
\<close>

theorem session_to_session:
  fixes a b :: "('na, 'ak, 'hm) Session"
  defines "st \<equiv> dqOut (ssData a)" and "rv \<equiv> dqIn (ssData b)"
  assumes s: "out_holds (oqList st) []" "sendable st" "oqPadding st = 0" "getOutQueueCryptoContext (oqLocalSSRC st) (oqContexts st) = None"
      "getOutQueueCryptoContext 0 (oqContexts st) = None" "data \<noteq> []" "length data \<le> oqMaxSegment st" "oqMaxSegment st < 2 ^ 20" "oqDestinations st = [d]"
    and due: "ssTimeout a < 1000" "quiet ta a" "stamp_time stamp st = Some tt" "near (tiSchedule ta 0) tt"
      "\<not> late (oqExpireTimeout st) (tiSchedule ta 0) tt" "usecs tt < usecs (tiSchedule ta 0) + 1000"
    and r: "iq_ok (iqPackets rv) []" "pktFirst (snd (newSource R)) = None" "pktLast (snd (newSource R)) = None"
      "oqLocalSSRC st \<notin> ids (qmembers (iqPackets rv))" "oqLocalSSRC st \<noteq> localSSRC rv" "minValidPacketSequence (iqParams rv) = 0"
      "iqContexts rv = []" "\<And>x. onRTPPacketRecv R x" "12 + length data \<le> maxRecvPacketSize rv"
    and idle: "ssTimeout b < 1000" "quiet tb b" "out_holds (oqList (dqOut (ssData b))) []" "dataServiceActive (ssData b)"
      "1000 \<le> oqSchedulingTimeout (dqOut (ssData b))" "1000 \<le> timeval2microtimeout (rtcpCheckInterval (ssControl b))"
  shows "\<exists>a1 a2 w. session_put E stamp (Some data) a = Some a1 \<and> session_turn fuel EA RA ta a1 = Returns a2 \<and>
    oqSent (dqOut (ssData a2)) = oqSent st @ [((destAddress d, destDataPort d), w)] \<and> \<not> isSending (oqList (dqOut (ssData a2))) \<and>
    (\<exists>b' ts ip src q. session_turn fuel EB R (tb\<lparr>tiData := Some (t, Some (w, na, tp))\<rparr>) b = Returns b' \<and>
      iqEvents (dqIn (ssData b')) = iqEvents rv @ [NewSyncSource (oqLocalSSRC st)] \<and>
      getFirstTimestamp None (iqPackets (dqIn (ssData b'))) = Some ts \<and> getData (\<lambda>_. False) ts None (iqPackets (dqIn (ssData b'))) = Some (Some (ip, src), q) \<and>
      getPayload ip = data \<and> cachedSSRC ip = oqLocalSSRC st \<and> getSeqNum ip = oqSeq st \<and> isWaiting None q = Some False)"
proof -
  obtain p st1 m where P: "putData E stamp (Some data) st = Some st1" "out_holds (oqList st1) [p]" "getTimestamp p = stamp + oqInitialTimestamp st"
    "newIncomingRTPPkt (getRawPacketSrtp p) = Some (parsed_wire (oqMarked st) (oqPayloadType st) (oqSeq st) (stamp + oqInitialTimestamp st) (oqLocalSSRC st) [] [] data 0)"
    "getRawPacketSrtp p = pbuffer (parsed_wire (oqMarked st) (oqPayloadType st) (oqSeq st) (stamp + oqInitialTimestamp st) (oqLocalSSRC st) [] [] data 0)"
    "st1 = st\<lparr>oqSeq := oqSeq st + 1, oqMarked := m, oqEnv := oqEnv st1, oqContexts := oqContexts st1, oqList := oqList st1\<rparr>"
    by (rule one_packet_put [OF s(1-8), where E = E and stamp = stamp])
  let ?a1 = "a\<lparr>ssData := (ssData a)\<lparr>dqOut := st1, dqIn := (dqIn (ssData a))\<lparr>iqEnv := oqEnv st1\<rparr>\<rparr>\<rparr>" and ?w = "getRawPacketSrtp p"
  have put: "session_put E stamp (Some data) a = Some ?a1" using P(1) by (simp add: session_put_def st_def)
  have fr: "oqSent st1 = oqSent st" "oqDestinations st1 = oqDestinations st" "oqExpireTimeout st1 = oqExpireTimeout st" "oqInitialTimestamp st1 = oqInitialTimestamp st"
    "oqClockRate st1 = oqClockRate st" "oqOverflow st1 = oqOverflow st" by (subst P(6), simp)+
  have "send_time st1 p = Some tt" using due(3) P(3) fr by (auto simp: send_time_def stamp_time_def Let_def split: if_splits)
  then obtain a2 where a2: "session_turn fuel EA RA ta ?a1 = Returns a2" "out_holds (oqList (dqOut (ssData a2))) []"
    "oqSent (dqOut (ssData a2)) = oqSent st1 @ to_all (oqDestinations st1) ?w"
    using due_packet_sent [of ?a1 ta p "[]" tt fuel EA RA] due P(2) fr by (auto simp: quiet_def)
  have sent: "oqSent (dqOut (ssData a2)) = oqSent st @ [((destAddress d, destDataPort d), ?w)]" using a2(3) fr s(9) by (simp add: to_all_def)
  have "length data < 2 ^ 20" "oqPayloadType st < 128" using s(2,7,8) by (auto simp: sendable_def)
  note D = datagram_read [OF r P(4) [unfolded P(5)] this]
  obtain rv' ts src q where T: "takeInDataPacket R t (Some (?w, na, tp)) rv = Some (length ?w, rv')" "iqEvents rv' = iqEvents rv @ [NewSyncSource (oqLocalSSRC st)]"
    "getFirstTimestamp None (iqPackets rv') = Some ts" "isWaiting None q = Some False"
    "getData (\<lambda>_. False) ts None (iqPackets rv') = Some (Some (parsed_wire (oqMarked st) (oqPayloadType st) (oqSeq st) (stamp + oqInitialTimestamp st) (oqLocalSSRC st) [] [] data 0, src), q)"
    using D(1) [of t na tp] P(5) by metis
  let ?tb = "tb\<lparr>tiData := Some (t, Some (?w, na, tp))\<rparr>"
  have "quiet ?tb b" using idle(2) by (simp add: quiet_def)
  then obtain b' where "session_turn fuel EB R ?tb b = Returns b'" "dqIn (ssData b') = rv'"
    using idle_session_receives [OF idle(1) _ idle(3-6) _ T(1) [unfolded rv_def], where ti = ?tb and fuel = fuel and E = EB] by auto
  then show ?thesis using put a2(1,2) sent T D(2-4) isSending_holds [OF a2(2)] by auto
qed

text \<open>Data with the timestamp 160 at a rate of 8000 is due after 20 milliseconds.\<close>

theorem session_to_session_witness:
  "let a = sample_session (sample_sender []); b = sample_session (sample_sender []) in
    \<exists>a1 a2 w. session_put sample_send_env 160 (Some [1, 2]) a = Some a1 \<and>
      session_turn 10 sample_service sample_in_env (sample_turn \<lparr>tv_sec = 0, tv_usec = 20000\<rparr> None) a1 = Returns a2 \<and>
      oqSent (dqOut (ssData a2)) = oqSent (dqOut (ssData a)) @ [(((), 5004), w)] \<and>
      (\<exists>b' ts ip src q. session_turn 10 sample_service sample_in_env (sample_turn (sec_time 1) (Some (sec_time 1, Some (w, (), 5000)))) b = Returns b' \<and>
        getData (\<lambda>_. False) ts None (iqPackets (dqIn (ssData b'))) = Some (Some (ip, src), q) \<and> getPayload ip = [1, 2] \<and> isWaiting None q = Some False)"
proof -
  define a where "a = sample_session (sample_sender [])"
  define d where "d = \<lparr>destAddress = (), destDataPort = 5004, destControlPort = 5005\<rparr>"
  have o: "dqOut (ssData a) = sample_sender []" "dqIn (ssData a) = sample_in" "dataServiceActive (ssData a)" "ssTimeout a < 1000" "rtcpCheckInterval (ssControl a) = \<lparr>tv_sec = 0, tv_usec = 250000\<rparr>"
    by (simp_all add: a_def sample_session_def sample_queue_def enableStack_def initQueue_def sample_manager_def newQueueRTCPManager_def)
  have u: "1000 \<le> timeval2microtimeout \<lparr>tv_sec = 0, tv_usec = 250000\<rparr>" by (simp add: timeval2microtimeout_def)
  have s: "oqDestinations (sample_sender []) = [d]" "1000 \<le> oqSchedulingTimeout (sample_sender [])" "oqExpireTimeout (sample_sender []) = defaultExpireTimeout"
    "stamp_time 160 (sample_sender []) = Some \<lparr>tv_sec = 0, tv_usec = 20000\<rparr>" "getOutQueueCryptoContext x (oqContexts (sample_sender [])) = None" for x
    by (simp_all add: sample_sender_def sample_oq_def newOutgoingDataQueue_def defaultSchedulingTimeout_def stamp_time_def timeradd_def getOutQueueCryptoContext_def d_def)
  have q: "quiet (sample_turn t e) a" for t e unfolding a_def by (rule sample_turn_quiet)
  have t: "near \<lparr>tv_sec = 0, tv_usec = 20000\<rparr> \<lparr>tv_sec = 0, tv_usec = 20000\<rparr>" "\<not> late x \<lparr>tv_sec = 0, tv_usec = 20000\<rparr> \<lparr>tv_sec = 0, tv_usec = 20000\<rparr>" for x
    by (simp_all add: near_def late_def)
  have n: "tiSchedule (sample_turn t e) 0 = t" "(sample_turn t e)\<lparr>tiData := e'\<rparr> = sample_turn t e'" for t e e' by (simp_all add: sample_turn_def)
  have "\<exists>a1 a2 w. session_put sample_send_env 160 (Some [1, 2]) a = Some a1 \<and>
      session_turn 10 sample_service sample_in_env (sample_turn \<lparr>tv_sec = 0, tv_usec = 20000\<rparr> None) a1 = Returns a2 \<and>
      oqSent (dqOut (ssData a2)) = oqSent (dqOut (ssData a)) @ [((destAddress d, destDataPort d), w)] \<and> \<not> isSending (oqList (dqOut (ssData a2))) \<and>
    (\<exists>b' ts ip src q. session_turn 10 sample_service sample_in_env ((sample_turn (sec_time 1) None)\<lparr>tiData := Some (sec_time 1, Some (w, (), 5000))\<rparr>) a = Returns b' \<and>
      iqEvents (dqIn (ssData b')) = iqEvents (dqIn (ssData a)) @ [NewSyncSource (oqLocalSSRC (dqOut (ssData a)))] \<and>
      getFirstTimestamp None (iqPackets (dqIn (ssData b'))) = Some ts \<and> getData (\<lambda>_. False) ts None (iqPackets (dqIn (ssData b'))) = Some (Some (ip, src), q) \<and>
      getPayload ip = [1, 2] \<and> cachedSSRC ip = oqLocalSSRC (dqOut (ssData a)) \<and> getSeqNum ip = oqSeq (dqOut (ssData a)) \<and> isWaiting None q = Some False)"
    by (rule session_to_session [where tt = "\<lparr>tv_sec = 0, tv_usec = 20000\<rparr>"])
      (use s t u q sample_in_ok sample_in_fields in \<open>simp_all add: o n sample_sender_ok\<close>)
  then show ?thesis unfolding a_def [symmetric] Let_def n(2) by (simp add: d_def) blast
qed

end
